(* ===== verification/Fcgi_Prelude.thy ===== *)
theory Fcgi_Prelude
  imports Main "HOL-Library.Word"
begin

text \<open>
  Shared vocabulary of the development: bytes, the result type of code that may fail to
  return, its sequencing operator, and generic facts on lists, buffers and words.

  A C function that returns normally is a value \<open>Inr x\<close>. Five things a C function may do
  instead of returning are made explicit as \<open>Inl f\<close>: an \<open>ASSERT\<close> that fails
  (\<open>AssertFail\<close>), an access outside the memory the code owns (\<open>OutOfBounds\<close>), a system call
  that waits for an event that never comes (\<open>Blocked\<close>), a
  loop that does not end (\<open>NoReturn\<close>) and an operation the C standard leaves undefined
  (\<open>Undefined\<close>). Errors that the code itself reports (a negative
  return value, \<open>EOF\<close>, the error code kept in a stream) are ordinary values.
\<close>

section \<open>Bytes and results\<close>

type_synonym byte = "8 word"

datatype fault = AssertFail | OutOfBounds | NoReturn | Blocked | Undefined

type_synonym 'a res = "fault + 'a"

definition bindr :: "'a res \<Rightarrow> ('a \<Rightarrow> 'b res) \<Rightarrow> 'b res" where
  "bindr m k = (case m of Inl f \<Rightarrow> Inl f | Inr x \<Rightarrow> k x)"

definition assertr :: "bool \<Rightarrow> 'a res \<Rightarrow> 'a res" where
  "assertr b m = (if b then m else Inl AssertFail)"

text \<open>Memory accesses of a C object: guarded by the bounds of the object.\<close>

definition inbounds :: "bool \<Rightarrow> 'a res \<Rightarrow> 'a res" where
  "inbounds b m = (if b then m else Inl OutOfBounds)"

named_theorems res_simps \<open>rewriting of results and their sequencing\<close>

lemma bindr_simps [simp, res_simps]:
  "bindr (Inl f) k = Inl f"
  "bindr (Inr x) k = k x"
  by (simp_all add: bindr_def)

lemma assertr_simps [simp, res_simps]:
  "assertr True m = m"
  "assertr False m = Inl AssertFail"
  by (simp_all add: assertr_def)

lemma inbounds_simps [simp, res_simps]:
  "inbounds True m = m"
  "inbounds False m = Inl OutOfBounds"
  by (simp_all add: inbounds_def)

lemma bindr_Inr_iff [res_simps]:
  "bindr m k = Inr y \<longleftrightarrow> (\<exists>x. m = Inr x \<and> k x = Inr y)"
  by (cases m) auto

lemma bindr_Inl_iff:
  "bindr m k = Inl f \<longleftrightarrow> m = Inl f \<or> (\<exists>x. m = Inr x \<and> k x = Inl f)"
  by (cases m) auto

lemma assertr_Inr_iff: "assertr b m = Inr y \<longleftrightarrow> b \<and> m = Inr y"
  by (simp add: assertr_def)

lemma inbounds_Inr_iff: "inbounds b m = Inr y \<longleftrightarrow> b \<and> m = Inr y"
  by (simp add: inbounds_def)

lemmas res_iffs = bindr_Inr_iff assertr_Inr_iff inbounds_Inr_iff

lemma bindr_cong [fundef_cong]:
  "m = m' \<Longrightarrow> (\<And>x. m' = Inr x \<Longrightarrow> k x = k' x) \<Longrightarrow> bindr m k = bindr m' k'"
  by (cases m') auto

text \<open>The C string stored in a run of bytes: the bytes before the first NUL.\<close>

definition c_str :: "byte list \<Rightarrow> byte list" where
  "c_str bs = takeWhile (\<lambda>b. b \<noteq> 0) bs"

section \<open>Slices of a buffer\<close>

text \<open>The \<open>n\<close> bytes from offset \<open>i\<close>, and a store of a run of bytes at an offset.\<close>

definition sub_bytes :: "nat \<Rightarrow> nat \<Rightarrow> 'a list \<Rightarrow> 'a list" where
  "sub_bytes i n xs = take n (drop i xs)"

definition put_bytes :: "nat \<Rightarrow> 'a list \<Rightarrow> 'a list \<Rightarrow> 'a list" where
  "put_bytes i ys xs = take i xs @ ys @ drop (i + length ys) xs"

lemma length_sub_bytes [simp]: "i + n \<le> length xs \<Longrightarrow> length (sub_bytes i n xs) = n"
  by (simp add: sub_bytes_def)

lemma sub_bytes_0 [simp]: "sub_bytes i 0 xs = []"
  by (simp add: sub_bytes_def)

lemma length_put_bytes [simp]: "i + length ys \<le> length xs \<Longrightarrow> length (put_bytes i ys xs) = length xs"
  by (simp add: put_bytes_def)

lemma take_put_bytes: "i + length ys \<le> length xs \<Longrightarrow> take (i + length ys) (put_bytes i ys xs) = take i xs @ ys"
  by (simp add: put_bytes_def)

lemma take_put_before: "j \<le> i \<Longrightarrow> i \<le> length xs \<Longrightarrow> take j (put_bytes i ys xs) = take j xs"
  by (simp add: put_bytes_def min_def)

lemma sub_bytes_split: "sub_bytes i (m + n) xs = sub_bytes i m xs @ sub_bytes (i + m) n xs"
  by (simp add: sub_bytes_def take_add drop_drop add.commute)

lemma sub_put_prefix:
  "length ys \<le> length xs \<Longrightarrow> sub_bytes 0 (length ys) (put_bytes 0 ys xs) = ys"
  by (simp add: sub_bytes_def put_bytes_def)

lemma sub_bytes_Suc:
  "i < length xs \<Longrightarrow> sub_bytes i (Suc n) xs = xs ! i # sub_bytes (Suc i) n xs"
  by (simp add: sub_bytes_def Cons_nth_drop_Suc [symmetric])

lemma take_append_le: "n \<le> length xs \<Longrightarrow> take n (xs @ ys) = take n xs"
  by simp

end
