(* ===== verification/Fcgi_Wire.thy ===== *)
theory Fcgi_Wire
  imports Fcgi_Prelude
begin

text \<open>
  The FastCGI record format: the constants and structures of \<open>include/fastcgi.h\<close>, the error
  codes of \<open>include/fcgiapp.h\<close>, the functions of \<open>libfcgi/fcgiapp.c\<close> and
  \<open>cgi-fcgi/cgi-fcgi.c\<close> that build headers and bodies, and the alignment helpers. A structure
  of \<open>unsigned char\<close> fields is laid out in memory field by field, without padding, so its
  bytes are the list of its fields. A C \<open>int\<close> is an \<open>int\<close>; \<open>>>\<close> on it is the
  arithmetic shift \<open>drop_bit\<close>, and the conversion to \<open>unsigned char\<close> is \<open>word_of_int\<close>.
\<close>

unbundle bit_operations_syntax

section \<open>Constants\<close>

named_theorems fcgi_consts \<open>values of the protocol constants\<close>

definition FCGI_MAX_LENGTH :: int where [fcgi_consts]: "FCGI_MAX_LENGTH = 0xffff"
definition FCGI_HEADER_LEN :: nat where [fcgi_consts]: "FCGI_HEADER_LEN = 8"
definition FCGI_VERSION_1 :: byte where [fcgi_consts]: "FCGI_VERSION_1 = 1"
definition FCGI_BEGIN_REQUEST :: int where [fcgi_consts]: "FCGI_BEGIN_REQUEST = 1"
definition FCGI_ABORT_REQUEST :: int where [fcgi_consts]: "FCGI_ABORT_REQUEST = 2"
definition FCGI_END_REQUEST :: int where [fcgi_consts]: "FCGI_END_REQUEST = 3"
definition FCGI_PARAMS :: int where [fcgi_consts]: "FCGI_PARAMS = 4"
definition FCGI_STDIN :: int where [fcgi_consts]: "FCGI_STDIN = 5"
definition FCGI_STDOUT :: int where [fcgi_consts]: "FCGI_STDOUT = 6"
definition FCGI_STDERR :: int where [fcgi_consts]: "FCGI_STDERR = 7"
definition FCGI_DATA :: int where [fcgi_consts]: "FCGI_DATA = 8"
definition FCGI_GET_VALUES :: int where [fcgi_consts]: "FCGI_GET_VALUES = 9"
definition FCGI_GET_VALUES_RESULT :: int where [fcgi_consts]: "FCGI_GET_VALUES_RESULT = 10"
definition FCGI_UNKNOWN_TYPE :: int where [fcgi_consts]: "FCGI_UNKNOWN_TYPE = 11"
definition FCGI_LISTENSOCK_FILENO :: int where "FCGI_LISTENSOCK_FILENO = 0"
definition FCGI_NULL_REQUEST_ID :: int where [fcgi_consts]: "FCGI_NULL_REQUEST_ID = 0"
definition FCGI_KEEP_CONN :: byte where [fcgi_consts]: "FCGI_KEEP_CONN = 1"
definition FCGI_RESPONDER :: int where [fcgi_consts]: "FCGI_RESPONDER = 1"
definition FCGI_AUTHORIZER :: int where [fcgi_consts]: "FCGI_AUTHORIZER = 2"
definition FCGI_FILTER :: int where [fcgi_consts]: "FCGI_FILTER = 3"
definition FCGI_REQUEST_COMPLETE :: int where [fcgi_consts]: "FCGI_REQUEST_COMPLETE = 0"
definition FCGI_CANT_MPX_CONN :: int where [fcgi_consts]: "FCGI_CANT_MPX_CONN = 1"
definition FCGX_UNSUPPORTED_VERSION :: int where [fcgi_consts]: "FCGX_UNSUPPORTED_VERSION = - 2"
definition FCGX_PROTOCOL_ERROR :: int where [fcgi_consts]: "FCGX_PROTOCOL_ERROR = - 3"
definition FCGX_PARAMS_ERROR :: int where [fcgi_consts]: "FCGX_PARAMS_ERROR = - 4"
definition FCGX_CALL_SEQ_ERROR :: int where [fcgi_consts]: "FCGX_CALL_SEQ_ERROR = - 5"
definition EOF :: int where [fcgi_consts]: "EOF = - 1"

text \<open>A string literal of the source as bytes, without the terminating NUL.\<close>

definition bytes :: "string \<Rightarrow> byte list" where
  "bytes s = map of_char s"

definition FCGI_MAX_CONNS :: "byte list" where "FCGI_MAX_CONNS = bytes ''FCGI_MAX_CONNS''"
definition FCGI_MAX_REQS :: "byte list" where "FCGI_MAX_REQS = bytes ''FCGI_MAX_REQS''"
definition FCGI_MPXS_CONNS :: "byte list" where "FCGI_MPXS_CONNS = bytes ''FCGI_MPXS_CONNS''"

section \<open>Structures and their bytes\<close>

record FCGI_Header =
  h_version :: byte
  h_type :: byte
  h_requestIdB1 :: byte
  h_requestIdB0 :: byte
  h_contentLengthB1 :: byte
  h_contentLengthB0 :: byte
  h_paddingLength :: byte
  h_reserved :: byte

definition header_bytes :: "FCGI_Header \<Rightarrow> byte list" where
  "header_bytes h = [h_version h, h_type h, h_requestIdB1 h, h_requestIdB0 h,
     h_contentLengthB1 h, h_contentLengthB0 h, h_paddingLength h, h_reserved h]"

definition header_of_bytes :: "byte list \<Rightarrow> FCGI_Header" where
  "header_of_bytes bs = \<lparr>h_version = bs ! 0, h_type = bs ! 1, h_requestIdB1 = bs ! 2,
     h_requestIdB0 = bs ! 3, h_contentLengthB1 = bs ! 4, h_contentLengthB0 = bs ! 5,
     h_paddingLength = bs ! 6, h_reserved = bs ! 7\<rparr>"

text \<open>\<open>(B1 << 8) + B0\<close>, as the code reads two-byte fields.\<close>

definition be16 :: "byte \<Rightarrow> byte \<Rightarrow> int" where
  "be16 b1 b0 = push_bit 8 (uint b1) + uint b0"

definition header_requestId :: "FCGI_Header \<Rightarrow> int" where
  "header_requestId h = be16 (h_requestIdB1 h) (h_requestIdB0 h)"

definition header_contentLength :: "FCGI_Header \<Rightarrow> int" where
  "header_contentLength h = be16 (h_contentLengthB1 h) (h_contentLengthB0 h)"

record FCGI_BeginRequestBody =
  b_roleB1 :: byte
  b_roleB0 :: byte
  b_flags :: byte
  b_reserved :: "byte list"

definition begin_body_bytes :: "FCGI_BeginRequestBody \<Rightarrow> byte list" where
  "begin_body_bytes b = [b_roleB1 b, b_roleB0 b, b_flags b] @ b_reserved b"

definition begin_body_of_bytes :: "byte list \<Rightarrow> FCGI_BeginRequestBody" where
  "begin_body_of_bytes bs =
     \<lparr>b_roleB1 = bs ! 0, b_roleB0 = bs ! 1, b_flags = bs ! 2, b_reserved = drop 3 bs\<rparr>"

record FCGI_EndRequestBody =
  e_appStatusB3 :: byte
  e_appStatusB2 :: byte
  e_appStatusB1 :: byte
  e_appStatusB0 :: byte
  e_protocolStatus :: byte
  e_reserved :: "byte list"

definition end_body_bytes :: "FCGI_EndRequestBody \<Rightarrow> byte list" where
  "end_body_bytes b = [e_appStatusB3 b, e_appStatusB2 b, e_appStatusB1 b, e_appStatusB0 b,
     e_protocolStatus b] @ e_reserved b"

record FCGI_UnknownTypeBody =
  u_type :: byte
  u_reserved :: "byte list"

definition unknown_body_bytes :: "FCGI_UnknownTypeBody \<Rightarrow> byte list" where
  "unknown_body_bytes b = u_type b # u_reserved b"

section \<open>Builders\<close>

definition uchar :: "int \<Rightarrow> byte" where
  "uchar x = word_of_int x"

definition MakeHeader :: "int \<Rightarrow> int \<Rightarrow> int \<Rightarrow> int \<Rightarrow> FCGI_Header res" where
  "MakeHeader type requestId contentLength paddingLength =
     assertr (0 \<le> contentLength \<and> contentLength \<le> FCGI_MAX_LENGTH)
    (assertr (0 \<le> paddingLength \<and> paddingLength \<le> 0xff)
    (Inr \<lparr>h_version = FCGI_VERSION_1,
          h_type = uchar type,
          h_requestIdB1 = uchar (drop_bit 8 requestId AND 0xff),
          h_requestIdB0 = uchar (requestId AND 0xff),
          h_contentLengthB1 = uchar (drop_bit 8 contentLength AND 0xff),
          h_contentLengthB0 = uchar (contentLength AND 0xff),
          h_paddingLength = uchar paddingLength,
          h_reserved = 0\<rparr>))"

definition MakeEndRequestBody :: "int \<Rightarrow> int \<Rightarrow> FCGI_EndRequestBody" where
  "MakeEndRequestBody appStatus protocolStatus =
     \<lparr>e_appStatusB3 = uchar (drop_bit 24 appStatus AND 0xff),
      e_appStatusB2 = uchar (drop_bit 16 appStatus AND 0xff),
      e_appStatusB1 = uchar (drop_bit 8 appStatus AND 0xff),
      e_appStatusB0 = uchar (appStatus AND 0xff),
      e_protocolStatus = uchar protocolStatus,
      e_reserved = replicate 3 0\<rparr>"

definition MakeUnknownTypeBody :: "int \<Rightarrow> FCGI_UnknownTypeBody" where
  "MakeUnknownTypeBody type = \<lparr>u_type = uchar type, u_reserved = replicate 7 0\<rparr>"

definition AlignInt8 :: "32 word \<Rightarrow> int" where
  "AlignInt8 n = sint ((n + 7) AND (- 1 - 7))"

text \<open>The distance by which \<open>AlignPtr8\<close> moves a pointer with address \<open>u\<close>.\<close>

definition AlignPtr8 :: "64 word \<Rightarrow> 64 word" where
  "AlignPtr8 p = (let u = ((p + 7) AND (- 1 - 7)) - p in p + u)"

text \<open>
  \<open>FCGIUtil_BuildNameValueHeader\<close> of \<open>cgi-fcgi.c\<close>: the bytes stored from
  \<open>headerBuffPtr\<close>; their number is what the code stores into \<open>*headerLenPtr\<close>.
\<close>

definition length_field :: "int \<Rightarrow> byte list" where
  "length_field n =
     (if n < 0x80 then [uchar n]
      else [uchar (drop_bit 24 n OR 0x80), uchar (drop_bit 16 n), uchar (drop_bit 8 n), uchar n])"

definition FCGIUtil_BuildNameValueHeader :: "int \<Rightarrow> int \<Rightarrow> byte list res" where
  "FCGIUtil_BuildNameValueHeader nameLen valueLen =
     assertr (0 \<le> nameLen) (assertr (0 \<le> valueLen)
       (Inr (length_field nameLen @ length_field valueLen)))"

definition MakeBeginRequestBody :: "int \<Rightarrow> bool \<Rightarrow> FCGI_BeginRequestBody res" where
  "MakeBeginRequestBody role keepConnection =
     assertr (drop_bit 16 role = 0)
       (Inr \<lparr>b_roleB1 = uchar (drop_bit 8 role AND 0xff),
             b_roleB0 = uchar (role AND 0xff),
             b_flags = (if keepConnection then FCGI_KEEP_CONN else 0),
             b_reserved = replicate 5 0\<rparr>)"

section \<open>Byte-level facts\<close>

lemma and_255: "x AND 0xff = x mod 256" for x :: int
  using take_bit_eq_mask [of 8 x] by (simp add: take_bit_eq_mod mask_eq_exp_minus_1)

lemma uint_uchar [simp]: "uint (uchar x) = x mod 256"
  by (simp add: uchar_def uint_word_of_int)

lemma uchar_and_255 [simp]: "uchar (x AND 0xff) = uchar x"
proof -
  have "uint (uchar (x AND 0xff)) = uint (uchar x)"
    by (simp only: uint_uchar and_255) simp
  then show ?thesis by (simp add: word_uint_eq_iff)
qed

lemma be16_split [simp]: "be16 (uchar (drop_bit 8 x)) (uchar x) = x mod 65536"
proof -
  have "(x div 256) mod 256 * 256 + x mod 256 = x mod 65536"
    using mod_mult2_eq' [of x 256 256] by (simp add: mult.commute)
  then show ?thesis by (simp add: be16_def push_bit_eq_mult drop_bit_eq_div)
qed

lemma be16_bounds: "0 \<le> be16 b1 b0" "be16 b1 b0 < 65536"
proof -
  have "uint b1 < 256" "uint b0 < 256"
    using uint_lt2p [of b1] uint_lt2p [of b0] by simp_all
  then show "0 \<le> be16 b1 b0" "be16 b1 b0 < 65536"
    by (simp_all add: be16_def push_bit_eq_mult)
qed

lemma header_bytes_inverse: "length bs = 8 \<Longrightarrow> header_bytes (header_of_bytes bs) = bs"
proof -
  assume "length bs = 8"
  then have "bs = [bs ! 0, bs ! 1, bs ! 2, bs ! 3, bs ! 4, bs ! 5, bs ! 6, bs ! 7]"
    by (auto simp: list_eq_iff_nth_eq less_Suc_eq numeral_eq_Suc)
  then show ?thesis
    unfolding header_bytes_def header_of_bytes_def by simp
qed

lemma header_of_bytes_inverse [simp]: "header_of_bytes (header_bytes h) = h"
  by (simp add: header_bytes_def header_of_bytes_def)

lemma and_neg8: "x AND - 8 = x - x mod 8" for x :: "'a::len word"
proof -
  have "- 8 = NOT (mask 3 :: 'a word)"
    by (simp add: mask_eq_exp_minus_1 not_eq_complement)
  then have "x AND - 8 = x AND NOT (mask 3)" by simp
  also have "\<dots> = x - take_bit 3 x"
  proof -
    have "(x AND NOT (mask 3)) + take_bit 3 x = x"
      by (subst disjunctive_add)
        (auto simp: bit_eq_iff bit_simps take_bit_eq_mask)
    then show ?thesis by (simp add: eq_diff_eq)
  qed
  finally show ?thesis by (simp add: take_bit_eq_mod)
qed

lemma unat_and_neg8: "unat (x AND - 8) = unat x - unat x mod 8" for x :: "32 word"
proof -
  have "unat (x mod 8) = unat x mod 8" by (simp add: unat_mod)
  moreover have "x mod 8 \<le> x" by (simp add: word_le_nat_alt unat_mod)
  ultimately show ?thesis by (simp add: and_neg8 unat_sub)
qed

lemma AlignInt8_eq:
  assumes "n < 2 ^ 31 - 8"
  shows "AlignInt8 (of_nat n) = int (8 * ((n + 7) div 8))"
proof -
  let ?w = "(of_nat n + 7 :: 32 word) AND (- 8)"
  have "unat (of_nat n + 7 :: 32 word) = n + 7"
    using assms by (simp add: unat_word_ariths unat_of_nat take_bit_nat_eq_self)
  then have u: "unat ?w = 8 * ((n + 7) div 8)"
    by (simp add: unat_and_neg8 minus_mod_eq_mult_div)
  then have ui: "uint ?w = int (8 * ((n + 7) div 8))"
    by (simp only: uint_nat)
  have "8 * ((n + 7) div 8) < 2147483648" using assms by simp
  then have "int (8 * ((n + 7) div 8)) < int 2147483648" by (simp only: of_nat_less_iff)
  then have "int (8 * ((n + 7) div 8)) < 2 ^ 31" by (simp only: of_nat_numeral) simp
  then have "signed_take_bit 31 (uint ?w) = uint ?w"
    by (simp only: signed_take_bit_int_eq_self_iff ui) simp
  then have "sint ?w = uint ?w"
    by (simp add: sint_uint)
  then show ?thesis by (simp add: AlignInt8_def ui)
qed

lemma MakeHeader_Inr:
  assumes "0 \<le> n" "n \<le> 65535" "0 \<le> p" "p \<le> 255"
  shows "MakeHeader t r n p = Inr \<lparr>h_version = 1, h_type = uchar t,
     h_requestIdB1 = uchar (drop_bit 8 r), h_requestIdB0 = uchar r,
     h_contentLengthB1 = uchar (drop_bit 8 n), h_contentLengthB0 = uchar n,
     h_paddingLength = uchar p, h_reserved = 0\<rparr>"
  using assms by (simp add: MakeHeader_def fcgi_consts)

lemma length_header_bytes [simp]: "length (header_bytes h) = 8"
  by (simp add: header_bytes_def)

lemma AlignInt8_bounds:
  assumes "n < 2 ^ 31 - 8"
  shows "int n \<le> AlignInt8 (of_nat n)" "AlignInt8 (of_nat n) \<le> int n + 7"
    "AlignInt8 (of_nat n) mod 8 = 0"
proof -
  have "n \<le> 8 * ((n + 7) div 8)" "8 * ((n + 7) div 8) \<le> n + 7" by linarith+
  then have "int n \<le> int (8 * ((n + 7) div 8))" "int (8 * ((n + 7) div 8)) \<le> int (n + 7)"
    by (simp_all only: of_nat_le_iff)
  then show "int n \<le> AlignInt8 (of_nat n)" "AlignInt8 (of_nat n) \<le> int n + 7"
    by (simp_all add: AlignInt8_eq [OF assms])
  show "AlignInt8 (of_nat n) mod 8 = 0"
    by (simp add: AlignInt8_eq [OF assms])
qed

section \<open>Records as the library writes and reads them\<close>

text \<open>The header for the given fields, and a record: header, content, padding.\<close>

definition header_for :: "int \<Rightarrow> int \<Rightarrow> nat \<Rightarrow> nat \<Rightarrow> FCGI_Header" where
  "header_for ty rid n p = \<lparr>h_version = 1, h_type = uchar ty,
     h_requestIdB1 = uchar (drop_bit 8 rid), h_requestIdB0 = uchar rid,
     h_contentLengthB1 = uchar (drop_bit 8 (int n)), h_contentLengthB0 = uchar (int n),
     h_paddingLength = uchar (int p), h_reserved = 0\<rparr>"

definition rec_bytes :: "int \<Rightarrow> int \<Rightarrow> byte list \<Rightarrow> byte list \<Rightarrow> byte list" where
  "rec_bytes ty rid c p = header_bytes (header_for ty rid (length c) (length p)) @ c @ p"

lemma MakeHeader_for:
  "n \<le> 65535 \<Longrightarrow> p \<le> 255 \<Longrightarrow> MakeHeader ty rid (int n) (int p) = Inr (header_for ty rid n p)"
  by (simp add: MakeHeader_Inr header_for_def)

lemma header_for_fields:
  "h_version (header_for ty rid n p) = FCGI_VERSION_1"
  "0 \<le> ty \<Longrightarrow> ty \<le> 255 \<Longrightarrow> uint (h_type (header_for ty rid n p)) = ty"
  "0 \<le> rid \<Longrightarrow> rid \<le> 65535 \<Longrightarrow> header_requestId (header_for ty rid n p) = rid"
  "n \<le> 65535 \<Longrightarrow> header_contentLength (header_for ty rid n p) = int n"
  "p \<le> 255 \<Longrightarrow> unat (h_paddingLength (header_for ty rid n p)) = p"
proof -
  show "p \<le> 255 \<Longrightarrow> unat (h_paddingLength (header_for ty rid n p)) = p"
  proof -
    assume "p \<le> 255"
    then have "uint (uchar (int p)) = int p" by simp
    then show ?thesis by (simp add: header_for_def unat_eq_nat_uint)
  qed
qed (simp_all add: header_for_def header_requestId_def header_contentLength_def fcgi_consts)

section \<open>Properties\<close>

text \<open>A record header built by \<open>MakeHeader\<close> is eight bytes long and decodes to the fields it was built from.\<close>

theorem header_roundtrip:
  assumes "0 \<le> ty" "ty \<le> 255" "0 \<le> rid" "rid \<le> 65535" "0 \<le> n" "n \<le> 65535" "0 \<le> p" "p \<le> 255"
  shows "\<exists>h. MakeHeader ty rid n p = Inr h \<and> length (header_bytes h) = 8 \<and>
     (let g = header_of_bytes (header_bytes h) in h_version g = FCGI_VERSION_1 \<and> uint (h_type g) = ty
        \<and> header_requestId g = rid \<and> header_contentLength g = n \<and> uint (h_paddingLength g) = p)"
  using assms by (simp add: MakeHeader_Inr header_requestId_def header_contentLength_def FCGI_VERSION_1_def)

theorem header_roundtrip_witness:
  "\<exists>h. MakeHeader 6 258 65535 255 = Inr h \<and> length (header_bytes h) = 8 \<and>
     (let g = header_of_bytes (header_bytes h) in h_version g = FCGI_VERSION_1 \<and> uint (h_type g) = 6
        \<and> header_requestId g = 258 \<and> header_contentLength g = 65535 \<and> uint (h_paddingLength g) = 255)"
  by (rule header_roundtrip) simp_all

text \<open>\<open>AlignInt8\<close> returns the least multiple of eight that is at least its argument.\<close>

theorem AlignInt8_least:
  assumes "n < 2 ^ 31 - 8"
  shows "AlignInt8 (of_nat n) mod 8 = 0 \<and> int n \<le> AlignInt8 (of_nat n) \<and>
    (\<forall>m. m mod 8 = 0 \<longrightarrow> n \<le> m \<longrightarrow> AlignInt8 (of_nat n) \<le> int m)"
proof -
  have "8 * ((n + 7) div 8) \<le> m" if "m mod 8 = 0" "n \<le> m" for m using that by presburger
  then show ?thesis using AlignInt8_bounds [OF assms] by (simp only: AlignInt8_eq [OF assms] of_nat_le_iff) simp
qed

theorem AlignInt8_least_witness: "AlignInt8 17 mod 8 = 0 \<and> 17 \<le> AlignInt8 17 \<and> AlignInt8 17 \<le> 24"
proof -
  have "AlignInt8 (of_nat 17) mod 8 = 0 \<and> int 17 \<le> AlignInt8 (of_nat 17) \<and>
      (\<forall>m. m mod 8 = 0 \<longrightarrow> 17 \<le> m \<longrightarrow> AlignInt8 (of_nat 17) \<le> int m)"
    by (rule AlignInt8_least) simp
  note least = this
  from least have "AlignInt8 (of_nat 17) \<le> int 24" by (elim conjE allE [of _ 24]) simp
  then show ?thesis using least by simp
qed

lemma unat_and_neg8_64: "unat (x AND - 8) = unat x - unat x mod 8" for x :: "64 word"
proof -
  have "unat (x mod 8) = unat x mod 8" by (simp add: unat_mod)
  moreover have "x mod 8 \<le> x" by (simp add: word_le_nat_alt unat_mod)
  ultimately show ?thesis by (simp add: and_neg8 unat_sub)
qed

lemma AlignPtr8_eq: "AlignPtr8 p = (p + 7) AND - 8"
  by (simp add: AlignPtr8_def)

text \<open>\<open>AlignPtr8\<close> moves an address forward by less than eight bytes, to a multiple of eight.\<close>

theorem AlignPtr8_aligned:
  assumes "unat p < 2 ^ 64 - 7"
  shows "unat (AlignPtr8 p) mod 8 = 0 \<and> unat p \<le> unat (AlignPtr8 p) \<and> unat (AlignPtr8 p) < unat p + 8"
proof -
  have "unat (p + 7) = unat p + 7" using assms by (simp add: unat_word_ariths)
  then have "unat (AlignPtr8 p) = 8 * ((unat p + 7) div 8)"
    unfolding AlignPtr8_eq using unat_and_neg8_64 [of "p + 7"] by (simp add: minus_mod_eq_mult_div)
  then show ?thesis by simp linarith
qed

theorem AlignPtr8_aligned_witness:
  "unat (AlignPtr8 1001) mod 8 = 0 \<and> unat (1001 :: 64 word) \<le> unat (AlignPtr8 1001) \<and> unat (AlignPtr8 1001) < unat (1001 :: 64 word) + 8"
  by (rule AlignPtr8_aligned) simp

end
