(* ===== verification/Fcgi_Os.thy ===== *)
theory Fcgi_Os
  imports Fcgi_Wire
begin

text \<open>
  The operating-system layer as the library sees it (\<open>libfcgi/os_unix.c\<close>). The kernel is not
  part of the program: what it does is data of the state, so that every theorem holds for every
  behaviour of it. For each descriptor a script says what the successive \<open>read\<close> and
  \<open>write\<close> calls do (how many bytes arrive, how many are taken, which \<open>errno\<close> is set);
  what was written is logged.
  A read script that is used up is the end of file; a write script that is used up is a kernel that
  takes everything.
\<close>

section \<open>Descriptors\<close>

datatype rd_event = RdBytes "byte list" | RdErr int

datatype wr_event = WrSome nat | WrErr int

datatype poll_event = PollReady | PollTimeout | PollSignal

record conn =
  isOpen :: bool
  rdScript :: "rd_event list"
  wrScript :: "wr_event list"
  sent :: "byte list"
  pollScript :: "poll_event list"
  isSocket :: bool

definition EBADF :: int where "EBADF = 9"
definition EINTR :: int where "EINTR = 4"
definition EPROTO :: int where "EPROTO = 71"
definition ENETUNREACH :: int where "ENETUNREACH = 101"
definition ECONNABORTED :: int where "ECONNABORTED = 103"
definition ECONNRESET :: int where "ECONNRESET = 104"
definition ETIMEDOUT :: int where "ETIMEDOUT = 110"
definition EHOSTUNREACH :: int where "EHOSTUNREACH = 113"
definition ENOTCONN :: int where "ENOTCONN = 107"

lemmas errno_defs = EBADF_def EINTR_def EPROTO_def ENETUNREACH_def ECONNABORTED_def
  ECONNRESET_def ETIMEDOUT_def EHOSTUNREACH_def

text \<open>
  What \<open>accept\<close> does: fail with an \<open>errno\<close>, deliver a connection from a peer (an IPv4 address, a Unix
  domain peer, or another family), or be interrupted by a signal whose handler calls
  \<open>OS_ShutdownPending\<close>. \<open>PollSignal\<close> is the same signal arriving during \<open>poll\<close>.
\<close>

datatype peer = PeerInet "32 word" | PeerUnix | PeerOther

datatype accept_event = AcceptErr int | AcceptShutdown | AcceptConn int peer conn

text \<open>The table of asynchronous operations (\<open>AioInfo\<close>) and the descriptor sets of \<open>os_unix.c\<close>.
  Function pointers, client data and buffer addresses are numbers; \<open>NULL\<close> is zero.\<close>

record AioInfo =
  procPtr :: int
  clientData :: int
  aioFd :: int
  aioLen :: int
  aioOffset :: int
  aioBuf :: int
  inUse :: bool

record aio =
  asyncIoInUse :: bool
  asyncIoTableSize :: nat
  asyncIoTable :: "AioInfo list option"
  readFdSet :: "int set"
  writeFdSet :: "int set"
  readFdSetPost :: "int set"
  writeFdSetPost :: "int set"
  numRdPosted :: int
  numWrPosted :: int
  maxFd :: int

record os =
  conns :: "int \<Rightarrow> conn"
  acceptScript :: "accept_event list"
  osErrno :: int
  shutdownPending :: bool
  shutdownNow :: bool
  stackMem :: "nat \<Rightarrow> byte"
  mallocs :: "nat \<Rightarrow> 64 word"
  heapMem :: "nat \<Rightarrow> nat \<Rightarrow> byte"
  mallocCount :: nat
  aioState :: aio
  peernameErr :: "int \<Rightarrow> int"

text \<open>
  \<open>stackMem\<close> is what uninitialised automatic arrays happen to hold; \<open>mallocs\<close> and
  \<open>heapMem\<close> are the addresses successive calls of \<open>malloc\<close> return and the bytes found there. \<open>read(2)\<close> and
  \<open>write(2)\<close> on a scripted descriptor:
\<close>

definition posix_read :: "int \<Rightarrow> nat \<Rightarrow> os \<Rightarrow> int \<times> byte list \<times> os" where
  "posix_read fd len w =
     (let c = conns w fd in
      if \<not> isOpen c then (- 1, [], w\<lparr>osErrno := EBADF\<rparr>)
      else case rdScript c of
        [] \<Rightarrow> (0, [], w)
      | RdErr e # es \<Rightarrow>
          (- 1, [], w\<lparr>osErrno := e, conns := (conns w)(fd := c\<lparr>rdScript := es\<rparr>)\<rparr>)
      | RdBytes bs # es \<Rightarrow>
          (int (length (take len bs)), take len bs,
           w\<lparr>conns := (conns w)(fd := c\<lparr>rdScript :=
               (if length bs \<le> len then es else RdBytes (drop len bs) # es)\<rparr>)\<rparr>))"

definition posix_write :: "int \<Rightarrow> byte list \<Rightarrow> os \<Rightarrow> int \<times> os" where
  "posix_write fd bs w =
     (let c = conns w fd in
      if \<not> isOpen c then (- 1, w\<lparr>osErrno := EBADF\<rparr>)
      else case wrScript c of
        [] \<Rightarrow> (int (length bs), w\<lparr>conns := (conns w)(fd := c\<lparr>sent := sent c @ bs\<rparr>)\<rparr>)
      | WrErr e # es \<Rightarrow>
          (- 1, w\<lparr>osErrno := e, conns := (conns w)(fd := c\<lparr>wrScript := es\<rparr>)\<rparr>)
      | WrSome k # es \<Rightarrow>
          (int (length (take k bs)),
           w\<lparr>conns := (conns w)(fd := c\<lparr>wrScript := es, sent := sent c @ take k bs\<rparr>)\<rparr>))"

definition OS_Read :: "int \<Rightarrow> nat \<Rightarrow> os \<Rightarrow> int \<times> byte list \<times> os" where
  "OS_Read fd len w = (if shutdownNow w then (- 1, [], w) else posix_read fd len w)"

definition OS_Write :: "int \<Rightarrow> byte list \<Rightarrow> os \<Rightarrow> int \<times> os" where
  "OS_Write fd bs w = (if shutdownNow w then (- 1, w) else posix_write fd bs w)"

section \<open>What a descriptor still delivers\<close>

text \<open>
  \<open>incoming\<close> is the byte sequence that successive reads deliver before the first read that
  returns a count of zero or less, whatever the sizes of the reads.
\<close>

fun script_bytes :: "rd_event list \<Rightarrow> byte list" where
  "script_bytes [] = []"
| "script_bytes (RdErr e # es) = []"
| "script_bytes (RdBytes [] # es) = []"
| "script_bytes (RdBytes (b # bs) # es) = (b # bs) @ script_bytes es"

definition incoming :: "int \<Rightarrow> os \<Rightarrow> byte list" where
  "incoming fd w = (if shutdownNow w \<or> \<not> isOpen (conns w fd) then []
                    else script_bytes (rdScript (conns w fd)))"

lemma script_bytes_RdBytes: "bs \<noteq> [] \<Longrightarrow> script_bytes (RdBytes bs # es) = bs @ script_bytes es"
  by (cases bs) simp_all

lemma OS_Read_incoming:
  assumes "OS_Read fd len w = (count, bs, w')" and "0 < len"
  shows "count \<le> 0 \<Longrightarrow> incoming fd w = []"
    and "0 < count \<Longrightarrow> count = int (length bs) \<and> bs \<noteq> [] \<and> length bs \<le> len \<and>
           incoming fd w = bs @ incoming fd w'"
proof -
  let ?c = "conns w fd"
  show "incoming fd w = []" if "count \<le> 0"
    using assms that
    by (auto simp: OS_Read_def posix_read_def incoming_def Let_def
        split: if_splits list.splits rd_event.splits)
  show "count = int (length bs) \<and> bs \<noteq> [] \<and> length bs \<le> len \<and> incoming fd w = bs @ incoming fd w'"
    if "0 < count"
  proof -
    from assms that obtain xs es where *: "\<not> shutdownNow w" "isOpen ?c"
      "rdScript ?c = RdBytes xs # es" "bs = take len xs" "count = int (length (take len xs))"
      "w' = w\<lparr>conns := (conns w)(fd := ?c\<lparr>rdScript :=
               (if length xs \<le> len then es else RdBytes (drop len xs) # es)\<rparr>)\<rparr>"
      by (auto simp: OS_Read_def posix_read_def Let_def
          split: if_splits list.splits rd_event.splits)
    have ne: "xs \<noteq> []" using that *(5) by auto
    have "incoming fd w = xs @ script_bytes es"
      using * ne by (simp add: incoming_def script_bytes_RdBytes)
    moreover have "xs @ script_bytes es = bs @ incoming fd w'"
      using * by (simp add: incoming_def script_bytes_RdBytes)
    ultimately show ?thesis using * ne assms(2) by simp
  qed
qed

lemma OS_Write_sent:
  assumes "OS_Write fd bs w = (count, w')" and "0 \<le> count"
  shows "count \<le> int (length bs)"
    and "sent (conns w' fd) = sent (conns w fd) @ take (nat count) bs"
    and "bs \<noteq> [] \<Longrightarrow> length (wrScript (conns w' fd)) + (length bs - nat count)
           < length (wrScript (conns w fd)) + length bs"
  using assms
  by (auto simp: OS_Write_def posix_write_def Let_def min_def
      split: if_splits list.splits wr_event.splits)

text \<open>What reading a descriptor, and what writing to one, can change.\<close>

definition os_rest :: "os \<Rightarrow> os" where
  "os_rest w = w\<lparr>conns := \<lambda>_. \<lparr>isOpen = False, rdScript = [], wrScript = [], sent = [], pollScript = [],
     isSocket = False\<rparr>, osErrno := 0\<rparr>"

lemma os_rest_fields:
  assumes "os_rest w = os_rest w'"
  shows "shutdownNow w = shutdownNow w'" "shutdownPending w = shutdownPending w'"
    "acceptScript w = acceptScript w'" "stackMem w = stackMem w'" "mallocs w = mallocs w'"
    "heapMem w = heapMem w'" "mallocCount w = mallocCount w'" "aioState w = aioState w'"
  using assms by (cases w; cases w'; simp add: os_rest_def)+

lemma os_rest_upd [simp]: "os_rest (w\<lparr>conns := c\<rparr>) = os_rest w" "os_rest (w\<lparr>osErrno := e\<rparr>) = os_rest w"
  by (simp_all add: os_rest_def)

definition same_output :: "os \<Rightarrow> os \<Rightarrow> bool" where
  "same_output w w' \<longleftrightarrow> os_rest w' = os_rest w
     \<and> (\<forall>f. isOpen (conns w' f) = isOpen (conns w f) \<and> sent (conns w' f) = sent (conns w f)
           \<and> wrScript (conns w' f) = wrScript (conns w f))"

definition same_input :: "int \<Rightarrow> os \<Rightarrow> os \<Rightarrow> bool" where
  "same_input fd w w' \<longleftrightarrow> os_rest w' = os_rest w
     \<and> (\<forall>f. isOpen (conns w' f) = isOpen (conns w f) \<and> rdScript (conns w' f) = rdScript (conns w f))
     \<and> (\<forall>f. f \<noteq> fd \<longrightarrow> conns w' f = conns w f)"

lemma same_output_refl [simp]: "same_output w w"
  by (simp add: same_output_def)

lemma same_output_trans: "same_output u v \<Longrightarrow> same_output v w \<Longrightarrow> same_output u w"
  by (simp add: same_output_def)

lemma same_input_refl [simp]: "same_input fd w w"
  by (simp add: same_input_def)

lemma same_input_trans: "same_input fd u v \<Longrightarrow> same_input fd v w \<Longrightarrow> same_input fd u w"
  by (simp add: same_input_def)

lemma OS_Read_same_output: "OS_Read fd len w = (count, bs, w') \<Longrightarrow> same_output w w'"
  unfolding same_output_def
  by (auto simp: OS_Read_def posix_read_def Let_def split: if_splits list.splits rd_event.splits)

lemma OS_Write_same_input: "OS_Write fd bs w = (count, w') \<Longrightarrow> same_input fd w w'"
  unfolding same_input_def
  by (auto simp: OS_Write_def posix_write_def Let_def split: if_splits list.splits wr_event.splits)

section \<open>Writing everything\<close>

text \<open>\<open>write_it_all\<close> of \<open>fcgiapp.c\<close>: its value is negative for an error, else zero.\<close>

function write_it_all :: "int \<Rightarrow> byte list \<Rightarrow> os \<Rightarrow> int \<times> os" where
  "write_it_all fd buf w =
     (if buf = [] then (0, w)
      else case OS_Write fd buf w of (wrote, w') \<Rightarrow>
        if wrote < 0 then (wrote, w') else write_it_all fd (drop (nat wrote) buf) w')"
  by pat_completeness auto
termination
  by (relation "measure (\<lambda>(fd, buf, w). length (wrScript (conns w fd)) + length buf)")
    (auto dest!: sym [of "(_, _)"] dest: OS_Write_sent(3))

declare write_it_all.simps [simp del]

text \<open>
  A descriptor on which writes never fail: open, the library not shut down, and only short writes
  in its script.
\<close>

definition is_short_write :: "wr_event \<Rightarrow> bool" where
  "is_short_write e = (case e of WrSome k \<Rightarrow> True | WrErr x \<Rightarrow> False)"

definition writable :: "int \<Rightarrow> os \<Rightarrow> bool" where
  "writable fd w \<longleftrightarrow> \<not> shutdownNow w \<and> isOpen (conns w fd)
     \<and> list_all is_short_write (wrScript (conns w fd))"

lemma OS_Write_writable:
  assumes "writable fd w"
  shows "\<exists>k w'. OS_Write fd bs w = (int k, w') \<and> writable fd w'"
  using assms
  by (auto simp: OS_Write_def posix_write_def writable_def is_short_write_def Let_def
      split: list.splits wr_event.splits)

lemma write_it_all_sent:
  assumes "write_it_all fd buf w = (r, w')"
  shows "r \<le> 0 \<and> (\<exists>k. sent (conns w' fd) = sent (conns w fd) @ take k buf
           \<and> (r = 0 \<longrightarrow> k = length buf))"
  using assms
proof (induction fd buf w arbitrary: r rule: write_it_all.induct)
  case (1 fd buf w)
  show ?case
  proof (cases "buf = []")
    case True
    with "1.prems" show ?thesis by (simp add: write_it_all.simps)
  next
    case False
    obtain n u where ow: "OS_Write fd buf w = (n, u)" by fastforce
    show ?thesis
    proof (cases "n < 0")
      case True
      with "1.prems" False ow have "r = n" "w' = u" by (simp_all add: write_it_all.simps)
      moreover have "sent (conns u fd) = sent (conns w fd)"
        using ow True by (auto simp: OS_Write_def posix_write_def Let_def
            split: if_splits list.splits wr_event.splits)
      ultimately show ?thesis using True by (intro conjI exI [of _ 0]) auto
    next
      case n: False
      with "1.prems" False ow have rec: "write_it_all fd (drop (nat n) buf) u = (r, w')"
        by (simp add: write_it_all.simps [of fd buf w])
      from "1.IH" [OF False ow [symmetric] n rec] obtain k where
        "r \<le> 0" "sent (conns w' fd) = sent (conns u fd) @ take k (drop (nat n) buf)"
        "r = 0 \<longrightarrow> k = length (drop (nat n) buf)" by auto
      moreover have "sent (conns u fd) = sent (conns w fd) @ take (nat n) buf"
        "nat n \<le> length buf"
        using OS_Write_sent [OF ow] n by auto
      ultimately show ?thesis
        by (intro conjI exI [of _ "nat n + k"]) (auto simp: take_add)
    qed
  qed
qed

lemma write_it_all_same_input: "write_it_all fd buf w = (r, w') \<Longrightarrow> same_input fd w w'"
proof (induction fd buf w arbitrary: r rule: write_it_all.induct)
  case (1 fd buf w)
  obtain n u where ow: "OS_Write fd buf w = (n, u)" by fastforce
  note si = OS_Write_same_input [OF ow]
  show ?case
  proof (cases "buf = [] \<or> n < 0")
    case True
    with "1.prems" ow si show ?thesis by (auto simp: write_it_all.simps split: if_splits)
  next
    case False
    with "1.prems" ow have rec: "write_it_all fd (drop (nat n) buf) u = (r, w')"
      by (simp add: write_it_all.simps [of fd buf w])
    from False have "buf \<noteq> []" "\<not> n < 0" by auto
    from "1.IH" [OF this(1) ow [symmetric] this(2) rec] show ?thesis by (rule same_input_trans [OF si])
  qed
qed

lemma same_input_incoming:
  assumes "same_input fd w w'"
  shows "incoming f w' = incoming f w"
proof -
  have "os_rest w' = os_rest w" using assms by (simp add: same_input_def)
  from os_rest_fields [OF this] show ?thesis using assms by (simp add: same_input_def incoming_def)
qed

lemma write_it_all_incoming: "write_it_all fd buf w = (r, w') \<Longrightarrow> incoming f w' = incoming f w"
  using same_input_incoming write_it_all_same_input by blast

lemma write_it_all_writable:
  assumes "writable fd w"
  shows "\<exists>w'. write_it_all fd buf w = (0, w') \<and> writable fd w'"
  using assms
proof (induction fd buf w rule: write_it_all.induct)
  case (1 fd buf w)
  obtain k u where ow: "OS_Write fd buf w = (int k, u)" "writable fd u"
    using OS_Write_writable [OF "1.prems"] by blast
  show ?case
  proof (cases "buf = []")
    case True
    with "1.prems" show ?thesis by (simp add: write_it_all.simps)
  next
    case False
    from "1.IH" [OF False ow(1) [symmetric] _ ow(2)] ow(1) False show ?thesis
      by (simp add: write_it_all.simps [of fd buf w])
  qed
qed

section \<open>A concrete system\<close>

text \<open>For examples: descriptor 5 is open, with the given read events and some short writes. The initial values of the
  tables are those of the static variables of \<open>os_unix.c\<close>.\<close>

definition aio_initial :: aio where
  "aio_initial = \<lparr>asyncIoInUse = False, asyncIoTableSize = 16, asyncIoTable = None, readFdSet = {}, writeFdSet = {},
     readFdSetPost = {}, writeFdSetPost = {}, numRdPosted = 0, numWrPosted = 0, maxFd = - 1\<rparr>"

definition sample_conn :: "rd_event list \<Rightarrow> conn" where
  "sample_conn evs = \<lparr>isOpen = True, rdScript = evs, wrScript = [WrSome 3, WrSome 0, WrSome 100], sent = [],
     pollScript = [], isSocket = True\<rparr>"

definition sample_os :: "rd_event list \<Rightarrow> os" where
  "sample_os evs = \<lparr>conns = (\<lambda>fd. if fd = 5 then sample_conn evs else (sample_conn [])\<lparr>isOpen := False\<rparr>),
     acceptScript = [], osErrno = 0, shutdownPending = False, shutdownNow = False, stackMem = (\<lambda>_. 0),
     mallocs = (\<lambda>_. 3), heapMem = (\<lambda>_ _. 0), mallocCount = 0, aioState = aio_initial, peernameErr = (\<lambda>_. ENOTCONN)\<rparr>"

section \<open>Properties\<close>

text \<open>C35. \<open>write_it_all\<close> ends whatever the kernel does: it sends all of the buffer and returns zero, or sends a prefix of
  it and returns a negative value. It changes no other descriptor and nothing of what is there to read.\<close>

theorem write_it_all_outcome:
  assumes "write_it_all fd buf w = (r, w')"
  shows "\<exists>k. k \<le> length buf \<and> sent (conns w' fd) = sent (conns w fd) @ take k buf \<and> r \<le> 0
     \<and> (r = 0 \<longrightarrow> k = length buf) \<and> same_input fd w w'"
proof -
  from write_it_all_sent [OF assms] obtain k where "r \<le> 0" "sent (conns w' fd) = sent (conns w fd) @ take k buf"
    "r = 0 \<longrightarrow> k = length buf" by auto
  then show ?thesis using write_it_all_same_input [OF assms]
    by (intro exI [of _ "min k (length buf)"]) (auto simp: min_def)
qed

definition sample_write :: "int \<times> os" where
  "sample_write = write_it_all 5 [1, 2, 3, 4, 5, 6] (sample_os [])"

theorem write_it_all_outcome_witness:
  "\<exists>k. k \<le> length [1, 2, 3, 4, 5, 6 :: byte] \<and> sent (conns (snd sample_write) 5) = sent (conns (sample_os []) 5) @ take k [1, 2, 3, 4, 5, 6]
     \<and> fst sample_write \<le> 0 \<and> (fst sample_write = 0 \<longrightarrow> k = length [1, 2, 3, 4, 5, 6 :: byte])
     \<and> same_input 5 (sample_os []) (snd sample_write)"
  by (rule write_it_all_outcome) (simp add: sample_write_def)

end
