(* ===== verification/Fcgi_Stream.thy ===== *)
theory Fcgi_Stream
  imports Fcgi_Os
begin

text \<open>
  Streams (\<open>FCGX_Stream\<close>, \<open>FCGX_Stream_Data\<close>, the scalar part of \<open>FCGX_Request\<close>) and
  the client side of \<open>fcgiapp.c\<close>: the functions an application calls on a stream. They reach
  the record layer through the function pointers \<open>fillBuffProc\<close> and \<open>emptyBuffProc\<close> of
  the stream, which are the first argument of the definitions here.

  Pointers into the buffer of a stream are offsets from \<open>data->buff\<close>; \<open>buff\<close> is the memory
  itself. \<open>data\<close> is never reassigned, so the record of a stream extends the record of its data.
\<close>

section \<open>State\<close>

record FCGX_Stream_Data =
  buff :: "byte list"
  bufflen :: nat
  buffStop :: nat
  dtype :: int
  eorStop :: bool
  skip :: bool
  contentLen :: nat
  paddingLen :: nat
  isAnythingWritten :: bool
  rawWrite :: bool

record FCGX_Stream = FCGX_Stream_Data +
  rdNext :: nat
  wrNext :: nat
  stop :: nat
  stopUnget :: "nat option"
  isReader :: bool
  isClosed :: bool
  wasFCloseCalled :: bool
  FCGI_errno :: int

text \<open>The fields of \<open>FCGX_Request\<close> that streams reach through \<open>data->reqDataPtr\<close>.\<close>

record FCGX_ReqData =
  requestId :: int
  role :: int
  ipcFd :: int
  isBeginProcessed :: bool
  keepConnection :: bool
  appStatus :: int
  nWriters :: int
  flags :: int
  listen_sock :: int
  detached :: bool

definition zero_reqData :: FCGX_ReqData where
  "zero_reqData = \<lparr>requestId = 0, role = 0, ipcFd = 0, isBeginProcessed = False, keepConnection = False,
     appStatus = 0, nWriters = 0, flags = 0, listen_sock = 0, detached = False\<rparr>"

text \<open>What a stream operation can reach: its stream, the request of the stream, the system.\<close>

record st =
  strm :: FCGX_Stream
  rqd :: FCGX_ReqData
  sys :: os

definition upd :: "(FCGX_Stream \<Rightarrow> FCGX_Stream) \<Rightarrow> st \<Rightarrow> st" where
  "upd f s = s\<lparr>strm := f (strm s)\<rparr>"

lemma upd_simps [simp]:
  "strm (upd f s) = f (strm s)" "rqd (upd f s) = rqd s" "sys (upd f s) = sys s"
  by (simp_all add: upd_def)

text \<open>The bytes between the read position and the end of the data in the buffer, and all bytes
  not yet consumed.\<close>

definition buffered :: "FCGX_Stream \<Rightarrow> byte list" where
  "buffered t = sub_bytes (rdNext t) (buffStop t - rdNext t) (buff t)"

definition unread :: "st \<Rightarrow> byte list" where
  "unread s = buffered (strm s) @ incoming (ipcFd (rqd s)) (sys s)"

definition window :: "FCGX_Stream \<Rightarrow> byte list" where
  "window t = sub_bytes (rdNext t) (stop t - rdNext t) (buff t)"

section \<open>Errors\<close>

definition SetError :: "int \<Rightarrow> FCGX_Stream \<Rightarrow> FCGX_Stream" where
  "SetError e t = t\<lparr>FCGI_errno := (if FCGI_errno t = 0 then e else FCGI_errno t), isClosed := True\<rparr>"

definition FCGX_GetError :: "FCGX_Stream \<Rightarrow> int" where
  "FCGX_GetError t = FCGI_errno t"

definition FCGX_ClearError :: "FCGX_Stream \<Rightarrow> FCGX_Stream" where
  "FCGX_ClearError t = t\<lparr>FCGI_errno := 0\<rparr>"

definition FCGX_HasSeenEOF :: "FCGX_Stream \<Rightarrow> int" where
  "FCGX_HasSeenEOF t = (if isClosed t then EOF else 0)"

section \<open>Reading\<close>

type_synonym fill_proc = "st \<Rightarrow> st res"

text \<open>\<open>*stream->rdNext++\<close>\<close>

definition next_byte :: "st \<Rightarrow> (int \<times> st) res" where
  "next_byte s = (let t = strm s in
     inbounds (rdNext t < length (buff t))
       (Inr (uint (buff t ! rdNext t), upd (\<lambda>t. t\<lparr>rdNext := Suc (rdNext t)\<rparr>) s)))"

definition mark_unget :: "st \<Rightarrow> st" where
  "mark_unget s = upd (\<lambda>t. t\<lparr>stopUnget := Some (rdNext t)\<rparr>) s"

definition FCGX_GetChar :: "fill_proc \<Rightarrow> st \<Rightarrow> (int \<times> st) res" where
  "FCGX_GetChar fill s =
     (if isClosed (strm s) \<or> \<not> isReader (strm s) then Inr (EOF, s)
      else if rdNext (strm s) \<noteq> stop (strm s) then next_byte s
      else bindr (fill s) (\<lambda>s1.
        if isClosed (strm s1) then Inr (EOF, s1)
        else let s2 = mark_unget s1 in
          if rdNext (strm s2) \<noteq> stop (strm s2) then next_byte s2
          else assertr (isClosed (strm s2)) (Inr (EOF, s2))))"

text \<open>
  \<open>memcpy\<close> of the next \<open>m\<close> bytes of the stream, with \<open>rdNext += m\<close>.
\<close>

definition copy_out :: "nat \<Rightarrow> st \<Rightarrow> (byte list \<times> st) res" where
  "copy_out m s = (let t = strm s in
     inbounds (rdNext t + m \<le> length (buff t))
       (Inr (sub_bytes (rdNext t) m (buff t), upd (\<lambda>t. t\<lparr>rdNext := rdNext t + m\<rparr>) s)))"

text \<open>
  The loop of \<open>FCGX_GetStr\<close>. \<open>acc\<close> is what has been copied to \<open>str\<close> so far
  (\<open>bytesMoved\<close> is its length). A negative \<open>stop - rdNext\<close> would be a \<open>memcpy\<close> of
  a negative length. Fuel counts iterations.
\<close>

fun GetStr_loop :: "fill_proc \<Rightarrow> nat \<Rightarrow> nat \<Rightarrow> byte list \<Rightarrow> st \<Rightarrow> (byte list \<times> st) res" where
  "GetStr_loop fill 0 n acc s = Inl NoReturn"
| "GetStr_loop fill (Suc fuel) n acc s =
     bindr (if rdNext (strm s) \<noteq> stop (strm s)
            then inbounds (rdNext (strm s) \<le> stop (strm s))
                   (copy_out (min (n - length acc) (stop (strm s) - rdNext (strm s))) s)
            else Inr ([], s))
       (\<lambda>(bs, s1).
          if rdNext (strm s) \<noteq> stop (strm s) \<and> length (acc @ bs) = n then Inr (acc @ bs, s1)
          else if isClosed (strm s1) \<or> \<not> isReader (strm s1) then Inr (acc @ bs, s1)
          else bindr (fill s1) (\<lambda>s2.
            if isClosed (strm s2) then Inr (acc @ bs, s2)
            else GetStr_loop fill fuel n (acc @ bs) (mark_unget s2)))"

text \<open>
  \<open>FCGX_GetStr\<close> returns the bytes it stores into \<open>str\<close>; the C result is their number. Every
  iteration but the first consumes a byte of \<open>unread\<close>, so its length bounds the iterations.
\<close>

definition FCGX_GetStr :: "fill_proc \<Rightarrow> int \<Rightarrow> st \<Rightarrow> (byte list \<times> st) res" where
  "FCGX_GetStr fill n s =
     (if isClosed (strm s) \<or> \<not> isReader (strm s) \<or> n \<le> 0 then Inr ([], s)
      else if n \<le> int (stop (strm s)) - int (rdNext (strm s)) then copy_out (nat n) s
      else GetStr_loop fill (Suc (Suc (length (unread s)))) (nat n) [] s)"

text \<open>The newline is byte 10. The result is \<open>None\<close> for \<open>NULL\<close>.\<close>

fun GetLine_loop :: "fill_proc \<Rightarrow> nat \<Rightarrow> byte list \<Rightarrow> st \<Rightarrow> (byte list option \<times> st) res" where
  "GetLine_loop fill 0 acc s = Inr (Some acc, s)"
| "GetLine_loop fill (Suc n) acc s =
     bindr (FCGX_GetChar fill s) (\<lambda>(c, s1).
       if c = EOF then (if acc = [] then Inr (None, s1) else Inr (Some acc, s1))
       else let acc1 = acc @ [uchar c] in
         if c = 10 then Inr (Some acc1, s1) else GetLine_loop fill n acc1 s1)"

definition FCGX_GetLine :: "fill_proc \<Rightarrow> int \<Rightarrow> st \<Rightarrow> (byte list option \<times> st) res" where
  "FCGX_GetLine fill n s = GetLine_loop fill (nat (n - 1)) [] s"

definition FCGX_UnGetChar :: "int \<Rightarrow> st \<Rightarrow> (int \<times> st) res" where
  "FCGX_UnGetChar c s = (let t = strm s in
     if c = EOF \<or> isClosed t \<or> \<not> isReader t \<or> stopUnget t = Some (rdNext t) then Inr (EOF, s)
     else inbounds (0 < rdNext t \<and> rdNext t \<le> length (buff t))
       (Inr (c, upd (\<lambda>t. t\<lparr>rdNext := rdNext t - 1, buff := (buff t)[rdNext t - 1 := uchar c]\<rparr>) s)))"

section \<open>Writing\<close>

type_synonym empty_proc = "st \<Rightarrow> bool \<Rightarrow> st res"

text \<open>\<open>memcpy(stream->wrNext, bs, m); stream->wrNext += m\<close>\<close>

definition copy_in :: "byte list \<Rightarrow> st \<Rightarrow> st res" where
  "copy_in bs s = (let t = strm s in
     inbounds (wrNext t + length bs \<le> length (buff t))
       (Inr (upd (\<lambda>t. t\<lparr>buff := put_bytes (wrNext t) bs (buff t), wrNext := wrNext t + length bs\<rparr>) s)))"

definition put_byte :: "int \<Rightarrow> st \<Rightarrow> (int \<times> st) res" where
  "put_byte c s = bindr (copy_in [uchar c] s) (\<lambda>s1. Inr (uint (uchar c), s1))"

definition FCGX_PutChar :: "empty_proc \<Rightarrow> int \<Rightarrow> st \<Rightarrow> (int \<times> st) res" where
  "FCGX_PutChar drain c s =
     (if wrNext (strm s) \<noteq> stop (strm s) then put_byte c s
      else if isClosed (strm s) \<or> isReader (strm s) then Inr (EOF, s)
      else bindr (drain s False) (\<lambda>s1.
        if wrNext (strm s1) \<noteq> stop (strm s1) then put_byte c s1
        else assertr (isClosed (strm s1)) (Inr (EOF, s1))))"

text \<open>
  The loop of \<open>FCGX_PutStr\<close>; \<open>str\<close> is the rest of the string and \<open>n\<close> the value returned
  when all of it has been moved. Every iteration but the first moves a byte.
\<close>

fun PutStr_loop :: "empty_proc \<Rightarrow> nat \<Rightarrow> int \<Rightarrow> byte list \<Rightarrow> st \<Rightarrow> (int \<times> st) res" where
  "PutStr_loop drain 0 n str s = Inl NoReturn"
| "PutStr_loop drain (Suc fuel) n str s =
     (let t = strm s; m = min (length str) (stop t - wrNext t) in
      bindr (if wrNext t \<noteq> stop t
             then inbounds (wrNext t \<le> stop t) (copy_in (take m str) s) else Inr s)
       (\<lambda>s1. if wrNext t \<noteq> stop t \<and> m = length str then Inr (n, s1)
         else if isClosed (strm s1) \<or> isReader (strm s1) then Inr (- 1, s1)
         else bindr (drain s1 False)
           (\<lambda>s2. PutStr_loop drain fuel n (if wrNext t \<noteq> stop t then drop m str else str) s2)))"

definition FCGX_PutStr :: "empty_proc \<Rightarrow> byte list \<Rightarrow> st \<Rightarrow> (int \<times> st) res" where
  "FCGX_PutStr drain str s =
     (let t = strm s; n = int (length str) in
      if n \<le> int (stop t) - int (wrNext t) then bindr (copy_in str s) (\<lambda>s1. Inr (n, s1))
      else PutStr_loop drain (Suc (Suc (length str))) n str s)"

text \<open>\<open>FCGX_PutS\<close> writes a C string: the bytes before its first NUL.\<close>

definition FCGX_PutS :: "empty_proc \<Rightarrow> byte list \<Rightarrow> st \<Rightarrow> (int \<times> st) res" where
  "FCGX_PutS drain str s = FCGX_PutStr drain (c_str str) s"

definition FCGX_FFlush :: "empty_proc \<Rightarrow> st \<Rightarrow> (int \<times> st) res" where
  "FCGX_FFlush drain s =
     (if isClosed (strm s) \<or> isReader (strm s) then Inr (0, s)
      else bindr (drain s False) (\<lambda>s1. Inr (if isClosed (strm s1) then - 1 else 0, s1)))"

definition FCGX_FClose :: "empty_proc \<Rightarrow> st \<Rightarrow> (int \<times> st) res" where
  "FCGX_FClose drain s =
     bindr (if wasFCloseCalled (strm s) then Inr s
            else bindr (if isReader (strm s) then Inr s else drain s True) (\<lambda>s1.
              let s2 = upd (\<lambda>t. t\<lparr>wasFCloseCalled := True, isClosed := True\<rparr>) s1 in
              Inr (upd (\<lambda>t. if isReader t then t\<lparr>wrNext := rdNext t, stop := rdNext t\<rparr>
                            else t\<lparr>rdNext := wrNext t, stop := wrNext t\<rparr>) s2)))
       (\<lambda>s3. Inr (if FCGI_errno (strm s3) = 0 then 0 else EOF, s3))"

declare GetStr_loop.simps(2) [simp del] PutStr_loop.simps(2) [simp del]

section \<open>Lines\<close>

text \<open>The line \<open>FCGX_GetLine\<close> stores when \<open>cs\<close> is what the stream delivers.\<close>

definition line_of :: "nat \<Rightarrow> byte list \<Rightarrow> byte list" where
  "line_of n cs = (let l = takeWhile (\<lambda>b. b \<noteq> 10) cs in
     take n (if length l < length cs then l @ [10] else l))"

lemma line_of_Cons:
  "line_of (Suc n) (c # cs) = (if c = 10 then [c] else c # line_of n cs)"
  by (simp add: line_of_def Let_def)

section \<open>The contract of a fill procedure\<close>

text \<open>
  \<open>yields s cs\<close>: the stream of \<open>s\<close> is open and will deliver exactly the bytes \<open>cs\<close>
  before it closes; \<open>ended\<close> is what holds once it has closed. The laws say what a client may
  rely on when it calls \<open>fillBuffProc\<close> on an exhausted buffer.
\<close>

locale byte_source =
  fixes fill :: fill_proc
    and yields :: "st \<Rightarrow> byte list \<Rightarrow> bool"
    and ended :: "st \<Rightarrow> bool"
  assumes yields_open: "yields s cs \<Longrightarrow> isReader (strm s) \<and> \<not> isClosed (strm s) \<and>
      rdNext (strm s) \<le> stop (strm s) \<and> stop (strm s) \<le> length (buff (strm s))"
    and yields_window: "yields s cs \<Longrightarrow> \<exists>ds. cs = window (strm s) @ ds"
    and yields_unread: "yields s cs \<Longrightarrow> length cs \<le> length (unread s)"
    and yields_advance: "yields s cs \<Longrightarrow> rdNext (strm s) + m \<le> stop (strm s) \<Longrightarrow>
      yields (upd (\<lambda>t. t\<lparr>rdNext := rdNext t + m\<rparr>) s) (drop m cs)"
    and yields_mark: "yields s cs \<Longrightarrow> yields (mark_unget s) cs"
    and fill_data: "yields s cs \<Longrightarrow> rdNext (strm s) = stop (strm s) \<Longrightarrow> cs \<noteq> [] \<Longrightarrow>
      \<exists>s'. fill s = Inr s' \<and> yields s' cs \<and> rdNext (strm s') < stop (strm s')"
    and fill_end: "yields s [] \<Longrightarrow> rdNext (strm s) = stop (strm s) \<Longrightarrow>
      \<exists>s'. fill s = Inr s' \<and> isClosed (strm s') \<and> ended s'"
begin

lemma yields_nonempty:
  assumes "yields s cs" "rdNext (strm s) < stop (strm s)"
  shows "cs \<noteq> []" "cs ! 0 = buff (strm s) ! rdNext (strm s)" "rdNext (strm s) < length (buff (strm s))"
    "stop (strm s) - rdNext (strm s) \<le> length cs"
    "m \<le> stop (strm s) - rdNext (strm s) \<Longrightarrow> sub_bytes (rdNext (strm s)) m (buff (strm s)) = take m cs"
proof -
  let ?t = "strm s"
  obtain ds where ds: "cs = window ?t @ ds" using yields_window [OF assms(1)] ..
  have o: "stop ?t \<le> length (buff ?t)" using yields_open [OF assms(1)] by simp
  then have len: "length (window ?t) = stop ?t - rdNext ?t"
    using assms(2) by (simp add: window_def sub_bytes_def)
  have w0: "window ?t ! 0 = buff ?t ! rdNext ?t"
    using o assms(2) by (simp add: window_def sub_bytes_def)
  show "cs \<noteq> []" using ds len assms(2) by auto
  show "cs ! 0 = buff ?t ! rdNext ?t"
    using w0 ds len assms(2) by (simp add: nth_append)
  show "rdNext ?t < length (buff ?t)" using o assms(2) by simp
  show "stop ?t - rdNext ?t \<le> length cs" using ds len by simp
  show "sub_bytes (rdNext ?t) m (buff ?t) = take m cs" if "m \<le> stop ?t - rdNext ?t"
    using that ds len by (simp add: window_def sub_bytes_def min_def)
qed

lemma next_byte_yields:
  assumes "yields s (c # cs)" "rdNext (strm s) < stop (strm s)"
  shows "\<exists>s'. next_byte s = Inr (uint c, s') \<and> yields s' cs"
  using yields_nonempty [OF assms] yields_advance [OF assms(1), of 1] assms(2)
  by (simp add: next_byte_def Let_def)

lemma GetChar_yields:
  assumes "yields s (c # cs)"
  shows "\<exists>s'. FCGX_GetChar fill s = Inr (uint c, s') \<and> yields s' cs"
proof (cases "rdNext (strm s) = stop (strm s)")
  case False
  then show ?thesis
    using yields_open [OF assms] next_byte_yields [OF assms] by (simp add: FCGX_GetChar_def)
next
  case True
  then obtain s1 where s1: "fill s = Inr s1" "yields s1 (c # cs)" "rdNext (strm s1) < stop (strm s1)"
    using fill_data [OF assms] by auto
  have "yields (mark_unget s1) (c # cs)" using yields_mark s1(2) .
  moreover have "rdNext (strm (mark_unget s1)) < stop (strm (mark_unget s1))"
    using s1(3) by (simp add: mark_unget_def)
  ultimately show ?thesis
    using yields_open [OF assms] yields_open [OF s1(2)] True s1 next_byte_yields
    by (simp add: FCGX_GetChar_def Let_def)
qed

lemma GetChar_end:
  assumes "yields s []"
  shows "\<exists>s'. FCGX_GetChar fill s = Inr (EOF, s') \<and> isClosed (strm s') \<and> ended s'"
proof -
  have "rdNext (strm s) = stop (strm s)"
    using yields_nonempty(1) [OF assms] yields_open [OF assms] by force
  then show ?thesis
    using fill_end [OF assms] yields_open [OF assms] by (auto simp: FCGX_GetChar_def)
qed

lemma copy_out_yields:
  assumes "yields s cs" "rdNext (strm s) + m \<le> stop (strm s)"
  shows "\<exists>s'. copy_out m s = Inr (take m cs, s') \<and> yields s' (drop m cs)"
proof (cases "m = 0")
  case True
  then show ?thesis using assms yields_advance [of s cs 0] yields_open [OF assms(1)]
    by (auto simp: copy_out_def Let_def)
next
  case False
  then have "rdNext (strm s) < stop (strm s)" using assms(2) by simp
  from yields_nonempty(5) [OF assms(1) this, of m] show ?thesis
    using assms yields_advance [OF assms] yields_open [OF assms(1)]
    by (simp add: copy_out_def Let_def)
qed

text \<open>The state in which a client that asked for \<open>n\<close> bytes of \<open>cs\<close> leaves the stream.\<close>

definition left_at :: "nat \<Rightarrow> byte list \<Rightarrow> st \<Rightarrow> bool" where
  "left_at n cs s \<longleftrightarrow> (if n \<le> length cs then yields s (drop n cs) else isClosed (strm s) \<and> ended s)"

lemma left_at_drop:
  "m \<le> k \<Longrightarrow> m \<le> length cs \<Longrightarrow> left_at (k - m) (drop m cs) s \<longleftrightarrow> left_at k cs s"
  by (auto simp: left_at_def drop_drop)

lemma GetStr_loop_yields:
  assumes "yields s cs" "length acc < n"
    and "length cs + (if rdNext (strm s) = stop (strm s) then 1 else 0) < fuel"
  shows "\<exists>s'. GetStr_loop fill fuel n acc s = Inr (acc @ take (n - length acc) cs, s')
           \<and> left_at (n - length acc) cs s'"
  using assms
proof (induction fuel arbitrary: acc s cs)
  case 0
  then show ?case by simp
next
  case (Suc fuel)
  let ?t = "strm s"
  let ?k = "n - length acc"
  define m where "m = min ?k (stop ?t - rdNext ?t)"
  have open_s: "isReader ?t" "\<not> isClosed ?t" "rdNext ?t \<le> stop ?t"
    using yields_open [OF Suc.prems(1)] by auto
  have m_stop: "rdNext ?t + m \<le> stop ?t" using open_s unfolding m_def by linarith
  obtain s1 where cp: "copy_out m s = Inr (take m cs, s1)" and y1: "yields s1 (drop m cs)"
    using copy_out_yields [OF Suc.prems(1), of m] m_stop by blast
  have s1_open: "isReader (strm s1)" "\<not> isClosed (strm s1)"
    using yields_open [OF y1] by auto
  have s1_pos: "rdNext (strm s1) = rdNext ?t + m" "stop (strm s1) = stop ?t"
    using cp by (auto simp: copy_out_def Let_def inbounds_Inr_iff)
  have m_le: "m \<le> length cs"
    using yields_nonempty(4) [OF Suc.prems(1)] open_s
    unfolding m_def by (cases "rdNext ?t = stop ?t") auto
  have first: "(if rdNext ?t \<noteq> stop ?t then inbounds (rdNext ?t \<le> stop ?t) (copy_out m s)
                else Inr ([], s)) = Inr (take m cs, if rdNext ?t \<noteq> stop ?t then s1 else s)"
    using cp open_s by (simp add: m_def)
  show ?case
  proof (cases "rdNext ?t \<noteq> stop ?t \<and> m = ?k")
    case True
    then have "?k \<le> length cs" using m_le by simp
    with True Suc.prems(2) y1 have "GetStr_loop fill (Suc fuel) n acc s = Inr (acc @ take ?k cs, s1)"
      using first by (simp add: GetStr_loop.simps(2) m_def [symmetric])
    moreover have "left_at ?k cs s1" using y1 True \<open>?k \<le> length cs\<close> by (simp add: left_at_def)
    ultimately show ?thesis by blast
  next
    case False
    let ?s1 = "if rdNext ?t \<noteq> stop ?t then s1 else s"
    let ?cs = "drop m cs"
    have ys: "yields ?s1 ?cs"
      using y1 Suc.prems(1) by (auto simp: m_def)
    have pos: "rdNext (strm ?s1) = stop (strm ?s1)"
      using s1_pos False open_s m_stop by (auto simp: m_def)
    have m: "m = stop ?t - rdNext ?t" "m < ?k" using False Suc.prems(2) unfolding m_def by auto
    have oc: "\<not> (isClosed (strm ?s1) \<or> \<not> isReader (strm ?s1))"
      using s1_open open_s by simp
    have not_done: "\<not> (rdNext ?t \<noteq> stop ?t \<and> length (acc @ take m cs) = n)"
      using m m_le by auto
    have eq: "GetStr_loop fill (Suc fuel) n acc s = bindr (fill ?s1) (\<lambda>s2.
        if isClosed (strm s2) then Inr (acc @ take m cs, s2)
        else GetStr_loop fill fuel n (acc @ take m cs) (mark_unget s2))"
      unfolding GetStr_loop.simps m_def [symmetric] first using oc not_done by (simp only: bindr_simps split_conv if_False)
    show ?thesis
    proof (cases "?cs = []")
      case True
      then obtain s2 where "fill ?s1 = Inr s2" "isClosed (strm s2)" "ended s2"
        using fill_end [of ?s1] ys pos by auto
      moreover have "length cs < ?k" using True m by simp
      ultimately show ?thesis
        using eq True by (simp add: left_at_def)
    next
      case ne: False
      then obtain s2 where s2: "fill ?s1 = Inr s2" "yields s2 ?cs" "rdNext (strm s2) < stop (strm s2)"
        using fill_data [OF ys pos] by auto
      have y2: "yields (mark_unget s2) ?cs" using yields_mark s2(2) .
      have p2: "rdNext (strm (mark_unget s2)) \<noteq> stop (strm (mark_unget s2))"
        using s2(3) by (simp add: mark_unget_def)
      have la: "length (acc @ take m cs) < n" using m m_le by simp
      have "length ?cs + 0 < fuel"
        using Suc.prems(3) m m_le open_s by (cases "rdNext ?t = stop ?t") auto
      then obtain s' where s': "GetStr_loop fill fuel n (acc @ take m cs) (mark_unget s2) =
          Inr ((acc @ take m cs) @ take (n - length (acc @ take m cs)) ?cs, s')"
          "left_at (n - length (acc @ take m cs)) ?cs s'"
        using Suc.IH [OF y2 la] p2 by auto
      have k: "n - length (acc @ take m cs) = ?k - m" using m_le by simp
      have cl: "\<not> isClosed (strm s2)" using yields_open [OF s2(2)] by simp
      have "left_at ?k cs s'"
        using s'(2) m(2) m_le unfolding k by (simp only: left_at_drop less_imp_le)
      moreover have "take m cs @ take (?k - m) ?cs = take ?k cs"
        using m(2) by (metis le_add_diff_inverse less_imp_le take_add)
      ultimately show ?thesis
        using eq s2(1) cl s'(1) unfolding k by auto
    qed
  qed
qed

lemma GetStr_yields:
  assumes "yields s cs"
  shows "\<exists>s'. FCGX_GetStr fill (int n) s = Inr (take n cs, s') \<and> left_at n cs s'"
proof -
  let ?t = "strm s"
  have o: "isReader ?t" "\<not> isClosed ?t" "rdNext ?t \<le> stop ?t"
    using yields_open [OF assms] by auto
  consider (zero) "n = 0" | (fast) "0 < n" "n \<le> stop ?t - rdNext ?t" | (slow) "0 < n" "stop ?t - rdNext ?t < n"
    by linarith
  then show ?thesis
  proof cases
    case zero
    then show ?thesis using assms by (simp add: FCGX_GetStr_def left_at_def)
  next
    case fast
    then have "n \<le> length cs"
      using yields_nonempty(4) [OF assms] by linarith
    moreover obtain s' where "copy_out n s = Inr (take n cs, s')" "yields s' (drop n cs)"
      using copy_out_yields [OF assms, of n] fast o by fastforce
    ultimately show ?thesis
      using fast o by (auto simp: FCGX_GetStr_def left_at_def)
  next
    case slow
    have "length cs + (if rdNext ?t = stop ?t then 1 else 0) < Suc (Suc (length (unread s)))"
      using yields_unread [OF assms] by simp
    then show ?thesis
      using GetStr_loop_yields [OF assms, of "[]" n] slow o by (auto simp: FCGX_GetStr_def)
  qed
qed

text \<open>
  A line of at most \<open>n\<close> bytes: up to and including the first newline.
\<close>

lemma GetLine_loop_yields:
  assumes "yields s cs"
  shows "\<exists>s'. GetLine_loop fill n acc s =
      Inr (if acc = [] \<and> cs = [] \<and> 0 < n then None else Some (acc @ line_of n cs), s')"
  using assms
proof (induction n arbitrary: acc s cs)
  case 0
  then show ?case by (simp add: line_of_def)
next
  case (Suc n)
  show ?case
  proof (cases cs)
    case Nil
    then show ?thesis
      using GetChar_end [of s] Suc.prems by (auto simp: line_of_def)
  next
    case (Cons c ds)
    then obtain s1 where s1: "FCGX_GetChar fill s = Inr (uint c, s1)" "yields s1 ds"
      using GetChar_yields Suc.prems by blast
    have neof: "uint c \<noteq> EOF"
    proof -
      have "0 \<le> uint c" by simp
      then show ?thesis unfolding EOF_def by linarith
    qed
    have nl: "uint c = 10 \<longleftrightarrow> c = 10"
      by (simp add: word_uint_eq_iff)
    have uc: "uchar (uint c) = c" by (simp add: uchar_def)
    from Suc.IH [OF s1(2), of "acc @ [c]"] show ?thesis
      using s1 neof nl uc Cons by (simp add: line_of_Cons)
  qed
qed

lemma GetLine_yields:
  assumes "yields s cs"
  shows "\<exists>s'. FCGX_GetLine fill (int n) s =
      Inr (if cs = [] \<and> 1 < n then None else Some (line_of (n - 1) cs), s')"
  using GetLine_loop_yields [OF assms, of "nat (int n - 1)" "[]"]
  by (auto simp: FCGX_GetLine_def nat_diff_distrib' split: if_splits)

end

section \<open>The contract of an empty procedure\<close>

text \<open>
  \<open>took s cs\<close>: the stream of \<open>s\<close> is open for writing and has taken exactly the bytes \<open>cs\<close>. The
  last law is what a client relies on when the buffer is full: the bytes taken so far stay taken and there is room.
\<close>

locale byte_sink =
  fixes drain :: empty_proc
    and took :: "st \<Rightarrow> byte list \<Rightarrow> bool"
  assumes took_open: "took s cs \<Longrightarrow> \<not> isReader (strm s) \<and> \<not> isClosed (strm s) \<and>
      wrNext (strm s) \<le> stop (strm s) \<and> stop (strm s) \<le> length (buff (strm s))"
    and took_copy: "took s cs \<Longrightarrow> wrNext (strm s) + length bs \<le> stop (strm s) \<Longrightarrow>
      took (upd (\<lambda>t. t\<lparr>buff := put_bytes (wrNext t) bs (buff t), wrNext := wrNext t + length bs\<rparr>) s) (cs @ bs)"
    and drain_room: "took s cs \<Longrightarrow>
      \<exists>s'. drain s False = Inr s' \<and> took s' cs \<and> wrNext (strm s') < stop (strm s')"
begin

lemma copy_in_took:
  assumes "took s cs" "wrNext (strm s) + length bs \<le> stop (strm s)"
  shows "\<exists>s'. copy_in bs s = Inr s' \<and> took s' (cs @ bs) \<and> wrNext (strm s') = wrNext (strm s) + length bs
    \<and> stop (strm s') = stop (strm s)"
proof -
  have "wrNext (strm s) + length bs \<le> length (buff (strm s))"
    using took_open [OF assms(1)] assms(2) by simp
  then show ?thesis using took_copy [OF assms] by (simp add: copy_in_def Let_def)
qed

lemma PutStr_loop_took:
  assumes "took s cs" "length str + (if wrNext (strm s) = stop (strm s) then 1 else 0) < fuel"
  shows "\<exists>s'. PutStr_loop drain fuel n str s = Inr (n, s') \<and> took s' (cs @ str)"
  using assms
proof (induction fuel arbitrary: str s cs)
  case 0
  then show ?case by simp
next
  case (Suc fuel)
  let ?t = "strm s"
  define m where "m = min (length str) (stop ?t - wrNext ?t)"
  have o: "wrNext ?t \<le> stop ?t" using took_open [OF Suc.prems(1)] by simp
  have refill: "\<exists>s'. bindr (drain u False) (PutStr_loop drain fuel n str') = Inr (n, s') \<and> took s' (ds @ str')"
    if u: "took u ds" "length str' < fuel" for u ds str'
  proof -
    obtain u' where u': "drain u False = Inr u'" "took u' ds" "wrNext (strm u') < stop (strm u')"
      using drain_room [OF u(1)] by blast
    then show ?thesis using Suc.IH [OF u'(2), of str'] u(2) by simp
  qed
  show ?case
  proof (cases "wrNext ?t = stop ?t")
    case True
    then show ?thesis
      using refill [OF Suc.prems(1), of str] Suc.prems took_open [OF Suc.prems(1)]
      by (simp add: PutStr_loop.simps(2))
  next
    case False
    have "wrNext ?t + length (take m str) \<le> stop ?t" using o by (simp add: m_def)
    from copy_in_took [OF Suc.prems(1) this] obtain s1 where
      s1: "copy_in (take m str) s = Inr s1" "took s1 (cs @ take m str)" by blast
    show ?thesis
    proof (cases "m = length str")
      case True
      then show ?thesis using s1 o False by (simp add: PutStr_loop.simps(2) m_def [symmetric])
    next
      case ne: False
      then have "m < length str" "0 < m" using False o unfolding m_def by auto
      then have "length (drop m str) < fuel" using Suc.prems(2) by simp
      from refill [OF s1(2) this] show ?thesis
        using s1 ne o False took_open [OF s1(2)] by (simp add: PutStr_loop.simps(2) m_def [symmetric])
    qed
  qed
qed

lemma PutStr_took:
  assumes "took s cs"
  shows "\<exists>s'. FCGX_PutStr drain str s = Inr (int (length str), s') \<and> took s' (cs @ str)"
proof (cases "wrNext (strm s) + length str \<le> stop (strm s)")
  case True
  then show ?thesis using copy_in_took [OF assms True] by (auto simp: FCGX_PutStr_def)
next
  case False
  then show ?thesis
    using PutStr_loop_took [OF assms, of str "Suc (Suc (length str))"] took_open [OF assms]
    by (simp add: FCGX_PutStr_def)
qed

lemma PutS_took:
  assumes "took s cs"
  shows "\<exists>s'. FCGX_PutS drain str s = Inr (int (length (c_str str)), s') \<and> took s' (cs @ c_str str)"
  using PutStr_took [OF assms] by (simp add: FCGX_PutS_def)

lemma PutChar_took:
  assumes "took s cs"
  shows "\<exists>s'. FCGX_PutChar drain c s = Inr (uint (uchar c), s') \<and> took s' (cs @ [uchar c])"
proof -
  have put: "\<exists>u'. put_byte c u = Inr (uint (uchar c), u') \<and> took u' (cs @ [uchar c])"
    if "took u cs" "wrNext (strm u) < stop (strm u)" for u
    using copy_in_took [OF that(1), of "[uchar c]"] that(2) by (auto simp: put_byte_def)
  show ?thesis
  proof (cases "wrNext (strm s) = stop (strm s)")
    case False
    then show ?thesis using put [OF assms] took_open [OF assms] by (simp add: FCGX_PutChar_def)
  next
    case True
    obtain s1 where "drain s False = Inr s1" "took s1 cs" "wrNext (strm s1) < stop (strm s1)"
      using drain_room [OF assms] by blast
    then show ?thesis using put [of s1] True took_open [OF assms] by (simp add: FCGX_PutChar_def)
  qed
qed

lemma FFlush_took:
  assumes "took s cs"
  shows "\<exists>s'. FCGX_FFlush drain s = Inr (0, s') \<and> drain s False = Inr s' \<and> took s' cs"
  using drain_room [OF assms] took_open [OF assms] took_open by (fastforce simp: FCGX_FFlush_def)

end

end
