(* ===== verification/Fcgi_Writer.thy ===== *)
theory Fcgi_Writer
  imports Fcgi_Stream
begin

text \<open>
  The record writer of \<open>fcgiapp.c\<close>: \<open>EmptyBuffProc\<close>, \<open>WriteCloseRecords\<close> and the creation of
  streams (\<open>NewStream\<close>, \<open>NewReader\<close>, \<open>NewWriter\<close>, \<open>FCGX_CreateWriter\<close>).

  In the source \<open>EmptyBuffProc\<close> with \<open>doClose\<close> set calls \<open>WriteCloseRecords\<close>, which writes through
  \<open>FCGX_PutStr\<close> and so calls \<open>EmptyBuffProc\<close> again, with \<open>doClose\<close> clear. The model
  is staged in the same order: \<open>EmptyBuffProc_flush\<close> is the call with \<open>doClose\<close> clear; the
  recursive equation of the source is derived from it below.
\<close>

section \<open>Emptying the buffer\<close>

text \<open>The block under \<open>if(!data->rawWrite)\<close>: encapsulate the content of the buffer.\<close>

definition encapsulate :: "st \<Rightarrow> st res" where
  "encapsulate s =
     (let t = strm s in
      if rawWrite t then Inr s
      else let cLen = int (wrNext t) - int FCGI_HEADER_LEN in
        if 0 < cLen then
          let eLen = AlignInt8 (of_int cLen); pad = nat (eLen - cLen) in
          inbounds (cLen \<le> eLen \<and> wrNext t + pad \<le> length (buff t))
           (bindr (MakeHeader (dtype t) (requestId (rqd s)) cLen (eLen - cLen)) (\<lambda>h.
              Inr (upd (\<lambda>t. t\<lparr>buff := put_bytes 0 (header_bytes h) (put_bytes (wrNext t) (replicate pad 0) (buff t)),
                              wrNext := wrNext t + pad\<rparr>) s)))
        else Inr (upd (\<lambda>t. t\<lparr>wrNext := 0\<rparr>) s))"

text \<open>What follows \<open>if(doClose)\<close>: write the buffer to the connection.\<close>

definition reserve_header :: "st \<Rightarrow> st" where
  "reserve_header s = (if rawWrite (strm s) then s else upd (\<lambda>t. t\<lparr>wrNext := wrNext t + FCGI_HEADER_LEN\<rparr>) s)"

definition write_out :: "st \<Rightarrow> st res" where
  "write_out s =
     (if wrNext (strm s) \<noteq> 0 then
        let s1 = upd (\<lambda>t. t\<lparr>isAnythingWritten := True\<rparr>) s in
        inbounds (wrNext (strm s1) \<le> length (buff (strm s1)))
         (case write_it_all (ipcFd (rqd s1)) (take (wrNext (strm s1)) (buff (strm s1))) (sys s1) of (r, w) \<Rightarrow>
            let s2 = s1\<lparr>sys := w\<rparr> in
            if r < 0 then Inr (upd (SetError (osErrno w)) s2)
            else Inr (reserve_header (upd (\<lambda>t. t\<lparr>wrNext := 0\<rparr>) s2)))
      else Inr (reserve_header s))"

definition EmptyBuffProc_flush :: "st \<Rightarrow> st res" where
  "EmptyBuffProc_flush s = bindr (encapsulate s) write_out"

definition end_request_record :: "int \<Rightarrow> int \<Rightarrow> byte list res" where
  "end_request_record requestId' appStatus' =
     bindr (MakeHeader FCGI_END_REQUEST requestId' 8 0)
       (\<lambda>h. Inr (header_bytes h @ end_body_bytes (MakeEndRequestBody appStatus' FCGI_REQUEST_COMPLETE)))"

definition WriteCloseRecords :: "empty_proc \<Rightarrow> st \<Rightarrow> st res" where
  "WriteCloseRecords drain s =
     (let s1 = upd (\<lambda>t. t\<lparr>rawWrite := True\<rparr>) s; t = strm s1 in
      bindr (if \<not> (dtype t = FCGI_STDERR \<and> wrNext t = 0 \<and> \<not> isAnythingWritten t)
             then bindr (MakeHeader (dtype t) (requestId (rqd s1)) 0 0) (\<lambda>h.
                  bindr (FCGX_PutStr drain (header_bytes h) s1) (\<lambda>(_, s2). Inr s2))
             else Inr s1) (\<lambda>s3.
      bindr (if nWriters (rqd s3) = 1
             then bindr (end_request_record (requestId (rqd s3)) (appStatus (rqd s3))) (\<lambda>bs.
                  bindr (FCGX_PutStr drain bs s3) (\<lambda>(_, s4). Inr s4))
             else Inr s3) (\<lambda>s5.
      Inr (s5\<lparr>rqd := (rqd s5)\<lparr>nWriters := nWriters (rqd s5) - 1\<rparr>\<rparr>))))"

definition EmptyBuffProc :: empty_proc where
  "EmptyBuffProc s doClose =
     bindr (encapsulate s) (\<lambda>s1.
     bindr (if doClose then WriteCloseRecords (\<lambda>s _. EmptyBuffProc_flush s) s1 else Inr s1) write_out)"

lemma EmptyBuffProc_flush [simp]: "EmptyBuffProc s False = EmptyBuffProc_flush s"
  by (simp add: EmptyBuffProc_def EmptyBuffProc_flush_def)

text \<open>\<open>FCGX_PutStr\<close> never asks for a close, so it depends on the flushing half only.\<close>

lemma PutStr_loop_flush:
  assumes "\<And>s. drain s False = drain' s False"
  shows "PutStr_loop drain fuel n str s = PutStr_loop drain' fuel n str s"
proof (induction fuel arbitrary: str s)
  case (Suc fuel)
  then have "PutStr_loop drain fuel n = PutStr_loop drain' fuel n" by (intro ext)
  then show ?case by (simp add: PutStr_loop.simps(2) assms Let_def cong: if_cong)
qed simp

lemma PutStr_flush:
  "(\<And>s. drain s False = drain' s False) \<Longrightarrow> FCGX_PutStr drain str s = FCGX_PutStr drain' str s"
  by (simp add: FCGX_PutStr_def Let_def PutStr_loop_flush [of drain drain'])

text \<open>\<open>EmptyBuffProc\<close> satisfies the recursive equation of the source: encapsulate the buffer, let
  \<open>WriteCloseRecords\<close> put its records through \<open>EmptyBuffProc\<close> itself when closing, and write the
  buffer out.\<close>

theorem EmptyBuffProc_recursive:
  "EmptyBuffProc s doClose =
     bindr (encapsulate s) (\<lambda>s1.
     bindr (if doClose then WriteCloseRecords EmptyBuffProc s1 else Inr s1) write_out)"
proof -
  have "FCGX_PutStr EmptyBuffProc bs u = FCGX_PutStr (\<lambda>s _. EmptyBuffProc_flush s) bs u" for bs u
    by (rule PutStr_flush) simp
  then have "WriteCloseRecords EmptyBuffProc = WriteCloseRecords (\<lambda>s _. EmptyBuffProc_flush s)"
    by (intro ext) (simp only: WriteCloseRecords_def)
  then show ?thesis by (simp add: EmptyBuffProc_def cong: if_cong)
qed

section \<open>Creating streams\<close>

text \<open>
  \<open>NewStream\<close>. The address \<open>Malloc\<close> returns and the bytes it holds are the kernel's choice
  (\<open>mallocs\<close>, \<open>heapMem\<close>). \<open>buff\<close> are the \<open>bufflen\<close> bytes from the aligned address; the block
  is at least as long.
\<close>

definition NewStream :: "int \<Rightarrow> bool \<Rightarrow> int \<Rightarrow> os \<Rightarrow> FCGX_Stream \<times> os" where
  "NewStream len reader streamType w =
     (let mLen = AlignInt8 (of_int (min (max len 32) (FCGI_MAX_LENGTH + 1)));
          mBuff = mallocs w (mallocCount w);
          blen = (if AlignPtr8 mBuff \<noteq> mBuff then mLen - 8 else mLen);
          n = nat blen
      in (\<lparr>buff = map (heapMem w (mallocCount w)) [0..<n], bufflen = n,
           buffStop = (if reader then 0 else n),
           dtype = streamType, eorStop = False, skip = False, contentLen = 0, paddingLen = 0,
           isAnythingWritten = False, rawWrite = False,
           rdNext = (if reader then 0 else n), wrNext = (if reader then 0 else FCGI_HEADER_LEN),
           stop = (if reader then 0 else n), stopUnget = (if reader then Some 0 else None),
           isReader = reader, isClosed = False, wasFCloseCalled = False, FCGI_errno = 0\<rparr>,
          w\<lparr>mallocCount := Suc (mallocCount w)\<rparr>))"

definition NewReader :: "int \<Rightarrow> int \<Rightarrow> os \<Rightarrow> FCGX_Stream \<times> os" where
  "NewReader len streamType w = NewStream len True streamType w"

definition NewWriter :: "int \<Rightarrow> int \<Rightarrow> os \<Rightarrow> FCGX_Stream \<times> os" where
  "NewWriter len streamType w = NewStream len False streamType w"

text \<open>
  \<open>FCGX_CreateWriter\<close>: the request is allocated here and three of its fields are set; \<open>r\<close> is what the
  others hold.
\<close>

definition FCGX_CreateWriter :: "FCGX_ReqData \<Rightarrow> int \<Rightarrow> int \<Rightarrow> int \<Rightarrow> int \<Rightarrow> os \<Rightarrow> st" where
  "FCGX_CreateWriter r fd rid len streamType w =
     (case NewWriter len streamType w of (t, w1) \<Rightarrow>
        \<lparr>strm = t, rqd = r\<lparr>ipcFd := fd, requestId := rid, nWriters := 2\<rparr>, sys = w1\<rparr>)"

text \<open>\<open>FCGX_FreeStream\<close> releases the stream and nulls the pointer.\<close>

definition FCGX_FreeStream :: "FCGX_Stream option \<Rightarrow> FCGX_Stream option" where
  "FCGX_FreeStream t = None"

end
