(* ===== verification/Fcgi_Writer_Correct.thy ===== *)
theory Fcgi_Writer_Correct
  imports Fcgi_Writer
begin

text \<open>
  What the record writer puts on the connection. \<open>framed rid ty w cs\<close>: \<open>w\<close> is a sequence of
  non-empty records of stream \<open>ty\<close> of request \<open>rid\<close>, each padded with zeros to a multiple of eight
  bytes, whose contents are together \<open>cs\<close>. On a connection that takes writes (in pieces of any size)
  the bytes sent and the content still in the buffer are always such a framing of what the application wrote; this is
  the interpretation \<open>content_sink\<close>. Closing adds the end-of-stream record and, for the last writer
  of the request, the FCGI_END_REQUEST record.
\<close>

section \<open>The writer invariant\<close>

definition wr_inv :: "st \<Rightarrow> bool" where
  "wr_inv s \<longleftrightarrow> (let t = strm s in \<not> isReader t \<and> \<not> isClosed t \<and> length (buff t) = bufflen t
     \<and> bufflen t mod 8 = 0 \<and> 24 \<le> bufflen t \<and> bufflen t \<le> 65536 \<and> stop t = bufflen t \<and> wrNext t \<le> stop t)"

inductive framed :: "int \<Rightarrow> int \<Rightarrow> byte list \<Rightarrow> byte list \<Rightarrow> bool" for rid ty where
  none: "framed rid ty [] []"
| rec: "framed rid ty w cs \<Longrightarrow> c \<noteq> [] \<Longrightarrow> length c \<le> 65528 \<Longrightarrow> (length c + k) mod 8 = 0 \<Longrightarrow> k < 8 \<Longrightarrow>
    framed rid ty (w @ rec_bytes ty rid c (replicate k 0)) (cs @ c)"

definition content :: "FCGX_Stream \<Rightarrow> byte list" where
  "content t = sub_bytes 8 (wrNext t - 8) (buff t)"

definition pad_len :: "nat \<Rightarrow> nat" where
  "pad_len n = 8 * ((n + 7) div 8) - n"

lemma pad_len: "(n + pad_len n) mod 8 = 0" "pad_len n < 8" "n + pad_len n = 8 * ((n + 7) div 8)"
  by (simp_all add: pad_len_def)

lemma padded_fits: "n + 8 \<le> m \<Longrightarrow> m mod 8 = 0 \<Longrightarrow> n + pad_len n + 8 \<le> m"
  unfolding pad_len(3) by presburger

lemma length_content: "wr_inv s \<Longrightarrow> 8 \<le> wrNext (strm s) \<Longrightarrow> length (content (strm s)) = wrNext (strm s) - 8"
  by (simp add: content_def wr_inv_def Let_def)

lemma take_put_twice:
  assumes "i + length ys \<le> length xs" "length zs \<le> i"
  shows "take (i + length ys) (put_bytes 0 zs (put_bytes i ys xs)) = zs @ sub_bytes (length zs) (i - length zs) xs @ ys"
  using assms by (simp add: put_bytes_def sub_bytes_def drop_take)

text \<open>What the buffer holds once the content is encapsulated.\<close>

definition frame_of :: "st \<Rightarrow> byte list" where
  "frame_of s = (let c = content (strm s) in
     if c = [] then [] else rec_bytes (dtype (strm s)) (requestId (rqd s)) c (replicate (pad_len (length c)) 0))"

lemma encapsulate_frame:
  assumes inv: "wr_inv s" and n: "8 \<le> wrNext (strm s)" and raw: "\<not> rawWrite (strm s)"
  shows "\<exists>b k. encapsulate s = Inr (upd (\<lambda>t. t\<lparr>buff := b, wrNext := k\<rparr>) s) \<and> length b = bufflen (strm s)
    \<and> k \<le> stop (strm s) \<and> take k b = frame_of s"
proof (cases "wrNext (strm s) = 8")
  case True
  then show ?thesis using assms
    by (intro exI [of _ "buff (strm s)"] exI [of _ 0])
      (simp add: encapsulate_def FCGI_HEADER_LEN_def Let_def frame_of_def content_def wr_inv_def)
next
  case False
  let ?t = "strm s"
  let ?n = "wrNext ?t - 8"
  let ?p = "pad_len ?n"
  have b: "length (buff ?t) = bufflen ?t" "wrNext ?t \<le> bufflen ?t" "bufflen ?t \<le> 65536" "bufflen ?t mod 8 = 0"
    "stop ?t = bufflen ?t"
    using inv by (simp_all add: wr_inv_def Let_def)
  have c: "length (content ?t) = ?n" "content ?t \<noteq> []"
    using length_content [OF inv n] False n by (auto simp del: length_0_conv simp flip: length_0_conv)
  have al: "AlignInt8 (of_nat ?n) = int (?n + ?p)" using b(2,3) AlignInt8_eq [of ?n] by (simp add: pad_len)
  have cl: "int (wrNext ?t) - int FCGI_HEADER_LEN = int ?n" using n by (simp add: FCGI_HEADER_LEN_def)
  have fit: "wrNext ?t + ?p \<le> bufflen ?t"
    using padded_fits [of ?n "bufflen ?t"] b(2,4) n by simp
  have mh: "MakeHeader (dtype ?t) (requestId (rqd s)) (int ?n) (int ?p) = Inr (header_for (dtype ?t) (requestId (rqd s)) ?n ?p)"
    using b pad_len(2) [of ?n] by (intro MakeHeader_for) auto
  let ?b = "put_bytes 0 (header_bytes (header_for (dtype ?t) (requestId (rqd s)) ?n ?p))
      (put_bytes (wrNext ?t) (replicate ?p 0) (buff ?t))"
  have "encapsulate s = Inr (upd (\<lambda>t. t\<lparr>buff := ?b, wrNext := wrNext ?t + ?p\<rparr>) s)"
    unfolding encapsulate_def Let_def cl of_int_of_nat_eq al using raw n False fit b(1) mh
    by (simp add: upd_def)
  moreover have "length ?b = bufflen ?t" using fit b n by (simp add: put_bytes_def)
  moreover have "take (wrNext ?t + ?p) ?b = frame_of s"
    using take_put_twice [of "wrNext ?t" "replicate ?p 0" "buff ?t" "header_bytes (header_for (dtype ?t) (requestId (rqd s)) ?n ?p)"]
      fit b(1) n c by (simp add: frame_of_def Let_def rec_bytes_def) (simp add: content_def)
  ultimately show ?thesis unfolding b(5) using fit by blast
qed

text \<open>Writing the buffer out, on a connection that takes writes.\<close>

lemma write_out_sends:
  assumes "wr_inv s" "writable (ipcFd (rqd s)) (sys s)"
  shows "\<exists>w'. write_out s = Inr ((upd (\<lambda>t. t\<lparr>isAnythingWritten := (isAnythingWritten t \<or> wrNext (strm s) \<noteq> 0),
        wrNext := (if rawWrite t then 0 else 8)\<rparr>) s)\<lparr>sys := w'\<rparr>)
    \<and> sent (conns w' (ipcFd (rqd s))) = sent (conns (sys s) (ipcFd (rqd s))) @ take (wrNext (strm s)) (buff (strm s))
    \<and> same_input (ipcFd (rqd s)) (sys s) w' \<and> writable (ipcFd (rqd s)) w'"
proof (cases "wrNext (strm s) = 0")
  case True
  then show ?thesis using assms(2)
    by (intro exI [of _ "sys s"]) (simp add: write_out_def reserve_header_def FCGI_HEADER_LEN_def upd_def)
next
  case False
  obtain w' where w': "write_it_all (ipcFd (rqd s)) (take (wrNext (strm s)) (buff (strm s))) (sys s) = (0, w')"
      "writable (ipcFd (rqd s)) w'"
    using write_it_all_writable [OF assms(2)] by blast
  have "wrNext (strm s) \<le> length (buff (strm s))" using assms(1) by (simp add: wr_inv_def Let_def)
  then show ?thesis using False w' write_it_all_sent [OF w'(1)] write_it_all_same_input [OF w'(1)]
    by (intro exI [of _ w']) (auto simp: write_out_def reserve_header_def FCGI_HEADER_LEN_def Let_def upd_def)
qed


section \<open>What a writer has taken\<close>

text \<open>\<open>s0\<close> is the state in which the writer was created (or from which the account starts).\<close>

definition writing :: "st \<Rightarrow> st \<Rightarrow> bool" where
  "writing s0 s \<longleftrightarrow> wr_inv s \<and> rqd s = rqd s0 \<and> dtype (strm s) = dtype (strm s0)
     \<and> FCGI_errno (strm s) = FCGI_errno (strm s0) \<and> wasFCloseCalled (strm s) = wasFCloseCalled (strm s0)
     \<and> writable (ipcFd (rqd s0)) (sys s) \<and> same_input (ipcFd (rqd s0)) (sys s0) (sys s)"

abbreviation sent_of :: "st \<Rightarrow> st \<Rightarrow> byte list" where
  "sent_of s0 s \<equiv> sent (conns (sys s) (ipcFd (rqd s0)))"

definition took_content :: "st \<Rightarrow> st \<Rightarrow> byte list \<Rightarrow> bool" where
  "took_content s0 s cs \<longleftrightarrow> writing s0 s \<and> \<not> rawWrite (strm s) \<and> 8 \<le> wrNext (strm s) \<and>
     (\<exists>w x. sent_of s0 s = sent_of s0 s0 @ w \<and> framed (requestId (rqd s0)) (dtype (strm s0)) w x
        \<and> cs = x @ content (strm s) \<and> isAnythingWritten (strm s) = (isAnythingWritten (strm s0) \<or> w \<noteq> []))"

definition took_raw :: "st \<Rightarrow> st \<Rightarrow> byte list \<Rightarrow> bool" where
  "took_raw s0 s bs \<longleftrightarrow> writing s0 s \<and> rawWrite (strm s)
     \<and> sent_of s0 s0 @ bs = sent_of s0 s @ take (wrNext (strm s)) (buff (strm s))"

lemma writing_upd:
  assumes "writing s0 s" "wr_inv (upd f s)" "dtype (f (strm s)) = dtype (strm s)"
    "FCGI_errno (f (strm s)) = FCGI_errno (strm s)" "wasFCloseCalled (f (strm s)) = wasFCloseCalled (strm s)"
  shows "writing s0 (upd f s)"
  using assms by (simp add: writing_def)

lemma writing_sys:
  assumes "writing s0 s" "same_input (ipcFd (rqd s0)) (sys s) w'" "writable (ipcFd (rqd s0)) w'"
  shows "writing s0 (s\<lparr>sys := w'\<rparr>)"
  using assms same_input_trans by (simp add: writing_def wr_inv_def) blast

lemma copy_inv:
  assumes "wr_inv s" "wrNext (strm s) + length bs \<le> stop (strm s)"
  shows "wr_inv (upd (\<lambda>t. t\<lparr>buff := put_bytes (wrNext t) bs (buff t), wrNext := wrNext t + length bs\<rparr>) s)"
  using assms by (simp add: wr_inv_def Let_def)

lemma content_copy:
  assumes "8 \<le> wrNext t" "wrNext t + length bs \<le> length (buff t)"
  shows "content (t\<lparr>buff := put_bytes (wrNext t) bs (buff t), wrNext := wrNext t + length bs\<rparr>) = content t @ bs"
  using assms by (simp add: content_def sub_bytes_def put_bytes_def drop_take)

lemma flush_sends:
  assumes s: "writing s0 s" and enc: "encapsulate s = Inr s1" and s1: "s1 = upd (\<lambda>t. t\<lparr>buff := b, wrNext := k\<rparr>) s"
    and b: "length b = bufflen (strm s)" "k \<le> stop (strm s)"
  shows "\<exists>w'. EmptyBuffProc_flush s = Inr ((upd (\<lambda>t. t\<lparr>buff := b, isAnythingWritten := (isAnythingWritten t \<or> k \<noteq> 0),
        wrNext := (if rawWrite t then 0 else 8)\<rparr>) s)\<lparr>sys := w'\<rparr>)
    \<and> sent (conns w' (ipcFd (rqd s0))) = sent_of s0 s @ take k b
    \<and> writing s0 ((upd (\<lambda>t. t\<lparr>buff := b, isAnythingWritten := (isAnythingWritten t \<or> k \<noteq> 0),
        wrNext := (if rawWrite t then 0 else 8)\<rparr>) s)\<lparr>sys := w'\<rparr>)"
proof -
  have inv: "wr_inv s" "rqd s = rqd s0" "writable (ipcFd (rqd s0)) (sys s)" using s by (simp_all add: writing_def)
  have "wr_inv s1" using inv(1) b by (simp add: s1 wr_inv_def Let_def)
  from write_out_sends [OF this] obtain w' where w': "write_out s1 = Inr ((upd (\<lambda>t. t\<lparr>isAnythingWritten :=
        (isAnythingWritten t \<or> wrNext (strm s1) \<noteq> 0), wrNext := (if rawWrite t then 0 else 8)\<rparr>) s1)\<lparr>sys := w'\<rparr>)"
      "sent (conns w' (ipcFd (rqd s0))) = sent_of s0 s @ take k b"
      "same_input (ipcFd (rqd s0)) (sys s) w'" "writable (ipcFd (rqd s0)) w'"
    using inv by (auto simp: s1)
  let ?f = "\<lambda>t. t\<lparr>buff := b, isAnythingWritten := (isAnythingWritten t \<or> k \<noteq> 0), wrNext := (if rawWrite t then 0 else 8)\<rparr>"
  have "wr_inv (upd ?f s)" using inv(1) b by (auto simp: wr_inv_def Let_def)
  then have "writing s0 ((upd ?f s)\<lparr>sys := w'\<rparr>)"
    by (intro writing_sys writing_upd [OF s]) (use w'(3,4) in simp_all)
  moreover have "EmptyBuffProc_flush s = Inr ((upd ?f s)\<lparr>sys := w'\<rparr>)"
    using enc w'(1) by (simp add: EmptyBuffProc_flush_def s1 upd_def)
  ultimately show ?thesis using w'(2) by blast
qed

lemma content_empty: "wrNext t = 8 \<Longrightarrow> content t = []"
  by (simp add: content_def)

lemma framed_frame_of:
  assumes "framed (requestId (rqd s)) (dtype (strm s)) w x" "wr_inv s" "8 \<le> wrNext (strm s)"
  shows "framed (requestId (rqd s)) (dtype (strm s)) (w @ frame_of s) (x @ content (strm s))"
proof (cases "content (strm s) = []")
  case True
  then show ?thesis using assms(1) by (simp add: frame_of_def)
next
  case False
  have "length (content (strm s)) \<le> 65528"
    using length_content [OF assms(2,3)] assms(2) by (auto simp: wr_inv_def Let_def)
  then show ?thesis
    using framed.rec [OF assms(1) False _ pad_len(1) pad_len(2)] False by (simp add: frame_of_def Let_def)
qed

lemma flush_content:
  assumes "took_content s0 s cs"
  shows "\<exists>s'. EmptyBuffProc_flush s = Inr s' \<and> took_content s0 s' cs \<and> wrNext (strm s') = 8"
proof -
  from assms obtain w x where t: "writing s0 s" "\<not> rawWrite (strm s)" "8 \<le> wrNext (strm s)"
    "sent_of s0 s = sent_of s0 s0 @ w" "framed (requestId (rqd s0)) (dtype (strm s0)) w x"
    "cs = x @ content (strm s)" "isAnythingWritten (strm s) = (isAnythingWritten (strm s0) \<or> w \<noteq> [])"
    unfolding took_content_def by blast
  have inv: "wr_inv s" "rqd s = rqd s0" "dtype (strm s) = dtype (strm s0)" using t(1) by (simp_all add: writing_def)
  from encapsulate_frame [OF inv(1) t(3,2)] obtain b k where
    e: "encapsulate s = Inr (upd (\<lambda>t. t\<lparr>buff := b, wrNext := k\<rparr>) s)" "length b = bufflen (strm s)"
       "k \<le> stop (strm s)" "take k b = frame_of s" by blast
  define f :: "FCGX_Stream \<Rightarrow> FCGX_Stream" where "f = (\<lambda>t. t\<lparr>buff := b, isAnythingWritten := (isAnythingWritten t \<or> k \<noteq> 0),
        wrNext := (if rawWrite t then 0 else 8)\<rparr>)"
  from flush_sends [OF t(1) e(1) refl e(2,3)] obtain w' where
    w': "EmptyBuffProc_flush s = Inr ((upd f s)\<lparr>sys := w'\<rparr>)"
      "sent (conns w' (ipcFd (rqd s0))) = sent_of s0 s @ take k b" "writing s0 ((upd f s)\<lparr>sys := w'\<rparr>)"
    unfolding f_def by blast
  have fr: "framed (requestId (rqd s0)) (dtype (strm s0)) (w @ frame_of s) cs"
    using framed_frame_of [OF _ inv(1) t(3)] t(5,6) inv(2,3) by simp
  have fs: "wrNext (f (strm s)) = 8" "\<not> rawWrite (f (strm s))" "content (f (strm s)) = []"
    "isAnythingWritten (f (strm s)) = (isAnythingWritten (strm s) \<or> k \<noteq> 0)"
    using t(2) by (simp_all add: f_def content_def)
  have "k \<le> length b" using e(2,3) inv(1) by (simp add: wr_inv_def Let_def)
  then have "k \<noteq> 0 \<longleftrightarrow> frame_of s \<noteq> []" using e(4) by (metis take_eq_Nil le_zero_eq list.size(3))
  then have "took_content s0 ((upd f s)\<lparr>sys := w'\<rparr>) cs"
    unfolding took_content_def using w'(2,3) fs fr t(4,7) e(4)
    by (intro conjI exI [of _ "w @ frame_of s"] exI [of _ cs]) auto
  then show ?thesis using w'(1) fs(1) by auto
qed

lemma flush_raw:
  assumes "took_raw s0 s bs"
  shows "\<exists>s'. EmptyBuffProc_flush s = Inr s' \<and> took_raw s0 s' bs \<and> wrNext (strm s') = 0"
proof -
  from assms have t: "writing s0 s" "rawWrite (strm s)"
    "sent_of s0 s0 @ bs = sent_of s0 s @ take (wrNext (strm s)) (buff (strm s))"
    by (simp_all add: took_raw_def)
  have inv: "wr_inv s" using t(1) by (simp add: writing_def)
  define k where "k = wrNext (strm s)"
  define b where "b = buff (strm s)"
  have "encapsulate s = Inr (upd (\<lambda>t. t\<lparr>buff := b, wrNext := k\<rparr>) s)"
    using t(2) by (simp add: encapsulate_def upd_def b_def k_def)
  moreover have "length b = bufflen (strm s)" "k \<le> stop (strm s)" using inv by (simp_all add: b_def k_def wr_inv_def Let_def)
  ultimately obtain w' where
    w': "EmptyBuffProc_flush s = Inr ((upd (\<lambda>t. t\<lparr>buff := b, isAnythingWritten := (isAnythingWritten t \<or> k \<noteq> 0),
        wrNext := (if rawWrite t then 0 else 8)\<rparr>) s)\<lparr>sys := w'\<rparr>)"
      "sent (conns w' (ipcFd (rqd s0))) = sent_of s0 s @ take k b"
      "writing s0 ((upd (\<lambda>t. t\<lparr>buff := b, isAnythingWritten := (isAnythingWritten t \<or> k \<noteq> 0),
        wrNext := (if rawWrite t then 0 else 8)\<rparr>) s)\<lparr>sys := w'\<rparr>)"
    using flush_sends [OF t(1) _ refl] by blast
  then show ?thesis using t(2,3) by (simp add: took_raw_def b_def k_def)
qed

interpretation content_sink: byte_sink EmptyBuffProc "took_content s0" for s0
proof (unfold_locales, goal_cases)
  case (1 s cs)
  then show ?case by (simp add: took_content_def writing_def wr_inv_def Let_def)
next
  case (2 s cs bs)
  let ?f = "\<lambda>t. t\<lparr>buff := put_bytes (wrNext t) bs (buff t), wrNext := wrNext t + length bs\<rparr>"
  have t: "writing s0 s" "8 \<le> wrNext (strm s)" "wr_inv s" using 2(1) by (simp_all add: took_content_def writing_def)
  have "content (?f (strm s)) = content (strm s) @ bs"
    by (rule content_copy) (use 2(2) t in \<open>simp_all add: wr_inv_def Let_def\<close>)
  moreover have "writing s0 (upd ?f s)" by (rule writing_upd [OF t(1) copy_inv [OF t(3) 2(2)]]) simp_all
  ultimately show ?case using 2(1) by (auto simp: took_content_def)
next
  case (3 s cs)
  then obtain s' where s': "EmptyBuffProc_flush s = Inr s'" "took_content s0 s' cs" "wrNext (strm s') = 8"
    using flush_content by blast
  then have "wrNext (strm s') < stop (strm s')" by (simp add: took_content_def writing_def wr_inv_def Let_def)
  then show ?case using s' by simp
qed

interpretation raw_sink: byte_sink "\<lambda>s _. EmptyBuffProc_flush s" "took_raw s0" for s0
proof (unfold_locales, goal_cases)
  case (1 s cs)
  then show ?case by (simp add: took_raw_def writing_def wr_inv_def Let_def)
next
  case (2 s cs bs)
  let ?f = "\<lambda>t. t\<lparr>buff := put_bytes (wrNext t) bs (buff t), wrNext := wrNext t + length bs\<rparr>"
  have t: "writing s0 s" "wr_inv s" using 2(1) by (simp_all add: took_raw_def writing_def)
  have "writing s0 (upd ?f s)" by (rule writing_upd [OF t(1) copy_inv [OF t(2) 2(2)]]) simp_all
  moreover have "wrNext (strm s) + length bs \<le> length (buff (strm s))"
    using 2(2) t(2) by (simp add: wr_inv_def Let_def)
  ultimately show ?case using 2(1) by (simp add: took_raw_def take_put_bytes)
next
  case (3 s cs)
  then obtain s' where s': "EmptyBuffProc_flush s = Inr s'" "took_raw s0 s' cs" "wrNext (strm s') = 0"
    using flush_raw by blast
  then have "wrNext (strm s') < stop (strm s')" by (simp add: took_raw_def writing_def wr_inv_def Let_def)
  then show ?case using s' by simp
qed


section \<open>Closing a writer\<close>

lemma framed_empty: "framed rid ty w x \<Longrightarrow> (w = []) = (x = [])"
  by (induction rule: framed.induct) (simp_all add: rec_bytes_def header_bytes_def)

definition end_request_bytes :: "int \<Rightarrow> int \<Rightarrow> byte list" where
  "end_request_bytes rid status =
     rec_bytes FCGI_END_REQUEST rid (end_body_bytes (MakeEndRequestBody status FCGI_REQUEST_COMPLETE)) []"

lemma end_request_record_bytes: "end_request_record rid status = Inr (end_request_bytes rid status)"
  using MakeHeader_for [of 8 0 FCGI_END_REQUEST rid]
  by (simp add: end_request_record_def end_request_bytes_def rec_bytes_def end_body_bytes_def MakeEndRequestBody_def)

text \<open>The records a writer adds when it is closed: the end of its stream, unless it is the error
  stream and was never written to, and the end of the request, if it is the last writer.\<close>

definition eof_bytes :: "st \<Rightarrow> bool \<Rightarrow> byte list" where
  "eof_bytes s unused = (if dtype (strm s) = FCGI_STDERR \<and> unused then []
     else header_bytes (header_for (dtype (strm s)) (requestId (rqd s)) 0 0))"

definition end_bytes :: "st \<Rightarrow> byte list" where
  "end_bytes s = (if nWriters (rqd s) = 1 then end_request_bytes (requestId (rqd s)) (appStatus (rqd s)) else [])"

abbreviation writer_gone :: "st \<Rightarrow> st" where
  "writer_gone s \<equiv> s\<lparr>rqd := (rqd s)\<lparr>nWriters := nWriters (rqd s) - 1\<rparr>\<rparr>"

lemma raw_put_if:
  assumes "took_raw s0 u bs"
  obtains u' where "(if b then bindr (FCGX_PutStr (\<lambda>s _. EmptyBuffProc_flush s) x u) (\<lambda>(_, v). Inr v) else Inr u) = Inr u'"
    "took_raw s0 u' (bs @ (if b then x else []))"
proof (cases b)
  case True
  obtain u' where "FCGX_PutStr (\<lambda>s _. EmptyBuffProc_flush s) x u = Inr (int (length x), u')" "took_raw s0 u' (bs @ x)"
    using raw_sink.PutStr_took [OF assms] by blast
  then show ?thesis using that True by simp
next
  case False
  then show ?thesis using that assms by simp
qed

lemma eof_header: "MakeHeader ty rid 0 0 = Inr (header_for ty rid 0 0)"
  using MakeHeader_for [of 0 0 ty rid] by simp

lemma WriteCloseRecords_raw:
  assumes "took_raw s0 (upd (\<lambda>t. t\<lparr>rawWrite := True\<rparr>) s) bs"
  shows "\<exists>s5. WriteCloseRecords (\<lambda>s _. EmptyBuffProc_flush s) s = Inr (writer_gone s5) \<and> took_raw s0 s5
      (bs @ eof_bytes s0 (wrNext (strm s) = 0 \<and> \<not> isAnythingWritten (strm s)) @ end_bytes s0)"
proof -
  let ?drain = "\<lambda>s _. EmptyBuffProc_flush s"
  define s1 where "s1 = upd (\<lambda>t. t\<lparr>rawWrite := True\<rparr>) s"
  define e where "e = eof_bytes s0 (wrNext (strm s) = 0 \<and> \<not> isAnythingWritten (strm s))"
  have t1: "took_raw s0 s1 bs" using assms by (simp add: s1_def)
  have q1: "rqd s1 = rqd s0" "dtype (strm s1) = dtype (strm s0)"
    using t1 by (simp_all add: took_raw_def writing_def)
  have f1: "wrNext (strm s1) = wrNext (strm s)" "isAnythingWritten (strm s1) = isAnythingWritten (strm s)"
    by (simp_all add: s1_def)
  let ?b = "\<not> (dtype (strm s1) = FCGI_STDERR \<and> wrNext (strm s1) = 0 \<and> \<not> isAnythingWritten (strm s1))"
  let ?h = "header_bytes (header_for (dtype (strm s1)) (requestId (rqd s1)) 0 0)"
  have e: "(if ?b then ?h else []) = e" using q1 f1 by (simp add: e_def eof_bytes_def)
  obtain s3 where s3: "(if ?b then bindr (FCGX_PutStr ?drain ?h s1) (\<lambda>(_, s2). Inr s2) else Inr s1) = Inr s3"
      "took_raw s0 s3 (bs @ e)"
    by (rule raw_put_if [OF t1, of ?b ?h, unfolded e])
  have q3: "rqd s3 = rqd s0" using s3(2) by (simp add: took_raw_def writing_def)
  have e2: "(if nWriters (rqd s3) = 1 then end_request_bytes (requestId (rqd s3)) (appStatus (rqd s3)) else []) = end_bytes s0"
    using q3 by (simp add: end_bytes_def)
  obtain s5 where s5: "(if nWriters (rqd s3) = 1 then bindr (FCGX_PutStr ?drain
      (end_request_bytes (requestId (rqd s3)) (appStatus (rqd s3))) s3) (\<lambda>(_, s4). Inr s4) else Inr s3) = Inr s5"
      "took_raw s0 s5 ((bs @ e) @ end_bytes s0)"
    by (rule raw_put_if [OF s3(2), of "nWriters (rqd s3) = 1" "end_request_bytes (requestId (rqd s3)) (appStatus (rqd s3))",
          unfolded e2])
  have "WriteCloseRecords ?drain s = Inr (writer_gone s5)"
    unfolding WriteCloseRecords_def Let_def s1_def [symmetric] eof_header end_request_record_bytes bindr_simps s3(1) s5(1) ..
  then show ?thesis using s5(2) by (auto simp: e_def)
qed

lemma encapsulated_raw:
  assumes t: "took_content s0 s cs"
  shows "\<exists>s1 w. encapsulate s = Inr s1 \<and> framed (requestId (rqd s0)) (dtype (strm s0)) w cs
    \<and> took_raw s0 (upd (\<lambda>t. t\<lparr>rawWrite := True\<rparr>) s1) w
    \<and> (wrNext (strm s1) = 0 \<and> \<not> isAnythingWritten (strm s1)) = (cs = [] \<and> \<not> isAnythingWritten (strm s0))"
proof -
  from t obtain w x where t: "writing s0 s" "\<not> rawWrite (strm s)" "8 \<le> wrNext (strm s)"
    "sent_of s0 s = sent_of s0 s0 @ w" "framed (requestId (rqd s0)) (dtype (strm s0)) w x"
    "cs = x @ content (strm s)" "isAnythingWritten (strm s) = (isAnythingWritten (strm s0) \<or> w \<noteq> [])"
    unfolding took_content_def by blast
  have inv: "wr_inv s" "rqd s = rqd s0" "dtype (strm s) = dtype (strm s0)" using t(1) by (simp_all add: writing_def)
  from encapsulate_frame [OF inv(1) t(3,2)] obtain b k where
    e: "encapsulate s = Inr (upd (\<lambda>t. t\<lparr>buff := b, wrNext := k\<rparr>) s)" "length b = bufflen (strm s)"
       "k \<le> stop (strm s)" "take k b = frame_of s" by blast
  define f :: "FCGX_Stream \<Rightarrow> FCGX_Stream" where "f = (\<lambda>t. t\<lparr>buff := b, wrNext := k, rawWrite := True\<rparr>)"
  have "wr_inv (upd f s)" using inv(1) e(2,3) by (simp add: wr_inv_def Let_def f_def)
  then have "writing s0 (upd f s)" by (intro writing_upd [OF t(1)]) (simp_all add: f_def)
  then have "took_raw s0 (upd f s) (w @ frame_of s)"
    using t(4) e(4) by (simp add: took_raw_def f_def)
  moreover have "framed (requestId (rqd s0)) (dtype (strm s0)) (w @ frame_of s) cs"
    using framed_frame_of [OF _ inv(1) t(3)] t(5,6) inv(2,3) by simp
  moreover have "k = 0 \<longleftrightarrow> content (strm s) = []"
  proof -
    have "k \<le> length b" using e(2,3) inv(1) by (simp add: wr_inv_def Let_def)
    then have "k = 0 \<longleftrightarrow> frame_of s = []" using e(4) by (metis take_eq_Nil le_zero_eq list.size(3))
    then show ?thesis by (simp add: frame_of_def rec_bytes_def header_bytes_def Let_def)
  qed
  ultimately show ?thesis
    using e(1) t(6,7) framed_empty [OF t(5)]
    by (intro exI [of _ "upd (\<lambda>t. t\<lparr>buff := b, wrNext := k\<rparr>) s"] exI [of _ "w @ frame_of s"])
      (auto simp: f_def upd_def)
qed

lemma EmptyBuffProc_close:
  assumes t: "took_content s0 s cs"
  shows "\<exists>s' w. EmptyBuffProc s True = Inr s' \<and> framed (requestId (rqd s0)) (dtype (strm s0)) w cs
    \<and> sent_of s0 s' = sent_of s0 s0 @ w @ eof_bytes s0 (cs = [] \<and> \<not> isAnythingWritten (strm s0)) @ end_bytes s0
    \<and> rqd s' = rqd (writer_gone s0) \<and> FCGI_errno (strm s') = FCGI_errno (strm s0) \<and> \<not> isReader (strm s')
    \<and> wasFCloseCalled (strm s') = wasFCloseCalled (strm s0)
    \<and> same_input (ipcFd (rqd s0)) (sys s0) (sys s') \<and> writable (ipcFd (rqd s0)) (sys s')"
proof -
  from encapsulated_raw [OF t] obtain s1 w where s1: "encapsulate s = Inr s1"
    "framed (requestId (rqd s0)) (dtype (strm s0)) w cs" "took_raw s0 (upd (\<lambda>t. t\<lparr>rawWrite := True\<rparr>) s1) w"
    "(wrNext (strm s1) = 0 \<and> \<not> isAnythingWritten (strm s1)) = (cs = [] \<and> \<not> isAnythingWritten (strm s0))"
    by blast
  define bs where "bs = w @ eof_bytes s0 (cs = [] \<and> \<not> isAnythingWritten (strm s0)) @ end_bytes s0"
  from WriteCloseRecords_raw [OF s1(3)] obtain s5 where
    s5: "WriteCloseRecords (\<lambda>s _. EmptyBuffProc_flush s) s1 = Inr (writer_gone s5)" "took_raw s0 s5 bs"
    unfolding s1(4) bs_def by blast
  have w5: "wr_inv (writer_gone s5)" "writable (ipcFd (rqd s0)) (sys s5)" "rqd s5 = rqd s0" "writing s0 s5"
    "sent_of s0 s0 @ bs = sent_of s0 s5 @ take (wrNext (strm s5)) (buff (strm s5))"
    using s5(2) by (simp_all add: took_raw_def writing_def wr_inv_def)
  from write_out_sends [OF w5(1)] w5(2,3) obtain w' where
    w': "write_out (writer_gone s5) = Inr ((upd (\<lambda>t. t\<lparr>isAnythingWritten := (isAnythingWritten t \<or> wrNext (strm s5) \<noteq> 0),
        wrNext := (if rawWrite t then 0 else 8)\<rparr>) (writer_gone s5))\<lparr>sys := w'\<rparr>)"
      "sent (conns w' (ipcFd (rqd s0))) = sent_of s0 s0 @ bs" "same_input (ipcFd (rqd s0)) (sys s5) w'"
      "writable (ipcFd (rqd s0)) w'"
    using w5(5) by auto
  have "same_input (ipcFd (rqd s0)) (sys s0) w'"
    using w5(4) w'(3) same_input_trans unfolding writing_def by blast
  moreover have "EmptyBuffProc s True = write_out (writer_gone s5)"
    using s1(1) s5(1) by (simp add: EmptyBuffProc_def)
  ultimately show ?thesis using w' w5(3,4) s1(2)
    by (auto simp: bs_def writing_def wr_inv_def Let_def intro!: exI [of _ w])
qed

lemma FClose_writer:
  assumes t: "took_content s0 s cs" and "\<not> wasFCloseCalled (strm s0)"
  shows "\<exists>s' w. FCGX_FClose EmptyBuffProc s = Inr (if FCGI_errno (strm s0) = 0 then 0 else EOF, s')
    \<and> framed (requestId (rqd s0)) (dtype (strm s0)) w cs
    \<and> sent_of s0 s' = sent_of s0 s0 @ w @ eof_bytes s0 (cs = [] \<and> \<not> isAnythingWritten (strm s0)) @ end_bytes s0
    \<and> rqd s' = rqd (writer_gone s0) \<and> isClosed (strm s') \<and> wasFCloseCalled (strm s') \<and> wrNext (strm s') = stop (strm s')
    \<and> FCGI_errno (strm s') = FCGI_errno (strm s0)
    \<and> same_input (ipcFd (rqd s0)) (sys s0) (sys s') \<and> writable (ipcFd (rqd s0)) (sys s')"
proof -
  have s: "\<not> isReader (strm s)" "\<not> wasFCloseCalled (strm s)"
    using t assms(2) by (simp_all add: took_content_def writing_def wr_inv_def Let_def)
  from EmptyBuffProc_close [OF t] obtain s1 w where e: "EmptyBuffProc s True = Inr s1"
    "framed (requestId (rqd s0)) (dtype (strm s0)) w cs"
    "sent_of s0 s1 = sent_of s0 s0 @ w @ eof_bytes s0 (cs = [] \<and> \<not> isAnythingWritten (strm s0)) @ end_bytes s0"
    "rqd s1 = rqd (writer_gone s0)" "FCGI_errno (strm s1) = FCGI_errno (strm s0)" "\<not> isReader (strm s1)"
    "same_input (ipcFd (rqd s0)) (sys s0) (sys s1)" "writable (ipcFd (rqd s0)) (sys s1)" by blast
  then show ?thesis using s
    by (intro exI [of _ "upd (\<lambda>t. t\<lparr>wasFCloseCalled := True, isClosed := True, rdNext := wrNext t, stop := wrNext t\<rparr>) s1"] exI [of _ w])
      (simp add: FCGX_FClose_def upd_def)
qed

end
