(* ===== verification/Fcgi_Params.thy ===== *)
theory Fcgi_Params
  imports Fcgi_Stream
begin

text \<open>
  The parameter vector of a request (\<open>Params\<close>, \<open>NewParams\<close>, \<open>PutParam\<close>,
  \<open>FCGX_GetParam\<close>) and \<open>ReadParams\<close>, which fills it from a stream of name-value pairs. A slot
  of the vector holds a string or \<open>NULL\<close> (\<open>None\<close>); memory that was allocated and not yet written is also
  \<open>None\<close>, and no operation reads it. An entry is the bytes of the C string \<open>name=value\<close>
  without its terminating NUL.
\<close>

unbundle bit_operations_syntax

section \<open>The vector\<close>

record Params =
  vec :: "byte list option list"
  plength :: nat
  cur :: nat

definition NewParams :: "nat \<Rightarrow> Params res" where
  "NewParams len = inbounds (0 < len)
     (Inr \<lparr>vec = (replicate len None)[0 := None], plength = len, cur = 0\<rparr>)"

definition PutParam :: "Params \<Rightarrow> byte list \<Rightarrow> Params res" where
  "PutParam p nameValue =
     inbounds (cur p < length (vec p))
      (let v = (vec p)[cur p := Some nameValue]; size = Suc (cur p);
           len = (if plength p \<le> size then 2 * plength p else plength p);
           v' = (if plength p \<le> size then v @ replicate (len - length v) None else v)
       in inbounds (size < length v')
            (Inr \<lparr>vec = v'[size := None], plength = len, cur = size\<rparr>))"

text \<open>The loop of \<open>FCGX_GetParam\<close> over the slots from \<open>p\<close> on; \<open>strncmp\<close> of \<open>len\<close>
  characters and the test of the next one are a comparison with \<open>name=\<close>. The result is the
  position after the equals sign.\<close>

definition name_matches :: "byte list \<Rightarrow> byte list \<Rightarrow> bool" where
  "name_matches name e \<longleftrightarrow> take (length name) e = name \<and> length name < length e \<and> e ! length name = 61"

fun GetParam_loop :: "byte list \<Rightarrow> byte list option list \<Rightarrow> byte list option res" where
  "GetParam_loop name [] = Inl OutOfBounds"
| "GetParam_loop name (None # es) = Inr None"
| "GetParam_loop name (Some e # es) =
     (if name_matches name e then Inr (Some (drop (length name + 1) e)) else GetParam_loop name es)"

definition FCGX_GetParam ::
    "byte list option \<Rightarrow> byte list option list option \<Rightarrow> byte list option res" where
  "FCGX_GetParam name envp =
     (case (name, envp) of (Some n, Some es) \<Rightarrow> GetParam_loop (c_str n) es | _ \<Rightarrow> Inr None)"

text \<open>What a vector holds, and when it is well formed: the slot at \<open>cur\<close> is the only \<open>NULL\<close>
  up to it, and it exists.\<close>

definition entries :: "Params \<Rightarrow> byte list list" where
  "entries p = map the (take (cur p) (vec p))"

definition params_ok :: "Params \<Rightarrow> bool" where
  "params_ok p \<longleftrightarrow> length (vec p) = plength p \<and> cur p < plength p \<and> vec p ! cur p = None
     \<and> list_all (\<lambda>x. x \<noteq> None) (take (cur p) (vec p))"

lemma NewParams_ok: "0 < n \<Longrightarrow> \<exists>p. NewParams n = Inr p \<and> params_ok p \<and> entries p = [] \<and> plength p = n"
  by (simp add: NewParams_def params_ok_def entries_def)

lemma PutParam_ok:
  assumes "params_ok p"
  shows "\<exists>p'. PutParam p e = Inr p' \<and> params_ok p' \<and> entries p' = entries p @ [e]"
proof -
  let ?v = "(vec p)[cur p := Some e]"
  let ?len = "if plength p \<le> Suc (cur p) then 2 * plength p else plength p"
  let ?v' = "if plength p \<le> Suc (cur p) then ?v @ replicate (?len - length ?v) None else ?v"
  let ?p' = "\<lparr>vec = ?v'[Suc (cur p) := None], plength = ?len, cur = Suc (cur p)\<rparr>"
  have ok: "length (vec p) = plength p" "cur p < plength p"
    "list_all (\<lambda>x. x \<noteq> None) (take (cur p) (vec p))"
    using assms by (auto simp: params_ok_def)
  have len: "length ?v' = ?len" "Suc (cur p) < ?len" using ok by auto
  have tk: "take (Suc (cur p)) (?v'[Suc (cur p) := None]) = take (cur p) (vec p) @ [Some e]"
    using ok by (auto simp: take_Suc_conv_app_nth nth_append)
  have "PutParam p e = Inr ?p'"
    using ok len by (simp add: PutParam_def Let_def)
  moreover have "params_ok ?p'"
    using ok len tk by (simp add: params_ok_def)
  moreover have "entries ?p' = entries p @ [e]"
    using tk by (simp add: entries_def)
  ultimately show ?thesis by blast
qed

lemma GetParam_loop_entries:
  "GetParam_loop name (map Some es @ None # rest) =
     Inr (map_option (drop (length name + 1)) (find (name_matches name) es))"
  by (induction es) auto

lemma params_ok_vec:
  assumes "params_ok p"
  shows "vec p = map Some (entries p) @ None # drop (Suc (cur p)) (vec p)"
proof -
  have "take (cur p) (vec p) = map Some (entries p)"
    using assms unfolding params_ok_def entries_def by (auto simp: list_all_iff map_idI)
  moreover have "vec p = take (cur p) (vec p) @ vec p ! cur p # drop (Suc (cur p)) (vec p)"
    using id_take_nth_drop [of "cur p" "vec p"] assms by (simp add: params_ok_def)
  ultimately show ?thesis using assms by (simp add: params_ok_def)
qed

lemma GetParam_entries:
  assumes "params_ok p"
  shows "FCGX_GetParam (Some name) (Some (vec p)) =
     Inr (map_option (drop (length (c_str name) + 1)) (find (name_matches (c_str name)) (entries p)))"
  using params_ok_vec [OF assms] GetParam_loop_entries by (metis (no_types) FCGX_GetParam_def case_prod_conv option.simps(5))

section \<open>Reading name-value pairs\<close>

text \<open>
  The length of a name or a value: one byte, or four bytes with the high bit of the first set. The
  result is \<open>None\<close> where the code sets \<open>FCGX_PARAMS_ERROR\<close>. \<open>INT_MAX\<close> is
  \<open>2 ^ 31 - 1\<close>; an \<open>int\<close> that passes the first comparison is below \<open>SIZE_MAX\<close>.
\<close>

definition INT_MAX :: int where "INT_MAX = 2 ^ 31 - 1"
definition SIZE_MAX :: int where "SIZE_MAX = 2 ^ 64 - 1"

definition ReadLength :: "fill_proc \<Rightarrow> int \<Rightarrow> st \<Rightarrow> (int option \<times> st) res" where
  "ReadLength fill c s =
     (if c AND 0x80 \<noteq> 0 then
        bindr (FCGX_GetStr fill 3 s) (\<lambda>(lenBuff, s1).
          if length lenBuff \<noteq> 3 then Inr (None, s1)
          else let n = push_bit 24 (c AND 0x7f) + push_bit 16 (uint (lenBuff ! 0))
                     + push_bit 8 (uint (lenBuff ! 1)) + uint (lenBuff ! 2)
            in if INT_MAX \<le> n \<or> SIZE_MAX \<le> n then Inr (None, s1) else Inr (Some n, s1))
      else Inr (Some c, s))"

definition params_error :: "Params \<Rightarrow> st \<Rightarrow> (int \<times> Params \<times> st) res" where
  "params_error p s = Inr (- 1, p, upd (SetError FCGX_PARAMS_ERROR) s)"

text \<open>The \<open>while\<close> loop of \<open>ReadParams\<close>: every iteration consumes a byte.\<close>

fun ReadParams_loop :: "fill_proc \<Rightarrow> nat \<Rightarrow> Params \<Rightarrow> st \<Rightarrow> (int \<times> Params \<times> st) res" where
  "ReadParams_loop fill 0 p s = Inl NoReturn"
| "ReadParams_loop fill (Suc fuel) p s =
     bindr (FCGX_GetChar fill s) (\<lambda>(c, s1).
     if c = EOF then Inr (0, p, s1)
     else bindr (ReadLength fill c s1) (\<lambda>(nl, s2). case nl of None \<Rightarrow> params_error p s2 | Some nameLen \<Rightarrow>
     bindr (FCGX_GetChar fill s2) (\<lambda>(d, s3).
     if d = EOF then params_error p s3
     else bindr (ReadLength fill d s3) (\<lambda>(vl, s4). case vl of None \<Rightarrow> params_error p s4 | Some valueLen \<Rightarrow>
     let totalLen = (nameLen + valueLen + 2) mod 2 ^ 64 in
     if totalLen < nameLen \<or> totalLen < valueLen then params_error p s4
     else bindr (FCGX_GetStr fill nameLen s4) (\<lambda>(name, s5).
     if int (length name) \<noteq> nameLen then params_error p s5
     else bindr (FCGX_GetStr fill valueLen s5) (\<lambda>(val, s6).
     if int (length val) \<noteq> valueLen then params_error p s6
     else bindr (PutParam p (name @ [61] @ val)) (\<lambda>p'. ReadParams_loop fill fuel p' s6)))))))"

definition ReadParams :: "fill_proc \<Rightarrow> Params \<Rightarrow> st \<Rightarrow> (int \<times> Params \<times> st) res" where
  "ReadParams fill p s = ReadParams_loop fill (Suc (length (unread s))) p s"

declare ReadParams_loop.simps(2) [simp del]

section \<open>Encoded pairs\<close>

text \<open>The bytes \<open>cgi-fcgi\<close> sends for a list of name-value pairs, and the entries they become.\<close>

definition pair_bytes :: "byte list \<times> byte list \<Rightarrow> byte list" where
  "pair_bytes nv = length_field (int (length (fst nv))) @ length_field (int (length (snd nv)))
     @ fst nv @ snd nv"

definition pairs_bytes :: "(byte list \<times> byte list) list \<Rightarrow> byte list" where
  "pairs_bytes nvs = concat (map pair_bytes nvs)"

definition pair_entry :: "byte list \<times> byte list \<Rightarrow> byte list" where
  "pair_entry nv = fst nv @ [61] @ snd nv"

definition pair_fits :: "byte list \<times> byte list \<Rightarrow> bool" where
  "pair_fits nv \<longleftrightarrow> int (length (fst nv)) < INT_MAX \<and> int (length (snd nv)) < INT_MAX"

lemma and_exp: "x AND push_bit k 1 = push_bit k (drop_bit k x AND 1)" for x :: int
  by (rule bit_eqI) (auto simp: bit_simps)

lemma and_128: "(x AND 0x80 = 0) = (x mod 256 < 128)" for x :: int
proof -
  have "x AND 0x80 = 128 * (x div 128 mod 2)"
    using and_exp [of x 7] by (simp add: push_bit_eq_mult drop_bit_eq_div and_one_eq)
  moreover have "x mod 256 = 128 * (x div 128 mod 2) + x mod 128"
    using mod_mult2_eq' [of x 128 2] by simp
  moreover have "0 \<le> x mod 128" "x mod 128 < 128" by simp_all
  moreover have "x div 128 mod 2 = 0 \<or> x div 128 mod 2 = 1" by linarith
  ultimately show ?thesis by auto
qed

lemma and_127: "x AND 0x7f = x mod 128" for x :: int
  using take_bit_eq_mask [of 7 x] by (simp add: take_bit_eq_mod mask_eq_exp_minus_1)

lemma or_128: "0 \<le> x \<Longrightarrow> x < 128 \<Longrightarrow> x OR 0x80 = x + 128" for x :: int
proof -
  assume "0 \<le> x" "x < 128"
  then have "x AND 0x80 = 0" by (simp add: and_128)
  then show ?thesis using plus_and_or [of x "0x80"] by simp
qed

lemma shift_numerals:
  "push_bit 24 x = x * 16777216" "push_bit 16 x = x * 65536" "push_bit 8 x = x * 256"
  "drop_bit 24 x = x div 16777216" "drop_bit 16 x = x div 65536" "drop_bit 8 x = x div 256"
  for x :: int
  by (simp_all add: push_bit_eq_mult drop_bit_eq_div)

lemma long_length_decodes:
  assumes "0x80 \<le> n" "n < 2 ^ 31"
  shows "push_bit 24 (uint (uchar (drop_bit 24 n OR 0x80)) AND 0x7f)
     + push_bit 16 (uint (uchar (drop_bit 16 n))) + push_bit 8 (uint (uchar (drop_bit 8 n)))
     + uint (uchar n) = n"
proof -
  have "0 \<le> n div 16777216" "n div 16777216 < 128"
    using assms by simp_all
  then have "(n div 16777216 OR 0x80) mod 256 mod 128 = n div 16777216"
    by (simp add: or_128)
  moreover have "n mod 16777216 = n div 65536 mod 256 * 65536 + n mod 65536"
    using mod_mult2_eq' [of n 65536 256] by (simp add: mult.commute)
  moreover have "n mod 65536 = n div 256 mod 256 * 256 + n mod 256"
    using mod_mult2_eq' [of n 256 256] by (simp add: mult.commute)
  moreover have "n = n div 16777216 * 16777216 + n mod 16777216"
    by simp
  ultimately show ?thesis
    by (simp only: and_127 shift_numerals uint_uchar)
qed

lemma long_length_high_bit: "0x80 \<le> n \<Longrightarrow> n < 2 ^ 31 \<Longrightarrow> uint (uchar (drop_bit 24 n OR 0x80)) AND 0x80 \<noteq> 0"
proof -
  assume n: "0x80 \<le> n" "n < 2 ^ 31"
  then have hi: "0 \<le> drop_bit 24 n" "drop_bit 24 n < 128"
    by (simp_all add: drop_bit_eq_div)
  then show ?thesis by (simp add: and_128 or_128)
qed

context byte_source
begin

lemma ReadLength_yields:
  assumes "length_field n = b # bs" "yields s (bs @ cs)" "0 \<le> n" "n < INT_MAX"
  shows "\<exists>s'. ReadLength fill (uint b) s = Inr (Some n, s') \<and> yields s' cs"
proof (cases "n < 0x80")
  case True
  then have "b = uchar n" "bs = []" using assms(1) by (simp_all add: length_field_def)
  then show ?thesis
    using assms True by (simp add: ReadLength_def and_128)
next
  case False
  then have nb: "0x80 \<le> n" "n < 2 ^ 31" using assms(4) by (simp_all add: INT_MAX_def)
  have b: "b = uchar (drop_bit 24 n OR 0x80)"
    and bs: "bs = [uchar (drop_bit 16 n), uchar (drop_bit 8 n), uchar n]"
    using assms(1) False by (simp_all add: length_field_def)
  obtain s' where s': "FCGX_GetStr fill 3 s = Inr (bs, s')" "yields s' cs"
    using GetStr_yields [OF assms(2), of 3] bs by (auto simp: left_at_def)
  have "\<not> SIZE_MAX \<le> n" using nb by (simp add: SIZE_MAX_def)
  then show ?thesis
    using s' long_length_high_bit [OF nb] long_length_decodes [OF nb] assms(4)
    by (simp add: ReadLength_def b bs)
qed

lemma length_field_Cons: "\<exists>b bs. length_field n = b # bs"
  by (simp add: length_field_def)

lemma uint_not_EOF: "uint (b :: byte) \<noteq> EOF"
proof -
  have "0 \<le> uint b" by simp
  then show ?thesis unfolding EOF_def by linarith
qed

lemma ReadParams_loop_pair:
  assumes "yields s (pair_bytes nv @ cs)" "pair_fits nv" "params_ok p"
  shows "\<exists>s' p'. ReadParams_loop fill (Suc fuel) p s = ReadParams_loop fill fuel p' s'
     \<and> yields s' cs \<and> params_ok p' \<and> entries p' = entries p @ [pair_entry nv]"
proof -
  obtain n v where nv: "nv = (n, v)" by fastforce
  let ?ln = "int (length n)" and ?lv = "int (length v)"
  have fit: "?ln < INT_MAX" "?lv < INT_MAX" using assms(2) nv by (simp_all add: pair_fits_def)
  obtain b bs where b: "length_field ?ln = b # bs" using length_field_Cons by blast
  obtain d ds where d: "length_field ?lv = d # ds" using length_field_Cons by blast
  have y: "yields s (b # bs @ d # ds @ n @ v @ cs)"
    using assms(1) by (simp add: pair_bytes_def nv b d)
  obtain s1 where s1: "FCGX_GetChar fill s = Inr (uint b, s1)" "yields s1 (bs @ d # ds @ n @ v @ cs)"
    using GetChar_yields [OF y] by blast
  obtain s2 where s2: "ReadLength fill (uint b) s1 = Inr (Some ?ln, s2)" "yields s2 (d # ds @ n @ v @ cs)"
    using ReadLength_yields [OF b s1(2)] fit by auto
  obtain s3 where s3: "FCGX_GetChar fill s2 = Inr (uint d, s3)" "yields s3 (ds @ n @ v @ cs)"
    using GetChar_yields [OF s2(2)] by blast
  obtain s4 where s4: "ReadLength fill (uint d) s3 = Inr (Some ?lv, s4)" "yields s4 (n @ v @ cs)"
    using ReadLength_yields [OF d s3(2)] fit by auto
  obtain s5 where s5: "FCGX_GetStr fill ?ln s4 = Inr (n, s5)" "yields s5 (v @ cs)"
    using GetStr_yields [OF s4(2), of "length n"] by (auto simp: left_at_def)
  obtain s6 where s6: "FCGX_GetStr fill ?lv s5 = Inr (v, s6)" "yields s6 cs"
    using GetStr_yields [OF s5(2), of "length v"] by (auto simp: left_at_def)
  obtain p' where p': "PutParam p (n @ [61] @ v) = Inr p'" "params_ok p'"
      "entries p' = entries p @ [n @ [61] @ v]"
    using PutParam_ok [OF assms(3)] by blast
  have tot: "(?ln + ?lv + 2) mod 18446744073709551616 = ?ln + ?lv + 2"
    using fit by (simp add: INT_MAX_def)
  have "ReadParams_loop fill (Suc fuel) p s = ReadParams_loop fill fuel p' s6"
    using p'(1) by (simp add: ReadParams_loop.simps(2) s1 s2 s3 s4 s5 s6 uint_not_EOF tot Let_def)
  then show ?thesis using s6(2) p' by (auto simp: pair_entry_def nv)
qed

lemma ReadParams_loop_pairs:
  assumes "yields s (pairs_bytes nvs)" "list_all pair_fits nvs" "params_ok p" "length nvs < fuel"
  shows "\<exists>s' p'. ReadParams_loop fill fuel p s = Inr (0, p', s') \<and> isClosed (strm s') \<and> ended s'
     \<and> params_ok p' \<and> entries p' = entries p @ map pair_entry nvs"
  using assms
proof (induction nvs arbitrary: s p fuel)
  case Nil
  then obtain f where "fuel = Suc f" by (cases fuel) auto
  moreover obtain s' where "FCGX_GetChar fill s = Inr (EOF, s')" "isClosed (strm s')" "ended s'"
    using GetChar_end Nil.prems(1) by (auto simp: pairs_bytes_def)
  ultimately show ?case using Nil.prems by (simp add: ReadParams_loop.simps(2))
next
  case (Cons nv nvs)
  then obtain f where f: "fuel = Suc f" "length nvs < f" by (cases fuel) auto
  have "yields s (pair_bytes nv @ pairs_bytes nvs)" using Cons.prems(1) by (simp add: pairs_bytes_def)
  then obtain s1 p1 where *: "ReadParams_loop fill (Suc f) p s = ReadParams_loop fill f p1 s1"
      "yields s1 (pairs_bytes nvs)" "params_ok p1" "entries p1 = entries p @ [pair_entry nv]"
    using ReadParams_loop_pair [of s nv "pairs_bytes nvs" p f] Cons.prems by auto
  from Cons.IH [OF *(2) _ *(3) f(2)] Cons.prems(2) show ?case
    using * f(1) by auto
qed

lemma ReadParams_pairs:
  assumes "yields s (pairs_bytes nvs)" "list_all pair_fits nvs" "params_ok p"
  shows "\<exists>s' p'. ReadParams fill p s = Inr (0, p', s') \<and> isClosed (strm s') \<and> ended s'
     \<and> params_ok p' \<and> entries p' = entries p @ map pair_entry nvs"
proof -
  have "length nvs \<le> length (pairs_bytes nvs)"
  proof (induction nvs)
    case (Cons nv nvs)
    obtain b bs where "length_field (int (length (fst nv))) = b # bs"
      using length_field_Cons by blast
    then show ?case using Cons by (simp add: pairs_bytes_def pair_bytes_def)
  qed simp
  then have "length nvs < Suc (length (unread s))"
    using yields_unread [OF assms(1)] by simp
  then show ?thesis
    using ReadParams_loop_pairs [OF assms] by (simp add: ReadParams_def)
qed

end

section \<open>Properties\<close>

text \<open>An entry as a name and a value: what stands before the first equals sign and what stands behind it.\<close>

definition entry_pair :: "byte list \<Rightarrow> byte list \<times> byte list" where
  "entry_pair e = (let n = takeWhile (\<lambda>b. b \<noteq> 61) e in (n, drop (Suc (length n)) e))"

lemma name_matches_split:
  assumes "61 \<notin> set m"
  shows "name_matches m e \<longleftrightarrow> 61 \<in> set e \<and> takeWhile (\<lambda>b. b \<noteq> 61) e = m"
proof
  assume e: "name_matches m e"
  then have "e = m @ 61 # drop (Suc (length m)) e"
    using id_take_nth_drop [of "length m" e] by (simp add: name_matches_def)
  moreover have "takeWhile (\<lambda>b. b \<noteq> 61) (m @ 61 # r) = m" for r
    using assms by (subst takeWhile_append2) auto
  ultimately show "61 \<in> set e \<and> takeWhile (\<lambda>b. b \<noteq> 61) e = m" by (metis in_set_conv_decomp)
next
  let ?t = "takeWhile (\<lambda>b. b \<noteq> 61) e"
  assume e: "61 \<in> set e \<and> ?t = m"
  then have "?t \<noteq> e" by (metis (mono_tags) takeWhile_eq_all_conv)
  then have l: "length ?t < length e" by (metis le_neq_implies_less length_takeWhile_le takeWhile_eq_take take_all)
  moreover have "e ! length ?t = 61" using nth_length_takeWhile [OF l] by simp
  ultimately show "name_matches m e" using e by (auto simp: name_matches_def takeWhile_eq_take [symmetric])
qed

lemma find_entries:
  "61 \<notin> set m \<Longrightarrow> map_option (drop (length m + 1)) (find (name_matches m) es) = map_of (map entry_pair (filter (\<lambda>e. 61 \<in> set e) es)) m"
  by (induction es) (auto simp: name_matches_split entry_pair_def Let_def)

lemma entry_pair_entry: "61 \<notin> set n \<Longrightarrow> entry_pair (n @ 61 # v) = (n, v)"
  unfolding entry_pair_def Let_def by (subst (1 2) takeWhile_append2) auto

text \<open>C34. The parameter vector is an association list of names and values. \<open>PutParam\<close> of \<open>name=value\<close> succeeds, also when the vector has to
  grow, keeps it well formed (a \<open>NULL\<close> slot follows the last entry) and adds the pair at the end: afterwards \<open>FCGX_GetParam\<close> finds for every name the
  first value that its entries give it, each split at its first equals sign, those already there before the new one. Entries without an equals sign
  count for nothing.\<close>

theorem GetParam_PutParam:
  assumes "params_ok p" "61 \<notin> set n" "0 \<notin> set m" "61 \<notin> set m"
  shows "\<exists>p'. PutParam p (n @ [61] @ v) = Inr p' \<and> params_ok p'
    \<and> FCGX_GetParam (Some m) (Some (vec p')) = Inr (map_of (map entry_pair (filter (\<lambda>e. 61 \<in> set e) (entries p)) @ [(n, v)]) m)"
proof -
  obtain p' where p': "PutParam p (n @ [61] @ v) = Inr p'" "params_ok p'" "entries p' = entries p @ [n @ 61 # v]"
    using PutParam_ok [OF assms(1), of "n @ [61] @ v"] by auto
  have "c_str m = m" using assms(3) by (auto simp: c_str_def takeWhile_eq_all_conv)
  then have "FCGX_GetParam (Some m) (Some (vec p')) = Inr (map_of (map entry_pair (filter (\<lambda>e. 61 \<in> set e) (entries p'))) m)"
    using GetParam_entries [OF p'(2), of m] find_entries [OF assms(4)] by simp
  then show ?thesis using p' entry_pair_entry [OF assms(2)] by auto
qed

text \<open>The entry \<open>AB=C\<close> does not stand in the way of \<open>A\<close>.\<close>

definition sample_params_vec :: Params where
  "sample_params_vec = \<lparr>vec = [Some [65, 66, 61, 67], None], plength = 2, cur = 1\<rparr>"

theorem GetParam_PutParam_witness:
  "\<exists>p'. PutParam sample_params_vec ([65] @ [61] @ [82]) = Inr p' \<and> params_ok p' \<and> FCGX_GetParam (Some [65]) (Some (vec p')) = Inr (Some [82])"
proof -
  have ok: "params_ok sample_params_vec" by (simp add: params_ok_def sample_params_vec_def)
  have "map_of (map entry_pair (filter (\<lambda>e. 61 \<in> set e) (entries sample_params_vec)) @ [([65], [82])]) [65] = Some [82]"
    by (simp add: entries_def sample_params_vec_def entry_pair_def)
  with GetParam_PutParam [OF ok, of "[65]" "[65]" "[82]"] show ?thesis by simp
qed

end
