(* ===== verification/Fcgi_Reader.thy ===== *)
theory Fcgi_Reader
  imports Fcgi_Params
begin

text \<open>
  The record reader of \<open>fcgiapp.c\<close>: \<open>ProcessManagementRecord\<close>, \<open>ProcessBeginRecord\<close>,
  \<open>ProcessHeader\<close>, \<open>FillBuffProc\<close>, \<open>SetReaderType\<close>, \<open>FCGX_StartFilterData\<close>.

  In the source these functions are mutually recursive: \<open>FillBuffProc\<close> calls \<open>ProcessHeader\<close>,
  which reads record bodies through the stream and so calls \<open>FillBuffProc\<close> again. The inner call runs
  with \<open>eorStop\<close> set and never reaches \<open>ProcessHeader\<close>. The model is staged accordingly: the loop takes
  the header processor as an argument, \<open>FillBuffProc_eor\<close> is the loop without one, and
  \<open>FillBuffProc\<close> is the loop with the header processor that reads bodies through \<open>FillBuffProc_eor\<close>.
  That \<open>FillBuffProc\<close> satisfies the recursive equation of the source is a theorem below.
\<close>

unbundle bit_operations_syntax

section \<open>Record processing\<close>

definition STREAM_RECORD :: int where "STREAM_RECORD = 0"
definition SKIP :: int where "SKIP = 1"
definition BEGIN_RECORD :: int where "BEGIN_RECORD = 2"
definition MGMT_RECORD :: int where "MGMT_RECORD = 3"

lemmas status_defs = STREAM_RECORD_def SKIP_def BEGIN_RECORD_def MGMT_RECORD_def

text \<open>
  \<open>char response[64]\<close> starts as whatever the stack holds. For every entry the name is cut at its first
  \<open>=\<close>; \<open>sprintf(responseP, "%c%c%s%c", len, 1, name, value)\<close> stores \<open>len + 3\<close> bytes and
  the terminating NUL.
\<close>

definition mgmt_name :: "byte list \<Rightarrow> byte list" where
  "mgmt_name e = takeWhile (\<lambda>b. b \<noteq> 0 \<and> b \<noteq> 61) e"

definition mgmt_value :: "byte list \<Rightarrow> byte option" where
  "mgmt_value name =
     (if name = FCGI_MAX_CONNS then Some 49
      else if name = FCGI_MAX_REQS then Some 49
      else if name = FCGI_MPXS_CONNS then Some 48
      else None)"

fun GetValues_loop :: "byte list list \<Rightarrow> nat \<Rightarrow> byte list \<Rightarrow> (nat \<times> byte list) res" where
  "GetValues_loop [] responseP response = Inr (responseP, response)"
| "GetValues_loop (e # es) responseP response =
     (let name = mgmt_name e; len = length name in
      case mgmt_value name of
        None \<Rightarrow> GetValues_loop es responseP response
      | Some value \<Rightarrow>
          inbounds (responseP + len + 4 \<le> length response)
            (GetValues_loop es (responseP + len + 3)
               (put_bytes responseP ([of_nat len, 1] @ name @ [value, 0]) response)))"

definition send_response :: "byte list \<Rightarrow> nat \<Rightarrow> st \<Rightarrow> (int \<times> st) res" where
  "send_response response n s =
     inbounds (n \<le> length response)
      (case write_it_all (ipcFd (rqd s)) (take n response) (sys s) of (r, w) \<Rightarrow>
         let s1 = s\<lparr>sys := w\<rparr> in
         if r < 0 then Inr (- 1, upd (SetError (osErrno w)) s1) else Inr (MGMT_RECORD, s1))"

definition response_array :: "os \<Rightarrow> byte list" where
  "response_array w = map (stackMem w) [0..<64]"

definition ProcessManagementRecord :: "fill_proc \<Rightarrow> int \<Rightarrow> st \<Rightarrow> (int \<times> st) res" where
  "ProcessManagementRecord fill type s =
     (if type = FCGI_GET_VALUES then
        bindr (NewParams 3) (\<lambda>params.
        bindr (ReadParams fill params s) (\<lambda>(_, params, s1).
        if FCGX_GetError (strm s1) \<noteq> 0 \<or> contentLen (strm s1) \<noteq> 0 then Inr (FCGX_PROTOCOL_ERROR, s1)
        else bindr (GetValues_loop (entries params) FCGI_HEADER_LEN (response_array (sys s)))
          (\<lambda>(responseP, response).
        let len = responseP - FCGI_HEADER_LEN; paddedLen = AlignInt8 (of_nat len) in
        bindr (MakeHeader FCGI_GET_VALUES_RESULT FCGI_NULL_REQUEST_ID (int len) (paddedLen - int len))
          (\<lambda>h. send_response (put_bytes 0 (header_bytes h) response)
                 (FCGI_HEADER_LEN + nat paddedLen) s1))))
      else
        bindr (MakeHeader FCGI_UNKNOWN_TYPE FCGI_NULL_REQUEST_ID 8 0) (\<lambda>h.
          send_response (put_bytes 0 (header_bytes h @ unknown_body_bytes (MakeUnknownTypeBody type))
            (response_array (sys s))) (FCGI_HEADER_LEN + 8) s))"

definition ProcessBeginRecord :: "fill_proc \<Rightarrow> int \<Rightarrow> st \<Rightarrow> (int \<times> st) res" where
  "ProcessBeginRecord fill requestId' s =
     (if requestId' = 0 \<or> contentLen (strm s) \<noteq> 8 then Inr (FCGX_PROTOCOL_ERROR, s)
      else if isBeginProcessed (rqd s) then
        bindr (MakeHeader FCGI_END_REQUEST requestId' 8 0) (\<lambda>h.
        case write_it_all (ipcFd (rqd s))
               (header_bytes h @ end_body_bytes (MakeEndRequestBody 0 FCGI_CANT_MPX_CONN)) (sys s) of
          (r, w) \<Rightarrow> let s1 = s\<lparr>sys := w\<rparr> in
            if r < 0 then Inr (- 1, upd (SetError (osErrno w)) s1) else Inr (SKIP, s1))
      else
        let s1 = s\<lparr>rqd := (rqd s)\<lparr>requestId := requestId'\<rparr>\<rparr> in
        bindr (FCGX_GetStr fill 8 s1) (\<lambda>(bs, s2).
          if length bs \<noteq> 8 then Inr (FCGX_PROTOCOL_ERROR, s2)
          else let body = begin_body_of_bytes bs in
            Inr (BEGIN_RECORD, s2\<lparr>rqd := (rqd s2)\<lparr>
              keepConnection := (b_flags body AND FCGI_KEEP_CONN \<noteq> 0),
              role := be16 (b_roleB1 body) (b_roleB0 body),
              isBeginProcessed := True\<rparr>\<rparr>)))"

definition ProcessHeader :: "fill_proc \<Rightarrow> FCGI_Header \<Rightarrow> st \<Rightarrow> (int \<times> st) res" where
  "ProcessHeader fill h s =
     (if h_version h \<noteq> FCGI_VERSION_1 then Inr (FCGX_UNSUPPORTED_VERSION, s)
      else
        let requestId' = header_requestId h;
            s1 = upd (\<lambda>t. t\<lparr>contentLen := nat (header_contentLength h),
                            paddingLen := unat (h_paddingLength h)\<rparr>) s
        in if uint (h_type h) = FCGI_BEGIN_REQUEST then ProcessBeginRecord fill requestId' s1
        else if requestId' = FCGI_NULL_REQUEST_ID then ProcessManagementRecord fill (uint (h_type h)) s1
        else if requestId' \<noteq> requestId (rqd s1) then Inr (SKIP, s1)
        else if uint (h_type h) \<noteq> dtype (strm s1) then Inr (FCGX_PROTOCOL_ERROR, s1)
        else Inr (STREAM_RECORD, s1))"

section \<open>Filling the buffer\<close>

text \<open>One stage of an iteration either returns from \<open>FillBuffProc\<close>, continues with the next
  iteration, or proceeds to the next stage.\<close>

datatype flow = Return st | Continue st | Proceed st

definition fill_read :: "st \<Rightarrow> flow" where
  "fill_read s =
     (if rdNext (strm s) = buffStop (strm s) then
        case OS_Read (ipcFd (rqd s)) (bufflen (strm s)) (sys s) of (count, bs, w) \<Rightarrow>
          let s1 = s\<lparr>sys := w\<rparr> in
          if count \<le> 0
          then Return (upd (SetError (if count = 0 then FCGX_PROTOCOL_ERROR else osErrno w)) s1)
          else Proceed (upd (\<lambda>t. t\<lparr>buff := put_bytes 0 bs (buff t), rdNext := 0, buffStop := nat count\<rparr>) s1)
      else Proceed s)"

definition fill_content :: "st \<Rightarrow> flow" where
  "fill_content s = (let t = strm s in
     if 0 < contentLen t then
       let count = min (contentLen t) (buffStop t - rdNext t);
           s1 = upd (\<lambda>t. t\<lparr>contentLen := contentLen t - count\<rparr>) s
       in if \<not> skip t then Return (upd (\<lambda>t. t\<lparr>wrNext := rdNext t + count, stop := rdNext t + count\<rparr>) s1)
       else let s2 = upd (\<lambda>t. t\<lparr>rdNext := rdNext t + count\<rparr>) s1 in
         if 0 < contentLen (strm s2) then Continue s2 else Proceed (upd (\<lambda>t. t\<lparr>skip := False\<rparr>) s2)
     else Proceed s)"

definition fill_padding :: "st \<Rightarrow> flow" where
  "fill_padding s = (let t = strm s in
     if 0 < paddingLen t then
       let count = min (paddingLen t) (buffStop t - rdNext t);
           s1 = upd (\<lambda>t. t\<lparr>paddingLen := paddingLen t - count, rdNext := rdNext t + count\<rparr>) s
       in if 0 < paddingLen (strm s1) then Continue s1 else Proceed s1
     else Proceed s)"

definition fill_header :: "byte list \<Rightarrow> st \<Rightarrow> byte list \<times> st" where
  "fill_header hb s = (let t = strm s; count = min (8 - length hb) (buffStop t - rdNext t) in
     (hb @ sub_bytes (rdNext t) count (buff t), upd (\<lambda>t. t\<lparr>rdNext := rdNext t + count\<rparr>) s))"

text \<open>The stages of an iteration up to the test of \<open>eorStop\<close>.\<close>

definition fill_advance :: "st \<Rightarrow> flow" where
  "fill_advance s =
     (case fill_read s of Return s' \<Rightarrow> Return s' | Continue s' \<Rightarrow> Continue s' | Proceed s1 \<Rightarrow>
     (case fill_content s1 of Return s' \<Rightarrow> Return s' | Continue s' \<Rightarrow> Continue s' | Proceed s2 \<Rightarrow>
        fill_padding s2))"

text \<open>The \<open>switch(status)\<close> after \<open>ProcessHeader\<close>; \<open>loop\<close> is the next iteration.\<close>

definition fill_dispatch :: "(st \<Rightarrow> st res) \<Rightarrow> int \<Rightarrow> st \<Rightarrow> st res" where
  "fill_dispatch loop status s =
     (if status = STREAM_RECORD then
        if contentLen (strm s) = 0
        then Inr (upd (\<lambda>t. t\<lparr>wrNext := rdNext t, stop := rdNext t, isClosed := True\<rparr>) s)
        else loop s
      else if status = SKIP then loop (upd (\<lambda>t. t\<lparr>skip := True\<rparr>) s)
      else if status = BEGIN_RECORD then Inr s
      else if status = MGMT_RECORD then loop s
      else assertr (status < 0) (Inr (upd (SetError status) s)))"

text \<open>The state in which \<open>ProcessHeader\<close> is called, and the one its result is interpreted in.\<close>

abbreviation enter_header :: "st \<Rightarrow> st" where
  "enter_header s \<equiv> upd (\<lambda>t. t\<lparr>eorStop := True, stop := rdNext t\<rparr>) s"

abbreviation leave_header :: "st \<Rightarrow> st" where
  "leave_header s \<equiv> upd (\<lambda>t. t\<lparr>eorStop := False, isClosed := False\<rparr>) s"

text \<open>
  The loop of \<open>FillBuffProc\<close>; \<open>hb\<close> are the \<open>headerLen\<close> bytes of \<open>header\<close> read so far. Every
  iteration that comes to an end without returning consumes an unread byte, so one more unit of fuel than there
  are unread bytes is enough.
\<close>

fun FillBuffLoop ::
    "(FCGI_Header \<Rightarrow> st \<Rightarrow> (int \<times> st) res) \<Rightarrow> nat \<Rightarrow> byte list \<Rightarrow> st \<Rightarrow> st res" where
  "FillBuffLoop ph 0 hb s = Inl NoReturn"
| "FillBuffLoop ph (Suc fuel) hb s =
     (case fill_advance s of
        Return s' \<Rightarrow> Inr s'
      | Continue s' \<Rightarrow> FillBuffLoop ph fuel hb s'
      | Proceed s3 \<Rightarrow>
          if eorStop (strm s3) then Inr (upd (\<lambda>t. t\<lparr>stop := rdNext t, isClosed := True\<rparr>) s3)
          else case fill_header hb s3 of (hb', s4) \<Rightarrow>
            if length hb' < 8 then FillBuffLoop ph fuel hb' s4
            else bindr (ph (header_of_bytes hb') (enter_header s4)) (\<lambda>(status, s5).
              fill_dispatch (\<lambda>s. FillBuffLoop ph fuel [] s) status (leave_header s5)))"

declare FillBuffLoop.simps(2) [simp del]

definition FillBuffProc_eor :: fill_proc where
  "FillBuffProc_eor s = FillBuffLoop (\<lambda>_ _. Inl NoReturn) (Suc (length (unread s))) [] s"

definition FillBuffProc :: fill_proc where
  "FillBuffProc s = FillBuffLoop (ProcessHeader FillBuffProc_eor) (Suc (length (unread s))) [] s"

definition SetReaderType :: "int \<Rightarrow> st \<Rightarrow> st res" where
  "SetReaderType streamType s =
     assertr (isReader (strm s))
       (Inr (upd (\<lambda>t. t\<lparr>dtype := streamType, eorStop := False, skip := False, contentLen := 0,
                        paddingLen := 0, wrNext := rdNext t, stop := rdNext t, isClosed := False\<rparr>) s))"

definition FCGX_StartFilterData :: "st \<Rightarrow> (int \<times> st) res" where
  "FCGX_StartFilterData s =
     (if role (rqd s) \<noteq> FCGI_FILTER \<or> \<not> isReader (strm s) \<or> \<not> isClosed (strm s)
         \<or> dtype (strm s) \<noteq> FCGI_STDIN
      then Inr (- 1, upd (SetError FCGX_CALL_SEQ_ERROR) s)
      else bindr (SetReaderType FCGI_DATA s) (\<lambda>s1. Inr (0, s1)))"

definition FCGX_SetExitStatus :: "int \<Rightarrow> st \<Rightarrow> st" where
  "FCGX_SetExitStatus status s = s\<lparr>rqd := (rqd s)\<lparr>appStatus := status\<rparr>\<rparr>"

end
