(* ===== verification/Fcgi_Reader_Correct.thy ===== *)
theory Fcgi_Reader_Correct
  imports Fcgi_Reader
begin

text \<open>
  What the record reader delivers. \<open>records rid ty pad tail w cs\<close> describes the input of one stream: the
  bytes \<open>w\<close> are records of stream \<open>ty\<close> of request \<open>rid\<close>, possibly interleaved with
  records of other requests, closed by the empty record of the stream, and \<open>cs\<close> is what is left of their content
  when the content of a record that follows an empty record of another request is dropped, as the code drops it. The
  main result is the interpretation of \<open>byte_source\<close> by \<open>FillBuffProc\<close>: however the
  bytes arrive (any sequence of short reads), the stream delivers exactly \<open>cs\<close> and then closes. A
  second interpretation is for \<open>FillBuffProc_eor\<close>, which delivers the content of one record to
  \<open>ProcessHeader\<close>.
\<close>

unbundle bit_operations_syntax

section \<open>The reader invariant and the buffer\<close>

definition rd_inv :: "st \<Rightarrow> bool" where
  "rd_inv s \<longleftrightarrow> (let t = strm s in isReader t \<and> length (buff t) = bufflen t \<and> 0 < bufflen t
     \<and> rdNext t \<le> buffStop t \<and> buffStop t \<le> bufflen t)"

definition consume :: "nat \<Rightarrow> st \<Rightarrow> st" where
  "consume k s = upd (\<lambda>t. t\<lparr>rdNext := rdNext t + k\<rparr>) s"

text \<open>Everything of a stream but the buffer and the positions that delimit the data in it.\<close>

definition control :: "FCGX_Stream \<Rightarrow> FCGX_Stream" where
  "control t = t\<lparr>buff := [], rdNext := 0, buffStop := 0\<rparr>"

lemma control_fields:
  assumes "control t = control u"
  shows "bufflen t = bufflen u" "dtype t = dtype u" "eorStop t = eorStop u" "skip t = skip u"
    "contentLen t = contentLen u" "paddingLen t = paddingLen u" "wrNext t = wrNext u"
    "stop t = stop u" "stopUnget t = stopUnget u" "isReader t = isReader u"
    "isClosed t = isClosed u" "wasFCloseCalled t = wasFCloseCalled u" "FCGI_errno t = FCGI_errno u"
    "rawWrite t = rawWrite u" "isAnythingWritten t = isAnythingWritten u"
  using assms by (cases t; cases u; simp add: control_def)+

lemma length_buffered: "rd_inv s \<Longrightarrow> length (buffered (strm s)) = buffStop (strm s) - rdNext (strm s)"
  by (auto simp: rd_inv_def buffered_def Let_def)

lemma unread_upd:
  "rdNext (f (strm s)) = rdNext (strm s) \<Longrightarrow> buffStop (f (strm s)) = buffStop (strm s) \<Longrightarrow>
   buff (f (strm s)) = buff (strm s) \<Longrightarrow> unread (upd f s) = unread s"
  by (simp add: unread_def buffered_def)

lemma buffered_split:
  assumes "rdNext t + k \<le> buffStop t"
  shows "buffered t = sub_bytes (rdNext t) k (buff t) @ sub_bytes (rdNext t + k) (buffStop t - (rdNext t + k)) (buff t)"
proof -
  have "buffStop t - rdNext t = k + (buffStop t - (rdNext t + k))" using assms by simp
  then show ?thesis unfolding buffered_def by (metis sub_bytes_split)
qed

lemma consume_unread:
  assumes "rd_inv s" "rdNext (strm s) + k \<le> buffStop (strm s)"
  shows "rd_inv (consume k s)" "unread s = sub_bytes (rdNext (strm s)) k (buff (strm s)) @ unread (consume k s)"
    "length (sub_bytes (rdNext (strm s)) k (buff (strm s))) = k"
proof -
  show "rd_inv (consume k s)" using assms by (auto simp: rd_inv_def consume_def Let_def)
  show "unread s = sub_bytes (rdNext (strm s)) k (buff (strm s)) @ unread (consume k s)"
    using buffered_split [OF assms(2)] by (simp add: unread_def consume_def buffered_def)
  show "length (sub_bytes (rdNext (strm s)) k (buff (strm s))) = k"
    using assms by (auto simp: rd_inv_def Let_def)
qed

section \<open>Reading the socket\<close>

text \<open>Reading the socket moves bytes from the socket into the buffer.\<close>

lemma fill_read_Proceed:
  assumes "rd_inv s" "fill_read s = Proceed s1"
  shows "rd_inv s1 \<and> unread s1 = unread s \<and> rdNext (strm s1) < buffStop (strm s1)
    \<and> same_output (sys s) (sys s1) \<and> rqd s1 = rqd s
    \<and> control (strm s1) = control (strm s)"
proof (cases "rdNext (strm s) = buffStop (strm s)")
  case False
  with assms show ?thesis by (auto simp: fill_read_def rd_inv_def Let_def)
next
  case True
  obtain count bs w where rd: "OS_Read (ipcFd (rqd s)) (bufflen (strm s)) (sys s) = (count, bs, w)"
    by (metis prod_cases3)
  have pos: "0 < count" and s1: "s1 = upd (\<lambda>t. t\<lparr>buff := put_bytes 0 bs (buff t), rdNext := 0,
      buffStop := nat count\<rparr>) (s\<lparr>sys := w\<rparr>)"
    using assms True rd by (auto simp: fill_read_def Let_def split: if_splits)
  have bl: "0 < bufflen (strm s)" "length (buff (strm s)) = bufflen (strm s)"
    using assms(1) by (auto simp: rd_inv_def Let_def)
  note in1 = OS_Read_incoming(2) [OF rd bl(1) pos]
  have "buffered (strm s) = []" using True by (simp add: buffered_def)
  moreover have "buffered (strm s1) = bs"
    using in1 bl sub_put_prefix [of bs "buff (strm s)"] by (simp add: s1 buffered_def)
  ultimately have "unread s1 = unread s" using in1 by (simp add: unread_def s1)
  moreover have "rd_inv s1" using assms(1) in1 bl by (simp add: s1 rd_inv_def Let_def)
  moreover have "rdNext (strm s1) < buffStop (strm s1)" using in1 by (simp add: s1)
  moreover have "same_output (sys s) (sys s1)" using OS_Read_same_output [OF rd] by (simp add: s1)
  ultimately show ?thesis by (simp add: s1 control_def)
qed

lemma fill_read_cases:
  assumes "rd_inv s"
  obtains (data) s1 where "fill_read s = Proceed s1" "unread s \<noteq> []"
    | (fail) e w where "fill_read s = Return (upd (SetError e) (s\<lparr>sys := w\<rparr>))" "unread s = []"
        "same_output (sys s) w" "e = FCGX_PROTOCOL_ERROR \<or> e = osErrno w" "rdNext (strm s) = buffStop (strm s)"
proof (cases "rdNext (strm s) = buffStop (strm s)")
  case False
  then have "unread s \<noteq> []" using assms length_buffered [OF assms]
    by (auto simp: unread_def rd_inv_def Let_def)
  with False show ?thesis using data by (simp add: fill_read_def)
next
  case True
  obtain count bs w where rd: "OS_Read (ipcFd (rqd s)) (bufflen (strm s)) (sys s) = (count, bs, w)"
    by (metis prod_cases3)
  have bl: "0 < bufflen (strm s)" using assms(1) by (auto simp: rd_inv_def Let_def)
  have be: "buffered (strm s) = []" using True by (simp add: buffered_def)
  show ?thesis
  proof (cases "count \<le> 0")
    case le: True
    then have "unread s = []" using OS_Read_incoming(1) [OF rd bl] be by (simp add: unread_def)
    then show ?thesis using True le rd OS_Read_same_output [OF rd]
      by (intro fail [of "if count = 0 then FCGX_PROTOCOL_ERROR else osErrno w" w])
        (auto simp: fill_read_def Let_def)
  next
    case gt: False
    then have "unread s \<noteq> []" using OS_Read_incoming(2) [OF rd bl] be by (simp add: unread_def)
    then show ?thesis using True gt rd data by (simp add: fill_read_def Let_def)
  qed
qed

section \<open>Well-formed stream data\<close>

text \<open>The flag of \<open>arriving\<close> is the reader's \<open>skip\<close> between two records. A record of another request sets it, and reading
  that record's content clears it again; when the record is empty there is no content to read, the flag stays set, and the content
  of the next record of the own stream is skipped in its stead.\<close>

inductive arriving :: "int \<Rightarrow> int \<Rightarrow> nat \<Rightarrow> byte list \<Rightarrow> bool \<Rightarrow> byte list \<Rightarrow> byte list \<Rightarrow> bool"
  for rid ty pad tail where
  eof: "arriving rid ty pad tail stale (header_bytes (header_for ty rid 0 pad) @ tail) []"
| data: "arriving rid ty pad tail False w cs \<Longrightarrow> c \<noteq> [] \<Longrightarrow> length c \<le> 65535 \<Longrightarrow> length p \<le> 255 \<Longrightarrow>
    arriving rid ty pad tail stale (rec_bytes ty rid c p @ w) (if stale then cs else c @ cs)"
| foreign: "arriving rid ty pad tail (c = []) w cs \<Longrightarrow> length c \<le> 65535 \<Longrightarrow> length p \<le> 255 \<Longrightarrow>
    0 < fid \<Longrightarrow> fid \<le> 65535 \<Longrightarrow> fid \<noteq> rid \<Longrightarrow> 0 \<le> ty' \<Longrightarrow> ty' \<le> 255 \<Longrightarrow> ty' \<noteq> FCGI_BEGIN_REQUEST \<Longrightarrow>
    arriving rid ty pad tail stale (rec_bytes ty' fid c p @ w) cs"

definition records :: "int \<Rightarrow> int \<Rightarrow> nat \<Rightarrow> byte list \<Rightarrow> byte list \<Rightarrow> byte list \<Rightarrow> bool" where
  "records rid ty pad tail w cs \<longleftrightarrow> arriving rid ty pad tail False w cs"

lemma records_eof: "records rid ty pad tail (header_bytes (header_for ty rid 0 pad) @ tail) []"
  by (simp add: records_def arriving.eof)

lemma records_data:
  "records rid ty pad tail w cs \<Longrightarrow> c \<noteq> [] \<Longrightarrow> length c \<le> 65535 \<Longrightarrow> length p \<le> 255 \<Longrightarrow>
    records rid ty pad tail (rec_bytes ty rid c p @ w) (c @ cs)"
  using arriving.data [where stale = False] by (simp add: records_def)

text \<open>A record of another request that has content does no harm.\<close>

lemma records_foreign:
  "records rid ty pad tail w cs \<Longrightarrow> c \<noteq> [] \<Longrightarrow> length c \<le> 65535 \<Longrightarrow> length p \<le> 255 \<Longrightarrow>
    0 < fid \<Longrightarrow> fid \<le> 65535 \<Longrightarrow> fid \<noteq> rid \<Longrightarrow> 0 \<le> ty' \<Longrightarrow> ty' \<le> 255 \<Longrightarrow> ty' \<noteq> FCGI_BEGIN_REQUEST \<Longrightarrow>
    records rid ty pad tail (rec_bytes ty' fid c p @ w) cs"
  using arriving.foreign by (simp add: records_def)

text \<open>An empty one takes the next record of the own stream with it.\<close>

lemma records_empty_foreign:
  assumes "records rid ty pad tail w cs" "c \<noteq> []" "length c \<le> 65535" "length p \<le> 255" "length q \<le> 255"
    "0 < fid" "fid \<le> 65535" "fid \<noteq> rid" "0 \<le> ty'" "ty' \<le> 255" "ty' \<noteq> FCGI_BEGIN_REQUEST"
  shows "records rid ty pad tail (rec_bytes ty' fid [] q @ rec_bytes ty rid c p @ w) cs"
proof -
  have "arriving rid ty pad tail True (rec_bytes ty rid c p @ w) cs"
    using arriving.data [where stale = True] assms(1-4) by (fastforce simp: records_def)
  then show ?thesis using arriving.foreign [where c = "[]"] assms(5-11) by (simp add: records_def)
qed

lemma records_length: "arriving rid ty pad tail stale w cs \<Longrightarrow> 8 + length cs \<le> length w"
  by (induction rule: arriving.induct) (auto simp: rec_bytes_def)

record reader_ctx =
  k_rqd :: FCGX_ReqData
  k_sys :: os
  k_errno :: int
  k_type :: int
  k_pad :: nat
  k_tail :: "byte list"
  k_eor :: bool
  k_body :: "byte list"

definition k_ok :: "reader_ctx \<Rightarrow> bool" where
  "k_ok K \<longleftrightarrow> (if k_eor K then k_pad K = 0
     else 0 < requestId (k_rqd K) \<and> requestId (k_rqd K) \<le> 65535 \<and> 0 \<le> k_type K \<and> k_type K \<le> 255
       \<and> k_type K \<noteq> FCGI_BEGIN_REQUEST \<and> k_pad K \<le> 255)"

definition k_records :: "reader_ctx \<Rightarrow> bool \<Rightarrow> byte list \<Rightarrow> byte list \<Rightarrow> bool" where
  "k_records K stale w cs \<longleftrightarrow> (if k_eor K then \<not> stale \<and> cs = [] \<and> w = k_tail K
     else arriving (requestId (k_rqd K)) (k_type K) (k_pad K) (k_tail K) stale w cs)"

text \<open>What the reader keeps fixed while it reads one stream.\<close>

definition k_frame :: "reader_ctx \<Rightarrow> st \<Rightarrow> bool" where
  "k_frame K s \<longleftrightarrow> rd_inv s \<and> eorStop (strm s) = k_eor K \<and> dtype (strm s) = k_type K
     \<and> FCGI_errno (strm s) = k_errno K \<and> rqd s = k_rqd K \<and> same_output (k_sys K) (sys s)"

definition loop_state :: "reader_ctx \<Rightarrow> byte list \<Rightarrow> st \<Rightarrow> byte list \<Rightarrow> bool" where
  "loop_state K hb s cs \<longleftrightarrow> k_frame K s \<and> \<not> isClosed (strm s) \<and> length hb < 8 \<and>
     (\<exists>c p w cs'. unread s = c @ p @ w \<and> length c = contentLen (strm s) \<and> length p = paddingLen (strm s)
        \<and> k_records K (skip (strm s) \<and> c = []) (hb @ w) cs' \<and> (hb \<noteq> [] \<longrightarrow> c = [] \<and> p = [])
        \<and> (c \<noteq> [] \<longrightarrow> p @ w \<noteq> []) \<and> cs = (if skip (strm s) then cs' else c @ cs')
        \<and> (k_eor K \<and> c \<noteq> [] \<longrightarrow> p = k_body K))"

definition stream_yields :: "reader_ctx \<Rightarrow> st \<Rightarrow> byte list \<Rightarrow> bool" where
  "stream_yields K s cs \<longleftrightarrow> k_ok K \<and> k_frame K s \<and> \<not> isClosed (strm s) \<and> \<not> skip (strm s)
     \<and> rdNext (strm s) \<le> stop (strm s) \<and> stop (strm s) \<le> buffStop (strm s) \<and>
     (\<exists>c p w cs'. unread s = window (strm s) @ c @ p @ w \<and> length c = contentLen (strm s)
        \<and> length p = paddingLen (strm s) \<and> k_records K False w cs' \<and> p @ w \<noteq> []
        \<and> cs = window (strm s) @ c @ cs' \<and> (k_eor K \<longrightarrow> p = k_body K))"

definition stream_ended :: "reader_ctx \<Rightarrow> st \<Rightarrow> bool" where
  "stream_ended K s \<longleftrightarrow> k_frame K s \<and> (k_eor K \<longrightarrow> \<not> skip (strm s)) \<and> contentLen (strm s) = 0
     \<and> paddingLen (strm s) = k_pad K \<and> unread s = k_tail K"

section \<open>The stages of an iteration\<close>

lemma loop_state_unread:
  "loop_state K hb s cs \<Longrightarrow> \<not> k_eor K \<or> 0 < contentLen (strm s) \<or> 0 < paddingLen (strm s) \<Longrightarrow> unread s \<noteq> []"
  by (auto simp: loop_state_def k_records_def dest!: records_length split: if_splits)

lemma read_stage:
  assumes "loop_state K hb s cs" "unread s \<noteq> []"
  shows "\<exists>s1. fill_read s = Proceed s1 \<and> loop_state K hb s1 cs \<and> unread s1 = unread s
     \<and> rdNext (strm s1) < buffStop (strm s1)"
proof -
  have inv: "rd_inv s" using assms by (simp add: loop_state_def k_frame_def)
  then obtain s1 where s1: "fill_read s = Proceed s1"
    using fill_read_cases [OF inv] assms(2) by blast
  note p = fill_read_Proceed [OF inv s1]
  then have c: "control (strm s1) = control (strm s)" by simp
  have fr: "k_frame K s1" if "k_frame K s"
    using that p control_fields [OF c] same_output_trans by (simp add: k_frame_def) blast
  from assms(1) have "loop_state K hb s1 cs"
    unfolding loop_state_def using fr p control_fields [OF c] by simp
  then show ?thesis using s1 p by blast
qed

lemma k_frame_upd:
  assumes "k_frame K s" "rd_inv (upd f s)" "eorStop (f (strm s)) = eorStop (strm s)"
    "dtype (f (strm s)) = dtype (strm s)" "FCGI_errno (f (strm s)) = FCGI_errno (strm s)"
  shows "k_frame K (upd f s)"
  using assms by (simp add: k_frame_def)

text \<open>Moving the read position within the buffered data, whatever else changes.\<close>

lemma unread_moved:
  assumes "rd_inv s" "rdNext (strm s) + k \<le> buffStop (strm s)"
    "rdNext (f (strm s)) = rdNext (strm s) + k" "buffStop (f (strm s)) = buffStop (strm s)"
    "buff (f (strm s)) = buff (strm s)" "bufflen (f (strm s)) = bufflen (strm s)"
    "isReader (f (strm s)) = isReader (strm s)"
  shows "rd_inv (upd f s)" "unread (upd f s) = drop k (unread s)"
    "take k (unread s) = sub_bytes (rdNext (strm s)) k (buff (strm s))" "k \<le> length (unread s)"
    "0 < k \<Longrightarrow> length (unread (upd f s)) < length (unread s)"
proof -
  show "rd_inv (upd f s)" using assms by (auto simp: rd_inv_def Let_def)
  have e: "unread (upd f s) = unread (consume k s)"
    using assms by (simp add: unread_def buffered_def consume_def)
  note c = consume_unread [OF assms(1,2)]
  show un: "unread (upd f s) = drop k (unread s)" unfolding e c(2) using c(3) by simp
  show "take k (unread s) = sub_bytes (rdNext (strm s)) k (buff (strm s))"
    unfolding c(2) using c(3) by simp
  have "length (unread s) = k + length (unread (consume k s))"
    by (subst c(2)) (simp only: length_append c(3))
  then show k: "k \<le> length (unread s)" by simp
  show "length (unread (upd f s)) < length (unread s)" if "0 < k"
    using that k unfolding un length_drop by linarith
qed

lemma loop_stateE:
  assumes "loop_state K hb s cs"
  obtains c p w cs' where "rd_inv s" "k_frame K s" "\<not> isClosed (strm s)" "length hb < 8"
    "unread s = c @ p @ w" "length c = contentLen (strm s)" "length p = paddingLen (strm s)"
    "k_records K (skip (strm s) \<and> c = []) (hb @ w) cs'" "hb \<noteq> [] \<longrightarrow> c = [] \<and> p = []"
    "cs = (if skip (strm s) then cs' else c @ cs')" "c \<noteq> [] \<longrightarrow> p @ w \<noteq> []"
    "k_eor K \<and> c \<noteq> [] \<longrightarrow> p = k_body K"
  using assms unfolding loop_state_def k_frame_def by blast

lemma loop_stateI:
  assumes "k_frame K s" "\<not> isClosed (strm s)" "length hb < 8" "unread s = c @ p @ w"
    "length c = contentLen (strm s)" "length p = paddingLen (strm s)" "k_records K (skip (strm s) \<and> c = []) (hb @ w) cs'"
    "hb \<noteq> [] \<Longrightarrow> c = [] \<and> p = []"
    "c \<noteq> [] \<Longrightarrow> p @ w \<noteq> []" "cs = (if skip (strm s) then cs' else c @ cs')"
    "k_eor K \<and> c \<noteq> [] \<Longrightarrow> p = k_body K"
  shows "loop_state K hb s cs"
  unfolding loop_state_def using assms by blast

lemma stream_yieldsI:
  assumes "k_ok K" "k_frame K s" "\<not> isClosed (strm s)" "\<not> skip (strm s)"
    "rdNext (strm s) \<le> stop (strm s)" "stop (strm s) \<le> buffStop (strm s)"
    "unread s = window (strm s) @ c @ p @ w" "length c = contentLen (strm s)"
    "length p = paddingLen (strm s)" "k_records K False w cs'" "p @ w \<noteq> []" "cs = window (strm s) @ c @ cs'"
    "k_eor K \<Longrightarrow> p = k_body K"
  shows "stream_yields K s cs"
  unfolding stream_yields_def using assms by blast

lemma content_deliver:
  assumes K: "k_ok K" and ls: "loop_state K hb s cs" and rd: "rdNext (strm s) < buffStop (strm s)"
    and pos: "0 < contentLen (strm s)" and ns: "\<not> skip (strm s)"
  shows "\<exists>s'. fill_content s = Return s' \<and> stream_yields K s' cs \<and> rdNext (strm s') < stop (strm s')"
  using ls
proof (cases rule: loop_stateE)
  case (1 c p w cs')
  let ?n = "min (contentLen (strm s)) (buffStop (strm s) - rdNext (strm s))"
  let ?f = "\<lambda>t. t\<lparr>contentLen := contentLen t - ?n, wrNext := rdNext t + ?n, stop := rdNext t + ?n\<rparr>"
  have n: "?n \<le> length c" "0 < ?n" "rdNext (strm s) + ?n \<le> buffStop (strm s)"
    using 1 pos rd by auto
  have r: "fill_content s = Return (upd ?f s)"
    using pos ns by (simp add: fill_content_def Let_def upd_def)
  have win: "window (?f (strm s)) = take ?n c"
    using unread_moved(3) [OF 1(1) n(3), of "\<lambda>t. t\<lparr>rdNext := rdNext t + ?n\<rparr>"] n(1) 1(5)
    by (simp add: window_def)
  have inv: "rd_inv (upd ?f s)" using 1(1) by (simp add: rd_inv_def Let_def)
  have kf: "k_frame K (upd ?f s)" using k_frame_upd [OF 1(2) inv] by simp
  have un: "unread (upd ?f s) = take ?n c @ drop ?n c @ p @ w"
    using 1(5) by (subst unread_upd) simp_all
  have cs: "cs = take ?n c @ drop ?n c @ cs'"
    using 1(10) ns by simp
  have rec: "k_records K False w cs'" using 1 pos ns by auto
  have pw: "p @ w \<noteq> []" using 1(6,11) pos by auto
  have "stream_yields K (upd ?f s) cs"
    by (rule stream_yieldsI [OF K kf _ _ _ _ _ _ _ rec pw, of "drop ?n c"])
      (use 1(3,6,7,12) pos ns n(3) un cs win in auto)
  then show ?thesis using r n(2) by auto
qed

lemma content_skip:
  assumes ls: "loop_state K hb s cs" and rd: "rdNext (strm s) < buffStop (strm s)" and sk: "skip (strm s)"
    and pos: "0 < contentLen (strm s)"
  shows "\<exists>s'. loop_state K hb s' cs \<and> length (unread s') < length (unread s) \<and>
     (fill_content s = Continue s' \<or> fill_content s = Proceed s' \<and> contentLen (strm s') = 0)"
  using ls
proof (cases rule: loop_stateE)
  case (1 c p w cs')
  let ?n = "min (contentLen (strm s)) (buffStop (strm s) - rdNext (strm s))"
  let ?f = "\<lambda>t. t\<lparr>contentLen := contentLen t - ?n, rdNext := rdNext t + ?n\<rparr>"
  let ?g = "\<lambda>t. (?f t)\<lparr>skip := False\<rparr>"
  have c: "c \<noteq> []" "hb = []" using 1 pos by auto
  have rec: "k_records K False w cs'" using 1(8) c by simp
  have n: "?n \<le> length c" "0 < ?n" "rdNext (strm s) + ?n \<le> buffStop (strm s)"
    using 1(6) pos rd by auto
  note mv = unread_moved [OF 1(1) n(3), of ?f, simplified]
  note mg = unread_moved [OF 1(1) n(3), of ?g, simplified]
  have dr: "drop ?n (unread s) = drop ?n c @ p @ w" using 1(5) n(1) by simp
  have lt: "length (unread (upd ?f s)) < length (unread s)" "length (unread (upd ?g s)) < length (unread s)"
    using n(2) mv(5) mg(5) by simp_all
  show ?thesis
  proof (cases "contentLen (strm s) - ?n = 0")
    case False
    then have d: "drop ?n c \<noteq> []" using 1(6) by simp
    have "fill_content s = Continue (upd ?f s)"
      using pos sk False by (simp add: fill_content_def Let_def upd_def)
    moreover have "loop_state K hb (upd ?f s) cs"
      by (rule loop_stateI [OF k_frame_upd [OF 1(2) mv(1)], where c = "drop ?n c" and p = p and w = w and cs' = cs'])
        (use 1(3,4,6,7,10,11,12) sk c mv(2) dr d rec in simp_all)
    ultimately show ?thesis using lt by blast
  next
    case True
    then have d: "drop ?n c = []" using 1(6) by simp
    have "fill_content s = Proceed (upd ?g s)"
      using pos sk True by (simp add: fill_content_def Let_def upd_def)
    moreover have "loop_state K hb (upd ?g s) cs"
      by (rule loop_stateI [OF k_frame_upd [OF 1(2) mg(1)], where c = "[]" and p = p and w = w and cs' = cs'])
        (use 1(3,4,7,10) sk c(2) mg(2) dr True d rec in simp_all)
    moreover have "contentLen (strm (upd ?g s)) = 0"
      using True by simp
    ultimately show ?thesis using lt by blast
  qed
qed

lemma padding_stage:
  assumes ls: "loop_state K hb s cs" and c0: "contentLen (strm s) = 0"
    and rd: "rdNext (strm s) < buffStop (strm s) \<or> length (unread s) < N" and N: "length (unread s) \<le> N"
  shows "(\<exists>s'. fill_padding s = Continue s' \<and> loop_state K hb s' cs \<and> length (unread s') < N)
    \<or> (\<exists>s'. fill_padding s = Proceed s' \<and> loop_state K hb s' cs \<and> contentLen (strm s') = 0
         \<and> paddingLen (strm s') = 0 \<and> length (unread s') \<le> N
         \<and> (rdNext (strm s') < buffStop (strm s') \<or> length (unread s') < N))"
  using ls
proof (cases rule: loop_stateE)
  case (1 c p w cs')
  show ?thesis
  proof (cases "paddingLen (strm s) = 0")
    case True
    then show ?thesis using assms by (auto simp: fill_padding_def)
  next
    case pos: False
    let ?n = "min (paddingLen (strm s)) (buffStop (strm s) - rdNext (strm s))"
    let ?f = "\<lambda>t. t\<lparr>paddingLen := paddingLen t - ?n, rdNext := rdNext t + ?n\<rparr>"
    have n: "?n \<le> length p" "rdNext (strm s) + ?n \<le> buffStop (strm s)"
      using 1 by (auto simp: rd_inv_def Let_def)
    have hb: "hb = []" "c = []" using 1 pos c0 by auto
    note mv = unread_moved [OF 1(1) n(2), of ?f, simplified]
    have dr: "drop ?n (unread s) = drop ?n p @ w" using 1(5) hb n(1) by simp
    have ls': "loop_state K hb (upd ?f s) cs"
      by (rule loop_stateI [OF k_frame_upd [OF 1(2) mv(1)], where c = "[]" and p = "drop ?n p" and w = w and cs' = cs'])
        (use 1(3,4,7,8,10) hb mv(2) dr c0 in simp_all)
    have lt: "length (unread (upd ?f s)) < N"
    proof (cases "rdNext (strm s) < buffStop (strm s)")
      case True
      then have "0 < ?n" using pos by simp
      then have "length (unread (upd ?f s)) < length (unread s)" using mv(5) by simp
      then show ?thesis using N by simp
    next
      case False
      then show ?thesis using rd mv(2) by auto
    qed
    have eq: "fill_padding s = (if 0 < paddingLen (strm s) - ?n then Continue (upd ?f s) else Proceed (upd ?f s))"
      using pos by (simp add: fill_padding_def Let_def)
    show ?thesis
    proof (cases "0 < paddingLen (strm s) - ?n")
      case True
      then have "fill_padding s = Continue (upd ?f s)" using eq by (simp only: if_True)
      then show ?thesis using ls' lt by blast
    next
      case False
      then have "fill_padding s = Proceed (upd ?f s)" using eq by (simp only: if_False)
      moreover have "contentLen (strm (upd ?f s)) = 0" "paddingLen (strm (upd ?f s)) = 0"
        using c0 False by simp_all
      ultimately show ?thesis using ls' lt less_imp_le by blast
    qed
  qed
qed

lemma header_stage:
  assumes ls: "loop_state K hb s cs" and c0: "contentLen (strm s) = 0" "paddingLen (strm s) = 0"
    and fh: "fill_header hb s = (hb', s')"
  shows "k_frame K s'" "\<not> isClosed (strm s')" "contentLen (strm s') = 0"
    "paddingLen (strm s') = 0" "k_records K (skip (strm s')) (hb' @ unread s') cs" "length hb' \<le> 8"
    "length (unread s') \<le> length (unread s)"
    "rdNext (strm s) < buffStop (strm s) \<Longrightarrow> length (unread s') < length (unread s)"
proof -
  from ls have "rd_inv s" "k_frame K s" "\<not> isClosed (strm s)" "length hb < 8" and rec: "k_records K (skip (strm s)) (hb @ unread s) cs"
    using c0 by (auto simp: loop_state_def k_frame_def)
  let ?n = "min (8 - length hb) (buffStop (strm s) - rdNext (strm s))"
  let ?f = "\<lambda>t. t\<lparr>rdNext := rdNext t + ?n\<rparr>"
  have n: "rdNext (strm s) + ?n \<le> buffStop (strm s)" using \<open>rd_inv s\<close> by (auto simp: rd_inv_def Let_def)
  note mv = unread_moved [OF \<open>rd_inv s\<close> n, of ?f, simplified]
  have s': "s' = upd ?f s" "hb' = hb @ take ?n (unread s)"
    using fh mv(3) by (auto simp: fill_header_def Let_def)
  have hu: "hb' @ unread s' = hb @ unread s"
    using s' mv(2) by simp
  show "k_frame K s'" using k_frame_upd [OF \<open>k_frame K s\<close> mv(1)] s' by simp
  show "\<not> isClosed (strm s')" "contentLen (strm s') = 0" "paddingLen (strm s') = 0"
    using s' \<open>\<not> isClosed (strm s)\<close> c0 by simp_all
  show "k_records K (skip (strm s')) (hb' @ unread s') cs" using rec hu s'(1) by simp
  show "length hb' \<le> 8" using s' \<open>length hb < 8\<close> by simp
  show "length (unread s') \<le> length (unread s)" using s' mv(2) by simp
  show "length (unread s') < length (unread s)" if "rdNext (strm s) < buffStop (strm s)"
  proof -
    have "0 < ?n" using that \<open>length hb < 8\<close> by simp
    then show ?thesis using mv(5) s'(1) by simp
  qed
qed

lemma header_split:
  assumes "length hb = 8" "hb @ u = header_bytes h @ v"
  shows "hb = header_bytes h" "u = v"
  using assms by (auto simp: append_eq_append_conv)

lemma rec_split:
  assumes "length hb = 8" "hb @ u = rec_bytes ty rid c p @ w"
  shows "hb = header_bytes (header_for ty rid (length c) (length p))" "u = c @ p @ w"
  by (rule header_split [OF assms(1)], use assms(2) in \<open>simp add: rec_bytes_def\<close>)+

definition processed :: "reader_ctx \<Rightarrow> byte list \<Rightarrow> int \<Rightarrow> st \<Rightarrow> bool" where
  "processed K cs status s5 \<longleftrightarrow>
     cs = [] \<and> status = STREAM_RECORD \<and> contentLen (strm s5) = 0 \<and> stream_ended K (leave_header s5)
   \<or> status = STREAM_RECORD \<and> contentLen (strm s5) \<noteq> 0 \<and> loop_state K [] (leave_header s5) cs
   \<or> status = SKIP \<and> loop_state K [] (upd (\<lambda>t. t\<lparr>skip := True\<rparr>) (leave_header s5)) cs"

text \<open>What \<open>ProcessHeader\<close> does to the state for a record whose body it does not read.\<close>

definition begun :: "nat \<Rightarrow> nat \<Rightarrow> st \<Rightarrow> st" where
  "begun n p s = upd (\<lambda>t. t\<lparr>contentLen := n, paddingLen := p\<rparr>) (enter_header s)"

lemma begun_simps [simp]:
  "contentLen (strm (begun n p s)) = n" "paddingLen (strm (begun n p s)) = p"
  "skip (strm (begun n p s)) = skip (strm s)"
  "unread (begun n p s) = unread s" "unread (leave_header (begun n p s)) = unread s"
  "unread (upd (\<lambda>t. t\<lparr>skip := True\<rparr>) (leave_header (begun n p s))) = unread s"
  by (simp_all add: begun_def unread_def buffered_def)

lemma begun_frame:
  assumes "k_frame K s" "\<not> k_eor K"
  shows "k_frame K (leave_header (begun n p s))"
    "k_frame K (upd (\<lambda>t. t\<lparr>skip := True\<rparr>) (leave_header (begun n p s)))"
  using assms by (simp_all add: begun_def k_frame_def rd_inv_def Let_def)

lemma ProcessHeader_own:
  assumes "k_ok K" "\<not> k_eor K" "k_frame K s" "n \<le> 65535" "p \<le> 255"
  shows "ProcessHeader fill (header_for (k_type K) (requestId (k_rqd K)) n p) (enter_header s)
     = Inr (STREAM_RECORD, begun n p s)"
  using assms by (simp add: ProcessHeader_def header_for_fields Let_def begun_def
      FCGI_NULL_REQUEST_ID_def k_ok_def k_frame_def)

lemma ProcessHeader_foreign:
  assumes "requestId (rqd s) \<noteq> fid" "0 < fid" "fid \<le> 65535" "0 \<le> ty" "ty \<le> 255"
    "ty \<noteq> FCGI_BEGIN_REQUEST" "n \<le> 65535" "p \<le> 255"
  shows "ProcessHeader fill (header_for ty fid n p) (enter_header s) = Inr (SKIP, begun n p s)"
  using assms by (simp add: ProcessHeader_def header_for_fields Let_def begun_def FCGI_NULL_REQUEST_ID_def)

lemma process_step:
  assumes K: "k_ok K" "\<not> k_eor K" and fr: "k_frame K s" "\<not> isClosed (strm s)"
    and rec: "k_records K (skip (strm s)) (hb @ unread s) cs" and hb: "length hb = 8"
  shows "\<exists>status s5. ProcessHeader fill (header_of_bytes hb) (enter_header s) = Inr (status, s5)
     \<and> unread s5 = unread s \<and> processed K cs status s5"
proof -
  let ?rid = "requestId (k_rqd K)"
  note own = ProcessHeader_own [OF K fr(1)] and frame = begun_frame [OF fr(1) K(2)]
  have pad: "k_pad K \<le> 255" using K by (simp add: k_ok_def)
  from rec K(2) have "arriving ?rid (k_type K) (k_pad K) (k_tail K) (skip (strm s)) (hb @ unread s) cs"
    by (simp add: k_records_def)
  then show ?thesis
  proof (cases rule: arriving.cases)
    case eof
    note h = header_split [OF hb eof(1)]
    have "stream_ended K (leave_header (begun 0 (k_pad K) s))"
      using frame(1) h(2) K(2) by (simp add: stream_ended_def)
    then have "processed K cs STREAM_RECORD (begun 0 (k_pad K) s)" using eof(2) by (simp add: processed_def)
    then show ?thesis using own [of 0 "k_pad K"] pad unfolding h(1) header_of_bytes_inverse by auto
  next
    case (data w cs' c p)
    note hh = rec_split [OF hb data(1)]
    have wne: "w \<noteq> []" using records_length [OF data(3)] by auto
    have "loop_state K [] (leave_header (begun (length c) (length p) s)) cs"
      by (rule loop_stateI [where c = c and p = p and w = w and cs' = cs', OF frame(1)])
        (use data(2-5) hh(2) fr(2) wne K(2) in \<open>simp_all add: k_records_def\<close>)
    then have "processed K cs STREAM_RECORD (begun (length c) (length p) s)"
      using data(4) by (simp add: processed_def)
    then show ?thesis using own data(5,6) unfolding hh(1) header_of_bytes_inverse by auto
  next
    case (foreign c w p fid ty')
    note hh = rec_split [OF hb foreign(1)]
    have wne: "w \<noteq> []" using records_length [OF foreign(2)] by auto
    have "loop_state K [] (upd (\<lambda>t. t\<lparr>skip := True\<rparr>) (leave_header (begun (length c) (length p) s))) cs"
      by (rule loop_stateI [where c = c and p = p and w = w and cs' = cs, OF frame(2)])
        (use foreign(2-4) hh(2) fr(2) wne K(2) in \<open>simp_all add: k_records_def\<close>)
    then have "processed K cs SKIP (begun (length c) (length p) s)" by (simp add: processed_def)
    moreover have "requestId (rqd s) \<noteq> fid" using foreign(7) fr(1) by (simp add: k_frame_def)
    ultimately show ?thesis using ProcessHeader_foreign [OF _ foreign(5,6,8,9,10,3,4)]
      unfolding hh(1) header_of_bytes_inverse by auto
  qed
qed

definition filled :: "reader_ctx \<Rightarrow> byte list \<Rightarrow> st \<Rightarrow> bool" where
  "filled K cs s \<longleftrightarrow> (if cs = [] then isClosed (strm s) \<and> stream_ended K s
     else stream_yields K s cs \<and> rdNext (strm s) < stop (strm s))"

lemma stream_ended_close:
  "stream_ended K s \<Longrightarrow> stream_ended K (upd (\<lambda>t. t\<lparr>wrNext := rdNext t, stop := rdNext t, isClosed := True\<rparr>) s)"
  by (auto simp: stream_ended_def k_frame_def rd_inv_def unread_def buffered_def Let_def)

lemma yields_nonempty_window:
  "stream_yields K s cs \<Longrightarrow> rdNext (strm s) < stop (strm s) \<Longrightarrow> cs \<noteq> []"
  by (auto simp: stream_yields_def window_def sub_bytes_def k_frame_def rd_inv_def Let_def)

lemma content_stage:
  assumes "k_ok K" "loop_state K hb s cs" "rdNext (strm s) < buffStop (strm s)"
  shows "(\<exists>s'. fill_content s = Return s' \<and> filled K cs s')
    \<or> (\<exists>s'. fill_content s = Continue s' \<and> loop_state K hb s' cs \<and> length (unread s') < length (unread s))
    \<or> (\<exists>s'. fill_content s = Proceed s' \<and> loop_state K hb s' cs \<and> contentLen (strm s') = 0
         \<and> length (unread s') \<le> length (unread s)
         \<and> (rdNext (strm s') < buffStop (strm s') \<or> length (unread s') < length (unread s)))"
proof (cases "contentLen (strm s) = 0")
  case True
  then have "fill_content s = Proceed s" by (simp add: fill_content_def)
  then show ?thesis using True assms by blast
next
  case pos: False
  show ?thesis
  proof (cases "skip (strm s)")
    case True
    then show ?thesis using content_skip [OF assms(2,3)] pos less_imp_le by blast
  next
    case False
    then show ?thesis
      using content_deliver [OF assms] pos yields_nonempty_window by (fastforce simp: filled_def)
  qed
qed

lemma continue_pending:
  "fill_content s = Continue s' \<Longrightarrow> 0 < contentLen (strm s')"
  "fill_padding s = Continue s' \<Longrightarrow> 0 < paddingLen (strm s')"
  by (auto simp: fill_content_def fill_padding_def Let_def split: if_splits)

lemma advance_stage:
  assumes K: "k_ok K" and ls: "loop_state K hb s cs" and ne: "unread s \<noteq> []"
  shows "(\<exists>s'. fill_advance s = Return s' \<and> filled K cs s')
    \<or> (\<exists>s'. fill_advance s = Continue s' \<and> loop_state K hb s' cs \<and> length (unread s') < length (unread s)
         \<and> unread s' \<noteq> [])
    \<or> (\<exists>s'. fill_advance s = Proceed s' \<and> loop_state K hb s' cs \<and> contentLen (strm s') = 0
         \<and> paddingLen (strm s') = 0 \<and> length (unread s') \<le> length (unread s)
         \<and> (rdNext (strm s') < buffStop (strm s') \<or> length (unread s') < length (unread s)))"
proof -
  obtain s1 where s1: "fill_read s = Proceed s1" "loop_state K hb s1 cs" "unread s1 = unread s"
      "rdNext (strm s1) < buffStop (strm s1)"
    using read_stage [OF ls ne] by blast
  from content_stage [OF K s1(2,4)] consider
      (ret) s' where "fill_content s1 = Return s'" "filled K cs s'"
    | (cont) s' where "fill_content s1 = Continue s'" "loop_state K hb s' cs" "length (unread s') < length (unread s)"
    | (go) s2 where "fill_content s1 = Proceed s2" "loop_state K hb s2 cs" "contentLen (strm s2) = 0"
        "length (unread s2) \<le> length (unread s)"
        "rdNext (strm s2) < buffStop (strm s2) \<or> length (unread s2) < length (unread s)"
    unfolding s1(3) by blast
  then show ?thesis
  proof cases
    case ret
    then show ?thesis using s1(1) by (simp add: fill_advance_def)
  next
    case cont
    then have "unread s' \<noteq> []" using loop_state_unread continue_pending(1) by blast
    then show ?thesis using cont s1(1) by (simp add: fill_advance_def)
  next
    case go
    have "fill_padding s2 = Continue s' \<Longrightarrow> loop_state K hb s' cs \<Longrightarrow> unread s' \<noteq> []" for s'
      using loop_state_unread continue_pending(2) by blast
    with padding_stage [OF go(2,3,5,4)] show ?thesis
      using s1(1) go(1) by (auto simp: fill_advance_def)
  qed
qed

lemma dispatch_stage:
  assumes pr: "processed K cs status s5" and un: "unread s5 = unread s4"
    and again: "\<And>u. loop_state K [] u cs \<Longrightarrow> unread u = unread s4 \<Longrightarrow> \<exists>s'. loop u = Inr s' \<and> filled K cs s'"
  shows "\<exists>s'. fill_dispatch loop status (leave_header s5) = Inr s' \<and> filled K cs s'"
proof -
  have un': "unread (leave_header s5) = unread s4"
    "unread (upd (\<lambda>t. t\<lparr>skip := True\<rparr>) (leave_header s5)) = unread s4"
    using un by (simp_all add: unread_def buffered_def)
  from pr [unfolded processed_def] show ?thesis
  proof (elim disjE conjE)
    assume "cs = []" "status = STREAM_RECORD" "contentLen (strm s5) = 0" "stream_ended K (leave_header s5)"
    then show ?thesis using stream_ended_close by (simp add: filled_def fill_dispatch_def)
  next
    assume "status = STREAM_RECORD" "contentLen (strm s5) \<noteq> 0" "loop_state K [] (leave_header s5) cs"
    then show ?thesis using again un' by (simp add: fill_dispatch_def)
  next
    assume "status = SKIP" "loop_state K [] (upd (\<lambda>t. t\<lparr>skip := True\<rparr>) (leave_header s5)) cs"
    then show ?thesis using again un' by (simp add: fill_dispatch_def status_defs)
  qed
qed

lemma FillBuffLoop_fills:
  assumes K: "k_ok K" "\<not> k_eor K" and "loop_state K hb s cs" "length (unread s) < fuel"
  shows "\<exists>s'. FillBuffLoop (ProcessHeader fill) fuel hb s = Inr s' \<and> filled K cs s'"
  using assms(3,4)
proof (induction fuel arbitrary: hb s)
  case 0
  then show ?case by simp
next
  case (Suc fuel)
  have again: "\<exists>s'. FillBuffLoop (ProcessHeader fill) fuel hb' u = Inr s' \<and> filled K cs s'"
    if "loop_state K hb' u cs" "length (unread u) < length (unread s)" for hb' u
    using Suc.IH [OF that(1)] that(2) Suc.prems(2) by simp
  from advance_stage [OF K(1) Suc.prems(1)] loop_state_unread [OF Suc.prems(1)] K(2) consider
      (ret) s' where "fill_advance s = Return s'" "filled K cs s'"
    | (cont) s' where "fill_advance s = Continue s'" "loop_state K hb s' cs" "length (unread s') < length (unread s)"
    | (go) s3 where "fill_advance s = Proceed s3" "loop_state K hb s3 cs" "contentLen (strm s3) = 0"
        "paddingLen (strm s3) = 0" "length (unread s3) \<le> length (unread s)"
        "rdNext (strm s3) < buffStop (strm s3) \<or> length (unread s3) < length (unread s)"
    by blast
  then show ?case
  proof cases
    case go
    obtain hb' s4 where fh: "fill_header hb s3 = (hb', s4)" by fastforce
    note hs = header_stage [OF go(2,3,4) fh]
    have lt: "length (unread s4) < length (unread s)" using hs(7,8) go(5,6) by linarith
    have noeor: "\<not> eorStop (strm s3)" using go(2) K(2) by (simp add: loop_state_def k_frame_def)
    show ?thesis
    proof (cases "length hb' < 8")
      case True
      have "loop_state K hb' s4 cs"
        by (rule loop_stateI [where c = "[]" and p = "[]" and w = "unread s4" and cs' = cs])
          (use hs True in simp_all)
      from again [OF this lt] show ?thesis using go(1) noeor fh True by (simp add: FillBuffLoop.simps(2))
    next
      case False
      then have "length hb' = 8" using hs(6) by simp
      from process_step [OF K hs(1,2,5) this] obtain status s5 where
        ph: "ProcessHeader fill (header_of_bytes hb') (enter_header s4) = Inr (status, s5)"
        and un: "unread s5 = unread s4" and pr: "processed K cs status s5" by blast
      from dispatch_stage [OF pr un again] lt show ?thesis
        using go(1) noeor fh False ph by (simp add: FillBuffLoop.simps(2))
    qed
  qed (use again in \<open>simp_all add: FillBuffLoop.simps(2)\<close>)
qed

section \<open>The interpretations\<close>

lemma stream_yields_loop:
  assumes "stream_yields K s cs" "rdNext (strm s) = stop (strm s)"
  shows "loop_state K [] s cs" "unread s \<noteq> []"
proof -
  have "window (strm s) = []" using assms(2) by (simp add: window_def)
  then show "loop_state K [] s cs" "unread s \<noteq> []"
    using assms(1) by (auto simp: stream_yields_def loop_state_def)
qed

lemma FillBuffProc_fills:
  assumes "stream_yields K s cs" "rdNext (strm s) = stop (strm s)" "\<not> k_eor K"
  shows "\<exists>s'. FillBuffProc s = Inr s' \<and> filled K cs s'"
proof -
  have K: "k_ok K" using assms(1) by (simp add: stream_yields_def)
  from FillBuffLoop_fills [OF K assms(3) stream_yields_loop(1) [OF assms(1,2)]] show ?thesis
    by (simp add: FillBuffProc_def)
qed

lemma window_advance:
  "rdNext t + m \<le> stop t \<Longrightarrow> window (t\<lparr>rdNext := rdNext t + m\<rparr>) = drop m (window t)"
  by (simp add: window_def sub_bytes_def drop_take add.commute)

lemma stream_yields_advance:
  assumes "stream_yields K s cs" "rdNext (strm s) + m \<le> stop (strm s)"
  shows "stream_yields K (upd (\<lambda>t. t\<lparr>rdNext := rdNext t + m\<rparr>) s) (drop m cs)"
proof -
  let ?f = "\<lambda>t. t\<lparr>rdNext := rdNext t + m\<rparr>"
  from assms(1) obtain c p w cs' where y: "k_ok K" "k_frame K s" "\<not> isClosed (strm s)" "\<not> skip (strm s)"
      "stop (strm s) \<le> buffStop (strm s)" "unread s = window (strm s) @ c @ p @ w"
      "length c = contentLen (strm s)" "length p = paddingLen (strm s)" "k_records K False w cs'"
      "p @ w \<noteq> []" "cs = window (strm s) @ c @ cs'" "k_eor K \<longrightarrow> p = k_body K"
    unfolding stream_yields_def by blast
  have inv: "rd_inv s" using y(2) by (simp add: k_frame_def)
  have m: "rdNext (strm s) + m \<le> buffStop (strm s)" using assms(2) y(5) by simp
  note mv = unread_moved [OF inv m, of ?f, simplified]
  have "stop (strm s) \<le> length (buff (strm s))" using inv y(5) by (auto simp: rd_inv_def Let_def)
  then have lw: "m \<le> length (window (strm s))" using assms(2) by (simp add: window_def)
  show ?thesis
    by (rule stream_yieldsI [OF y(1) k_frame_upd [OF y(2) mv(1)] _ _ _ _ _ _ _ y(9,10), of c])
      (use y assms(2) mv(2) lw in \<open>simp_all add: window_advance\<close>)
qed

lemma stream_yields_mark: "stream_yields K (mark_unget s) cs = stream_yields K s cs"
proof -
  have "unread (mark_unget s) = unread s" "window (strm (mark_unget s)) = window (strm s)"
    "k_frame K (mark_unget s) = k_frame K s"
    by (simp_all add: mark_unget_def unread_def buffered_def window_def k_frame_def rd_inv_def Let_def)
  moreover have "isClosed (strm (mark_unget s)) = isClosed (strm s)" "skip (strm (mark_unget s)) = skip (strm s)"
    "rdNext (strm (mark_unget s)) = rdNext (strm s)" "stop (strm (mark_unget s)) = stop (strm s)"
    "buffStop (strm (mark_unget s)) = buffStop (strm s)" "contentLen (strm (mark_unget s)) = contentLen (strm s)"
    "paddingLen (strm (mark_unget s)) = paddingLen (strm s)"
    by (simp_all add: mark_unget_def)
  ultimately show ?thesis by (simp only: stream_yields_def)
qed

lemma stream_yields_laws:
  assumes y: "stream_yields K s cs"
  shows "isReader (strm s) \<and> \<not> isClosed (strm s) \<and> rdNext (strm s) \<le> stop (strm s)
      \<and> stop (strm s) \<le> length (buff (strm s))"
    and "\<exists>ds. cs = window (strm s) @ ds" and "length cs \<le> length (unread s)"
  using y by (auto simp: stream_yields_def k_frame_def rd_inv_def k_records_def Let_def
      dest!: records_length split: if_splits)

text \<open>\<open>FillBuffProc\<close> delivers the content of the records of its stream.\<close>

interpretation stream_source: byte_source FillBuffProc
  "\<lambda>s cs. stream_yields K s cs \<and> \<not> k_eor K" "stream_ended K" for K
proof (unfold_locales, goal_cases)
  case (1 s cs) then show ?case using stream_yields_laws(1) by blast
next
  case (2 s cs) then show ?case using stream_yields_laws(2) by blast
next
  case (3 s cs) then show ?case using stream_yields_laws(3) by blast
next
  case (4 s cs m) then show ?case using stream_yields_advance by blast
next
  case (5 s cs) then show ?case by (simp add: stream_yields_mark)
next
  case (6 s cs) then show ?case using FillBuffProc_fills by (fastforce simp: filled_def)
next
  case (7 s) then show ?case using FillBuffProc_fills by (fastforce simp: filled_def)
qed

text \<open>With \<open>eorStop\<close> set, the loop delivers the rest of the current record and then closes, and
  \<open>ProcessHeader\<close> is not called.\<close>

lemma eor_close:
  assumes "k_ok K" "k_eor K" "loop_state K [] s cs" "contentLen (strm s) = 0" "paddingLen (strm s) = 0"
  shows "filled K cs (upd (\<lambda>t. t\<lparr>stop := rdNext t, isClosed := True\<rparr>) s)"
  using assms(3)
proof (cases rule: loop_stateE)
  case (1 c p w cs')
  let ?u = "upd (\<lambda>t. t\<lparr>stop := rdNext t, isClosed := True\<rparr>) s"
  have "rd_inv ?u" using 1(1) by (simp add: rd_inv_def Let_def)
  then have "k_frame K ?u" using k_frame_upd [OF 1(2)] by simp
  moreover have "unread ?u = unread s" by (simp add: unread_def buffered_def)
  moreover have "k_pad K = 0" using assms(1,2) by (simp add: k_ok_def)
  moreover have "\<not> skip (strm s)" "cs = []" "unread s = k_tail K"
    using assms(2,4,5) 1 by (simp_all add: k_records_def)
  ultimately show ?thesis using assms(4,5) by (simp add: filled_def stream_ended_def)
qed

lemma FillBuffLoop_eor:
  assumes K: "k_ok K" "k_eor K" and "loop_state K [] s cs" "unread s \<noteq> []" "length (unread s) < fuel"
  shows "\<exists>s'. FillBuffLoop ph fuel [] s = Inr s' \<and> filled K cs s'"
  using assms(3-5)
proof (induction fuel arbitrary: s)
  case 0
  then show ?case by simp
next
  case (Suc fuel)
  have close: "\<exists>u. FillBuffLoop ph (Suc fuel) [] s = Inr u \<and> filled K cs u"
    if "fill_advance s = Proceed s'" "loop_state K [] s' cs" "contentLen (strm s') = 0"
      "paddingLen (strm s') = 0" for s'
  proof -
    have "eorStop (strm s')" using that(2) K(2) by (simp add: loop_state_def k_frame_def)
    then show ?thesis using that(1) eor_close [OF K that(2-4)] by (simp add: FillBuffLoop.simps(2))
  qed
  from advance_stage [OF K(1) Suc.prems(1,2)] consider
      (ret) s' where "fill_advance s = Return s'" "filled K cs s'"
    | (cont) s' where "fill_advance s = Continue s'" "loop_state K [] s' cs"
        "length (unread s') < length (unread s)" "unread s' \<noteq> []"
    | (go) s' where "fill_advance s = Proceed s'" "loop_state K [] s' cs" "contentLen (strm s') = 0"
        "paddingLen (strm s') = 0"
    by blast
  then show ?case
  proof cases
    case ret
    then show ?thesis by (simp add: FillBuffLoop.simps(2))
  next
    case cont
    from Suc.IH [OF cont(2,4)] cont(3) Suc.prems(3) show ?thesis
      using cont(1) by (simp add: FillBuffLoop.simps(2))
  next
    case go
    then show ?thesis by (rule close)
  qed
qed

lemma FillBuffProc_eor_fills:
  assumes "stream_yields K s cs" "rdNext (strm s) = stop (strm s)" "k_eor K"
  shows "\<exists>s'. FillBuffProc_eor s = Inr s' \<and> filled K cs s'"
proof -
  have K: "k_ok K" using assms(1) by (simp add: stream_yields_def)
  from FillBuffLoop_eor [OF K assms(3) stream_yields_loop [OF assms(1,2)]] show ?thesis
    by (simp add: FillBuffProc_eor_def)
qed

interpretation body_source: byte_source FillBuffProc_eor
  "\<lambda>s cs. stream_yields K s cs \<and> k_eor K" "stream_ended K" for K
proof (unfold_locales, goal_cases)
  case (1 s cs) then show ?case using stream_yields_laws(1) by blast
next
  case (2 s cs) then show ?case using stream_yields_laws(2) by blast
next
  case (3 s cs) then show ?case using stream_yields_laws(3) by blast
next
  case (4 s cs m) then show ?case using stream_yields_advance by blast
next
  case (5 s cs) then show ?case by (simp add: stream_yields_mark)
next
  case (6 s cs) then show ?case using FillBuffProc_eor_fills by (fastforce simp: filled_def)
next
  case (7 s) then show ?case using FillBuffProc_eor_fills by (fastforce simp: filled_def)
qed

section \<open>Headers and the BEGIN_REQUEST record\<close>

lemma fill_advance_idle:
  assumes "rd_inv s" "contentLen (strm s) = 0" "paddingLen (strm s) = 0" "unread s \<noteq> []"
  obtains s1 where "fill_advance s = Proceed s1" "rd_inv s1" "unread s1 = unread s"
    "rdNext (strm s1) < buffStop (strm s1)" "same_output (sys s) (sys s1)" "rqd s1 = rqd s"
    "control (strm s1) = control (strm s)"
proof -
  obtain s1 where s1: "fill_read s = Proceed s1"
    using fill_read_cases [OF assms(1)] assms(4) by blast
  note p = fill_read_Proceed [OF assms(1) s1]
  then have c: "control (strm s1) = control (strm s)" by simp
  have "fill_advance s = Proceed s1"
    using s1 assms(2,3) control_fields [OF c] by (simp add: fill_advance_def fill_content_def fill_padding_def)
  then show ?thesis using p by (intro that [of s1]) simp_all
qed

text \<open>Between records the loop collects the eight bytes of a header, however they arrive, and hands
  them to the header processor.\<close>

lemma FillBuffLoop_header:
  assumes "rd_inv s" "contentLen (strm s) = 0" "paddingLen (strm s) = 0" "\<not> eorStop (strm s)"
    "hb @ unread s = header_bytes h @ v" "length hb < 8" "length (unread s) < fuel"
  shows "\<exists>s4 fuel'. FillBuffLoop ph fuel hb s = bindr (ph h (enter_header s4)) (\<lambda>(status, s5).
           fill_dispatch (FillBuffLoop ph fuel' []) status (leave_header s5))
     \<and> rd_inv s4 \<and> unread s4 = v \<and> control (strm s4) = control (strm s) \<and> rqd s4 = rqd s
     \<and> same_output (sys s) (sys s4) \<and> length v < fuel'"
  using assms
proof (induction fuel arbitrary: hb s)
  case 0
  then show ?case by simp
next
  case (Suc fuel)
  have "length hb < length (hb @ unread s)" unfolding Suc.prems(5) using Suc.prems(6) by simp
  then have "unread s \<noteq> []" by auto
  from fill_advance_idle [OF Suc.prems(1,2,3) this] obtain s1 where
    s1: "fill_advance s = Proceed s1" "rd_inv s1" "unread s1 = unread s" "rdNext (strm s1) < buffStop (strm s1)"
      "same_output (sys s) (sys s1)" "rqd s1 = rqd s" "control (strm s1) = control (strm s)" by blast
  let ?n = "min (8 - length hb) (buffStop (strm s1) - rdNext (strm s1))"
  let ?f = "\<lambda>t. t\<lparr>rdNext := rdNext t + ?n\<rparr>"
  have n: "rdNext (strm s1) + ?n \<le> buffStop (strm s1)" "0 < ?n" using s1(4) Suc.prems(6) by simp_all
  note mv = unread_moved [OF s1(2) n(1), of ?f, simplified]
  define s2 where "s2 = upd ?f s1"
  define hb' where "hb' = hb @ take ?n (unread s)"
  have fh: "fill_header hb s1 = (hb', s2)"
    using mv(3) by (simp add: fill_header_def Let_def s1(3) s2_def hb'_def)
  have c1: "eorStop (strm s1) = eorStop (strm s)" using control_fields [OF s1(7)] by simp
  have un: "unread s2 = drop ?n (unread s)" "length (unread s2) < length (unread s)"
    using mv(2,5) n(2) by (simp_all add: s2_def s1(3))
  have c2: "control (strm s2) = control (strm s)" using s1(7) by (simp add: s2_def control_def)
  have s2: "rd_inv s2" "rqd s2 = rqd s" "same_output (sys s) (sys s2)"
    using mv(1) s1(5,6) by (simp_all add: s2_def)
  have hu: "hb' @ unread s2 = header_bytes h @ v" using Suc.prems(5) un(1) by (simp add: hb'_def)
  show ?case
  proof (cases "length hb' < 8")
    case True
    have "FillBuffLoop ph (Suc fuel) hb s = FillBuffLoop ph fuel hb' s2"
      using s1(1) c1 Suc.prems(4) fh True by (simp add: FillBuffLoop.simps(2))
    with Suc.IH [OF s2(1) _ _ _ hu True] show ?thesis
      using Suc.prems(2,3,4,7) control_fields [OF c2] un(2) c2 s2 same_output_trans [OF s2(3)] by auto
  next
    case False
    then have "length hb' = 8" using Suc.prems(6) unfolding hb'_def by simp
    note h = header_split [OF this hu]
    have "FillBuffLoop ph (Suc fuel) hb s = bindr (ph h (enter_header s2)) (\<lambda>(status, s5).
           fill_dispatch (FillBuffLoop ph fuel []) status (leave_header s5))"
      using s1(1) c1 Suc.prems(4) fh False h(1) by (simp add: FillBuffLoop.simps(2))
    moreover have "length v < fuel" using un(2) h(2) Suc.prems(7) by simp
    ultimately show ?thesis using s2 h(2) c2 by blast
  qed
qed


text \<open>The body of a record is read through the stream, up to its last byte.\<close>

definition body_ctx :: "st \<Rightarrow> byte list \<Rightarrow> byte list \<Rightarrow> reader_ctx" where
  "body_ctx s p w = \<lparr>k_rqd = rqd s, k_sys = sys s, k_errno = FCGI_errno (strm s), k_type = dtype (strm s),
     k_pad = 0, k_tail = w, k_eor = True, k_body = p\<rparr>"

lemma body_yields:
  assumes "rd_inv s" "\<not> isClosed (strm s)" "\<not> skip (strm s)" "eorStop (strm s)" "stop (strm s) = rdNext (strm s)"
    "unread s = c @ p @ w" "length c = contentLen (strm s)" "length p = paddingLen (strm s)" "p @ w \<noteq> []"
  shows "stream_yields (body_ctx s p w) s c"
proof -
  have "window (strm s) = []" using assms(5) by (simp add: window_def)
  moreover have "k_frame (body_ctx s p w) s" using assms(1,4) by (simp add: k_frame_def body_ctx_def)
  moreover have "rdNext (strm s) \<le> buffStop (strm s)" using assms(1) by (simp add: rd_inv_def Let_def)
  ultimately show ?thesis
    using assms by (intro stream_yieldsI [where c = c and p = p and w = w and cs' = "[]"])
      (simp_all add: k_ok_def body_ctx_def k_records_def)
qed

lemma body_left:
  assumes "stream_yields (body_ctx s p w) u []"
  shows "rd_inv u \<and> rqd u = rqd s \<and> same_output (sys s) (sys u) \<and> unread u = p @ w \<and> contentLen (strm u) = 0
    \<and> paddingLen (strm u) = length p \<and> \<not> isClosed (strm u) \<and> \<not> skip (strm u)
    \<and> FCGI_errno (strm u) = FCGI_errno (strm s) \<and> dtype (strm u) = dtype (strm s)"
  using assms by (auto simp: stream_yields_def k_frame_def k_records_def body_ctx_def)

lemma body_read_exactly:
  assumes "stream_yields (body_ctx s p w) u c"
  shows "\<exists>u'. FCGX_GetStr FillBuffProc_eor (int (length c)) u = Inr (c, u') \<and> stream_yields (body_ctx s p w) u' []"
proof -
  have "stream_yields (body_ctx s p w) u c \<and> k_eor (body_ctx s p w)" using assms by (simp add: body_ctx_def)
  from body_source.GetStr_yields [OF this, of "length c"] show ?thesis
    by (auto simp: body_source.left_at_def)
qed

text \<open>What a connection looks like between two records, when no request is being processed.\<close>

definition idle :: "st \<Rightarrow> bool" where
  "idle s \<longleftrightarrow> rd_inv s \<and> contentLen (strm s) = 0 \<and> paddingLen (strm s) = 0 \<and> \<not> eorStop (strm s)
     \<and> \<not> isClosed (strm s) \<and> \<not> skip (strm s)"

definition request_of :: "int \<Rightarrow> FCGI_BeginRequestBody \<Rightarrow> FCGX_ReqData \<Rightarrow> FCGX_ReqData" where
  "request_of rid b r = r\<lparr>requestId := rid, keepConnection := (b_flags b AND FCGI_KEEP_CONN \<noteq> 0),
     role := be16 (b_roleB1 b) (b_roleB0 b), isBeginProcessed := True\<rparr>"

lemma begin_body_inverse:
  "length (b_reserved b) = 5 \<Longrightarrow> length (begin_body_bytes b) = 8"
  "begin_body_of_bytes (begin_body_bytes b) = b"
  by (simp_all add: begin_body_bytes_def begin_body_of_bytes_def)

lemma ProcessBeginRecord_accepts:
  assumes "rd_inv s" "\<not> isClosed (strm s)" "\<not> skip (strm s)" "eorStop (strm s)" "stop (strm s) = rdNext (strm s)"
    "contentLen (strm s) = 8" "paddingLen (strm s) = length p" "unread s = begin_body_bytes b @ p @ w" "p @ w \<noteq> []"
    "length (b_reserved b) = 5" "\<not> isBeginProcessed (rqd s)" "rid \<noteq> 0"
  shows "\<exists>s'. ProcessBeginRecord FillBuffProc_eor rid s = Inr (BEGIN_RECORD, s') \<and> rd_inv s' \<and> unread s' = p @ w
    \<and> rqd s' = request_of rid b (rqd s) \<and> same_output (sys s) (sys s') \<and> contentLen (strm s') = 0
    \<and> paddingLen (strm s') = length p \<and> \<not> skip (strm s') \<and> FCGI_errno (strm s') = FCGI_errno (strm s)"
proof -
  define s1 where "s1 = s\<lparr>rqd := (rqd s)\<lparr>requestId := rid\<rparr>\<rparr>"
  have len: "length (begin_body_bytes b) = 8" using begin_body_inverse(1) [OF assms(10)] .
  have u1: "unread s1 = unread s" "rd_inv s1"
    using assms(1) by (simp_all add: s1_def unread_def rd_inv_def)
  have "stream_yields (body_ctx s1 p w) s1 (begin_body_bytes b)"
    by (rule body_yields) (use assms len u1 in \<open>simp_all add: s1_def\<close>)
  from body_read_exactly [OF this] obtain s2 where
    s2: "FCGX_GetStr FillBuffProc_eor 8 s1 = Inr (begin_body_bytes b, s2)" "stream_yields (body_ctx s1 p w) s2 []"
    using len by auto
  note left = body_left [OF s2(2)]
  define s3 where "s3 = s2\<lparr>rqd := request_of rid b (rqd s)\<rparr>"
  have "ProcessBeginRecord FillBuffProc_eor rid s = Inr (BEGIN_RECORD, s3)"
    using assms(6,11,12) s2(1) len left
    by (simp add: ProcessBeginRecord_def s1_def [symmetric] begin_body_inverse(2) s3_def request_of_def) (simp add: s1_def)
  moreover have "unread s3 = unread s2" "rd_inv s3"
    using left by (simp_all add: s3_def unread_def rd_inv_def request_of_def s1_def)
  ultimately show ?thesis using left by (simp add: s3_def s1_def)
qed

lemma FillBuffLoop_begin:
  assumes "idle s" "unread s = rec_bytes FCGI_BEGIN_REQUEST rid (begin_body_bytes b) p @ w" "p @ w \<noteq> []"
    "length (b_reserved b) = 5" "length p \<le> 255" "0 < rid" "rid \<le> 65535" "\<not> isBeginProcessed (rqd s)"
    "length (unread s) < fuel"
  shows "\<exists>s'. FillBuffLoop (ProcessHeader FillBuffProc_eor) fuel [] s = Inr s' \<and> rd_inv s' \<and> unread s' = p @ w
    \<and> rqd s' = request_of rid b (rqd s) \<and> same_output (sys s) (sys s') \<and> contentLen (strm s') = 0
    \<and> paddingLen (strm s') = length p \<and> \<not> skip (strm s') \<and> \<not> eorStop (strm s') \<and> \<not> isClosed (strm s')
    \<and> FCGI_errno (strm s') = FCGI_errno (strm s)"
proof -
  let ?h = "header_for FCGI_BEGIN_REQUEST rid 8 (length p)" and ?ph = "ProcessHeader FillBuffProc_eor"
  have hu: "[] @ unread s = header_bytes ?h @ begin_body_bytes b @ p @ w"
    using assms(2,4) by (simp add: rec_bytes_def begin_body_inverse(1))
  from assms(1) have id: "rd_inv s" "contentLen (strm s) = 0" "paddingLen (strm s) = 0" "\<not> eorStop (strm s)"
    "\<not> isClosed (strm s)" "\<not> skip (strm s)" by (simp_all add: idle_def)
  from FillBuffLoop_header [OF id(1-4) hu _ assms(9), of ?ph]
  obtain s4 f where s4: "FillBuffLoop ?ph fuel [] s = bindr (?ph ?h (enter_header s4)) (\<lambda>(status, s5).
           fill_dispatch (FillBuffLoop ?ph f []) status (leave_header s5))" "rd_inv s4"
      "unread s4 = begin_body_bytes b @ p @ w" "control (strm s4) = control (strm s)" "rqd s4 = rqd s"
      "same_output (sys s) (sys s4)"
    by auto
  note c = control_fields [OF s4(4)]
  have inv: "rd_inv (begun 8 (length p) s4)" using s4(2) by (simp add: begun_def rd_inv_def Let_def)
  have b4: "isClosed (strm (begun 8 (length p) s4)) = isClosed (strm s)" "eorStop (strm (begun 8 (length p) s4))"
    "stop (strm (begun 8 (length p) s4)) = rdNext (strm (begun 8 (length p) s4))"
    "rqd (begun 8 (length p) s4) = rqd s" "sys (begun 8 (length p) s4) = sys s4"
    "FCGI_errno (strm (begun 8 (length p) s4)) = FCGI_errno (strm s)"
    using c s4(5) by (simp_all add: begun_def)
  from ProcessBeginRecord_accepts [OF inv _ _ b4(2,3), of p b w rid]
  obtain s5 where s5: "ProcessBeginRecord FillBuffProc_eor rid (begun 8 (length p) s4) = Inr (BEGIN_RECORD, s5)"
    "rd_inv s5" "unread s5 = p @ w" "rqd s5 = request_of rid b (rqd s)" "same_output (sys s4) (sys s5)"
    "contentLen (strm s5) = 0" "paddingLen (strm s5) = length p" "\<not> skip (strm s5)" "FCGI_errno (strm s5) = FCGI_errno (strm s)"
    using b4 s4(3) c id assms(3,4,6,8) by auto
  have "?ph ?h (enter_header s4) = ProcessBeginRecord FillBuffProc_eor rid (begun 8 (length p) s4)"
    using assms(5-7) by (simp add: ProcessHeader_def header_for_fields Let_def begun_def FCGI_BEGIN_REQUEST_def)
  then have "FillBuffLoop ?ph fuel [] s = Inr (leave_header s5)"
    using s4(1) s5(1) by (simp add: fill_dispatch_def status_defs)
  moreover have "rd_inv (leave_header s5)" "unread (leave_header s5) = p @ w"
    using s5(2,3) by (simp_all add: rd_inv_def unread_def buffered_def Let_def)
  ultimately show ?thesis using s5(4-9) same_output_trans [OF s4(6)] by simp
qed

lemma FillBuffProc_begin:
  assumes "idle s" "unread s = rec_bytes FCGI_BEGIN_REQUEST rid (begin_body_bytes b) p @ w" "p @ w \<noteq> []"
    "length (b_reserved b) = 5" "length p \<le> 255" "0 < rid" "rid \<le> 65535" "\<not> isBeginProcessed (rqd s)"
  shows "\<exists>s'. FillBuffProc s = Inr s' \<and> rd_inv s' \<and> unread s' = p @ w
    \<and> rqd s' = request_of rid b (rqd s) \<and> same_output (sys s) (sys s') \<and> contentLen (strm s') = 0
    \<and> paddingLen (strm s') = length p \<and> \<not> skip (strm s') \<and> \<not> eorStop (strm s') \<and> \<not> isClosed (strm s')
    \<and> FCGI_errno (strm s') = FCGI_errno (strm s)"
  using FillBuffLoop_begin [OF assms, of "Suc (length (unread s))"] by (simp add: FillBuffProc_def)

section \<open>The streams of a request\<close>

text \<open>\<open>SetReaderType\<close> points the reader at the next stream of the request.\<close>

definition stream_ctx :: "st \<Rightarrow> int \<Rightarrow> nat \<Rightarrow> byte list \<Rightarrow> reader_ctx" where
  "stream_ctx s ty pad tail = \<lparr>k_rqd = rqd s, k_sys = sys s, k_errno = FCGI_errno (strm s), k_type = ty,
     k_pad = pad, k_tail = tail, k_eor = False, k_body = []\<rparr>"

lemma stream_ctx_simps [simp]: "\<not> k_eor (stream_ctx s ty pad tail)"
  by (simp add: stream_ctx_def)

lemma SetReaderType_yields:
  assumes "rd_inv s" "records (requestId (rqd s)) ty pad tail (unread s) cs"
    "0 < requestId (rqd s)" "requestId (rqd s) \<le> 65535" "0 \<le> ty" "ty \<le> 255" "ty \<noteq> FCGI_BEGIN_REQUEST" "pad \<le> 255"
  shows "\<exists>s1. SetReaderType ty s = Inr s1 \<and> stream_yields (stream_ctx s ty pad tail) s1 cs"
proof -
  define s1 where "s1 = upd (\<lambda>t. t\<lparr>dtype := ty, eorStop := False, skip := False, contentLen := 0,
                        paddingLen := 0, wrNext := rdNext t, stop := rdNext t, isClosed := False\<rparr>) s"
  have rd: "isReader (strm s)" "rdNext (strm s) \<le> buffStop (strm s)" using assms(1) by (simp_all add: rd_inv_def Let_def)
  then have eq: "SetReaderType ty s = Inr s1" by (simp add: SetReaderType_def s1_def)
  have un: "unread s1 = unread s" "window (strm s1) = []" by (simp_all add: s1_def unread_def buffered_def window_def)
  have fr: "k_frame (stream_ctx s ty pad tail) s1"
    using assms(1) by (simp add: s1_def k_frame_def stream_ctx_def rd_inv_def Let_def)
  have ok: "k_ok (stream_ctx s ty pad tail)" using assms(3-8) by (simp add: k_ok_def stream_ctx_def)
  have "stream_yields (stream_ctx s ty pad tail) s1 cs"
    by (rule stream_yieldsI [OF ok fr, where c = "[]" and p = "[]" and w = "unread s" and cs' = cs])
      (use un rd assms(2) records_length [OF assms(2) [unfolded records_def]] in
        \<open>auto simp: s1_def k_records_def stream_ctx_def records_def\<close>)
  then show ?thesis using eq by blast
qed

lemma stream_ended_idle:
  assumes "stream_ended (stream_ctx s ty pad tail) u"
  shows "rd_inv u" "rqd u = rqd s" "unread u = tail" "same_output (sys s) (sys u)" "dtype (strm u) = ty"
    "FCGI_errno (strm u) = FCGI_errno (strm s)" "contentLen (strm u) = 0" "paddingLen (strm u) = pad"
  using assms by (simp_all add: stream_ended_def k_frame_def stream_ctx_def)

end
