(* ===== verification/Fcgi_Exchange.thy ===== *)
theory Fcgi_Exchange
  imports Fcgi_Writer_Correct Fcgi_Reader_Correct
begin

text \<open>
  The two ends of a connection: streams as \<open>NewStream\<close> creates them, and the fact that the records
  a writer sends are well-formed input of a reader of the same stream.
\<close>

section \<open>New streams\<close>

lemma NewStream_bufflen:
  fixes len reader ty w
  defines "t \<equiv> fst (NewStream len reader ty w)"
  shows "length (buff t) = bufflen t" "bufflen t mod 8 = 0" "24 \<le> bufflen t" "bufflen t \<le> 65536"
proof -
  define x where "x = nat (min (max len 32) (FCGI_MAX_LENGTH + 1))"
  have x: "32 \<le> x" "x \<le> 65536" "min (max len 32) (FCGI_MAX_LENGTH + 1) = int x"
    by (auto simp: x_def FCGI_MAX_LENGTH_def)
  define m where "m = 8 * ((x + 7) div 8)"
  have al: "AlignInt8 (of_int (int x)) = int m"
    unfolding m_def of_int_of_nat_eq by (rule AlignInt8_eq) (use x(2) in simp)
  have m: "32 \<le> m" "m \<le> 65536" "m mod 8 = 0" "(m - 8) mod 8 = 0"
    unfolding m_def using x(1,2) by presburger+
  have "bufflen t = (if AlignPtr8 (mallocs w (mallocCount w)) \<noteq> mallocs w (mallocCount w) then m - 8 else m)"
    and len: "length (buff t) = bufflen t"
    unfolding t_def NewStream_def Let_def x(3) al by (simp_all add: nat_diff_distrib')
  then show "length (buff t) = bufflen t" "bufflen t mod 8 = 0" "24 \<le> bufflen t" "bufflen t \<le> 65536"
    using m by auto
qed

lemma NewReader_idle:
  assumes "NewReader len ty w = (t, w')"
  shows "w' = w\<lparr>mallocCount := Suc (mallocCount w)\<rparr>" "dtype t = ty" "FCGI_errno t = 0" "buffered t = []"
    "idle \<lparr>strm = t, rqd = r, sys = x\<rparr>" "rdNext t = stop t"
proof -
  have t: "t = fst (NewStream len True ty w)" using assms by (simp add: NewReader_def)
  show "w' = w\<lparr>mallocCount := Suc (mallocCount w)\<rparr>" "dtype t = ty" "FCGI_errno t = 0" "rdNext t = stop t"
    using assms by (auto simp: NewReader_def NewStream_def Let_def)
  show "buffered t = []" using t by (simp add: NewStream_def Let_def buffered_def)
  have "length (buff t) = bufflen t" "0 < bufflen t" using NewStream_bufflen [of len True ty w] t by simp_all
  then show "idle \<lparr>strm = t, rqd = r, sys = x\<rparr>"
    using t by (simp add: idle_def rd_inv_def Let_def NewStream_def)
qed

lemma NewWriter_fresh:
  assumes "NewWriter len ty w = (t, w')" "writable (ipcFd r) x"
  shows "w' = w\<lparr>mallocCount := Suc (mallocCount w)\<rparr>"
    and "took_content \<lparr>strm = t, rqd = r, sys = x\<rparr> \<lparr>strm = t, rqd = r, sys = x\<rparr> []"
    and "dtype t = ty" "FCGI_errno t = 0" "\<not> isAnythingWritten t" "\<not> wasFCloseCalled t"
proof -
  have t: "t = fst (NewStream len False ty w)" using assms by (simp add: NewWriter_def)
  show "w' = w\<lparr>mallocCount := Suc (mallocCount w)\<rparr>" "dtype t = ty" "FCGI_errno t = 0"
    "\<not> isAnythingWritten t" "\<not> wasFCloseCalled t"
    using assms by (auto simp: NewWriter_def NewStream_def Let_def)
  have f: "isReader t = False" "isClosed t = False" "stop t = bufflen t" "wrNext t = 8" "rawWrite t = False"
    unfolding t by (simp_all add: NewStream_def Let_def FCGI_HEADER_LEN_def)
  have "length (buff t) = bufflen t" "bufflen t mod 8 = 0" "24 \<le> bufflen t" "bufflen t \<le> 65536"
    using NewStream_bufflen [of len False ty w] t by simp_all
  with f have "wr_inv \<lparr>strm = t, rqd = r, sys = x\<rparr>" by (simp add: wr_inv_def)
  then show "took_content \<lparr>strm = t, rqd = r, sys = x\<rparr> \<lparr>strm = t, rqd = r, sys = x\<rparr> []"
    using assms(2) f framed.none by (simp add: took_content_def writing_def content_def)
qed

section \<open>What is written can be read\<close>

lemma framed_records:
  "framed rid ty w cs \<Longrightarrow> records rid ty pad tail w' cs' \<Longrightarrow> records rid ty pad tail (w @ w') (cs @ cs')"
proof (induction arbitrary: w' cs' rule: framed.induct)
  case none
  then show ?case by simp
next
  case (rec w cs c k)
  have "records rid ty pad tail (rec_bytes ty rid c (replicate k 0) @ w') (c @ cs')"
    by (rule records_data [OF rec.prems rec.hyps(2)]) (use rec.hyps in simp_all)
  from rec.IH [OF this] show ?case by simp
qed

lemma closed_stream_records:
  "framed rid ty w cs \<Longrightarrow> records rid ty 0 tail (w @ header_bytes (header_for ty rid 0 0) @ tail) cs"
  using framed_records [OF _ records_eof] by fastforce

section \<open>A concrete exchange\<close>

definition sample_body :: "FCGI_BeginRequestBody" where
  "sample_body = \<lparr>b_roleB1 = 0, b_roleB0 = 1, b_flags = 1, b_reserved = [0, 0, 0, 0, 0]\<rparr>"

definition sample_stdin :: "byte list" where
  "sample_stdin = rec_bytes FCGI_STDIN 1 [65, 66, 67] [0, 0, 0, 0, 0] @ header_bytes (header_for FCGI_STDIN 1 0 0)"

definition sample_params :: "byte list" where
  "sample_params = rec_bytes FCGI_PARAMS 1 (pairs_bytes [([81], [82, 83])]) [] @ header_bytes (header_for FCGI_PARAMS 1 0 0) @ sample_stdin"

definition sample_wire :: "byte list" where
  "sample_wire = rec_bytes FCGI_BEGIN_REQUEST 1 (begin_body_bytes sample_body) [] @ sample_params"

lemma sample_records:
  "records 1 FCGI_STDIN 0 [] sample_stdin [65, 66, 67]"
  "records 1 FCGI_PARAMS 0 sample_stdin sample_params (pairs_bytes [([81], [82, 83])])"
proof -
  have "records 1 FCGI_STDIN 0 [] (rec_bytes FCGI_STDIN 1 [65, 66, 67] [0, 0, 0, 0, 0] @ (header_bytes (header_for FCGI_STDIN 1 0 0) @ []))
     ([65, 66, 67] @ [])"
    by (rule records_data, rule records_eof) simp_all
  then show "records 1 FCGI_STDIN 0 [] sample_stdin [65, 66, 67]" by (simp add: sample_stdin_def)
  have "records 1 FCGI_PARAMS 0 sample_stdin (rec_bytes FCGI_PARAMS 1 (pairs_bytes [([81], [82, 83])]) [] @
      (header_bytes (header_for FCGI_PARAMS 1 0 0) @ sample_stdin)) (pairs_bytes [([81], [82, 83])] @ [])"
    by (rule records_data, rule records_eof) (simp_all add: pairs_bytes_def pair_bytes_def length_field_def)
  then show "records 1 FCGI_PARAMS 0 sample_stdin sample_params (pairs_bytes [([81], [82, 83])])"
    by (simp add: sample_params_def)
qed

text \<open>A reader on a connection that delivers \<open>bs\<close> in two pieces.\<close>

definition sample_reader :: "byte list \<Rightarrow> st" where
  "sample_reader bs = \<lparr>strm = fst (NewReader 64 0 (sample_os [])),
     rqd = zero_reqData\<lparr>requestId := 1, ipcFd := 5, isBeginProcessed := True\<rparr>,
     sys = sample_os [RdBytes (take 3 bs), RdBytes (drop 3 bs)]\<rparr>"

lemma script_bytes_split: "3 < length bs \<Longrightarrow> script_bytes [RdBytes (take 3 bs), RdBytes (drop 3 bs)] = bs"
  by (subst script_bytes_RdBytes) (auto simp: script_bytes_RdBytes)

lemma sample_reader_facts:
  "rd_inv (sample_reader bs)" "requestId (rqd (sample_reader bs)) = 1"
  "3 < length bs \<Longrightarrow> unread (sample_reader bs) = bs"
proof -
  obtain t w where t: "NewReader 64 0 (sample_os []) = (t, w)" by fastforce
  from NewReader_idle(5) [OF t] show "rd_inv (sample_reader bs)" by (simp add: sample_reader_def t idle_def)
  show "requestId (rqd (sample_reader bs)) = 1" by (simp add: sample_reader_def)
  assume "3 < length bs"
  then have "incoming 5 (sample_os [RdBytes (take 3 bs), RdBytes (drop 3 bs)]) = bs"
    by (simp add: incoming_def sample_os_def sample_conn_def script_bytes_split)
  then show "unread (sample_reader bs) = bs" using NewReader_idle(4) [OF t] by (simp add: sample_reader_def t unread_def)
qed

lemma sample_stdin_read:
  "records (requestId (rqd (sample_reader sample_stdin))) FCGI_STDIN 0 [] (unread (sample_reader sample_stdin)) [65, 66, 67]"
proof -
  have "3 < length sample_stdin" by (simp add: sample_stdin_def rec_bytes_def)
  then show ?thesis using sample_records(1) by (simp add: sample_reader_facts)
qed

definition sample_req :: FCGX_ReqData where
  "sample_req = zero_reqData\<lparr>requestId := 1, ipcFd := 5, nWriters := 2, isBeginProcessed := True\<rparr>"

lemma sample_writable: "writable (ipcFd sample_req) (sample_os evs)"
  by (simp add: writable_def sample_os_def sample_conn_def sample_req_def is_short_write_def)

lemma sample_req_facts:
  "requestId sample_req = 1" "nWriters sample_req = 2" "ipcFd sample_req = 5" "sent (conns (sample_os []) 5) = []"
  by (simp_all add: sample_req_def sample_os_def sample_conn_def)

section \<open>Properties\<close>

lemma GetStr_records:
  assumes "rd_inv s" "records (requestId (rqd s)) ty pad tail (unread s) cs" "0 < requestId (rqd s)"
    "requestId (rqd s) \<le> 65535" "0 \<le> ty" "ty \<le> 255" "ty \<noteq> FCGI_BEGIN_REQUEST" "pad \<le> 255"
  shows "\<exists>s1 s2. SetReaderType ty s = Inr s1 \<and> FCGX_GetStr FillBuffProc (int n) s1 = Inr (take n cs, s2)
    \<and> FCGI_errno (strm s2) = FCGI_errno (strm s) \<and> rqd s2 = rqd s \<and> same_output (sys s) (sys s2)
    \<and> (length cs < n \<longrightarrow> isClosed (strm s2) \<and> unread s2 = tail)"
proof -
  let ?K = "stream_ctx s ty pad tail"
  obtain s1 where s1: "SetReaderType ty s = Inr s1" "stream_yields ?K s1 cs"
    using SetReaderType_yields [OF assms] by blast
  then have "stream_yields ?K s1 cs \<and> \<not> k_eor ?K" by simp
  from stream_source.GetStr_yields [OF this, of n] obtain s2 where
    s2: "FCGX_GetStr FillBuffProc (int n) s1 = Inr (take n cs, s2)" "stream_source.left_at ?K n cs s2" by blast
  from s2(2) have "stream_yields ?K s2 (drop n cs) \<or> stream_ended ?K s2"
    unfolding stream_source.left_at_def by (simp split: if_splits)
  then have "k_frame ?K s2" unfolding stream_yields_def stream_ended_def by blast
  moreover have "length cs < n \<Longrightarrow> isClosed (strm s2) \<and> unread s2 = tail"
    using s2(2) stream_ended_idle(3) unfolding stream_source.left_at_def by (simp, blast)
  ultimately show ?thesis using s1(1) s2(1) by (auto simp: k_frame_def stream_ctx_def)
qed

text \<open>C3. Whatever the sizes in which the bytes arrive, reading a stream with \<open>FCGX_GetStr\<close> returns what \<open>records\<close> says
  of its input: the content of the stream's own records without their headers and padding, past records of other requests that stand between
  them (of any type but \<open>FCGI_BEGIN_REQUEST\<close>, which the reader answers, and not the management records of request 0), except for the
  content of an own record that follows an empty record of another request, which is dropped. Of that the first \<open>n\<close> bytes
  are returned, or all of it and then the end of the stream, with the input that follows the stream left unread and no error set.\<close>

theorem stream_delivers_content:
  assumes "rd_inv s" "records (requestId (rqd s)) ty pad tail (unread s) cs" "0 < requestId (rqd s)"
    "requestId (rqd s) \<le> 65535" "0 \<le> ty" "ty \<le> 255" "ty \<noteq> FCGI_BEGIN_REQUEST" "pad \<le> 255"
  shows "\<exists>s1 s2. SetReaderType ty s = Inr s1 \<and> FCGX_GetStr FillBuffProc (int n) s1 = Inr (take n cs, s2)
    \<and> FCGI_errno (strm s2) = FCGI_errno (strm s) \<and> rqd s2 = rqd s \<and> same_output (sys s) (sys s2)
    \<and> (length cs < n \<longrightarrow> isClosed (strm s2) \<and> unread s2 = tail)"
  by (rule GetStr_records [OF assms])

theorem stream_delivers_content_witness:
  "\<exists>s1 s2. SetReaderType FCGI_STDIN (sample_reader sample_stdin) = Inr s1
    \<and> FCGX_GetStr FillBuffProc (int 5) s1 = Inr (take 5 [65, 66, 67], s2)
    \<and> FCGI_errno (strm s2) = FCGI_errno (strm (sample_reader sample_stdin))
    \<and> rqd s2 = rqd (sample_reader sample_stdin) \<and> same_output (sys (sample_reader sample_stdin)) (sys s2)
    \<and> (length [65 :: byte, 66, 67] < 5 \<longrightarrow> isClosed (strm s2) \<and> unread s2 = [])"
  by (rule stream_delivers_content [OF sample_reader_facts(1) sample_stdin_read])
    (simp_all add: sample_reader_facts fcgi_consts)

text \<open>C4. An empty record of another request (say the end of its own stream) makes the reader lose data: it leaves \<open>skip\<close> set in
  \<open>FillBuffProc\<close>, and the content \<open>c\<close> of the next record of the stream being read is thrown away. \<open>FCGX_GetStr\<close>
  returns what follows \<open>c\<close>, and neither an error nor the end of the stream tells the caller.\<close>

theorem empty_foreign_record_drops:
  assumes "rd_inv s" "unread s = rec_bytes ty' fid [] q @ rec_bytes ty (requestId (rqd s)) c p @ w"
    "records (requestId (rqd s)) ty pad tail w cs" "c \<noteq> []" "length c \<le> 65535" "length p \<le> 255" "length q \<le> 255"
    "0 < fid" "fid \<le> 65535" "fid \<noteq> requestId (rqd s)" "0 \<le> ty'" "ty' \<le> 255" "ty' \<noteq> FCGI_BEGIN_REQUEST"
    "0 < requestId (rqd s)" "requestId (rqd s) \<le> 65535" "0 \<le> ty" "ty \<le> 255" "ty \<noteq> FCGI_BEGIN_REQUEST" "pad \<le> 255"
  shows "\<exists>s1 s2. SetReaderType ty s = Inr s1 \<and> FCGX_GetStr FillBuffProc (int n) s1 = Inr (take n cs, s2)
    \<and> FCGI_errno (strm s2) = FCGI_errno (strm s)
    \<and> (length cs < n \<longrightarrow> isClosed (strm s2) \<and> unread s2 = tail)"
proof -
  have "records (requestId (rqd s)) ty pad tail (unread s) cs"
    unfolding assms(2) by (rule records_empty_foreign) (use assms in simp_all)
  from GetStr_records [OF assms(1) this assms(14-19)] show ?thesis by blast
qed

definition sample_loss :: "byte list" where
  "sample_loss = rec_bytes FCGI_STDIN 2 [] [] @ sample_stdin"

theorem empty_foreign_record_drops_witness:
  "\<exists>s1 s2. SetReaderType FCGI_STDIN (sample_reader sample_loss) = Inr s1
    \<and> FCGX_GetStr FillBuffProc (int 5) s1 = Inr (take 5 [], s2)
    \<and> FCGI_errno (strm s2) = FCGI_errno (strm (sample_reader sample_loss))
    \<and> (length ([] :: byte list) < 5 \<longrightarrow> isClosed (strm s2) \<and> unread s2 = [])"
proof -
  have l: "3 < length sample_loss" by (simp add: sample_loss_def sample_stdin_def rec_bytes_def)
  have "records 1 FCGI_STDIN 0 [] (header_bytes (header_for FCGI_STDIN 1 0 0)) []"
    using records_eof [of 1 FCGI_STDIN 0 "[]"] by simp
  then show ?thesis
    by (intro empty_foreign_record_drops [where ty' = FCGI_STDIN and fid = 2 and q = "[]" and c = "[65, 66, 67]"
          and p = "[0, 0, 0, 0, 0]" and w = "header_bytes (header_for FCGI_STDIN 1 0 0)" and cs = "[]" and pad = 0 and tail = "[]"])
      (use l in \<open>simp_all add: sample_reader_facts sample_loss_def sample_stdin_def fcgi_consts\<close>)
qed

text \<open>\<open>FCGX_GetLine\<close> on such a stream stores the bytes up to and including the first newline, at most
  \<open>n - 1\<close> of them, and returns \<open>NULL\<close> exactly at the end of the stream.\<close>

theorem stream_delivers_lines:
  assumes "rd_inv s" "records (requestId (rqd s)) ty pad tail (unread s) cs" "0 < requestId (rqd s)"
    "requestId (rqd s) \<le> 65535" "0 \<le> ty" "ty \<le> 255" "ty \<noteq> FCGI_BEGIN_REQUEST" "pad \<le> 255"
  shows "\<exists>s1 s2. SetReaderType ty s = Inr s1 \<and> FCGX_GetLine FillBuffProc (int n) s1 =
    Inr (if cs = [] \<and> 1 < n then None else Some (line_of (n - 1) cs), s2)"
proof -
  obtain s1 where s1: "SetReaderType ty s = Inr s1" "stream_yields (stream_ctx s ty pad tail) s1 cs"
    using SetReaderType_yields [OF assms] by blast
  then show ?thesis using stream_source.GetLine_yields [of "stream_ctx s ty pad tail" s1 cs n] by simp
qed

theorem stream_delivers_lines_witness:
  "\<exists>s1 s2. SetReaderType FCGI_STDIN (sample_reader sample_stdin) = Inr s1 \<and> FCGX_GetLine FillBuffProc (int 3) s1 =
    Inr (if [65 :: byte, 66, 67] = [] \<and> (1::nat) < 3 then None else Some (line_of (3 - 1) [65, 66, 67]), s2)"
  by (rule stream_delivers_lines [OF sample_reader_facts(1) sample_stdin_read])
    (simp_all add: sample_reader_facts fcgi_consts)

text \<open>C5. On a connection that takes writes in pieces of any size, writing \<open>body\<close> to a new writer and closing it sends a
  framing of \<open>body\<close> in padded records, the end-of-stream record (none for an unused error stream) and, for the last writer
  of the request, the FCGI_END_REQUEST record with the exit status; the buffer is never overrun and no assertion fails.\<close>

theorem writer_output:
  assumes "NewWriter len ty w0 = (t, w1)" "writable (ipcFd r) w"
  shows "\<exists>s1 s2 fr. FCGX_PutStr EmptyBuffProc body \<lparr>strm = t, rqd = r, sys = w\<rparr> = Inr (int (length body), s1)
    \<and> FCGX_FClose EmptyBuffProc s1 = Inr (0, s2) \<and> framed (requestId r) ty fr body
    \<and> sent (conns (sys s2) (ipcFd r)) = sent (conns w (ipcFd r)) @ fr
        @ (if ty = FCGI_STDERR \<and> body = [] then [] else header_bytes (header_for ty (requestId r) 0 0))
        @ (if nWriters r = 1 then end_request_bytes (requestId r) (appStatus r) else [])
    \<and> rqd s2 = r\<lparr>nWriters := nWriters r - 1\<rparr>"
proof -
  let ?s = "\<lparr>strm = t, rqd = r, sys = w\<rparr>"
  note n = NewWriter_fresh [OF assms]
  from content_sink.PutStr_took [OF n(2), of body] obtain s1 where
    s1: "FCGX_PutStr EmptyBuffProc body ?s = Inr (int (length body), s1)" "took_content ?s s1 body" by auto
  from FClose_writer [OF s1(2)] n(3-6) show ?thesis using s1(1) by (auto simp: eof_bytes_def end_bytes_def)
qed

theorem writer_output_witness:
  "\<exists>t s1 s2 fr. FCGX_PutStr EmptyBuffProc [72, 105] \<lparr>strm = t, rqd = sample_req, sys = sample_os []\<rparr> = Inr (2, s1)
    \<and> FCGX_FClose EmptyBuffProc s1 = Inr (0, s2) \<and> framed 1 FCGI_STDOUT fr [72, 105]
    \<and> sent (conns (sys s2) 5) = fr @ header_bytes (header_for FCGI_STDOUT 1 0 0)"
proof -
  obtain t w where "NewWriter 64 FCGI_STDOUT (sample_os []) = (t, w)" by fastforce
  from writer_output [OF this sample_writable [of "[]"], of "[72, 105]"] obtain s1 s2 fr where
    "FCGX_PutStr EmptyBuffProc [72, 105] \<lparr>strm = t, rqd = sample_req, sys = sample_os []\<rparr> = Inr (2, s1)"
    "FCGX_FClose EmptyBuffProc s1 = Inr (0, s2)" "framed 1 FCGI_STDOUT fr [72, 105]"
    "sent (conns (sys s2) 5) = fr @ header_bytes (header_for FCGI_STDOUT 1 0 0)"
    by (auto simp: sample_req_facts)
  then show ?thesis by blast
qed

text \<open>C2. Round trip through the wire: what a writer sends for \<open>body\<close>, read by a reader of the same stream and request on
  the other side in whatever pieces, is \<open>body\<close> again, and the reader stops where the writer stopped.\<close>

theorem stream_roundtrip:
  assumes "NewWriter len ty w0 = (t, w1)" "writable (ipcFd r) w" "nWriters r = 2" "ty \<noteq> FCGI_STDERR \<or> body \<noteq> []"
    "0 < requestId r" "requestId r \<le> 65535" "0 \<le> ty" "ty \<le> 255" "ty \<noteq> FCGI_BEGIN_REQUEST"
  shows "\<exists>s1 s2 out. FCGX_PutStr EmptyBuffProc body \<lparr>strm = t, rqd = r, sys = w\<rparr> = Inr (int (length body), s1)
    \<and> FCGX_FClose EmptyBuffProc s1 = Inr (0, s2) \<and> sent (conns (sys s2) (ipcFd r)) = sent (conns w (ipcFd r)) @ out
    \<and> (\<forall>u tail n. rd_inv u \<and> requestId (rqd u) = requestId r \<and> unread u = out @ tail \<longrightarrow>
        (\<exists>u1 u2. SetReaderType ty u = Inr u1 \<and> FCGX_GetStr FillBuffProc (int n) u1 = Inr (take n body, u2)
           \<and> (length body < n \<longrightarrow> isClosed (strm u2) \<and> unread u2 = tail)))"
proof -
  let ?s = "\<lparr>strm = t, rqd = r, sys = w\<rparr>"
  note n = NewWriter_fresh [OF assms(1,2)]
  from content_sink.PutStr_took [OF n(2), of body] obtain s1 where
    s1: "FCGX_PutStr EmptyBuffProc body ?s = Inr (int (length body), s1)" "took_content ?s s1 body" by auto
  from FClose_writer [OF s1(2)] n(3-6) assms(3,4) obtain s2 fr where
    s2: "FCGX_FClose EmptyBuffProc s1 = Inr (0, s2)" "framed (requestId r) ty fr body"
      "sent (conns (sys s2) (ipcFd r)) = sent (conns w (ipcFd r)) @ fr @ header_bytes (header_for ty (requestId r) 0 0)"
    by (auto simp: eof_bytes_def end_bytes_def)
  have "\<exists>u1 u2. SetReaderType ty u = Inr u1 \<and> FCGX_GetStr FillBuffProc (int n) u1 = Inr (take n body, u2)
       \<and> (length body < n \<longrightarrow> isClosed (strm u2) \<and> unread u2 = tail)"
    if u: "rd_inv u" "requestId (rqd u) = requestId r" "unread u = (fr @ header_bytes (header_for ty (requestId r) 0 0)) @ tail"
    for u tail n
  proof -
    have rec: "records (requestId (rqd u)) ty 0 tail (unread u) body" using closed_stream_records [OF s2(2), of tail] u by simp
    then show ?thesis using GetStr_records [OF u(1) rec, of n] assms u(2) by auto
  qed
  then show ?thesis using s1(1) s2(1,3) by blast
qed

theorem stream_roundtrip_witness:
  "\<exists>t s1 s2. FCGX_PutStr EmptyBuffProc [72, 105] \<lparr>strm = t, rqd = sample_req, sys = sample_os []\<rparr> = Inr (2, s1)
    \<and> FCGX_FClose EmptyBuffProc s1 = Inr (0, s2)
    \<and> (\<exists>u1 u2. SetReaderType FCGI_STDOUT (sample_reader (sent (conns (sys s2) 5) @ [1, 2, 3, 4])) = Inr u1
         \<and> FCGX_GetStr FillBuffProc (int 9) u1 = Inr ([72, 105], u2) \<and> unread u2 = [1, 2, 3, 4])"
proof -
  obtain t w where t: "NewWriter 64 FCGI_STDOUT (sample_os []) = (t, w)" by fastforce
  from stream_roundtrip [OF t sample_writable [of "[]"], of "[72, 105]"] obtain s1 s2 out where
    s: "FCGX_PutStr EmptyBuffProc [72, 105] \<lparr>strm = t, rqd = sample_req, sys = sample_os []\<rparr> = Inr (2, s1)"
      "FCGX_FClose EmptyBuffProc s1 = Inr (0, s2)" "sent (conns (sys s2) 5) = out"
    and all: "\<forall>u tail n. rd_inv u \<and> requestId (rqd u) = 1 \<and> unread u = out @ tail \<longrightarrow>
        (\<exists>u1 u2. SetReaderType FCGI_STDOUT u = Inr u1 \<and> FCGX_GetStr FillBuffProc (int n) u1 = Inr (take n [72, 105], u2)
           \<and> (length [72 :: byte, 105] < n \<longrightarrow> isClosed (strm u2) \<and> unread u2 = tail))"
    by (auto simp: sample_req_facts fcgi_consts)
  let ?u = "sample_reader (out @ [1, 2, 3, 4])"
  have "rd_inv ?u \<and> requestId (rqd ?u) = 1 \<and> unread ?u = out @ [1, 2, 3, 4]" by (simp add: sample_reader_facts)
  from all [rule_format, OF this, of 9] obtain u1 u2 where "SetReaderType FCGI_STDOUT ?u = Inr u1"
    "FCGX_GetStr FillBuffProc (int 9) u1 = Inr ([72, 105], u2)" "unread u2 = [1, 2, 3, 4]" by auto
  then show ?thesis using s by blast
qed

end
