(* ===== verification/Fcgi_Async.thy ===== *)
theory Fcgi_Async
  imports Fcgi_Os
begin

text \<open>
  The asynchronous I/O operations of \<open>libfcgi/os_unix.c\<close>: initialisation of the library, posting of
  reads and writes, growth of the table, closing of descriptors. The table has two entries per descriptor, at
  \<open>2 * fd\<close> and \<open>2 * fd + 1\<close>. \<open>FD_SET\<close> on a descriptor outside \<open>0 ..< FD_SETSIZE\<close> and an
  access outside the table are \<open>OutOfBounds\<close>.
\<close>

section \<open>The table\<close>

definition AIO_RD_IX :: "int \<Rightarrow> int" where "AIO_RD_IX fd = fd * 2"
definition AIO_WR_IX :: "int \<Rightarrow> int" where "AIO_WR_IX fd = fd * 2 + 1"

definition FD_SETSIZE :: int where "FD_SETSIZE = 1024"

definition zero_info :: AioInfo where
  "zero_info = \<lparr>procPtr = 0, clientData = 0, aioFd = 0, aioLen = 0, aioOffset = 0, aioBuf = 0, inUse = False\<rparr>"

text \<open>
  \<open>OS_LibInit\<close>; a call on an initialised library does nothing. \<open>alloc\<close> says whether \<open>malloc\<close>
  returns memory. The poll timeouts it takes from the environment only decide when \<open>poll\<close> times out, which is
  data of the scripts, and the signal handlers it installs are the events \<open>AcceptShutdown\<close> and
  \<open>PollSignal\<close>.
\<close>

definition ENOMEM :: int where "ENOMEM = 12"

definition OS_LibInit :: "bool \<Rightarrow> bool \<Rightarrow> os \<Rightarrow> int \<times> bool \<times> os" where
  "OS_LibInit alloc osLibInitialized w =
     (if osLibInitialized then (0, True, w)
      else if \<not> alloc then (- 1, False, w\<lparr>osErrno := ENOMEM, aioState := (aioState w)\<lparr>asyncIoTable := None\<rparr>\<rparr>)
      else (0, True, w\<lparr>aioState := (aioState w)
             \<lparr>asyncIoTable := Some (replicate (asyncIoTableSize (aioState w)) zero_info),
              readFdSet := {}, writeFdSet := {}, readFdSetPost := {}, writeFdSetPost := {}\<rparr>\<rparr>))"

definition OS_LibShutdown :: "bool \<Rightarrow> aio \<Rightarrow> bool \<times> aio" where
  "OS_LibShutdown osLibInitialized a = (if \<not> osLibInitialized then (False, a) else (False, a\<lparr>asyncIoTable := None\<rparr>))"

definition GrowAsyncTable :: "aio \<Rightarrow> aio" where
  "GrowAsyncTable a =
     (let old = asyncIoTableSize a; tab = (case asyncIoTable a of None \<Rightarrow> [] | Some t \<Rightarrow> t) in
      a\<lparr>asyncIoTableSize := old * 2,
        asyncIoTable := Some (take old (tab @ replicate (old - length tab) zero_info) @ replicate old zero_info)\<rparr>)"

text \<open>\<open>while (index >= asyncIoTableSize) GrowAsyncTable();\<close> does not end on a table of size zero.\<close>

function grow_to :: "int \<Rightarrow> aio \<Rightarrow> aio res" where
  "grow_to index a =
     (if index < int (asyncIoTableSize a) then Inr a
      else if asyncIoTableSize a = 0 then Inl NoReturn
      else grow_to index (GrowAsyncTable a))"
  by pat_completeness auto
termination
  by (relation "measure (\<lambda>(i, a). Suc (nat i) - asyncIoTableSize a)") (auto simp: GrowAsyncTable_def Let_def)

declare grow_to.simps [simp del]

definition info_at :: "aio \<Rightarrow> int \<Rightarrow> AioInfo res" where
  "info_at a ix = (case asyncIoTable a of None \<Rightarrow> Inl OutOfBounds
     | Some t \<Rightarrow> inbounds (0 \<le> ix \<and> nat ix < length t) (Inr (t ! nat ix)))"

definition set_info :: "int \<Rightarrow> AioInfo \<Rightarrow> aio \<Rightarrow> aio" where
  "set_info ix x a = a\<lparr>asyncIoTable := map_option (\<lambda>t. t[nat ix := x]) (asyncIoTable a)\<rparr>"

definition post :: "int \<Rightarrow> int \<Rightarrow> int \<Rightarrow> int \<Rightarrow> int \<Rightarrow> int \<Rightarrow> int \<Rightarrow> aio \<Rightarrow> aio res" where
  "post ix fd off buf len proc cd a =
     bindr (info_at a ix) (\<lambda>x. assertr (\<not> inUse x)
       (Inr (set_info ix \<lparr>procPtr = proc, clientData = cd, aioFd = fd, aioLen = len, aioOffset = off, aioBuf = buf,
              inUse = True\<rparr> a)))"

definition STDIN_FILENO :: int where "STDIN_FILENO = 0"
definition STDOUT_FILENO :: int where "STDOUT_FILENO = 1"

definition OS_AsyncReadStdin :: "int \<Rightarrow> int \<Rightarrow> int \<Rightarrow> int \<Rightarrow> aio \<Rightarrow> (int \<times> aio) res" where
  "OS_AsyncReadStdin buf len proc cd a =
     bindr (post (AIO_RD_IX STDIN_FILENO) STDIN_FILENO 0 buf len proc cd (a\<lparr>asyncIoInUse := True\<rparr>)) (\<lambda>a1.
       Inr (0, a1\<lparr>readFdSet := insert STDIN_FILENO (readFdSet a1),
                  maxFd := (if maxFd a1 < STDIN_FILENO then STDIN_FILENO else maxFd a1)\<rparr>))"

definition OS_AsyncRead :: "int \<Rightarrow> int \<Rightarrow> int \<Rightarrow> int \<Rightarrow> int \<Rightarrow> int \<Rightarrow> aio \<Rightarrow> (int \<times> aio) res" where
  "OS_AsyncRead fd off buf len proc cd a =
     assertr (asyncIoTable a \<noteq> None)
      (let a1 = a\<lparr>asyncIoInUse := True, maxFd := (if maxFd a < fd then fd else maxFd a)\<rparr> in
       bindr (grow_to (AIO_RD_IX fd) a1) (\<lambda>a2.
       bindr (post (AIO_RD_IX fd) fd off buf len proc cd a2) (\<lambda>a3.
       inbounds (0 \<le> fd \<and> fd < FD_SETSIZE) (Inr (0, a3\<lparr>readFdSet := insert fd (readFdSet a3)\<rparr>)))))"

definition OS_AsyncWrite :: "int \<Rightarrow> int \<Rightarrow> int \<Rightarrow> int \<Rightarrow> int \<Rightarrow> int \<Rightarrow> aio \<Rightarrow> (int \<times> aio) res" where
  "OS_AsyncWrite fd off buf len proc cd a =
     (let a1 = a\<lparr>asyncIoInUse := True, maxFd := (if maxFd a < fd then fd else maxFd a)\<rparr> in
      bindr (grow_to (AIO_WR_IX fd) a1) (\<lambda>a2.
      bindr (post (AIO_WR_IX fd) fd off buf len proc cd a2) (\<lambda>a3.
      inbounds (0 \<le> fd \<and> fd < FD_SETSIZE) (Inr (0, a3\<lparr>writeFdSet := insert fd (writeFdSet a3)\<rparr>)))))"

text \<open>\<open>if (asyncIoTable[index].inUse != 0) asyncIoTable[index].inUse = 0;\<close>\<close>

definition cancel :: "int \<Rightarrow> aio \<Rightarrow> aio res" where
  "cancel ix a = bindr (info_at a ix) (\<lambda>x. Inr (if inUse x then set_info ix (x\<lparr>inUse := False\<rparr>) a else a))"

text \<open>The block of \<open>OS_Close\<close> under \<open>if (asyncIoInUse)\<close>.\<close>

definition close_async :: "int \<Rightarrow> aio \<Rightarrow> aio res" where
  "close_async fd a =
     (if \<not> asyncIoInUse a then Inr a
      else inbounds (0 \<le> fd \<and> fd < FD_SETSIZE)
       (bindr (cancel (AIO_RD_IX fd) (a\<lparr>readFdSet := readFdSet a - {fd}, readFdSetPost := readFdSetPost a - {fd}\<rparr>)) (\<lambda>a1.
        bindr (cancel (AIO_WR_IX fd) (a1\<lparr>writeFdSet := writeFdSet a1 - {fd}, writeFdSetPost := writeFdSetPost a1 - {fd}\<rparr>)) (\<lambda>a2.
        Inr (if maxFd a2 = fd then a2\<lparr>maxFd := maxFd a2 - 1\<rparr> else a2)))))"

section \<open>Polling and closing descriptors\<close>

text \<open>\<open>poll\<close> of one descriptor for \<open>POLLIN\<close>: its value and whether \<open>POLLIN\<close> is in
  \<open>revents\<close>. A closed descriptor reports \<open>POLLNVAL\<close>. A script that is used up reports readiness.\<close>

definition posix_poll :: "int \<Rightarrow> os \<Rightarrow> int \<times> bool \<times> os" where
  "posix_poll fd w =
     (let c = conns w fd in
      if \<not> isOpen c then (1, False, w)
      else case pollScript c of
        [] \<Rightarrow> (1, True, w)
      | e # es \<Rightarrow> let w1 = w\<lparr>conns := (conns w)(fd := c\<lparr>pollScript := es\<rparr>)\<rparr> in
          (case e of PollReady \<Rightarrow> (1, True, w1)
           | PollTimeout \<Rightarrow> (0, False, w1)
           | PollSignal \<Rightarrow> (- 1, False, w1\<lparr>shutdownPending := True, osErrno := EINTR\<rparr>)))"

definition posix_close :: "int \<Rightarrow> os \<Rightarrow> int \<times> os" where
  "posix_close fd w =
     (if isOpen (conns w fd) then (0, w\<lparr>conns := (conns w)(fd := (conns w fd)\<lparr>isOpen := False\<rparr>)\<rparr>)
      else (- 1, w\<lparr>osErrno := EBADF\<rparr>))"

text \<open>\<open>do rv = poll(...); while (rv > 0 && read(fd, trash, sizeof(trash)) > 0);\<close>\<close>

definition script_size :: "os \<Rightarrow> int \<Rightarrow> nat" where
  "script_size w fd = length (rdScript (conns w fd))
     + sum_list (map (\<lambda>e. case e of RdBytes bs \<Rightarrow> length bs | RdErr _ \<Rightarrow> 0) (rdScript (conns w fd)))"

function drain_input :: "int \<Rightarrow> os \<Rightarrow> os" where
  "drain_input fd w =
     (case posix_poll fd w of (rv, _, w1) \<Rightarrow>
        if rv > 0 then
          (case posix_read fd 1024 w1 of (n, _, w2) \<Rightarrow> if n > 0 then drain_input fd w2 else w2)
        else w1)"
  by pat_completeness auto

lemma posix_poll_size: "posix_poll fd w = (rv, b, w1) \<Longrightarrow> script_size w1 f = script_size w f"
  by (auto simp: posix_poll_def script_size_def Let_def split: if_splits list.splits poll_event.splits)

lemma posix_read_size:
  "posix_read fd len w = (n, bs, w') \<Longrightarrow> 0 < n \<Longrightarrow> script_size w' fd < script_size w fd"
  by (auto simp: posix_read_def script_size_def Let_def split: if_splits list.splits rd_event.splits)

termination drain_input
proof (relation "measure (\<lambda>(fd, w). script_size w fd)", simp)
  fix fd w rv x b w1 y n z bs w2
  assume p: "(rv, x) = posix_poll fd w" "(b, w1) = x" "0 < rv"
    "(n, z) = posix_read fd 1024 w1" "(bs, w2) = z" "0 < n"
  have "posix_poll fd w = (rv, b, w1)" "posix_read fd 1024 w1 = (n, bs, w2)" using p by simp_all
  then have "script_size w1 fd = script_size w fd" "script_size w2 fd < script_size w1 fd"
    using posix_poll_size posix_read_size p(6) by blast+
  then show "((fd, w2), fd, w) \<in> measure (\<lambda>(fd, w). script_size w fd)" by simp
qed

declare drain_input.simps [simp del]

text \<open>\<open>shutdown(fd, 1)\<close> fails on a closed descriptor and on one that is not a socket.\<close>

definition OS_Close :: "int \<Rightarrow> bool \<Rightarrow> os \<Rightarrow> (int \<times> os) res" where
  "OS_Close fd shutdown_ok w =
     (if fd = - 1 then Inr (0, w)
      else bindr (close_async fd (aioState w)) (\<lambda>a.
        let w1 = w\<lparr>aioState := a\<rparr> in
        Inr (posix_close fd
          (if shutdown_ok \<and> isOpen (conns w1 fd) \<and> isSocket (conns w1 fd) then drain_input fd w1 else w1))))"

definition OS_IpcClose :: "int \<Rightarrow> bool \<Rightarrow> os \<Rightarrow> (int \<times> os) res" where
  "OS_IpcClose fd shutdown w = OS_Close fd shutdown w"

definition OS_CloseRead :: "int \<Rightarrow> os \<Rightarrow> (int \<times> os) res" where
  "OS_CloseRead fd w =
     bindr (info_at (aioState w) (AIO_RD_IX fd)) (\<lambda>x.
     bindr (if inUse x then inbounds (0 \<le> fd \<and> fd < FD_SETSIZE)
              (Inr ((set_info (AIO_RD_IX fd) (x\<lparr>inUse := False\<rparr>) (aioState w))
                 \<lparr>readFdSet := readFdSet (aioState w) - {fd}\<rparr>))
            else Inr (aioState w)) (\<lambda>a.
     let w1 = w\<lparr>aioState := a\<rparr> in
     if isOpen (conns w1 fd) \<and> isSocket (conns w1 fd)
     then Inr (0, w1\<lparr>conns := (conns w1)(fd := (conns w1 fd)\<lparr>rdScript := []\<rparr>)\<rparr>)
     else Inr (- 1, w1)))"

end
