(* ===== verification/Fcgi_Accept.thy ===== *)
theory Fcgi_Accept
  imports Fcgi_Async
begin

text \<open>
  Accepting connections (\<open>libfcgi/os_unix.c\<close>): the check of the client address, the errors after
  which \<open>accept\<close> is retried, the test that drops silent Unix domain connections, and
  \<open>OS_Accept\<close>. The configuration is the one without \<open>USE_LOCKING\<close>, in which
  \<open>AcquireLock\<close> and \<open>ReleaseLock\<close> return zero. \<open>inet_addr\<close> is the function of the C library; IPv4
  addresses are 32-bit words, most significant byte first.
\<close>

section \<open>Numbers-and-dots addresses\<close>

definition INADDR_NONE :: "32 word" where "INADDR_NONE = - 1"

text \<open>The digit a byte stands for in a base, as \<open>strtoul\<close> reads it.\<close>

definition digit_of :: "nat \<Rightarrow> byte \<Rightarrow> nat option" where
  "digit_of base b =
     (let c = unat b;
          d = (if 48 \<le> c \<and> c \<le> 57 then c - 48
               else if 97 \<le> c \<and> c \<le> 102 then c - 87
               else if 65 \<le> c \<and> c \<le> 70 then c - 55 else 16)
      in if d < base then Some d else None)"

fun read_digits :: "nat \<Rightarrow> nat \<Rightarrow> byte list \<Rightarrow> nat \<times> byte list" where
  "read_digits base acc [] = (acc, [])"
| "read_digits base acc (b # bs) =
     (case digit_of base b of None \<Rightarrow> (acc, b # bs) | Some d \<Rightarrow> read_digits base (acc * base + d) bs)"

text \<open>One component, in base 16, 8 or 10 by its prefix; it has to start with a decimal digit.\<close>

definition inet_part :: "byte list \<Rightarrow> (nat \<times> byte list) option" where
  "inet_part bs = (case bs of
       [] \<Rightarrow> None
     | b # r \<Rightarrow>
         if digit_of 10 b = None then None
         else if b = 48 then
           (case r of
              x # h # r' \<Rightarrow> if (x = 120 \<or> x = 88) \<and> digit_of 16 h \<noteq> None
                then Some (read_digits 16 0 (h # r')) else Some (read_digits 8 0 bs)
            | _ \<Rightarrow> Some (read_digits 8 0 bs))
         else Some (read_digits 10 0 bs))"

definition is_space :: "byte \<Rightarrow> bool" where
  "is_space b \<longleftrightarrow> b = 32 \<or> 9 \<le> b \<and> b \<le> 13"

text \<open>Up to three components of one byte each, followed by dots; the last component fills the rest of the
  address.\<close>

definition inet_last :: "nat list \<Rightarrow> nat \<Rightarrow> byte list \<Rightarrow> nat option" where
  "inet_last acc v rest =
     (if (rest = [] \<or> is_space (hd rest)) \<and> v < 256 ^ (4 - length acc)
      then Some (foldl (\<lambda>a x. a * 256 + x) 0 acc * 256 ^ (4 - length acc) + v) else None)"

fun inet_parts :: "nat \<Rightarrow> nat list \<Rightarrow> byte list \<Rightarrow> nat option" where
  "inet_parts 0 acc bs = (case inet_part bs of None \<Rightarrow> None | Some (v, rest) \<Rightarrow> inet_last acc v rest)"
| "inet_parts (Suc n) acc bs =
     (case inet_part bs of
        None \<Rightarrow> None
      | Some (v, rest) \<Rightarrow>
          if rest \<noteq> [] \<and> hd rest = 46
          then (if v \<le> 255 then inet_parts n (acc @ [v]) (tl rest) else None)
          else inet_last acc v rest)"

definition inet_addr :: "byte list \<Rightarrow> 32 word" where
  "inet_addr bs = (case inet_parts 3 [] bs of None \<Rightarrow> INADDR_NONE | Some v \<Rightarrow> of_nat v)"

section \<open>The client address\<close>

text \<open>The pieces of a string between separators.\<close>

fun split_at :: "byte \<Rightarrow> byte list \<Rightarrow> byte list list" where
  "split_at c [] = [[]]"
| "split_at c (b # bs) = (if b = c then [] # split_at c bs
     else case split_at c bs of [] \<Rightarrow> [[b]] | p # ps \<Rightarrow> (b # p) # ps)"

fun match_addr :: "32 word \<Rightarrow> byte list list \<Rightarrow> bool" where
  "match_addr a [] = False"
| "match_addr a (p # ps) = (if inet_addr p = a then True else match_addr a ps)"

definition ClientAddrOK :: "32 word \<Rightarrow> byte list option \<Rightarrow> bool" where
  "ClientAddrOK a clientList =
     (case clientList of None \<Rightarrow> True
      | Some l \<Rightarrow> if c_str l = [] then True else match_addr a (split_at 44 (c_str l)))"

section \<open>Accepting\<close>

definition is_reasonable_accept_errno :: "int \<Rightarrow> bool" where
  "is_reasonable_accept_errno e \<longleftrightarrow> e = EPROTO \<or> e = ECONNABORTED \<or> e = ECONNRESET \<or> e = ETIMEDOUT
     \<or> e = EHOSTUNREACH \<or> e = ENETUNREACH"

definition is_af_unix_keeper :: "int \<Rightarrow> os \<Rightarrow> bool \<times> os" where
  "is_af_unix_keeper fd w = (case posix_poll fd w of (rv, pollin, w1) \<Rightarrow> (0 \<le> rv \<and> pollin, w1))"

text \<open>\<open>accept(2)\<close>; with nothing left to happen it never returns. On failure \<open>sa\<close> is left alone.\<close>

definition posix_accept :: "peer \<Rightarrow> os \<Rightarrow> (int \<times> peer \<times> os) res" where
  "posix_accept sa w =
     (case acceptScript w of
        [] \<Rightarrow> Inl Blocked
      | e # es \<Rightarrow> let w1 = w\<lparr>acceptScript := es\<rparr> in
          (case e of
             AcceptErr err \<Rightarrow> Inr (- 1, sa, w1\<lparr>osErrno := err\<rparr>)
           | AcceptShutdown \<Rightarrow> Inr (- 1, sa, w1\<lparr>osErrno := EINTR, shutdownPending := True\<rparr>)
           | AcceptConn fd p c \<Rightarrow> Inr (fd, p, w1\<lparr>conns := (conns w1)(fd := c)\<rparr>)))"

text \<open>
  The two inner loops: \<open>accept\<close> until there is an acceptable connection. \<open>socket\<close> and \<open>sa\<close> are the local
  variables of \<open>OS_Accept\<close>, which keep their values across iterations of the outer loop. The
  result is \<open>False\<close> where the function returns -1. Every iteration but the last takes an event.
\<close>

fun accept_loop ::
    "nat \<Rightarrow> bool \<Rightarrow> byte list option \<Rightarrow> int \<Rightarrow> peer \<Rightarrow> os \<Rightarrow> (bool \<times> int \<times> peer \<times> os) res" where
  "accept_loop 0 fail_on_intr addrs socket sa w = Inl NoReturn"
| "accept_loop (Suc fuel) fail_on_intr addrs socket sa w =
     bindr (if shutdownPending w then Inr (socket, sa, w) else posix_accept sa w) (\<lambda>(socket, sa, w1).
       if socket < 0 \<and> osErrno w1 = EINTR \<and> \<not> fail_on_intr \<and> \<not> shutdownPending w1
       then accept_loop fuel fail_on_intr addrs socket sa w1
       else if socket < 0 then
         if shutdownPending w1 \<or> \<not> is_reasonable_accept_errno (osErrno w1) then Inr (False, socket, sa, w1)
         else accept_loop fuel fail_on_intr addrs socket sa (w1\<lparr>osErrno := 0\<rparr>)
       else case sa of
         PeerInet a \<Rightarrow>
           if ClientAddrOK a addrs then Inr (True, socket, sa, w1)
           else accept_loop fuel fail_on_intr addrs (- 1) sa (snd (posix_close socket w1))
       | _ \<Rightarrow> Inr (True, socket, sa, w1))"

text \<open>The outer loop.\<close>

fun OS_Accept_loop :: "nat \<Rightarrow> bool \<Rightarrow> byte list option \<Rightarrow> int \<Rightarrow> peer \<Rightarrow> os \<Rightarrow> (int \<times> os) res" where
  "OS_Accept_loop 0 fail_on_intr addrs socket sa w = Inl NoReturn"
| "OS_Accept_loop (Suc fuel) fail_on_intr addrs socket sa w =
     bindr (accept_loop (Suc (length (acceptScript w))) fail_on_intr addrs socket sa w) (\<lambda>(ok, socket, sa, w1).
       if \<not> ok then Inr (- 1, w1)
       else if sa \<noteq> PeerUnix then Inr (socket, w1)
       else case is_af_unix_keeper socket w1 of (keep, w2) \<Rightarrow>
         if keep then Inr (socket, w2)
         else OS_Accept_loop fuel fail_on_intr addrs socket sa (snd (posix_close socket w2)))"

declare accept_loop.simps(2) [simp del] OS_Accept_loop.simps(2) [simp del]

text \<open>\<open>sa\<close> is uninitialised on entry; it is not read before a successful \<open>accept\<close>.\<close>

definition OS_Accept :: "bool \<Rightarrow> byte list option \<Rightarrow> os \<Rightarrow> (int \<times> os) res" where
  "OS_Accept fail_on_intr addrs w =
     OS_Accept_loop (Suc (Suc (length (acceptScript w)))) fail_on_intr addrs (- 1) PeerOther w"

end
