(* ===== verification/Fcgi_Request.thy ===== *)
theory Fcgi_Request
  imports Fcgi_Reader Fcgi_Writer Fcgi_Accept
begin

text \<open>
  Requests (\<open>FCGX_Request\<close>) and the control functions of \<open>fcgiapp.c\<close>: initialisation,
  \<open>FCGX_Accept_r\<close>, \<open>FCGX_Finish_r\<close>, \<open>FCGX_Free\<close> and the functions built on them. The streams of a
  request share its scalar fields (\<open>reqData\<close>), which is how closing one writer changes what closing the
  other does. A stream pointer that is \<open>NULL\<close> is \<open>None\<close>; following it is \<open>OutOfBounds\<close>.
\<close>

section \<open>State\<close>

record FCGX_Request =
  reqData :: FCGX_ReqData
  reqIn :: "FCGX_Stream option"
  reqOut :: "FCGX_Stream option"
  reqErr :: "FCGX_Stream option"
  paramsPtr :: "Params option"
  envp :: "byte list option list option"

definition FCGX_InitRequest :: "int \<Rightarrow> int \<Rightarrow> FCGX_Request" where
  "FCGX_InitRequest sock fl =
     \<lparr>reqData = zero_reqData\<lparr>listen_sock := sock, flags := fl, ipcFd := - 1\<rparr>,
      reqIn = None, reqOut = None, reqErr = None, paramsPtr = None, envp = None\<rparr>"

text \<open>Calling a stream function on a stream of the request.\<close>

definition with_stream ::
    "FCGX_Stream option \<Rightarrow> FCGX_Request \<Rightarrow> os \<Rightarrow> (st \<Rightarrow> ('a \<times> st) res) \<Rightarrow> ('a \<times> FCGX_Stream \<times> FCGX_Request \<times> os) res" where
  "with_stream t q w op =
     (case t of None \<Rightarrow> Inl OutOfBounds
      | Some t \<Rightarrow> bindr (op \<lparr>strm = t, rqd = reqData q, sys = w\<rparr>)
          (\<lambda>(x, s). Inr (x, strm s, q\<lparr>reqData := rqd s\<rparr>, sys s)))"

section \<open>Finishing a request\<close>

text \<open>\<open>FCGX_FClose\<close>, which does nothing on the null pointer.\<close>

definition close_stream ::
    "FCGX_Stream option \<Rightarrow> FCGX_Request \<Rightarrow> os \<Rightarrow> (int \<times> FCGX_Stream option \<times> FCGX_Request \<times> os) res" where
  "close_stream t q w =
     (case t of None \<Rightarrow> Inr (0, None, q, w)
      | Some _ \<Rightarrow> bindr (with_stream t q w (FCGX_FClose EmptyBuffProc)) (\<lambda>(r, t1, q1, w1). Inr (r, Some t1, q1, w1)))"

definition FCGX_Free :: "FCGX_Request \<Rightarrow> bool \<Rightarrow> os \<Rightarrow> (FCGX_Request \<times> os) res" where
  "FCGX_Free q close w =
     (let q1 = q\<lparr>reqIn := FCGX_FreeStream (reqIn q), reqOut := FCGX_FreeStream (reqOut q),
                 reqErr := FCGX_FreeStream (reqErr q), paramsPtr := None\<rparr> in
      if close then
        bindr (OS_IpcClose (ipcFd (reqData q1)) (\<not> detached (reqData q1)) w) (\<lambda>(_, w1).
          Inr (q1\<lparr>reqData := (reqData q1)\<lparr>ipcFd := - 1, detached := False\<rparr>\<rparr>, w1))
      else Inr (q1, w))"

definition FCGX_Finish_r :: "FCGX_Request option \<Rightarrow> os \<Rightarrow> (FCGX_Request option \<times> os) res" where
  "FCGX_Finish_r qo w =
     (case qo of None \<Rightarrow> Inr (None, w)
      | Some q \<Rightarrow>
          let close = \<not> keepConnection (reqData q) in
          bindr (case reqIn q of
              None \<Rightarrow> Inr (close, q, w)
            | Some tin \<Rightarrow>
                bindr (close_stream (reqErr q) q w) (\<lambda>(r1, terr, q1, w1).
                bindr (close_stream (reqOut q1) (q1\<lparr>reqErr := terr\<rparr>) w1) (\<lambda>(r2, tout, q2, w2).
                Inr (close \<or> r1 \<noteq> 0 \<or> r2 \<noteq> 0 \<or> FCGX_GetError tin \<noteq> 0, q2\<lparr>reqOut := tout\<rparr>, w2))))
            (\<lambda>(close, q3, w3). bindr (FCGX_Free q3 close w3) (\<lambda>(q4, w4). Inr (Some q4, w4))))"

section \<open>Accepting a request\<close>

definition FCGI_FAIL_ACCEPT_ON_INTR :: int where "FCGI_FAIL_ACCEPT_ON_INTR = 1"

unbundle bit_operations_syntax

definition role_string :: "int \<Rightarrow> byte list option" where
  "role_string r =
     (if r = FCGI_RESPONDER then Some (bytes ''FCGI_ROLE=RESPONDER'')
      else if r = FCGI_AUTHORIZER then Some (bytes ''FCGI_ROLE=AUTHORIZER'')
      else if r = FCGI_FILTER then Some (bytes ''FCGI_ROLE=FILTER'')
      else None)"

text \<open>Reading the head of a request from an open connection. The first component says whether the loop of
  \<open>FCGX_Accept_r\<close> is left with \<open>break\<close>; otherwise control goes to \<open>TryAgain\<close>.\<close>

definition read_request :: "FCGX_Request \<Rightarrow> os \<Rightarrow> (bool \<times> FCGX_Request \<times> os) res" where
  "read_request q w =
     (let q1 = q\<lparr>reqData := (reqData q)\<lparr>isBeginProcessed := False\<rparr>\<rparr> in
      case NewReader 8192 0 w of (t, w1) \<Rightarrow>
      bindr (FillBuffProc \<lparr>strm = t, rqd = reqData q1, sys = w1\<rparr>) (\<lambda>s.
        let q2 = q1\<lparr>reqIn := Some (strm s), reqData := rqd s\<rparr> in
        if \<not> isBeginProcessed (rqd s) then Inr (False, q2, sys s)
        else case role_string (role (rqd s)) of
          None \<Rightarrow> Inr (False, q2, sys s)
        | Some roleStr \<Rightarrow>
            bindr (NewParams 30) (\<lambda>p.
            bindr (PutParam p roleStr) (\<lambda>p.
            bindr (SetReaderType FCGI_PARAMS s) (\<lambda>s1.
            bindr (ReadParams FillBuffProc p s1) (\<lambda>(r, p', s2).
              Inr (0 \<le> r, q2\<lparr>reqIn := Some (strm s2), reqData := rqd s2, paramsPtr := Some p'\<rparr>, sys s2)))))))"

text \<open>The \<open>for (;;)\<close> loop. Its result is \<open>None\<close> when it is left with \<open>break\<close>, else the value
  \<open>FCGX_Accept_r\<close> returns. Every iteration but the first takes an event of \<open>accept\<close>.\<close>

fun Accept_loop :: "nat \<Rightarrow> byte list option \<Rightarrow> FCGX_Request \<Rightarrow> os \<Rightarrow> (int option \<times> FCGX_Request \<times> os) res" where
  "Accept_loop 0 addrs q w = Inl NoReturn"
| "Accept_loop (Suc fuel) addrs q w =
     bindr (if ipcFd (reqData q) < 0
            then OS_Accept (flags (reqData q) AND FCGI_FAIL_ACCEPT_ON_INTR \<noteq> 0) addrs w
            else Inr (ipcFd (reqData q), w)) (\<lambda>(fd, w1).
       let q1 = q\<lparr>reqData := (reqData q)\<lparr>ipcFd := fd\<rparr>\<rparr> in
       if fd < 0 then Inr (Some (if 0 < osErrno w1 then - osErrno w1 else - 9999), q1, w1)
       else bindr (read_request q1 w1) (\<lambda>(ok, q2, w2).
         if ok then Inr (None, q2, w2)
         else bindr (FCGX_Free q2 True w2) (\<lambda>(q3, w3). Accept_loop fuel addrs q3 w3)))"

declare Accept_loop.simps(2) [simp del]

text \<open>The data structures built once the environment has been read.\<close>

definition build_request :: "FCGX_Request \<Rightarrow> os \<Rightarrow> (FCGX_Request \<times> os) res" where
  "build_request q w =
     (case (reqIn q, paramsPtr q) of
        (Some t, Some p) \<Rightarrow>
          bindr (SetReaderType FCGI_STDIN \<lparr>strm = t, rqd = reqData q, sys = w\<rparr>) (\<lambda>s.
            case NewWriter 8192 FCGI_STDOUT w of (tout, w1) \<Rightarrow>
            case NewWriter 512 FCGI_STDERR w1 of (terr, w2) \<Rightarrow>
              Inr (q\<lparr>reqIn := Some (strm s), reqOut := Some tout, reqErr := Some terr,
                     reqData := (reqData q)\<lparr>nWriters := 2\<rparr>, envp := Some (vec p)\<rparr>, w2))
      | _ \<Rightarrow> Inl OutOfBounds)"

definition FCGX_Accept_r :: "bool \<Rightarrow> byte list option \<Rightarrow> FCGX_Request \<Rightarrow> os \<Rightarrow> (int \<times> FCGX_Request \<times> os) res" where
  "FCGX_Accept_r initialized addrs q w =
     (if \<not> initialized then Inr (- 9998, q, w)
      else bindr (FCGX_Finish_r (Some q) w) (\<lambda>(qo, w1).
        let q1 = (case qo of None \<Rightarrow> q | Some q' \<Rightarrow> q') in
        bindr (Accept_loop (Suc (Suc (length (acceptScript w1)))) addrs q1 w1) (\<lambda>(r, q2, w2).
          case r of Some rc \<Rightarrow> Inr (rc, q2, w2)
          | None \<Rightarrow> bindr (build_request q2 w2) (\<lambda>(q3, w3). Inr (0, q3, w3)))))"

section \<open>The library's own request\<close>

record lib =
  libInitialized :: bool
  osLibInitialized :: bool
  isFastCGI :: int
  webServerAddressList :: "byte list option"
  the_request :: FCGX_Request

text \<open>\<open>getenv\<close> is the environment of the process, \<open>alloc\<close> whether the allocation in
  \<open>OS_LibInit\<close> succeeds.\<close>

definition FCGX_Init :: "bool \<Rightarrow> (byte list \<Rightarrow> byte list option) \<Rightarrow> lib \<Rightarrow> os \<Rightarrow> int \<times> lib \<times> os" where
  "FCGX_Init alloc getenv l w =
     (if libInitialized l then (0, l, w)
      else let l1 = l\<lparr>the_request := FCGX_InitRequest FCGI_LISTENSOCK_FILENO 0\<rparr> in
        case OS_LibInit alloc (osLibInitialized l1) w of (rc, oi, w1) \<Rightarrow>
          let l2 = l1\<lparr>osLibInitialized := oi\<rparr> in
          if rc = - 1 then (if osErrno w1 \<noteq> 0 then osErrno w1 else - 9997, l2, w1)
          else (0, l2\<lparr>webServerAddressList := map_option c_str (getenv (bytes ''FCGI_WEB_SERVER_ADDRS'')),
                      libInitialized := True\<rparr>, w1))"

definition FCGX_Accept :: "bool \<Rightarrow> (byte list \<Rightarrow> byte list option) \<Rightarrow> lib \<Rightarrow> os \<Rightarrow> (int \<times> lib \<times> os) res" where
  "FCGX_Accept alloc getenv l w =
     (case (if \<not> libInitialized l then FCGX_Init alloc getenv l w else (0, l, w)) of (rc, l1, w1) \<Rightarrow>
        if rc \<noteq> 0 then Inr (rc, l1, w1)
        else bindr (FCGX_Accept_r (libInitialized l1) (webServerAddressList l1) (the_request l1) w1)
          (\<lambda>(rc, q, w2). Inr (rc, l1\<lparr>the_request := q\<rparr>, w2)))"

definition FCGX_Finish :: "lib \<Rightarrow> os \<Rightarrow> (lib \<times> os) res" where
  "FCGX_Finish l w =
     bindr (FCGX_Finish_r (Some (the_request l)) w) (\<lambda>(qo, w1).
       Inr (l\<lparr>the_request := (case qo of None \<Rightarrow> the_request l | Some q \<Rightarrow> q)\<rparr>, w1))"

definition OS_IsFcgi :: "int \<Rightarrow> os \<Rightarrow> bool \<times> os" where
  "OS_IsFcgi sock w = (let e = peernameErr w sock in (e \<noteq> 0 \<and> e = ENOTCONN, w\<lparr>osErrno := e\<rparr>))"

text \<open>\<open>FCGX_IsCGI\<close>; \<open>None\<close> where it leaves the process with \<open>exit\<close>.\<close>

definition FCGX_IsCGI :: "bool \<Rightarrow> (byte list \<Rightarrow> byte list option) \<Rightarrow> lib \<Rightarrow> os \<Rightarrow> (bool \<times> lib \<times> os) option" where
  "FCGX_IsCGI alloc getenv l w =
     (if isFastCGI l \<noteq> - 1 then Some (isFastCGI l = 0, l, w)
      else case (if \<not> libInitialized l then FCGX_Init alloc getenv l w else (0, l, w)) of (rc, l1, w1) \<Rightarrow>
        if rc \<noteq> 0 then None
        else case OS_IsFcgi FCGI_LISTENSOCK_FILENO w1 of (b, w2) \<Rightarrow>
          Some (\<not> b, l1\<lparr>isFastCGI := (if b then 1 else 0)\<rparr>, w2))"

definition OS_ShutdownPending :: "os \<Rightarrow> os" where
  "OS_ShutdownPending w = w\<lparr>shutdownPending := True\<rparr>"

definition FCGX_ShutdownPending :: "os \<Rightarrow> os" where
  "FCGX_ShutdownPending w = OS_ShutdownPending w"

definition FCGX_Attach :: "FCGX_Request \<Rightarrow> int \<times> FCGX_Request" where
  "FCGX_Attach q = (0, q\<lparr>reqData := (reqData q)\<lparr>detached := False\<rparr>\<rparr>)"

definition FCGX_Detach :: "FCGX_Request \<Rightarrow> int \<times> FCGX_Request" where
  "FCGX_Detach q = (if ipcFd (reqData q) \<le> 0 then (- 1, q) else (0, q\<lparr>reqData := (reqData q)\<lparr>detached := True\<rparr>\<rparr>))"

end
