(* ===== verification/Fcgi_Accept_Correct.thy ===== *)
theory Fcgi_Accept_Correct
  imports Fcgi_Accept
begin

text \<open>
  Which connections \<open>OS_Accept\<close> returns, and when it returns. The address check is compared with a printer of
  dotted addresses; the loops are followed over every script of \<open>accept\<close> events.
\<close>

section \<open>Dotted addresses\<close>

fun decimal :: "nat \<Rightarrow> byte list" where
  "decimal n = (if n < 10 then [of_nat (48 + n)] else decimal (n div 10) @ [of_nat (48 + n mod 10)])"

declare decimal.simps [simp del]

definition dotted :: "nat \<times> nat \<times> nat \<times> nat \<Rightarrow> byte list" where
  "dotted q = (case q of (a, b, c, d) \<Rightarrow> decimal a @ [46] @ decimal b @ [46] @ decimal c @ [46] @ decimal d)"

definition octets :: "nat \<times> nat \<times> nat \<times> nat \<Rightarrow> bool" where
  "octets q = (case q of (a, b, c, d) \<Rightarrow> a \<le> 255 \<and> b \<le> 255 \<and> c \<le> 255 \<and> d \<le> 255)"

definition quad_addr :: "nat \<times> nat \<times> nat \<times> nat \<Rightarrow> 32 word" where
  "quad_addr q = (case q of (a, b, c, d) \<Rightarrow> of_nat (((a * 256 + b) * 256 + c) * 256 + d))"

lemma unat_digit: "d < 10 \<Longrightarrow> unat (of_nat (48 + d) :: byte) = 48 + d"
  by (simp add: unat_of_nat take_bit_nat_eq_self del: of_nat_add)

lemma digit_of_digit: "d < 10 \<Longrightarrow> digit_of 10 (of_nat (48 + d)) = Some d"
  unfolding digit_of_def Let_def unat_digit by simp

lemma read_decimal:
  "read_digits 10 acc (decimal n @ rest) = read_digits 10 (acc * 10 ^ length (decimal n) + n) rest"
proof (induction n arbitrary: rest rule: decimal.induct)
  case (1 n)
  show ?case
  proof (cases "n < 10")
    case True
    then show ?thesis using digit_of_digit [OF True] by (simp add: decimal.simps [of n] del: of_nat_add)
  next
    case False
    have d: "digit_of 10 (of_nat (48 + n mod 10)) = Some (n mod 10)" by (rule digit_of_digit) simp
    have "read_digits 10 acc (decimal n @ rest)
       = read_digits 10 (acc * 10 ^ length (decimal (n div 10)) + n div 10) (of_nat (48 + n mod 10) # rest)"
      using "1.IH" [OF False] False by (simp add: decimal.simps [of n] del: of_nat_add)
    also have "\<dots> = read_digits 10 ((acc * 10 ^ length (decimal (n div 10)) + n div 10) * 10 + n mod 10) rest"
      using d by (simp del: of_nat_add)
    also have "(acc * 10 ^ length (decimal (n div 10)) + n div 10) * 10 + n mod 10 = acc * 10 ^ length (decimal n) + n"
      using False by (simp add: decimal.simps [of n] algebra_simps)
    finally show ?thesis .
  qed
qed

lemma decimal_first: "\<exists>d ds. decimal n = of_nat (48 + d) # ds \<and> d < 10 \<and> (n \<noteq> 0 \<longrightarrow> d \<noteq> 0) \<and> (n = 0 \<longrightarrow> ds = [])"
proof (induction n rule: decimal.induct)
  case (1 n)
  show ?case
  proof (cases "n < 10")
    case False
    then have "n div 10 \<noteq> 0" by simp
    with "1.IH" [OF False] False show ?thesis by (auto simp: decimal.simps [of n] simp del: of_nat_add)
  next
    case True
    then show ?thesis by (intro exI [of _ n] exI [of _ "[]"]) (simp add: decimal.simps [of n] del: of_nat_add)
  qed
qed

lemma inet_part_decimal:
  assumes "rest = [] \<or> hd rest = 46"
  shows "inet_part (decimal n @ rest) = Some (n, rest)"
proof -
  have stop: "read_digits base x rest = (x, rest)" if "base \<le> 16" for x base
    using assms that by (cases rest) (auto simp: digit_of_def Let_def)
  obtain d ds where d: "decimal n = of_nat (48 + d) # ds" "d < 10" "n \<noteq> 0 \<longrightarrow> d \<noteq> 0" "n = 0 \<longrightarrow> ds = []"
    using decimal_first by blast
  have dg: "digit_of 10 (of_nat (48 + d)) = Some d" by (rule digit_of_digit [OF d(2)])
  have z: "(of_nat (48 + d) :: byte) = 48 \<longleftrightarrow> d = 0" using unat_digit [OF d(2)] by (auto simp: word_unat_eq_iff)
  show ?thesis
  proof (cases "n = 0")
    case True
    then have "decimal n = [48]" by (simp add: decimal.simps)
    moreover have "digit_of 8 48 = Some 0" "digit_of 10 48 = Some 0" by (simp_all add: digit_of_def)
    ultimately show ?thesis using assms stop [of 8] True
      by (auto simp: inet_part_def split: list.splits)
  next
    case False
    have "inet_part (decimal n @ rest) = Some (read_digits 10 0 (decimal n @ rest))"
      using False d z dg by (simp add: inet_part_def del: of_nat_add)
    then show ?thesis using stop [of 10] by (simp add: read_decimal)
  qed
qed

lemma inet_addr_dotted: "octets q \<Longrightarrow> inet_addr (dotted q) = quad_addr q"
proof -
  assume "octets q"
  moreover obtain a b c d where "q = (a, b, c, d)" by (metis prod_cases4)
  ultimately show ?thesis
    by (simp add: inet_addr_def dotted_def quad_addr_def octets_def numeral_3_eq_3 inet_part_decimal
        inet_part_decimal [where rest = "[]", simplified] inet_last_def algebra_simps)
qed

fun comma_list :: "byte list list \<Rightarrow> byte list" where
  "comma_list [] = []"
| "comma_list [p] = p"
| "comma_list (p # ps) = p @ [44] @ comma_list ps"

lemma split_at_piece: "c \<notin> set p \<Longrightarrow> split_at c p = [p]"
  by (induction p) auto

lemma split_at_append: "c \<notin> set p \<Longrightarrow> split_at c (p @ c # r) = p # split_at c r"
  by (induction p) auto

lemma split_comma_list: "ps \<noteq> [] \<Longrightarrow> list_all (\<lambda>p. 44 \<notin> set p) ps \<Longrightarrow> split_at 44 (comma_list ps) = ps"
  by (induction ps rule: comma_list.induct) (simp_all add: split_at_piece split_at_append)

lemma match_addr_set: "match_addr a ps \<longleftrightarrow> a \<in> inet_addr ` set ps"
  by (induction ps) auto

lemma decimal_bytes: "b \<in> set (decimal n) \<Longrightarrow> 48 \<le> unat b \<and> unat b \<le> 57"
proof (induction n rule: decimal.induct)
  case (1 n)
  show ?case
  proof (cases "n < 10")
    case True
    then show ?thesis using "1.prems" unat_digit [OF True] by (simp add: decimal.simps [of n] del: of_nat_add)
  next
    case False
    have "unat (of_nat (48 + n mod 10) :: byte) = 48 + n mod 10" by (rule unat_digit) simp
    then show ?thesis using "1.IH" [OF False] "1.prems" False by (auto simp: decimal.simps [of n] simp del: of_nat_add)
  qed
qed

lemma dotted_bytes: "b \<in> set (dotted q) \<Longrightarrow> b \<noteq> 0 \<and> b \<noteq> 44"
  using decimal_bytes [of b] by (fastforce simp: dotted_def split: prod.splits)

lemma dotted_ne: "dotted q \<noteq> []"
  by (simp add: dotted_def split: prod.splits)

lemma dotted_no_comma: "44 \<notin> set (dotted q)"
  using dotted_bytes by blast

text \<open>C33. With a list of dotted addresses in \<open>FCGI_WEB_SERVER_ADDRS\<close>, a client is admitted exactly when its address is in
  the list.\<close>

theorem ClientAddrOK_dotted:
  assumes "qs \<noteq> []" "list_all octets qs"
  shows "ClientAddrOK a (Some (comma_list (map dotted qs))) \<longleftrightarrow> a \<in> quad_addr ` set qs"
proof -
  have "b \<noteq> 0" if "b \<in> set (comma_list (map dotted qs))" for b
    using that dotted_bytes by (induction qs rule: induct_list012) fastforce+
  then have cs: "c_str (comma_list (map dotted qs)) = comma_list (map dotted qs)"
    by (simp add: c_str_def takeWhile_eq_all_conv)
  have ne: "comma_list (map dotted qs) \<noteq> []"
    using assms(1) dotted_ne by (cases qs; cases "tl qs") simp_all
  have sp: "split_at 44 (comma_list (map dotted qs)) = map dotted qs"
    by (rule split_comma_list) (use assms(1) in \<open>auto simp: list_all_iff dotted_no_comma\<close>)
  have "inet_addr ` set (map dotted qs) = quad_addr ` set qs"
    using assms(2) inet_addr_dotted by (force simp: list_all_iff image_image)
  then show ?thesis by (simp add: ClientAddrOK_def cs ne sp match_addr_set)
qed

theorem ClientAddrOK_dotted_witness:
  "ClientAddrOK (quad_addr (10, 0, 0, 7)) (Some (comma_list (map dotted [(127, 0, 0, 1), (10, 0, 0, 7)])))
    \<longleftrightarrow> quad_addr (10, 0, 0, 7) \<in> quad_addr ` set [(127, 0, 0, 1), (10, 0, 0, 7)]"
  by (rule ClientAddrOK_dotted) (simp_all add: octets_def)


section \<open>Which connections are accepted\<close>

definition approved :: "byte list option \<Rightarrow> int \<Rightarrow> peer \<Rightarrow> conn \<Rightarrow> os \<Rightarrow> bool" where
  "approved addrs fd p c w \<longleftrightarrow> AcceptConn fd p c \<in> set (acceptScript w) \<and> (\<forall>a. p = PeerInet a \<longrightarrow> ClientAddrOK a addrs)"

lemma posix_accept_script:
  assumes "posix_accept sa w = Inr (s, sa', w')"
  shows "\<exists>e. acceptScript w = e # acceptScript w'" "0 \<le> s \<Longrightarrow> AcceptConn s sa' (conns w' s) \<in> set (acceptScript w)"
  using assms by (auto simp: posix_accept_def Let_def split: list.splits accept_event.splits)

lemma posix_close_frame [simp]:
  "acceptScript (snd (posix_close fd w)) = acceptScript w" "shutdownPending (snd (posix_close fd w)) = shutdownPending w"
  "\<not> isOpen (conns (snd (posix_close fd w)) fd)"
  by (simp_all add: posix_close_def)

lemma approved_mono: "approved addrs s p c w' \<Longrightarrow> set (acceptScript w') \<subseteq> set (acceptScript w) \<Longrightarrow> approved addrs s p c w"
  by (auto simp: approved_def)

lemma accept_loop_origin:
  assumes "accept_loop fuel f addrs socket sa w = Inr (True, s', sa', w')" "socket < 0 \<or> sa = PeerUnix"
  shows "set (acceptScript w') \<subseteq> set (acceptScript w) \<and> 0 \<le> s' \<and>
    (approved addrs s' sa' (conns w' s') w \<or> s' = socket \<and> sa' = sa \<and> w' = w \<and> shutdownPending w)"
  using assms
proof (induction fuel arbitrary: socket sa w)
  case 0
  then show ?case by simp
next
  case (Suc fuel)
  show ?case
  proof (cases "shutdownPending w")
    case True
    then show ?thesis using Suc.prems
      by (auto simp: accept_loop.simps(2) split: if_splits peer.splits)
  next
    case False
    then obtain s1 sa1 w1 where a: "posix_accept sa w = Inr (s1, sa1, w1)"
      using Suc.prems(1) by (auto simp: accept_loop.simps(2) bindr_Inr_iff)
    note sc = posix_accept_script [OF a]
    have sub: "set (acceptScript w1) \<subseteq> set (acceptScript w)" using sc(1) by auto
    have rec: ?thesis if "accept_loop fuel f addrs socket' sa'' u = Inr (True, s', sa', w')" "socket' < 0" "acceptScript u = acceptScript w1"
      for socket' sa'' u
    proof -
      from Suc.IH [OF that(1)] that(2) have "set (acceptScript w') \<subseteq> set (acceptScript u)" "0 \<le> s'" "approved addrs s' sa' (conns w' s') u" by auto
      then show ?thesis using approved_mono [of addrs s' sa' _ u w] sub that(3) by auto
    qed
    show ?thesis
    proof (cases "s1 < 0")
      case True
      then show ?thesis using Suc.prems(1) a False rec [of s1 sa1 w1] rec [of s1 sa1 "w1\<lparr>osErrno := 0\<rparr>"]
        by (auto simp: accept_loop.simps(2) split: if_splits)
    next
      case pos: False
      show ?thesis
      proof (cases "\<exists>x. sa1 = PeerInet x \<and> \<not> ClientAddrOK x addrs")
        case True
        then show ?thesis using Suc.prems(1) a False pos rec [of "- 1" sa1 "snd (posix_close s1 w1)"]
          by (auto simp: accept_loop.simps(2))
      next
        case ok: False
        then have "s' = s1" "sa' = sa1" "w' = w1" using Suc.prems(1) a False pos
          by (auto simp: accept_loop.simps(2) split: peer.splits if_splits)
        then show ?thesis using ok sc(2) pos sub by (auto simp: approved_def)
      qed
    qed
  qed
qed

lemma keeper_closed: "\<not> isOpen (conns w fd) \<Longrightarrow> is_af_unix_keeper fd w = (False, w)"
  by (simp add: is_af_unix_keeper_def posix_poll_def)

lemma keeper_frame:
  "is_af_unix_keeper fd w = (b, w') \<Longrightarrow> acceptScript w' = acceptScript w"
  by (auto simp: is_af_unix_keeper_def posix_poll_def Let_def split: if_splits list.splits poll_event.splits)

lemma OS_Accept_loop_approved:
  assumes "OS_Accept_loop fuel f addrs socket sa w = Inr (fd, w')" "0 \<le> fd"
    "socket < 0 \<or> sa = PeerUnix \<and> \<not> isOpen (conns w socket)"
  shows "\<exists>p c. approved addrs fd p c w"
  using assms
proof (induction fuel arbitrary: socket sa w)
  case 0
  then show ?case by simp
next
  case (Suc fuel)
  from Suc.prems(1,2) obtain s1 sa1 w1 where a: "accept_loop (Suc (length (acceptScript w))) f addrs socket sa w = Inr (True, s1, sa1, w1)"
    by (auto simp: OS_Accept_loop.simps(2) bindr_Inr_iff split: if_splits)
  have "socket < 0 \<or> sa = PeerUnix" using Suc.prems(3) by auto
  note o = accept_loop_origin [OF a this]
  obtain k w2 where kp: "is_af_unix_keeper s1 w1 = (k, w2)" by fastforce
  note run = Suc.prems(1) [unfolded OS_Accept_loop.simps(2) a, simplified, unfolded kp, simplified]
  show ?case
  proof (cases "sa1 = PeerUnix \<and> \<not> k")
    case False
    then have fd: "fd = s1" using run by (auto split: if_splits)
    show ?thesis
    proof (cases "approved addrs s1 sa1 (conns w1 s1) w")
      case False
      then have "s1 = socket" "sa1 = sa" "w1 = w" using o by auto
      then show ?thesis using Suc.prems(2,3) \<open>\<not> (sa1 = PeerUnix \<and> \<not> k)\<close> kp keeper_closed fd by auto
    qed (use fd in blast)
  next
    case True
    then have r: "OS_Accept_loop fuel f addrs s1 sa1 (snd (posix_close s1 w2)) = Inr (fd, w')" using run by simp
    from Suc.IH [OF r Suc.prems(2)] True obtain p c where "approved addrs fd p c (snd (posix_close s1 w2))" by auto
    moreover have "set (acceptScript (snd (posix_close s1 w2))) \<subseteq> set (acceptScript w)" using o keeper_frame [OF kp] by simp
    ultimately show ?thesis using approved_mono by blast
  qed
qed

text \<open>C6. A descriptor \<open>OS_Accept\<close> returns is one the kernel delivered, and if its peer is an IPv4 address the address is
  approved.\<close>

theorem OS_Accept_approved:
  assumes "OS_Accept f addrs w = Inr (fd, w')" "0 \<le> fd"
  shows "\<exists>p c. AcceptConn fd p c \<in> set (acceptScript w) \<and> (\<forall>a. p = PeerInet a \<longrightarrow> ClientAddrOK a addrs)"
  using OS_Accept_loop_approved [OF assms(1) [unfolded OS_Accept_def] assms(2)] by (auto simp: approved_def)

definition sample_mixed :: os where
  "sample_mixed = (sample_os [])\<lparr>acceptScript := [AcceptErr ECONNABORTED, AcceptConn 6 (PeerInet 1) (sample_conn []),
     AcceptConn 7 (PeerInet (quad_addr (127, 0, 0, 1))) (sample_conn [])]\<rparr>"

lemma sample_mixed_accepts: "\<exists>w'. OS_Accept False None sample_mixed = Inr (6, w')"
  by (simp add: OS_Accept_def OS_Accept_loop.simps(2) accept_loop.simps(2) sample_mixed_def posix_accept_def
      is_reasonable_accept_errno_def errno_defs ClientAddrOK_def sample_os_def)

theorem OS_Accept_approved_witness:
  "\<exists>p c. AcceptConn 6 p c \<in> set (acceptScript sample_mixed) \<and> (\<forall>a. p = PeerInet a \<longrightarrow> ClientAddrOK a None)"
  using sample_mixed_accepts OS_Accept_approved [of False None sample_mixed 6] by auto

section \<open>When accepting ends\<close>

lemma accept_loop_ends:
  assumes "length (acceptScript w) < fuel" "socket < 0 \<or> sa = PeerUnix"
  shows "accept_loop fuel f addrs socket sa w = Inl Blocked \<or>
    (\<exists>ok s' sa' w'. accept_loop fuel f addrs socket sa w = Inr (ok, s', sa', w') \<and>
       (ok \<longrightarrow> \<not> shutdownPending w \<or> socket < 0 \<longrightarrow> \<not> shutdownPending w' \<and> length (acceptScript w') < length (acceptScript w)))"
  using assms
proof (induction fuel arbitrary: socket sa w)
  case 0
  then show ?case by simp
next
  case (Suc fuel)
  show ?case
  proof (cases "shutdownPending w")
    case True
    then show ?thesis using Suc.prems(2) by (auto simp: accept_loop.simps(2))
  next
    case False
    show ?thesis
    proof (cases "acceptScript w")
      case Nil
      then show ?thesis using False by (simp add: accept_loop.simps(2) posix_accept_def)
    next
      case (Cons e es)
      then obtain s1 sa1 w1 where a: "posix_accept sa w = Inr (s1, sa1, w1)" "acceptScript w1 = es"
        by (cases e) (auto simp: posix_accept_def)
      have sp: "0 \<le> s1 \<Longrightarrow> \<not> shutdownPending w1" using a(1) False Cons
        by (auto simp: posix_accept_def Let_def split: accept_event.splits)
      have rec: "accept_loop fuel f addrs s sa' u = Inl Blocked \<or> (\<exists>ok s' sa'' w'.
          accept_loop fuel f addrs s sa' u = Inr (ok, s', sa'', w') \<and>
          (ok \<longrightarrow> \<not> shutdownPending w' \<and> length (acceptScript w') < length (acceptScript w)))"
        if "s < 0" "acceptScript u = es" for s sa' u
        using Suc.IH [of u s sa'] Suc.prems(1) that Cons by auto
      show ?thesis
      proof (cases "s1 < 0")
        case True
        then show ?thesis using rec [of s1 w1 sa1] rec [of s1 "w1\<lparr>osErrno := 0\<rparr>" sa1] False a
          by (cases f) (auto simp: accept_loop.simps(2))
      next
        case pos: False
        then show ?thesis using rec [of "- 1" "snd (posix_close s1 w1)" sa1] False a Cons sp
          by (cases sa1) (auto simp: accept_loop.simps(2))
      qed
    qed
  qed
qed

lemma keeper_unsignalled:
  "PollSignal \<notin> set (pollScript (conns w fd)) \<Longrightarrow> is_af_unix_keeper fd w = (b, w') \<Longrightarrow> shutdownPending w' = shutdownPending w"
  by (auto simp: is_af_unix_keeper_def posix_poll_def Let_def split: if_splits list.splits poll_event.splits)


lemma OS_Accept_loop_ends:
  assumes "length (acceptScript w) + 1 < fuel" "socket < 0 \<or> sa = PeerUnix \<and> \<not> shutdownPending w"
    "\<And>fd p c. AcceptConn fd p c \<in> set (acceptScript w) \<Longrightarrow> PollSignal \<notin> set (pollScript c)"
  shows "OS_Accept_loop fuel f addrs socket sa w = Inl Blocked \<or> (\<exists>fd w'. OS_Accept_loop fuel f addrs socket sa w = Inr (fd, w'))"
  using assms
proof (induction fuel arbitrary: socket sa w)
  case 0
  then show ?case by simp
next
  case (Suc fuel)
  let ?a = "accept_loop (Suc (length (acceptScript w))) f addrs socket sa w"
  have su: "socket < 0 \<or> sa = PeerUnix" using Suc.prems(2) by auto
  from accept_loop_ends [OF _ su, of w "Suc (length (acceptScript w))" f addrs] have "?a = Inl Blocked \<or> (\<exists>ok s' sa' w'. ?a = Inr (ok, s', sa', w') \<and>
       (ok \<longrightarrow> \<not> shutdownPending w' \<and> length (acceptScript w') < length (acceptScript w)))"
    using Suc.prems(2) by auto
  then consider (blk) "?a = Inl Blocked" | (no) s' sa' w' where "?a = Inr (False, s', sa', w')"
    | (yes) s' sa' w' where "?a = Inr (True, s', sa', w')" "\<not> shutdownPending w'" "length (acceptScript w') < length (acceptScript w)"
    by (metis (full_types))
  then show ?case
  proof cases
    case yes
    note o = accept_loop_origin [OF yes(1) su]
    have "approved addrs s' sa' (conns w' s') w" using o Suc.prems(2) yes(2) by auto
    then have ps: "PollSignal \<notin> set (pollScript (conns w' s'))" using Suc.prems(3) by (auto simp: approved_def)
    obtain k w2 where kp: "is_af_unix_keeper s' w' = (k, w2)" by fastforce
    let ?u = "snd (posix_close s' w2)"
    have u: "acceptScript ?u = acceptScript w'" "\<not> shutdownPending ?u"
      using keeper_frame [OF kp] keeper_unsignalled [OF ps kp] yes(2) by simp_all
    have "OS_Accept_loop fuel f addrs s' PeerUnix ?u = Inl Blocked \<or> (\<exists>fd w'. OS_Accept_loop fuel f addrs s' PeerUnix ?u = Inr (fd, w'))"
      by (rule Suc.IH) (use u yes(3) Suc.prems(1,3) o in auto)
    then show ?thesis using yes(1) kp by (auto simp: OS_Accept_loop.simps(2))
  qed (simp_all add: OS_Accept_loop.simps(2))
qed

text \<open>C7. \<open>OS_Accept\<close> returns, or waits in \<open>accept\<close> for an event that never comes, for every sequence of connections,
  errors and signals in which no shutdown signal interrupts the wait for the first bytes of a connection.\<close>

theorem OS_Accept_returns:
  assumes "\<And>fd p c. AcceptConn fd p c \<in> set (acceptScript w) \<Longrightarrow> PollSignal \<notin> set (pollScript c)"
  shows "OS_Accept f addrs w = Inl Blocked \<or> (\<exists>fd w'. OS_Accept f addrs w = Inr (fd, w'))"
  unfolding OS_Accept_def by (rule OS_Accept_loop_ends) (use assms in simp_all)

theorem OS_Accept_returns_witness:
  "OS_Accept False (Some (dotted (127, 0, 0, 1))) sample_mixed = Inl Blocked \<or>
     (\<exists>fd w'. OS_Accept False (Some (dotted (127, 0, 0, 1))) sample_mixed = Inr (fd, w'))"
  by (rule OS_Accept_returns) (auto simp: sample_mixed_def sample_conn_def)

lemma OS_Accept_loop_stale:
  assumes "shutdownPending w" "0 \<le> socket" "\<not> isOpen (conns w socket)"
  shows "OS_Accept_loop fuel f addrs socket PeerUnix w = Inl NoReturn"
  using assms
proof (induction fuel arbitrary: w)
  case (Suc fuel)
  have "accept_loop (Suc (length (acceptScript w))) f addrs socket PeerUnix w = Inr (True, socket, PeerUnix, w)"
    using Suc.prems by (simp add: accept_loop.simps(2))
  then show ?case using Suc.IH [of "snd (posix_close socket w)"] Suc.prems keeper_closed
    by (simp add: OS_Accept_loop.simps(2))
qed simp

text \<open>C32. If the shutdown signal arrives while \<open>OS_Accept\<close> waits for the first bytes of a Unix domain connection, it never
  returns: the socket variable keeps the number of the descriptor just closed, no further \<open>accept\<close> is tried, and both
  loops go round for ever.\<close>

theorem OS_Accept_shutdown_hangs:
  assumes "\<not> shutdownPending w" "acceptScript w = AcceptConn fd PeerUnix c # es" "0 \<le> fd" "isOpen c"
    "pollScript c = PollSignal # ps"
  shows "OS_Accept_loop fuel f addrs (- 1) PeerOther w = Inl NoReturn"
proof (cases fuel)
  case (Suc n)
  define w1 where "w1 = w\<lparr>acceptScript := es, conns := (conns w)(fd := c)\<rparr>"
  have "accept_loop (Suc (length (acceptScript w))) f addrs (- 1) PeerOther w = Inr (True, fd, PeerUnix, w1)"
    using assms by (simp add: accept_loop.simps(2) posix_accept_def w1_def)
  moreover obtain w2 where "is_af_unix_keeper fd w1 = (False, w2)" "shutdownPending w2"
    using assms(4,5) by (simp add: is_af_unix_keeper_def posix_poll_def w1_def)
  ultimately show ?thesis
    using OS_Accept_loop_stale [of "snd (posix_close fd w2)" fd n f addrs] assms(3)
    by (simp add: Suc OS_Accept_loop.simps(2))
qed simp

definition sample_signalled :: os where
  "sample_signalled = (sample_os [])\<lparr>acceptScript := [AcceptConn 6 PeerUnix ((sample_conn [])\<lparr>pollScript := [PollSignal]\<rparr>)]\<rparr>"

theorem OS_Accept_shutdown_hangs_witness:
  "OS_Accept_loop 1000 False None (- 1) PeerOther sample_signalled = Inl NoReturn"
  by (rule OS_Accept_shutdown_hangs [of _ 6 "(sample_conn [])\<lparr>pollScript := [PollSignal]\<rparr>" "[]" "[]"])
    (simp_all add: sample_signalled_def sample_conn_def sample_os_def)

end
