(* ===== verification/Fcgi_Request_Correct.thy ===== *)
theory Fcgi_Request_Correct
  imports Fcgi_Exchange Fcgi_Request Fcgi_Accept_Correct
begin

text \<open>
  What accepting and finishing a request do. \<open>Accept_r_accepts\<close>: from a connection that carries a
  well-formed request, however it is fragmented, \<open>FCGX_Accept_r\<close> builds a request whose environment is the
  name-value pairs sent, whose input stream delivers the FCGI_STDIN content and whose output streams are empty.
  \<open>Finish_r_sends\<close>: finishing sends what the output streams still hold, the end of the streams and the
  FCGI_END_REQUEST record, and closes the connection unless it is to be kept.
\<close>

unbundle bit_operations_syntax

section \<open>Reading the head of a request\<close>

definition fresh_mem :: "os \<Rightarrow> os" where
  "fresh_mem w = w\<lparr>mallocCount := Suc (mallocCount w)\<rparr>"

lemma incoming_fresh [simp]: "incoming fd (fresh_mem w) = incoming fd w"
  by (simp add: incoming_def fresh_mem_def)

lemma ReadParams_stream:
  assumes "rd_inv s" "records (requestId (rqd s)) FCGI_PARAMS pad tail (unread s) (pairs_bytes nvs)" "list_all pair_fits nvs"
    "0 < requestId (rqd s)" "requestId (rqd s) \<le> 65535" "pad \<le> 255" "params_ok p"
  shows "\<exists>s1 s2 p'. SetReaderType FCGI_PARAMS s = Inr s1 \<and> ReadParams FillBuffProc p s1 = Inr (0, p', s2)
    \<and> isClosed (strm s2) \<and> stream_ended (stream_ctx s FCGI_PARAMS pad tail) s2
    \<and> params_ok p' \<and> entries p' = entries p @ map pair_entry nvs"
proof -
  have "FCGI_PARAMS \<noteq> FCGI_BEGIN_REQUEST" "0 \<le> FCGI_PARAMS" "FCGI_PARAMS \<le> 255" by (simp_all add: fcgi_consts)
  then obtain s1 where s1: "SetReaderType FCGI_PARAMS s = Inr s1"
      "stream_yields (stream_ctx s FCGI_PARAMS pad tail) s1 (pairs_bytes nvs)"
    using SetReaderType_yields [OF assms(1,2,4,5)] assms(6) by blast
  then have "stream_yields (stream_ctx s FCGI_PARAMS pad tail) s1 (pairs_bytes nvs)
      \<and> \<not> k_eor (stream_ctx s FCGI_PARAMS pad tail)" by simp
  from stream_source.ReadParams_pairs [OF this assms(3,7)] s1(1) show ?thesis by blast
qed

definition new_params :: "byte list \<Rightarrow> Params res" where
  "new_params e = bindr (NewParams 30) (\<lambda>p. PutParam p e)"

lemma new_params_ok: "\<exists>p. new_params e = Inr p \<and> params_ok p \<and> entries p = [e]"
proof -
  obtain p where p: "NewParams 30 = Inr p" "params_ok p" "entries p = []" using NewParams_ok [of 30] by auto
  from PutParam_ok [OF p(2), of e] show ?thesis using p by (auto simp: new_params_def)
qed

lemma read_request_accepts:
  assumes inc: "incoming (ipcFd (reqData q)) w = rec_bytes FCGI_BEGIN_REQUEST rid (begin_body_bytes b) [] @ pw"
    and rec: "records rid FCGI_PARAMS pad tail pw (pairs_bytes nvs)" and fit: "list_all pair_fits nvs"
    and rid: "0 < rid" "rid \<le> 65535" and pad: "pad \<le> 255" and body: "length (b_reserved b) = 5"
    and role: "role_string (be16 (b_roleB1 b) (b_roleB0 b)) = Some rs"
  shows "\<exists>w' p t. read_request q w = Inr (True, q\<lparr>reqData := request_of rid b (reqData q), reqIn := Some t,
        paramsPtr := Some p\<rparr>, w')
     \<and> params_ok p \<and> entries p = rs # map pair_entry nvs \<and> FCGI_errno t = 0 \<and> same_output (fresh_mem w) w'
     \<and> rd_inv \<lparr>strm = t, rqd = request_of rid b (reqData q), sys = w'\<rparr>
     \<and> unread \<lparr>strm = t, rqd = request_of rid b (reqData q), sys = w'\<rparr> = tail"
proof -
  define r where "r = (reqData q)\<lparr>isBeginProcessed := False\<rparr>"
  obtain t w1 where nr: "NewReader 8192 0 w = (t, w1)" by fastforce
  define s where "s = \<lparr>strm = t, rqd = r, sys = w1\<rparr>"
  have w1: "w1 = fresh_mem w" using NewReader_idle(1) [OF nr] by (simp add: fresh_mem_def)
  have id: "idle s" using NewReader_idle(5) [OF nr] by (simp add: s_def)
  have un: "unread s = rec_bytes FCGI_BEGIN_REQUEST rid (begin_body_bytes b) [] @ pw"
    using inc NewReader_idle(4) [OF nr] by (simp add: s_def unread_def w1 r_def)
  have "pw \<noteq> []" using records_length [OF rec [unfolded records_def]] by auto
  with FillBuffProc_begin [OF id un] obtain s1 where s1: "FillBuffProc s = Inr s1" "rd_inv s1" "unread s1 = pw"
      "rqd s1 = request_of rid b r" "same_output w1 (sys s1)" "FCGI_errno (strm s1) = 0"
    using body rid NewReader_idle(3) [OF nr] by (auto simp: s_def r_def)
  have rq: "requestId (rqd s1) = rid" "isBeginProcessed (rqd s1)" "role (rqd s1) = be16 (b_roleB1 b) (b_roleB0 b)"
    "request_of rid b r = request_of rid b (reqData q)"
    using s1(4) by (simp_all add: request_of_def r_def)
  obtain p where p: "new_params rs = Inr p" "params_ok p" "entries p = [rs]" using new_params_ok by blast
  then obtain p0 where p0: "NewParams 30 = Inr p0" "PutParam p0 rs = Inr p" by (auto simp: new_params_def bindr_Inr_iff)
  obtain s2 s3 p' where s3: "SetReaderType FCGI_PARAMS s1 = Inr s2" "ReadParams FillBuffProc p s2 = Inr (0, p', s3)"
      "stream_ended (stream_ctx s1 FCGI_PARAMS pad tail) s3" "params_ok p'" "entries p' = [rs] @ map pair_entry nvs"
    using ReadParams_stream [OF s1(2) _ fit _ _ pad p(2), of tail] rec rid rq(1) s1(3) p(3) by auto
  note e = stream_ended_idle [OF s3(3)]
  have "read_request q w = Inr (True, q\<lparr>reqData := request_of rid b (reqData q), reqIn := Some (strm s3),
      paramsPtr := Some p'\<rparr>, sys s3)"
    using s1(1,4) rq role p0 s3(1,2) e(2)
    by (simp add: read_request_def nr s_def [symmetric] r_def [symmetric] Let_def)
  moreover have "\<lparr>strm = strm s3, rqd = request_of rid b (reqData q), sys = sys s3\<rparr> = s3"
    using e(2) s1(4) rq(4) by simp
  moreover have "same_output (fresh_mem w) (sys s3)" using same_output_trans [OF s1(5) e(4)] by (simp add: w1)
  ultimately show ?thesis using s3(4,5) e s1(6)
    by (intro exI [of _ "sys s3"] exI [of _ p'] exI [of _ "strm s3"]) simp
qed


section \<open>The request built from it\<close>

definition wr_ready :: "FCGX_Stream \<Rightarrow> bool" where
  "wr_ready t \<longleftrightarrow> (\<forall>r w. wr_inv \<lparr>strm = t, rqd = r, sys = w\<rparr>) \<and> \<not> rawWrite t \<and> 8 \<le> wrNext t"

lemma NewWriter_ready:
  assumes "NewWriter len ty w = (t, w')"
  shows "wr_ready t" "w' = fresh_mem w" "dtype t = ty" "FCGI_errno t = 0" "\<not> isAnythingWritten t" "\<not> wasFCloseCalled t"
    "content t = []"
proof -
  have t: "t = fst (NewStream len False ty w)" using assms by (simp add: NewWriter_def)
  have f: "isReader t = False" "isClosed t = False" "stop t = bufflen t" "wrNext t = 8" "rawWrite t = False"
    unfolding t by (simp_all add: NewStream_def Let_def FCGI_HEADER_LEN_def)
  then show "wr_ready t" using NewStream_bufflen [of len False ty w] t by (simp add: wr_ready_def wr_inv_def)
  show "w' = fresh_mem w" "dtype t = ty" "FCGI_errno t = 0" "\<not> isAnythingWritten t" "\<not> wasFCloseCalled t"
    using assms by (auto simp: NewWriter_def NewStream_def Let_def fresh_mem_def)
  show "content t = []" using f by (simp add: content_def)
qed

lemma took_content_self:
  "wr_ready t \<Longrightarrow> writable (ipcFd r) w \<Longrightarrow>
   took_content \<lparr>strm = t, rqd = r, sys = w\<rparr> \<lparr>strm = t, rqd = r, sys = w\<rparr> (content t)"
  using framed.none by (simp add: wr_ready_def took_content_def writing_def)

lemma build_request_ok:
  assumes "reqIn q = Some t" "paramsPtr q = Some p" "isReader t"
  shows "\<exists>t1 tout terr. SetReaderType FCGI_STDIN \<lparr>strm = t, rqd = reqData q, sys = w\<rparr> =
        Inr \<lparr>strm = t1, rqd = reqData q, sys = w\<rparr>
    \<and> build_request q w = Inr (q\<lparr>reqIn := Some t1, reqOut := Some tout, reqErr := Some terr,
        reqData := (reqData q)\<lparr>nWriters := 2\<rparr>, envp := Some (vec p)\<rparr>, fresh_mem (fresh_mem w))
    \<and> wr_ready tout \<and> content tout = [] \<and> dtype tout = FCGI_STDOUT \<and> FCGI_errno tout = 0 \<and> \<not> isAnythingWritten tout
      \<and> \<not> wasFCloseCalled tout
    \<and> wr_ready terr \<and> content terr = [] \<and> dtype terr = FCGI_STDERR \<and> FCGI_errno terr = 0 \<and> \<not> isAnythingWritten terr
      \<and> \<not> wasFCloseCalled terr"
proof -
  obtain tout w1 where o: "NewWriter 8192 FCGI_STDOUT w = (tout, w1)" by fastforce
  obtain terr w2 where e: "NewWriter 512 FCGI_STDERR w1 = (terr, w2)" by fastforce
  obtain t1 where t1: "SetReaderType FCGI_STDIN \<lparr>strm = t, rqd = reqData q, sys = w\<rparr> =
      Inr \<lparr>strm = t1, rqd = reqData q, sys = w\<rparr>"
    using assms(3) by (simp add: SetReaderType_def upd_def)
  show ?thesis using assms(1,2) t1 o e NewWriter_ready [OF o] NewWriter_ready [OF e]
    by (intro exI [of _ t1] exI [of _ tout] exI [of _ terr]) (simp add: build_request_def)
qed

section \<open>Closing the connection\<close>

lemma posix_poll_frame:
  assumes "posix_poll fd w = (rv, b, w')"
  shows "isOpen (conns w' f) = isOpen (conns w f)" "sent (conns w' f) = sent (conns w f)"
    "f \<noteq> fd \<Longrightarrow> conns w' f = conns w f" "acceptScript w' = acceptScript w" "shutdownNow w' = shutdownNow w"
    "aioState w' = aioState w"
  using assms by (auto simp: posix_poll_def Let_def split: if_splits list.splits poll_event.splits)

lemma posix_read_frame:
  assumes "posix_read fd len w = (n, bs, w')"
  shows "isOpen (conns w' f) = isOpen (conns w f)" "sent (conns w' f) = sent (conns w f)"
    "f \<noteq> fd \<Longrightarrow> conns w' f = conns w f" "acceptScript w' = acceptScript w" "shutdownNow w' = shutdownNow w"
    "aioState w' = aioState w"
  using assms by (auto simp: posix_read_def Let_def split: if_splits list.splits rd_event.splits)

definition closed_from :: "int \<Rightarrow> os \<Rightarrow> os \<Rightarrow> bool" where
  "closed_from fd w w' \<longleftrightarrow> (\<forall>f. sent (conns w' f) = sent (conns w f)) \<and> (\<forall>f. f \<noteq> fd \<longrightarrow> conns w' f = conns w f)
     \<and> acceptScript w' = acceptScript w \<and> shutdownNow w' = shutdownNow w \<and> aioState w' = aioState w"

lemma closed_from_refl [simp]: "closed_from fd w w"
  by (simp add: closed_from_def)

lemma closed_from_trans: "closed_from fd u v \<Longrightarrow> closed_from fd v w \<Longrightarrow> closed_from fd u w"
  by (simp add: closed_from_def)

lemma drain_input_frame: "closed_from fd w (drain_input fd w) \<and> isOpen (conns (drain_input fd w) fd) = isOpen (conns w fd)"
proof (induction fd w rule: drain_input.induct)
  case (1 fd w)
  obtain rv b w1 where p: "posix_poll fd w = (rv, b, w1)" by (metis prod_cases3)
  obtain n bs w2 where r: "posix_read fd 1024 w1 = (n, bs, w2)" by (metis prod_cases3)
  have "closed_from fd w w1" "closed_from fd w1 w2" "isOpen (conns w1 fd) = isOpen (conns w fd)"
    "isOpen (conns w2 fd) = isOpen (conns w1 fd)"
    using posix_poll_frame [OF p] posix_read_frame [OF r] by (simp_all add: closed_from_def)
  then show ?case using 1 p r closed_from_trans by (auto simp: drain_input.simps [of fd w])
qed

lemma OS_IpcClose_closes:
  assumes "fd \<noteq> - 1" "\<not> asyncIoInUse (aioState w)" "isOpen (conns w fd)"
  shows "\<exists>w'. OS_IpcClose fd b w = Inr (0, w') \<and> closed_from fd w w' \<and> \<not> isOpen (conns w' fd)"
proof -
  define u where "u = (if b \<and> isOpen (conns w fd) \<and> isSocket (conns w fd) then drain_input fd w else w)"
  have u: "closed_from fd w u" "isOpen (conns u fd)" using drain_input_frame [of fd w] assms(3) by (auto simp: u_def)
  have a: "close_async fd (aioState w) = Inr (aioState w)" using assms(2) by (simp add: close_async_def)
  have "OS_IpcClose fd b w = Inr (posix_close fd u)"
    using assms(1) by (simp add: OS_IpcClose_def OS_Close_def a Let_def u_def)
  then show ?thesis using u by (auto simp: posix_close_def closed_from_def)
qed

section \<open>Finishing a request\<close>

lemma close_writer:
  assumes "wr_ready t" "\<not> wasFCloseCalled t" "writable (ipcFd (reqData q)) w"
  shows "\<exists>t' w' fr. with_stream (Some t) q w (FCGX_FClose EmptyBuffProc) =
       Inr (if FCGI_errno t = 0 then 0 else EOF, t', q\<lparr>reqData := (reqData q)\<lparr>nWriters := nWriters (reqData q) - 1\<rparr>\<rparr>, w')
    \<and> framed (requestId (reqData q)) (dtype t) fr (content t)
    \<and> sent (conns w' (ipcFd (reqData q))) = sent (conns w (ipcFd (reqData q))) @ fr
        @ eof_bytes \<lparr>strm = t, rqd = reqData q, sys = w\<rparr> (content t = [] \<and> \<not> isAnythingWritten t)
        @ end_bytes \<lparr>strm = t, rqd = reqData q, sys = w\<rparr>
    \<and> same_input (ipcFd (reqData q)) w w' \<and> writable (ipcFd (reqData q)) w'"
proof -
  let ?s = "\<lparr>strm = t, rqd = reqData q, sys = w\<rparr>"
  from FClose_writer [OF took_content_self [OF assms(1,3)]] assms(2) obtain s' fr where
    "FCGX_FClose EmptyBuffProc ?s = Inr (if FCGI_errno t = 0 then 0 else EOF, s')"
    "framed (requestId (reqData q)) (dtype t) fr (content t)"
    "sent (conns (sys s') (ipcFd (reqData q))) = sent (conns w (ipcFd (reqData q))) @ fr
        @ eof_bytes ?s (content t = [] \<and> \<not> isAnythingWritten t) @ end_bytes ?s"
    "rqd s' = (reqData q)\<lparr>nWriters := nWriters (reqData q) - 1\<rparr>"
    "same_input (ipcFd (reqData q)) w (sys s')" "writable (ipcFd (reqData q)) (sys s')"
    by auto
  then show ?thesis
    by (intro exI [of _ "strm s'"] exI [of _ "sys s'"] exI [of _ fr]) (simp add: with_stream_def)
qed

text \<open>What finishing a request puts on its connection: the rest of the error stream, the rest of the
  output stream and its end, the FCGI_END_REQUEST record.\<close>

definition finish_bytes :: "FCGX_Request \<Rightarrow> FCGX_Stream \<Rightarrow> FCGX_Stream \<Rightarrow> byte list \<Rightarrow> bool" where
  "finish_bytes q terr tout bs \<longleftrightarrow> (let rid = requestId (reqData q) in
     \<exists>e u. framed rid FCGI_STDERR e (content terr) \<and> framed rid FCGI_STDOUT u (content tout)
       \<and> bs = e @ (if content terr = [] \<and> \<not> isAnythingWritten terr then []
                   else header_bytes (header_for FCGI_STDERR rid 0 0))
              @ u @ header_bytes (header_for FCGI_STDOUT rid 0 0)
              @ end_request_bytes rid (appStatus (reqData q)))"

definition open_request :: "FCGX_Request \<Rightarrow> FCGX_Stream \<Rightarrow> FCGX_Stream \<Rightarrow> FCGX_Stream \<Rightarrow> bool" where
  "open_request q tin tout terr \<longleftrightarrow> reqIn q = Some tin \<and> reqOut q = Some tout \<and> reqErr q = Some terr
     \<and> nWriters (reqData q) = 2 \<and> dtype tout = FCGI_STDOUT \<and> dtype terr = FCGI_STDERR
     \<and> wr_ready tout \<and> wr_ready terr \<and> \<not> wasFCloseCalled tout \<and> \<not> wasFCloseCalled terr"

lemma finish_closes_writers:
  assumes "open_request q tin tout terr" "writable (ipcFd (reqData q)) w"
  obtains t1 q1 w1 t2 w2 bs r1 r2
  where "with_stream (reqErr q) q w (FCGX_FClose EmptyBuffProc) = Inr (r1, t1, q1, w1)"
    "with_stream (reqOut q1) (q1\<lparr>reqErr := Some t1\<rparr>) w1 (FCGX_FClose EmptyBuffProc) =
        Inr (r2, t2, q\<lparr>reqErr := Some t1, reqData := (reqData q)\<lparr>nWriters := 0\<rparr>\<rparr>, w2)"
    "r1 = 0 \<longleftrightarrow> FCGI_errno terr = 0" "r2 = 0 \<longleftrightarrow> FCGI_errno tout = 0"
    "sent (conns w2 (ipcFd (reqData q))) = sent (conns w (ipcFd (reqData q))) @ bs" "finish_bytes q terr tout bs"
    "same_input (ipcFd (reqData q)) w w2" "writable (ipcFd (reqData q)) w2"
proof -
  let ?fd = "ipcFd (reqData q)"
  from assms(1) have q: "reqErr q = Some terr" "reqOut q = Some tout" "nWriters (reqData q) = 2" "dtype tout = FCGI_STDOUT"
    "dtype terr = FCGI_STDERR" "wr_ready tout" "wr_ready terr" "\<not> wasFCloseCalled tout" "\<not> wasFCloseCalled terr"
    by (simp_all add: open_request_def)
  define q1 where "q1 = q\<lparr>reqData := (reqData q)\<lparr>nWriters := 1\<rparr>\<rparr>"
  from close_writer [OF q(7,9) assms(2)] obtain t1 w1 e where e:
    "with_stream (reqErr q) q w (FCGX_FClose EmptyBuffProc) = Inr (if FCGI_errno terr = 0 then 0 else EOF, t1, q1, w1)"
    "framed (requestId (reqData q)) FCGI_STDERR e (content terr)"
    "sent (conns w1 ?fd) = sent (conns w ?fd) @ e @ (if content terr = [] \<and> \<not> isAnythingWritten terr then []
        else header_bytes (header_for FCGI_STDERR (requestId (reqData q)) 0 0))"
    "same_input ?fd w w1" "writable ?fd w1"
    using q by (auto simp: q1_def eof_bytes_def end_bytes_def)
  define q1' where "q1' = q1\<lparr>reqErr := Some t1\<rparr>"
  have q1': "reqData q1' = (reqData q)\<lparr>nWriters := 1\<rparr>" "reqOut q1 = Some tout" "writable (ipcFd (reqData q1')) w1"
    using e(5) q(2) by (simp_all add: q1'_def q1_def)
  from close_writer [OF q(6,8) q1'(3)] obtain t2 w2 u where u:
    "with_stream (reqOut q1) q1' w1 (FCGX_FClose EmptyBuffProc) = Inr (if FCGI_errno tout = 0 then 0 else EOF, t2,
        q1'\<lparr>reqData := (reqData q)\<lparr>nWriters := 0\<rparr>\<rparr>, w2)"
    "framed (requestId (reqData q)) FCGI_STDOUT u (content tout)"
    "sent (conns w2 ?fd) = sent (conns w1 ?fd) @ u @ header_bytes (header_for FCGI_STDOUT (requestId (reqData q)) 0 0)
        @ end_request_bytes (requestId (reqData q)) (appStatus (reqData q))"
    "same_input ?fd w1 w2" "writable ?fd w2"
    using q q1'(1,2) by (auto simp: eof_bytes_def end_bytes_def FCGI_STDOUT_def FCGI_STDERR_def)
  have "finish_bytes q terr tout (e @ (if content terr = [] \<and> \<not> isAnythingWritten terr then []
        else header_bytes (header_for FCGI_STDERR (requestId (reqData q)) 0 0)) @ u
        @ header_bytes (header_for FCGI_STDOUT (requestId (reqData q)) 0 0)
        @ end_request_bytes (requestId (reqData q)) (appStatus (reqData q)))" (is "finish_bytes _ _ _ ?bs")
    using e(2) u(2) unfolding finish_bytes_def Let_def by blast
  moreover have "sent (conns w2 ?fd) = sent (conns w ?fd) @ ?bs" using e(3) u(3) by simp
  moreover have q2: "q1'\<lparr>reqData := (reqData q)\<lparr>nWriters := 0\<rparr>\<rparr> = q\<lparr>reqErr := Some t1, reqData := (reqData q)\<lparr>nWriters := 0\<rparr>\<rparr>"
    by (simp add: q1'_def q1_def)
  ultimately show ?thesis
    by (intro that [OF e(1) u(1) [unfolded q2, unfolded q1'_def]])
      (use u(5) same_input_trans [OF e(4) u(4)] in \<open>simp_all add: q1'_def EOF_def\<close>)
qed

lemma close_stream_some:
  "with_stream t q w (FCGX_FClose EmptyBuffProc) = Inr (r, t1, q1, w1) \<Longrightarrow> close_stream t q w = Inr (r, Some t1, q1, w1)"
  by (cases t) (simp_all add: with_stream_def close_stream_def)

lemma Finish_r_sends:
  assumes "open_request q tin tout terr" "writable (ipcFd (reqData q)) w" "ipcFd (reqData q) \<noteq> - 1"
    "\<not> asyncIoInUse (aioState w)"
    "cl = (\<not> keepConnection (reqData q) \<or> FCGI_errno terr \<noteq> 0 \<or> FCGI_errno tout \<noteq> 0 \<or> FCGI_errno tin \<noteq> 0)"
  shows "\<exists>w' bs. FCGX_Finish_r (Some q) w = Inr (Some (q\<lparr>reqIn := None, reqOut := None, reqErr := None, paramsPtr := None,
        reqData := (if cl then (reqData q)\<lparr>nWriters := 0, ipcFd := - 1, detached := False\<rparr>
                    else (reqData q)\<lparr>nWriters := 0\<rparr>)\<rparr>), w')
    \<and> sent (conns w' (ipcFd (reqData q))) = sent (conns w (ipcFd (reqData q))) @ bs \<and> finish_bytes q terr tout bs
    \<and> isOpen (conns w' (ipcFd (reqData q))) = (\<not> cl)"
proof -
  let ?fd = "ipcFd (reqData q)"
  obtain t1 q1 w1 t2 w2 bs r1 r2 where
    c: "with_stream (reqErr q) q w (FCGX_FClose EmptyBuffProc) = Inr (r1, t1, q1, w1)"
    "with_stream (reqOut q1) (q1\<lparr>reqErr := Some t1\<rparr>) w1 (FCGX_FClose EmptyBuffProc) =
        Inr (r2, t2, q\<lparr>reqErr := Some t1, reqData := (reqData q)\<lparr>nWriters := 0\<rparr>\<rparr>, w2)"
    "r1 = 0 \<longleftrightarrow> FCGI_errno terr = 0" "r2 = 0 \<longleftrightarrow> FCGI_errno tout = 0"
    "sent (conns w2 ?fd) = sent (conns w ?fd) @ bs" "finish_bytes q terr tout bs" "same_input ?fd w w2" "writable ?fd w2"
    by (rule finish_closes_writers [OF assms(1,2)])
  have tin: "reqIn q = Some tin" using assms(1) by (simp add: open_request_def)
  have cl: "(\<not> keepConnection (reqData q) \<or> r1 \<noteq> 0 \<or> r2 \<noteq> 0 \<or> FCGX_GetError tin \<noteq> 0) = cl"
    using assms(5) c(3,4) by (auto simp: FCGX_GetError_def)
  define q2 where "q2 = q\<lparr>reqErr := Some t1, reqData := (reqData q)\<lparr>nWriters := 0\<rparr>, reqOut := Some t2\<rparr>"
  have f: "FCGX_Finish_r (Some q) w = bindr (FCGX_Free q2 cl w2) (\<lambda>(q4, w4). Inr (Some q4, w4))"
    using c(1,2) [THEN close_stream_some] tin cl by (simp add: FCGX_Finish_r_def Let_def q2_def)
  have op: "isOpen (conns w2 ?fd)" using c(8) by (simp add: writable_def)
  show ?thesis
  proof (cases cl)
    case False
    then show ?thesis using c(5,6) op
      by (intro exI [of _ w2] exI [of _ bs]) (simp add: f FCGX_Free_def FCGX_FreeStream_def q2_def)
  next
    case True
    have "os_rest w2 = os_rest w" using c(7) by (simp add: same_input_def)
    then have "\<not> asyncIoInUse (aioState w2)" using assms(4) os_rest_fields(8) [of w2 w] by simp
    then obtain w3 where w3: "OS_IpcClose ?fd (\<not> detached (reqData q)) w2 = Inr (0, w3)" "closed_from ?fd w2 w3"
        "\<not> isOpen (conns w3 ?fd)"
      using OS_IpcClose_closes [OF assms(3) _ op] by blast
    then show ?thesis using c(5,6) True
      by (intro exI [of _ w3] exI [of _ bs]) (simp add: f FCGX_Free_def FCGX_FreeStream_def q2_def closed_from_def)
  qed
qed

section \<open>Accepting a request\<close>

lemma Accept_loop_reads:
  assumes "(if ipcFd (reqData q) < 0 then OS_Accept (flags (reqData q) AND FCGI_FAIL_ACCEPT_ON_INTR \<noteq> 0) addrs w
            else Inr (ipcFd (reqData q), w)) = Inr (fd, w1)" "0 \<le> fd"
    "read_request (q\<lparr>reqData := (reqData q)\<lparr>ipcFd := fd\<rparr>\<rparr>) w1 = Inr (True, q2, w2)"
  shows "Accept_loop (Suc fuel) addrs q w = Inr (None, q2, w2)"
  using assms by (simp add: Accept_loop.simps(2))

definition no_request :: "FCGX_Request \<Rightarrow> bool" where
  "no_request q \<longleftrightarrow> reqIn q = None \<and> reqOut q = None \<and> reqErr q = None \<and> paramsPtr q = None
     \<and> (keepConnection (reqData q) \<or> ipcFd (reqData q) = - 1 \<and> \<not> detached (reqData q))"

lemma Finish_r_idle: "no_request q \<Longrightarrow> FCGX_Finish_r (Some q) w = Inr (Some q, w)"
  by (cases q; cases "reqData q") (auto simp: no_request_def FCGX_Finish_r_def FCGX_Free_def FCGX_FreeStream_def OS_IpcClose_def
      OS_Close_def Let_def)

lemma records_rd: "rd_inv s \<Longrightarrow> isReader (strm s)"
  by (simp add: rd_inv_def Let_def)

lemma Accept_r_accepts:
  assumes q: "no_request q"
    and fd: "(if ipcFd (reqData q) < 0 then OS_Accept (flags (reqData q) AND FCGI_FAIL_ACCEPT_ON_INTR \<noteq> 0) addrs w
            else Inr (ipcFd (reqData q), w)) = Inr (fd, w1)" "0 \<le> fd"
    and inc: "incoming fd w1 = rec_bytes FCGI_BEGIN_REQUEST rid (begin_body_bytes b) [] @ pw"
    and rec: "records rid FCGI_PARAMS 0 stdin pw (pairs_bytes nvs)" and fit: "list_all pair_fits nvs"
    and sin: "records rid FCGI_STDIN pad tail stdin cs"
    and rid: "0 < rid" "rid \<le> 65535" and pad: "pad \<le> 255" and body: "length (b_reserved b) = 5"
    and role: "role_string (be16 (b_roleB1 b) (b_roleB0 b)) = Some rs"
  shows "\<exists>q' w' K tin tout terr p. FCGX_Accept_r True addrs q w = Inr (0, q', w')
     \<and> open_request q' tin tout terr
     \<and> reqData q' = (request_of rid b (reqData q))\<lparr>ipcFd := fd, nWriters := 2\<rparr>
     \<and> envp q' = Some (vec p) \<and> params_ok p \<and> entries p = rs # map pair_entry nvs
     \<and> content tout = [] \<and> FCGI_errno tout = 0 \<and> \<not> isAnythingWritten tout
     \<and> content terr = [] \<and> FCGI_errno terr = 0 \<and> \<not> isAnythingWritten terr
     \<and> stream_yields K \<lparr>strm = tin, rqd = reqData q', sys = w'\<rparr> cs \<and> \<not> k_eor K \<and> k_tail K = tail \<and> k_errno K = 0
     \<and> k_sys K = w'
     \<and> (\<forall>f. isOpen (conns w' f) = isOpen (conns w1 f) \<and> sent (conns w' f) = sent (conns w1 f)
           \<and> wrScript (conns w' f) = wrScript (conns w1 f)) \<and> shutdownNow w' = shutdownNow w1 \<and> aioState w' = aioState w1"
proof -
  define q0 where "q0 = q\<lparr>reqData := (reqData q)\<lparr>ipcFd := fd\<rparr>\<rparr>"
  define r where "r = request_of rid b (reqData q0)"
  obtain w2 p t where rr: "read_request q0 w1 = Inr (True, q0\<lparr>reqData := r, reqIn := Some t, paramsPtr := Some p\<rparr>, w2)"
     "params_ok p" "entries p = rs # map pair_entry nvs" "FCGI_errno t = 0" "same_output (fresh_mem w1) w2"
     "rd_inv \<lparr>strm = t, rqd = r, sys = w2\<rparr>" "unread \<lparr>strm = t, rqd = r, sys = w2\<rparr> = stdin"
    using read_request_accepts [of q0 w1, OF _ rec fit rid _ body role] inc by (auto simp: q0_def r_def)
  define q1 where "q1 = q0\<lparr>reqData := r, reqIn := Some t, paramsPtr := Some p\<rparr>"
  have "isReader t" using records_rd [OF rr(6)] by simp
  with build_request_ok [of q1 t p w2] obtain t1 tout terr where
    b: "SetReaderType FCGI_STDIN \<lparr>strm = t, rqd = r, sys = w2\<rparr> = Inr \<lparr>strm = t1, rqd = r, sys = w2\<rparr>"
      "build_request q1 w2 = Inr (q1\<lparr>reqIn := Some t1, reqOut := Some tout, reqErr := Some terr,
        reqData := r\<lparr>nWriters := 2\<rparr>, envp := Some (vec p)\<rparr>, fresh_mem (fresh_mem w2))"
      "wr_ready tout" "content tout = []" "dtype tout = FCGI_STDOUT" "FCGI_errno tout = 0" "\<not> isAnythingWritten tout"
      "\<not> wasFCloseCalled tout"
      "wr_ready terr" "content terr = []" "dtype terr = FCGI_STDERR" "FCGI_errno terr = 0" "\<not> isAnythingWritten terr"
      "\<not> wasFCloseCalled terr"
    by (auto simp: q1_def)
  have acc: "FCGX_Accept_r True addrs q w = Inr (0, q1\<lparr>reqIn := Some t1, reqOut := Some tout, reqErr := Some terr,
        reqData := r\<lparr>nWriters := 2\<rparr>, envp := Some (vec p)\<rparr>, fresh_mem (fresh_mem w2))"
    using Finish_r_idle [OF q] Accept_loop_reads [OF fd, of q1 w2] rr(1) b(2)
    by (simp add: FCGX_Accept_r_def q0_def q1_def)
  let ?K = "stream_ctx \<lparr>strm = t, rqd = r\<lparr>nWriters := 2\<rparr>, sys = fresh_mem (fresh_mem w2)\<rparr> FCGI_STDIN pad tail"
  have c: "FCGI_STDIN \<noteq> FCGI_BEGIN_REQUEST" "0 \<le> FCGI_STDIN" "FCGI_STDIN \<le> 255" by (simp_all add: fcgi_consts)
  have s2: "rd_inv \<lparr>strm = t, rqd = r\<lparr>nWriters := 2\<rparr>, sys = fresh_mem (fresh_mem w2)\<rparr>"
    "unread \<lparr>strm = t, rqd = r\<lparr>nWriters := 2\<rparr>, sys = fresh_mem (fresh_mem w2)\<rparr> = stdin"
    using rr(6,7) by (simp_all add: rd_inv_def unread_def)
  have "requestId (r\<lparr>nWriters := 2\<rparr>) = rid" by (simp add: r_def request_of_def)
  then obtain s3 where s3: "SetReaderType FCGI_STDIN \<lparr>strm = t, rqd = r\<lparr>nWriters := 2\<rparr>, sys = fresh_mem (fresh_mem w2)\<rparr> = Inr s3"
      "stream_yields ?K s3 cs"
    using SetReaderType_yields [OF s2(1), of FCGI_STDIN pad tail cs] s2(2) sin rid pad c by auto
  have "s3 = \<lparr>strm = t1, rqd = r\<lparr>nWriters := 2\<rparr>, sys = fresh_mem (fresh_mem w2)\<rparr>"
    using s3(1) b(1) by (auto simp: SetReaderType_def upd_def assertr_def split: if_splits)
  with s3(2) have y: "stream_yields ?K \<lparr>strm = t1, rqd = r\<lparr>nWriters := 2\<rparr>, sys = fresh_mem (fresh_mem w2)\<rparr> cs" by simp
  have k: "k_tail ?K = tail" "k_errno ?K = 0" "k_sys ?K = fresh_mem (fresh_mem w2)" using rr(4) by (simp_all add: stream_ctx_def)
  have rq: "r\<lparr>nWriters := 2\<rparr> = (request_of rid b (reqData q))\<lparr>ipcFd := fd, nWriters := 2\<rparr>"
    by (simp add: r_def q0_def request_of_def)
  have out: "(\<forall>f. isOpen (conns w2 f) = isOpen (conns w1 f) \<and> sent (conns w2 f) = sent (conns w1 f)
           \<and> wrScript (conns w2 f) = wrScript (conns w1 f))" "shutdownNow w2 = shutdownNow w1" "aioState w2 = aioState w1"
    using rr(5) os_rest_fields [of w2 "fresh_mem w1"] by (simp_all add: same_output_def fresh_mem_def)
  show ?thesis
    by (intro exI [of _ "q1\<lparr>reqIn := Some t1, reqOut := Some tout, reqErr := Some terr,
        reqData := r\<lparr>nWriters := 2\<rparr>, envp := Some (vec p)\<rparr>"] exI [of _ "fresh_mem (fresh_mem w2)"] exI [of _ ?K]
        exI [of _ t1] exI [of _ tout] exI [of _ terr] exI [of _ p])
      (use acc y b(3-) rr(2,3) k rq out in \<open>simp add: open_request_def fresh_mem_def\<close>)
qed

section \<open>Serving a request\<close>

lemma framed_append: "framed rid ty v ds \<Longrightarrow> framed rid ty w cs \<Longrightarrow> framed rid ty (w @ v) (cs @ ds)"
proof (induction rule: framed.induct)
  case (rec v ds c k)
  from framed.rec [OF rec.IH [OF rec.prems] rec.hyps(2-5)] show ?case by simp
qed simp

lemma read_stdin:
  assumes "stream_yields K \<lparr>strm = t, rqd = reqData q, sys = w\<rparr> cs" "\<not> k_eor K" "k_errno K = 0" "k_sys K = w"
  shows "\<exists>t' w'. with_stream (Some t) q w (FCGX_GetStr FillBuffProc (int n)) = Inr (take n cs, t', q, w')
    \<and> FCGI_errno t' = 0 \<and> same_output w w'"
proof -
  let ?s = "\<lparr>strm = t, rqd = reqData q, sys = w\<rparr>"
  have y: "stream_yields K ?s cs \<and> \<not> k_eor K" using assms by simp
  obtain s' where s': "FCGX_GetStr FillBuffProc (int n) ?s = Inr (take n cs, s')" "stream_source.left_at K n cs s'"
    using stream_source.GetStr_yields [OF y] by blast
  from s'(2) have "stream_yields K s' (drop n cs) \<or> stream_ended K s'"
    unfolding stream_source.left_at_def by (simp split: if_splits)
  then have "k_frame K s'" unfolding stream_yields_def stream_ended_def by blast
  moreover have "k_rqd K = reqData q" using assms(1) by (simp add: stream_yields_def k_frame_def)
  ultimately have "rqd s' = reqData q" "FCGI_errno (strm s') = 0" "same_output w (sys s')"
    using assms(3,4) by (simp_all add: k_frame_def)
  then show ?thesis using s'(1)
    by (intro exI [of _ "strm s'"] exI [of _ "sys s'"]) (simp add: with_stream_def)
qed

lemma wr_readyI: "wr_inv s \<Longrightarrow> \<not> rawWrite (strm s) \<Longrightarrow> 8 \<le> wrNext (strm s) \<Longrightarrow> wr_ready (strm s)"
  by (simp add: wr_ready_def wr_inv_def)

lemma write_stdout:
  assumes "wr_ready t" "content t = []" "writable (ipcFd (reqData q)) w"
  shows "\<exists>t' w' fr cs. with_stream (Some t) q w (FCGX_PutStr EmptyBuffProc body) = Inr (int (length body), t', q, w')
    \<and> wr_ready t' \<and> dtype t' = dtype t \<and> FCGI_errno t' = FCGI_errno t \<and> wasFCloseCalled t' = wasFCloseCalled t
    \<and> sent (conns w' (ipcFd (reqData q))) = sent (conns w (ipcFd (reqData q))) @ fr
    \<and> framed (requestId (reqData q)) (dtype t) fr cs \<and> body = cs @ content t'
    \<and> same_input (ipcFd (reqData q)) w w' \<and> writable (ipcFd (reqData q)) w'"
proof -
  let ?s = "\<lparr>strm = t, rqd = reqData q, sys = w\<rparr>"
  have "took_content ?s ?s []" using took_content_self [OF assms(1,3)] assms(2) by simp
  then obtain s' where s': "FCGX_PutStr EmptyBuffProc body ?s = Inr (int (length body), s')" "took_content ?s s' body"
    using content_sink.PutStr_took by fastforce
  then have "wr_ready (strm s')" using wr_readyI by (simp add: took_content_def writing_def)
  moreover obtain fr cs where "sent (conns (sys s') (ipcFd (reqData q))) = sent (conns w (ipcFd (reqData q))) @ fr"
      "framed (requestId (reqData q)) (dtype t) fr cs" "body = cs @ content (strm s')"
    using s'(2) unfolding took_content_def by auto
  ultimately show ?thesis using s'
    by (intro exI [of _ "strm s'"] exI [of _ "sys s'"] exI [of _ fr] exI [of _ cs])
      (simp add: with_stream_def took_content_def writing_def)
qed

lemma writable_same_output:
  assumes "writable fd w" "same_output w w'"
  shows "writable fd w'"
proof -
  have "os_rest w' = os_rest w" using assms(2) by (simp add: same_output_def)
  from os_rest_fields(1) [OF this] show ?thesis using assms by (simp add: writable_def same_output_def)
qed

lemma writableI_same:
  "writable fd w \<Longrightarrow> isOpen (conns w' fd) = isOpen (conns w fd) \<Longrightarrow> wrScript (conns w' fd) = wrScript (conns w fd)
   \<Longrightarrow> shutdownNow w' = shutdownNow w \<Longrightarrow> writable fd w'"
  by (simp add: writable_def)

text \<open>The responder's cycle on an accepted request: read up to \<open>n\<close> bytes of input, write \<open>body\<close>, finish.\<close>

definition serve :: "int \<Rightarrow> byte list \<Rightarrow> FCGX_Request \<Rightarrow> os \<Rightarrow> (byte list \<times> FCGX_Request option \<times> os) res" where
  "serve n body q w =
     bindr (with_stream (reqIn q) q w (FCGX_GetStr FillBuffProc n)) (\<lambda>(input, tin, q1, w1).
     bindr (with_stream (reqOut q1) (q1\<lparr>reqIn := Some tin\<rparr>) w1 (FCGX_PutStr EmptyBuffProc body)) (\<lambda>(_, tout, q2, w2).
     bindr (FCGX_Finish_r (Some (q2\<lparr>reqOut := Some tout\<rparr>)) w2) (\<lambda>(qo, w3). Inr (input, qo, w3))))"

lemma serve_sends:
  assumes o: "open_request q tin tout terr" and fd: "ipcFd (reqData q) \<noteq> - 1" and aio: "\<not> asyncIoInUse (aioState w)"
    and wr: "writable (ipcFd (reqData q)) w"
    and fresh: "content tout = []" "FCGI_errno tout = 0" "content terr = []" "FCGI_errno terr = 0" "\<not> isAnythingWritten terr"
    and y: "stream_yields K \<lparr>strm = tin, rqd = reqData q, sys = w\<rparr> cs" "\<not> k_eor K" "k_errno K = 0" "k_sys K = w"
  shows "\<exists>q' w' fr. serve (int n) body q w = Inr (take n cs, Some q', w') \<and> no_request q'
    \<and> framed (requestId (reqData q)) FCGI_STDOUT fr body
    \<and> sent (conns w' (ipcFd (reqData q))) = sent (conns w (ipcFd (reqData q))) @ fr
        @ header_bytes (header_for FCGI_STDOUT (requestId (reqData q)) 0 0)
        @ end_request_bytes (requestId (reqData q)) (appStatus (reqData q))
    \<and> isOpen (conns w' (ipcFd (reqData q))) = keepConnection (reqData q)"
proof -
  let ?fd = "ipcFd (reqData q)" and ?rid = "requestId (reqData q)"
  from o have q: "reqIn q = Some tin" "reqOut q = Some tout" "reqErr q = Some terr" "nWriters (reqData q) = 2"
    "dtype tout = FCGI_STDOUT" "dtype terr = FCGI_STDERR" "wr_ready tout" "wr_ready terr" "\<not> wasFCloseCalled tout"
    "\<not> wasFCloseCalled terr" by (simp_all add: open_request_def)
  obtain t1 w1 where r: "with_stream (Some tin) q w (FCGX_GetStr FillBuffProc (int n)) = Inr (take n cs, t1, q, w1)"
      "FCGI_errno t1 = 0" "same_output w w1"
    using read_stdin [OF y] by blast
  define q1 where "q1 = q\<lparr>reqIn := Some t1\<rparr>"
  have wr1: "writable (ipcFd (reqData q1)) w1" using writable_same_output [OF wr r(3)] by (simp add: q1_def)
  obtain t2 w2 fr x where p: "with_stream (Some tout) q1 w1 (FCGX_PutStr EmptyBuffProc body) = Inr (int (length body), t2, q1, w2)"
      "wr_ready t2" "dtype t2 = FCGI_STDOUT" "FCGI_errno t2 = 0" "\<not> wasFCloseCalled t2"
      "sent (conns w2 ?fd) = sent (conns w1 ?fd) @ fr" "framed ?rid FCGI_STDOUT fr x" "body = x @ content t2"
      "same_input ?fd w1 w2" "writable ?fd w2"
    using write_stdout [OF q(7) fresh(1) wr1, of body] q(5,9) fresh(2) by (auto simp: q1_def)
  define q2 where "q2 = q1\<lparr>reqOut := Some t2\<rparr>"
  have o2: "open_request q2 t1 t2 terr" using q p by (simp add: open_request_def q2_def q1_def)
  have "os_rest w2 = os_rest w" using r(3) p(9) by (simp add: same_output_def same_input_def)
  then have aio2: "\<not> asyncIoInUse (aioState w2)" using aio os_rest_fields(8) [of w2 w] by simp
  have cl: "(\<not> keepConnection (reqData q)) = (\<not> keepConnection (reqData q2) \<or> FCGI_errno terr \<noteq> 0 \<or> FCGI_errno t2 \<noteq> 0 \<or> FCGI_errno t1 \<noteq> 0)"
    using fresh(4) p(4) r(2) by (simp add: q2_def q1_def)
  from Finish_r_sends [OF o2 _ _ aio2 cl] obtain w' bs where
    f: "FCGX_Finish_r (Some q2) w2 = Inr (Some (q2\<lparr>reqIn := None, reqOut := None, reqErr := None, paramsPtr := None,
        reqData := (if \<not> keepConnection (reqData q) then (reqData q2)\<lparr>nWriters := 0, ipcFd := - 1, detached := False\<rparr>
                    else (reqData q2)\<lparr>nWriters := 0\<rparr>)\<rparr>), w')"
      "sent (conns w' ?fd) = sent (conns w2 ?fd) @ bs" "finish_bytes q2 terr t2 bs"
      "isOpen (conns w' ?fd) = keepConnection (reqData q)"
    using p(10) fd by (auto simp: q2_def q1_def)
  from f(3) fresh(3,5) obtain e u where eu: "framed ?rid FCGI_STDERR e []" "framed ?rid FCGI_STDOUT u (content t2)"
      "bs = e @ u @ header_bytes (header_for FCGI_STDOUT ?rid 0 0) @ end_request_bytes ?rid (appStatus (reqData q))"
    by (auto simp: finish_bytes_def q2_def q1_def Let_def)
  have "e = []" using framed_empty [OF eu(1)] by simp
  moreover have "framed ?rid FCGI_STDOUT (fr @ u) body" using framed_append [OF eu(2) p(7)] p(8) by simp
  moreover have "sent (conns w1 ?fd) = sent (conns w ?fd)" using r(3) by (simp add: same_output_def)
  moreover have "serve (int n) body q w = Inr (take n cs, Some (q2\<lparr>reqIn := None, reqOut := None, reqErr := None, paramsPtr := None,
        reqData := (if \<not> keepConnection (reqData q) then (reqData q2)\<lparr>nWriters := 0, ipcFd := - 1, detached := False\<rparr>
                    else (reqData q2)\<lparr>nWriters := 0\<rparr>)\<rparr>), w')"
    using r(1) p(1) f(1) q(1,2) by (simp add: serve_def q1_def [symmetric] q2_def [symmetric])
  ultimately show ?thesis using f(2,4) p(6) eu(3)
    by (intro exI [of _ "q2\<lparr>reqIn := None, reqOut := None, reqErr := None, paramsPtr := None,
        reqData := (if \<not> keepConnection (reqData q) then (reqData q2)\<lparr>nWriters := 0, ipcFd := - 1, detached := False\<rparr>
                    else (reqData q2)\<lparr>nWriters := 0\<rparr>)\<rparr>"] exI [of _ w'] exI [of _ "fr @ u"])
      (simp add: no_request_def q2_def q1_def)
qed

section \<open>Properties\<close>

lemma request_served:
  assumes q: "no_request q"
    and fd: "(if ipcFd (reqData q) < 0 then OS_Accept (flags (reqData q) AND FCGI_FAIL_ACCEPT_ON_INTR \<noteq> 0) addrs w
            else Inr (ipcFd (reqData q), w)) = Inr (fd, w1)" "0 \<le> fd"
    and inc: "incoming fd w1 = rec_bytes FCGI_BEGIN_REQUEST rid (begin_body_bytes b) [] @ pw"
    and rec: "records rid FCGI_PARAMS 0 stdin pw (pairs_bytes nvs)" and fit: "list_all pair_fits nvs"
    and sin: "records rid FCGI_STDIN 0 tail stdin cs"
    and rid: "0 < rid" "rid \<le> 65535" and body: "length (b_reserved b) = 5"
    and role: "role_string (be16 (b_roleB1 b) (b_roleB0 b)) = Some rs"
    and wr: "writable fd w1" and aio: "\<not> asyncIoInUse (aioState w1)"
  shows "\<exists>q1 w2 p q2 w3 fr. FCGX_Accept_r True addrs q w = Inr (0, q1, w2)
     \<and> envp q1 = Some (vec p) \<and> params_ok p \<and> entries p = rs # map pair_entry nvs
     \<and> serve (int n) body q1 w2 = Inr (take n cs, Some q2, w3) \<and> no_request q2
     \<and> framed rid FCGI_STDOUT fr body
     \<and> sent (conns w3 fd) = sent (conns w1 fd) @ fr @ header_bytes (header_for FCGI_STDOUT rid 0 0)
         @ end_request_bytes rid (appStatus (reqData q))
     \<and> isOpen (conns w3 fd) = (b_flags b AND FCGI_KEEP_CONN \<noteq> 0)"
proof -
  from Accept_r_accepts [OF q fd inc rec fit sin rid _ body role] obtain q1 w2 K tin tout terr p where
    a: "FCGX_Accept_r True addrs q w = Inr (0, q1, w2)" "open_request q1 tin tout terr"
     "reqData q1 = (request_of rid b (reqData q))\<lparr>ipcFd := fd, nWriters := 2\<rparr>"
     "envp q1 = Some (vec p)" "params_ok p" "entries p = rs # map pair_entry nvs"
     "content tout = []" "FCGI_errno tout = 0" "content terr = []" "FCGI_errno terr = 0" "\<not> isAnythingWritten terr"
     "stream_yields K \<lparr>strm = tin, rqd = reqData q1, sys = w2\<rparr> cs" "\<not> k_eor K" "k_errno K = 0" "k_sys K = w2"
     "\<forall>f. isOpen (conns w2 f) = isOpen (conns w1 f) \<and> sent (conns w2 f) = sent (conns w1 f)
           \<and> wrScript (conns w2 f) = wrScript (conns w1 f)" "shutdownNow w2 = shutdownNow w1" "aioState w2 = aioState w1"
    by auto
  have r: "ipcFd (reqData q1) = fd" "requestId (reqData q1) = rid" "appStatus (reqData q1) = appStatus (reqData q)"
    "keepConnection (reqData q1) = (b_flags b AND FCGI_KEEP_CONN \<noteq> 0)"
    using a(3) by (simp_all add: request_of_def)
  have "writable (ipcFd (reqData q1)) w2" using wr a(16,17) r(1) by (simp add: writable_def)
  then obtain q2 w3 fr where "serve (int n) body q1 w2 = Inr (take n cs, Some q2, w3)" "no_request q2"
    "framed rid FCGI_STDOUT fr body" "sent (conns w3 fd) = sent (conns w2 fd) @ fr @ header_bytes (header_for FCGI_STDOUT rid 0 0)
         @ end_request_bytes rid (appStatus (reqData q))" "isOpen (conns w3 fd) = (b_flags b AND FCGI_KEEP_CONN \<noteq> 0)"
    using serve_sends [OF a(2) _ _ _ a(7-15), of n body] r fd(2) aio a(18) by auto
  then show ?thesis using a(1,4,5,6,16) by auto
qed

text \<open>C1. One request from end to end. On a connection that carries a BEGIN_REQUEST record, a stream of encoded name-value
  pairs and an input stream, \<open>FCGX_Accept_r\<close> returns zero with the pairs as environment; the application then reads the
  input content, writes \<open>body\<close> and finishes; what the peer receives is a framing of \<open>body\<close>, the end of the output
  stream and the FCGI_END_REQUEST record, and the connection stays open exactly when FCGI_KEEP_CONN was set.\<close>

theorem request_cycle:
  assumes q: "no_request q"
    and fd: "(if ipcFd (reqData q) < 0 then OS_Accept (flags (reqData q) AND FCGI_FAIL_ACCEPT_ON_INTR \<noteq> 0) addrs w
            else Inr (ipcFd (reqData q), w)) = Inr (fd, w1)" "0 \<le> fd"
    and inc: "incoming fd w1 = rec_bytes FCGI_BEGIN_REQUEST rid (begin_body_bytes b) [] @ pw"
    and rec: "records rid FCGI_PARAMS 0 stdin pw (pairs_bytes nvs)" and fit: "list_all pair_fits nvs"
    and sin: "records rid FCGI_STDIN 0 tail stdin cs"
    and rid: "0 < rid" "rid \<le> 65535" and body: "length (b_reserved b) = 5"
    and role: "role_string (be16 (b_roleB1 b) (b_roleB0 b)) = Some rs"
    and wr: "writable fd w1" and aio: "\<not> asyncIoInUse (aioState w1)"
  shows "\<exists>q1 w2 p q2 w3 fr. FCGX_Accept_r True addrs q w = Inr (0, q1, w2)
     \<and> envp q1 = Some (vec p) \<and> params_ok p \<and> entries p = rs # map pair_entry nvs
     \<and> serve (int n) body q1 w2 = Inr (take n cs, Some q2, w3) \<and> no_request q2
     \<and> framed rid FCGI_STDOUT fr body
     \<and> sent (conns w3 fd) = sent (conns w1 fd) @ fr @ header_bytes (header_for FCGI_STDOUT rid 0 0)
         @ end_request_bytes rid (appStatus (reqData q))
     \<and> isOpen (conns w3 fd) = (b_flags b AND FCGI_KEEP_CONN \<noteq> 0)"
  by (rule request_served [OF assms])

definition sample_accept :: os where
  "sample_accept = (sample_os [])\<lparr>acceptScript := [AcceptErr EINTR, AcceptConn 5 PeerUnix
     (sample_conn [RdBytes (take 3 sample_wire), RdBytes (drop 3 sample_wire)])]\<rparr>"

lemma sample_accept:
  "OS_Accept False None sample_accept = Inr (5, (sample_os [])\<lparr>conns := (conns (sample_os []))(5 :=
     sample_conn [RdBytes (take 3 sample_wire), RdBytes (drop 3 sample_wire)]), osErrno := EINTR\<rparr>)"
  by (simp add: OS_Accept_def OS_Accept_loop.simps(2) accept_loop.simps(2) sample_accept_def sample_os_def posix_accept_def
      is_af_unix_keeper_def posix_poll_def sample_conn_def EINTR_def)

theorem request_cycle_witness:
  "\<exists>q1 w2 p q2 w3 fr. FCGX_Accept_r True None (FCGX_InitRequest 0 0) sample_accept = Inr (0, q1, w2)
     \<and> envp q1 = Some (vec p) \<and> params_ok p \<and> entries p = bytes ''FCGI_ROLE=RESPONDER'' # map pair_entry [([81], [82, 83])]
     \<and> serve (int 10) [72, 105] q1 w2 = Inr (take 10 [65, 66, 67], Some q2, w3) \<and> no_request q2
     \<and> framed 1 FCGI_STDOUT fr [72, 105]
     \<and> sent (conns w3 5) = fr @ header_bytes (header_for FCGI_STDOUT 1 0 0) @ end_request_bytes 1 0
     \<and> isOpen (conns w3 5)"
proof -
  let ?w1 = "(sample_os [])\<lparr>conns := (conns (sample_os []))(5 :=
     sample_conn [RdBytes (take 3 sample_wire), RdBytes (drop 3 sample_wire)]), osErrno := EINTR\<rparr>"
  have len: "3 < length sample_wire" by (simp add: sample_wire_def rec_bytes_def)
  have inc: "incoming 5 ?w1 = rec_bytes FCGI_BEGIN_REQUEST 1 (begin_body_bytes sample_body) [] @ sample_params"
    using len by (simp add: incoming_def sample_os_def sample_conn_def script_bytes_split sample_wire_def [symmetric])
  have fd: "(if ipcFd (reqData (FCGX_InitRequest 0 0)) < 0 then OS_Accept (flags (reqData (FCGX_InitRequest 0 0)) AND FCGI_FAIL_ACCEPT_ON_INTR \<noteq> 0) None sample_accept
      else Inr (ipcFd (reqData (FCGX_InitRequest 0 0)), sample_accept)) = Inr (5, ?w1)"
    using sample_accept by (simp add: FCGX_InitRequest_def zero_reqData_def)
  have nr: "no_request (FCGX_InitRequest 0 0)" by (simp add: no_request_def FCGX_InitRequest_def zero_reqData_def)
  have wr: "writable 5 ?w1" by (simp add: writable_def sample_os_def sample_conn_def is_short_write_def)
  have aio: "\<not> asyncIoInUse (aioState ?w1)" by (simp add: sample_os_def aio_initial_def)
  have role: "role_string (be16 (b_roleB1 sample_body) (b_roleB0 sample_body)) = Some (bytes ''FCGI_ROLE=RESPONDER'')"
    by (simp add: role_string_def sample_body_def be16_def FCGI_RESPONDER_def)
  have fits: "list_all pair_fits [([81], [82, 83])]" "length (b_reserved sample_body) = 5"
    by (simp_all add: pair_fits_def INT_MAX_def sample_body_def)
  have keep: "b_flags sample_body AND FCGI_KEEP_CONN \<noteq> 0" by (simp add: sample_body_def FCGI_KEEP_CONN_def)
  have st: "appStatus (reqData (FCGX_InitRequest 0 0)) = 0" "sent (conns ?w1 5) = []"
    by (simp_all add: FCGX_InitRequest_def zero_reqData_def sample_conn_def)
  from request_cycle [OF nr fd _ inc sample_records(2) fits(1) sample_records(1) _ _ fits(2) role wr aio, of 10 "[72, 105]"]
  show ?thesis unfolding st by (simp add: keep)
qed

end
