(* ===== verification/Fcgi_Reader_Equation.thy ===== *)
theory Fcgi_Reader_Equation
  imports Fcgi_Reader
begin

text \<open>
  \<open>Fcgi_Reader\<close> stages the mutual recursion of \<open>FillBuffProc\<close> and \<open>ProcessHeader\<close>.
  This theory shows that the staging loses nothing: \<open>FillBuffProc\<close> satisfies the recursive equation the
  source has, in which \<open>ProcessHeader\<close> reads record bodies through \<open>FillBuffProc\<close> itself.
\<close>

section \<open>The recursive equation of the source\<close>

text \<open>
  Two fill procedures that do the same inside a record (\<open>eorStop\<close> set), and stay there, are
  interchangeable for every function that reads a record body.
\<close>

definition in_record :: "st \<Rightarrow> bool" where
  "in_record s = eorStop (strm s)"

definition agree :: "('a \<Rightarrow> st) \<Rightarrow> 'a res \<Rightarrow> 'a res \<Rightarrow> bool" where
  "agree end_of m m' \<longleftrightarrow> m = m' \<and> (\<forall>x. m' = Inr x \<longrightarrow> in_record (end_of x))"

lemma agree_Inr: "in_record (e x) \<Longrightarrow> agree e (Inr x) (Inr x)"
  by (simp add: agree_def)

lemma agree_bind:
  "agree e m m' \<Longrightarrow> (\<And>x. in_record (e x) \<Longrightarrow> agree d (k x) (k' x)) \<Longrightarrow> agree d (bindr m k) (bindr m' k')"
  by (cases m') (auto simp: agree_def)

lemma agree_refl_bounds: "(b \<Longrightarrow> agree e m m') \<Longrightarrow> agree e (inbounds b m) (inbounds b m')"
  "(b \<Longrightarrow> agree e m m') \<Longrightarrow> agree e (assertr b m) (assertr b m')"
  by (auto simp: agree_def inbounds_def assertr_def)

lemma agree_if: "(b \<Longrightarrow> agree e m m') \<Longrightarrow> (\<not> b \<Longrightarrow> agree e n n') \<Longrightarrow> agree e (if b then m else n) (if b then m' else n')"
  by simp

lemma agree_pure: "agree (\<lambda>x. s) m m" if "in_record s" for m :: "'a res"
  using that by (simp add: agree_def)

lemma agree_Inl: "agree e (Inl x) (Inl x)"
  by (simp add: agree_def)

lemma agree_option:
  "(x = None \<Longrightarrow> agree e m m') \<Longrightarrow> (\<And>y. x = Some y \<Longrightarrow> agree e (n y) (n' y)) \<Longrightarrow>
   agree e (case x of None \<Rightarrow> m | Some y \<Rightarrow> n y) (case x of None \<Rightarrow> m' | Some y \<Rightarrow> n' y)"
  by (cases x) simp_all

lemmas agree_rules = agree_if agree_Inr agree_Inl agree_refl_bounds agree_option

lemma in_record_mark [simp]: "in_record (mark_unget s) = in_record s"
  by (simp add: in_record_def mark_unget_def)

lemma agree_next_byte: "in_record s \<Longrightarrow> agree snd (next_byte s) (next_byte s)"
  by (auto simp: next_byte_def Let_def agree_def inbounds_Inr_iff in_record_def)

lemma agree_copy_out: "in_record s \<Longrightarrow> agree snd (copy_out m s) (copy_out m s)"
  by (auto simp: copy_out_def Let_def agree_def inbounds_Inr_iff in_record_def)

locale same_in_record =
  fixes f g :: fill_proc
  assumes same: "in_record s \<Longrightarrow> agree id (f s) (g s)"
begin

lemma GetChar_agree: "in_record s \<Longrightarrow> agree snd (FCGX_GetChar f s) (FCGX_GetChar g s)"
  unfolding FCGX_GetChar_def Let_def
  by (intro agree_rules agree_next_byte agree_bind [OF same]) simp_all

lemma GetStr_loop_agree:
  "in_record s \<Longrightarrow> agree snd (GetStr_loop f fuel n acc s) (GetStr_loop g fuel n acc s)"
proof (induction fuel arbitrary: acc s)
  case 0
  then show ?case by (simp add: agree_def)
next
  case (Suc fuel)
  have go: "agree snd (bindr (f u) (\<lambda>s2. if isClosed (strm s2) then Inr (x, s2) else GetStr_loop f fuel n x (mark_unget s2)))
     (bindr (g u) (\<lambda>s2. if isClosed (strm s2) then Inr (x, s2) else GetStr_loop g fuel n x (mark_unget s2)))"
    if "in_record u" for u x
    using that by (intro agree_bind [OF same] agree_rules Suc.IH) simp_all
  have first: "agree snd (if rdNext (strm s) \<noteq> stop (strm s)
            then inbounds (rdNext (strm s) \<le> stop (strm s))
                   (copy_out (min (n - length acc) (stop (strm s) - rdNext (strm s))) s)
            else Inr ([], s)) (if rdNext (strm s) \<noteq> stop (strm s)
            then inbounds (rdNext (strm s) \<le> stop (strm s))
                   (copy_out (min (n - length acc) (stop (strm s) - rdNext (strm s))) s)
            else Inr ([], s))"
    using Suc.prems by (intro agree_rules agree_copy_out) simp_all
  show ?case
    unfolding GetStr_loop.simps(2)
  proof (rule agree_bind [OF first])
    fix x :: "byte list \<times> st"
    assume "in_record (snd x)"
    then show "agree snd (case x of (bs, s1) \<Rightarrow>
          if rdNext (strm s) \<noteq> stop (strm s) \<and> length (acc @ bs) = n then Inr (acc @ bs, s1)
          else if isClosed (strm s1) \<or> \<not> isReader (strm s1) then Inr (acc @ bs, s1)
          else bindr (f s1) (\<lambda>s2. if isClosed (strm s2) then Inr (acc @ bs, s2)
            else GetStr_loop f fuel n (acc @ bs) (mark_unget s2)))
      (case x of (bs, s1) \<Rightarrow>
          if rdNext (strm s) \<noteq> stop (strm s) \<and> length (acc @ bs) = n then Inr (acc @ bs, s1)
          else if isClosed (strm s1) \<or> \<not> isReader (strm s1) then Inr (acc @ bs, s1)
          else bindr (g s1) (\<lambda>s2. if isClosed (strm s2) then Inr (acc @ bs, s2)
            else GetStr_loop g fuel n (acc @ bs) (mark_unget s2)))"
      by (cases x) (auto intro!: agree_rules go simp del: append_assoc)
  qed
qed

lemma GetStr_agree: "in_record s \<Longrightarrow> agree snd (FCGX_GetStr f n s) (FCGX_GetStr g n s)"
  unfolding FCGX_GetStr_def by (intro agree_rules agree_copy_out GetStr_loop_agree) simp_all

lemma ReadLength_agree: "in_record s \<Longrightarrow> agree snd (ReadLength f c s) (ReadLength g c s)"
  unfolding ReadLength_def
  by (auto intro!: agree_rules agree_bind [OF GetStr_agree] simp: Let_def)

lemma params_error_agree: "in_record s \<Longrightarrow> agree (\<lambda>x. snd (snd x)) (params_error p s) (params_error p s)"
  by (simp add: params_error_def agree_def in_record_def SetError_def)

lemma ReadParams_loop_agree:
  "in_record s \<Longrightarrow> agree (\<lambda>x. snd (snd x)) (ReadParams_loop f fuel p s) (ReadParams_loop g fuel p s)"
proof (induction fuel arbitrary: p s)
  case 0
  then show ?case by (simp add: agree_def)
next
  case (Suc fuel)
  have put: "agree (\<lambda>x. snd (snd x)) (bindr (PutParam p e) (\<lambda>p'. ReadParams_loop f fuel p' u))
      (bindr (PutParam p e) (\<lambda>p'. ReadParams_loop g fuel p' u))" if "in_record u" for u e
    using that by (intro agree_bind [OF agree_pure [of u]] Suc.IH) simp_all
  show ?case
    unfolding ReadParams_loop.simps(2) Let_def split_beta
    by (intro agree_bind [OF GetChar_agree] agree_bind [OF ReadLength_agree] agree_bind [OF GetStr_agree]
        agree_rules params_error_agree put) (use Suc.prems in simp_all)
qed

lemma ReadParams_agree: "in_record s \<Longrightarrow> agree (\<lambda>x. snd (snd x)) (ReadParams f p s) (ReadParams g p s)"
  by (simp add: ReadParams_def ReadParams_loop_agree)

lemma ProcessBeginRecord_agree:
  assumes "in_record s"
  shows "ProcessBeginRecord f rid s = ProcessBeginRecord g rid s"
proof -
  let ?s = "s\<lparr>rqd := (rqd s)\<lparr>requestId := rid\<rparr>\<rparr>"
  have "in_record ?s" using assms by (simp add: in_record_def)
  from GetStr_agree [OF this, of 8] have "FCGX_GetStr f 8 ?s = FCGX_GetStr g 8 ?s" by (simp add: agree_def)
  then show ?thesis unfolding ProcessBeginRecord_def Let_def by (simp only:)
qed

lemma ProcessManagementRecord_agree:
  assumes "in_record s"
  shows "ProcessManagementRecord f ty s = ProcessManagementRecord g ty s"
proof -
  have "ReadParams f p s = ReadParams g p s" for p
    using ReadParams_agree [OF assms] by (simp add: agree_def)
  then show ?thesis unfolding ProcessManagementRecord_def Let_def by (simp only:)
qed

lemma ProcessHeader_agree:
  assumes "in_record s"
  shows "ProcessHeader f h s = ProcessHeader g h s"
proof -
  let ?s = "upd (\<lambda>t. t\<lparr>contentLen := nat (header_contentLength h), paddingLen := unat (h_paddingLength h)\<rparr>) s"
  have "in_record ?s" using assms by (simp add: in_record_def)
  then show ?thesis unfolding ProcessHeader_def Let_def
    by (simp only: ProcessBeginRecord_agree ProcessManagementRecord_agree)
qed

end

definition flow_in_record :: "flow \<Rightarrow> bool" where
  "flow_in_record x = (case x of Return s \<Rightarrow> in_record s | Continue s \<Rightarrow> in_record s | Proceed s \<Rightarrow> in_record s)"

lemma fill_advance_in_record:
  assumes "in_record s"
  shows "flow_in_record (fill_advance s)"
proof -
  have "flow_in_record (fill_read s)"
    using assms by (simp add: flow_in_record_def fill_read_def in_record_def SetError_def Let_def split: prod.split)
  moreover have "flow_in_record (fill_content u)" if "in_record u" for u
    using that by (simp add: flow_in_record_def fill_content_def in_record_def Let_def)
  moreover have "flow_in_record (fill_padding u)" if "in_record u" for u
    using that by (simp add: flow_in_record_def fill_padding_def in_record_def Let_def)
  ultimately have "flow_in_record (case fill_content u of Return s' \<Rightarrow> Return s' | Continue s' \<Rightarrow> Continue s'
      | Proceed s2 \<Rightarrow> fill_padding s2)" if "fill_read s = Proceed u" for u
    using that by (metis (no_types, lifting) flow.exhaust flow.simps(10-12) flow_in_record_def)
  with \<open>flow_in_record (fill_read s)\<close> show ?thesis
    by (cases "fill_read s") (simp_all add: fill_advance_def flow_in_record_def)
qed

lemma FillBuffLoop_in_record:
  "in_record s \<Longrightarrow> agree id (FillBuffLoop ph fuel hb s) (FillBuffLoop ph' fuel hb s)"
proof (induction fuel arbitrary: s)
  case 0
  then show ?case by (simp add: agree_def)
next
  case (Suc fuel)
  note step = fill_advance_in_record [OF Suc.prems]
  show ?case
  proof (cases "fill_advance s")
    case (Continue s')
    then show ?thesis using Suc.IH step by (simp add: FillBuffLoop.simps(2) flow_in_record_def)
  qed (use step in \<open>auto simp: FillBuffLoop.simps(2) agree_def flow_in_record_def in_record_def\<close>)
qed

interpretation body_reader: same_in_record FillBuffProc FillBuffProc_eor
  by unfold_locales (simp add: FillBuffProc_def FillBuffProc_eor_def FillBuffLoop_in_record)

lemma FillBuffLoop_cong:
  assumes "\<And>h s. in_record s \<Longrightarrow> ph h s = ph' h s"
  shows "FillBuffLoop ph fuel hb s = FillBuffLoop ph' fuel hb s"
proof (induction fuel arbitrary: hb s)
  case 0
  then show ?case by simp
next
  case (Suc fuel)
  have "ph h (enter_header u) = ph' h (enter_header u)" for h u
    by (rule assms) (simp add: in_record_def)
  moreover have "FillBuffLoop ph fuel = FillBuffLoop ph' fuel"
    using Suc.IH by (intro ext)
  ultimately show ?case
    by (cases "fill_advance s"; cases "fill_header hb (case fill_advance s of Proceed u \<Rightarrow> u | _ \<Rightarrow> s)")
      (simp_all add: FillBuffLoop.simps(2))
qed

text \<open>\<open>FillBuffProc\<close> satisfies the recursive equation of the source: the loop of
  \<open>FillBuffProc\<close> in which \<open>ProcessHeader\<close> reads the content of a record through \<open>FillBuffProc\<close>
  itself, not through the separate stage that the definition uses.\<close>

theorem FillBuffProc_recursive:
  "FillBuffProc s = FillBuffLoop (ProcessHeader FillBuffProc) (Suc (length (unread s))) [] s"
  unfolding FillBuffProc_def [of s]
  by (rule FillBuffLoop_cong) (simp add: body_reader.ProcessHeader_agree)

end
