(* ===== verification/Fcgi_Total.thy ===== *)
theory Fcgi_Total
  imports Fcgi_Reader_Correct
begin

text \<open>
  A weak contract for fill procedures, for input about which nothing is known. A client may assume that a call comes back with data or with the
  stream closed and that no more is left to read than before; the locale \<open>total_source\<close> derives that every reading function
  of the library then comes back, keeps the invariant of the stream and returns values of the documented ranges.
\<close>

unbundle bit_operations_syntax

section \<open>Computations that can fail only in a given way\<close>

definition safe :: "fault set \<Rightarrow> ('a \<Rightarrow> bool) \<Rightarrow> 'a res \<Rightarrow> bool" where
  "safe F P m \<longleftrightarrow> (case m of Inl f \<Rightarrow> f \<in> F | Inr x \<Rightarrow> P x)"

lemma safe_simps [simp]: "safe F P (Inr x) = P x" "safe F P (Inl f) = (f \<in> F)"
  by (simp_all add: safe_def)

lemma safe_bind: "safe F P m \<Longrightarrow> (\<And>x. P x \<Longrightarrow> safe F Q (k x)) \<Longrightarrow> safe F Q (bindr m k)"
  by (cases m) simp_all

lemma safe_mono: "safe F P m \<Longrightarrow> F \<subseteq> G \<Longrightarrow> (\<And>x. P x \<Longrightarrow> Q x) \<Longrightarrow> safe G Q m"
  by (cases m) auto

lemma safe_if: "(b \<Longrightarrow> safe F P m) \<Longrightarrow> (\<not> b \<Longrightarrow> safe F P n) \<Longrightarrow> safe F P (if b then m else n)"
  by simp

lemma safe_option: "(x = None \<Longrightarrow> safe F P m) \<Longrightarrow> (\<And>y. x = Some y \<Longrightarrow> safe F P (n y)) \<Longrightarrow>
   safe F P (case x of None \<Rightarrow> m | Some y \<Rightarrow> n y)"
  by (cases x) simp_all

lemma safe_total: "safe {} P m \<Longrightarrow> \<exists>x. m = Inr x \<and> P x"
  by (cases m) auto

section \<open>The contract\<close>

text \<open>
  \<open>inv\<close> describes the states a client may be in. On an exhausted buffer a fill procedure either closes the stream or brings
  data, and in the second case there is no more to read than before; it faults only with an element of \<open>F\<close>.
\<close>

definition left :: "st \<Rightarrow> nat" where
  "left s = length (unread s)"

definition positions :: "st \<Rightarrow> bool" where
  "positions s \<longleftrightarrow> rdNext (strm s) \<le> stop (strm s) \<and> stop (strm s) \<le> buffStop (strm s)"

definition forward :: "st \<Rightarrow> st \<Rightarrow> bool" where
  "forward s s' \<longleftrightarrow> isClosed (strm s') \<or> \<not> isClosed (strm s) \<and> left s' \<le> left s"

lemma forward_refl [simp]: "forward s s"
  by (simp add: forward_def)

lemma forward_trans: "forward s u \<Longrightarrow> forward u v \<Longrightarrow> forward s v"
  by (auto simp: forward_def)

lemma uchar_eq_iff: "0 \<le> c \<Longrightarrow> c \<le> 255 \<Longrightarrow> uchar c = 10 \<longleftrightarrow> c = 10"
  by (simp add: uchar_def word_uint_eq_iff uint_word_of_int)

locale total_source =
  fixes fill :: fill_proc
    and F :: "fault set"
    and inv :: "st \<Rightarrow> bool"
  assumes inv_reader: "inv s \<Longrightarrow> rd_inv s"
    and inv_open: "inv s \<Longrightarrow> \<not> isClosed (strm s) \<Longrightarrow> positions s"
    and inv_consume: "inv s \<Longrightarrow> \<not> isClosed (strm s) \<Longrightarrow> rdNext (strm s) + m \<le> stop (strm s) \<Longrightarrow> inv (consume m s)"
    and inv_mark: "inv s \<Longrightarrow> inv (mark_unget s)"
    and inv_error: "inv s \<Longrightarrow> e \<noteq> 0 \<Longrightarrow> inv (upd (SetError e) s)"
    and fill_safe: "inv s \<Longrightarrow> \<not> isClosed (strm s) \<Longrightarrow> rdNext (strm s) = stop (strm s) \<Longrightarrow>
      safe F (\<lambda>s'. inv s' \<and> (isClosed (strm s') \<or> rdNext (strm s') < stop (strm s') \<and> left s' \<le> left s)) (fill s)"
begin

lemma bounds:
  assumes "inv s" "\<not> isClosed (strm s)"
  shows "rdNext (strm s) \<le> stop (strm s)" "stop (strm s) \<le> length (buff (strm s))" "isReader (strm s)"
    "rdNext (strm s) + m \<le> stop (strm s) \<Longrightarrow> left (consume m s) + m = left s"
proof -
  have r: "rd_inv s" "positions s" using inv_reader [OF assms(1)] inv_open [OF assms] by simp_all
  show "rdNext (strm s) \<le> stop (strm s)" "stop (strm s) \<le> length (buff (strm s))" "isReader (strm s)"
    using r by (auto simp: rd_inv_def positions_def Let_def)
  assume "rdNext (strm s) + m \<le> stop (strm s)"
  then have "rdNext (strm s) + m \<le> buffStop (strm s)" using r(2) by (simp add: positions_def)
  from consume_unread(2,3) [OF r(1) this] show "left (consume m s) + m = left s" by (simp add: left_def)
qed

lemma copy_out_safe:
  assumes "inv s" "\<not> isClosed (strm s)" "rdNext (strm s) + m \<le> stop (strm s)"
  shows "copy_out m s = Inr (sub_bytes (rdNext (strm s)) m (buff (strm s)), consume m s)"
    "length (sub_bytes (rdNext (strm s)) m (buff (strm s))) = m"
  using bounds [OF assms(1,2)] assms(3) by (simp_all add: copy_out_def Let_def consume_def)

lemma next_byte_safe:
  assumes "inv s" "\<not> isClosed (strm s)" "rdNext (strm s) \<noteq> stop (strm s)"
  shows "next_byte s = Inr (uint (buff (strm s) ! rdNext (strm s)), consume 1 s)" "inv (consume 1 s)" "left (consume 1 s) < left s"
proof -
  have le: "rdNext (strm s) + 1 \<le> stop (strm s)" using bounds(1) [OF assms(1,2)] assms(3) by simp
  show "next_byte s = Inr (uint (buff (strm s) ! rdNext (strm s)), consume 1 s)"
    using bounds(2) [OF assms(1,2)] le by (simp add: next_byte_def Let_def consume_def)
  show "inv (consume 1 s)" using inv_consume [OF assms(1,2) le] .
  show "left (consume 1 s) < left s" using bounds(4) [OF assms(1,2) le] by simp
qed

lemma mark_simps:
  "isClosed (strm (mark_unget s)) = isClosed (strm s)" "rdNext (strm (mark_unget s)) = rdNext (strm s)"
  "stop (strm (mark_unget s)) = stop (strm s)" "left (mark_unget s) = left s" "buff (strm (mark_unget s)) = buff (strm s)"
  by (simp_all add: mark_unget_def left_def unread_def buffered_def)

text \<open>What a call leaves: a byte, or the end of the stream.\<close>

definition got_char :: "st \<Rightarrow> int \<times> st \<Rightarrow> bool" where
  "got_char s r \<longleftrightarrow> (case r of (c, s') \<Rightarrow> inv s' \<and>
     (if c = EOF then isClosed (strm s') else 0 \<le> c \<and> c \<le> 255 \<and> \<not> isClosed (strm s) \<and> \<not> isClosed (strm s') \<and> left s' < left s))"

lemma got_next_byte:
  assumes "inv s" "\<not> isClosed (strm s)" "rdNext (strm s) \<noteq> stop (strm s)" "left s \<le> left u" "\<not> isClosed (strm u)"
  shows "\<exists>r. next_byte s = Inr r \<and> got_char u r"
proof -
  let ?b = "buff (strm s) ! rdNext (strm s)"
  have u: "0 \<le> uint ?b" "uint ?b \<le> 255" using uint_bounded [of ?b] by simp_all
  then have "uint ?b \<noteq> - 1" by linarith
  with u show ?thesis using next_byte_safe [OF assms(1-3)] assms(2,4,5)
    by (auto simp: got_char_def EOF_def consume_def)
qed

lemma GetChar_safe:
  assumes "inv s"
  shows "safe F (got_char s) (FCGX_GetChar fill s)"
proof (cases "isClosed (strm s)")
  case True
  then show ?thesis using assms by (simp add: FCGX_GetChar_def got_char_def)
next
  case op: False
  show ?thesis
  proof (cases "rdNext (strm s) = stop (strm s)")
    case False
    then show ?thesis using got_next_byte [OF assms op False order_refl op] bounds(3) [OF assms op] op
      by (auto simp: FCGX_GetChar_def)
  next
    case True
    have "safe F (got_char s) (if isClosed (strm s1) then Inr (EOF, s1)
        else let s2 = mark_unget s1 in if rdNext (strm s2) \<noteq> stop (strm s2) then next_byte s2
          else assertr (isClosed (strm s2)) (Inr (EOF, s2)))"
      if "inv s1 \<and> (isClosed (strm s1) \<or> rdNext (strm s1) < stop (strm s1) \<and> left s1 \<le> left s)" for s1
      using that op got_next_byte [of "mark_unget s1" s] inv_mark [of s1] by (auto simp: mark_simps got_char_def)
    from safe_bind [OF fill_safe [OF assms op True] this] show ?thesis
      using op True bounds(3) [OF assms op] by (simp add: FCGX_GetChar_def)
  qed
qed

definition got_str :: "int \<Rightarrow> st \<Rightarrow> byte list \<times> st \<Rightarrow> bool" where
  "got_str n s r \<longleftrightarrow> (case r of (bs, s') \<Rightarrow> inv s' \<and> int (length bs) \<le> max n 0 \<and> (int (length bs) < n \<longrightarrow> isClosed (strm s'))
     \<and> forward s s')"

lemma GetStr_loop_safe:
  assumes "inv s" "\<not> isClosed (strm s)" "length acc < n" "left s + (if rdNext (strm s) = stop (strm s) then 1 else 0) < fuel" "forward u s"
  shows "safe F (got_str (int n) u) (GetStr_loop fill fuel n acc s)"
  using assms
proof (induction fuel arbitrary: acc s)
  case (Suc fuel)
  let ?t = "strm s"
  define m where "m = (if rdNext ?t = stop ?t then 0 else min (n - length acc) (stop ?t - rdNext ?t))"
  define s1 where "s1 = consume m s"
  define bs where "bs = sub_bytes (rdNext ?t) m (buff ?t)"
  note b = bounds [OF Suc.prems(1,2)]
  have m: "rdNext ?t + m \<le> stop ?t" using b(1) by (auto simp: m_def)
  note c = copy_out_safe [OF Suc.prems(1,2) m, folded s1_def bs_def]
  have first: "(if rdNext ?t \<noteq> stop ?t then inbounds (rdNext ?t \<le> stop ?t) (copy_out (min (n - length acc) (stop ?t - rdNext ?t)) s)
      else Inr ([], s)) = Inr (bs, s1)"
    using c b(1) by (auto simp: m_def s1_def bs_def consume_def upd_def)
  let ?acc = "acc @ bs"
  have s1: "inv s1" "\<not> isClosed (strm s1)" "isReader (strm s1)" "left s1 + m = left s" "stop (strm s1) = stop ?t" "rdNext (strm s1) = rdNext ?t + m"
    using inv_consume [OF Suc.prems(1,2) m] Suc.prems(2) b(3) b(4) [OF m] by (simp_all add: s1_def consume_def)
  have len: "length ?acc = length acc + m" using c(2) by simp
  show ?case
  proof (cases "rdNext ?t \<noteq> stop ?t \<and> length ?acc = n")
    case True
    then have "GetStr_loop fill (Suc fuel) n acc s = Inr (?acc, s1)"
      unfolding GetStr_loop.simps(2) first by simp
    moreover have "int (length ?acc) = int n" using True by simp
    moreover have "forward u s1" using s1 Suc.prems(2) by (intro forward_trans [OF Suc.prems(5)]) (simp add: forward_def)
    ultimately show ?thesis using s1 by (simp add: got_str_def)
  next
    case False
    have lt: "length ?acc < n" using False len Suc.prems(3) by (auto simp: m_def split: if_splits)
    have ex: "rdNext (strm s1) = stop (strm s1)" using False len Suc.prems(3) s1(5,6) b(1) by (auto simp: m_def split: if_splits)
    have go: "GetStr_loop fill (Suc fuel) n acc s = bindr (fill s1) (\<lambda>s2.
        if isClosed (strm s2) then Inr (?acc, s2) else GetStr_loop fill fuel n ?acc (mark_unget s2))"
      using False s1(2,3) unfolding GetStr_loop.simps(2) first by auto
    have sm: "left s1 < fuel" using Suc.prems(4) s1(4) Suc.prems(3) b(1) by (auto simp: m_def split: if_splits)
    have "safe F (got_str (int n) u) (if isClosed (strm s2) then Inr (?acc, s2) else GetStr_loop fill fuel n ?acc (mark_unget s2))"
      if "inv s2 \<and> (isClosed (strm s2) \<or> rdNext (strm s2) < stop (strm s2) \<and> left s2 \<le> left s1)" for s2
    proof (cases "isClosed (strm s2)")
      case True
      then show ?thesis using that lt by (simp add: got_str_def forward_def)
    next
      case False
      have "forward s (mark_unget s2)" using that False s1(4) Suc.prems(2) by (auto simp: forward_def mark_simps)
      from forward_trans [OF Suc.prems(5) this]
      have "safe F (got_str (int n) u) (GetStr_loop fill fuel n ?acc (mark_unget s2))"
        using that False sm by (intro Suc.IH inv_mark lt) (auto simp: mark_simps)
      then show ?thesis using False by simp
    qed
    from safe_bind [OF fill_safe [OF s1(1,2) ex] this] show ?thesis unfolding go .
  qed
qed simp

lemma GetStr_safe:
  assumes "inv s"
  shows "safe F (got_str n s) (FCGX_GetStr fill n s)"
proof (cases "isClosed (strm s) \<or> n \<le> 0")
  case True
  then show ?thesis using assms by (auto simp: FCGX_GetStr_def got_str_def)
next
  case op: False
  then have n: "\<not> isClosed (strm s)" "0 < n" by simp_all
  note b = bounds [OF assms n(1)]
  show ?thesis
  proof (cases "n \<le> int (stop (strm s)) - int (rdNext (strm s))")
    case True
    then have le: "rdNext (strm s) + nat n \<le> stop (strm s)" using n(2) by simp
    show ?thesis using copy_out_safe [OF assms n(1) le] inv_consume [OF assms n(1) le] b(4) [OF le] b(3) n True
      by (simp add: FCGX_GetStr_def got_str_def forward_def consume_def)
  next
    case False
    have "safe F (got_str (int (nat n)) s) (GetStr_loop fill (Suc (Suc (length (unread s)))) (nat n) [] s)"
      by (rule GetStr_loop_safe) (use assms n in \<open>simp_all add: left_def\<close>)
    then show ?thesis using n b(3) False by (simp add: FCGX_GetStr_def)
  qed
qed

text \<open>\<open>ReadParams\<close> comes to the end of its stream or reports an error; either way the stream is closed.\<close>

lemma ReadLength_safe:
  assumes "inv s"
  shows "safe F (\<lambda>(x, s'). inv s' \<and> forward s s') (ReadLength fill c s)"
proof -
  have "safe F (\<lambda>(x, s'). inv s' \<and> forward s s') (case r of (lenBuff, s1) \<Rightarrow> if length lenBuff \<noteq> 3 then Inr (None, s1)
          else let n = push_bit 24 (c AND 0x7f) + push_bit 16 (uint (lenBuff ! 0))
                     + push_bit 8 (uint (lenBuff ! 1)) + uint (lenBuff ! 2)
            in if INT_MAX \<le> n \<or> SIZE_MAX \<le> n then Inr (None, s1) else Inr (Some n, s1))"
    if "got_str 3 s r" for r
    using that by (cases r) (simp add: got_str_def Let_def)
  from safe_bind [OF GetStr_safe [OF assms, of 3] this] show ?thesis using assms by (simp add: ReadLength_def)
qed

text \<open>The same facts for a state on the way from \<open>s\<close>.\<close>

definition reach :: "st \<Rightarrow> st \<Rightarrow> bool" where
  "reach s u \<longleftrightarrow> inv u \<and> forward s u"

lemma GetChar_reach: "reach s u \<Longrightarrow> safe F (\<lambda>r. reach s (snd r)) (FCGX_GetChar fill u)"
  by (rule safe_mono [OF GetChar_safe, of u])
    (auto simp: reach_def got_char_def elim!: forward_trans split: if_splits, auto simp: forward_def)

lemma GetStr_reach: "reach s u \<Longrightarrow> safe F (\<lambda>r. reach s (snd r)) (FCGX_GetStr fill n u)"
  by (rule safe_mono [OF GetStr_safe, of u]) (auto simp: reach_def got_str_def elim: forward_trans)

lemma ReadLength_reach: "reach s u \<Longrightarrow> safe F (\<lambda>r. reach s (snd r)) (ReadLength fill c u)"
  by (rule safe_mono [OF ReadLength_safe, of u]) (auto simp: reach_def elim: forward_trans)

definition read_all :: "int \<times> Params \<times> st \<Rightarrow> bool" where
  "read_all r \<longleftrightarrow> (case r of (x, p, s') \<Rightarrow> inv s' \<and> params_ok p \<and> isClosed (strm s') \<and> x \<le> 0)"

lemma params_error_read_all:
  "inv s \<Longrightarrow> params_ok p \<Longrightarrow> safe F read_all (params_error p s)"
  using inv_error [of s FCGX_PARAMS_ERROR] by (simp add: params_error_def read_all_def SetError_def FCGX_PARAMS_ERROR_def)

lemma ReadParams_loop_safe:
  assumes "inv s" "params_ok p" "0 < fuel" "isClosed (strm s) \<or> left s < fuel"
  shows "safe F read_all (ReadParams_loop fill fuel p s)"
  using assms
proof (induction fuel arbitrary: p s)
  case (Suc fuel)
  note error = params_error_read_all [OF _ Suc.prems(2)]
  have put: "safe F read_all (bindr (PutParam p e) (\<lambda>p'. ReadParams_loop fill fuel p' u))"
    if "inv u" "forward s1 u" "\<not> isClosed (strm s)" "left s1 < left s" for e u s1
  proof -
    obtain p' where p': "PutParam p e = Inr p'" "params_ok p'" using PutParam_ok [OF Suc.prems(2)] by blast
    have "isClosed (strm u) \<or> left u < fuel" "0 < fuel"
      using that Suc.prems(4) by (auto simp: forward_def)
    from Suc.IH [OF that(1) p'(2) this(2,1)] show ?thesis by (simp add: p'(1))
  qed
  show ?case unfolding ReadParams_loop.simps(2)
  proof (rule safe_bind [OF GetChar_safe [OF Suc.prems(1)]])
    fix x
    assume g: "got_char s x"
    let ?s1 = "snd x"
    have start: "reach ?s1 ?s1" using g by (auto simp: got_char_def reach_def split: prod.splits)
    have put': "safe F read_all (bindr (PutParam p e) (\<lambda>p'. ReadParams_loop fill fuel p' u))"
      if "reach ?s1 u" "fst x \<noteq> EOF" for e u
      using that g put by (auto simp: got_char_def reach_def split: prod.splits)
    have err: "safe F read_all (params_error p u)" if "reach ?s1 u" for u using that error by (simp add: reach_def)
    have eof: "safe F read_all (Inr (0, p, ?s1))" if "fst x = EOF"
      using that g Suc.prems(2) by (auto simp: got_char_def read_all_def split: prod.splits)
    show "safe F read_all (case x of (c, s1) \<Rightarrow> if c = EOF then Inr (0, p, s1)
     else bindr (ReadLength fill c s1) (\<lambda>(nl, s2). case nl of None \<Rightarrow> params_error p s2 | Some nameLen \<Rightarrow>
     bindr (FCGX_GetChar fill s2) (\<lambda>(d, s3).
     if d = EOF then params_error p s3
     else bindr (ReadLength fill d s3) (\<lambda>(vl, s4). case vl of None \<Rightarrow> params_error p s4 | Some valueLen \<Rightarrow>
     let totalLen = (nameLen + valueLen + 2) mod 2 ^ 64 in
     if totalLen < nameLen \<or> totalLen < valueLen then params_error p s4
     else bindr (FCGX_GetStr fill nameLen s4) (\<lambda>(name, s5).
     if int (length name) \<noteq> nameLen then params_error p s5
     else bindr (FCGX_GetStr fill valueLen s5) (\<lambda>(val, s6).
     if int (length val) \<noteq> valueLen then params_error p s6
     else bindr (PutParam p (name @ [61] @ val)) (\<lambda>p'. ReadParams_loop fill fuel p' s6)))))))"
      unfolding split_beta Let_def
      by (intro safe_if safe_option safe_bind [OF ReadLength_reach] safe_bind [OF GetChar_reach] safe_bind [OF GetStr_reach])
        (assumption | rule start err eof put')+
  qed
qed simp

lemma ReadParams_safe: "inv s \<Longrightarrow> params_ok p \<Longrightarrow> safe F read_all (ReadParams fill p s)"
  unfolding ReadParams_def by (rule ReadParams_loop_safe) (simp_all add: left_def)

text \<open>A line has at most \<open>n - 1\<close> bytes and a newline only at its end; it is shorter only at a newline or at the end of the stream.\<close>

definition got_line :: "int \<Rightarrow> byte list option \<times> st \<Rightarrow> bool" where
  "got_line n r \<longleftrightarrow> (case r of (l, s') \<Rightarrow> inv s' \<and> (case l of None \<Rightarrow> isClosed (strm s')
     | Some bs \<Rightarrow> length bs \<le> nat (n - 1) \<and> 10 \<notin> set (butlast bs)
         \<and> (length bs < nat (n - 1) \<longrightarrow> bs \<noteq> [] \<and> last bs = 10 \<or> isClosed (strm s'))))"

lemma GetLine_loop_safe:
  assumes "inv s" "10 \<notin> set acc" "length acc + k = nat (n - 1)"
  shows "safe F (got_line n) (GetLine_loop fill k acc s)"
  using assms
proof (induction k arbitrary: acc s)
  case 0
  then show ?case by (auto simp: got_line_def dest: in_set_butlastD)
next
  case (Suc k)
  show ?case unfolding GetLine_loop.simps(2) split_beta Let_def
  proof (rule safe_bind [OF GetChar_safe [OF Suc.prems(1)]], rule safe_if)
    fix x
    assume g: "got_char s x" and "fst x = EOF"
    then show "safe F (got_line n) (if acc = [] then Inr (None, snd x) else Inr (Some acc, snd x))"
      using Suc.prems(2,3) by (auto simp: got_char_def got_line_def split: prod.splits dest: in_set_butlastD)
  next
    fix x
    assume g: "got_char s x" and e: "fst x \<noteq> EOF"
    then have x: "inv (snd x)" "0 \<le> fst x" "fst x \<le> 255" by (auto simp: got_char_def split: prod.splits)
    then have nl: "uchar (fst x) = 10 \<longleftrightarrow> fst x = 10" by (simp add: uchar_eq_iff)
    show "safe F (got_line n) (if fst x = 10 then Inr (Some (acc @ [uchar (fst x)]), snd x)
        else GetLine_loop fill k (acc @ [uchar (fst x)]) (snd x))"
    proof (rule safe_if)
      assume "fst x = 10"
      then show "safe F (got_line n) (Inr (Some (acc @ [uchar (fst x)]), snd x))"
        using x nl Suc.prems by (simp add: got_line_def)
    next
      assume "fst x \<noteq> 10"
      then show "safe F (got_line n) (GetLine_loop fill k (acc @ [uchar (fst x)]) (snd x))"
        using x nl Suc.prems by (intro Suc.IH) auto
    qed
  qed
qed

lemma GetLine_safe: "inv s \<Longrightarrow> safe F (got_line n) (FCGX_GetLine fill n s)"
  unfolding FCGX_GetLine_def by (rule GetLine_loop_safe) simp_all

end

end
