(* ===== verification/Fcgi_Management.thy ===== *)
theory Fcgi_Management
  imports Fcgi_Exchange
begin

text \<open>
  Management records. A server may ask for the limits of the application with FCGI_GET_VALUES on a connection; the reader
  answers while it looks for its own records. The reply is built in an array of 64 bytes that has room for each of the three known names once; a
  query that repeats names overruns it. A management record of another type is answered with FCGI_UNKNOWN_TYPE, but its content is not skipped.
\<close>

unbundle bit_operations_syntax

section \<open>The reply\<close>

definition reply_to :: "byte list \<Rightarrow> byte list" where
  "reply_to e = (let name = mgmt_name e in
     case mgmt_value name of None \<Rightarrow> [] | Some value \<Rightarrow> [of_nat (length name), 1] @ name @ [value])"

definition replies :: "byte list list \<Rightarrow> byte list" where
  "replies es = concat (map reply_to es)"

lemma replies_simps [simp]: "replies [] = []" "replies (e # es) = reply_to e @ replies es"
  by (simp_all add: replies_def)

lemma reply_to_cases:
  obtains "mgmt_value (mgmt_name e) = None" "reply_to e = []"
  | x where "mgmt_value (mgmt_name e) = Some x" "reply_to e = [of_nat (length (mgmt_name e)), 1] @ mgmt_name e @ [x]"
      "length (reply_to e) = length (mgmt_name e) + 3"
  by (cases "mgmt_value (mgmt_name e)") (simp_all add: reply_to_def Let_def)

lemma GetValues_fits:
  assumes "replies es = [] \<or> pos + length (replies es) < length resp" "pos \<le> length resp"
  shows "\<exists>resp'. GetValues_loop es pos resp = Inr (pos + length (replies es), resp') \<and> length resp' = length resp
    \<and> take (pos + length (replies es)) resp' = take pos resp @ replies es"
  using assms
proof (induction es arbitrary: pos resp)
  case (Cons e es)
  show ?case
  proof (rule reply_to_cases [of e])
    assume "mgmt_value (mgmt_name e) = None" "reply_to e = []"
    then show ?thesis using Cons.IH [of pos resp] Cons.prems by (simp add: Let_def)
  next
    fix x
    assume x: "mgmt_value (mgmt_name e) = Some x" "reply_to e = [of_nat (length (mgmt_name e)), 1] @ mgmt_name e @ [x]"
      "length (reply_to e) = length (mgmt_name e) + 3"
    let ?n = "length (mgmt_name e)"
    have room: "pos + ?n + 4 \<le> length resp" using Cons.prems x(3) by auto
    let ?bs = "[of_nat ?n, 1] @ mgmt_name e @ [x, 0]"
    define resp1 where "resp1 = put_bytes pos ?bs resp"
    have bs: "?bs = reply_to e @ [0]" using x(2) by simp
    have l1: "length resp1 = length resp" using room unfolding resp1_def by (subst length_put_bytes) simp_all
    have t1: "take (pos + ?n + 3) resp1 = take pos resp @ reply_to e"
    proof -
      have len: "length ?bs = ?n + 4" by simp
      have "take (pos + length ?bs) resp1 = take pos resp @ ?bs"
        using room unfolding resp1_def by (intro take_put_bytes) simp
      then have "take (pos + (?n + 4)) resp1 = take pos resp @ ?bs" by (simp only: len)
      then have all: "take (pos + ?n + 4) resp1 = (take pos resp @ reply_to e) @ [0]"
        by (simp only: bs append_assoc add.assoc)
      have "take (pos + ?n + 3) resp1 = take (pos + ?n + 3) (take (pos + ?n + 4) resp1)" by (simp add: min_def)
      also have "\<dots> = take (length (take pos resp @ reply_to e)) ((take pos resp @ reply_to e) @ [0])"
        unfolding all using x(3) Cons.prems(2) by (simp add: add.assoc)
      finally show ?thesis by (simp only: append_eq_conv_conj [THEN iffD1, OF refl, THEN conjunct1, symmetric])
    qed
    have step: "GetValues_loop (e # es) pos resp = GetValues_loop es (pos + ?n + 3) resp1"
      using x(1) room by (simp add: Let_def resp1_def)
    have "replies es = [] \<or> pos + ?n + 3 + length (replies es) < length resp1" "pos + ?n + 3 \<le> length resp1"
      using Cons.prems x(3) room l1 by auto
    from Cons.IH [OF this] obtain resp' where r: "GetValues_loop es (pos + ?n + 3) resp1 = Inr (pos + ?n + 3 + length (replies es), resp')"
      "length resp' = length resp1" "take (pos + ?n + 3 + length (replies es)) resp' = take (pos + ?n + 3) resp1 @ replies es"
      by blast
    then show ?thesis using step l1 t1 x(3) by (intro exI [of _ resp']) (simp add: ac_simps)
  qed
qed simp

lemma GetValues_overruns:
  assumes "pos \<le> length resp" "length resp \<le> pos + length (replies es)" "replies es \<noteq> []"
  shows "GetValues_loop es pos resp = Inl OutOfBounds"
  using assms
proof (induction es arbitrary: pos resp)
  case (Cons e es)
  show ?case
  proof (rule reply_to_cases [of e])
    assume "mgmt_value (mgmt_name e) = None" "reply_to e = []"
    then show ?thesis using Cons.IH [of pos resp] Cons.prems by (simp add: Let_def)
  next
    fix x
    assume x: "mgmt_value (mgmt_name e) = Some x" "reply_to e = [of_nat (length (mgmt_name e)), 1] @ mgmt_name e @ [x]"
      "length (reply_to e) = length (mgmt_name e) + 3"
    let ?n = "length (mgmt_name e)"
    let ?resp = "put_bytes pos ([of_nat ?n, 1] @ mgmt_name e @ [x, 0]) resp"
    show ?thesis
    proof (cases "pos + ?n + 4 \<le> length resp")
      case False
      then show ?thesis using x(1) by (simp add: Let_def)
    next
      case True
      have l: "length ?resp = length resp" using True by (subst length_put_bytes) simp_all
      have "GetValues_loop es (pos + ?n + 3) ?resp = Inl OutOfBounds"
      proof (rule Cons.IH)
        show "replies es \<noteq> []" using True x(3) Cons.prems by (cases "replies es") simp_all
      qed (use True l x(3) Cons.prems in simp_all)
      then show ?thesis using x(1) True by (simp add: Let_def)
    qed
  qed
qed simp

section \<open>Answering a query\<close>

text \<open>The record FCGI_GET_VALUES with the names \<open>nvs\<close>, and the reply to it: the padding is whatever the array held.\<close>

definition query_record :: "(byte list \<times> byte list) list \<Rightarrow> byte list \<Rightarrow> byte list" where
  "query_record nvs p = rec_bytes FCGI_GET_VALUES FCGI_NULL_REQUEST_ID (pairs_bytes nvs) p"

definition reply_record :: "(byte list \<times> byte list) list \<Rightarrow> byte list \<Rightarrow> byte list" where
  "reply_record nvs pad = rec_bytes FCGI_GET_VALUES_RESULT FCGI_NULL_REQUEST_ID (replies (map pair_entry nvs)) pad"

lemma AlignInt8_reply:
  assumes "n \<le> 55"
  obtains k where "AlignInt8 (of_nat n) = int (n + k)" "k \<le> 7" "n + k \<le> 56"
proof -
  have b: "int n \<le> AlignInt8 (of_nat n)" "AlignInt8 (of_nat n) \<le> int n + 7" "AlignInt8 (of_nat n) mod 8 = 0"
    using AlignInt8_bounds [of n] assms by simp_all
  define k where "k = nat (AlignInt8 (of_nat n) - int n)"
  have k: "AlignInt8 (of_nat n) = int (n + k)" "k \<le> 7" using b by (simp_all add: k_def)
  moreover have "n + k \<le> 56"
  proof -
    have "(n + k) mod 8 = 0" using b(3) unfolding k(1) by presburger
    then show ?thesis using assms k(2) by presburger
  qed
  ultimately show ?thesis by (rule that)
qed

text \<open>What \<open>ProcessManagementRecord\<close> does with a query whose body is before it.\<close>

lemma read_query:
  assumes "rd_inv s" "\<not> isClosed (strm s)" "\<not> skip (strm s)" "eorStop (strm s)" "stop (strm s) = rdNext (strm s)"
    "contentLen (strm s) = length (pairs_bytes nvs)" "paddingLen (strm s) = length p"
    "unread s = pairs_bytes nvs @ p @ w" "p @ w \<noteq> []" "list_all pair_fits nvs" "FCGI_errno (strm s) = 0"
  shows "\<exists>s1. ProcessManagementRecord FillBuffProc_eor FCGI_GET_VALUES s =
      bindr (GetValues_loop (map pair_entry nvs) FCGI_HEADER_LEN (response_array (sys s))) (\<lambda>(responseP, response).
        let len = responseP - FCGI_HEADER_LEN; paddedLen = AlignInt8 (of_nat len) in
        bindr (MakeHeader FCGI_GET_VALUES_RESULT FCGI_NULL_REQUEST_ID (int len) (paddedLen - int len))
          (\<lambda>h. send_response (put_bytes 0 (header_bytes h) response) (FCGI_HEADER_LEN + nat paddedLen) s1))
    \<and> stream_ended (body_ctx s p w) s1"
proof -
  let ?K = "body_ctx s p w"
  have y: "stream_yields ?K s (pairs_bytes nvs) \<and> k_eor ?K"
    using body_yields [OF assms(1-5,8)] assms(6,7,9) by (simp add: body_ctx_def)
  obtain p0 where p0: "NewParams 3 = Inr p0" "params_ok p0" "entries p0 = []" using NewParams_ok [of 3] by auto
  from body_source.ReadParams_pairs [OF y assms(10) p0(2)] obtain s1 p1 where
    r: "ReadParams FillBuffProc_eor p0 s = Inr (0, p1, s1)" "stream_ended ?K s1" "entries p1 = map pair_entry nvs"
    using p0(3) by auto
  have "FCGI_errno (strm s1) = 0" "contentLen (strm s1) = 0"
    using r(2) assms(11) by (simp_all add: stream_ended_def k_frame_def body_ctx_def)
  then show ?thesis using p0(1) r
    by (intro exI [of _ s1]) (simp add: ProcessManagementRecord_def FCGX_GetError_def)
qed

lemma answer_query:
  assumes "rd_inv s" "\<not> isClosed (strm s)" "\<not> skip (strm s)" "eorStop (strm s)" "stop (strm s) = rdNext (strm s)"
    "contentLen (strm s) = length (pairs_bytes nvs)" "paddingLen (strm s) = length p"
    "unread s = pairs_bytes nvs @ p @ w" "p @ w \<noteq> []" "list_all pair_fits nvs" "FCGI_errno (strm s) = 0"
    "writable (ipcFd (rqd s)) (sys s)" "length (replies (map pair_entry nvs)) \<le> 55"
  shows "\<exists>s' pad. ProcessManagementRecord FillBuffProc_eor FCGI_GET_VALUES s = Inr (MGMT_RECORD, s')
    \<and> length pad \<le> 7 \<and> sent (conns (sys s') (ipcFd (rqd s))) = sent (conns (sys s) (ipcFd (rqd s))) @ reply_record nvs pad
    \<and> rd_inv s' \<and> rqd s' = rqd s \<and> unread s' = w \<and> contentLen (strm s') = 0 \<and> paddingLen (strm s') = 0
    \<and> \<not> skip (strm s') \<and> FCGI_errno (strm s') = 0 \<and> dtype (strm s') = dtype (strm s) \<and> writable (ipcFd (rqd s)) (sys s')"
proof -
  let ?r = "replies (map pair_entry nvs)" and ?fd = "ipcFd (rqd s)"
  obtain s1 where pm: "ProcessManagementRecord FillBuffProc_eor FCGI_GET_VALUES s =
      bindr (GetValues_loop (map pair_entry nvs) FCGI_HEADER_LEN (response_array (sys s))) (\<lambda>(responseP, response).
        let len = responseP - FCGI_HEADER_LEN; paddedLen = AlignInt8 (of_nat len) in
        bindr (MakeHeader FCGI_GET_VALUES_RESULT FCGI_NULL_REQUEST_ID (int len) (paddedLen - int len))
          (\<lambda>h. send_response (put_bytes 0 (header_bytes h) response) (FCGI_HEADER_LEN + nat paddedLen) s1))"
    and e: "stream_ended (body_ctx s p w) s1"
    using read_query [OF assms(1-11)] by blast
  have s1: "rd_inv s1" "rqd s1 = rqd s" "same_output (sys s) (sys s1)" "unread s1 = w" "contentLen (strm s1) = 0"
    "paddingLen (strm s1) = 0" "\<not> skip (strm s1)" "FCGI_errno (strm s1) = 0" "dtype (strm s1) = dtype (strm s)"
    using e assms(11) by (simp_all add: stream_ended_def k_frame_def body_ctx_def)
  have arr: "length (response_array (sys s)) = 64" by (simp add: response_array_def)
  obtain resp where resp: "GetValues_loop (map pair_entry nvs) 8 (response_array (sys s)) = Inr (8 + length ?r, resp)"
      "length resp = 64" "take (8 + length ?r) resp = take 8 (response_array (sys s)) @ ?r"
    using GetValues_fits [of "map pair_entry nvs" 8 "response_array (sys s)"] assms(13) arr by auto
  obtain k where k: "AlignInt8 (of_nat (length ?r)) = int (length ?r + k)" "k \<le> 7" "length ?r + k \<le> 56"
    by (rule AlignInt8_reply [OF assms(13)])
  have h: "MakeHeader FCGI_GET_VALUES_RESULT FCGI_NULL_REQUEST_ID (int (length ?r)) (int k)
      = Inr (header_for FCGI_GET_VALUES_RESULT FCGI_NULL_REQUEST_ID (length ?r) k)"
    by (rule MakeHeader_for) (use assms(13) k(2) in simp_all)
  let ?h = "header_bytes (header_for FCGI_GET_VALUES_RESULT FCGI_NULL_REQUEST_ID (length ?r) k)"
  define out where "out = put_bytes 0 ?h resp"
  define pad where "pad = sub_bytes (8 + length ?r) k resp"
  have pad: "length pad = k" using resp(2) k(3) by (simp add: pad_def)
  have "drop 8 (take (8 + length ?r) resp) = ?r" using resp(3) arr by simp
  then have body: "sub_bytes 8 (length ?r) resp = ?r" by (simp add: sub_bytes_def drop_take)
  have "take (8 + (length ?r + k)) out = ?h @ sub_bytes 8 (length ?r + k) resp"
    using resp(2) by (simp add: out_def put_bytes_def sub_bytes_def)
  then have out: "take (8 + (length ?r + k)) out = reply_record nvs pad"
    using body pad by (simp add: sub_bytes_split pad_def reply_record_def rec_bytes_def)
  have lo: "length out = 64" using resp(2) unfolding out_def by (subst length_put_bytes) simp_all
  have wr: "writable ?fd (sys s1)" using assms(12) s1(3) os_rest_fields(1) [of "sys s1" "sys s"]
    by (simp add: writable_def same_output_def)
  obtain w1 where w1: "write_it_all ?fd (reply_record nvs pad) (sys s1) = (0, w1)" "writable ?fd w1"
    using write_it_all_writable [OF wr] by blast
  have snt: "sent (conns w1 ?fd) = sent (conns (sys s) ?fd) @ reply_record nvs pad"
    using write_it_all_sent [OF w1(1)] s1(3) by (auto simp: same_output_def)
  define s2 where "s2 = s1\<lparr>sys := w1\<rparr>"
  have "send_response out (8 + (length ?r + k)) s1 = Inr (MGMT_RECORD, s2)"
    using k(3) lo out w1(1) s1(2) by (simp add: send_response_def s2_def)
  then have "ProcessManagementRecord FillBuffProc_eor FCGI_GET_VALUES s = Inr (MGMT_RECORD, s2)"
    unfolding pm using resp(1) k(1) h by (simp add: FCGI_HEADER_LEN_def out_def nat_add_distrib)
  moreover have "unread s2 = w" using s1(2,4) write_it_all_incoming [OF w1(1)] by (simp add: s2_def unread_def)
  moreover have "rd_inv s2" using s1(1) by (simp add: s2_def rd_inv_def)
  ultimately show ?thesis using s1 snt w1(2) pad k(2)
    by (intro exI [of _ s2] exI [of _ pad]) (simp add: s2_def)
qed

section \<open>Management records between requests\<close>

text \<open>A header of a management record reaches \<open>ProcessManagementRecord\<close>, with its body before the stream.\<close>

lemma management_header:
  assumes "idle s" "unread s = rec_bytes ty FCGI_NULL_REQUEST_ID c p @ w" "length c \<le> 65535" "length p \<le> 255"
    "0 \<le> ty" "ty \<le> 255" "ty \<noteq> FCGI_BEGIN_REQUEST" "length (unread s) < fuel"
  shows "\<exists>s4 fuel'. FillBuffLoop (ProcessHeader FillBuffProc_eor) fuel [] s =
        bindr (ProcessManagementRecord FillBuffProc_eor ty (begun (length c) (length p) s4)) (\<lambda>(status, s5).
           fill_dispatch (FillBuffLoop (ProcessHeader FillBuffProc_eor) fuel' []) status (leave_header s5))
     \<and> rd_inv s4 \<and> unread s4 = c @ p @ w \<and> control (strm s4) = control (strm s) \<and> rqd s4 = rqd s
     \<and> same_output (sys s) (sys s4) \<and> length (c @ p @ w) < fuel'"
proof -
  let ?h = "header_for ty FCGI_NULL_REQUEST_ID (length c) (length p)" and ?ph = "ProcessHeader FillBuffProc_eor"
  have hu: "[] @ unread s = header_bytes ?h @ c @ p @ w" using assms(2) by (simp add: rec_bytes_def)
  from assms(1) have id: "rd_inv s" "contentLen (strm s) = 0" "paddingLen (strm s) = 0" "\<not> eorStop (strm s)"
    by (simp_all add: idle_def)
  from FillBuffLoop_header [OF id hu _ assms(8), of ?ph] obtain s4 f where
    s4: "FillBuffLoop ?ph fuel [] s = bindr (?ph ?h (enter_header s4)) (\<lambda>(status, s5).
           fill_dispatch (FillBuffLoop ?ph f []) status (leave_header s5))" "rd_inv s4"
      "unread s4 = c @ p @ w" "control (strm s4) = control (strm s)" "rqd s4 = rqd s" "same_output (sys s) (sys s4)"
      "length (c @ p @ w) < f" by auto
  have "?ph ?h (enter_header s4) = ProcessManagementRecord FillBuffProc_eor ty (begun (length c) (length p) s4)"
    using assms(3-7) by (simp add: ProcessHeader_def header_for_fields Let_def begun_def FCGI_NULL_REQUEST_ID_def)
  then show ?thesis using s4 by auto
qed

lemma begun_facts:
  assumes "rd_inv s4" "control (strm s4) = control (strm s)" "rqd s4 = rqd s" "idle s"
  shows "rd_inv (begun n p s4)" "\<not> isClosed (strm (begun n p s4))" "\<not> skip (strm (begun n p s4))" "eorStop (strm (begun n p s4))"
    "stop (strm (begun n p s4)) = rdNext (strm (begun n p s4))" "contentLen (strm (begun n p s4)) = n" "paddingLen (strm (begun n p s4)) = p"
    "FCGI_errno (strm (begun n p s4)) = FCGI_errno (strm s)" "rqd (begun n p s4) = rqd s" "sys (begun n p s4) = sys s4"
    "dtype (strm (begun n p s4)) = dtype (strm s)" "unread (begun n p s4) = unread s4"
  using assms control_fields [OF assms(2)] by (simp_all add: begun_def rd_inv_def idle_def Let_def unread_def buffered_def)

lemma same_output_writable:
  assumes "same_output w w'"
  shows "writable fd w \<Longrightarrow> writable fd w'" "sent (conns w' fd) = sent (conns w fd)"
  using assms os_rest_fields(1) [of w' w] by (simp_all add: writable_def same_output_def)

lemma idle_leave:
  assumes "rd_inv s" "contentLen (strm s) = 0" "paddingLen (strm s) = 0" "\<not> skip (strm s)"
  shows "idle (leave_header s)" "unread (leave_header s) = unread s"
  using assms by (simp_all add: idle_def rd_inv_def unread_def buffered_def Let_def)

lemma query_answered:
  assumes "idle s" "unread s = query_record nvs p @ w" "length (pairs_bytes nvs) \<le> 65535" "length p \<le> 255"
    "p @ w \<noteq> []" "list_all pair_fits nvs" "FCGI_errno (strm s) = 0" "writable (ipcFd (rqd s)) (sys s)"
    "length (replies (map pair_entry nvs)) \<le> 55" "length (unread s) < fuel"
  shows "\<exists>s' fuel' pad. FillBuffLoop (ProcessHeader FillBuffProc_eor) fuel [] s = FillBuffLoop (ProcessHeader FillBuffProc_eor) fuel' [] s'
    \<and> idle s' \<and> rqd s' = rqd s \<and> unread s' = w \<and> length w < fuel' \<and> FCGI_errno (strm s') = 0 \<and> length pad \<le> 7
    \<and> sent (conns (sys s') (ipcFd (rqd s))) = sent (conns (sys s) (ipcFd (rqd s))) @ reply_record nvs pad"
proof -
  have ty: "0 \<le> FCGI_GET_VALUES" "FCGI_GET_VALUES \<le> 255" "FCGI_GET_VALUES \<noteq> FCGI_BEGIN_REQUEST" by (simp_all add: fcgi_consts)
  from management_header [OF assms(1) assms(2) [unfolded query_record_def] assms(3,4) ty assms(10)] obtain s4 f where
    s4: "FillBuffLoop (ProcessHeader FillBuffProc_eor) fuel [] s =
        bindr (ProcessManagementRecord FillBuffProc_eor FCGI_GET_VALUES (begun (length (pairs_bytes nvs)) (length p) s4)) (\<lambda>(status, s5).
           fill_dispatch (FillBuffLoop (ProcessHeader FillBuffProc_eor) f []) status (leave_header s5))"
     "rd_inv s4" "unread s4 = pairs_bytes nvs @ p @ w" "control (strm s4) = control (strm s)" "rqd s4 = rqd s"
     "same_output (sys s) (sys s4)" "length (pairs_bytes nvs @ p @ w) < f" by auto
  let ?b = "begun (length (pairs_bytes nvs)) (length p) s4"
  note b = begun_facts [OF s4(2,4,5) assms(1), of "length (pairs_bytes nvs)" "length p"]
  have u: "unread ?b = pairs_bytes nvs @ p @ w" using b(12) s4(3) by simp
  have wr: "writable (ipcFd (rqd ?b)) (sys ?b)" using b(9,10) same_output_writable(1) [OF s4(6)] assms(8) by simp
  obtain s5 pad where s5: "ProcessManagementRecord FillBuffProc_eor FCGI_GET_VALUES ?b = Inr (MGMT_RECORD, s5)" "length pad \<le> 7"
      "sent (conns (sys s5) (ipcFd (rqd s))) = sent (conns (sys s4) (ipcFd (rqd s))) @ reply_record nvs pad"
      "rd_inv s5" "rqd s5 = rqd s" "unread s5 = w" "contentLen (strm s5) = 0" "paddingLen (strm s5) = 0"
      "\<not> skip (strm s5)" "FCGI_errno (strm s5) = 0"
    using answer_query [OF b(1-7) u assms(5,6) _ wr assms(9)] b(8-10) assms(7) by auto
  note i = idle_leave [OF s5(4,7-9)]
  have "FillBuffLoop (ProcessHeader FillBuffProc_eor) fuel [] s = FillBuffLoop (ProcessHeader FillBuffProc_eor) f [] (leave_header s5)"
    using s4(1) s5(1) by (simp add: fill_dispatch_def status_defs)
  then show ?thesis using i s5 s4(7) same_output_writable(2) [OF s4(6)]
    by (intro exI [of _ "leave_header s5"] exI [of _ f] exI [of _ pad]) simp
qed

section \<open>Sample queries\<close>

text \<open>A reader between requests, and a query that asks four times for the longest name.\<close>

definition idle_reader :: "byte list \<Rightarrow> st" where
  "idle_reader bs = (sample_reader bs)\<lparr>rqd := zero_reqData\<lparr>ipcFd := 5\<rparr>\<rparr>"

definition greedy_query :: "(byte list \<times> byte list) list" where
  "greedy_query = [(FCGI_MPXS_CONNS, []), (FCGI_MPXS_CONNS, []), (FCGI_MPXS_CONNS, []), (FCGI_MPXS_CONNS, [])]"

lemma mgmt_names:
  "mgmt_name (FCGI_MAX_REQS @ 61 # v) = FCGI_MAX_REQS" "mgmt_name (FCGI_MPXS_CONNS @ 61 # v) = FCGI_MPXS_CONNS"
  "mgmt_value FCGI_MAX_REQS = Some 49" "mgmt_value FCGI_MPXS_CONNS = Some 48"
  "length FCGI_MAX_REQS = 13" "length FCGI_MPXS_CONNS = 15"
  by (simp_all add: mgmt_name_def mgmt_value_def FCGI_MAX_REQS_def FCGI_MPXS_CONNS_def FCGI_MAX_CONNS_def bytes_def)

lemma greedy_replies:
  "length (replies (map pair_entry greedy_query)) = 72" "list_all pair_fits greedy_query" "length (pairs_bytes greedy_query) = 68"
  by (simp_all add: greedy_query_def pair_entry_def reply_to_def mgmt_names pair_fits_def INT_MAX_def
      pairs_bytes_def pair_bytes_def length_field_def)

lemma idle_reader_facts:
  "idle (idle_reader bs)" "3 < length bs \<Longrightarrow> unread (idle_reader bs) = bs" "FCGI_errno (strm (idle_reader bs)) = 0"
  "ipcFd (rqd (idle_reader bs)) = 5" "\<not> isBeginProcessed (rqd (idle_reader bs))" "writable 5 (sys (idle_reader bs))"
  "rdNext (strm (idle_reader bs)) = stop (strm (idle_reader bs))"
proof -
  obtain t w where t: "NewReader 64 0 (sample_os []) = (t, w)" by fastforce
  note n = NewReader_idle [OF t]
  show "idle (idle_reader bs)" using n(5) by (simp add: idle_reader_def sample_reader_def t)
  show "FCGI_errno (strm (idle_reader bs)) = 0" "rdNext (strm (idle_reader bs)) = stop (strm (idle_reader bs))"
    using n by (simp_all add: idle_reader_def sample_reader_def t)
  show "3 < length bs \<Longrightarrow> unread (idle_reader bs) = bs"
    using sample_reader_facts(3) [of bs] by (simp add: idle_reader_def unread_def sample_reader_def)
qed (simp_all add: idle_reader_def sample_reader_def writable_def sample_os_def sample_conn_def zero_reqData_def is_short_write_def)

section \<open>Properties\<close>

text \<open>The limits of the library, as the name-value pairs a server expects for the names it asks for: one connection, one request, no multiplexing. A
  name counts up to its first equals sign or NUL.\<close>

definition limit_values :: "(byte list \<times> byte list) list" where
  "limit_values = [(bytes ''FCGI_MAX_CONNS'', bytes ''1''), (bytes ''FCGI_MAX_REQS'', bytes ''1''), (bytes ''FCGI_MPXS_CONNS'', bytes ''0'')]"

definition limits_answered :: "(byte list \<times> byte list) list \<Rightarrow> (byte list \<times> byte list) list" where
  "limits_answered nvs = concat (map (\<lambda>(n, _). let m = takeWhile (\<lambda>b. b \<noteq> 0 \<and> b \<noteq> 61) n in
     case map_of limit_values m of None \<Rightarrow> [] | Some v \<Rightarrow> [(m, v)]) nvs)"

lemma asked_name: "mgmt_name (n @ 61 # v) = takeWhile (\<lambda>b. b \<noteq> 0 \<and> b \<noteq> 61) n"
  unfolding mgmt_name_def by (induction n) auto

lemma limit_values_of: "map_of limit_values m = map_option (\<lambda>x. [x]) (mgmt_value m)"
  by (simp add: limit_values_def mgmt_value_def FCGI_MAX_REQS_def FCGI_MPXS_CONNS_def FCGI_MAX_CONNS_def bytes_def)

lemma limit_bytes: "mgmt_value m = Some x \<Longrightarrow> pair_bytes (m, [x]) = [of_nat (length m), 1] @ m @ [x]"
  by (auto simp: mgmt_value_def FCGI_MAX_REQS_def FCGI_MPXS_CONNS_def FCGI_MAX_CONNS_def bytes_def pair_bytes_def length_field_def uchar_def split: if_splits)

lemma replies_limits: "replies (map pair_entry nvs) = pairs_bytes (limits_answered nvs)"
proof (induction nvs)
  case (Cons nv nvs)
  obtain n v where nv: "nv = (n, v)" by fastforce
  have "reply_to (pair_entry nv) = (let m = takeWhile (\<lambda>b. b \<noteq> 0 \<and> b \<noteq> 61) n in
      pairs_bytes (case map_of limit_values m of None \<Rightarrow> [] | Some v \<Rightarrow> [(m, v)]))"
    by (auto simp: nv pair_entry_def reply_to_def asked_name limit_values_of limit_bytes pairs_bytes_def Let_def split: option.split)
  then show ?case using Cons by (simp add: limits_answered_def nv pairs_bytes_def Let_def)
qed (simp add: limits_answered_def pairs_bytes_def)

text \<open>A query for all three limits and for a name that is none, and its answer.\<close>

definition limits_query :: "(byte list \<times> byte list) list" where
  "limits_query = [(bytes ''FCGI_MAX_CONNS'', []), ([65], [66]), (bytes ''FCGI_MAX_REQS'', []), (bytes ''FCGI_MPXS_CONNS'', [])]"

definition limits_text :: "byte list" where
  "limits_text = [14, 1] @ bytes ''FCGI_MAX_CONNS1'' @ [13, 1] @ bytes ''FCGI_MAX_REQS1'' @ [15, 1] @ bytes ''FCGI_MPXS_CONNS0''"

lemma limits_query_facts:
  "pairs_bytes (limits_answered limits_query) = limits_text" "length limits_text = 51" "list_all pair_fits limits_query"
  "length (pairs_bytes limits_query) = 52"
  by (simp_all add: limits_query_def limits_answered_def limit_values_def limits_text_def pairs_bytes_def pair_bytes_def length_field_def bytes_def
      pair_fits_def INT_MAX_def uchar_def)

text \<open>C13. A server that asks for limits before it sends its first request gets its answer: the FCGI_GET_VALUES_RESULT record with one
  pair for every known name asked for, in order (FCGI_MAX_CONNS is 1, FCGI_MAX_REQS is 1, FCGI_MPXS_CONNS is 0), and then the request that follows is
  accepted as if nothing had happened. The answer must not be longer than 55 bytes, and the connection takes it.\<close>

theorem query_before_request:
  assumes "idle s" "unread s = query_record nvs p @ rec_bytes FCGI_BEGIN_REQUEST rid (begin_body_bytes b) [] @ w"
    "length (pairs_bytes nvs) \<le> 65535" "length p \<le> 255" "list_all pair_fits nvs" "FCGI_errno (strm s) = 0"
    "writable (ipcFd (rqd s)) (sys s)" "length (pairs_bytes (limits_answered nvs)) \<le> 55"
    "w \<noteq> []" "length (b_reserved b) = 5" "0 < rid" "rid \<le> 65535" "\<not> isBeginProcessed (rqd s)"
  shows "\<exists>s' pad. FillBuffProc s = Inr s' \<and> rqd s' = request_of rid b (rqd s) \<and> unread s' = w \<and> \<not> isClosed (strm s')
    \<and> FCGI_errno (strm s') = 0 \<and> length pad \<le> 7
    \<and> sent (conns (sys s') (ipcFd (rqd s))) = sent (conns (sys s) (ipcFd (rqd s)))
        @ rec_bytes FCGI_GET_VALUES_RESULT FCGI_NULL_REQUEST_ID (pairs_bytes (limits_answered nvs)) pad"
proof -
  let ?w = "rec_bytes FCGI_BEGIN_REQUEST rid (begin_body_bytes b) [] @ w"
  have ne: "p @ ?w \<noteq> []" using assms(9) by simp
  obtain s1 f pad where s1: "FillBuffLoop (ProcessHeader FillBuffProc_eor) (Suc (length (unread s))) [] s
        = FillBuffLoop (ProcessHeader FillBuffProc_eor) f [] s1"
      "idle s1" "rqd s1 = rqd s" "unread s1 = ?w" "length ?w < f" "FCGI_errno (strm s1) = 0" "length pad \<le> 7"
      "sent (conns (sys s1) (ipcFd (rqd s))) = sent (conns (sys s) (ipcFd (rqd s))) @ reply_record nvs pad"
    using query_answered [OF assms(1-4) ne assms(5-8) [folded replies_limits], of "Suc (length (unread s))"] by auto
  obtain s' where "FillBuffLoop (ProcessHeader FillBuffProc_eor) f [] s1 = Inr s'" "unread s' = w"
      "rqd s' = request_of rid b (rqd s)" "same_output (sys s1) (sys s')" "\<not> isClosed (strm s')" "FCGI_errno (strm s') = 0"
    using FillBuffLoop_begin [OF s1(2), of rid b "[]" w f] s1(3-6) assms(9-13) by auto
  then show ?thesis using s1 by (auto simp: FillBuffProc_def same_output_def reply_record_def replies_limits)
qed

theorem query_before_request_witness:
  "\<exists>s' pad. FillBuffProc (idle_reader (query_record limits_query [0, 0, 0, 0] @ sample_wire)) = Inr s'
    \<and> rqd s' = request_of 1 sample_body (zero_reqData\<lparr>ipcFd := 5\<rparr>) \<and> unread s' = sample_params \<and> \<not> isClosed (strm s')
    \<and> FCGI_errno (strm s') = 0 \<and> length pad \<le> 7
    \<and> sent (conns (sys s') 5) = sent (conns (sys (idle_reader (query_record limits_query [0, 0, 0, 0] @ sample_wire))) 5)
        @ rec_bytes FCGI_GET_VALUES_RESULT FCGI_NULL_REQUEST_ID limits_text pad"
proof -
  let ?s = "idle_reader (query_record limits_query [0, 0, 0, 0] @ sample_wire)"
  have u: "unread ?s = query_record limits_query [0, 0, 0, 0] @ rec_bytes FCGI_BEGIN_REQUEST 1 (begin_body_bytes sample_body) [] @ sample_params"
    using idle_reader_facts(2) [of "query_record limits_query [0, 0, 0, 0] @ sample_wire"]
    by (simp add: sample_wire_def query_record_def rec_bytes_def)
  have r: "rqd ?s = zero_reqData\<lparr>ipcFd := 5\<rparr>" by (simp add: idle_reader_def)
  have ne: "sample_params \<noteq> []" by (simp add: sample_params_def rec_bytes_def header_bytes_def)
  show ?thesis
    using query_before_request [OF idle_reader_facts(1) u _ _ limits_query_facts(3) idle_reader_facts(3) _ _ ne _ _ _ idle_reader_facts(5)]
      limits_query_facts(1,2,4) idle_reader_facts(4,6) r
    by (simp add: sample_body_def)
qed

text \<open>C14. A query that repeats names makes the library write past the array \<open>response[64]\<close>: as soon as the reply is longer than 55
  bytes, which four known names are. The bytes written are chosen by the peer only in their lengths and order.\<close>

theorem query_overflow:
  assumes "idle s" "unread s = query_record nvs p @ w" "length (pairs_bytes nvs) \<le> 65535" "length p \<le> 255"
    "p @ w \<noteq> []" "list_all pair_fits nvs" "FCGI_errno (strm s) = 0" "55 < length (replies (map pair_entry nvs))"
  shows "FillBuffProc s = Inl OutOfBounds"
proof -
  have ty: "0 \<le> FCGI_GET_VALUES" "FCGI_GET_VALUES \<le> 255" "FCGI_GET_VALUES \<noteq> FCGI_BEGIN_REQUEST" by (simp_all add: fcgi_consts)
  from management_header [OF assms(1) assms(2) [unfolded query_record_def] assms(3,4) ty, of "Suc (length (unread s))"] obtain s4 f where
    s4: "FillBuffLoop (ProcessHeader FillBuffProc_eor) (Suc (length (unread s))) [] s =
        bindr (ProcessManagementRecord FillBuffProc_eor FCGI_GET_VALUES (begun (length (pairs_bytes nvs)) (length p) s4)) (\<lambda>(status, s5).
           fill_dispatch (FillBuffLoop (ProcessHeader FillBuffProc_eor) f []) status (leave_header s5))"
     "rd_inv s4" "unread s4 = pairs_bytes nvs @ p @ w" "control (strm s4) = control (strm s)" "rqd s4 = rqd s"
     "same_output (sys s) (sys s4)" by auto
  let ?b = "begun (length (pairs_bytes nvs)) (length p) s4"
  note b = begun_facts [OF s4(2,4,5) assms(1), of "length (pairs_bytes nvs)" "length p"]
  have u: "unread ?b = pairs_bytes nvs @ p @ w" using b(12) s4(3) by simp
  have "GetValues_loop (map pair_entry nvs) FCGI_HEADER_LEN (response_array (sys ?b)) = Inl OutOfBounds"
    by (rule GetValues_overruns) (use assms(8) in \<open>auto simp: response_array_def FCGI_HEADER_LEN_def\<close>)
  with read_query [OF b(1-7) u assms(5,6)] b(8) assms(7)
  have "ProcessManagementRecord FillBuffProc_eor FCGI_GET_VALUES ?b = Inl OutOfBounds" by auto
  then show ?thesis using s4(1) by (simp add: FillBuffProc_def)
qed

theorem query_overflow_witness:
  "FillBuffProc (idle_reader (query_record greedy_query [] @ [0])) = Inl OutOfBounds"
proof -
  have u: "unread (idle_reader (query_record greedy_query [] @ [0])) = query_record greedy_query [] @ [0]"
    using idle_reader_facts(2) [of "query_record greedy_query [] @ [0]"] by (simp add: query_record_def rec_bytes_def)
  show ?thesis
    using query_overflow [OF idle_reader_facts(1) u _ _ _ greedy_replies(2) idle_reader_facts(3)] greedy_replies(1,3) by simp
qed

text \<open>The content of a management record of another type is not skipped: after the FCGI_UNKNOWN_TYPE reply it is handed to the application
  as if it belonged to the stream being read.\<close>

theorem unknown_content_delivered:
  assumes "idle s" "unread s = rec_bytes ty FCGI_NULL_REQUEST_ID (b # c) p @ w" "length (b # c) \<le> 65535" "length p \<le> 255"
    "0 \<le> ty" "ty \<le> 255" "ty \<noteq> FCGI_BEGIN_REQUEST" "ty \<noteq> FCGI_GET_VALUES" "writable (ipcFd (rqd s)) (sys s)"
    "rdNext (strm s) = stop (strm s)"
  shows "\<exists>s'. FCGX_GetChar FillBuffProc s = Inr (uint b, s')"
proof -
  let ?ph = "ProcessHeader FillBuffProc_eor" and ?c = "b # c" and ?fd = "ipcFd (rqd s)"
  from management_header [OF assms(1-7), of "Suc (length (unread s))"] obtain s4 f where
    s4: "FillBuffLoop ?ph (Suc (length (unread s))) [] s =
        bindr (ProcessManagementRecord FillBuffProc_eor ty (begun (length ?c) (length p) s4)) (\<lambda>(status, s5).
           fill_dispatch (FillBuffLoop ?ph f []) status (leave_header s5))"
     "rd_inv s4" "unread s4 = ?c @ p @ w" "control (strm s4) = control (strm s)" "rqd s4 = rqd s"
     "same_output (sys s) (sys s4)" "length (?c @ p @ w) < f" by blast
  define u where "u = begun (length ?c) (length p) s4"
  note b = begun_facts [OF s4(2,4,5) assms(1), of "length ?c" "length p", folded u_def]
  have u: "unread u = ?c @ p @ w" using b(12) s4(3) by simp
  have wr: "writable ?fd (sys u)" using b(10) same_output_writable(1) [OF s4(6)] assms(9) by simp
  obtain out where out: "ProcessManagementRecord FillBuffProc_eor ty u = send_response out 16 u" "16 \<le> length out"
  proof -
    have h: "MakeHeader FCGI_UNKNOWN_TYPE FCGI_NULL_REQUEST_ID 8 0 = Inr (header_for FCGI_UNKNOWN_TYPE FCGI_NULL_REQUEST_ID 8 0)"
      using MakeHeader_for [of 8 0] by simp
    have "length (put_bytes 0 (header_bytes (header_for FCGI_UNKNOWN_TYPE FCGI_NULL_REQUEST_ID 8 0) @ unknown_body_bytes (MakeUnknownTypeBody ty))
        (response_array (sys u))) \<ge> 16"
      by (simp add: put_bytes_def response_array_def)
    then show ?thesis using that assms(8) h by (simp add: ProcessManagementRecord_def FCGI_HEADER_LEN_def)
  qed
  obtain w1 where w1: "write_it_all ?fd (take 16 out) (sys u) = (0, w1)" "writable ?fd w1"
    using write_it_all_writable [OF wr] by blast
  define u1 where "u1 = leave_header (u\<lparr>sys := w1\<rparr>)"
  have run: "FillBuffProc s = FillBuffLoop ?ph f [] u1"
  proof -
    have pm: "ProcessManagementRecord FillBuffProc_eor ty u = Inr (MGMT_RECORD, u\<lparr>sys := w1\<rparr>)"
      using out w1(1) b(9) by (simp add: send_response_def)
    show ?thesis using s4(1) [folded u_def] pm by (simp del: length_Cons add: FillBuffProc_def fill_dispatch_def status_defs u1_def)
  qed
  have un1: "unread u1 = ?c @ p @ w"
    using u b(9) write_it_all_incoming [OF w1(1)] by (simp add: u1_def unread_def buffered_def)
  have u1: "rd_inv u1" "contentLen (strm u1) = length ?c" "\<not> skip (strm u1)" "isReader (strm u1)"
    using b(1,3,6) by (simp_all add: u1_def rd_inv_def Let_def)
  obtain u2 where r: "fill_read u1 = Proceed u2"
    using fill_read_cases [OF u1(1)] un1 by auto
  note p = fill_read_Proceed [OF u1(1) r]
  have c2: "contentLen (strm u2) = length ?c" "\<not> skip (strm u2)" "isReader (strm u2)" "\<not> isClosed (strm u2)"
    using p control_fields [of "strm u2" "strm u1"] u1 by (simp_all add: u1_def rd_inv_def Let_def)
  define k where "k = min (length ?c) (buffStop (strm u2) - rdNext (strm u2))"
  let ?u3 = "upd (\<lambda>t. t\<lparr>contentLen := length ?c - k, wrNext := rdNext t + k, stop := rdNext t + k\<rparr>) u2"
  have adv: "fill_advance u1 = Return ?u3"
    using r c2(1,2) by (simp add: fill_advance_def fill_content_def k_def upd_def Let_def)
  obtain f' where f: "f = Suc f'" using s4(7) by (cases f) auto
  have fill: "FillBuffProc s = Inr ?u3" using run adv by (simp add: f FillBuffLoop.simps(2))
  have k: "0 < k" using p by (simp add: k_def)
  have pos: "rdNext (strm u2) < length (buff (strm u2))" using p by (auto simp: rd_inv_def Let_def)
  have "buffered (strm u2) = buff (strm u2) ! rdNext (strm u2) # sub_bytes (Suc (rdNext (strm u2))) (buffStop (strm u2) - Suc (rdNext (strm u2))) (buff (strm u2))"
    using p sub_bytes_Suc [OF pos, of "buffStop (strm u2) - Suc (rdNext (strm u2))"]
    by (simp add: buffered_def Suc_diff_Suc)
  moreover have "unread u2 = ?c @ p @ w" using p un1 by simp
  ultimately have byte: "buff (strm u2) ! rdNext (strm u2) = b" by (simp add: unread_def)
  have s: "\<not> isClosed (strm s)" "isReader (strm s)" using assms(1) by (simp_all add: idle_def rd_inv_def Let_def)
  show ?thesis using s assms(10) fill c2(4) k pos byte
    by (simp add: FCGX_GetChar_def next_byte_def mark_unget_def Let_def)
qed

theorem unknown_content_delivered_witness:
  "\<exists>s'. FCGX_GetChar FillBuffProc (idle_reader (rec_bytes 77 FCGI_NULL_REQUEST_ID [88, 89] [] @ [1, 2])) = Inr (88, s')"
proof -
  have u: "unread (idle_reader (rec_bytes 77 FCGI_NULL_REQUEST_ID [88, 89] [] @ [1, 2])) = rec_bytes 77 FCGI_NULL_REQUEST_ID [88, 89] [] @ [1, 2]"
    using idle_reader_facts(2) [of "rec_bytes 77 FCGI_NULL_REQUEST_ID [88, 89] [] @ [1, 2]"] by (simp add: rec_bytes_def)
  show ?thesis
    using unknown_content_delivered [OF idle_reader_facts(1) u] idle_reader_facts(4,6,7) by (simp add: fcgi_consts)
qed

end
