(* ===== verification/Fcgi_Reader_Safe.thy ===== *)
theory Fcgi_Reader_Safe
  imports Fcgi_Total Fcgi_Management "HOL-Library.Sublist"
begin

text \<open>
  The reader on arbitrary input. Whatever bytes arrive, in whatever pieces and with whatever errors, the calls of an
  application on its input stream come back, keep the stream well formed and return values of the documented ranges; no assertion fails. The
  one access outside an object is the overrun of the reply to FCGI_GET_VALUES (\<open>Fcgi_Management\<close>), so that it needs such a
  header in the input. Both fill procedures are instances of \<open>total_source\<close>, since \<open>ProcessHeader\<close> is itself
  a client of the inner one.
\<close>

unbundle bit_operations_syntax

section \<open>One iteration\<close>

text \<open>The kernel sets \<open>errno\<close> to a nonzero value when \<open>read\<close> fails.\<close>

definition errno_set :: "st \<Rightarrow> bool" where
  "errno_set s \<longleftrightarrow> RdErr 0 \<notin> set (rdScript (conns (sys s) (ipcFd (rqd s))))"

lemma errno_set_upd [simp]: "errno_set (upd f s) = errno_set s"
  by (simp add: errno_set_def)

lemma rd_inv_upd:
  "isReader (f (strm s)) = isReader (strm s) \<Longrightarrow> buff (f (strm s)) = buff (strm s) \<Longrightarrow> bufflen (f (strm s)) = bufflen (strm s) \<Longrightarrow>
   rdNext (f (strm s)) = rdNext (strm s) \<Longrightarrow> buffStop (f (strm s)) = buffStop (strm s) \<Longrightarrow> rd_inv (upd f s) = rd_inv s"
  by (simp add: rd_inv_def Let_def)

definition keeps :: "st \<Rightarrow> st \<Rightarrow> bool" where
  "keeps s s' \<longleftrightarrow> rd_inv s' \<and> rqd s' = rqd s \<and> eorStop (strm s') = eorStop (strm s) \<and> errno_set s'"

text \<open>A state that may be returned to the client: closed, or with data in the window.\<close>

definition filled_or_closed :: "st \<Rightarrow> st \<Rightarrow> bool" where
  "filled_or_closed s s' \<longleftrightarrow> isClosed (strm s') \<and> (FCGI_errno (strm s') \<noteq> 0 \<or> suffix (unread s') (unread s))
     \<or> \<not> isClosed (strm s') \<and> rdNext (strm s') < stop (strm s') \<and> positions s' \<and> suffix (unread s') (unread s)"

lemma OS_Read_errno:
  assumes "OS_Read fd n w = (count, bs, w')" "RdErr 0 \<notin> set (rdScript (conns w fd))"
  shows "RdErr 0 \<notin> set (rdScript (conns w' fd))" "count < 0 \<Longrightarrow> osErrno w' \<noteq> 0 \<or> incoming fd w' = []"
  using assms by (auto simp: OS_Read_def posix_read_def incoming_def EBADF_def Let_def split: if_splits list.splits rd_event.splits)

lemma suffix_consume:
  assumes "rd_inv s" "rdNext (strm s) + k \<le> buffStop (strm s)"
  shows "suffix (unread (consume k s)) (unread s)" "left (consume k s) + k = left s"
  using consume_unread(2,3) [OF assms] by (simp_all add: suffix_def left_def)

text \<open>The three stages.\<close>

lemma fill_read_safe:
  assumes "rd_inv s" "errno_set s"
  shows "case fill_read s of Return s' \<Rightarrow> keeps s s' \<and> filled_or_closed s s' | Continue s' \<Rightarrow> False
    | Proceed s' \<Rightarrow> keeps s s' \<and> unread s' = unread s \<and> rdNext (strm s') < buffStop (strm s') \<and> control (strm s') = control (strm s)"
proof (cases "rdNext (strm s) = buffStop (strm s)")
  case False
  then show ?thesis using assms by (auto simp: fill_read_def keeps_def rd_inv_def Let_def)
next
  case True
  obtain count bs w where rd: "OS_Read (ipcFd (rqd s)) (bufflen (strm s)) (sys s) = (count, bs, w)"
    by (metis prod_cases3)
  note e = OS_Read_errno [OF rd assms(2) [unfolded errno_set_def]]
  show ?thesis
  proof (cases "count \<le> 0")
    case le: True
    let ?s' = "upd (SetError (if count = 0 then FCGX_PROTOCOL_ERROR else osErrno w)) (s\<lparr>sys := w\<rparr>)"
    have r: "fill_read s = Return ?s'" using True rd le by (simp add: fill_read_def Let_def)
    have "keeps s ?s'" using assms e(1) by (simp add: keeps_def rd_inv_def errno_set_def SetError_def Let_def)
    moreover have "FCGI_errno (strm ?s') \<noteq> 0 \<or> unread ?s' = []"
      using e(2) le True by (auto simp: SetError_def FCGX_PROTOCOL_ERROR_def unread_def buffered_def)
    ultimately show ?thesis by (auto simp: r filled_or_closed_def SetError_def)
  next
    case gt: False
    then obtain s1 where r: "fill_read s = Proceed s1" "sys s1 = w"
      using True rd by (simp add: fill_read_def Let_def)
    note p = fill_read_Proceed [OF assms(1) r(1)]
    have "eorStop (strm s1) = eorStop (strm s)" using p control_fields(3) by blast
    then show ?thesis using p r e(1) by (simp add: keeps_def errno_set_def)
  qed
qed

text \<open>What a stage that has bytes before it does: \<open>done\<close> is what holds when it proceeds.\<close>

definition stage_ok :: "(FCGX_Stream \<Rightarrow> bool) \<Rightarrow> st \<Rightarrow> flow \<Rightarrow> bool" where
  "stage_ok done s x \<longleftrightarrow> (case x of Return s' \<Rightarrow> keeps s s' \<and> filled_or_closed s s'
    | Continue s' \<Rightarrow> keeps s s' \<and> \<not> isClosed (strm s') \<and> suffix (unread s') (unread s) \<and> left s' < left s
    | Proceed s' \<Rightarrow> keeps s s' \<and> \<not> isClosed (strm s') \<and> suffix (unread s') (unread s) \<and> done (strm s')
        \<and> (left s' < left s \<or> rdNext (strm s') < buffStop (strm s')))"

lemma fill_content_safe:
  assumes "rd_inv s" "errno_set s" "\<not> isClosed (strm s)" "rdNext (strm s) < buffStop (strm s)"
  shows "stage_ok (\<lambda>t. contentLen t = 0) s (fill_content s)"
proof (cases "0 < contentLen (strm s)")
  case False
  then show ?thesis using assms by (simp add: fill_content_def stage_ok_def keeps_def Let_def)
next
  case True
  let ?t = "strm s"
  define k where "k = min (contentLen ?t) (buffStop ?t - rdNext ?t)"
  have k: "0 < k" "rdNext ?t + k \<le> buffStop ?t" using True assms(4) by (auto simp: k_def)
  show ?thesis
  proof (cases "skip ?t")
    case False
    then have "fill_content s = Return (upd (\<lambda>t. t\<lparr>wrNext := rdNext t + k, stop := rdNext t + k\<rparr>) (upd (\<lambda>t. t\<lparr>contentLen := contentLen t - k\<rparr>) s))"
      using True by (simp add: fill_content_def Let_def k_def)
    then show ?thesis using assms k
      by (simp add: stage_ok_def keeps_def filled_or_closed_def positions_def rd_inv_def errno_set_def unread_def buffered_def Let_def)
  next
    case sk: True
    note c = suffix_consume [OF assms(1) k(2)]
    have "fill_content s = (let s2 = upd (\<lambda>t. t\<lparr>rdNext := rdNext t + k\<rparr>) (upd (\<lambda>t. t\<lparr>contentLen := contentLen t - k\<rparr>) s)
        in if 0 < contentLen (strm s2) then Continue s2 else Proceed (upd (\<lambda>t. t\<lparr>skip := False\<rparr>) s2))"
      using True sk by (simp add: fill_content_def Let_def k_def)
    then show ?thesis using assms k c
      by (auto simp: stage_ok_def keeps_def rd_inv_def errno_set_def unread_def buffered_def left_def consume_def Let_def)
  qed
qed

lemma fill_padding_safe:
  assumes "rd_inv s" "errno_set s" "\<not> isClosed (strm s)"
  shows "case fill_padding s of Return s' \<Rightarrow> False
    | Continue s' \<Rightarrow> keeps s s' \<and> \<not> isClosed (strm s') \<and> suffix (unread s') (unread s) \<and> left s' \<le> left s
        \<and> (rdNext (strm s) < buffStop (strm s) \<longrightarrow> left s' < left s) \<and> 0 < paddingLen (strm s)
    | Proceed s' \<Rightarrow> keeps s s' \<and> \<not> isClosed (strm s') \<and> suffix (unread s') (unread s) \<and> left s' \<le> left s
        \<and> paddingLen (strm s') = 0 \<and> contentLen (strm s') = contentLen (strm s) \<and> (left s' < left s \<or> s' = s)
        \<and> (paddingLen (strm s) = 0 \<longrightarrow> s' = s)"
proof (cases "0 < paddingLen (strm s)")
  case False
  then show ?thesis using assms by (simp add: fill_padding_def keeps_def Let_def)
next
  case True
  let ?t = "strm s"
  define k where "k = min (paddingLen ?t) (buffStop ?t - rdNext ?t)"
  have k: "rdNext ?t + k \<le> buffStop ?t" "rdNext ?t < buffStop ?t \<longrightarrow> 0 < k" "paddingLen ?t - k = 0 \<longrightarrow> 0 < k"
    using True assms(1) by (auto simp: k_def rd_inv_def Let_def)
  note c = suffix_consume [OF assms(1) k(1)]
  have "fill_padding s = (let s1 = upd (\<lambda>t. t\<lparr>paddingLen := paddingLen t - k, rdNext := rdNext t + k\<rparr>) s
      in if 0 < paddingLen (strm s1) then Continue s1 else Proceed s1)"
    using True by (simp add: fill_padding_def Let_def k_def)
  then show ?thesis using assms k c True
    by (auto simp: keeps_def rd_inv_def errno_set_def unread_def buffered_def left_def consume_def Let_def)
qed

text \<open>An iteration up to the test of \<open>eorStop\<close>; inside a record header there is nothing but the rest of the header.\<close>

definition advance_ok :: "st \<Rightarrow> flow \<Rightarrow> bool" where
  "advance_ok s x \<longleftrightarrow> (case x of Return s' \<Rightarrow> keeps s s' \<and> filled_or_closed s s'
    | Continue s' \<Rightarrow> keeps s s' \<and> \<not> isClosed (strm s') \<and> suffix (unread s') (unread s) \<and> left s' < left s
        \<and> \<not> (contentLen (strm s) = 0 \<and> paddingLen (strm s) = 0)
    | Proceed s' \<Rightarrow> keeps s s' \<and> \<not> isClosed (strm s') \<and> suffix (unread s') (unread s)
        \<and> contentLen (strm s') = 0 \<and> paddingLen (strm s') = 0 \<and> (left s' < left s \<or> rdNext (strm s') < buffStop (strm s'))
        \<and> (contentLen (strm s) = 0 \<and> paddingLen (strm s) = 0 \<longrightarrow> unread s' = unread s))"

lemma keeps_trans: "keeps s u \<Longrightarrow> keeps u v \<Longrightarrow> keeps s v"
  by (simp add: keeps_def)

lemma filled_or_closed_trans: "suffix (unread u) (unread s) \<Longrightarrow> filled_or_closed u v \<Longrightarrow> filled_or_closed s v"
  by (auto simp: filled_or_closed_def elim: suffix_order.trans)

lemma fill_content_none: "contentLen (strm s) = 0 \<Longrightarrow> fill_content s = Proceed s"
  by (simp add: fill_content_def Let_def)

lemma fill_advance_safe:
  assumes "rd_inv s" "errno_set s" "\<not> isClosed (strm s)"
  shows "advance_ok s (fill_advance s)"
proof (cases "fill_read s")
  case (Return s')
  then show ?thesis using fill_read_safe [OF assms(1,2)] by (simp add: fill_advance_def advance_ok_def)
next
  case (Continue s')
  then show ?thesis using fill_read_safe [OF assms(1,2)] by simp
next
  case (Proceed s1)
  have s1: "keeps s s1" "unread s1 = unread s" "rdNext (strm s1) < buffStop (strm s1)" "control (strm s1) = control (strm s)"
    using fill_read_safe [OF assms(1,2)] Proceed by simp_all
  note cf = control_fields [OF s1(4)]
  have i1: "rd_inv s1" "errno_set s1" "\<not> isClosed (strm s1)" using s1(1) assms(3) cf by (simp_all add: keeps_def)
  have l1: "left s1 = left s" using s1(2) by (simp add: left_def)
  note c = fill_content_safe [OF i1 s1(3)]
  show ?thesis
  proof (cases "fill_content s1")
    case (Return s')
    then have r: "keeps s1 s'" "filled_or_closed s1 s'" using c by (simp_all add: stage_ok_def)
    have "keeps s s'" "filled_or_closed s s'"
      using keeps_trans [OF s1(1) r(1)] filled_or_closed_trans [OF _ r(2), of s] s1(2) by simp_all
    then show ?thesis using Proceed Return by (simp add: fill_advance_def advance_ok_def)
  next
    case (Continue s')
    have "contentLen (strm s1) \<noteq> 0" using Continue fill_content_none [of s1] by auto
    moreover have r: "keeps s1 s'" "\<not> isClosed (strm s')" "suffix (unread s') (unread s)" "left s' < left s"
      using c Continue s1(2) l1 by (simp_all add: stage_ok_def)
    ultimately show ?thesis using Proceed Continue keeps_trans [OF s1(1) r(1)] cf
      by (simp add: fill_advance_def advance_ok_def)
  next
    case s2: (Proceed s2)
    have c2: "keeps s1 s2" "\<not> isClosed (strm s2)" "suffix (unread s2) (unread s1)" "contentLen (strm s2) = 0"
      "left s2 < left s1 \<or> rdNext (strm s2) < buffStop (strm s2)" using c s2 by (simp_all add: stage_ok_def)
    have i2: "rd_inv s2" "errno_set s2" using c2(1) by (simp_all add: keeps_def)
    have same: "contentLen (strm s) = 0 \<Longrightarrow> s2 = s1" using fill_content_none [of s1] s2 cf(5) by simp
    have pad: "paddingLen (strm s1) = paddingLen (strm s)" using cf(6) by simp
    have le: "left s2 \<le> left s" using suffix_length_le [OF c2(3)] l1 by (simp add: left_def)
    have k: "keeps s s2" "suffix (unread s2) (unread s)" using keeps_trans [OF s1(1) c2(1)] c2(3) s1(2) by simp_all
    note p = fill_padding_safe [OF i2 c2(2)]
    have adv: "fill_advance s = fill_padding s2" using Proceed s2 by (simp add: fill_advance_def)
    show ?thesis
    proof (cases "fill_padding s2")
      case (Return s')
      then show ?thesis using p by simp
    next
      case (Continue s')
      then have q: "keeps s2 s'" "\<not> isClosed (strm s')" "suffix (unread s') (unread s2)" "left s' \<le> left s2"
        "rdNext (strm s2) < buffStop (strm s2) \<longrightarrow> left s' < left s2" "0 < paddingLen (strm s2)"
        using p by simp_all
      have "left s' < left s" using q(4,5) c2(5) l1 le by linarith
      moreover have "\<not> (contentLen (strm s) = 0 \<and> paddingLen (strm s) = 0)" using q(6) same pad by (metis less_irrefl)
      moreover have "keeps s s'" by (rule keeps_trans [OF k(1) q(1)])
      moreover have "suffix (unread s') (unread s)" by (rule suffix_order.trans [OF q(3) k(2)])
      ultimately show ?thesis using q(2) Continue by (simp add: adv advance_ok_def)
    next
      case s3: (Proceed s3)
      then have q: "keeps s2 s3" "\<not> isClosed (strm s3)" "suffix (unread s3) (unread s2)" "left s3 \<le> left s2"
        "paddingLen (strm s3) = 0" "contentLen (strm s3) = contentLen (strm s2)" "left s3 < left s2 \<or> s3 = s2"
        "paddingLen (strm s2) = 0 \<longrightarrow> s3 = s2"
        using p by simp_all
      have "left s3 < left s \<or> rdNext (strm s3) < buffStop (strm s3)"
        using q(4,7) c2(5) l1 le by (elim disjE) simp_all
      moreover have "unread s3 = unread s" if "contentLen (strm s) = 0 \<and> paddingLen (strm s) = 0"
        using that q(8) same pad s1(2) by metis
      moreover have "keeps s s3" by (rule keeps_trans [OF k(1) q(1)])
      moreover have "suffix (unread s3) (unread s)" by (rule suffix_order.trans [OF q(3) k(2)])
      ultimately show ?thesis using q(2,5,6) c2(4) s3 by (simp add: adv advance_ok_def)
    qed
  qed
qed

section \<open>Inside a record\<close>

lemma FillBuffLoop_eor_safe:
  assumes "rd_inv s" "errno_set s" "\<not> isClosed (strm s)" "eorStop (strm s)" "left s < fuel"
  shows "\<exists>s'. FillBuffLoop ph fuel [] s = Inr s' \<and> keeps s s' \<and> filled_or_closed s s'"
  using assms
proof (induction fuel arbitrary: s)
  case (Suc fuel)
  note a = fill_advance_safe [OF Suc.prems(1-3), unfolded advance_ok_def]
  show ?case
  proof (cases "fill_advance s")
    case (Return s')
    then show ?thesis using a by (simp add: FillBuffLoop.simps(2))
  next
    case (Continue s')
    then have c: "keeps s s'" "\<not> isClosed (strm s')" "suffix (unread s') (unread s)" "left s' < left s" using a by simp_all
    have "rd_inv s'" "errno_set s'" "eorStop (strm s')" using c(1) Suc.prems(4) by (simp_all add: keeps_def)
    from Suc.IH [OF this(1,2) c(2) this(3)] obtain u where "FillBuffLoop ph fuel [] s' = Inr u" "keeps s' u" "filled_or_closed s' u"
      using c(4) Suc.prems(5) by auto
    then show ?thesis using Continue keeps_trans [OF c(1)] filled_or_closed_trans [OF c(3)] by (simp add: FillBuffLoop.simps(2))
  next
    case (Proceed s')
    then have c: "keeps s s'" "suffix (unread s') (unread s)" using a by simp_all
    let ?u = "upd (\<lambda>t. t\<lparr>stop := rdNext t, isClosed := True\<rparr>) s'"
    have "eorStop (strm s')" using c(1) Suc.prems(4) by (simp add: keeps_def)
    then have "FillBuffLoop ph (Suc fuel) [] s = Inr ?u" using Proceed by (simp add: FillBuffLoop.simps(2))
    moreover have "keeps s ?u" using c(1) by (simp add: keeps_def rd_inv_upd)
    moreover have "filled_or_closed s ?u" using c(2) by (simp add: filled_or_closed_def unread_def buffered_def)
    ultimately show ?thesis by blast
  qed
qed simp

text \<open>What holds while a record body is read; \<open>w\<close> is what was unread when the body began.\<close>

definition inner_inv :: "FCGX_ReqData \<Rightarrow> byte list \<Rightarrow> st \<Rightarrow> bool" where
  "inner_inv r w s \<longleftrightarrow> rd_inv s \<and> eorStop (strm s) \<and> rqd s = r \<and> errno_set s \<and> (isClosed (strm s) \<or> positions s)
     \<and> (isClosed (strm s) \<and> FCGI_errno (strm s) \<noteq> 0 \<or> suffix (unread s) w)"

lemma inner_filled:
  assumes "inner_inv r w s" "\<not> isClosed (strm s)" "keeps s s'" "filled_or_closed s s'"
  shows "inner_inv r w s' \<and> (isClosed (strm s') \<or> rdNext (strm s') < stop (strm s') \<and> left s' \<le> left s)"
proof -
  have w: "suffix (unread s) w" using assms(1,2) by (simp add: inner_inv_def)
  have "inner_inv r w s'"
    using assms suffix_order.trans [OF _ w, of "unread s'"] by (auto simp: inner_inv_def keeps_def filled_or_closed_def)
  moreover have "isClosed (strm s') \<or> rdNext (strm s') < stop (strm s') \<and> left s' \<le> left s"
    using assms(4) suffix_length_le [of "unread s'" "unread s"] by (auto simp: filled_or_closed_def left_def)
  ultimately show ?thesis by simp
qed

lemma inner_simps:
  "inner_inv r w s \<Longrightarrow> inner_inv r w (mark_unget s)"
  "inner_inv r w s \<Longrightarrow> e \<noteq> 0 \<Longrightarrow> inner_inv r w (upd (SetError e) s)"
  by (auto simp: inner_inv_def rd_inv_def errno_set_def positions_def mark_unget_def SetError_def unread_def buffered_def Let_def)

lemma inner_consume:
  assumes "inner_inv r w s" "\<not> isClosed (strm s)" "rdNext (strm s) + m \<le> stop (strm s)"
  shows "inner_inv r w (consume m s)"
proof -
  have i: "rd_inv s" "positions s" "suffix (unread s) w" using assms(1,2) by (simp_all add: inner_inv_def)
  have le: "rdNext (strm s) + m \<le> buffStop (strm s)" using i(2) assms(3) by (simp add: positions_def)
  have "suffix (unread (consume m s)) w" using suffix_order.trans [OF suffix_consume(1) [OF i(1) le] i(3)] .
  then show ?thesis using assms consume_unread(1) [OF i(1) le]
    by (auto simp: inner_inv_def consume_def positions_def)
qed

interpretation body_total: total_source FillBuffProc_eor "{}" "inner_inv r w" for r w
proof unfold_locales
  fix s
  assume s: "inner_inv r w s" and op: "\<not> isClosed (strm s)"
  from s have "rd_inv s" "errno_set s" "eorStop (strm s)" by (simp_all add: inner_inv_def)
  from FillBuffLoop_eor_safe [OF this(1,2) op this(3), of "Suc (length (unread s))" "\<lambda>_ _. Inl NoReturn"]
  obtain s' where "FillBuffProc_eor s = Inr s'" "keeps s s'" "filled_or_closed s s'"
    by (auto simp: FillBuffProc_eor_def left_def)
  then show "safe {} (\<lambda>s'. inner_inv r w s' \<and> (isClosed (strm s') \<or> rdNext (strm s') < stop (strm s') \<and> left s' \<le> left s)) (FillBuffProc_eor s)"
    using inner_filled [OF s op] by simp
next
  show "rd_inv s" if "inner_inv r w s" for s using that by (simp add: inner_inv_def)
  show "positions s" if "inner_inv r w s" "\<not> isClosed (strm s)" for s using that by (simp add: inner_inv_def)
qed (simp_all add: inner_simps inner_consume)

section \<open>Record headers\<close>

text \<open>What \<open>ProcessHeader\<close> leaves when the request has begun: a code to go on with, or a negative one.\<close>

definition processed_safely :: "st \<Rightarrow> int \<times> st \<Rightarrow> bool" where
  "processed_safely s x \<longleftrightarrow> (case x of (status, s') \<Rightarrow> keeps s s'
     \<and> (status < 0 \<or> status \<in> {STREAM_RECORD, SKIP, MGMT_RECORD} \<and> suffix (unread s') (unread s)))"

lemma write_keeps:
  assumes "write_it_all (ipcFd (rqd s)) bs (sys s) = (x, w)" "rd_inv s" "errno_set s"
  shows "keeps s (s\<lparr>sys := w\<rparr>)" "unread (s\<lparr>sys := w\<rparr>) = unread s"
proof -
  have "rdScript (conns w (ipcFd (rqd s))) = rdScript (conns (sys s) (ipcFd (rqd s)))"
    using write_it_all_same_input [OF assms(1)] by (simp add: same_input_def)
  then show "keeps s (s\<lparr>sys := w\<rparr>)" using assms(2,3) by (simp add: keeps_def rd_inv_def errno_set_def Let_def)
  show "unread (s\<lparr>sys := w\<rparr>) = unread s" using write_it_all_incoming [OF assms(1)] by (simp add: unread_def)
qed

lemma keeps_error: "keeps s u \<Longrightarrow> keeps s (upd (SetError e) u)"
  by (simp add: keeps_def rd_inv_upd SetError_def)

lemma sent_safely:
  assumes "keeps s u" "suffix (unread u) (unread s)" "write_it_all (ipcFd (rqd u)) bs (sys u) = (x, w)" "status \<in> {SKIP, MGMT_RECORD}"
  shows "processed_safely s (if x < 0 then (- 1, upd (SetError (osErrno w)) (u\<lparr>sys := w\<rparr>)) else (status, u\<lparr>sys := w\<rparr>))"
proof -
  have "rd_inv u" "errno_set u" using assms(1) by (simp_all add: keeps_def)
  note w = write_keeps [OF assms(3) this]
  have k: "keeps s (u\<lparr>sys := w\<rparr>)" by (rule keeps_trans [OF assms(1) w(1)])
  then show ?thesis using keeps_error [OF k] w(2) assms(2,4) by (auto simp: processed_safely_def)
qed

lemma send_response_safe:
  assumes "keeps s u" "suffix (unread u) (unread s)" "n \<le> length response"
  shows "safe {} (processed_safely s) (send_response response n u)"
proof -
  obtain x w where w: "write_it_all (ipcFd (rqd u)) (take n response) (sys u) = (x, w)" by fastforce
  have "send_response response n u = Inr (if x < 0 then (- 1, upd (SetError (osErrno w)) (u\<lparr>sys := w\<rparr>)) else (MGMT_RECORD, u\<lparr>sys := w\<rparr>))"
    using assms(3) w by (simp add: send_response_def Let_def)
  then show ?thesis using sent_safely [OF assms(1,2) w, of MGMT_RECORD] by simp
qed

lemma GetValues_safe:
  assumes "length resp = 64"
  shows "safe {OutOfBounds} (\<lambda>(pos, resp'). \<exists>n. pos = 8 + n \<and> n \<le> 55 \<and> length resp' = 64) (GetValues_loop es 8 resp)"
proof (cases "replies es = [] \<or> 8 + length (replies es) < 64")
  case True
  then show ?thesis using GetValues_fits [of es 8 resp] assms by auto
next
  case False
  then show ?thesis using GetValues_overruns [of 8 resp es] assms by auto
qed

lemma inner_start:
  assumes "rd_inv s" "errno_set s" "eorStop (strm s)" "positions s"
  shows "inner_inv (rqd s) (unread s) s"
  using assms by (simp add: inner_inv_def)

lemma inner_keeps: "inner_inv (rqd s) w u \<Longrightarrow> eorStop (strm s) \<Longrightarrow> keeps s u"
  by (simp add: inner_inv_def keeps_def)

lemma answer_safe:
  assumes "keeps s u" "suffix (unread u) (unread s)" "n \<le> 55" "length resp = 64"
  shows "safe F (processed_safely s) (let len = 8 + n - FCGI_HEADER_LEN; paddedLen = AlignInt8 (of_nat len) in
        bindr (MakeHeader FCGI_GET_VALUES_RESULT FCGI_NULL_REQUEST_ID (int len) (paddedLen - int len))
          (\<lambda>h. send_response (put_bytes 0 (header_bytes h) resp) (FCGI_HEADER_LEN + nat paddedLen) u))"
proof -
  obtain k where k: "AlignInt8 (of_nat n) = int (n + k)" "k \<le> 7" "n + k \<le> 56"
    by (rule AlignInt8_reply [OF assms(3)])
  let ?h = "header_for FCGI_GET_VALUES_RESULT FCGI_NULL_REQUEST_ID n k"
  have h: "MakeHeader FCGI_GET_VALUES_RESULT FCGI_NULL_REQUEST_ID (int n) (int k) = Inr ?h"
    by (rule MakeHeader_for) (use assms(3) k(2) in simp_all)
  have "length (put_bytes 0 (header_bytes ?h) resp) = 64" using assms(4) by (subst length_put_bytes) simp_all
  then have "safe {} (processed_safely s) (send_response (put_bytes 0 (header_bytes ?h) resp) (8 + (n + k)) u)"
    using k(3) by (intro send_response_safe [OF assms(1,2)]) simp
  from safe_mono [OF this, of F] show ?thesis using k(1) h by (simp add: FCGI_HEADER_LEN_def nat_add_distrib)
qed

lemma ProcessManagementRecord_safe:
  assumes "rd_inv s" "errno_set s" "eorStop (strm s)" "positions s"
  shows "safe (if ty = FCGI_GET_VALUES then {OutOfBounds} else {}) (processed_safely s) (ProcessManagementRecord FillBuffProc_eor ty s)"
proof (cases "ty = FCGI_GET_VALUES")
  case True
  note i = inner_start [OF assms]
  obtain p0 where p0: "NewParams 3 = Inr p0" "params_ok p0" using NewParams_ok [of 3] by auto
  obtain x p1 s1 where r: "ReadParams FillBuffProc_eor p0 s = Inr (x, p1, s1)" "inner_inv (rqd s) (unread s) s1"
    using safe_total [OF body_total.ReadParams_safe [OF i p0(2)]] by (auto simp: body_total.read_all_def)
  have k: "keeps s s1" by (rule inner_keeps [OF r(2) assms(3)])
  have arr: "length (response_array (sys s)) = 64" by (simp add: response_array_def)
  show ?thesis
  proof (cases "FCGI_errno (strm s1) \<noteq> 0 \<or> contentLen (strm s1) \<noteq> 0")
    case bad: True
    then have "ProcessManagementRecord FillBuffProc_eor ty s = Inr (FCGX_PROTOCOL_ERROR, s1)"
      using True p0 r by (auto simp: ProcessManagementRecord_def FCGX_GetError_def)
    then show ?thesis using k by (simp add: processed_safely_def FCGX_PROTOCOL_ERROR_def)
  next
    case False
    then have sf: "suffix (unread s1) (unread s)" using r(2) by (simp add: inner_inv_def)
    have go: "ProcessManagementRecord FillBuffProc_eor ty s = bindr (GetValues_loop (entries p1) 8 (response_array (sys s)))
       (\<lambda>(responseP, response). let len = responseP - FCGI_HEADER_LEN; paddedLen = AlignInt8 (of_nat len) in
        bindr (MakeHeader FCGI_GET_VALUES_RESULT FCGI_NULL_REQUEST_ID (int len) (paddedLen - int len))
          (\<lambda>h. send_response (put_bytes 0 (header_bytes h) response) (FCGI_HEADER_LEN + nat paddedLen) s1))"
      using True p0 r False by (simp add: ProcessManagementRecord_def FCGX_GetError_def FCGI_HEADER_LEN_def)
    have "safe {OutOfBounds} (processed_safely s) (ProcessManagementRecord FillBuffProc_eor ty s)"
      unfolding go by (rule safe_bind [OF GetValues_safe [OF arr]]) (use answer_safe [OF k sf] in auto)
    then show ?thesis using True by simp
  qed
next
  case False
  have h: "MakeHeader FCGI_UNKNOWN_TYPE FCGI_NULL_REQUEST_ID 8 0 = Inr (header_for FCGI_UNKNOWN_TYPE FCGI_NULL_REQUEST_ID 8 0)"
    using MakeHeader_for [of 8 0] by simp
  have "keeps s s" using assms by (simp add: keeps_def)
  moreover have "16 \<le> length (put_bytes 0 (header_bytes (header_for FCGI_UNKNOWN_TYPE FCGI_NULL_REQUEST_ID 8 0)
      @ unknown_body_bytes (MakeUnknownTypeBody ty)) (response_array (sys s)))"
    by (simp add: put_bytes_def response_array_def)
  ultimately show ?thesis using False h send_response_safe [of s s 16]
    by (simp add: ProcessManagementRecord_def FCGI_HEADER_LEN_def)
qed

lemma processed_safely_from:
  "keeps s u \<Longrightarrow> unread u = unread s \<Longrightarrow> processed_safely u x \<Longrightarrow> processed_safely s x"
  using keeps_trans [of s u] by (auto simp: processed_safely_def)

lemma ProcessBeginRecord_safe:
  assumes "rd_inv s" "errno_set s" "isBeginProcessed (rqd s)"
  shows "safe {} (processed_safely s) (ProcessBeginRecord fill rid s)"
proof (cases "rid = 0 \<or> contentLen (strm s) \<noteq> 8")
  case True
  then show ?thesis using assms by (auto simp: ProcessBeginRecord_def processed_safely_def keeps_def FCGX_PROTOCOL_ERROR_def)
next
  case False
  have k: "keeps s s" using assms by (simp add: keeps_def)
  let ?h = "header_for FCGI_END_REQUEST rid 8 0"
  have h: "MakeHeader FCGI_END_REQUEST rid 8 0 = Inr ?h" using MakeHeader_for [of 8 0] by simp
  obtain x w where w: "write_it_all (ipcFd (rqd s)) (header_bytes ?h @ end_body_bytes (MakeEndRequestBody 0 FCGI_CANT_MPX_CONN)) (sys s) = (x, w)"
    by fastforce
  have "ProcessBeginRecord fill rid s = Inr (if x < 0 then (- 1, upd (SetError (osErrno w)) (s\<lparr>sys := w\<rparr>)) else (SKIP, s\<lparr>sys := w\<rparr>))"
    using False assms(3) h w by (simp add: ProcessBeginRecord_def Let_def)
  then show ?thesis using sent_safely [OF k _ w, of SKIP] by simp
qed

definition faults_of :: "FCGI_Header \<Rightarrow> fault set" where
  "faults_of h = (if h_version h = 1 \<and> h_type h = 9 then {OutOfBounds} else {})"

lemma ProcessHeader_safe:
  assumes "rd_inv s" "errno_set s" "eorStop (strm s)" "positions s" "isBeginProcessed (rqd s)"
  shows "safe (faults_of h) (processed_safely s) (ProcessHeader FillBuffProc_eor h s)"
proof -
  let ?u = "upd (\<lambda>t. t\<lparr>contentLen := nat (header_contentLength h), paddingLen := unat (h_paddingLength h)\<rparr>) s"
  have u: "rd_inv ?u" "errno_set ?u" "eorStop (strm ?u)" "positions ?u" "isBeginProcessed (rqd ?u)" "unread ?u = unread s"
    using assms by (simp_all add: rd_inv_upd positions_def unread_def buffered_def)
  have k: "keeps s ?u" "keeps s s" using u assms by (simp_all add: keeps_def)
  have ty: "uint (h_type h) = FCGI_GET_VALUES \<longleftrightarrow> h_type h = 9" by (simp add: FCGI_GET_VALUES_def word_uint_eq_iff)
  have b: "safe (faults_of h) (processed_safely s) (ProcessBeginRecord FillBuffProc_eor rid ?u)" for rid
    by (rule safe_mono [OF ProcessBeginRecord_safe [OF u(1,2,5)]]) (auto intro: processed_safely_from [OF k(1) u(6)])
  have m: "safe (faults_of h) (processed_safely s) (ProcessManagementRecord FillBuffProc_eor (uint (h_type h)) ?u)" if "h_version h = 1"
    by (rule safe_mono [OF ProcessManagementRecord_safe [OF u(1-4)]])
      (use that ty in \<open>auto simp: faults_of_def intro: processed_safely_from [OF k(1) u(6)]\<close>)
  show ?thesis
  proof (cases "h_version h = FCGI_VERSION_1")
    case False
    then show ?thesis using k by (simp add: ProcessHeader_def processed_safely_def FCGX_UNSUPPORTED_VERSION_def)
  next
    case True
    then show ?thesis using b m k u(6)
      by (auto simp: ProcessHeader_def Let_def FCGI_VERSION_1_def processed_safely_def FCGX_PROTOCOL_ERROR_def)
  qed
qed

section \<open>The whole reader\<close>

text \<open>The faults that input \<open>w\<close> can cause.\<close>

definition input_faults :: "byte list \<Rightarrow> fault set" where
  "input_faults w = {f. f = OutOfBounds \<and> sublist [1, 9] w}"

lemma header_faults:
  assumes "suffix (hb @ u) w" "length hb = 8"
  shows "faults_of (header_of_bytes hb) \<subseteq> input_faults w"
proof -
  have "sublist [1, 9] w" if "hb ! 0 = 1" "hb ! 1 = 9"
  proof -
    have "hb = [1, 9] @ drop 2 hb" using that assms(2) by (cases hb; cases "tl hb") auto
    then have "sublist [1, 9] (hb @ u)" by (metis sublist_appendI append.left_neutral append.assoc)
    then show ?thesis using assms(1) unfolding suffix_def sublist_def by (metis append.assoc)
  qed
  then show ?thesis by (auto simp: faults_of_def input_faults_def header_of_bytes_def)
qed

text \<open>The \<open>switch\<close> after \<open>ProcessHeader\<close>; \<open>nxt\<close> is what is known of the next iteration.\<close>

lemma dispatch_safe:
  assumes p: "processed_safely (enter_header s4) (status, s5)" and op: "\<not> eorStop (strm s4)"
    and nxt: "\<And>v. keeps s4 v \<Longrightarrow> \<not> isClosed (strm v) \<Longrightarrow> suffix (unread v) (unread s4) \<Longrightarrow>
      safe G (\<lambda>s'. keeps v s' \<and> filled_or_closed v s') (loop v)"
  shows "safe G (\<lambda>s'. keeps s4 s' \<and> filled_or_closed s4 s') (fill_dispatch loop status (leave_header s5))"
proof -
  let ?u = "leave_header s5" and ?v = "upd (\<lambda>t. t\<lparr>skip := True\<rparr>) (leave_header s5)"
  have k: "keeps s4 ?u" "keeps s4 ?v" using p op by (simp_all add: processed_safely_def keeps_def rd_inv_upd)
  have un: "unread ?u = unread s5" "unread ?v = unread s5" by (simp_all add: unread_def buffered_def)
  have go: "safe G (\<lambda>s'. keeps s4 s' \<and> filled_or_closed s4 s') (loop v)"
    if "keeps s4 v" "\<not> isClosed (strm v)" "suffix (unread v) (unread s4)" for v
    by (rule safe_mono [OF nxt [OF that]]) (use that in \<open>auto intro: keeps_trans filled_or_closed_trans\<close>)
  show ?thesis
  proof (cases "status < 0")
    case True
    then show ?thesis using k(1) keeps_error [OF k(1), of status]
      by (auto simp: fill_dispatch_def status_defs filled_or_closed_def SetError_def)
  next
    case False
    then have st: "status \<in> {STREAM_RECORD, SKIP, MGMT_RECORD}" and sf: "suffix (unread s5) (unread s4)"
      using p by (auto simp: processed_safely_def unread_def buffered_def)
    have l: "safe G (\<lambda>s'. keeps s4 s' \<and> filled_or_closed s4 s') (loop ?u)" by (rule go) (use k un sf in simp_all)
    have l': "safe G (\<lambda>s'. keeps s4 s' \<and> filled_or_closed s4 s') (loop ?v)" by (rule go) (use k un sf in simp_all)
    have e: "keeps s4 (upd (\<lambda>t. t\<lparr>wrNext := rdNext t, stop := rdNext t, isClosed := True\<rparr>) ?u)"
      using k(1) by (simp add: keeps_def rd_inv_upd)
    have "filled_or_closed s4 (upd (\<lambda>t. t\<lparr>wrNext := rdNext t, stop := rdNext t, isClosed := True\<rparr>) ?u)"
      using sf by (simp add: filled_or_closed_def unread_def buffered_def)
    then show ?thesis using st l l' e by (auto simp: fill_dispatch_def status_defs)
  qed
qed

lemma fill_header_safe:
  assumes "rd_inv s" "fill_header hb s = (hb', s')" "length hb < 8"
  shows "keeps s s' \<longleftrightarrow> errno_set s" "hb' @ unread s' = hb @ unread s" "left s' \<le> left s" "length hb' \<le> 8"
    "rdNext (strm s) < buffStop (strm s) \<Longrightarrow> left s' < left s"
    "isClosed (strm s') = isClosed (strm s)" "contentLen (strm s') = contentLen (strm s)" "paddingLen (strm s') = paddingLen (strm s)"
    "suffix (unread s') (unread s)"
proof -
  let ?k = "min (8 - length hb) (buffStop (strm s) - rdNext (strm s))"
  have k: "rdNext (strm s) + ?k \<le> buffStop (strm s)" using assms(1) by (auto simp: rd_inv_def Let_def)
  note c = consume_unread [OF assms(1) k] and l = suffix_consume(2) [OF assms(1) k]
  have s': "hb' = hb @ sub_bytes (rdNext (strm s)) ?k (buff (strm s))" "s' = consume ?k s"
    using assms(2) by (simp_all add: fill_header_def Let_def consume_def)
  show "keeps s s' \<longleftrightarrow> errno_set s" using c(1) by (simp add: keeps_def s'(2)) (simp add: consume_def)
  show "hb' @ unread s' = hb @ unread s" using c(2) s' by simp
  show "left s' \<le> left s" using l s'(2) by simp
  show "length hb' \<le> 8" using c(3) s'(1) assms(3) by simp
  show "left s' < left s" if "rdNext (strm s) < buffStop (strm s)" using l s'(2) that assms(3) by (simp add: min_def split: if_splits)
  show "isClosed (strm s') = isClosed (strm s)" "contentLen (strm s') = contentLen (strm s)" "paddingLen (strm s') = paddingLen (strm s)"
    by (simp_all add: s'(2) consume_def)
  show "suffix (unread s') (unread s)" using suffix_consume(1) [OF assms(1) k] s'(2) by simp
qed

lemma FillBuffLoop_safe:
  assumes "rd_inv s" "errno_set s" "\<not> isClosed (strm s)" "\<not> eorStop (strm s)" "isBeginProcessed (rqd s)" "left s < fuel"
    "length hb < 8" "hb \<noteq> [] \<longrightarrow> contentLen (strm s) = 0 \<and> paddingLen (strm s) = 0" "suffix (hb @ unread s) w"
  shows "safe (input_faults w) (\<lambda>s'. keeps s s' \<and> filled_or_closed s s') (FillBuffLoop (ProcessHeader FillBuffProc_eor) fuel hb s)"
  using assms
proof (induction fuel arbitrary: s hb)
  case (Suc fuel)
  let ?ph = "ProcessHeader FillBuffProc_eor"
  note a = fill_advance_safe [OF Suc.prems(1-3), unfolded advance_ok_def]
  have go: "safe (input_faults w) (\<lambda>s'. keeps s s' \<and> filled_or_closed s s') (FillBuffLoop ?ph fuel hb' u)"
    if "keeps s u" "\<not> isClosed (strm u)" "suffix (unread u) (unread s)" "left u < left s" "length hb' < 8"
      "hb' \<noteq> [] \<longrightarrow> contentLen (strm u) = 0 \<and> paddingLen (strm u) = 0" "suffix (hb' @ unread u) w" for hb' u
  proof -
    have "rd_inv u" "errno_set u" "\<not> eorStop (strm u)" "isBeginProcessed (rqd u)" "left u < fuel"
      using that(1,4) Suc.prems(4-6) by (simp_all add: keeps_def)
    from Suc.IH [OF this(1,2) that(2) this(3-5) that(5-7)] show ?thesis
      by (rule safe_mono) (use that(1,3) in \<open>auto intro: keeps_trans filled_or_closed_trans\<close>)
  qed
  show ?case
  proof (cases "fill_advance s")
    case (Return s')
    then show ?thesis using a by (simp add: FillBuffLoop.simps(2))
  next
    case (Continue s')
    then have c: "keeps s s'" "\<not> isClosed (strm s')" "suffix (unread s') (unread s)" "left s' < left s" "hb = []"
      using a Suc.prems(8) by auto
    have "suffix (unread s') w" using suffix_order.trans [OF c(3)] Suc.prems(9) c(5) by simp
    then show ?thesis using go [OF c(1-4), of hb] c(5) Continue by (simp add: FillBuffLoop.simps(2))
  next
    case (Proceed s3)
    then have c: "keeps s s3" "\<not> isClosed (strm s3)" "suffix (unread s3) (unread s)" "contentLen (strm s3) = 0" "paddingLen (strm s3) = 0"
      "left s3 < left s \<or> rdNext (strm s3) < buffStop (strm s3)" "hb \<noteq> [] \<longrightarrow> unread s3 = unread s"
      using a Suc.prems(8) by auto
    have i3: "rd_inv s3" "errno_set s3" "\<not> eorStop (strm s3)" "isBeginProcessed (rqd s3)" using c(1) Suc.prems(4,5) by (simp_all add: keeps_def)
    have w3: "suffix (hb @ unread s3) w"
      using suffix_order.trans [OF c(3)] Suc.prems(9) c(7) by (cases "hb = []") auto
    obtain hb' s4 where f: "fill_header hb s3 = (hb', s4)" by fastforce
    note h = fill_header_safe [OF i3(1) f Suc.prems(7)]
    have k4: "keeps s s4" using keeps_trans [OF c(1)] h(1) i3(2) by simp
    have l4: "left s4 < left s" using h(3,5) c(6) suffix_length_le [OF c(3)] by (auto simp: left_def)
    have w4: "suffix (hb' @ unread s4) w" using w3 h(2) by simp
    then have u4: "suffix (unread s4) w" using suffix_appendD by blast
    have sf4: "suffix (unread s4) (unread s)" by (rule suffix_order.trans [OF h(9) c(3)])
    have step: "FillBuffLoop ?ph (Suc fuel) hb s = (if length hb' < 8 then FillBuffLoop ?ph fuel hb' s4
        else bindr (?ph (header_of_bytes hb') (enter_header s4)) (\<lambda>(status, s5).
              fill_dispatch (\<lambda>s. FillBuffLoop ?ph fuel [] s) status (leave_header s5)))"
      using Proceed i3(3) f by (simp add: FillBuffLoop.simps(2))
    show ?thesis
    proof (cases "length hb' < 8")
      case True
      then show ?thesis unfolding step using go [OF k4 _ sf4 l4 True _ w4] h(6-8) c(2,4,5) by simp
    next
      case False
      then have l8: "length hb' = 8" using h(4) by simp
      have e4: "rd_inv (enter_header s4)" "errno_set (enter_header s4)" "eorStop (strm (enter_header s4))"
        "positions (enter_header s4)" "isBeginProcessed (rqd (enter_header s4))" "\<not> eorStop (strm s4)"
        using k4 Suc.prems(4,5) by (auto simp: keeps_def rd_inv_upd positions_def rd_inv_def Let_def)
      have "safe (input_faults w) (\<lambda>s'. keeps s4 s' \<and> filled_or_closed s4 s')
          (bindr (?ph (header_of_bytes hb') (enter_header s4)) (\<lambda>(status, s5).
              fill_dispatch (\<lambda>s. FillBuffLoop ?ph fuel [] s) status (leave_header s5)))"
      proof (rule safe_bind [OF safe_mono [OF ProcessHeader_safe [OF e4(1-5)] header_faults [OF w4 l8]]])
        fix x
        assume x: "processed_safely (enter_header s4) x"
        have "safe (input_faults w) (\<lambda>s'. keeps v s' \<and> filled_or_closed v s') (FillBuffLoop ?ph fuel [] v)"
          if v: "keeps s4 v" "\<not> isClosed (strm v)" "suffix (unread v) (unread s4)" for v
        proof (rule Suc.IH)
          show "rd_inv v" "errno_set v" "\<not> eorStop (strm v)" "isBeginProcessed (rqd v)"
            using keeps_trans [OF k4 v(1)] Suc.prems(4,5) by (simp_all add: keeps_def)
          show "left v < fuel" using suffix_length_le [OF v(3)] l4 Suc.prems(6) by (simp add: left_def)
          show "suffix ([] @ unread v) w" using suffix_order.trans [OF v(3) u4] by simp
        qed (use v(2) in simp_all)
        from dispatch_safe [OF _ e4(6) this] x
        show "safe (input_faults w) (\<lambda>s'. keeps s4 s' \<and> filled_or_closed s4 s') (case x of (status, s5) \<Rightarrow>
            fill_dispatch (\<lambda>s. FillBuffLoop ?ph fuel [] s) status (leave_header s5))"
          by (cases x) simp
      qed
      from safe_mono [OF this order_refl, of "\<lambda>s'. keeps s s' \<and> filled_or_closed s s'"]
      show ?thesis unfolding step using False keeps_trans [OF k4] filled_or_closed_trans [OF sf4] by simp
    qed
  qed
qed simp

text \<open>
  A reader of a request that has begun: the buffer and the positions are in order, no header is being processed. \<open>w\<close> is
  what was unread at some earlier time.
\<close>

definition reader_state :: "st \<Rightarrow> bool" where
  "reader_state s \<longleftrightarrow> rd_inv s \<and> \<not> eorStop (strm s) \<and> isBeginProcessed (rqd s) \<and> errno_set s \<and> (isClosed (strm s) \<or> positions s)"

definition outer_inv :: "byte list \<Rightarrow> st \<Rightarrow> bool" where
  "outer_inv w s \<longleftrightarrow> reader_state s \<and> (isClosed (strm s) \<or> suffix (unread s) w)"

lemma input_faults_mono: "suffix v w \<Longrightarrow> input_faults v \<subseteq> input_faults w"
  by (auto simp: input_faults_def intro: sublist_order.order_trans suffix_imp_sublist)

lemma FillBuffProc_safe:
  assumes "reader_state s" "\<not> isClosed (strm s)"
  shows "safe (input_faults (unread s)) (\<lambda>s'. keeps s s' \<and> filled_or_closed s s') (FillBuffProc s)"
  unfolding FillBuffProc_def
  by (rule FillBuffLoop_safe) (use assms in \<open>auto simp: reader_state_def left_def\<close>)

lemma outer_filled:
  assumes "outer_inv w s" "\<not> isClosed (strm s)" "keeps s s'" "filled_or_closed s s'"
  shows "outer_inv w s' \<and> (isClosed (strm s') \<or> rdNext (strm s') < stop (strm s') \<and> left s' \<le> left s)"
proof -
  have w: "suffix (unread s) w" using assms(1,2) by (simp add: outer_inv_def)
  have "outer_inv w s'"
    using assms suffix_order.trans [OF _ w, of "unread s'"] by (auto simp: outer_inv_def reader_state_def keeps_def filled_or_closed_def)
  moreover have "isClosed (strm s') \<or> rdNext (strm s') < stop (strm s') \<and> left s' \<le> left s"
    using assms(4) suffix_length_le [of "unread s'" "unread s"] by (auto simp: filled_or_closed_def left_def)
  ultimately show ?thesis by simp
qed

lemma outer_simps:
  "outer_inv w s \<Longrightarrow> outer_inv w (mark_unget s)"
  "outer_inv w s \<Longrightarrow> outer_inv w (upd (SetError e) s)"
  by (auto simp: outer_inv_def reader_state_def rd_inv_def errno_set_def positions_def mark_unget_def SetError_def unread_def buffered_def Let_def)

lemma outer_consume:
  assumes "outer_inv w s" "\<not> isClosed (strm s)" "rdNext (strm s) + m \<le> stop (strm s)"
  shows "outer_inv w (consume m s)"
proof -
  have i: "rd_inv s" "positions s" "suffix (unread s) w" using assms(1,2) by (simp_all add: outer_inv_def reader_state_def)
  have le: "rdNext (strm s) + m \<le> buffStop (strm s)" using i(2) assms(3) by (simp add: positions_def)
  have "suffix (unread (consume m s)) w" using suffix_order.trans [OF suffix_consume(1) [OF i(1) le] i(3)] .
  then show ?thesis using assms consume_unread(1) [OF i(1) le]
    by (auto simp: outer_inv_def reader_state_def consume_def positions_def)
qed

interpretation stream_total: total_source FillBuffProc "input_faults w" "outer_inv w" for w
proof unfold_locales
  fix s
  assume s: "outer_inv w s" and op: "\<not> isClosed (strm s)"
  then have "reader_state s" and w: "suffix (unread s) w" by (simp_all add: outer_inv_def)
  from FillBuffProc_safe [OF this(1) op]
  show "safe (input_faults w) (\<lambda>s'. outer_inv w s' \<and> (isClosed (strm s') \<or> rdNext (strm s') < stop (strm s') \<and> left s' \<le> left s)) (FillBuffProc s)"
    by (rule safe_mono) (use input_faults_mono [OF w] outer_filled [OF s op] in auto)
next
  show "rd_inv s" if "outer_inv w s" for s using that by (simp add: outer_inv_def reader_state_def)
  show "positions s" if "outer_inv w s" "\<not> isClosed (strm s)" for s using that by (simp add: outer_inv_def reader_state_def)
qed (simp_all add: outer_simps outer_consume)

section \<open>Sequences of calls\<close>

text \<open>The calls an application makes on its input stream, and the values they return.\<close>

datatype read_call = CallGetChar | CallGetStr int | CallGetLine int | CallHasSeenEOF | CallGetError | CallClearError

datatype read_value = IntValue int | StrValue "byte list" | LineValue "byte list option"

fun do_call :: "read_call \<Rightarrow> st \<Rightarrow> (read_value \<times> st) res" where
  "do_call CallGetChar s = bindr (FCGX_GetChar FillBuffProc s) (\<lambda>(c, s'). Inr (IntValue c, s'))"
| "do_call (CallGetStr n) s = bindr (FCGX_GetStr FillBuffProc n s) (\<lambda>(bs, s'). Inr (StrValue bs, s'))"
| "do_call (CallGetLine n) s = bindr (FCGX_GetLine FillBuffProc n s) (\<lambda>(l, s'). Inr (LineValue l, s'))"
| "do_call CallHasSeenEOF s = Inr (IntValue (FCGX_HasSeenEOF (strm s)), s)"
| "do_call CallGetError s = Inr (IntValue (FCGX_GetError (strm s)), s)"
| "do_call CallClearError s = Inr (IntValue 0, upd FCGX_ClearError s)"

fun do_calls :: "read_call list \<Rightarrow> st \<Rightarrow> (read_value list \<times> st) res" where
  "do_calls [] s = Inr ([], s)"
| "do_calls (x # xs) s = bindr (do_call x s) (\<lambda>(v, s1). bindr (do_calls xs s1) (\<lambda>(vs, s2). Inr (v # vs, s2)))"

text \<open>The documented ranges: a byte or \<open>EOF\<close>, at most \<open>n\<close> bytes, a line of at most \<open>n - 1\<close> bytes.\<close>

fun value_ok :: "read_call \<Rightarrow> read_value \<Rightarrow> bool" where
  "value_ok CallGetChar v = (case v of IntValue c \<Rightarrow> c = EOF \<or> 0 \<le> c \<and> c \<le> 255 | _ \<Rightarrow> False)"
| "value_ok (CallGetStr n) v = (case v of StrValue bs \<Rightarrow> int (length bs) \<le> max n 0 | _ \<Rightarrow> False)"
| "value_ok (CallGetLine n) v = (case v of LineValue None \<Rightarrow> True
     | LineValue (Some bs) \<Rightarrow> length bs \<le> nat (n - 1) \<and> 10 \<notin> set (butlast bs) | _ \<Rightarrow> False)"
| "value_ok CallHasSeenEOF v = (v = IntValue 0 \<or> v = IntValue EOF)"
| "value_ok CallGetError v = (case v of IntValue e \<Rightarrow> True | _ \<Rightarrow> False)"
| "value_ok CallClearError v = (v = IntValue 0)"

lemma do_call_safe:
  assumes "outer_inv w s"
  shows "safe (input_faults w) (\<lambda>(v, s'). value_ok x v \<and> outer_inv w s') (do_call x s)"
proof (cases x)
  case CallGetChar
  then show ?thesis unfolding CallGetChar do_call.simps
    by (intro safe_bind [OF stream_total.GetChar_safe [OF assms]]) (auto simp: stream_total.got_char_def split: if_splits)
next
  case (CallGetStr n)
  then show ?thesis unfolding CallGetStr do_call.simps
    by (intro safe_bind [OF stream_total.GetStr_safe [OF assms]]) (auto simp: stream_total.got_str_def)
next
  case (CallGetLine n)
  then show ?thesis unfolding CallGetLine do_call.simps
    by (intro safe_bind [OF stream_total.GetLine_safe [OF assms]]) (auto simp: stream_total.got_line_def split: option.splits)
next
  case CallClearError
  have "outer_inv w (upd FCGX_ClearError s)"
    using assms by (auto simp: outer_inv_def reader_state_def rd_inv_upd positions_def FCGX_ClearError_def unread_def buffered_def)
  then show ?thesis by (simp add: CallClearError)
qed (use assms in \<open>auto simp: FCGX_HasSeenEOF_def\<close>)

lemma do_calls_safe:
  "outer_inv w s \<Longrightarrow> safe (input_faults w) (\<lambda>(vs, s'). list_all2 value_ok xs vs \<and> outer_inv w s') (do_calls xs s)"
proof (induction xs arbitrary: s)
  case (Cons x xs)
  show ?case unfolding do_calls.simps
  proof (rule safe_bind [OF do_call_safe [OF Cons.prems]], clarify)
    fix v s1
    assume v: "value_ok x v" "outer_inv w s1"
    show "safe (input_faults w) (\<lambda>(vs, s'). list_all2 value_ok (x # xs) vs \<and> outer_inv w s')
        (bindr (do_calls xs s1) (\<lambda>(vs, s2). Inr (v # vs, s2)))"
      by (rule safe_bind [OF Cons.IH [OF v(2)]]) (use v(1) in auto)
  qed
qed simp

section \<open>Properties\<close>

text \<open>C15. Whatever arrives on the connection, in whatever pieces and with whatever errors, any sequence of reading calls on the input
  stream of a request comes back, with values of the documented ranges and the stream well formed; no assertion fails and nothing is read or
  written outside an object, unless the input contains the beginning of a FCGI_GET_VALUES record.\<close>

theorem reader_well_typed:
  assumes "reader_state s"
  shows "case do_calls xs s of Inl f \<Rightarrow> f = OutOfBounds \<and> sublist [1, 9] (unread s)
    | Inr (vs, s') \<Rightarrow> list_all2 value_ok xs vs \<and> reader_state s'"
proof -
  have "outer_inv (unread s) s" using assms by (simp add: outer_inv_def)
  from do_calls_safe [OF this, of xs] show ?thesis
    by (cases "do_calls xs s") (auto simp: input_faults_def outer_inv_def)
qed

theorem reader_well_typed_witness:
  "\<exists>vs s'. do_calls [CallGetChar, CallGetLine 80, CallGetStr 1000, CallClearError, CallGetChar] (sample_reader [1, 5, 0, 1, 255, 255, 7, 0, 65, 10]) = Inr (vs, s')
    \<and> list_all2 value_ok [CallGetChar, CallGetLine 80, CallGetStr 1000, CallClearError, CallGetChar] vs \<and> reader_state s'"
proof -
  let ?bs = "[1, 5, 0, 1, 255, 255, 7, 0, 65, 10] :: byte list"
  obtain t w where t: "NewReader 64 0 (sample_os []) = (t, w)" by fastforce
  have u: "unread (sample_reader ?bs) = ?bs" by (rule sample_reader_facts(3)) simp
  have "idle (sample_reader ?bs)" "rdNext (strm (sample_reader ?bs)) = stop (strm (sample_reader ?bs))"
    using NewReader_idle(5,6) [OF t] by (simp_all add: sample_reader_def t)
  then have "reader_state (sample_reader ?bs)"
    by (simp add: reader_state_def idle_def positions_def rd_inv_def errno_set_def sample_reader_def sample_os_def sample_conn_def Let_def)
  moreover have "\<not> sublist [1, 9] ?bs" by (simp add: sublist_Cons_right)
  ultimately show ?thesis
    using reader_well_typed [of "sample_reader ?bs" "[CallGetChar, CallGetLine 80, CallGetStr 1000, CallClearError, CallGetChar]"] u
    by (auto split: sum.splits)
qed

end
