(* ===== verification/Fcgi_Printf.thy ===== *)
theory Fcgi_Printf
  imports Fcgi_Stream
begin

text \<open>
  \<open>FCGX_FPrintF\<close> and \<open>FCGX_VFPrintF\<close> of \<open>fcgiapp.c\<close>. A conversion is first tried on the fast path,
  which reads no flags, widths or precisions and formats into a buffer of 100 bytes; when its conversion character is none that can be
  performed there, the slow path scans the specification, bounds the size of the result and takes a larger buffer if need be.

  The variable arguments are a list of typed values (\<open>varg\<close>); taking one of another type is \<open>Undefined\<close>. The C library's
  \<open>sprintf\<close> is written out for one conversion of an integer, a character or a string. What it makes of floating-point numbers and pointers, which the standard
  leaves to the implementation, is given by \<open>libc\<close>, with the exponent \<open>frexp\<close> returns and the conversion of a \<open>long double\<close> to
  \<open>double\<close>. An \<open>sprintf\<close> that needs more than the buffer holds, terminating NUL included, is \<open>OutOfBounds\<close>; so is one whose
  result would be longer than the largest \<open>int\<close>, which no buffer of the function holds.
\<close>

section \<open>sprintf of one conversion\<close>

abbreviation chr :: "char \<Rightarrow> byte" where "chr c \<equiv> of_char c"

definition is_digit :: "byte \<Rightarrow> bool" where
  "is_digit b \<longleftrightarrow> 0x30 \<le> b \<and> b \<le> 0x39"

definition is_flag :: "byte \<Rightarrow> bool" where
  "is_flag b \<longleftrightarrow> b \<in> set (map chr ''-0+ #'')"

text \<open>\<open>strtol(p, NULL, 10)\<close> on a run of digits.\<close>

definition dec_value :: "byte list \<Rightarrow> nat" where
  "dec_value ds = foldl (\<lambda>n d. 10 * n + (unat d - 48)) 0 ds"

record directive =
  dMinus :: bool
  dZero :: bool
  dPlus :: bool
  dSpace :: bool
  dAlt :: bool
  dWidth :: nat
  dPrec :: "nat option"

definition directive_of :: "byte list \<Rightarrow> directive" where
  "directive_of fmt =
     (let fl = takeWhile is_flag (drop 1 fmt); p1 = dropWhile is_flag (drop 1 fmt);
          w = takeWhile is_digit p1; p2 = dropWhile is_digit p1
      in \<lparr>dMinus = chr CHR ''-'' \<in> set fl, dZero = chr CHR ''0'' \<in> set fl, dPlus = chr CHR ''+'' \<in> set fl,
          dSpace = chr CHR '' '' \<in> set fl, dAlt = chr CHR ''#'' \<in> set fl, dWidth = dec_value w,
          dPrec = (if p2 \<noteq> [] \<and> hd p2 = chr CHR ''.'' then Some (dec_value (takeWhile is_digit (tl p2))) else None)\<rparr>)"

definition field :: "directive \<Rightarrow> bool \<Rightarrow> byte list \<Rightarrow> byte list \<Rightarrow> byte list" where
  "field d zeros sign body =
     (let n = dWidth d - length (sign @ body) in
      if dMinus d then sign @ body @ replicate n (chr CHR '' '')
      else if dZero d \<and> zeros then sign @ replicate n (chr CHR ''0'') @ body
      else replicate n (chr CHR '' '') @ sign @ body)"

definition digit :: "bool \<Rightarrow> nat \<Rightarrow> byte" where
  "digit up n = of_nat (if n < 10 then 48 + n else if up then 55 + n else 87 + n)"

fun digits :: "nat \<Rightarrow> bool \<Rightarrow> nat \<Rightarrow> byte list" where
  "digits b up n = (if n < b \<or> b < 2 then [digit up n] else digits b up (n div b) @ [digit up (n mod b)])"

declare digits.simps [simp del]

text \<open>The digits of an integer conversion: at least as many as the precision says, none for zero with precision zero.\<close>

definition int_digits :: "directive \<Rightarrow> nat \<Rightarrow> bool \<Rightarrow> nat \<Rightarrow> byte list" where
  "int_digits d b up n =
     (let ds = (if n = 0 \<and> dPrec d = Some 0 then [] else digits b up n);
          m = (case dPrec d of None \<Rightarrow> 0 | Some p \<Rightarrow> p)
      in replicate (m - length ds) (chr CHR ''0'') @ ds)"

definition sprintf_signed :: "byte list \<Rightarrow> int \<Rightarrow> byte list" where
  "sprintf_signed fmt v =
     (let d = directive_of fmt in
      field d (dPrec d = None)
        (if v < 0 then [chr CHR ''-''] else if dPlus d then [chr CHR ''+''] else if dSpace d then [chr CHR '' ''] else [])
        (int_digits d 10 False (nat \<bar>v\<bar>)))"

definition sprintf_unsigned :: "byte list \<Rightarrow> byte \<Rightarrow> nat \<Rightarrow> byte list" where
  "sprintf_unsigned fmt op v =
     (let d = directive_of fmt in
      if op = chr CHR ''o'' then
        let ds = int_digits d 8 False v in
        field d (dPrec d = None) [] (if dAlt d \<and> (ds = [] \<or> hd ds \<noteq> chr CHR ''0'') then chr CHR ''0'' # ds else ds)
      else if op = chr CHR ''x'' \<or> op = chr CHR ''X'' then
        field d (dPrec d = None) (if dAlt d \<and> v \<noteq> 0 then [chr CHR ''0'', op] else [])
          (int_digits d 16 (op = chr CHR ''X'') v)
      else field d (dPrec d = None) [] (int_digits d 10 False v))"

definition sprintf_char :: "byte list \<Rightarrow> int \<Rightarrow> byte list" where
  "sprintf_char fmt v = field (directive_of fmt) False [] [uchar v]"

definition sprintf_string :: "byte list \<Rightarrow> byte list \<Rightarrow> byte list" where
  "sprintf_string fmt s =
     (let d = directive_of fmt in field d False [] (case dPrec d of None \<Rightarrow> s | Some p \<Rightarrow> take p s))"

section \<open>State\<close>

datatype 'd varg = VInt "32 word" | VLong "64 word" | VLongLong "64 word" | VStr "byte list option" | VPtr int
  | VDouble 'd | VLDouble 'd

text \<open>The type \<open>'d\<close> holds the values of \<open>double\<close> and of \<open>long double\<close>. \<open>frexp_exp\<close> is the exponent \<open>frexp\<close> stores for a
  \<open>double\<close>, and \<open>to_double\<close> the conversion \<open>(double)\<close> of a \<open>long double\<close>. The program calls neither \<open>ldouble_exp\<close> (the
  exponent \<open>frexpl\<close> would give) nor \<open>double_range\<close> (whether the value is in the range of \<open>double\<close>): they say what a
  \<open>long double\<close> is.\<close>

record 'd libc =
  double_text :: "byte list \<Rightarrow> 'd \<Rightarrow> byte list"
  ldouble_text :: "byte list \<Rightarrow> 'd \<Rightarrow> byte list"
  pointer_text :: "byte list \<Rightarrow> int \<Rightarrow> byte list"
  frexp_exp :: "'d \<Rightarrow> int"
  to_double :: "'d \<Rightarrow> 'd"
  ldouble_exp :: "'d \<Rightarrow> int"
  double_range :: "'d \<Rightarrow> bool"

text \<open>\<open>pStores\<close> are the values \<open>%n\<close> stored, with their addresses; \<open>pAux\<close> is the length of the allocated buffer.\<close>

record 'd pf =
  pArgs :: "'d varg list"
  pStores :: "(int \<times> int) list"
  pAux :: "nat option"
  pCount :: int
  pSt :: st

text \<open>A step of the function: \<open>None\<close> is \<open>goto ErrorReturn\<close>.\<close>

type_synonym ('d, 'a) pstep = "('a option \<times> 'd pf) res"

definition error_return :: "'d pf \<Rightarrow> ('d, 'a) pstep" where
  "error_return s = Inr (None, s)"

definition bindg :: "('d, 'a) pstep \<Rightarrow> ('a \<Rightarrow> 'd pf \<Rightarrow> ('d, 'b) pstep) \<Rightarrow> ('d, 'b) pstep" where
  "bindg m k = bindr m (\<lambda>(x, s). case x of None \<Rightarrow> error_return s | Some y \<Rightarrow> k y s)"

definition va_int :: "'d pf \<Rightarrow> ('d, int) pstep" where
  "va_int s = (case pArgs s of VInt v # as \<Rightarrow> Inr (Some (sint v), s\<lparr>pArgs := as\<rparr>) | _ \<Rightarrow> Inl Undefined)"

definition va_long :: "'d pf \<Rightarrow> ('d, 64 word) pstep" where
  "va_long s = (case pArgs s of VLong v # as \<Rightarrow> Inr (Some v, s\<lparr>pArgs := as\<rparr>) | _ \<Rightarrow> Inl Undefined)"

definition va_long_long :: "'d pf \<Rightarrow> ('d, 64 word) pstep" where
  "va_long_long s = (case pArgs s of VLongLong v # as \<Rightarrow> Inr (Some v, s\<lparr>pArgs := as\<rparr>) | _ \<Rightarrow> Inl Undefined)"

definition va_string :: "'d pf \<Rightarrow> ('d, byte list option) pstep" where
  "va_string s = (case pArgs s of VStr v # as \<Rightarrow> Inr (Some v, s\<lparr>pArgs := as\<rparr>) | _ \<Rightarrow> Inl Undefined)"

definition va_pointer :: "'d pf \<Rightarrow> ('d, int) pstep" where
  "va_pointer s = (case pArgs s of VPtr v # as \<Rightarrow> Inr (Some v, s\<lparr>pArgs := as\<rparr>) | _ \<Rightarrow> Inl Undefined)"

definition va_double :: "'d pf \<Rightarrow> ('d, 'd) pstep" where
  "va_double s = (case pArgs s of VDouble v # as \<Rightarrow> Inr (Some v, s\<lparr>pArgs := as\<rparr>) | _ \<Rightarrow> Inl Undefined)"

definition va_ldouble :: "'d pf \<Rightarrow> ('d, 'd) pstep" where
  "va_ldouble s = (case pArgs s of VLDouble v # as \<Rightarrow> Inr (Some v, s\<lparr>pArgs := as\<rparr>) | _ \<Rightarrow> Inl Undefined)"

section \<open>Scanning\<close>

text \<open>A scanned specification: \<open>fmtBuff\<close> without its NUL, the conversion character, the size modifier (a blank for none) and the length of the
  specification in the format.\<close>

record spec =
  fmtBuff :: "byte list"
  cOp :: byte
  sizeModifier :: byte
  specifierLength :: nat

text \<open>The byte \<open>p[i]\<close> of a C string.\<close>

definition at :: "byte list \<Rightarrow> nat \<Rightarrow> byte" where
  "at p i = (if i < length p then p ! i else 0)"

definition PERCENT :: byte where "PERCENT = 0x25"
definition PRINTF_BUFFLEN :: nat where "PRINTF_BUFFLEN = 100"
definition FMT_BUFFLEN :: nat where "FMT_BUFFLEN = 25"

text \<open>The fast path.\<close>

definition fast_scan :: "byte list \<Rightarrow> spec" where
  "fast_scan f =
     (if at f 1 = chr CHR ''l'' \<and> at f 2 = chr CHR ''l'' then
        \<lparr>fmtBuff = [PERCENT, chr CHR ''l'', chr CHR ''l'', at f 3], cOp = at f 3, sizeModifier = chr CHR ''L'', specifierLength = 4\<rparr>
      else if at f 1 \<in> set (map chr ''lLh'') then
        \<lparr>fmtBuff = [PERCENT, at f 1, at f 2], cOp = at f 2, sizeModifier = at f 1, specifierLength = 3\<rparr>
      else \<lparr>fmtBuff = [PERCENT, at f 1], cOp = at f 1, sizeModifier = chr CHR '' '', specifierLength = 2\<rparr>)"

text \<open>\<open>sprintf(fmtBuffPtr, "%d", n)\<close>.\<close>

definition dec_text :: "int \<Rightarrow> byte list" where
  "dec_text n = (if n < 0 then [chr CHR ''-''] else []) @ digits 10 False (nat \<bar>n\<bar>)"

text \<open>\<open>abs\<close> of the least \<open>int\<close>, which the standard leaves undefined, is that integer itself in two's complement.\<close>

definition c_abs :: "int \<Rightarrow> int" where
  "c_abs w = (if w = - (2 ^ 31) then w else \<bar>w\<bar>)"

text \<open>The minimum field width: what goes into \<open>fmtBuff\<close>, \<open>minWidth\<close> and the rest of the format.\<close>

definition scan_width :: "byte list \<Rightarrow> 'd pf \<Rightarrow> ('d, byte list \<times> int \<times> byte list) pstep" where
  "scan_width p s =
     (let ds = takeWhile is_digit p; n = length ds in
      if n = 0 then
        if at p 0 = chr CHR ''*'' then
          bindg (va_int s) (\<lambda>w s.
            if 999999 < c_abs w then error_return s
            else Inr (Some (dec_text w, w, drop 1 p), s))
        else Inr (Some ([], 0, p), s)
      else if n \<le> 6 then Inr (Some (ds, int (dec_value ds), drop n p), s)
      else error_return s)"

definition scan_precision :: "byte list \<Rightarrow> 'd pf \<Rightarrow> ('d, byte list \<times> int \<times> byte list) pstep" where
  "scan_precision p s =
     (if at p 0 = chr CHR ''.'' then
        let q = drop 1 p; ds = takeWhile is_digit q; n = length ds in
        if n = 0 then
          if at q 0 = chr CHR ''*'' then
            bindg (va_int s) (\<lambda>v s.
              let prec = (if v < 0 then 0 else v) in
              if 999999 < prec then error_return s
              else Inr (Some (chr CHR ''.'' # dec_text prec, prec, drop 1 q), s))
          else Inr (Some ([chr CHR ''.''], 0, q), s)
        else if n \<le> 6 then Inr (Some (chr CHR ''.'' # ds, int (dec_value ds), drop n q), s)
        else error_return s
      else Inr (Some ([], - 1, p), s))"

definition scan_size :: "byte list \<Rightarrow> byte list \<times> byte \<times> byte list" where
  "scan_size p =
     (if at p 0 = chr CHR ''l'' \<and> at p 1 = chr CHR ''l'' then ([chr CHR ''l'', chr CHR ''l''], chr CHR ''L'', drop 2 p)
      else if at p 0 \<in> set (map chr ''lLh'') then ([at p 0], at p 0, drop 1 p)
      else ([], chr CHR '' '', p))"

text \<open>The slow path up to the \<open>switch\<close> that bounds the buffer: the specification, \<open>minWidth\<close> and \<open>precision\<close>. The array
  \<open>fmtBuff\<close> is filled from the left, so that all of it fits when the last byte does.\<close>

definition slow_scan :: "byte list \<Rightarrow> 'd pf \<Rightarrow> ('d, spec \<times> int \<times> int) pstep" where
  "slow_scan f s =
     (let p = drop 1 f; fl = takeWhile is_flag p in
      if 5 < length fl then error_return s
      else bindg (scan_width (drop (length fl) p) s) (\<lambda>(wt, minWidth, p) s.
           bindg (scan_precision p s) (\<lambda>(pt, precision, p) s.
           case scan_size p of (zt, sm, p) \<Rightarrow>
             let fmt = PERCENT # fl @ wt @ pt @ zt @ [at p 0] in
             inbounds (length fmt < FMT_BUFFLEN)
              (Inr (Some (\<lparr>fmtBuff = fmt, cOp = at p 0, sizeModifier = sm, specifierLength = length f - length p + 1\<rparr>,
                 minWidth, precision), s)))))"

text \<open>An argument read before the second \<open>switch\<close>.\<close>

datatype 'd early = NoArg | Early_s "byte list" | Early_f 'd | Early_Lf 'd

text \<open>The size \<open>sprintf\<close> is taken to need, before the minimum width is taken into account.\<close>

definition buff_reqd :: "'d libc \<Rightarrow> spec \<Rightarrow> int \<Rightarrow> 'd pf \<Rightarrow> ('d, int \<times> 'd early) pstep" where
  "buff_reqd lc sp precision s =
     (if cOp sp \<in> set (map chr ''diuoxXcp'') then Inr (Some (max precision 46, NoArg), s)
      else if cOp sp = chr CHR ''s'' then
        bindg (va_string s) (\<lambda>x s.
          let str = (case x of None \<Rightarrow> bytes ''(null)'' | Some bs \<Rightarrow> c_str bs) in
          Inr (Some (if precision = - 1 then int (length str) else min precision (int (length str)), Early_s str), s))
      else if cOp sp = chr CHR ''f'' then
        let prec = (if precision = - 1 then 6 else precision);
            reqd = (\<lambda>e. prec + 3 + (if 0 < e then e div 3 else 0)) in
        if sizeModifier sp = chr CHR '' '' then
          bindg (va_double s) (\<lambda>x s. Inr (Some (reqd (frexp_exp lc x), Early_f x), s))
        else if sizeModifier sp = chr CHR ''L'' then
          bindg (va_ldouble s) (\<lambda>x s. Inr (Some (reqd (frexp_exp lc (to_double lc x)), Early_Lf x), s))
        else error_return s
      else if cOp sp \<in> set (map chr ''eEgG'') then
        Inr (Some ((if precision = - 1 then 6 else precision) + 8, NoArg), s)
      else error_return s)"

text \<open>The buffer: the array of 100 bytes, or a block of at least \<open>buffReqd\<close> bytes; \<open>alloc\<close> says whether \<open>malloc\<close> returns
  memory, which \<open>Malloc\<close> asserts.\<close>

definition take_buffer :: "bool \<Rightarrow> int \<Rightarrow> 'd pf \<Rightarrow> ('d, nat) pstep" where
  "take_buffer alloc reqd s =
     (if reqd \<le> int PRINTF_BUFFLEN then Inr (Some PRINTF_BUFFLEN, s)
      else case pAux s of
        Some n \<Rightarrow> if int n < reqd then assertr alloc (Inr (Some (nat reqd), s\<lparr>pAux := Some (nat reqd)\<rparr>)) else Inr (Some n, s)
      | None \<Rightarrow> assertr alloc (Inr (Some (nat reqd), s\<lparr>pAux := Some (nat reqd)\<rparr>)))"

section \<open>Performing the conversion\<close>

text \<open>\<open>sprintf(buffPtr, fmtBuff, ...); buffCount = strlen(buffPtr)\<close>: the bytes that count are those before the first NUL.\<close>

definition into_buffer :: "nat \<Rightarrow> byte list \<Rightarrow> 'd pf \<Rightarrow> ('d, byte list option) pstep" where
  "into_buffer buffLen out s = inbounds (length out < buffLen) (Inr (Some (Some (c_str out)), s))"

text \<open>The value of an integer argument of the modified size.\<close>

definition signed_arg :: "byte \<Rightarrow> 'd pf \<Rightarrow> ('d, int) pstep" where
  "signed_arg sm s =
     (if sm = chr CHR '' '' then va_int s
      else if sm = chr CHR ''l'' then bindg (va_long s) (\<lambda>v s. Inr (Some (sint v), s))
      else if sm = chr CHR ''L'' then bindg (va_long_long s) (\<lambda>v s. Inr (Some (sint v), s))
      else if sm = chr CHR ''h'' then bindg (va_int s) (\<lambda>v s. Inr (Some (sint (word_of_int v :: 16 word)), s))
      else error_return s)"

definition unsigned_arg :: "byte \<Rightarrow> 'd pf \<Rightarrow> ('d, nat) pstep" where
  "unsigned_arg sm s =
     (if sm = chr CHR '' '' then bindg (va_int s) (\<lambda>v s. Inr (Some (unat (word_of_int v :: 32 word)), s))
      else if sm = chr CHR ''l'' then bindg (va_long s) (\<lambda>v s. Inr (Some (unat v), s))
      else if sm = chr CHR ''L'' then bindg (va_long_long s) (\<lambda>v s. Inr (Some (unat v), s))
      else if sm = chr CHR ''h'' then bindg (va_int s) (\<lambda>v s. Inr (Some (unat (word_of_int v :: 16 word)), s))
      else error_return s)"

text \<open>\<open>%n\<close> stores the count, in the width of the pointer.\<close>

definition store_count :: "byte \<Rightarrow> 'd pf \<Rightarrow> ('d, byte list option) pstep" where
  "store_count sm s =
     (if sm = chr CHR '' '' \<or> sm = chr CHR ''l'' \<or> sm = chr CHR ''h'' then
        bindg (va_pointer s) (\<lambda>a s. Inr (Some (Some []),
          s\<lparr>pStores := pStores s @ [(a, if sm = chr CHR ''h'' then sint (word_of_int (pCount s) :: 16 word) else pCount s)]\<rparr>))
      else error_return s)"

definition float_conv :: "'d libc \<Rightarrow> spec \<Rightarrow> nat \<Rightarrow> 'd pf \<Rightarrow> ('d, byte list option) pstep" where
  "float_conv lc sp buffLen s =
     (if sizeModifier sp = chr CHR '' '' then bindg (va_double s) (\<lambda>x s. into_buffer buffLen (double_text lc (fmtBuff sp) x) s)
      else if sizeModifier sp = chr CHR ''L'' then bindg (va_ldouble s) (\<lambda>x s. into_buffer buffLen (ldouble_text lc (fmtBuff sp) x) s)
      else error_return s)"

text \<open>The large \<open>switch\<close>; \<open>Some None\<close> stands for \<open>performedOp = FALSE\<close>. On the fast path \<open>%s\<close> does not use the buffer.\<close>

definition perform :: "'d libc \<Rightarrow> bool \<Rightarrow> spec \<Rightarrow> 'd early \<Rightarrow> nat \<Rightarrow> 'd pf \<Rightarrow> ('d, byte list option) pstep" where
  "perform lc fastPath sp early buffLen s =
     (let op = cOp sp; plain = (sizeModifier sp = chr CHR '' '') in
      if op = chr CHR ''d'' \<or> op = chr CHR ''i'' then
        bindg (signed_arg (sizeModifier sp) s) (\<lambda>v s. into_buffer buffLen (sprintf_signed (fmtBuff sp) v) s)
      else if op \<in> set (map chr ''uoxX'') then
        bindg (unsigned_arg (sizeModifier sp) s) (\<lambda>v s. into_buffer buffLen (sprintf_unsigned (fmtBuff sp) op v) s)
      else if op = chr CHR ''c'' then
        if plain then bindg (va_int s) (\<lambda>v s. into_buffer buffLen (sprintf_char (fmtBuff sp) v) s) else error_return s
      else if op = chr CHR ''s'' then
        if \<not> plain then error_return s
        else if fastPath then
          bindg (va_string s) (\<lambda>x s. case x of None \<Rightarrow> Inl OutOfBounds | Some bs \<Rightarrow> Inr (Some (Some (c_str bs)), s))
        else (case early of Early_s str \<Rightarrow> into_buffer buffLen (sprintf_string (fmtBuff sp) str) s | _ \<Rightarrow> Inl Undefined)
      else if op = chr CHR ''p'' then
        if \<not> plain then error_return s
        else bindg (va_pointer s) (\<lambda>a s. into_buffer buffLen (pointer_text lc (fmtBuff sp) a) s)
      else if op = chr CHR ''n'' then store_count (sizeModifier sp) s
      else if op = chr CHR ''f'' then
        if fastPath then Inr (Some None, s)
        else (case early of
                Early_f x \<Rightarrow> into_buffer buffLen (double_text lc (fmtBuff sp) x) s
              | Early_Lf x \<Rightarrow> into_buffer buffLen (ldouble_text lc (fmtBuff sp) x) s
              | _ \<Rightarrow> Inl Undefined)
      else if op \<in> set (map chr ''eEgG'') then float_conv lc sp buffLen s
      else if op = PERCENT then
        if plain then Inr (Some (Some [PERCENT]), s) else error_return s
      else if op = 0 then error_return s
      else Inr (Some None, s))"

text \<open>The loop \<open>for (;;)\<close>, which runs once or twice.\<close>

definition slow_path :: "'d libc \<Rightarrow> bool \<Rightarrow> byte list \<Rightarrow> 'd pf \<Rightarrow> ('d, byte list \<times> nat) pstep" where
  "slow_path lc alloc f s =
     bindg (slow_scan f s) (\<lambda>(sp, minWidth, precision) s.
     bindg (buff_reqd lc sp precision s) (\<lambda>(reqd, early) s.
     bindg (take_buffer alloc (max (reqd + 10) minWidth) s) (\<lambda>buffLen s.
     bindg (perform lc False sp early buffLen s) (\<lambda>out s.
       case out of None \<Rightarrow> error_return s | Some bs \<Rightarrow> Inr (Some (bs, specifierLength sp), s)))))"

definition convert :: "'d libc \<Rightarrow> bool \<Rightarrow> byte list \<Rightarrow> 'd pf \<Rightarrow> ('d, byte list \<times> nat) pstep" where
  "convert lc alloc f s =
     (let sp = fast_scan f in
      bindg (perform lc True sp NoArg PRINTF_BUFFLEN s) (\<lambda>out s.
        case out of Some bs \<Rightarrow> Inr (Some (bs, specifierLength sp), s) | None \<Rightarrow> slow_path lc alloc f s))"

section \<open>The function\<close>

text \<open>\<open>FCGX_PutStr\<close> with the count of the bytes written.\<close>

definition emit :: "empty_proc \<Rightarrow> byte list \<Rightarrow> 'd pf \<Rightarrow> ('d, unit) pstep" where
  "emit drain bs s =
     (if bs = [] then Inr (Some (), s)
      else bindr (FCGX_PutStr drain bs (pSt s)) (\<lambda>(r, t).
        let s1 = s\<lparr>pSt := t\<rparr> in
        if r < 0 then error_return s1 else Inr (Some (), s1\<lparr>pCount := pCount s1 + int (length bs)\<rparr>)))"

text \<open>The loop over the format. A specification is at least two bytes long, so the length of the format is enough fuel.\<close>

fun VFPrintF_loop :: "'d libc \<Rightarrow> bool \<Rightarrow> empty_proc \<Rightarrow> nat \<Rightarrow> byte list \<Rightarrow> 'd pf \<Rightarrow> ('d, unit) pstep" where
  "VFPrintF_loop lc alloc drain 0 f s = Inl NoReturn"
| "VFPrintF_loop lc alloc drain (Suc fuel) f s =
     (if f = [] then Inr (Some (), s)
      else let lit = takeWhile (\<lambda>b. b \<noteq> PERCENT) f; g = dropWhile (\<lambda>b. b \<noteq> PERCENT) f in
        bindg (emit drain lit s) (\<lambda>_ s.
          if g = [] then Inr (Some (), s)
          else bindg (convert lc alloc g s) (\<lambda>(bs, n) s.
               bindg (emit drain bs s) (\<lambda>_ s.
               VFPrintF_loop lc alloc drain fuel (drop n g) s))))"

declare VFPrintF_loop.simps(2) [simp del]

text \<open>The result: the number of bytes written or \<open>-1\<close>, the arguments left, what \<open>%n\<close> stored and the stream.\<close>

definition FCGX_VFPrintF :: "'d libc \<Rightarrow> bool \<Rightarrow> empty_proc \<Rightarrow> byte list \<Rightarrow> 'd varg list \<Rightarrow> st
    \<Rightarrow> (int \<times> 'd varg list \<times> (int \<times> int) list \<times> st) res" where
  "FCGX_VFPrintF lc alloc drain format args s =
     (let f = c_str format in
      bindr (VFPrintF_loop lc alloc drain (Suc (length f)) f \<lparr>pArgs = args, pStores = [], pAux = None, pCount = 0, pSt = s\<rparr>)
        (\<lambda>(x, p). Inr (if x = None then - 1 else pCount p, pArgs p, pStores p, pSt p)))"

definition FCGX_FPrintF :: "'d libc \<Rightarrow> bool \<Rightarrow> empty_proc \<Rightarrow> byte list \<Rightarrow> 'd varg list \<Rightarrow> st \<Rightarrow> (int \<times> (int \<times> int) list \<times> st) res" where
  "FCGX_FPrintF lc alloc drain format args s =
     bindr (FCGX_VFPrintF lc alloc drain format args s) (\<lambda>(n, _, stores, s'). Inr (n, stores, s'))"

end
