(* ===== verification/Fcgi_Printf_Bounds.thy ===== *)
theory Fcgi_Printf_Bounds
  imports Fcgi_Printf
begin

text \<open>
  The sizes in \<open>FCGX_VFPrintF\<close>: the scanned specification fits \<open>fmtBuff\<close> for every width but the least \<open>int\<close>, and for formats with field widths and
  precisions below 100 what \<open>sprintf\<close> writes fits the buffer chosen. The steps of the formatter are described by the predicate
  \<open>gives\<close>: which faults, which error returns and which results are possible.
\<close>

section \<open>Digits\<close>

lemma digits_small: "n < b \<or> b < 2 \<Longrightarrow> digits b up n = [digit up n]"
  by (simp add: digits.simps)

lemma digits_step: "b \<le> n \<Longrightarrow> 2 \<le> b \<Longrightarrow> digits b up n = digits b up (n div b) @ [digit up (n mod b)]"
  by (subst digits.simps) simp

lemma length_digits: "2 \<le> b \<Longrightarrow> 0 < k \<Longrightarrow> n < b ^ k \<Longrightarrow> length (digits b up n) \<le> k"
proof (induction k arbitrary: n)
  case (Suc k)
  show ?case
  proof (cases "n < b")
    case False
    then have "0 < k" using Suc.prems by (cases k) auto
    moreover have "n div b < b ^ k" using Suc.prems by (simp add: less_mult_imp_div_less mult.commute)
    ultimately show ?thesis using Suc False by (simp add: digits_step)
  qed (simp add: digits_small)
qed simp

lemma digits_not_Nil [simp]: "digits b up n \<noteq> []"
  by (subst digits.simps) simp

lemma unat_digit_byte: "n < 10 \<Longrightarrow> unat (digit up n) = 48 + n"
  by (simp only: digit_def if_True unat_of_nat) simp

lemma digits_decimal: "list_all is_digit (digits 10 up n)"
proof (induction n rule: less_induct)
  case (less n)
  have d: "is_digit (digit up k)" if "k < 10" for k
    using that by (simp add: is_digit_def word_le_nat_alt unat_digit_byte)
  show ?case
  proof (cases "n < 10")
    case False
    then show ?thesis using less.IH [of "n div 10"] d [of "n mod 10"] by (simp add: digits_step)
  qed (simp add: digits_small d)
qed

lemma dec_value_append: "dec_value (ds @ [d]) = 10 * dec_value ds + (unat d - 48)"
  by (simp add: dec_value_def)

lemma dec_value_digits: "dec_value (digits 10 up n) = n"
proof (induction n rule: less_induct)
  case (less n)
  show ?case
  proof (cases "n < 10")
    case False
    then show ?thesis using less.IH [of "n div 10"] by (simp add: digits_step dec_value_append unat_digit_byte)
  qed (simp add: digits_small dec_value_def unat_digit_byte)
qed

lemma c_str_whole: "0 \<notin> set bs \<Longrightarrow> c_str bs = bs"
  unfolding c_str_def by (rule takeWhile_eq_all_conv [THEN iffD2]) auto

lemma dec_value_bound: "list_all is_digit ds \<Longrightarrow> dec_value ds < 10 ^ length ds"
proof (induction ds rule: rev_induct)
  case (snoc d ds)
  then have "unat d \<le> 57" by (simp add: is_digit_def word_le_nat_alt)
  then show ?case using snoc by (simp add: dec_value_append)
qed (simp add: dec_value_def)

lemma chars:
  "chr CHR ''-'' = 0x2d" "chr CHR ''0'' = 0x30" "chr CHR ''+'' = 0x2b" "chr CHR '' '' = 0x20" "chr CHR ''#'' = 0x23"
  "chr CHR ''l'' = 0x6c" "chr CHR ''L'' = 0x4c" "chr CHR ''h'' = 0x68" "chr CHR ''.'' = 0x2e" "chr CHR ''*'' = 0x2a"
  by simp_all

section \<open>Sequencing\<close>

text \<open>\<open>yields F E Q m\<close>: a fault in \<open>F\<close>, or the error return in a state in \<open>E\<close>, or a value and a state in \<open>Q\<close>.\<close>

definition gives :: "fault set \<Rightarrow> ('d pf \<Rightarrow> bool) \<Rightarrow> ('a \<Rightarrow> 'd pf \<Rightarrow> bool) \<Rightarrow> ('d, 'a) pstep \<Rightarrow> bool" where
  "gives F E Q m = (case m of Inl x \<Rightarrow> x \<in> F | Inr (None, s) \<Rightarrow> E s | Inr (Some y, s) \<Rightarrow> Q y s)"

named_theorems gives_intros \<open>rules for the steps of the formatter\<close>

lemma gives_simps [simp]:
  "gives F E Q (Inl x) \<longleftrightarrow> x \<in> F"
  "gives F E Q (Inr (Some y, s)) \<longleftrightarrow> Q y s"
  "gives F E Q (error_return s) \<longleftrightarrow> E s"
  by (simp_all add: gives_def error_return_def)

lemma bindg_simps [simp]:
  "bindg (Inl x) k = Inl x" "bindg (Inr (Some y, s)) k = k y s" "bindg (error_return s) k = error_return s"
  by (simp_all add: bindg_def error_return_def)

lemma gives_bindg:
  "gives F E P m \<Longrightarrow> (\<And>y s. P y s \<Longrightarrow> gives F E Q (k y s)) \<Longrightarrow> gives F E Q (bindg m k)"
proof (cases m)
  case (Inr r)
  obtain x s where r: "r = (x, s)" by (cases r)
  assume "gives F E P m" "\<And>y s. P y s \<Longrightarrow> gives F E Q (k y s)"
  then show ?thesis unfolding Inr r by (cases x) (simp_all add: gives_def bindg_def error_return_def)
qed (simp add: gives_def bindg_def)

lemma gives_seq:
  "gives F1 E1 P m \<Longrightarrow> F1 \<subseteq> F \<Longrightarrow> (\<And>s. E1 s \<Longrightarrow> E s) \<Longrightarrow> (\<And>y s. P y s \<Longrightarrow> gives F E Q (k y s)) \<Longrightarrow> gives F E Q (bindg m k)"
  by (rule gives_bindg [of _ _ P]) (auto simp: gives_def split: sum.splits option.splits)

lemma gives_mono:
  "gives F E P m \<Longrightarrow> F \<subseteq> F' \<Longrightarrow> (\<And>s. E s \<Longrightarrow> E' s) \<Longrightarrow> (\<And>y s. P y s \<Longrightarrow> Q y s) \<Longrightarrow> gives F' E' Q m"
  by (auto simp: gives_def split: sum.splits option.splits)

text \<open>Up to the output a conversion only takes arguments, stores counts and changes buffers.\<close>

definition less_args :: "'d pf \<Rightarrow> 'd pf \<Rightarrow> bool" where
  "less_args s s' \<longleftrightarrow> (\<exists>as. pArgs s = as @ pArgs s') \<and> pCount s' = pCount s \<and> pSt s' = pSt s"

lemma less_args_refl [simp]: "less_args s s"
  by (simp add: less_args_def)

lemma less_args_trans: "less_args s t \<Longrightarrow> less_args t u \<Longrightarrow> less_args s u"
  by (auto simp: less_args_def)

lemma less_args_Cons: "pArgs s = a # as \<Longrightarrow> less_args s (s\<lparr>pArgs := as\<rparr>)"
  by (simp add: less_args_def)

lemma less_args_upd [simp]: "less_args s (s'\<lparr>pStores := x\<rparr>) = less_args s s'" "less_args s (s'\<lparr>pAux := y\<rparr>) = less_args s s'"
  by (simp_all add: less_args_def)

section \<open>The scanned specification fits its array\<close>

lemma length_flags: "length (takeWhile is_flag p) \<le> 5 \<Longrightarrow> length (takeWhile is_flag p) < 6"
  by simp

lemma length_dec_text: "\<bar>n\<bar> \<le> 999999 \<Longrightarrow> length (dec_text n) \<le> 7" "0 \<le> n \<Longrightarrow> n \<le> 999999 \<Longrightarrow> length (dec_text n) \<le> 6"
proof -
  have "length (digits 10 False (nat \<bar>n\<bar>)) \<le> 6" if "\<bar>n\<bar> \<le> 999999"
    by (rule length_digits) (use that in \<open>simp_all add: nat_less_iff\<close>)
  then show "\<bar>n\<bar> \<le> 999999 \<Longrightarrow> length (dec_text n) \<le> 7" "0 \<le> n \<Longrightarrow> n \<le> 999999 \<Longrightarrow> length (dec_text n) \<le> 6"
    by (cases "n < 0"; simp add: dec_text_def)+
qed

lemma va_int_gives: "gives {Undefined} E (\<lambda>v s'. less_args s s') (va_int s)"
  by (auto simp: va_int_def less_args_Cons split: list.split varg.split)

lemma length_width_text: "\<not> 999999 < c_abs w \<Longrightarrow> w \<noteq> - 2147483648 \<Longrightarrow> length (dec_text w) \<le> 7"
  by (rule length_dec_text(1)) (simp add: c_abs_def)

text \<open>The one width whose text is longer: the least \<open>int\<close>, the first argument left.\<close>

definition least_width :: "'d pf \<Rightarrow> bool" where
  "least_width s \<longleftrightarrow> (\<exists>as. pArgs s = VInt 0x80000000 # as)"

definition two_ints :: "'d pf \<Rightarrow> bool" where
  "two_ints s \<longleftrightarrow> (\<exists>v w as. pArgs s = VInt v # VInt w # as)"

lemma scan_width_short: "\<not> least_width s \<Longrightarrow> gives {Undefined} (\<lambda>_. True) (\<lambda>(t, _, _) _. length t \<le> 7) (scan_width p s)"
proof -
  assume l: "\<not> least_width s"
  have "sint v \<noteq> - (2 ^ 31)" if "pArgs s = VInt v # as" for v as
  proof
    assume "sint v = - (2 ^ 31)"
    moreover have "v = word_of_int (sint v)" by simp
    ultimately have "v = word_of_int (- (2 ^ 31))" by metis
    then have "v = 0x80000000" by simp
    then show False using l that by (simp add: least_width_def)
  qed
  then show ?thesis unfolding scan_width_def Let_def va_int_def
    by (auto split: list.split varg.split simp: length_width_text)
qed

lemma scan_precision_short: "gives {Undefined} (\<lambda>_. True) (\<lambda>(t, _, _) _. length t \<le> 7) (scan_precision p s)"
  unfolding scan_precision_def Let_def
  by (auto intro!: gives_bindg [OF va_int_gives] simp: length_dec_text)

lemma scan_size_short: "scan_size p = (t, sm, q) \<Longrightarrow> length t \<le> 2"
  by (auto simp: scan_size_def split: if_splits)

lemma slow_scan_bounds:
  assumes "\<not> least_width s"
  shows "gives {Undefined} (\<lambda>_. True) (\<lambda>(sp, _, _) _. length (fmtBuff sp) < FMT_BUFFLEN) (slow_scan f s)"
proof -
  let ?fl = "takeWhile is_flag (drop 1 f)"
  show ?thesis
  proof (cases "5 < length ?fl")
    case False
    have "length (PERCENT # ?fl @ wt @ pt @ zt @ [at p 0]) < FMT_BUFFLEN"
      if "length wt \<le> 7" "length pt \<le> 7" "length zt \<le> 2" for wt pt zt p
      using that False by (simp add: FMT_BUFFLEN_def)
    then show ?thesis using False unfolding slow_scan_def Let_def
      by (auto intro!: gives_bindg [OF scan_width_short [OF assms]] gives_bindg [OF scan_precision_short] split: prod.splits dest!: scan_size_short)
  qed (simp add: slow_scan_def)
qed

lemma gives_if: "(b \<Longrightarrow> gives F E Q x) \<Longrightarrow> (\<not> b \<Longrightarrow> gives F E Q y) \<Longrightarrow> gives F E Q (if b then x else y)"
  by simp

lemma slow_scan_checked:
  "gives {Undefined, OutOfBounds} (\<lambda>_. True) (\<lambda>(sp, _, _) _. length (fmtBuff sp) < FMT_BUFFLEN) (slow_scan f s)"
proof -
  have w: "gives {Undefined, OutOfBounds} (\<lambda>_. True) (\<lambda>_ _. True) (scan_width p s)"
    and q: "gives {Undefined, OutOfBounds} (\<lambda>_. True) (\<lambda>_ _. True) (scan_precision p s)" for p s
    unfolding scan_width_def scan_precision_def va_int_def Let_def by (auto split: list.split varg.split)
  show ?thesis unfolding slow_scan_def Let_def
    by (auto intro!: gives_if gives_bindg [OF w] gives_bindg [OF q] split: prod.split simp: inbounds_def)
qed

text \<open>Two arguments of type \<open>int\<close> are all the scan may ask for.\<close>

lemma slow_scan_ints:
  assumes "two_ints s"
  shows "gives {OutOfBounds} (\<lambda>_. True) (\<lambda>_ _. True) (slow_scan f s)"
proof -
  have w: "gives {OutOfBounds} (\<lambda>_. True) (\<lambda>_ s'. \<exists>v as. pArgs s' = VInt v # as) (scan_width p s)" for p
    using assms unfolding two_ints_def scan_width_def va_int_def Let_def by (auto split: list.split varg.split)
  have q: "gives {OutOfBounds} (\<lambda>_. True) (\<lambda>_ _. True) (scan_precision p s)" if "\<exists>v as. pArgs s = VInt v # as" for p and s :: "'a pf"
    using that unfolding scan_precision_def va_int_def Let_def by (auto split: list.split varg.split)
  show ?thesis unfolding slow_scan_def Let_def
    by (auto intro!: gives_if gives_bindg [OF w] gives_bindg [OF q] split: prod.split simp: inbounds_def)
qed

section \<open>The scanned specification is that of the format\<close>

lemma split_run:
  assumes "list_all P xs" "\<not> P (at ys 0)"
  shows "takeWhile P (xs @ ys) = xs" "dropWhile P (xs @ ys) = ys"
proof -
  have "takeWhile P ys = []" "dropWhile P ys = ys" using assms(2) by (cases ys; simp add: at_def)+
  moreover have "\<forall>x \<in> set xs. P x" using assms(1) by (simp add: list_all_iff)
  ultimately show "takeWhile P (xs @ ys) = xs" "dropWhile P (xs @ ys) = ys"
    by (simp_all add: takeWhile_append2 dropWhile_append2)
qed

lemma run_stops: "\<not> P 0 \<Longrightarrow> \<not> P (at (drop (length (takeWhile P p)) p) 0)"
proof -
  assume z: "\<not> P 0"
  have "drop (length (takeWhile P p)) p = dropWhile P p" by (metis dropWhile_eq_drop)
  then show ?thesis using z hd_dropWhile [of P p] by (cases "dropWhile P p") (auto simp: at_def)
qed

lemma at_append: "at (xs @ ys) 0 = (if xs = [] then at ys 0 else at xs 0)"
  by (cases xs) (simp_all add: at_def)

lemma not_run_0 [simp]: "\<not> is_flag 0" "\<not> is_digit 0"
  by (simp_all add: is_flag_def is_digit_def)

lemma list_all_takeWhile: "list_all P (takeWhile P xs)"
  by (auto simp: list_all_iff dest: set_takeWhileD)

text \<open>No \<open>*\<close> and no run of three digits: field widths and precisions are below 100.\<close>

fun narrow :: "byte list \<Rightarrow> bool" where
  "narrow [] = True"
| "narrow (a # f) = (a \<noteq> chr CHR ''*'' \<and> \<not> (is_digit a \<and> is_digit (at f 0) \<and> is_digit (at f 1)) \<and> narrow f)"

lemma narrow_drop: "narrow f \<Longrightarrow> narrow (drop n f)"
proof (induction f arbitrary: n)
  case (Cons a f)
  then show ?case by (cases n) auto
qed simp

lemma narrow_star: "narrow f \<Longrightarrow> at f 0 \<noteq> chr CHR ''*''"
  by (cases f) (auto simp: at_def)

lemma narrow_digits: "narrow f \<Longrightarrow> length (takeWhile is_digit f) \<le> 2"
proof -
  assume n: "narrow f"
  consider "f = []" | a where "f = [a]" | a b where "f = [a, b]" | a b c g where "f = a # b # c # g"
    by (metis list.exhaust)
  then show ?thesis using n by cases (auto simp: at_def)
qed

lemma narrow_value: "narrow f \<Longrightarrow> dec_value (takeWhile is_digit f) \<le> 99"
proof -
  assume "narrow f"
  then have "length (takeWhile is_digit f) \<le> 2" by (rule narrow_digits)
  then have "(10::nat) ^ length (takeWhile is_digit f) \<le> 10 ^ 2" by (intro power_increasing) simp_all
  then show ?thesis using dec_value_bound [OF list_all_takeWhile, of f] by simp
qed

lemma scan_width_narrow:
  assumes "narrow p"
  shows "scan_width p s = Inr (Some (takeWhile is_digit p, int (dec_value (takeWhile is_digit p)), drop (length (takeWhile is_digit p)) p), s)"
  using narrow_star [OF assms] narrow_digits [OF assms] by (simp add: scan_width_def Let_def dec_value_def)

lemma scan_precision_narrow:
  assumes "narrow p"
  shows "scan_precision p s = (if at p 0 = chr CHR ''.'' then
      let ds = takeWhile is_digit (drop 1 p) in Inr (Some (chr CHR ''.'' # ds, int (dec_value ds), drop (length ds) (drop 1 p)), s)
    else Inr (Some ([], - 1, p), s))"
  using narrow_star [OF narrow_drop [OF assms, of 1]] narrow_digits [OF narrow_drop [OF assms, of 1]]
  by (simp add: scan_precision_def Let_def dec_value_def)

lemma scan_size_at: "scan_size p = (zt, sm, q) \<Longrightarrow> at (zt @ [at q 0]) 0 = at p 0"
  by (auto simp: scan_size_def at_append split: if_splits) (auto simp: at_def split: if_splits)

text \<open>What \<open>sprintf\<close> reads in \<open>fmtBuff\<close> is what the scan found in the format.\<close>

definition scanned :: "spec \<Rightarrow> int \<Rightarrow> int \<Rightarrow> bool" where
  "scanned sp w pr \<longleftrightarrow> (let d = directive_of (fmtBuff sp) in
     int (dWidth d) = w \<and> w \<le> 99 \<and> - 1 \<le> pr \<and> pr \<le> 99 \<and> dPrec d = (if pr = - 1 then None else Some (nat pr)) \<and> last (fmtBuff sp) = cOp sp)"

lemma directive_parts:
  assumes "list_all is_flag fl" "list_all is_digit wt" "\<not> is_flag (at (wt @ y) 0)" "\<not> is_digit (at y 0)"
  shows "dWidth (directive_of (PERCENT # fl @ wt @ y)) = dec_value wt"
    "dPrec (directive_of (PERCENT # fl @ wt @ y)) =
       (if at y 0 = chr CHR ''.'' then Some (dec_value (takeWhile is_digit (tl y))) else None)"
proof -
  note runs = split_run [OF assms(1,3)] split_run [OF assms(2,4)]
  have "drop 1 (PERCENT # fl @ wt @ y) = fl @ wt @ y" by simp
  note dir = directive_of_def [of "PERCENT # fl @ wt @ y", unfolded Let_def this runs]
  show "dWidth (directive_of (PERCENT # fl @ wt @ y)) = dec_value wt"
    "dPrec (directive_of (PERCENT # fl @ wt @ y)) =
       (if at y 0 = chr CHR ''.'' then Some (dec_value (takeWhile is_digit (tl y))) else None)"
    unfolding dir by (cases y; simp add: at_def; fail)+
qed

lemma narrow_le: "narrow f \<Longrightarrow> int (dec_value (takeWhile is_digit f)) \<le> 99"
  using narrow_value [of f] by simp

lemma dot_not_digit: "\<not> is_digit (chr CHR ''.'')"
  by (simp add: is_digit_def)

lemma slow_scan_narrow:
  assumes "narrow f"
  shows "gives {} (\<lambda>s'. s' = s) (\<lambda>(sp, w, pr) s'. s' = s \<and> scanned sp w pr) (slow_scan f s)"
proof -
  define p where "p = drop 1 f"
  define fl where "fl = takeWhile is_flag p"
  define p1 where "p1 = drop (length fl) p"
  define wt where "wt = takeWhile is_digit p1"
  define p2 where "p2 = drop (length wt) p1"
  have nar: "narrow p1" "narrow p2" using assms narrow_drop by (simp_all add: p_def p1_def p2_def)
  show ?thesis
  proof (cases "5 < length fl")
    case True
    then show ?thesis by (simp add: slow_scan_def p_def fl_def)
  next
    case False
    define pt where "pt = (if at p2 0 = chr CHR ''.'' then chr CHR ''.'' # takeWhile is_digit (drop 1 p2) else [])"
    define pr where "pr = (if at p2 0 = chr CHR ''.'' then int (dec_value (takeWhile is_digit (drop 1 p2))) else - 1)"
    define p3 where "p3 = (if at p2 0 = chr CHR ''.'' then drop (length (takeWhile is_digit (drop 1 p2))) (drop 1 p2) else p2)"
    obtain zt sm p4 where z: "scan_size p3 = (zt, sm, p4)" using prod_cases3 by blast
    let ?y = "pt @ zt @ [at p4 0]"
    let ?sp = "\<lparr>fmtBuff = PERCENT # fl @ wt @ ?y, cOp = at p4 0, sizeModifier = sm, specifierLength = length f - length p4 + 1\<rparr>"
    have run: "slow_scan f s = inbounds (length (fmtBuff ?sp) < FMT_BUFFLEN) (Inr (Some (?sp, int (dec_value wt), pr), s))"
    proof -
      have "scan_width p1 s = Inr (Some (wt, int (dec_value wt), p2), s)"
        using scan_width_narrow [OF nar(1)] by (simp add: wt_def p2_def)
      moreover have "scan_precision p2 s = Inr (Some (pt, pr, p3), s)"
        by (simp add: scan_precision_narrow [OF nar(2)] pt_def pr_def p3_def Let_def)
      ultimately show ?thesis
        unfolding slow_scan_def Let_def p_def [symmetric] fl_def [symmetric] p1_def [symmetric] using False z by simp
    qed
    have "length fl \<le> 5" "length wt \<le> 2" "length pt \<le> 3" "length zt \<le> 2"
      using False narrow_digits [OF nar(1)] narrow_digits [OF narrow_drop [OF nar(2), of 1]] scan_size_short [OF z] by (simp_all add: wt_def pt_def)
    then have fits: "length (fmtBuff ?sp) < FMT_BUFFLEN" by (simp add: FMT_BUFFLEN_def)
    have zy: "at (zt @ [at p4 0]) 0 = at p3 0" by (rule scan_size_at [OF z])
    then have y0: "at ?y 0 = at p2 0" by (simp add: at_append pt_def p3_def) (simp add: at_def)
    have d2: "\<not> is_digit (at p2 0)" unfolding p2_def wt_def by (rule run_stops) simp
    have "at (wt @ ?y) 0 = at p1 0"
      using y0 unfolding at_append [of wt] by (cases p1) (auto simp: wt_def p2_def at_def)
    moreover have "\<not> is_flag (at p1 0)" unfolding p1_def fl_def by (rule run_stops) simp
    ultimately have "\<not> is_flag (at (wt @ ?y) 0)" by simp
    note d = directive_parts [OF _ _ this, of fl] 
    have dir: "dWidth (directive_of (fmtBuff ?sp)) = dec_value wt"
      "dPrec (directive_of (fmtBuff ?sp)) = (if at p2 0 = chr CHR ''.'' then Some (dec_value (takeWhile is_digit (tl ?y))) else None)"
      using d d2 y0 by (simp_all add: fl_def wt_def list_all_takeWhile)
    have prec: "takeWhile is_digit (tl ?y) = takeWhile is_digit (drop 1 p2)" if dot: "at p2 0 = chr CHR ''.''"
    proof -
      have "tl ?y = takeWhile is_digit (drop 1 p2) @ (zt @ [at p4 0])" using dot by (simp add: pt_def)
      moreover have "\<not> is_digit (at p3 0)" using run_stops [of is_digit "drop 1 p2"] dot by (simp add: p3_def)
      ultimately show ?thesis using split_run(1) [OF list_all_takeWhile, of is_digit "zt @ [at p4 0]" "drop 1 p2"] zy by simp
    qed
    have "scanned ?sp (int (dec_value wt)) pr"
      unfolding scanned_def Let_def dir
      using prec narrow_le [OF nar(1)] narrow_le [OF narrow_drop [OF nar(2), of 1]] by (simp add: pr_def wt_def)
    with fits show ?thesis by (simp add: run)
  qed
qed

section \<open>The size of the results\<close>

definition precision_of :: "directive \<Rightarrow> nat \<Rightarrow> nat" where
  "precision_of d def = (case dPrec d of None \<Rightarrow> def | Some p \<Rightarrow> p)"

text \<open>What the formatter relies on of the C library, for the conversions whose text the standard leaves open: a result is as long as the field is wide,
  or not longer than its digits, sign, point and exponent, where the digits of a number before the point are bounded by its binary exponent, that of
  a \<open>double\<close> or that of a \<open>long double\<close>. The conversion to \<open>double\<close> rounds: within the range of \<open>double\<close> the exponent does not become
  smaller. Above that range, where the conversion overflows, nothing is said of it.\<close>

definition libc_ok :: "'d libc \<Rightarrow> bool" where
  "libc_ok lc \<longleftrightarrow> (\<forall>fmt x. let d = directive_of fmt in
       (last fmt = chr CHR ''f'' \<longrightarrow>
          length (double_text lc fmt x) \<le> max (dWidth d) (precision_of d 6 + 4 + nat (frexp_exp lc x div 3))
          \<and> length (ldouble_text lc fmt x) \<le> max (dWidth d) (precision_of d 6 + 4 + nat (ldouble_exp lc x div 3)))
       \<and> (last fmt \<in> set (map chr ''eEgG'') \<longrightarrow>
          length (double_text lc fmt x) \<le> max (dWidth d) (precision_of d 6 + 9)
          \<and> length (ldouble_text lc fmt x) \<le> max (dWidth d) (precision_of d 6 + 9)))
     \<and> (\<forall>x. double_range lc x \<longrightarrow> max 0 (ldouble_exp lc x) \<le> max 0 (frexp_exp lc (to_double lc x)))
     \<and> (\<forall>fmt a. length (pointer_text lc fmt a) \<le> max (dWidth (directive_of fmt)) (max (precision_of (directive_of fmt) 0) 46))"

text \<open>The arguments for which the formatter is safe: no null string, and no \<open>long double\<close> above the range of \<open>double\<close>.\<close>

definition arg_ok :: "'d libc \<Rightarrow> 'd varg \<Rightarrow> bool" where
  "arg_ok lc a = (case a of VStr x \<Rightarrow> x \<noteq> None | VLDouble x \<Rightarrow> double_range lc x | _ \<Rightarrow> True)"

lemma length_field: "length (field d z sg body) = max (dWidth d) (length sg + length body)"
  by (auto simp: field_def Let_def max_def)

lemma length_int_digits: "2 \<le> b \<Longrightarrow> 0 < k \<Longrightarrow> n < b ^ k \<Longrightarrow> length (int_digits d b up n) \<le> max (precision_of d 0) k"
  using length_digits [of b k n up] by (auto simp: int_digits_def precision_of_def Let_def split: option.splits)

lemma length_signed:
  "\<bar>v\<bar> < 2 ^ 64 \<Longrightarrow> length (sprintf_signed fmt v) \<le> max (dWidth (directive_of fmt)) (max (precision_of (directive_of fmt) 0) 46 + 1)"
proof -
  assume v: "\<bar>v\<bar> < 2 ^ 64"
  let ?d = "directive_of fmt" and ?sg = "if v < 0 then [chr CHR ''-''] else if dPlus (directive_of fmt) then [chr CHR ''+''] else
    if dSpace (directive_of fmt) then [chr CHR '' ''] else []"
  have "length (int_digits ?d 10 False (nat \<bar>v\<bar>)) \<le> max (precision_of ?d 0) 46"
    by (rule length_int_digits) (use v in \<open>simp_all add: nat_less_iff\<close>)
  moreover have "length ?sg \<le> 1" by simp
  ultimately show ?thesis unfolding sprintf_signed_def Let_def length_field
    by (intro max.mono order_refl) linarith
qed

lemma length_unsigned:
  "v < 2 ^ 64 \<Longrightarrow> length (sprintf_unsigned fmt op v) \<le> max (dWidth (directive_of fmt)) (max (precision_of (directive_of fmt) 0) 46 + 2)"
proof -
  assume v: "v < 2 ^ 64"
  let ?d = "directive_of fmt"
  define m where "m = max (precision_of ?d 0) 46"
  have digs: "length (int_digits ?d b up v) \<le> m" if "2 \<le> b" "(2::nat) ^ 64 \<le> b ^ 46" for b up
    using that v unfolding m_def by (intro length_int_digits) simp_all
  have fld: "length (field ?d z sg body) \<le> max (dWidth ?d) (Suc (Suc m))" if "length sg + length body \<le> Suc (Suc m)" for z sg body
    using that unfolding length_field by (intro max.mono order_refl)
  have ds: "length (int_digits ?d 8 False v) \<le> m" "length (int_digits ?d 10 False v) \<le> m" "length (int_digits ?d 16 up v) \<le> m" for up
    by (rule digs; simp)+
  show ?thesis unfolding sprintf_unsigned_def Let_def m_def [symmetric]
    using ds ds [THEN le_SucI, THEN le_SucI] by (auto intro!: fld)
qed

lemma length_string: "length (sprintf_string fmt t) \<le> max (dWidth (directive_of fmt)) (precision_of (directive_of fmt) (length t))"
  "length (sprintf_string fmt t) \<le> max (dWidth (directive_of fmt)) (length t)"
  by (auto simp: sprintf_string_def Let_def length_field precision_of_def split: option.splits)

text \<open>Whether a buffer of \<open>n\<close> bytes is large enough for a specification, its early argument included.\<close>

definition room :: "'d libc \<Rightarrow> spec \<Rightarrow> 'd early \<Rightarrow> nat \<Rightarrow> bool" where
  "room lc sp e n \<longleftrightarrow> (let d = directive_of (fmtBuff sp) in
     last (fmtBuff sp) = cOp sp \<and> dWidth d < n \<and> 10 \<le> n
     \<and> (cOp sp \<in> set (map chr ''diuoxXcp'') \<longrightarrow> max (precision_of d 0) 46 + 10 \<le> n)
     \<and> (cOp sp \<in> set (map chr ''eEgG'') \<longrightarrow> precision_of d 6 + 18 \<le> n)
     \<and> (case e of NoArg \<Rightarrow> True
        | Early_s t \<Rightarrow> length (sprintf_string (fmtBuff sp) t) < n
        | Early_f x \<Rightarrow> precision_of d 6 + 13 + nat (frexp_exp lc x div 3) \<le> n
        | Early_Lf x \<Rightarrow> double_range lc x \<and> precision_of d 6 + 13 + nat (frexp_exp lc (to_double lc x) div 3) \<le> n))"

lemma into_buffer_gives: "length out < n \<Longrightarrow> gives F E (\<lambda>_ s'. s' = s) (into_buffer n out s)"
  by (simp add: into_buffer_def)

lemma sint_bound: "\<bar>sint (v :: 'a::len word)\<bar> < 2 ^ LENGTH('a)"
proof -
  have "- (2 ^ (LENGTH('a) - 1)) \<le> sint v" "sint v < 2 ^ (LENGTH('a) - 1)" using sint_ge [of v] sint_lt [of v] by simp_all
  moreover have "(2::int) ^ (LENGTH('a) - 1) < 2 ^ LENGTH('a)" by (rule power_strict_increasing) simp_all
  ultimately show ?thesis by linarith
qed

lemma signed_arg_gives: "gives {Undefined} (less_args s) (\<lambda>v s'. \<bar>v\<bar> < 2 ^ 64 \<and> less_args s s') (signed_arg sm s)"
proof -
  have "\<bar>sint (v :: 32 word)\<bar> < 2 ^ 64" "\<bar>sint (u :: 64 word)\<bar> < 2 ^ 64" "\<bar>sint (t :: 16 word)\<bar> < 2 ^ 64" for v u t
    using sint_bound [of v] sint_bound [of u] sint_bound [of t] by simp_all
  then show ?thesis
    by (auto simp: signed_arg_def va_int_def va_long_def va_long_long_def less_args_Cons split: list.split varg.split)
qed

lemma unsigned_arg_gives: "gives {Undefined} (less_args s) (\<lambda>v s'. v < 2 ^ 64 \<and> less_args s s') (unsigned_arg sm s)"
proof -
  have "unat (v :: 32 word) < 2 ^ 64" "unat (u :: 64 word) < 2 ^ 64" "unat (t :: 16 word) < 2 ^ 64" for v u t
    using unsigned_less [of v, where ?'a = nat] unsigned_less [of u, where ?'a = nat] unsigned_less [of t, where ?'a = nat] by simp_all
  then show ?thesis
    by (auto simp: unsigned_arg_def va_int_def va_long_def va_long_long_def less_args_Cons split: list.split varg.split)
qed

lemma fits_max: "m \<le> max (a :: nat) b \<Longrightarrow> a < n \<Longrightarrow> b < n \<Longrightarrow> m < n"
  by simp

lemma buffer_gives: "length out < n \<Longrightarrow> less_args s s' \<Longrightarrow> gives F (less_args s) (\<lambda>_. less_args s) (into_buffer n out s')"
  by (simp add: into_buffer_def)

lemma room_facts:
  assumes "room lc sp e n"
  shows "dWidth (directive_of (fmtBuff sp)) < n" "10 \<le> n" "last (fmtBuff sp) = cOp sp"
    "cOp sp \<in> set (map chr ''diuoxXcp'') \<Longrightarrow> max (precision_of (directive_of (fmtBuff sp)) 0) 46 + 10 \<le> n"
    "cOp sp \<in> set (map chr ''eEgG'') \<Longrightarrow> precision_of (directive_of (fmtBuff sp)) 6 + 18 \<le> n"
    "e = Early_s t \<Longrightarrow> length (sprintf_string (fmtBuff sp) t) < n"
    "e = Early_f x \<Longrightarrow> precision_of (directive_of (fmtBuff sp)) 6 + 13 + nat (frexp_exp lc x div 3) \<le> n"
    "e = Early_Lf x \<Longrightarrow> double_range lc x \<and> precision_of (directive_of (fmtBuff sp)) 6 + 13 + nat (frexp_exp lc (to_double lc x) div 3) \<le> n"
proof -
  note r = assms [unfolded room_def Let_def]
  show "dWidth (directive_of (fmtBuff sp)) < n" "10 \<le> n" "last (fmtBuff sp) = cOp sp"
    "cOp sp \<in> set (map chr ''diuoxXcp'') \<Longrightarrow> max (precision_of (directive_of (fmtBuff sp)) 0) 46 + 10 \<le> n"
    "cOp sp \<in> set (map chr ''eEgG'') \<Longrightarrow> precision_of (directive_of (fmtBuff sp)) 6 + 18 \<le> n"
    using r by blast+
  have c: "case e of NoArg \<Rightarrow> True
        | Early_s t \<Rightarrow> length (sprintf_string (fmtBuff sp) t) < n
        | Early_f x \<Rightarrow> precision_of (directive_of (fmtBuff sp)) 6 + 13 + nat (frexp_exp lc x div 3) \<le> n
        | Early_Lf x \<Rightarrow> double_range lc x \<and> precision_of (directive_of (fmtBuff sp)) 6 + 13 + nat (frexp_exp lc (to_double lc x) div 3) \<le> n"
    using r by blast
  show "length (sprintf_string (fmtBuff sp) t) < n" if "e = Early_s t" using c unfolding that by simp
  show "precision_of (directive_of (fmtBuff sp)) 6 + 13 + nat (frexp_exp lc x div 3) \<le> n" if "e = Early_f x" using c unfolding that by simp
  show "double_range lc x \<and> precision_of (directive_of (fmtBuff sp)) 6 + 13 + nat (frexp_exp lc (to_double lc x) div 3) \<le> n" if "e = Early_Lf x" using c unfolding that by simp
qed

lemma int_op: "cOp sp = chr CHR ''d'' \<or> cOp sp = chr CHR ''i'' \<Longrightarrow> cOp sp \<in> set (map chr ''diuoxXcp'')"
    "cOp sp \<in> set (map chr ''uoxX'') \<Longrightarrow> cOp sp \<in> set (map chr ''diuoxXcp'')" "cOp sp = chr CHR ''p'' \<Longrightarrow> cOp sp \<in> set (map chr ''diuoxXcp'')"
  by (simp, blast)+ simp

lemma perform_signed:
  assumes "room lc sp e n" "cOp sp = chr CHR ''d'' \<or> cOp sp = chr CHR ''i''"
  shows "gives {Undefined} (less_args s) (\<lambda>_. less_args s)
    (bindg (signed_arg (sizeModifier sp) s) (\<lambda>v s. into_buffer n (sprintf_signed (fmtBuff sp) v) s))"
proof (rule gives_bindg [OF signed_arg_gives])
  fix v :: int and s' assume v: "\<bar>v\<bar> < 2 ^ 64 \<and> less_args s s'"
  have "dWidth (directive_of (fmtBuff sp)) < n" "max (precision_of (directive_of (fmtBuff sp)) 0) 46 + 1 < n"
    using room_facts(1,4) [OF assms(1)] int_op(1) [OF assms(2)] by simp_all
  then have "length (sprintf_signed (fmtBuff sp) v) < n" using fits_max [OF length_signed] v by blast
  then show "gives {Undefined} (less_args s) (\<lambda>_. less_args s) (into_buffer n (sprintf_signed (fmtBuff sp) v) s')"
    using v by (intro buffer_gives) simp_all
qed

lemma perform_unsigned:
  assumes "room lc sp e n" "cOp sp \<in> set (map chr ''uoxX'')"
  shows "gives {Undefined} (less_args s) (\<lambda>_. less_args s)
    (bindg (unsigned_arg (sizeModifier sp) s) (\<lambda>v s. into_buffer n (sprintf_unsigned (fmtBuff sp) (cOp sp) v) s))"
proof (rule gives_bindg [OF unsigned_arg_gives])
  fix v :: nat and s' assume v: "v < 2 ^ 64 \<and> less_args s s'"
  have "dWidth (directive_of (fmtBuff sp)) < n" "max (precision_of (directive_of (fmtBuff sp)) 0) 46 + 2 < n"
    using room_facts(1,4) [OF assms(1)] int_op(2) [OF assms(2)] by linarith+
  then have "length (sprintf_unsigned (fmtBuff sp) (cOp sp) v) < n" using fits_max [OF length_unsigned] v by blast
  then show "gives {Undefined} (less_args s) (\<lambda>_. less_args s) (into_buffer n (sprintf_unsigned (fmtBuff sp) (cOp sp) v) s')"
    using v by (intro buffer_gives) simp_all
qed

lemma perform_char:
  assumes "room lc sp e n"
  shows "gives {Undefined} (less_args s) (\<lambda>_. less_args s) (bindg (va_int s) (\<lambda>v s. into_buffer n (sprintf_char (fmtBuff sp) v) s))"
proof (rule gives_bindg [OF va_int_gives])
  fix v s' assume "less_args s s'"
  moreover have "length (sprintf_char (fmtBuff sp) v) < n" using room_facts(1,2) [OF assms] by (simp add: sprintf_char_def length_field)
  ultimately show "gives {Undefined} (less_args s) (\<lambda>_. less_args s) (into_buffer n (sprintf_char (fmtBuff sp) v) s')"
    by (intro buffer_gives)
qed

lemma va_pointer_gives: "gives {Undefined} (less_args s) (\<lambda>_. less_args s) (va_pointer s)"
  by (auto simp: va_pointer_def less_args_Cons split: list.split varg.split)

lemma va_double_gives: "gives {Undefined} (less_args s) (\<lambda>_. less_args s) (va_double s)"
  by (auto simp: va_double_def less_args_Cons split: list.split varg.split)

lemma va_ldouble_gives: "gives {Undefined} (less_args s) (\<lambda>_. less_args s) (va_ldouble s)"
  by (auto simp: va_ldouble_def less_args_Cons split: list.split varg.split)

lemma perform_pointer:
  assumes "room lc sp e n" "libc_ok lc" "cOp sp = chr CHR ''p''"
  shows "gives {Undefined} (less_args s) (\<lambda>_. less_args s) (bindg (va_pointer s) (\<lambda>a s. into_buffer n (pointer_text lc (fmtBuff sp) a) s))"
proof (rule gives_bindg [OF va_pointer_gives])
  fix a s' assume "less_args s s'"
  moreover have "dWidth (directive_of (fmtBuff sp)) < n" "max (precision_of (directive_of (fmtBuff sp)) 0) 46 < n"
    using room_facts(1,4) [OF assms(1)] int_op(3) [OF assms(3)] by linarith+
  moreover have "length (pointer_text lc (fmtBuff sp) a) \<le> max (dWidth (directive_of (fmtBuff sp))) (max (precision_of (directive_of (fmtBuff sp)) 0) 46)"
    using assms(2) unfolding libc_ok_def by blast
  ultimately have "less_args s s'" "length (pointer_text lc (fmtBuff sp) a) < n" using fits_max by blast+
  then show "gives {Undefined} (less_args s) (\<lambda>_. less_args s) (into_buffer n (pointer_text lc (fmtBuff sp) a) s')"
    by (intro buffer_gives)
qed

lemma store_count_gives: "gives {Undefined} (less_args s) (\<lambda>_. less_args s) (store_count sm s)"
  unfolding store_count_def by (intro gives_if gives_bindg [OF va_pointer_gives]) simp_all

lemma float_text:
  assumes "room lc sp e n" "libc_ok lc" "cOp sp \<in> set (map chr ''eEgG'')"
  shows "length (double_text lc (fmtBuff sp) x) < n" "length (ldouble_text lc (fmtBuff sp) x) < n"
proof -
  let ?d = "directive_of (fmtBuff sp)"
  have "dWidth ?d < n" "precision_of ?d 6 + 9 < n" using room_facts(1,5) [OF assms(1)] assms(3) by linarith+
  moreover have "last (fmtBuff sp) \<in> set (map chr ''eEgG'')" using room_facts(3) [OF assms(1)] assms(3) by (simp only:)
  moreover from this have "length (double_text lc (fmtBuff sp) x) \<le> max (dWidth ?d) (precision_of ?d 6 + 9)"
     "length (ldouble_text lc (fmtBuff sp) x) \<le> max (dWidth ?d) (precision_of ?d 6 + 9)"
    using assms(2) unfolding libc_ok_def Let_def by blast+
  ultimately show "length (double_text lc (fmtBuff sp) x) < n" "length (ldouble_text lc (fmtBuff sp) x) < n"
    using fits_max by blast+
qed

lemma perform_float:
  assumes "room lc sp e n" "libc_ok lc" "cOp sp \<in> set (map chr ''eEgG'')"
  shows "gives {Undefined} (less_args s) (\<lambda>_. less_args s) (float_conv lc sp n s)"
  unfolding float_conv_def
  by (intro gives_if gives_bindg [OF va_double_gives] gives_bindg [OF va_ldouble_gives] buffer_gives float_text [OF assms]) simp_all

lemma fixed_text:
  assumes "room lc sp e n" "libc_ok lc" "cOp sp = chr CHR ''f''"
  shows "e = Early_f x \<Longrightarrow> length (double_text lc (fmtBuff sp) x) < n" "e = Early_Lf x \<Longrightarrow> length (ldouble_text lc (fmtBuff sp) x) < n"
proof -
  let ?d = "directive_of (fmtBuff sp)"
  have "last (fmtBuff sp) = chr CHR ''f''" and w: "dWidth ?d < n" using room_facts(1,3) [OF assms(1)] assms(3) by (simp_all only:)
  then have l: "length (double_text lc (fmtBuff sp) x) \<le> max (dWidth ?d) (precision_of ?d 6 + 4 + nat (frexp_exp lc x div 3))"
     "length (ldouble_text lc (fmtBuff sp) x) \<le> max (dWidth ?d) (precision_of ?d 6 + 4 + nat (ldouble_exp lc x div 3))"
    using assms(2) unfolding libc_ok_def Let_def by blast+
  show "length (double_text lc (fmtBuff sp) x) < n" if e: "e = Early_f x"
  proof (rule fits_max [OF l(1) w])
    show "precision_of ?d 6 + 4 + nat (frexp_exp lc x div 3) < n" using room_facts(7) [OF assms(1) e] by linarith
  qed
  show "length (ldouble_text lc (fmtBuff sp) x) < n" if e: "e = Early_Lf x"
  proof (rule fits_max [OF l(2) w])
    have r: "double_range lc x" "precision_of ?d 6 + 13 + nat (frexp_exp lc (to_double lc x) div 3) \<le> n"
      using room_facts(8) [OF assms(1) e] by simp_all
    moreover have "max 0 (ldouble_exp lc x) \<le> max 0 (frexp_exp lc (to_double lc x))" using assms(2) r(1) unfolding libc_ok_def by blast
    then have "nat (ldouble_exp lc x div 3) \<le> nat (frexp_exp lc (to_double lc x) div 3)" by (simp add: max_def split: if_splits)
    ultimately show "precision_of ?d 6 + 4 + nat (ldouble_exp lc x div 3) < n" by linarith
  qed
qed

lemma perform_gives:
  assumes "cOp sp \<in> set (map chr ''diuoxXcpeEgG'') \<or> \<not> fast \<Longrightarrow> room lc sp e n" "libc_ok lc" "list_all (arg_ok lc) (pArgs s)"
  shows "gives {Undefined} (less_args s) (\<lambda>_. less_args s) (perform lc fast sp e n s)"
proof -
  have str: "gives {Undefined} (less_args s) (\<lambda>_. less_args s)
      (bindg (va_string s) (\<lambda>x s. case x of None \<Rightarrow> Inl OutOfBounds | Some bs \<Rightarrow> Inr (Some (Some (c_str bs)), s)))"
    using assms(3) by (auto simp: va_string_def arg_ok_def less_args_Cons split: list.split varg.split)
  have slow_s: "gives {Undefined} (less_args s) (\<lambda>_. less_args s)
      (case e of Early_s str \<Rightarrow> into_buffer n (sprintf_string (fmtBuff sp) str) s | _ \<Rightarrow> Inl Undefined)" if "\<not> fast"
    using room_facts(6) [OF assms(1)] that by (cases e) (auto intro!: buffer_gives)
  have slow_f: "gives {Undefined} (less_args s) (\<lambda>_. less_args s)
      (case e of Early_f x \<Rightarrow> into_buffer n (double_text lc (fmtBuff sp) x) s
       | Early_Lf x \<Rightarrow> into_buffer n (ldouble_text lc (fmtBuff sp) x) s | _ \<Rightarrow> Inl Undefined)" if "cOp sp = chr CHR ''f''" "\<not> fast"
    using fixed_text [OF assms(1,2) that(1)] that(2) by (cases e) (auto intro!: buffer_gives)
  show ?thesis unfolding perform_def Let_def
    by (intro gives_if perform_signed [OF assms(1)] perform_unsigned [OF assms(1)] perform_char [OF assms(1)] str slow_s slow_f
        perform_pointer [OF assms(1,2)] store_count_gives perform_float [OF assms(1,2)]) (simp; blast)+
qed

section \<open>The buffers are large enough\<close>

lemma take_buffer_gives:
  "gives {} E (\<lambda>n s'. int PRINTF_BUFFLEN \<le> int n \<and> reqd \<le> int n \<and> less_args s s') (take_buffer True reqd s)"
  by (cases "pAux s") (auto simp: take_buffer_def PRINTF_BUFFLEN_def)

text \<open>What the second \<open>switch\<close> promises of a buffer of ten more bytes than it asks for.\<close>

lemma va_string_gives: "gives {Undefined} (less_args s) (\<lambda>_. less_args s) (va_string s)"
  by (auto simp: va_string_def less_args_Cons split: list.split varg.split)

lemma scannedD:
  assumes "scanned sp w pr"
  shows "int (dWidth (directive_of (fmtBuff sp))) = w" "w \<le> 99" "- 1 \<le> pr" "pr \<le> 99" "last (fmtBuff sp) = cOp sp"
    "int (precision_of (directive_of (fmtBuff sp)) d) = (if pr = - 1 then int d else pr)"
  using assms by (auto simp: scanned_def Let_def precision_of_def)

lemma length_sprintf_string:
  assumes "scanned sp w pr"
  shows "int (length (sprintf_string (fmtBuff sp) t)) \<le> max w (if pr = - 1 then int (length t) else min pr (int (length t)))"
proof -
  note d = scannedD [OF assms]
  have "length (sprintf_string (fmtBuff sp) t) \<le> max (dWidth (directive_of (fmtBuff sp))) (precision_of (directive_of (fmtBuff sp)) (length t))"
    "length (sprintf_string (fmtBuff sp) t) \<le> max (dWidth (directive_of (fmtBuff sp))) (length t)" by (rule length_string)+
  then show ?thesis using d(1) d(6) [of "length t"] by (auto simp: max_def min_def split: if_splits)
qed

lemma room_intro:
  assumes sc: "scanned sp w pr" and n: "100 \<le> n"
    and i: "cOp sp \<in> set (map chr ''diuoxXcp'') \<Longrightarrow> max pr 46 + 10 \<le> int n"
    and g: "cOp sp \<in> set (map chr ''eEgG'') \<Longrightarrow> (if pr = - 1 then 6 else pr) + 18 \<le> int n"
    and e: "\<And>t. e = Early_s t \<Longrightarrow> (if pr = - 1 then int (length t) else min pr (int (length t))) + 10 \<le> int n"
      "\<And>x. e = Early_f x \<Longrightarrow> (if pr = - 1 then 6 else pr) + 13 + max 0 (frexp_exp lc x div 3) \<le> int n"
      "\<And>x. e = Early_Lf x \<Longrightarrow> double_range lc x \<and> (if pr = - 1 then 6 else pr) + 13 + max 0 (frexp_exp lc (to_double lc x) div 3) \<le> int n"
  shows "room lc sp e n"
proof -
  note d = scannedD [OF sc]
  have w: "dWidth (directive_of (fmtBuff sp)) < n" using d(1,2) n by linarith
  have 1: "max (precision_of (directive_of (fmtBuff sp)) 0) 46 + 10 \<le> n" if "cOp sp \<in> set (map chr ''diuoxXcp'')"
    using i [OF that] d(3) d(6) [of 0] by (auto simp: max_def split: if_splits)
  have 2: "precision_of (directive_of (fmtBuff sp)) 6 + 18 \<le> n" if "cOp sp \<in> set (map chr ''eEgG'')"
    using g [OF that] d(6) [of 6] by (auto split: if_splits)
  have 3: "length (sprintf_string (fmtBuff sp) t) < n" if "e = Early_s t" for t
    using length_sprintf_string [OF sc, of t] e(1) [OF that] d(2) n by (auto simp: max_def split: if_splits)
  have 4: "precision_of (directive_of (fmtBuff sp)) 6 + 13 + nat (frexp_exp lc x div 3) \<le> n" if "e = Early_f x" for x
    using e(2) [OF that] d(6) [of 6] by (auto simp: max_def split: if_splits)
  have 5: "double_range lc x \<and> precision_of (directive_of (fmtBuff sp)) 6 + 13 + nat (frexp_exp lc (to_double lc x) div 3) \<le> n" if "e = Early_Lf x" for x
    using e(3) [OF that] d(6) [of 6] by (auto simp: max_def split: if_splits)
  have "case e of NoArg \<Rightarrow> True
        | Early_s t \<Rightarrow> length (sprintf_string (fmtBuff sp) t) < n
        | Early_f x \<Rightarrow> precision_of (directive_of (fmtBuff sp)) 6 + 13 + nat (frexp_exp lc x div 3) \<le> n
        | Early_Lf x \<Rightarrow> double_range lc x \<and> precision_of (directive_of (fmtBuff sp)) 6 + 13 + nat (frexp_exp lc (to_double lc x) div 3) \<le> n"
    using 3 4 5 by (cases e) simp_all
  moreover have "10 \<le> n" using n by simp
  ultimately show ?thesis unfolding room_def Let_def using w d(5) 1 2 by blast
qed

lemma buff_reqd_gives:
  assumes "scanned sp w pr" "list_all (arg_ok lc) (pArgs s)"
  shows "gives {Undefined} (less_args s) (\<lambda>(reqd, e) s'. less_args s s' \<and> (\<forall>n. 100 \<le> n \<longrightarrow> reqd + 10 \<le> int n \<longrightarrow> room lc sp e n))
    (buff_reqd lc sp pr s)"
proof -
  have sets: "chr CHR ''s'' \<notin> set (map chr ''diuoxXcp'')" "chr CHR ''s'' \<notin> set (map chr ''eEgG'')"
    "chr CHR ''f'' \<notin> set (map chr ''diuoxXcp'')" "chr CHR ''f'' \<notin> set (map chr ''eEgG'')"
    "set (map chr ''eEgG'') \<inter> set (map chr ''diuoxXcp'') = {}" by simp_all
  have ld: "gives {Undefined} (less_args s) (\<lambda>x s'. double_range lc x \<and> less_args s s') (va_ldouble s)"
    using assms(2) by (auto simp: va_ldouble_def arg_ok_def less_args_Cons split: list.split varg.split)
  show ?thesis unfolding buff_reqd_def Let_def
  proof (intro gives_if gives_bindg [OF va_string_gives] gives_bindg [OF va_double_gives] gives_bindg [OF ld])
    assume "cOp sp \<in> set (map chr ''diuoxXcp'')"
    then show "gives {Undefined} (less_args s) (\<lambda>(reqd, e) s'. less_args s s' \<and> (\<forall>n. 100 \<le> n \<longrightarrow> reqd + 10 \<le> int n \<longrightarrow> room lc sp e n))
       (Inr (Some (max pr 46, NoArg), s))"
      using sets(5) by (auto intro!: room_intro [OF assms(1)] simp del: set_map list.map list.set)
  qed (use sets in \<open>auto intro!: room_intro [OF assms(1)] simp del: set_map list.map list.set\<close>)
qed

lemma args_left: "list_all (arg_ok lc) (pArgs s) \<Longrightarrow> less_args s s' \<Longrightarrow> list_all (arg_ok lc) (pArgs s')"
  by (auto simp: less_args_def)

lemma slow_path_gives:
  assumes "narrow f" "libc_ok lc" "list_all (arg_ok lc) (pArgs s)"
  shows "gives {Undefined} (less_args s) (\<lambda>_. less_args s) (slow_path lc True f s)"
  unfolding slow_path_def
proof (rule gives_seq [OF slow_scan_narrow [OF assms(1)]], simp, simp, clarify)
  fix sp w pr assume sc: "scanned sp w pr"
  show "gives {Undefined} (less_args s) (\<lambda>_. less_args s) (bindg (buff_reqd lc sp pr s) (\<lambda>(reqd, early) s.
     bindg (take_buffer True (max (reqd + 10) w) s) (\<lambda>buffLen s. bindg (perform lc False sp early buffLen s) (\<lambda>out s.
       case out of None \<Rightarrow> error_return s | Some bs \<Rightarrow> Inr (Some (bs, specifierLength sp), s)))))"
  proof (rule gives_seq [OF buff_reqd_gives [OF sc assms(3)]], simp, assumption, clarify)
    fix reqd e s2 assume e: "less_args s s2" "\<forall>n. 100 \<le> n \<longrightarrow> reqd + 10 \<le> int n \<longrightarrow> room lc sp e n"
    show "gives {Undefined} (less_args s) (\<lambda>_. less_args s) (bindg (take_buffer True (max (reqd + 10) w) s2) (\<lambda>buffLen s.
        bindg (perform lc False sp e buffLen s) (\<lambda>out s.
          case out of None \<Rightarrow> error_return s | Some bs \<Rightarrow> Inr (Some (bs, specifierLength sp), s))))"
    proof (rule gives_seq [OF take_buffer_gives [where E = "\<lambda>_. False"]], simp, simp, clarify)
      fix n s3 assume n: "int PRINTF_BUFFLEN \<le> int n" "max (reqd + 10) w \<le> int n" "less_args s2 s3"
      then have r: "room lc sp e n" using e(2) by (simp add: PRINTF_BUFFLEN_def)
      have l: "less_args s s3" using e(1) n(3) by (rule less_args_trans)
      show "gives {Undefined} (less_args s) (\<lambda>_. less_args s) (bindg (perform lc False sp e n s3) (\<lambda>out s.
          case out of None \<Rightarrow> error_return s | Some bs \<Rightarrow> Inr (Some (bs, specifierLength sp), s)))"
        by (rule gives_seq [OF perform_gives [OF r assms(2) args_left [OF assms(3) l]]])
          (auto intro: less_args_trans [OF l] split: option.split)
    qed
  qed
qed

text \<open>The fast path has neither width nor precision.\<close>

lemma fast_room: "cOp (fast_scan f) \<in> set (map chr ''diuoxXcpeEgG'') \<Longrightarrow> room lc (fast_scan f) NoArg PRINTF_BUFFLEN"
proof -
  assume op: "cOp (fast_scan f) \<in> set (map chr ''diuoxXcpeEgG'')"
  define zt where "zt = (if at f 1 = chr CHR ''l'' \<and> at f 2 = chr CHR ''l'' then [chr CHR ''l'', chr CHR ''l'']
    else if at f 1 \<in> set (map chr ''lLh'') then [at f 1] else [])"
  have zt: "fmtBuff (fast_scan f) = PERCENT # [] @ [] @ (zt @ [cOp (fast_scan f)])" by (simp add: zt_def fast_scan_def del: chars)
  have size: "zt = [] \<or> hd zt \<in> set (map chr ''lLh'')" by (simp add: zt_def)
  let ?y = "zt @ [cOp (fast_scan f)]"
  have "at ?y 0 \<in> set (map chr ''diuoxXcpeEgGlLh'')" using op size by (cases zt) (auto simp: at_def)
  then have y: "\<not> is_flag (at ?y 0)" "\<not> is_digit (at ?y 0)" "at ?y 0 \<noteq> chr CHR ''.''"
    by (auto simp: is_flag_def is_digit_def)
  then have "dWidth (directive_of (fmtBuff (fast_scan f))) = 0" "dPrec (directive_of (fmtBuff (fast_scan f))) = None"
    using directive_parts [of "[]" "[]" ?y] zt by (simp_all add: dec_value_def)
  moreover have "last (fmtBuff (fast_scan f)) = cOp (fast_scan f)" using zt by simp
  ultimately show ?thesis by (simp add: room_def precision_of_def PRINTF_BUFFLEN_def)
qed

lemma convert_gives:
  assumes "narrow f" "libc_ok lc" "list_all (arg_ok lc) (pArgs s)"
  shows "gives {Undefined} (less_args s) (\<lambda>_. less_args s) (convert lc True f s)"
proof -
  have "gives {Undefined} (less_args s) (\<lambda>_. less_args s) (perform lc True (fast_scan f) NoArg PRINTF_BUFFLEN s)"
    by (rule perform_gives [OF _ assms(2,3)]) (use fast_room in auto)
  then show ?thesis unfolding convert_def Let_def
  proof (rule gives_seq)
    fix out s1 assume s1: "less_args s s1"
    have "gives {Undefined} (less_args s) (\<lambda>_. less_args s) (slow_path lc True f s1)"
      by (rule gives_mono [OF slow_path_gives [OF assms(1,2) args_left [OF assms(3) s1]]]) (auto intro: less_args_trans [OF s1])
    then show "gives {Undefined} (less_args s) (\<lambda>_. less_args s)
       (case out of None \<Rightarrow> slow_path lc True f s1 | Some bs \<Rightarrow> Inr (Some (bs, specifierLength (fast_scan f)), s1))"
      using s1 by (simp split: option.split)
  qed simp_all
qed

lemma gives_any: "gives UNIV (\<lambda>_. True) (\<lambda>_ _. True) m"
  by (simp add: gives_def split: sum.split option.split)

lemma slow_scan_progress: "gives UNIV (\<lambda>_. True) (\<lambda>(sp, _, _) _. 0 < specifierLength sp) (slow_scan f s)"
  unfolding slow_scan_def Let_def
  by (auto intro!: gives_if gives_seq [OF gives_any] split: prod.split simp: inbounds_def)

lemma convert_progress: "gives UNIV (\<lambda>_. True) (\<lambda>(_, n) _. 0 < n) (convert lc alloc f s)"
proof -
  have slow: "gives UNIV (\<lambda>_. True) (\<lambda>(_, n) _. 0 < n) (slow_path lc alloc f s)" for s
    unfolding slow_path_def
    by (rule gives_seq [OF slow_scan_progress], simp, simp, clarify, rule gives_seq [OF gives_any], simp, simp, clarify,
        rule gives_seq [OF gives_any], simp, simp, rule gives_seq [OF gives_any]) (auto split: option.split)
  have "0 < specifierLength (fast_scan f)" by (simp add: fast_scan_def)
  then show ?thesis unfolding convert_def Let_def
    by (intro gives_seq [OF gives_any]) (auto split: option.split intro: slow)
qed

lemma gives_conj: "gives F E P m \<Longrightarrow> gives UNIV (\<lambda>_. True) Q m \<Longrightarrow> gives F E (\<lambda>y s. P y s \<and> Q y s) m"
  by (auto simp: gives_def split: sum.splits option.splits)

end
