(* ===== verification/Fcgi_Printf_Correct.thy ===== *)
theory Fcgi_Printf_Correct
  imports Fcgi_Printf_Bounds Fcgi_Exchange
begin

text \<open>
  Correctness of \<open>FCGX_VFPrintF\<close>: what plain conversions print, that formats with small fields run without overflow, and that a
  wide field overflows the buffer.
\<close>

section \<open>Plain conversions\<close>

text \<open>A format given by its parts: text, and conversions without flags, width and precision, with their arguments and what they print.\<close>

datatype item = Lit "byte list" | Dec "32 word" | LongDec "64 word" | Unsig "32 word" | Hex "32 word" | Text "byte list" | Chr byte | Percent

fun item_fmt :: "item \<Rightarrow> byte list" where
  "item_fmt (Lit bs) = bs"
| "item_fmt (Dec v) = PERCENT # bytes ''d''"
| "item_fmt (LongDec v) = PERCENT # bytes ''ld''"
| "item_fmt (Unsig v) = PERCENT # bytes ''u''"
| "item_fmt (Hex v) = PERCENT # bytes ''x''"
| "item_fmt (Text bs) = PERCENT # bytes ''s''"
| "item_fmt (Chr b) = PERCENT # bytes ''c''"
| "item_fmt Percent = [PERCENT, PERCENT]"

fun item_args :: "item \<Rightarrow> 'd varg list" where
  "item_args (Lit bs) = []"
| "item_args (Dec v) = [VInt v]"
| "item_args (LongDec v) = [VLong v]"
| "item_args (Unsig v) = [VInt v]"
| "item_args (Hex v) = [VInt v]"
| "item_args (Text bs) = [VStr (Some bs)]"
| "item_args (Chr b) = [VInt (ucast b)]"
| "item_args Percent = []"

fun item_out :: "item \<Rightarrow> byte list" where
  "item_out (Lit bs) = bs"
| "item_out (Dec v) = dec_text (sint v)"
| "item_out (LongDec v) = dec_text (sint v)"
| "item_out (Unsig v) = digits 10 False (unat v)"
| "item_out (Hex v) = digits 16 False (unat v)"
| "item_out (Text bs) = bs"
| "item_out (Chr b) = [b]"
| "item_out Percent = [PERCENT]"

fun item_ok :: "item \<Rightarrow> bool" where
  "item_ok (Lit bs) = (PERCENT \<notin> set bs \<and> 0 \<notin> set bs)"
| "item_ok (Text bs) = (0 \<notin> set bs)"
| "item_ok (Chr b) = (b \<noteq> 0)"
| "item_ok _ = True"

lemma item_fmt_no_nul: "item_ok it \<Longrightarrow> 0 \<notin> set (item_fmt it)"
  by (cases it) (simp_all add: bytes_def PERCENT_def)

definition plain :: directive where
  "plain = \<lparr>dMinus = False, dZero = False, dPlus = False, dSpace = False, dAlt = False, dWidth = 0, dPrec = None\<rparr>"

lemma directive_plain: "c \<in> set (map chr ''lduxsc'') \<Longrightarrow> directive_of (PERCENT # c # cs) = plain"
  by (auto simp: directive_of_def plain_def is_flag_def is_digit_def dec_value_def)

lemma field_plain [simp]: "field plain z sg body = sg @ body"
  by (simp add: field_def plain_def)

lemma int_digits_plain [simp]: "int_digits plain b up n = digits b up n"
  by (simp add: int_digits_def plain_def)

lemma plain_fields [simp]: "dPrec plain = None" "dPlus plain = False" "dSpace plain = False" "dAlt plain = False"
  by (simp_all add: plain_def)

lemma sprintf_signed_plain: "directive_of fmt = plain \<Longrightarrow> sprintf_signed fmt v = dec_text v"
  by (simp add: sprintf_signed_def dec_text_def Let_def)

lemma digits_no_nul: "2 \<le> b \<Longrightarrow> b \<le> 16 \<Longrightarrow> 0 \<notin> set (digits b up n)"
proof (induction n rule: less_induct)
  case (less n)
  have d: "digit up k \<noteq> 0" if "k < 16" for k
  proof -
    have "unat (digit up k) = (if k < 10 then 48 + k else if up then 55 + k else 87 + k)"
      unfolding digit_def unat_of_nat using that by simp
    then show ?thesis by (auto split: if_splits)
  qed
  show ?case
  proof (cases "n < b")
    case True
    then show ?thesis using d [of n] less.prems by (simp add: digits_small)
  next
    case False
    have "n mod b < b" using less.prems by simp
    then have "n mod b < 16" using less.prems by linarith
    moreover have "n div b < n" using False less.prems by simp
    ultimately show ?thesis using less.IH [of "n div b"] less.prems False d [of "n mod b"] by (simp add: digits_step)
  qed
qed

lemma dec_text_no_nul: "0 \<notin> set (dec_text v)"
  using digits_no_nul [of 10] by (simp add: dec_text_def)

lemma into_buffer_plain: "0 \<notin> set out \<Longrightarrow> length out < PRINTF_BUFFLEN \<Longrightarrow> into_buffer PRINTF_BUFFLEN out s = Inr (Some (Some out), s)"
  by (simp add: into_buffer_def c_str_whole)

lemma length_word_text:
  "length (digits 10 False (unat (v :: 32 word))) < PRINTF_BUFFLEN" "length (digits 16 False (unat v)) < PRINTF_BUFFLEN"
  "length (dec_text (sint v)) < PRINTF_BUFFLEN" "length (dec_text (sint (w :: 64 word))) < PRINTF_BUFFLEN"
proof -
  have u: "unat v < 2 ^ 32" using unsigned_less [of v, where ?'a = nat] by simp
  have d: "length (digits b False n) \<le> 64" if "2 \<le> b" "n < 2 ^ 64" for b n
  proof (rule length_digits)
    have "(2::nat) ^ 64 \<le> b ^ 64" using that(1) by (rule power_mono) simp
    then show "n < b ^ 64" using that(2) by simp
  qed (use that in simp_all)
  have "length (dec_text k) < 100" if "\<bar>k\<bar> < 2 ^ 64" for k
    using d [of 10 "nat \<bar>k\<bar>"] that by (cases "k < 0") (simp_all add: dec_text_def nat_less_iff)
  moreover have "\<bar>sint v\<bar> < 2 ^ 64" "\<bar>sint w\<bar> < 2 ^ 64" using sint_bound [of v] sint_bound [of w] by simp_all
  ultimately show "length (dec_text (sint v)) < PRINTF_BUFFLEN" "length (dec_text (sint w)) < PRINTF_BUFFLEN"
    by (simp_all add: PRINTF_BUFFLEN_def)
  have "unat v < 2 ^ 64" using u by simp
  then show "length (digits 10 False (unat v)) < PRINTF_BUFFLEN" "length (digits 16 False (unat v)) < PRINTF_BUFFLEN"
    using d [of 10 "unat v"] d [of 16 "unat v"] by (simp_all add: PRINTF_BUFFLEN_def)
qed

lemma at_Cons [simp]: "at (x # xs) 0 = x" "at (x # xs) (Suc i) = at xs i"
  by (simp_all add: at_def)

lemma uchar_ucast: "uchar (sint (ucast (b :: byte) :: 32 word)) = b"
proof -
  have b: "uint b < 2 ^ 8" using unsigned_less [of b, where ?'a = int] by simp
  have n: "(0 :: int) \<le> uint b" by simp
  have l: "- (2 ^ 31) \<le> uint b" by (rule order_trans [OF _ n]) simp
  have u: "uint (ucast b :: 32 word) = uint b"
    using b n by (simp only: unsigned_ucast_eq take_bit_int_eq_self_iff) simp
  have "sint (ucast b :: 32 word) = signed_take_bit 31 (uint b)" by (simp only: sint_uint u) simp
  also have "\<dots> = uint b" using l less_trans [OF b, of "2 ^ 31"] by (intro signed_take_bit_int_eq_self) simp_all
  finally show ?thesis by (simp add: uchar_def)
qed

lemma fast_scan_plain:
  "c \<notin> set (map chr ''lLh'') \<Longrightarrow> fast_scan (PERCENT # c # rest)
     = \<lparr>fmtBuff = [PERCENT, c], cOp = c, sizeModifier = chr CHR '' '', specifierLength = 2\<rparr>"
  "c \<noteq> chr CHR ''l'' \<Longrightarrow> fast_scan (PERCENT # 0x6c # c # rest)
     = \<lparr>fmtBuff = [PERCENT, chr CHR ''l'', c], cOp = c, sizeModifier = chr CHR ''l'', specifierLength = 3\<rparr>"
  by (auto simp: fast_scan_def numeral_2_eq_2)

lemma percent_op [simp]:
  "PERCENT \<noteq> 100" "PERCENT \<noteq> 105" "PERCENT \<noteq> 117" "PERCENT \<noteq> 111" "PERCENT \<noteq> 120" "PERCENT \<noteq> 88" "PERCENT \<noteq> 99"
  "PERCENT \<noteq> 115" "PERCENT \<noteq> 112" "PERCENT \<noteq> 110" "PERCENT \<noteq> 102" "PERCENT \<noteq> 101" "PERCENT \<noteq> 69" "PERCENT \<noteq> 103"
  "PERCENT \<noteq> 71" "PERCENT \<noteq> 108" "PERCENT \<noteq> 76" "PERCENT \<noteq> 104"
  by (simp_all add: PERCENT_def)

lemma convert_fast: "perform lc True (fast_scan f) NoArg PRINTF_BUFFLEN s = Inr (Some (Some bs), s') \<Longrightarrow>
    convert lc alloc f s = Inr (Some (bs, specifierLength (fast_scan f)), s')"
  by (simp add: convert_def Let_def)

lemma convert_item:
  assumes "item_ok it" "\<nexists>bs. it = Lit bs"
  shows "\<exists>g n. item_fmt it = PERCENT # g \<and> n = length (item_fmt it) \<and> (\<forall>rest u as. pArgs u = item_args it @ as \<longrightarrow>
     convert lc alloc (PERCENT # g @ rest) u = Inr (Some (item_out it, n), u\<lparr>pArgs := as\<rparr>))"
proof (cases it)
  case (Dec v)
  then show ?thesis using length_word_text(3) [of v]
    by (auto simp: bytes_def fast_scan_plain perform_def signed_arg_def va_int_def directive_plain sprintf_signed_plain
        into_buffer_plain dec_text_no_nul intro!: convert_fast [THEN trans])
next
  case (LongDec v)
  then show ?thesis using length_word_text(4) [of v]
    by (auto simp: bytes_def fast_scan_plain perform_def signed_arg_def va_long_def directive_plain sprintf_signed_plain
        into_buffer_plain dec_text_no_nul intro!: convert_fast [THEN trans])
next
  case (Unsig v)
  then show ?thesis using length_word_text(1) [of v]
    by (auto simp: bytes_def fast_scan_plain perform_def unsigned_arg_def va_int_def directive_plain sprintf_unsigned_def
        into_buffer_plain digits_no_nul intro!: convert_fast [THEN trans])
next
  case (Hex v)
  then show ?thesis using length_word_text(2) [of v]
    by (auto simp: bytes_def fast_scan_plain perform_def unsigned_arg_def va_int_def directive_plain sprintf_unsigned_def
        into_buffer_plain digits_no_nul intro!: convert_fast [THEN trans])
next
  case (Text bs)
  then show ?thesis using assms(1)
    by (auto simp: bytes_def fast_scan_plain perform_def va_string_def c_str_whole intro!: convert_fast [THEN trans])
next
  case (Chr b)
  have "length [b] < PRINTF_BUFFLEN" by (simp add: PRINTF_BUFFLEN_def)
  then show ?thesis using assms(1) Chr
    by (auto simp: bytes_def fast_scan_plain perform_def va_int_def directive_plain sprintf_char_def uchar_ucast
        into_buffer_plain intro!: convert_fast [THEN trans])
next
  case Percent
  then show ?thesis
    by (auto simp: fast_scan_plain perform_def intro!: convert_fast [THEN trans])
qed (use assms in simp)

section \<open>The loop over the format, on any sink of bytes\<close>

definition printed :: "(st \<Rightarrow> byte list \<Rightarrow> bool) \<Rightarrow> byte list \<Rightarrow> 'd pf \<Rightarrow> 'd pf \<Rightarrow> bool" where
  "printed took cs s s' \<longleftrightarrow> (\<exists>out. took (pSt s') (cs @ out) \<and> pCount s' = pCount s + int (length out))"

context byte_sink begin

lemma emit_took:
  assumes "took (pSt s) cs"
  obtains t where "emit drain bs s = Inr (Some (), s\<lparr>pSt := t, pCount := pCount s + int (length bs)\<rparr>)" "took t (cs @ bs)"
proof (cases "bs = []")
  case True
  then show ?thesis using assms that [of "pSt s"] by (simp add: emit_def)
next
  case False
  obtain t where "FCGX_PutStr drain bs (pSt s) = Inr (int (length bs), t)" "took t (cs @ bs)"
    using PutStr_took [OF assms] by blast
  then show ?thesis using False that [of t] by (simp add: emit_def Let_def)
qed

lemma loop_gives:
  assumes "narrow f" "length f < fuel" "libc_ok lc" "took (pSt s) cs" "list_all (arg_ok lc) (pArgs s)"
  shows "gives {Undefined} (printed took cs s) (\<lambda>_. printed took cs s) (VFPrintF_loop lc True drain fuel f s)"
  using assms
proof (induction fuel arbitrary: f s cs)
  case (Suc fuel)
  let ?lit = "takeWhile (\<lambda>b. b \<noteq> PERCENT) f" and ?g = "dropWhile (\<lambda>b. b \<noteq> PERCENT) f"
  have g: "narrow ?g" "length ?g \<le> length f"
    using narrow_drop [OF Suc.prems(1)] by (simp_all add: dropWhile_eq_drop length_dropWhile_le)
  obtain t where t: "emit drain ?lit s = Inr (Some (), s\<lparr>pSt := t, pCount := pCount s + int (length ?lit)\<rparr>)" "took t (cs @ ?lit)"
    by (rule emit_took [OF Suc.prems(4)])
  let ?s = "s\<lparr>pSt := t, pCount := pCount s + int (length ?lit)\<rparr>"
  have p: "printed took cs s ?s" using t(2) by (auto simp: printed_def)
  have step: "gives {Undefined} (printed took cs s) (\<lambda>_. printed took cs s)
      (bindg (convert lc True ?g ?s) (\<lambda>(bs, n) s. bindg (emit drain bs s) (\<lambda>_ s. VFPrintF_loop lc True drain fuel (drop n ?g) s)))"
    if ne: "?g \<noteq> []"
  proof (rule gives_seq [OF gives_conj [OF convert_gives [OF g(1) Suc.prems(3)] convert_progress]])
    show "list_all (arg_ok lc) (pArgs ?s)" using Suc.prems(5) by simp
    show "printed took cs s s1" if "less_args ?s s1" for s1 using that p by (simp add: printed_def less_args_def)
    fix y :: "byte list \<times> nat" and s1 assume y: "less_args ?s s1 \<and> (case y of (_, n) \<Rightarrow> \<lambda>_. 0 < n) s1"
    obtain bs n where bn: "y = (bs, n)" "0 < n" using y by (cases y) auto
    have s1: "pSt s1 = t" "pCount s1 = pCount ?s" "list_all (arg_ok lc) (pArgs s1)"
      using y args_left [of lc ?s s1] Suc.prems(5) by (auto simp: less_args_def)
    obtain u where u: "emit drain bs s1 = Inr (Some (), s1\<lparr>pSt := u, pCount := pCount s1 + int (length bs)\<rparr>)" "took u ((cs @ ?lit) @ bs)"
      using emit_took [of s1 "cs @ ?lit"] s1(1) t(2) by auto
    let ?s1 = "s1\<lparr>pSt := u, pCount := pCount s1 + int (length bs)\<rparr>"
    have "length (drop n ?g) < fuel" using bn(2) ne g(2) Suc.prems(2) by (cases ?g) auto
    then have ih: "gives {Undefined} (printed took ((cs @ ?lit) @ bs) ?s1) (\<lambda>_. printed took ((cs @ ?lit) @ bs) ?s1)
        (VFPrintF_loop lc True drain fuel (drop n ?g) ?s1)"
      by (intro Suc.IH narrow_drop [OF g(1)] Suc.prems(3)) (use u(2) s1(3) in simp_all)
    have mono: "printed took cs s s2" if "printed took ((cs @ ?lit) @ bs) ?s1 s2" for s2
      using that s1(2) by (auto simp: printed_def)
    have "gives {Undefined} (printed took cs s) (\<lambda>_. printed took cs s) (VFPrintF_loop lc True drain fuel (drop n ?g) ?s1)"
      by (rule gives_mono [OF ih]) (simp_all add: mono)
    then show "gives {Undefined} (printed took cs s) (\<lambda>_. printed took cs s)
        ((case y of (bs, n) \<Rightarrow> \<lambda>s. bindg (emit drain bs s) (\<lambda>_ s. VFPrintF_loop lc True drain fuel (drop n ?g) s)) s1)"
      by (simp only: bn(1) prod.case u(1) bindg_simps)
  qed simp
  show ?case
  proof (cases "f = []")
    case True
    then show ?thesis using Suc.prems(4) by (auto simp: VFPrintF_loop.simps(2) printed_def intro: exI [of _ "[]"])
  next
    case False
    then show ?thesis using t(1) p step by (simp add: VFPrintF_loop.simps(2) Let_def)
  qed
qed simp

lemma VFPrintF_gives:
  assumes "narrow (c_str f)" "libc_ok lc" "took s cs" "list_all (arg_ok lc) args"
  shows "case FCGX_VFPrintF lc True drain f args s of Inl x \<Rightarrow> x = Undefined
    | Inr (n, _, _, s') \<Rightarrow> \<exists>out. took s' (cs @ out) \<and> (n = - 1 \<or> n = int (length out))"
proof -
  let ?p = "\<lparr>pArgs = args, pStores = [], pAux = None, pCount = 0, pSt = s\<rparr>"
  have "gives {Undefined} (printed took cs ?p) (\<lambda>_. printed took cs ?p) (VFPrintF_loop lc True drain (Suc (length (c_str f))) (c_str f) ?p)"
    by (rule loop_gives) (use assms in simp_all)
  then show ?thesis unfolding FCGX_VFPrintF_def Let_def
    by (auto simp: gives_def printed_def split: sum.splits option.splits)
qed

lemma lits_then:
  assumes "PERCENT \<notin> set lit" "took (pSt s) cs"
  obtains t where "VFPrintF_loop lc alloc drain (Suc fuel) (lit @ PERCENT # f) s
      = bindg (convert lc alloc (PERCENT # f) (s\<lparr>pSt := t, pCount := pCount s + int (length lit)\<rparr>)) (\<lambda>(bs, n) s.
               bindg (emit drain bs s) (\<lambda>_ s. VFPrintF_loop lc alloc drain fuel (drop n (PERCENT # f)) s))" "took t (cs @ lit)"
proof -
  obtain t where t: "emit drain lit s = Inr (Some (), s\<lparr>pSt := t, pCount := pCount s + int (length lit)\<rparr>)" "took t (cs @ lit)"
    by (rule emit_took [OF assms(2)])
  have l: "takeWhile (\<lambda>b. b \<noteq> PERCENT) (lit @ PERCENT # f) = lit" "dropWhile (\<lambda>b. b \<noteq> PERCENT) (lit @ PERCENT # f) = PERCENT # f"
  proof -
    have "\<forall>x \<in> set lit. x \<noteq> PERCENT" using assms(1) by blast
    then show "takeWhile (\<lambda>b. b \<noteq> PERCENT) (lit @ PERCENT # f) = lit" "dropWhile (\<lambda>b. b \<noteq> PERCENT) (lit @ PERCENT # f) = PERCENT # f"
      by (simp_all add: takeWhile_append2 dropWhile_append2)
  qed
  show ?thesis using t by (intro that [of t]) (simp_all only: VFPrintF_loop.simps(2) Let_def l, simp add: t(1))
qed

lemma items_loop:
  assumes "PERCENT \<notin> set lit" "list_all item_ok its" "took (pSt s) cs" "pArgs s = concat (map item_args its) @ as"
    "length (lit @ concat (map item_fmt its)) < fuel"
  shows "\<exists>t. VFPrintF_loop lc alloc drain fuel (lit @ concat (map item_fmt its)) s = Inr (Some (), s\<lparr>pArgs := as,
      pSt := t, pCount := pCount s + int (length (lit @ concat (map item_out its)))\<rparr>)
    \<and> took t (cs @ lit @ concat (map item_out its))"
  using assms
proof (induction its arbitrary: lit s cs fuel)
  case Nil
  then obtain f where fuel: "fuel = Suc f" by (cases fuel) auto
  obtain t where t: "emit drain lit s = Inr (Some (), s\<lparr>pSt := t, pCount := pCount s + int (length lit)\<rparr>)" "took t (cs @ lit)"
    by (rule emit_took [OF Nil.prems(3)])
  have l: "takeWhile (\<lambda>b. b \<noteq> PERCENT) lit = lit" "dropWhile (\<lambda>b. b \<noteq> PERCENT) lit = []"
    using Nil.prems(1) by auto
  show ?case
  proof (cases "lit = []")
    case True
    then show ?thesis using Nil.prems(3,4) by (intro exI [of _ "pSt s"]) (simp add: fuel VFPrintF_loop.simps(2))
  next
    case False
    then show ?thesis using t Nil.prems(4) by (intro exI [of _ t]) (simp add: fuel VFPrintF_loop.simps(2) Let_def l)
  qed
next
  case (Cons it its)
  show ?case
  proof (cases "\<exists>bs. it = Lit bs")
    case True
    then obtain bs where it: "it = Lit bs" by blast
    have "PERCENT \<notin> set (lit @ bs)" using Cons.prems(1,2) it by simp
    from Cons.IH [OF this _ Cons.prems(3), of fuel] show ?thesis using Cons.prems it by simp
  next
    case False
    obtain f where fuel: "fuel = Suc f" using Cons.prems(5) by (cases fuel) auto
    obtain g n where g: "item_fmt it = PERCENT # g" "n = length (item_fmt it)"
      "\<And>rest u as'. pArgs u = item_args it @ as' \<Longrightarrow> convert lc alloc (PERCENT # g @ rest) u = Inr (Some (item_out it, n), u\<lparr>pArgs := as'\<rparr>)"
      using convert_item [of it lc alloc] Cons.prems(2) False by auto
    let ?rest = "concat (map item_fmt its)"
    obtain t where t: "VFPrintF_loop lc alloc drain (Suc f) (lit @ PERCENT # g @ ?rest) s
      = bindg (convert lc alloc (PERCENT # g @ ?rest) (s\<lparr>pSt := t, pCount := pCount s + int (length lit)\<rparr>)) (\<lambda>(bs, n) s.
               bindg (emit drain bs s) (\<lambda>_ s. VFPrintF_loop lc alloc drain f (drop n (PERCENT # g @ ?rest)) s))" "took t (cs @ lit)"
      by (rule lits_then [OF Cons.prems(1,3)])
    let ?s = "s\<lparr>pSt := t, pCount := pCount s + int (length lit)\<rparr>"
    have c: "convert lc alloc (PERCENT # g @ ?rest) ?s = Inr (Some (item_out it, n), ?s\<lparr>pArgs := concat (map item_args its) @ as\<rparr>)"
      by (rule g(3)) (use Cons.prems(4) in simp)
    obtain u where u: "emit drain (item_out it) (?s\<lparr>pArgs := concat (map item_args its) @ as\<rparr>)
        = Inr (Some (), ?s\<lparr>pArgs := concat (map item_args its) @ as, pSt := u, pCount := pCount ?s + int (length (item_out it))\<rparr>)"
      "took u ((cs @ lit) @ item_out it)"
      using emit_took [of "?s\<lparr>pArgs := concat (map item_args its) @ as\<rparr>" "cs @ lit"] t(2) by auto
    have d: "drop n (PERCENT # g @ ?rest) = [] @ ?rest" using g(1,2) by simp
    let ?s2 = "?s\<lparr>pArgs := concat (map item_args its) @ as, pSt := u, pCount := pCount ?s + int (length (item_out it))\<rparr>"
    have "\<exists>v. VFPrintF_loop lc alloc drain f ([] @ ?rest) ?s2 = Inr (Some (), ?s2\<lparr>pArgs := as,
        pSt := v, pCount := pCount ?s2 + int (length ([] @ concat (map item_out its)))\<rparr>)
      \<and> took v (((cs @ lit) @ item_out it) @ [] @ concat (map item_out its))"
      by (rule Cons.IH) (use Cons.prems(2,5) u(2) g(1) fuel in simp_all)
    then obtain v where v: "VFPrintF_loop lc alloc drain f ([] @ ?rest) ?s2 = Inr (Some (), ?s2\<lparr>pArgs := as,
        pSt := v, pCount := pCount ?s2 + int (length ([] @ concat (map item_out its)))\<rparr>)"
      "took v (((cs @ lit) @ item_out it) @ [] @ concat (map item_out its))" by blast
    have "VFPrintF_loop lc alloc drain fuel (lit @ concat (map item_fmt (it # its))) s = VFPrintF_loop lc alloc drain f ([] @ ?rest) ?s2"
      using t(1) c u(1) d g(1) by (simp add: fuel)
    then show ?thesis using v by (intro exI [of _ v]) (simp add: add.assoc)
  qed
qed

lemma VFPrintF_items:
  assumes "list_all item_ok its" "took s cs"
  shows "\<exists>s'. FCGX_VFPrintF lc alloc drain (concat (map item_fmt its)) (concat (map item_args its)) s
      = Inr (int (length (concat (map item_out its))), [], [], s') \<and> took s' (cs @ concat (map item_out its))"
proof -
  have "c_str (concat (map item_fmt its)) = concat (map item_fmt its)"
    using item_fmt_no_nul assms(1) by (intro c_str_whole) (auto simp: list_all_iff)
  then show ?thesis
    using items_loop [of "[]" its "\<lparr>pArgs = concat (map item_args its), pStores = [], pAux = None, pCount = 0, pSt = s\<rparr>" cs "[]"
        "Suc (length (concat (map item_fmt its)))" lc alloc] assms
    by (auto simp: FCGX_VFPrintF_def Let_def)
qed

end

section \<open>The functions\<close>

lemma FPrintF_of: "FCGX_VFPrintF lc alloc drain f args s = Inr (n, as, st, s') \<Longrightarrow> FCGX_FPrintF lc alloc drain f args s = Inr (n, st, s')"
  by (simp add: FCGX_FPrintF_def)

text \<open>A new writer on a connection that takes everything.\<close>

definition sample_writer :: st where
  "sample_writer = \<lparr>strm = fst (NewWriter 64 FCGI_STDOUT (sample_os [])), rqd = sample_req, sys = sample_os []\<rparr>"

lemma sample_writer_took: "took_content sample_writer sample_writer []"
proof -
  obtain t w where t: "NewWriter 64 FCGI_STDOUT (sample_os []) = (t, w)" by fastforce
  from NewWriter_fresh(2) [OF t sample_writable] show ?thesis by (simp add: sample_writer_def t)
qed

text \<open>A C library for formats that do not ask for it.\<close>

definition no_libc :: "unit libc" where
  "no_libc = \<lparr>double_text = (\<lambda>_ _. []), ldouble_text = (\<lambda>_ _. []), pointer_text = (\<lambda>_ _. []), frexp_exp = (\<lambda>_. 0), to_double = id,
     ldouble_exp = (\<lambda>_. 0), double_range = (\<lambda>_. True)\<rparr>"

text \<open>A C library on whole numbers, for examples. A \<open>double\<close> has 53 bits (a conversion cuts off the rest) and ends below \<open>2 ^ 1024\<close>, a \<open>long
  double\<close> ends below \<open>2 ^ 16384\<close>; larger numbers stand for infinity, for which \<open>frexp\<close> stores 0. All conversions but \<open>%f\<close> have an
  exponent of two or more digits.\<close>

definition bit_length :: "nat \<Rightarrow> nat" where
  "bit_length x = (if x = 0 then 0 else length (digits 2 False x))"

definition exponent_of :: "nat \<Rightarrow> nat \<Rightarrow> int" where
  "exponent_of lim x = (if x < lim then int (bit_length x) else 0)"

definition sample_float_text :: "nat \<Rightarrow> byte list \<Rightarrow> nat \<Rightarrow> byte list" where
  "sample_float_text lim fmt x =
     (let d = directive_of fmt; p = precision_of d 6; sign = (if dPlus d then [chr CHR ''+''] else if dSpace d then [chr CHR '' ''] else []);
          fraction = (\<lambda>ds. if p = 0 \<and> \<not> dAlt d then [] else chr CHR ''.'' # take p (ds @ replicate p (chr CHR ''0'')));
          ds = digits 10 False x; ex = digits 10 False (length ds - 1)
      in if lim \<le> x then field d False sign (bytes ''inf'')
         else if last fmt = chr CHR ''f'' then field d True sign (ds @ fraction [])
         else field d True sign (take 1 ds @ fraction (drop 1 ds) @ [chr CHR ''e'', chr CHR ''+''] @ replicate (2 - length ex) (chr CHR ''0'') @ ex))"

definition DOUBLE_LIMIT :: nat where "DOUBLE_LIMIT = 2 ^ 1024"
definition LDOUBLE_LIMIT :: nat where "LDOUBLE_LIMIT = 2 ^ 16384"

text \<open>The 53 leading bits.\<close>

definition cut_bits :: "nat \<Rightarrow> nat" where
  "cut_bits x = x div 2 ^ (bit_length x - 53) * 2 ^ (bit_length x - 53)"

definition sample_libc :: "nat libc" where
  "sample_libc = \<lparr>double_text = sample_float_text DOUBLE_LIMIT, ldouble_text = sample_float_text LDOUBLE_LIMIT,
     pointer_text = (\<lambda>fmt a. field (directive_of fmt) False (bytes ''0x'') (digits 16 False (nat a mod 2 ^ 64))),
     frexp_exp = exponent_of DOUBLE_LIMIT, to_double = (\<lambda>x. if x < DOUBLE_LIMIT then cut_bits x else DOUBLE_LIMIT),
     ldouble_exp = exponent_of LDOUBLE_LIMIT, double_range = (\<lambda>x. x < DOUBLE_LIMIT)\<rparr>"

lemma digits_bound: "2 \<le> b \<Longrightarrow> n < b ^ length (digits b up n)"
proof (induction n rule: less_induct)
  case (less n)
  show ?case
  proof (cases "n < b")
    case False
    then have "n div b < n" using less.prems by (intro div_less_dividend) auto
    then have "n div b < b ^ length (digits b up (n div b))" using less by blast
    then have "n < b * b ^ length (digits b up (n div b))" using less.prems by (simp add: div_less_iff_less_mult mult.commute)
    then show ?thesis using False less.prems by (simp add: digits_step)
  qed (simp add: digits_small)
qed

lemma digits_lower: "2 \<le> b \<Longrightarrow> 0 < n \<Longrightarrow> b ^ (length (digits b up n) - 1) \<le> n"
proof (induction n rule: less_induct)
  case (less n)
  show ?case
  proof (cases "n < b")
    case False
    then have "n div b < n" using less.prems by (intro div_less_dividend) simp_all
    moreover have "0 < n div b" using less.prems False by (simp add: div_greater_zero_iff)
    ultimately have n: "n div b < n" "0 < n div b" by blast+
    then have "b ^ (length (digits b up (n div b)) - 1) \<le> n div b" using less by blast
    then have "b * b ^ (length (digits b up (n div b)) - 1) \<le> b * (n div b)" by (rule mult_le_mono2)
    then have "b * b ^ (length (digits b up (n div b)) - 1) \<le> n" using times_div_less_eq_dividend [of b n] by (rule le_trans)
    moreover have "length (digits b up (n div b)) \<noteq> 0" by simp
    ultimately have "b ^ length (digits b up (n div b)) \<le> n" by (cases "length (digits b up (n div b))") (simp_all only: power_Suc diff_Suc_1)
    then show ?thesis using False less.prems by (simp add: digits_step)
  qed (use less.prems in \<open>simp add: digits_small\<close>)
qed




lemma bit_length_le: "x < 2 ^ k \<Longrightarrow> bit_length x \<le> k"
proof (cases "x = 0")
  case False
  assume "x < 2 ^ k"
  moreover have "2 ^ (length (digits 2 False x) - 1) \<le> x" using digits_lower [of 2 x False] False by simp
  ultimately have "(2 :: nat) ^ (length (digits 2 False x) - 1) < 2 ^ k" by linarith
  then have "length (digits 2 False x) - 1 < k" by (rule power_less_imp_less_exp [rotated]) simp
  then show ?thesis using False by (simp add: bit_length_def)
qed (simp add: bit_length_def)



lemma limits: "DOUBLE_LIMIT \<le> LDOUBLE_LIMIT" "x < LDOUBLE_LIMIT \<Longrightarrow> bit_length x \<le> 16384"
  "16 ^ 200 < DOUBLE_LIMIT" "DOUBLE_LIMIT \<le> 8 ^ 342" "16 ^ 400 < LDOUBLE_LIMIT"
proof -
  have p: "(16 :: nat) ^ k = 2 ^ (4 * k)" "(8 :: nat) ^ k = 2 ^ (3 * k)" for k by (simp_all add: power_mult)
  show "DOUBLE_LIMIT \<le> LDOUBLE_LIMIT" unfolding DOUBLE_LIMIT_def LDOUBLE_LIMIT_def by (rule power_increasing) simp_all
  show "16 ^ 200 < DOUBLE_LIMIT" unfolding DOUBLE_LIMIT_def p by (rule power_strict_increasing) simp_all
  show "DOUBLE_LIMIT \<le> 8 ^ 342" unfolding DOUBLE_LIMIT_def p by (rule power_increasing) simp_all
  show "16 ^ 400 < LDOUBLE_LIMIT" unfolding LDOUBLE_LIMIT_def p by (rule power_strict_increasing) simp_all
  show "x < LDOUBLE_LIMIT \<Longrightarrow> bit_length x \<le> 16384" unfolding LDOUBLE_LIMIT_def by (rule bit_length_le)
qed






lemma least_width_overflow: "slow_scan (bytes ''%-+ #0*.100000lld'') (s\<lparr>pArgs := VInt 0x80000000 # as\<rparr>) = Inl OutOfBounds"
proof -
  have "length (digits 10 False 2147483648) = 10" by (simp add: digits_step digits_small)
  then show ?thesis
    by (simp add: slow_scan_def bytes_def is_flag_def is_digit_def scan_width_def va_int_def scan_precision_def scan_size_def at_def Let_def
        c_abs_def dec_text_def FMT_BUFFLEN_def)
qed

text \<open>C16. \<open>FCGX_FPrintF\<close> on a format made of text and plain conversions, with arguments of their types, writes exactly the text with each
  conversion replaced by its argument, and returns the number of bytes written; no argument is left and nothing overflows.\<close>

theorem FPrintF_prints:
  assumes "list_all item_ok its" "took_content s0 s cs"
  shows "\<exists>s'. FCGX_FPrintF lc alloc EmptyBuffProc (concat (map item_fmt its)) (concat (map item_args its)) s
      = Inr (int (length (concat (map item_out its))), [], s') \<and> took_content s0 s' (cs @ concat (map item_out its))"
  using content_sink.VFPrintF_items [OF assms, of lc alloc] FPrintF_of by blast

theorem FPrintF_prints_witness:
  "\<exists>s'. FCGX_FPrintF no_libc True EmptyBuffProc (bytes ''<%d|%x|%s>%%'') [VInt (- 42), VInt 255, VStr (Some (bytes ''ab''))] sample_writer
      = Inr (12, [], s') \<and> took_content sample_writer s' (bytes ''<-42|ff|ab>%'')"
proof -
  let ?its = "[Lit (bytes ''<''), Dec (- 42), Lit (bytes ''|''), Hex 255, Lit (bytes ''|''), Text (bytes ''ab''), Lit (bytes ''>''), Percent]"
  have "list_all item_ok ?its" by (simp add: bytes_def PERCENT_def)
  from FPrintF_prints [OF this sample_writer_took, of no_libc True] show ?thesis
    by (simp add: bytes_def PERCENT_def dec_text_def digits_step digits_small digit_def)
qed



text \<open>C20. The specification rebuilt in \<open>fmtBuff\<close>, on every format and every argument list, also with \<open>*\<close> and fields of up to six digits:
  the slow scan takes its error return, finds an argument of another type than \<open>int\<close> (not if there are two of type \<open>int\<close>), or leaves a
  specification that fits the 25 bytes with its terminating NUL. The only exception is the field width \<open>INT_MIN\<close> given by \<open>*\<close>: \<open>abs\<close>
  leaves it negative, so that it passes the check against 999999, and its eleven characters do overflow \<open>fmtBuff\<close> after five flags and before a
  precision of six digits.\<close>

theorem slow_scan_fits:
  "(case slow_scan f s of
      Inl x \<Rightarrow> x = Undefined \<and> \<not> two_ints s \<or> x = OutOfBounds \<and> least_width s
    | Inr (None, _) \<Rightarrow> True
    | Inr (Some (sp, _, _), _) \<Rightarrow> length (fmtBuff sp) < FMT_BUFFLEN)
   \<and> slow_scan (bytes ''%-+ #0*.100000lld'') (s\<lparr>pArgs := VInt 0x80000000 # as\<rparr>) = Inl OutOfBounds"
proof
  show "case slow_scan f s of
      Inl x \<Rightarrow> x = Undefined \<and> \<not> two_ints s \<or> x = OutOfBounds \<and> least_width s
    | Inr (None, _) \<Rightarrow> True
    | Inr (Some (sp, _, _), _) \<Rightarrow> length (fmtBuff sp) < FMT_BUFFLEN"
    using slow_scan_bounds [of s f] slow_scan_checked [of f s] slow_scan_ints [of s f]
    by (auto simp: gives_def split: sum.splits option.splits)
qed (rule least_width_overflow)

section \<open>Wide fields\<close>

lemma c_str_star: "c_str (bytes ''%*d'') = bytes ''%*d''"
  by (simp add: bytes_def c_str_def)

lemma leading_digit:
  assumes "0 < n"
  shows "\<exists>k. 0 < k \<and> k < 10 \<and> at (digits 10 up n @ y) 0 = digit up k"
  using assms
proof (induction n arbitrary: y rule: less_induct)
  case (less n)
  show ?case
  proof (cases "n < 10")
    case True
    then show ?thesis using less.prems by (intro exI [of _ n]) (simp add: digits_small)
  next
    case False
    then show ?thesis using less.IH [of "n div 10" "[digit up (n mod 10)] @ y"] by (simp add: digits_step)
  qed
qed

lemma digit_not_flag: "0 < k \<Longrightarrow> k < 10 \<Longrightarrow> \<not> is_flag (digit up k)"
proof -
  assume k: "0 < k" "k < 10"
  then have u: "unat (digit up k) = 48 + k" by (simp add: unat_digit_byte)
  have "digit up k \<noteq> b" if "unat b < 49" for b using u k that by auto
  then show ?thesis by (simp add: is_flag_def)
qed

lemma dec_text_directive:
  assumes "n \<noteq> 0"
  shows "dWidth (directive_of (PERCENT # dec_text n @ [chr CHR ''d''])) = nat \<bar>n\<bar>"
proof -
  let ?fl = "if n < 0 then [chr CHR ''-''] else []"
  obtain k where k: "0 < k" "k < 10" "at (digits 10 False (nat \<bar>n\<bar>) @ [chr CHR ''d'']) 0 = digit False k"
    using leading_digit [of "nat \<bar>n\<bar>"] assms by auto
  have "dWidth (directive_of (PERCENT # ?fl @ digits 10 False (nat \<bar>n\<bar>) @ [chr CHR ''d''])) = dec_value (digits 10 False (nat \<bar>n\<bar>))"
    by (rule directive_parts(1) [OF _ digits_decimal]) (use k digit_not_flag in \<open>auto simp: is_flag_def is_digit_def\<close>)
  then show ?thesis by (simp add: dec_text_def dec_value_digits)
qed

lemma star_slow:
  assumes "pArgs s = VInt w # as" "100 \<le> \<bar>sint w\<bar>" "\<bar>sint w\<bar> \<le> 999999"
  shows "slow_scan (bytes ''%*d'') s = Inr (Some (\<lparr>fmtBuff = PERCENT # dec_text (sint w) @ [chr CHR ''d''], cOp = chr CHR ''d'',
    sizeModifier = chr CHR '' '', specifierLength = 3\<rparr>, sint w, - 1), s\<lparr>pArgs := as\<rparr>)"
proof -
  have w: "\<not> 999999 < c_abs (sint w)" using assms(3) by (auto simp: c_abs_def)
  have "length (dec_text (sint w)) \<le> 7" by (rule length_dec_text(1) [OF assms(3)])
  then have "length (dec_text (sint w)) + 2 < FMT_BUFFLEN" by (simp add: FMT_BUFFLEN_def)
  then show ?thesis using assms w
    by (simp add: slow_scan_def bytes_def is_flag_def is_digit_def scan_width_def va_int_def scan_precision_def scan_size_def at_def)
qed

lemma star_buffer:
  assumes "pAux u = None" "100 \<le> \<bar>w\<bar>"
  obtains n u' where "take_buffer True (max 56 w) u = Inr (Some n, u')" "n \<le> nat \<bar>w\<bar>" "pArgs u' = pArgs u"
proof (cases "max 56 w \<le> int PRINTF_BUFFLEN")
  case True
  then have "take_buffer True (max 56 w) u = Inr (Some PRINTF_BUFFLEN, u)" by (simp add: take_buffer_def)
  then show ?thesis using assms(2) by (intro that) (auto simp: PRINTF_BUFFLEN_def)
next
  case False
  then have "take_buffer True (max 56 w) u = Inr (Some (nat (max 56 w)), u\<lparr>pAux := Some (nat (max 56 w))\<rparr>)"
    using assms(1) by (auto simp: take_buffer_def)
  moreover have "nat (max 56 w) \<le> nat \<bar>w\<bar>" using assms(2) by linarith
  ultimately show ?thesis by (rule that) simp
qed

text \<open>C18. A field width of 100 up to the limit of 999999, given by \<open>*\<close> with either sign, makes \<open>sprintf\<close> write past the buffer: the size
  bound leaves no room for the terminating NUL of a positive width and ignores a negative one, which \<open>sprintf\<close> takes as left adjustment.\<close>

theorem VFPrintF_width_overflow:
  assumes "100 \<le> \<bar>sint w\<bar>" "\<bar>sint w\<bar> \<le> 999999"
  shows "FCGX_VFPrintF lc True drain (bytes ''%*d'') (VInt w # VInt v # as) s = Inl OutOfBounds"
proof -
  let ?p = "\<lparr>pArgs = VInt w # VInt v # as, pStores = [], pAux = None, pCount = 0, pSt = s\<rparr>"
  let ?fmt = "PERCENT # dec_text (sint w) @ [chr CHR ''d'']"
  let ?sp = "\<lparr>fmtBuff = ?fmt, cOp = chr CHR ''d'', sizeModifier = chr CHR '' '', specifierLength = 3\<rparr>"
  have scan: "slow_scan (bytes ''%*d'') ?p = Inr (Some (?sp, sint w, - 1), ?p\<lparr>pArgs := VInt v # as\<rparr>)"
    by (rule star_slow) (use assms in simp_all)
  have reqd: "buff_reqd lc ?sp (- 1) u = Inr (Some (46, NoArg), u)" for u by (simp add: buff_reqd_def)
  obtain n u where buf: "take_buffer True (max 56 (sint w)) (?p\<lparr>pArgs := VInt v # as\<rparr>) = Inr (Some n, u)"
      "n \<le> nat \<bar>sint w\<bar>" "pArgs u = pArgs (?p\<lparr>pArgs := VInt v # as\<rparr>)"
    by (rule star_buffer [of "?p\<lparr>pArgs := VInt v # as\<rparr>", OF _ assms(1)]) simp_all
  have "length (sprintf_signed ?fmt (sint v)) \<ge> nat \<bar>sint w\<bar>"
    using assms(1) by (simp only: sprintf_signed_def Let_def length_field dec_text_directive)
  then have "perform lc False ?sp NoArg n u = Inl OutOfBounds"
    using buf(2,3) by (simp add: perform_def signed_arg_def va_int_def into_buffer_def)
  then have "slow_path lc True (bytes ''%*d'') ?p = Inl OutOfBounds"
    using scan reqd buf by (simp add: slow_path_def)
  moreover have "perform lc True (fast_scan (bytes ''%*d'')) NoArg PRINTF_BUFFLEN ?p = Inr (Some None, ?p)"
    by (simp add: bytes_def fast_scan_def at_def perform_def PERCENT_def)
  ultimately have c: "convert lc True (bytes ''%*d'') ?p = Inl OutOfBounds" by (simp add: convert_def Let_def)
  have f: "takeWhile (\<lambda>b. b \<noteq> PERCENT) (bytes ''%*d'') = []" "dropWhile (\<lambda>b. b \<noteq> PERCENT) (bytes ''%*d'') = bytes ''%*d''"
    "bytes ''%*d'' \<noteq> []"
    by (simp_all add: bytes_def PERCENT_def)
  show ?thesis unfolding FCGX_VFPrintF_def Let_def c_str_star VFPrintF_loop.simps(2)
    by (simp add: f c emit_def)
qed

theorem VFPrintF_width_overflow_witness:
  "FCGX_VFPrintF no_libc True EmptyBuffProc (bytes ''%*d'') [VInt (- 200), VInt 7] sample_writer = Inl OutOfBounds"
  by (rule VFPrintF_width_overflow) simp_all

section \<open>Long doubles\<close>

text \<open>C19. A \<open>long double\<close> printed by \<open>%Lf\<close> in a buffer of the size the program computes, with the exponent \<open>frexp\<close> stores for the value converted to
  \<open>double\<close>: when the text is as long as the buffer, \<open>sprintf\<close> writes past it. This happens above the range of \<open>double\<close>, where \<open>frexp\<close> of the
  infinity the conversion gives says nothing of the value: for \<open>16 ^ 400\<close> the program takes the array of 100 bytes for a text of more than 400.\<close>

theorem VFPrintF_Lf_overflow:
  assumes "max 100 (19 + max 0 (frexp_exp lc (to_double lc x) div 3)) \<le> int (length (ldouble_text lc (bytes ''%Lf'') x))"
  shows "FCGX_VFPrintF lc True drain (bytes ''%Lf'') (VLDouble x # as) s = Inl OutOfBounds"
proof -
  let ?p = "\<lparr>pArgs = VLDouble x # as, pStores = [], pAux = None, pCount = 0, pSt = s\<rparr>" and ?q = "\<lparr>pArgs = as, pStores = [], pAux = None, pCount = 0, pSt = s\<rparr>"
  let ?sp = "\<lparr>fmtBuff = bytes ''%Lf'', cOp = chr CHR ''f'', sizeModifier = chr CHR ''L'', specifierLength = 3\<rparr>"
  let ?reqd = "9 + max 0 (frexp_exp lc (to_double lc x) div 3)"
  have fast: "perform lc True (fast_scan (bytes ''%Lf'')) NoArg PRINTF_BUFFLEN ?p = Inr (Some None, ?p)"
    by (simp add: bytes_def fast_scan_def at_def perform_def PERCENT_def)
  have scan: "slow_scan (bytes ''%Lf'') ?p = Inr (Some (?sp, 0, - 1), ?p)"
    by (simp add: slow_scan_def bytes_def is_flag_def is_digit_def scan_width_def scan_precision_def scan_size_def at_def FMT_BUFFLEN_def PERCENT_def)
  have reqd: "buff_reqd lc ?sp (- 1) ?p = Inr (Some (?reqd, Early_Lf x), ?q)"
    by (auto simp: buff_reqd_def va_ldouble_def max_def)
  obtain n u where buf: "take_buffer True (max (?reqd + 10) 0) ?q = Inr (Some n, u)" "int n = max 100 (?reqd + 10)"
    by (cases "?reqd + 10 \<le> 100") (auto simp: take_buffer_def PRINTF_BUFFLEN_def)
  have "\<not> length (ldouble_text lc (bytes ''%Lf'') x) < n" using assms buf(2) by linarith
  then have "perform lc False ?sp (Early_Lf x) n u = Inl OutOfBounds" by (simp add: perform_def into_buffer_def)
  then have "slow_path lc True (bytes ''%Lf'') ?p = Inl OutOfBounds" using scan reqd buf(1) by (simp add: slow_path_def)
  then have c: "convert lc True (bytes ''%Lf'') ?p = Inl OutOfBounds" using fast by (simp add: convert_def Let_def)
  have f: "takeWhile (\<lambda>b. b \<noteq> PERCENT) (bytes ''%Lf'') = []" "dropWhile (\<lambda>b. b \<noteq> PERCENT) (bytes ''%Lf'') = bytes ''%Lf''"
    "bytes ''%Lf'' \<noteq> []" "c_str (bytes ''%Lf'') = bytes ''%Lf''"
    by (simp_all add: bytes_def PERCENT_def c_str_def)
  show ?thesis unfolding FCGX_VFPrintF_def Let_def VFPrintF_loop.simps(2) f(4)
    by (simp add: f c emit_def)
qed

lemma long_text:
  assumes "x < lim" "10 ^ k \<le> x"
  shows "k < length (sample_float_text lim (bytes ''%Lf'') x)"
proof -
  have "(10 :: nat) ^ k < 10 ^ length (digits 10 False x)" using assms(2) digits_bound [of 10 x False] by (rule le_less_trans) simp
  then have "k < length (digits 10 False x)" by (rule power_less_imp_less_exp [rotated]) simp
  then show ?thesis using assms(1) by (simp add: sample_float_text_def Let_def length_field bytes_def)
qed

theorem VFPrintF_Lf_overflow_witness:
  "FCGX_VFPrintF sample_libc True EmptyBuffProc (bytes ''%Lf'') [VLDouble (16 ^ 400)] sample_writer = Inl OutOfBounds"
proof (rule VFPrintF_Lf_overflow)
  have "(10 :: nat) ^ 400 \<le> 16 ^ 400" by (rule power_mono) simp_all
  then have long: "400 < length (ldouble_text sample_libc (bytes ''%Lf'') (16 ^ 400))"
    unfolding sample_libc_def libc.simps by (rule long_text [OF limits(5)])
  have inf: "frexp_exp sample_libc (to_double sample_libc x) = 0" if "DOUBLE_LIMIT \<le> x" for x
    using that by (simp add: sample_libc_def exponent_of_def)
  have "(8 :: nat) ^ 342 \<le> 16 ^ 342" by (rule power_mono) simp_all
  also have "(16 :: nat) ^ 342 \<le> 16 ^ 400" by (rule power_increasing) simp_all
  finally have "DOUBLE_LIMIT \<le> 16 ^ 400" using limits(4) by (rule le_trans [rotated])
  then have "frexp_exp sample_libc (to_double sample_libc (16 ^ 400)) = 0" by (rule inf)
  then show "max 100 (19 + max 0 (frexp_exp sample_libc (to_double sample_libc (16 ^ 400)) div 3))
      \<le> int (length (ldouble_text sample_libc (bytes ''%Lf'') (16 ^ 400)))"
    using long by linarith
qed

end
