(* ===== verification/Fcgi_Stdio.thy ===== *)
theory Fcgi_Stdio
  imports Fcgi_Request Fcgi_Printf
begin

text \<open>
  \<open>fcgi_stdio.c\<close>: the wrappers that give an application the names of \<open>stdio.h\<close> and send each call to the C library
  or to the stream functions, and the cycle of \<open>FCGI_Accept\<close> and \<open>FCGI_Finish\<close>.

  An \<open>FCGI_FILE\<close> has a pointer to a \<open>FILE\<close> (a number, \<open>None\<close> for \<open>NULL\<close>) and a pointer to one of the three
  streams of the library's own request. A pointer to an object that has been freed or closed leads nowhere: following it is
  \<open>OutOfBounds\<close>. The C library is modelled as far as the wrappers use it: a \<open>FILE\<close> is a run of bytes with a position, what
  \<open>fopen\<close> and the like return and whether \<open>malloc\<close> has memory are scripts of the state. The \<open>errno\<close> of a failing library call is not modelled.
\<close>

section \<open>The C library\<close>

record FILE =
  fdata :: "byte list"
  fpos :: nat
  pushed :: "byte list"
  fEof :: bool
  fErr :: bool
  seekable :: bool
  broken :: bool
  descriptor :: int

definition fgetc :: "FILE \<Rightarrow> int \<times> FILE" where
  "fgetc f = (case pushed f of
      c # cs \<Rightarrow> (uint c, f\<lparr>pushed := cs\<rparr>)
    | [] \<Rightarrow> if fEof f \<or> length (fdata f) \<le> fpos f then (EOF, f\<lparr>fEof := True\<rparr>)
            else (uint (fdata f ! fpos f), f\<lparr>fpos := Suc (fpos f)\<rparr>))"

definition ungetc :: "int \<Rightarrow> FILE \<Rightarrow> int \<times> FILE" where
  "ungetc c f = (if c = EOF \<or> pushed f \<noteq> [] then (EOF, f) else (uint (uchar c), f\<lparr>pushed := [uchar c], fEof := False\<rparr>))"

fun getn :: "nat \<Rightarrow> FILE \<Rightarrow> byte list \<times> FILE" where
  "getn 0 f = ([], f)"
| "getn (Suc n) f = (case fgetc f of (c, f1) \<Rightarrow>
     if c = EOF then ([], f1) else case getn n f1 of (bs, f2) \<Rightarrow> (uchar c # bs, f2))"

fun fgets_loop :: "nat \<Rightarrow> byte list \<Rightarrow> FILE \<Rightarrow> byte list option \<times> FILE" where
  "fgets_loop 0 acc f = (Some acc, f)"
| "fgets_loop (Suc n) acc f = (case fgetc f of (c, f1) \<Rightarrow>
     if c = EOF then (if acc = [] then None else Some acc, f1)
     else if c = 10 then (Some (acc @ [uchar c]), f1) else fgets_loop n (acc @ [uchar c]) f1)"

definition fgets :: "int \<Rightarrow> FILE \<Rightarrow> byte list option \<times> FILE" where
  "fgets n f = (if n \<le> 0 then (None, f) else fgets_loop (nat (n - 1)) [] f)"

definition fput :: "byte list \<Rightarrow> FILE \<Rightarrow> bool \<times> FILE" where
  "fput bs f =
     (if broken f then (False, f\<lparr>fErr := True\<rparr>)
      else (True, f\<lparr>fdata := put_bytes (fpos f) bs (fdata f @ replicate (fpos f - length (fdata f)) 0), fpos := fpos f + length bs\<rparr>))"

definition fputc :: "int \<Rightarrow> FILE \<Rightarrow> int \<times> FILE" where
  "fputc c f = (case fput [uchar c] f of (ok, f1) \<Rightarrow> (if ok then uint (uchar c) else EOF, f1))"

definition fputs :: "byte list \<Rightarrow> FILE \<Rightarrow> int \<times> FILE" where
  "fputs str f = (case fput (c_str str) f of (ok, f1) \<Rightarrow> (if ok then 1 else EOF, f1))"

definition fread :: "64 word \<Rightarrow> 64 word \<Rightarrow> FILE \<Rightarrow> (64 word \<times> byte list) \<times> FILE" where
  "fread sz nmemb f = (case getn (unat (sz * nmemb)) f of (bs, f1) \<Rightarrow> ((word_of_nat (length bs) div sz, bs), f1))"

definition fwrite :: "byte list \<Rightarrow> 64 word \<Rightarrow> 64 word \<Rightarrow> FILE \<Rightarrow> 64 word \<times> FILE" where
  "fwrite mem sz nmemb f = (case fput (take (unat (sz * nmemb)) mem) f of (ok, f1) \<Rightarrow>
     (if ok then (sz * nmemb) div sz else 0, f1))"

definition fflush :: "FILE \<Rightarrow> int \<times> FILE" where
  "fflush f = (if broken f then (EOF, f\<lparr>fErr := True\<rparr>) else (0, f))"

definition fseek :: "int \<Rightarrow> int \<Rightarrow> FILE \<Rightarrow> int \<times> FILE" where
  "fseek off whence f =
     (let base = (if whence = 0 then 0 else if whence = 1 then int (fpos f) else int (length (fdata f))) in
      if \<not> seekable f \<or> whence \<notin> {0, 1, 2} \<or> base + off < 0 then (- 1, f)
      else (0, f\<lparr>fpos := nat (base + off), pushed := [], fEof := False\<rparr>))"

definition ftell :: "FILE \<Rightarrow> int \<times> FILE" where
  "ftell f = (if seekable f then int (fpos f) - int (length (pushed f)) else - 1, f)"

definition rewind :: "FILE \<Rightarrow> unit \<times> FILE" where
  "rewind f = ((), (snd (fseek 0 0 f))\<lparr>fErr := False\<rparr>)"

definition vfprintf :: "(byte list \<Rightarrow> 'd varg list \<Rightarrow> byte list option) \<Rightarrow> byte list \<Rightarrow> 'd varg list \<Rightarrow> FILE \<Rightarrow> int \<times> FILE" where
  "vfprintf ctext format args f = (case ctext format args of None \<Rightarrow> (- 1, f)
     | Some bs \<Rightarrow> case fput bs f of (ok, f1) \<Rightarrow> (if ok then int (length bs) else - 1, f1))"

section \<open>State\<close>

datatype stream_ref = In_stream | Out_stream | Err_stream

record FCGI_FILE =
  stdio_stream :: "nat option"
  fcgx_stream :: "stream_ref option"

text \<open>\<open>_fcgi_sF\<close> is \<open>ffiles\<close> at 0, 1 and 2; \<open>FILEs\<close> at 0, 1 and 2 are the standard files of the process. \<open>opens\<close> is what the
  calls that open a file return, \<open>mallocOk\<close> whether the calls of \<open>malloc\<close> succeed (all do when it is used up). \<open>exitHandler\<close> records \<open>atexit(&FCGI_Finish)\<close>.\<close>

record io =
  acceptCalled :: bool
  isCGI :: bool
  exitHandler :: bool
  ffiles :: "nat \<Rightarrow> FCGI_FILE option"
  nextFile :: nat
  FILEs :: "nat \<Rightarrow> FILE option"
  nextFILE :: nat
  opens :: "FILE option list"
  mallocOk :: "bool list"
  fLib :: lib
  fOs :: os
  environ :: "byte list option list option"

definition FCGI_stdin :: nat where "FCGI_stdin = 0"
definition FCGI_stdout :: nat where "FCGI_stdout = 1"
definition FCGI_stderr :: nat where "FCGI_stderr = 2"

type_synonym 'a call = "io \<Rightarrow> ('a \<times> io) res"

definition set_file :: "nat \<Rightarrow> FCGI_FILE option \<Rightarrow> io \<Rightarrow> io" where
  "set_file fp p s = s\<lparr>ffiles := (ffiles s)(fp := p)\<rparr>"

definition on_file :: "nat \<Rightarrow> (FILE \<Rightarrow> 'a \<times> FILE) \<Rightarrow> 'a call" where
  "on_file h op s = (case FILEs s h of None \<Rightarrow> Inl OutOfBounds
     | Some f \<Rightarrow> case op f of (x, f1) \<Rightarrow> Inr (x, s\<lparr>FILEs := (FILEs s)(h := Some f1)\<rparr>))"

definition close_file :: "nat \<Rightarrow> int call" where
  "close_file h s = (case FILEs s h of None \<Rightarrow> Inl OutOfBounds
     | Some f \<Rightarrow> Inr (fst (fflush f), s\<lparr>FILEs := (FILEs s)(h := None)\<rparr>))"

fun stream_at :: "stream_ref \<Rightarrow> FCGX_Request \<Rightarrow> FCGX_Stream option" where
  "stream_at In_stream q = reqIn q"
| "stream_at Out_stream q = reqOut q"
| "stream_at Err_stream q = reqErr q"

fun set_stream :: "stream_ref \<Rightarrow> FCGX_Stream \<Rightarrow> FCGX_Request \<Rightarrow> FCGX_Request" where
  "set_stream In_stream t q = q\<lparr>reqIn := Some t\<rparr>"
| "set_stream Out_stream t q = q\<lparr>reqOut := Some t\<rparr>"
| "set_stream Err_stream t q = q\<lparr>reqErr := Some t\<rparr>"

definition on_stream :: "stream_ref \<Rightarrow> (st \<Rightarrow> ('a \<times> st) res) \<Rightarrow> 'a call" where
  "on_stream r op s =
     (let q = the_request (fLib s) in
      bindr (with_stream (stream_at r q) q (fOs s) op) (\<lambda>(x, t, q1, w).
        Inr (x, s\<lparr>fLib := (fLib s)\<lparr>the_request := set_stream r t q1\<rparr>, fOs := w\<rparr>)))"

text \<open>The choice every wrapper makes.\<close>

definition via :: "nat \<Rightarrow> (nat \<Rightarrow> 'a call) \<Rightarrow> (stream_ref \<Rightarrow> 'a call) \<Rightarrow> 'a call \<Rightarrow> 'a call" where
  "via fp onFILE onStream neither s =
     (case ffiles s fp of None \<Rightarrow> Inl OutOfBounds
      | Some p \<Rightarrow> case stdio_stream p of Some h \<Rightarrow> onFILE h s
        | None \<Rightarrow> case fcgx_stream p of Some r \<Rightarrow> onStream r s | None \<Rightarrow> neither s)"

definition give :: "'a \<Rightarrow> 'a call" where
  "give x s = Inr (x, s)"

definition set_errno :: "int \<Rightarrow> 'a \<Rightarrow> 'a call" where
  "set_errno e x s = Inr (x, s\<lparr>fOs := (fOs s)\<lparr>osErrno := e\<rparr>\<rparr>)"

definition ESPIPE :: int where "ESPIPE = 29"

section \<open>Requests\<close>

definition accept_streams :: "bool \<Rightarrow> (byte list \<Rightarrow> byte list option) \<Rightarrow> int call" where
  "accept_streams alloc getenv s =
     (if isCGI s then
        Inr (0, set_file FCGI_stderr (Some \<lparr>stdio_stream = Some 2, fcgx_stream = None\<rparr>)
               (set_file FCGI_stdout (Some \<lparr>stdio_stream = Some 1, fcgx_stream = None\<rparr>)
               (set_file FCGI_stdin (Some \<lparr>stdio_stream = Some 0, fcgx_stream = None\<rparr>) s)))
      else bindr (FCGX_Accept alloc getenv (fLib s) (fOs s)) (\<lambda>(rc, l, w).
        let s1 = s\<lparr>fLib := l, fOs := w\<rparr> in
        if rc < 0 then Inr (rc, s1)
        else Inr (0, (set_file FCGI_stderr (Some \<lparr>stdio_stream = None, fcgx_stream = Some Err_stream\<rparr>)
                     (set_file FCGI_stdout (Some \<lparr>stdio_stream = None, fcgx_stream = Some Out_stream\<rparr>)
                     (set_file FCGI_stdin (Some \<lparr>stdio_stream = None, fcgx_stream = Some In_stream\<rparr>) s1)))
                   \<lparr>environ := envp (the_request l)\<rparr>)))"

text \<open>\<open>FCGI_Accept\<close>; the result is \<open>None\<close> when \<open>FCGX_IsCGI\<close> leaves the process.\<close>

definition FCGI_Accept :: "bool \<Rightarrow> (byte list \<Rightarrow> byte list option) \<Rightarrow> io \<Rightarrow> (int \<times> io) option res" where
  "FCGI_Accept alloc getenv s =
     (if \<not> acceptCalled s then
        case FCGX_IsCGI alloc getenv (fLib s) (fOs s) of None \<Rightarrow> Inr None
        | Some (b, l, w) \<Rightarrow>
            bindr (accept_streams alloc getenv (s\<lparr>fLib := l, fOs := w, isCGI := b, acceptCalled := True, exitHandler := True\<rparr>))
              (\<lambda>x. Inr (Some x))
      else if isCGI s then Inr (Some (EOF, s))
      else bindr (accept_streams alloc getenv s) (\<lambda>x. Inr (Some x)))"

definition drop_stream :: "nat \<Rightarrow> unit call" where
  "drop_stream fp s = (case ffiles s fp of None \<Rightarrow> Inl OutOfBounds
     | Some p \<Rightarrow> Inr ((), set_file fp (Some (p\<lparr>fcgx_stream := None\<rparr>)) s))"

definition FCGI_Finish :: "io \<Rightarrow> io res" where
  "FCGI_Finish s =
     (if \<not> acceptCalled s \<or> isCGI s then Inr s
      else bindr (FCGX_Finish (fLib s) (fOs s)) (\<lambda>(l, w).
        bindr (drop_stream FCGI_stdin (s\<lparr>fLib := l, fOs := w\<rparr>)) (\<lambda>(_, s1).
        bindr (drop_stream FCGI_stdout s1) (\<lambda>(_, s2).
        bindr (drop_stream FCGI_stderr s2) (\<lambda>(_, s3). Inr (s3\<lparr>environ := None\<rparr>))))))"

text \<open>Here \<open>fcgx_stream\<close> is followed without a check.\<close>

definition FCGI_StartFilterData :: "int call" where
  "FCGI_StartFilterData =
     via FCGI_stdin (\<lambda>_. give (- 1)) (\<lambda>r. on_stream r FCGX_StartFilterData) (\<lambda>_. Inl OutOfBounds)"

definition FCGI_SetExitStatus :: "int \<Rightarrow> unit call" where
  "FCGI_SetExitStatus status s =
     (case ffiles s FCGI_stdin of None \<Rightarrow> Inl OutOfBounds
      | Some p \<Rightarrow> case fcgx_stream p of None \<Rightarrow> Inr ((), s)
        | Some r \<Rightarrow> on_stream r (\<lambda>t. Inr ((), FCGX_SetExitStatus status t)) s)"

section \<open>Opening and closing\<close>

text \<open>\<open>fopen\<close>, \<open>fdopen\<close>, \<open>popen\<close> and \<open>tmpfile\<close> of the C library.\<close>

definition open_FILE :: "nat option call" where
  "open_FILE s = (case opens s of [] \<Rightarrow> Inr (None, s)
     | None # os \<Rightarrow> Inr (None, s\<lparr>opens := os\<rparr>)
     | Some f # os \<Rightarrow> Inr (Some (nextFILE s), s\<lparr>opens := os, FILEs := (FILEs s)(nextFILE s := Some f), nextFILE := Suc (nextFILE s)\<rparr>))"

definition FCGI_OpenFromFILE :: "nat option \<Rightarrow> nat option call" where
  "FCGI_OpenFromFILE stream s =
     (if stream = None then Inr (None, s)
      else let ok = (case mallocOk s of [] \<Rightarrow> True | b # _ \<Rightarrow> b); s1 = s\<lparr>mallocOk := tl (mallocOk s)\<rparr> in
        if ok then Inr (Some (nextFile s), set_file (nextFile s) (Some \<lparr>stdio_stream = stream, fcgx_stream = None\<rparr>)
                                             (s1\<lparr>nextFile := Suc (nextFile s)\<rparr>))
        else Inr (None, s1))"

definition open_wrapped :: "nat option call" where
  "open_wrapped s =
     bindr (open_FILE s) (\<lambda>(file, s1). bindr (FCGI_OpenFromFILE file s1) (\<lambda>(fcgi_file, s2).
       case (file, fcgi_file) of (Some h, None) \<Rightarrow> bindr (close_file h s2) (\<lambda>(_, s3). Inr (fcgi_file, s3))
       | _ \<Rightarrow> Inr (fcgi_file, s2)))"

definition FCGI_fopen :: "nat option call" where "FCGI_fopen = open_wrapped"
definition FCGI_tmpfile :: "nat option call" where "FCGI_tmpfile = open_wrapped"
definition FCGI_fdopen :: "nat option call" where "FCGI_fdopen = open_wrapped"
definition FCGI_popen :: "nat option call" where "FCGI_popen = open_wrapped"

definition release_file :: "nat \<Rightarrow> io \<Rightarrow> io" where
  "release_file fp s = (if fp \<noteq> FCGI_stdin \<and> fp \<noteq> FCGI_stdout \<and> fp \<noteq> FCGI_stderr then set_file fp None s else s)"

definition FCGI_fclose :: "nat \<Rightarrow> int call" where
  "FCGI_fclose fp s =
     (case ffiles s fp of None \<Rightarrow> Inl OutOfBounds
      | Some p \<Rightarrow>
          bindr (case stdio_stream p of
              Some h \<Rightarrow> bindr (close_file h s) (\<lambda>(n, s1). Inr (n, set_file fp (Some (p\<lparr>stdio_stream := None\<rparr>)) s1))
            | None \<Rightarrow> case fcgx_stream p of
                Some r \<Rightarrow> bindr (on_stream r (FCGX_FClose EmptyBuffProc) s)
                  (\<lambda>(n, s1). Inr (n, set_file fp (Some (p\<lparr>fcgx_stream := None\<rparr>)) s1))
              | None \<Rightarrow> Inr (EOF, s))
            (\<lambda>(n, s1). Inr (n, release_file fp s1)))"

definition FCGI_pclose :: "nat \<Rightarrow> int call" where
  "FCGI_pclose fp s =
     (case ffiles s fp of None \<Rightarrow> Inl OutOfBounds
      | Some p \<Rightarrow> case stdio_stream p of
          Some h \<Rightarrow> bindr (close_file h s)
            (\<lambda>(n, s1). Inr (n, release_file fp (set_file fp (Some (p\<lparr>stdio_stream := None\<rparr>)) s1)))
        | None \<Rightarrow> if fcgx_stream p \<noteq> None then Inr (EOF, s) else Inr (EOF, release_file fp s))"

definition FCGI_fflush :: "nat option \<Rightarrow> int call" where
  "FCGI_fflush fpo s =
     (case fpo of
        None \<Rightarrow> Inr (if list_ex (\<lambda>h. case FILEs s h of None \<Rightarrow> False | Some f \<Rightarrow> broken f) [0..<nextFILE s] then EOF else 0, s)
      | Some fp \<Rightarrow> via fp (\<lambda>h. on_file h fflush) (\<lambda>r. on_stream r (FCGX_FFlush EmptyBuffProc)) (give EOF) s)"

text \<open>\<open>freopen\<close> of the C library closes the file whether it can open the new one or not.\<close>

definition reopen_FILE :: "nat \<Rightarrow> bool call" where
  "reopen_FILE h s = (case FILEs s h of None \<Rightarrow> Inl OutOfBounds
     | Some _ \<Rightarrow> case opens s of [] \<Rightarrow> Inr (False, s\<lparr>FILEs := (FILEs s)(h := None)\<rparr>)
       | f # os \<Rightarrow> Inr (f \<noteq> None, s\<lparr>opens := os, FILEs := (FILEs s)(h := f)\<rparr>))"

definition FCGI_freopen :: "nat \<Rightarrow> nat option call" where
  "FCGI_freopen fp s =
     (case ffiles s fp of None \<Rightarrow> Inl OutOfBounds
      | Some p \<Rightarrow> case stdio_stream p of
          Some h \<Rightarrow> bindr (reopen_FILE h s) (\<lambda>(ok, s1). Inr (if ok then Some fp else None, s1))
        | None \<Rightarrow> case fcgx_stream p of
            Some r \<Rightarrow>
              bindr (on_stream r (FCGX_FClose EmptyBuffProc) s) (\<lambda>(_, s1).
              bindr (open_FILE s1) (\<lambda>(file, s2).
                if file = None then Inr (None, set_file fp (Some (p\<lparr>stdio_stream := None\<rparr>)) s2)
                else Inr (Some fp, set_file fp (Some (p\<lparr>stdio_stream := file, fcgx_stream := None\<rparr>)) s2)))
          | None \<Rightarrow> Inr (None, s))"

section \<open>Buffering and positions\<close>

definition FCGI_setvbuf :: "nat \<Rightarrow> int \<Rightarrow> int call" where
  "FCGI_setvbuf fp bufmode =
     via fp (\<lambda>h. on_file h (\<lambda>f. (if bufmode \<in> {0, 1, 2} then 0 else - 1, f))) (\<lambda>_. give (- 1)) (give (- 1))"

definition FCGI_setbuf :: "nat \<Rightarrow> unit call" where
  "FCGI_setbuf fp = via fp (\<lambda>h. on_file h (\<lambda>f. ((), f))) (\<lambda>_. give ()) (give ())"

definition FCGI_fseek :: "nat \<Rightarrow> int \<Rightarrow> int \<Rightarrow> int call" where
  "FCGI_fseek fp offset whence = via fp (\<lambda>h. on_file h (fseek offset whence)) (\<lambda>_. set_errno ESPIPE (- 1)) (set_errno ESPIPE (- 1))"

text \<open>The \<open>long\<close> of \<open>ftell\<close> is returned as an \<open>int\<close>.\<close>

definition FCGI_ftell :: "nat \<Rightarrow> int call" where
  "FCGI_ftell fp = via fp (\<lambda>h. on_file h (\<lambda>f. case ftell f of (n, f1) \<Rightarrow> (sint (word_of_int n :: 32 word), f1)))
     (\<lambda>_. set_errno ESPIPE (- 1)) (set_errno ESPIPE (- 1))"

definition FCGI_rewind :: "nat \<Rightarrow> unit call" where
  "FCGI_rewind fp = via fp (\<lambda>h. on_file h rewind) (\<lambda>_. set_errno ESPIPE ()) (set_errno ESPIPE ())"

definition FCGI_fgetpos :: "nat \<Rightarrow> (int \<times> int option) call" where
  "FCGI_fgetpos fp = via fp (\<lambda>h. on_file h (\<lambda>f. case ftell f of (n, f1) \<Rightarrow> if n < 0 then ((- 1, None), f1) else ((0, Some n), f1)))
     (\<lambda>_. set_errno ESPIPE (- 1, None)) (set_errno ESPIPE (- 1, None))"

definition FCGI_fsetpos :: "nat \<Rightarrow> int \<Rightarrow> int call" where
  "FCGI_fsetpos fp pos = via fp (\<lambda>h. on_file h (fseek pos 0)) (\<lambda>_. set_errno ESPIPE (- 1)) (set_errno ESPIPE (- 1))"

definition FCGI_fileno :: "nat \<Rightarrow> int call" where
  "FCGI_fileno fp = via fp (\<lambda>h. on_file h (\<lambda>f. (descriptor f, f))) (\<lambda>_. give (- 1)) (give (- 1))"

section \<open>Input\<close>

definition FCGI_fgetc :: "nat \<Rightarrow> int call" where
  "FCGI_fgetc fp = via fp (\<lambda>h. on_file h fgetc) (\<lambda>r. on_stream r (FCGX_GetChar FillBuffProc)) (give EOF)"

definition FCGI_getchar :: "int call" where
  "FCGI_getchar = FCGI_fgetc FCGI_stdin"

definition FCGI_ungetc :: "int \<Rightarrow> nat \<Rightarrow> int call" where
  "FCGI_ungetc c fp = via fp (\<lambda>h. on_file h (ungetc c)) (\<lambda>r. on_stream r (FCGX_UnGetChar c)) (give EOF)"

definition FCGI_fgets :: "int \<Rightarrow> nat \<Rightarrow> byte list option call" where
  "FCGI_fgets sz fp = via fp (\<lambda>h. on_file h (fgets sz)) (\<lambda>r. on_stream r (FCGX_GetLine FillBuffProc sz)) (give None)"

text \<open>\<open>FCGI_gets\<close> has no bound but the input: fuel is the number of bytes that can still be read.\<close>

fun gets_loop :: "nat \<Rightarrow> byte list \<Rightarrow> byte list option call" where
  "gets_loop 0 acc s = Inl NoReturn"
| "gets_loop (Suc fuel) acc s =
     bindr (FCGI_getchar s) (\<lambda>(c, s1).
       if c = 10 then Inr (Some acc, s1)
       else if c = EOF then Inr (if acc = [] then None else Some acc, s1)
       else gets_loop fuel (acc @ [uchar c]) s1)"

declare gets_loop.simps(2) [simp del]

definition input_left :: "io \<Rightarrow> nat" where
  "input_left s = (case ffiles s FCGI_stdin of None \<Rightarrow> 0
     | Some p \<Rightarrow> case stdio_stream p of
         Some h \<Rightarrow> (case FILEs s h of None \<Rightarrow> 0 | Some f \<Rightarrow> length (pushed f) + (length (fdata f) - fpos f))
       | None \<Rightarrow> case fcgx_stream p of None \<Rightarrow> 0
         | Some r \<Rightarrow> case stream_at r (the_request (fLib s)) of None \<Rightarrow> 0
           | Some t \<Rightarrow> length (unread \<lparr>strm = t, rqd = reqData (the_request (fLib s)), sys = fOs s\<rparr>))"

definition FCGI_gets :: "byte list option call" where
  "FCGI_gets s = gets_loop (Suc (input_left s)) [] s"

text \<open>\<open>sz * nmemb\<close> is a \<open>size_t\<close> and is passed as an \<open>int\<close>; the \<open>int\<close> result is divided as a \<open>size_t\<close>.\<close>

definition int_of_size :: "64 word \<Rightarrow> int" where
  "int_of_size n = sint (ucast n :: 32 word)"

definition FCGI_fread :: "64 word \<Rightarrow> 64 word \<Rightarrow> nat \<Rightarrow> (64 word \<times> byte list) call" where
  "FCGI_fread sz nmemb fp =
     via fp (\<lambda>h. on_file h (fread sz nmemb))
       (\<lambda>r s. if sz * nmemb = 0 then Inr ((0, []), s)
              else bindr (on_stream r (FCGX_GetStr FillBuffProc (int_of_size (sz * nmemb))) s)
                (\<lambda>(bs, s1). Inr ((word_of_int (int (length bs)) div sz, bs), s1)))
       (give (- 1, []))"

section \<open>Output\<close>

definition FCGI_fputc :: "int \<Rightarrow> nat \<Rightarrow> int call" where
  "FCGI_fputc c fp = via fp (\<lambda>h. on_file h (fputc c)) (\<lambda>r. on_stream r (FCGX_PutChar EmptyBuffProc c)) (give EOF)"

definition FCGI_putchar :: "int \<Rightarrow> int call" where
  "FCGI_putchar c = FCGI_fputc c FCGI_stdout"

definition FCGI_fputs :: "byte list \<Rightarrow> nat \<Rightarrow> int call" where
  "FCGI_fputs str fp = via fp (\<lambda>h. on_file h (fputs str)) (\<lambda>r. on_stream r (FCGX_PutS EmptyBuffProc str)) (give EOF)"

definition FCGI_puts :: "byte list \<Rightarrow> int call" where
  "FCGI_puts str =
     via FCGI_stdout
       (\<lambda>h s. bindr (on_file h (fputs str) s) (\<lambda>(n, s1). if n < 0 then Inr (n, s1) else on_file h (fputc 10) s1))
       (\<lambda>r s. bindr (on_stream r (FCGX_PutS EmptyBuffProc str) s)
          (\<lambda>(n, s1). if n < 0 then Inr (n, s1) else on_stream r (FCGX_PutChar EmptyBuffProc 10) s1))
       (give EOF)"

text \<open>A negative count makes \<open>FCGX_PutStr\<close> copy a negative number of bytes.\<close>

definition put_counted :: "byte list \<Rightarrow> int \<Rightarrow> st \<Rightarrow> (int \<times> st) res" where
  "put_counted mem n s = inbounds (0 \<le> n \<and> n \<le> int (length mem)) (FCGX_PutStr EmptyBuffProc (take (nat n) mem) s)"

definition FCGI_fwrite :: "byte list \<Rightarrow> 64 word \<Rightarrow> 64 word \<Rightarrow> nat \<Rightarrow> 64 word call" where
  "FCGI_fwrite mem sz nmemb fp =
     via fp (\<lambda>h. on_file h (fwrite mem sz nmemb))
       (\<lambda>r s. if sz * nmemb = 0 then Inr (0, s)
              else bindr (on_stream r (put_counted mem (int_of_size (sz * nmemb))) s)
                (\<lambda>(n, s1). Inr (word_of_int n div sz, s1)))
       (give (- 1))"

text \<open>\<open>ctext\<close> is what the C library's \<open>vfprintf\<close> prints, \<open>lc\<close> and \<open>alloc\<close> are the parameters of \<open>FCGX_VFPrintF\<close>. The
  values \<open>%n\<close> stores are part of the result.\<close>

definition stream_printf :: "'d libc \<Rightarrow> bool \<Rightarrow> byte list \<Rightarrow> 'd varg list \<Rightarrow> st \<Rightarrow> (int \<times> st) res" where
  "stream_printf lc alloc format args t =
     bindr (FCGX_VFPrintF lc alloc EmptyBuffProc format args t) (\<lambda>(n, _, _, t1). Inr (n, t1))"

definition FCGI_vfprintf :: "(byte list \<Rightarrow> 'd varg list \<Rightarrow> byte list option) \<Rightarrow> 'd libc \<Rightarrow> bool \<Rightarrow> nat \<Rightarrow> byte list \<Rightarrow> 'd varg list \<Rightarrow> int call" where
  "FCGI_vfprintf ctext lc alloc fp format args =
     via fp (\<lambda>h. on_file h (vfprintf ctext format args)) (\<lambda>r. on_stream r (stream_printf lc alloc format args)) (give EOF)"

definition FCGI_fprintf :: "(byte list \<Rightarrow> 'd varg list \<Rightarrow> byte list option) \<Rightarrow> 'd libc \<Rightarrow> bool \<Rightarrow> nat \<Rightarrow> byte list \<Rightarrow> 'd varg list \<Rightarrow> int call" where
  "FCGI_fprintf ctext lc alloc fp format args =
     via fp (\<lambda>h. on_file h (vfprintf ctext format args)) (\<lambda>r. on_stream r (stream_printf lc alloc format args)) (give 0)"

definition FCGI_printf :: "(byte list \<Rightarrow> 'd varg list \<Rightarrow> byte list option) \<Rightarrow> 'd libc \<Rightarrow> bool \<Rightarrow> byte list \<Rightarrow> 'd varg list \<Rightarrow> int call" where
  "FCGI_printf ctext lc alloc format args = FCGI_vfprintf ctext lc alloc FCGI_stdout format args"

definition FCGI_vprintf :: "(byte list \<Rightarrow> 'd varg list \<Rightarrow> byte list option) \<Rightarrow> 'd libc \<Rightarrow> bool \<Rightarrow> byte list \<Rightarrow> 'd varg list \<Rightarrow> int call" where
  "FCGI_vprintf ctext lc alloc format args =
     via FCGI_stdout (\<lambda>h. on_file h (vfprintf ctext format args)) (\<lambda>r. on_stream r (stream_printf lc alloc format args)) (give EOF)"

definition FCGI_perror :: "(int \<Rightarrow> byte list) \<Rightarrow> byte list \<Rightarrow> unit call" where
  "FCGI_perror strerror str s =
     bindr (FCGI_fputs str FCGI_stderr s) (\<lambda>(_, s1).
     bindr (FCGI_fputs (bytes '': '') FCGI_stderr s1) (\<lambda>(_, s2).
     bindr (FCGI_fputs (strerror (osErrno (fOs s2))) FCGI_stderr s2) (\<lambda>(_, s3). Inr ((), s3))))"

section \<open>Indicators\<close>

definition FCGI_feof :: "nat \<Rightarrow> int call" where
  "FCGI_feof fp = via fp (\<lambda>h. on_file h (\<lambda>f. (if fEof f then 1 else 0, f)))
     (\<lambda>r. on_stream r (\<lambda>t. Inr (FCGX_HasSeenEOF (strm t), t))) (give (- 1))"

definition FCGI_ferror :: "nat \<Rightarrow> int call" where
  "FCGI_ferror fp = via fp (\<lambda>h. on_file h (\<lambda>f. (if fErr f then 1 else 0, f)))
     (\<lambda>r. on_stream r (\<lambda>t. Inr (FCGX_GetError (strm t), t))) (give (- 1))"

definition FCGI_clearerr :: "nat \<Rightarrow> unit call" where
  "FCGI_clearerr fp = via fp (\<lambda>h. on_file h (\<lambda>f. ((), f\<lparr>fErr := False, fEof := False\<rparr>)))
     (\<lambda>r. on_stream r (\<lambda>t. Inr ((), upd FCGX_ClearError t))) (give ())"

end
