(* ===== verification/Fcgi_Stdio_Correct.thy ===== *)
theory Fcgi_Stdio_Correct
  imports Fcgi_Stdio Fcgi_Request_Correct Fcgi_Printf_Correct
begin

text \<open>
  What the \<open>stdio\<close> package promises: a program that reads and writes through the wrappers cannot tell whether it runs as a
  CGI program, on the files of the process, or as a FastCGI application, on the streams of a request. The contract of the standard
  input and output is the locale \<open>std_streams\<close>; the files and the streams are its two interpretations.
\<close>

section \<open>Calls and what they do to input and output\<close>

datatype op = Getchar | Gets | Fgets int | Fread "64 word" "64 word" | Putchar int | Puts "byte list"
  | Fwrite "byte list" "64 word" "64 word" | Printf "item list" | Flush

datatype reply = RInt int | RLine "byte list option" | RItems "64 word" "byte list"

definition next_char :: "byte list \<Rightarrow> int" where
  "next_char cs = (case cs of [] \<Rightarrow> EOF | c # _ \<Rightarrow> uint c)"

definition next_line :: "int \<Rightarrow> byte list \<Rightarrow> byte list option" where
  "next_line n cs = (if cs = [] \<and> 1 < n then None else Some (line_of (nat (n - 1)) cs))"

definition line_rest :: "int \<Rightarrow> byte list \<Rightarrow> byte list" where
  "line_rest n cs = drop (length (line_of (nat (n - 1)) cs)) cs"

text \<open>The reply of a call, the input it leaves and the output it adds.\<close>

fun spec_op :: "op \<Rightarrow> byte list \<Rightarrow> reply \<times> byte list \<times> byte list" where
  "spec_op Getchar cs = (RInt (next_char cs), drop 1 cs, [])"
| "spec_op Gets cs = (RLine (if cs = [] then None else Some (takeWhile (\<lambda>b. b \<noteq> 10) cs)),
     drop 1 (dropWhile (\<lambda>b. b \<noteq> 10) cs), [])"
| "spec_op (Fgets n) cs = (RLine (next_line n cs), line_rest n cs, [])"
| "spec_op (Fread sz n) cs = (let k = unat (sz * n) in (RItems (word_of_nat (length (take k cs)) div sz) (take k cs), drop k cs, []))"
| "spec_op (Putchar c) cs = (RInt (uint (uchar c)), cs, [uchar c])"
| "spec_op (Puts str) cs = (RInt 10, cs, c_str str @ [10])"
| "spec_op (Fwrite mem sz n) cs = (RItems (sz * n div sz) [], cs, take (unat (sz * n)) mem)"
| "spec_op (Printf its) cs = (RInt (int (length (concat (map item_out its)))), cs, concat (map item_out its))"
| "spec_op Flush cs = (RInt 0, cs, [])"

fun spec_run :: "op list \<Rightarrow> byte list \<Rightarrow> reply list \<times> byte list \<times> byte list" where
  "spec_run [] cs = ([], cs, [])"
| "spec_run (x # xs) cs = (case spec_op x cs of (r, ds, out) \<Rightarrow> case spec_run xs ds of (rs, es, out') \<Rightarrow> (r # rs, es, out @ out'))"

text \<open>Sizes that fit an \<open>int\<close>, memory that holds what is written, formats made of plain conversions.\<close>

fun op_ok :: "op \<Rightarrow> bool" where
  "op_ok (Fgets n) = (0 < n)"
| "op_ok (Fread sz n) = (unat (sz * n) < 2 ^ 31)"
| "op_ok (Fwrite mem sz n) = (unat (sz * n) < 2 ^ 31 \<and> unat (sz * n) \<le> length mem)"
| "op_ok (Printf its) = list_all item_ok its"
| "op_ok _ = True"

fun do_op :: "(byte list \<Rightarrow> 'd varg list \<Rightarrow> byte list option) \<Rightarrow> 'd libc \<Rightarrow> bool \<Rightarrow> op \<Rightarrow> reply call" where
  "do_op ctext lc alloc Getchar s = bindr (FCGI_getchar s) (\<lambda>(n, s'). Inr (RInt n, s'))"
| "do_op ctext lc alloc Gets s = bindr (FCGI_gets s) (\<lambda>(l, s'). Inr (RLine l, s'))"
| "do_op ctext lc alloc (Fgets n) s = bindr (FCGI_fgets n FCGI_stdin s) (\<lambda>(l, s'). Inr (RLine l, s'))"
| "do_op ctext lc alloc (Fread sz n) s = bindr (FCGI_fread sz n FCGI_stdin s) (\<lambda>((k, bs), s'). Inr (RItems k bs, s'))"
| "do_op ctext lc alloc (Putchar c) s = bindr (FCGI_putchar c s) (\<lambda>(n, s'). Inr (RInt n, s'))"
| "do_op ctext lc alloc (Puts str) s = bindr (FCGI_puts str s) (\<lambda>(n, s'). Inr (RInt n, s'))"
| "do_op ctext lc alloc (Fwrite mem sz n) s = bindr (FCGI_fwrite mem sz n FCGI_stdout s) (\<lambda>(k, s'). Inr (RItems k [], s'))"
| "do_op ctext lc alloc (Printf its) s = bindr (FCGI_printf ctext lc alloc (concat (map item_fmt its)) (concat (map item_args its)) s)
     (\<lambda>(n, s'). Inr (RInt n, s'))"
| "do_op ctext lc alloc Flush s = bindr (FCGI_fflush (Some FCGI_stdout) s) (\<lambda>(n, s'). Inr (RInt n, s'))"

fun run_ops :: "(byte list \<Rightarrow> 'd varg list \<Rightarrow> byte list option) \<Rightarrow> 'd libc \<Rightarrow> bool \<Rightarrow> op list \<Rightarrow> reply list call" where
  "run_ops ctext lc alloc [] s = Inr ([], s)"
| "run_ops ctext lc alloc (x # xs) s = bindr (do_op ctext lc alloc x s) (\<lambda>(r, s').
     bindr (run_ops ctext lc alloc xs s') (\<lambda>(rs, s''). Inr (r # rs, s'')))"

section \<open>The contract of standard input and output\<close>

text \<open>What the C library's \<open>vfprintf\<close> prints for plain conversions.\<close>

definition vfprintf_ok :: "(byte list \<Rightarrow> 'd varg list \<Rightarrow> byte list option) \<Rightarrow> bool" where
  "vfprintf_ok ctext \<longleftrightarrow> (\<forall>its. list_all item_ok its \<longrightarrow>
     ctext (concat (map item_fmt its)) (concat (map item_args its)) = Some (concat (map item_out its)))"

text \<open>\<open>holds s cs out\<close>: the standard input still delivers \<open>cs\<close> and the standard output has been given \<open>out\<close>.\<close>

locale std_streams =
  fixes holds :: "io \<Rightarrow> byte list \<Rightarrow> byte list \<Rightarrow> bool"
    and ctext :: "byte list \<Rightarrow> 'd varg list \<Rightarrow> byte list option"
    and lc :: "'d libc"
    and alloc :: bool
  assumes getchar: "holds s cs out \<Longrightarrow> \<exists>s'. FCGI_getchar s = Inr (next_char cs, s') \<and> holds s' (drop 1 cs) out"
    and bounded: "holds s cs out \<Longrightarrow> length cs \<le> input_left s"
    and fgets: "holds s cs out \<Longrightarrow> 0 < m \<Longrightarrow>
      \<exists>s'. FCGI_fgets m FCGI_stdin s = Inr (next_line m cs, s') \<and> holds s' (line_rest m cs) out"
    and fread: "holds s cs out \<Longrightarrow> unat (sz * n) < 2 ^ 31 \<Longrightarrow> \<exists>s'. FCGI_fread sz n FCGI_stdin s =
      Inr ((word_of_nat (length (take (unat (sz * n)) cs)) div sz, take (unat (sz * n)) cs), s') \<and> holds s' (drop (unat (sz * n)) cs) out"
    and putchar: "holds s cs out \<Longrightarrow> \<exists>s'. FCGI_putchar c s = Inr (uint (uchar c), s') \<and> holds s' cs (out @ [uchar c])"
    and puts: "holds s cs out \<Longrightarrow> \<exists>s'. FCGI_puts str s = Inr (10, s') \<and> holds s' cs (out @ c_str str @ [10])"
    and fwrite: "holds s cs out \<Longrightarrow> unat (sz * n) < 2 ^ 31 \<Longrightarrow> unat (sz * n) \<le> length mem \<Longrightarrow>
      \<exists>s'. FCGI_fwrite mem sz n FCGI_stdout s = Inr (sz * n div sz, s') \<and> holds s' cs (out @ take (unat (sz * n)) mem)"
    and printf: "holds s cs out \<Longrightarrow> vfprintf_ok ctext \<Longrightarrow> list_all item_ok its \<Longrightarrow>
      \<exists>s'. FCGI_printf ctext lc alloc (concat (map item_fmt its)) (concat (map item_args its)) s =
        Inr (int (length (concat (map item_out its))), s') \<and> holds s' cs (out @ concat (map item_out its))"
    and flush: "holds s cs out \<Longrightarrow> \<exists>s'. FCGI_fflush (Some FCGI_stdout) s = Inr (0, s') \<and> holds s' cs out"
begin

lemma gets_loop_line:
  assumes "holds s cs out" "length cs < fuel"
  shows "\<exists>s'. gets_loop fuel acc s = Inr (if acc @ cs = [] then None else Some (acc @ takeWhile (\<lambda>b. b \<noteq> 10) cs), s')
    \<and> holds s' (drop 1 (dropWhile (\<lambda>b. b \<noteq> 10) cs)) out"
  using assms
proof (induction fuel arbitrary: s cs acc)
  case (Suc fuel)
  obtain s1 where s1: "FCGI_getchar s = Inr (next_char cs, s1)" "holds s1 (drop 1 cs) out"
    using getchar [OF Suc.prems(1)] by blast
  show ?case
  proof (cases cs)
    case Nil
    then show ?thesis using s1 by (simp add: gets_loop.simps(2) next_char_def EOF_def)
  next
    case (Cons c ds)
    have nl: "uint c = 10 \<longleftrightarrow> c = 10" by (simp add: word_uint_eq_iff)
    have neof: "uint c \<noteq> EOF" by (simp add: EOF_def) (metis neg_0_le_iff_le not_one_le_zero uint_ge_0)
    have uc: "uchar (uint c) = c" by (simp add: uchar_def)
    show ?thesis
    proof (cases "c = 10")
      case True
      then show ?thesis using s1 Cons nl by (simp add: gets_loop.simps(2) next_char_def)
    next
      case False
      from Suc.IH [of s1 ds "acc @ [c]"] s1(2) Suc.prems(2) Cons show ?thesis
        using s1(1) False nl neof uc by (simp add: gets_loop.simps(2) next_char_def)
    qed
  qed
qed simp

lemma do_op_spec:
  assumes "holds s cs out" "op_ok x" "spec_op x cs = (r, ds, o')" "vfprintf_ok ctext"
  shows "\<exists>s'. do_op ctext lc alloc x s = Inr (r, s') \<and> holds s' ds (out @ o')"
proof (cases x)
  case Getchar
  then show ?thesis using getchar [OF assms(1)] assms(3) by auto
next
  case Gets
  have "length cs < Suc (input_left s)" using bounded [OF assms(1)] by simp
  from gets_loop_line [OF assms(1) this, of "[]"] show ?thesis using Gets assms(3) by (auto simp: FCGI_gets_def)
next
  case (Fgets n)
  then show ?thesis using fgets [OF assms(1), of n] assms(2,3) by auto
next
  case (Fread sz n)
  then show ?thesis using fread [OF assms(1), of sz n] assms(2,3) by (auto simp: Let_def)
next
  case (Putchar c)
  then show ?thesis using putchar [OF assms(1), of c] assms(3) by auto
next
  case (Puts str)
  then show ?thesis using puts [OF assms(1), of str] assms(3) by auto
next
  case (Fwrite mem sz n)
  then show ?thesis using fwrite [OF assms(1), of sz n mem] assms(2,3) by auto
next
  case (Printf its)
  then show ?thesis using printf [OF assms(1,4), of its] assms(2,3) by auto
next
  case Flush
  then show ?thesis using flush [OF assms(1)] assms(3) by auto
qed

lemma run_ops_spec:
  assumes "holds s cs out" "list_all op_ok xs" "vfprintf_ok ctext"
  shows "\<exists>s'. run_ops ctext lc alloc xs s = Inr (fst (spec_run xs cs), s')
    \<and> holds s' (fst (snd (spec_run xs cs))) (out @ snd (snd (spec_run xs cs)))"
  using assms
proof (induction xs arbitrary: s cs out)
  case (Cons x xs)
  obtain r ds o' where x: "spec_op x cs = (r, ds, o')" by (rule prod_cases3)
  obtain s1 where s1: "do_op ctext lc alloc x s = Inr (r, s1)" "holds s1 ds (out @ o')"
    using do_op_spec [OF Cons.prems(1) _ x Cons.prems(3)] Cons.prems(2) by auto
  from Cons.IH [OF s1(2) _ Cons.prems(3)] Cons.prems(2) show ?case
    using s1(1) x by (auto split: prod.splits)
qed simp

end

section \<open>The files of a CGI process\<close>

definition file_input :: "FILE \<Rightarrow> byte list \<Rightarrow> bool" where
  "file_input f cs \<longleftrightarrow> pushed f = [] \<and> cs = (if fEof f then [] else drop (fpos f) (fdata f))"

definition file_output :: "byte list \<Rightarrow> FILE \<Rightarrow> byte list \<Rightarrow> bool" where
  "file_output before f out \<longleftrightarrow> \<not> broken f \<and> fpos f = length (fdata f) \<and> fdata f = before @ out"

definition on_files :: "byte list \<Rightarrow> io \<Rightarrow> byte list \<Rightarrow> byte list \<Rightarrow> bool" where
  "on_files before s cs out \<longleftrightarrow> ffiles s FCGI_stdin = Some \<lparr>stdio_stream = Some 0, fcgx_stream = None\<rparr>
     \<and> ffiles s FCGI_stdout = Some \<lparr>stdio_stream = Some 1, fcgx_stream = None\<rparr>
     \<and> (\<exists>f0 f1. FILEs s 0 = Some f0 \<and> FILEs s 1 = Some f1 \<and> file_input f0 cs \<and> file_output before f1 out)"

lemma fgetc_input:
  assumes "file_input f cs"
  shows "\<exists>f'. fgetc f = (next_char cs, f') \<and> file_input f' (drop 1 cs)"
proof (cases "fEof f \<or> length (fdata f) \<le> fpos f")
  case True
  then show ?thesis using assms by (auto simp: fgetc_def file_input_def next_char_def)
next
  case False
  then have "drop (fpos f) (fdata f) = fdata f ! fpos f # drop (Suc (fpos f)) (fdata f)"
    by (simp add: Cons_nth_drop_Suc)
  then show ?thesis using assms False by (simp add: fgetc_def file_input_def next_char_def)
qed

lemma uint_no_EOF [simp]: "uint (c :: byte) \<noteq> EOF"
  by (simp add: EOF_def) (metis neg_0_le_iff_le not_one_le_zero uint_ge_0)

lemma uchar_uint [simp]: "uchar (uint (c :: byte)) = c"
  by (simp add: uchar_def)

lemma getn_input:
  assumes "file_input f cs"
  shows "\<exists>f'. getn n f = (take n cs, f') \<and> file_input f' (drop n cs)"
  using assms
proof (induction n arbitrary: f cs)
  case (Suc n)
  obtain f1 where f1: "fgetc f = (next_char cs, f1)" "file_input f1 (drop 1 cs)"
    using fgetc_input [OF Suc.prems] by blast
  show ?case
  proof (cases cs)
    case (Cons c ds)
    then show ?thesis using Suc.IH [of f1 ds] f1 by (auto simp: next_char_def)
  qed (use f1 in \<open>simp add: next_char_def\<close>)
qed simp

lemma newline_iff: "uint (c :: byte) = 10 \<longleftrightarrow> c = 10" "uchar 10 = 10"
  by (simp_all add: word_uint_eq_iff uchar_def)

lemma line_of_Nil [simp]: "line_of n [] = []"
  by (simp add: line_of_def)

lemma line_of_0 [simp]: "line_of 0 cs = []"
  by (simp add: line_of_def)

lemma fgets_loop_input:
  assumes "file_input f cs"
  shows "\<exists>f'. fgets_loop n acc f = (if acc = [] \<and> cs = [] \<and> 0 < n then None else Some (acc @ line_of n cs), f')
    \<and> file_input f' (drop (length (line_of n cs)) cs)"
  using assms
proof (induction n arbitrary: f cs acc)
  case (Suc n)
  obtain f1 where f1: "fgetc f = (next_char cs, f1)" "file_input f1 (drop 1 cs)"
    using fgetc_input [OF Suc.prems] by blast
  show ?case
  proof (cases cs)
    case (Cons c ds)
    then show ?thesis using Suc.IH [of f1 ds "acc @ [c]"] f1
      by (auto simp: next_char_def newline_iff line_of_Cons)
  qed (use f1 in \<open>simp add: next_char_def\<close>)
qed auto

lemma fgets_input:
  assumes "file_input f cs" "0 < n"
  shows "\<exists>f'. fgets n f = (next_line n cs, f') \<and> file_input f' (line_rest n cs)"
  using fgets_loop_input [OF assms(1), of "nat (n - 1)" "[]"] assms(2)
  by (auto simp: fgets_def next_line_def line_rest_def)

lemma fput_output:
  assumes "file_output before f out"
  shows "\<exists>f'. fput bs f = (True, f') \<and> file_output before f' (out @ bs)"
  using assms by (simp add: fput_def file_output_def put_bytes_def)

lemma on_files_input:
  assumes "on_files before s cs out" "\<And>f. file_input f cs \<Longrightarrow> \<exists>f'. do f = (x, f') \<and> file_input f' ds"
  shows "\<exists>s'. on_file 0 do s = Inr (x, s') \<and> on_files before s' ds out"
proof -
  obtain f0 f1 where f: "FILEs s 0 = Some f0" "FILEs s 1 = Some f1" "file_input f0 cs" "file_output before f1 out"
    using assms(1) by (auto simp: on_files_def)
  obtain f' where "do f0 = (x, f')" "file_input f' ds" using assms(2) [OF f(3)] by blast
  then show ?thesis using assms(1) f by (auto simp: on_file_def on_files_def)
qed

lemma on_files_output:
  assumes "on_files before s cs out" "\<And>f. file_output before f out \<Longrightarrow> \<exists>f'. do f = (x, f') \<and> file_output before f' (out @ bs)"
  shows "\<exists>s'. on_file 1 do s = Inr (x, s') \<and> on_files before s' cs (out @ bs)"
proof -
  obtain f0 f1 where f: "FILEs s 0 = Some f0" "FILEs s 1 = Some f1" "file_input f0 cs" "file_output before f1 out"
    using assms(1) by (auto simp: on_files_def)
  obtain f' where "do f1 = (x, f')" "file_output before f' (out @ bs)" using assms(2) [OF f(4)] by blast
  then show ?thesis using assms(1) f by (auto simp: on_file_def on_files_def)
qed

lemma via_files:
  assumes "on_files before s cs out"
  shows "via FCGI_stdin x y z s = x 0 s" "via FCGI_stdout x y z s = x 1 s"
  using assms by (simp_all add: via_def on_files_def)

lemma files_laws:
  assumes h: "on_files before s cs out"
  shows "\<exists>s'. FCGI_getchar s = Inr (next_char cs, s') \<and> on_files before s' (drop 1 cs) out"
    and "length cs \<le> input_left s"
    and "0 < m \<Longrightarrow> \<exists>s'. FCGI_fgets m FCGI_stdin s = Inr (next_line m cs, s') \<and> on_files before s' (line_rest m cs) out"
    and "\<exists>s'. FCGI_fread sz n FCGI_stdin s = Inr ((word_of_nat (length (take (unat (sz * n)) cs)) div sz, take (unat (sz * n)) cs), s')
      \<and> on_files before s' (drop (unat (sz * n)) cs) out"
    and "\<exists>s'. FCGI_putchar c s = Inr (uint (uchar c), s') \<and> on_files before s' cs (out @ [uchar c])"
    and "\<exists>s'. FCGI_puts str s = Inr (10, s') \<and> on_files before s' cs (out @ c_str str @ [10])"
    and "\<exists>s'. FCGI_fwrite mem sz n FCGI_stdout s = Inr (sz * n div sz, s') \<and> on_files before s' cs (out @ take (unat (sz * n)) mem)"
    and "vfprintf_ok ctext \<Longrightarrow> list_all item_ok its \<Longrightarrow>
      \<exists>s'. FCGI_printf ctext lc alloc (concat (map item_fmt its)) (concat (map item_args its)) s =
        Inr (int (length (concat (map item_out its))), s') \<and> on_files before s' cs (out @ concat (map item_out its))"
    and "\<exists>s'. FCGI_fflush (Some FCGI_stdout) s = Inr (0, s') \<and> on_files before s' cs out"
proof -
  note via = via_files [OF h]
  show "\<exists>s'. FCGI_getchar s = Inr (next_char cs, s') \<and> on_files before s' (drop 1 cs) out"
    unfolding FCGI_getchar_def FCGI_fgetc_def via by (rule on_files_input [OF h fgetc_input])
  show "length cs \<le> input_left s"
    using h by (auto simp: on_files_def input_left_def file_input_def)
  show "\<exists>s'. FCGI_fgets m FCGI_stdin s = Inr (next_line m cs, s') \<and> on_files before s' (line_rest m cs) out" if "0 < m"
    unfolding FCGI_fgets_def via by (rule on_files_input [OF h fgets_input [OF _ that]])
  have "\<exists>f'. fread sz n f = ((word_of_nat (length (take (unat (sz * n)) cs)) div sz, take (unat (sz * n)) cs), f')
      \<and> file_input f' (drop (unat (sz * n)) cs)" if "file_input f cs" for f
    using getn_input [OF that, of "unat (sz * n)"] by (auto simp: fread_def)
  then show "\<exists>s'. FCGI_fread sz n FCGI_stdin s = Inr ((word_of_nat (length (take (unat (sz * n)) cs)) div sz, take (unat (sz * n)) cs), s')
      \<and> on_files before s' (drop (unat (sz * n)) cs) out"
    unfolding FCGI_fread_def via by (rule on_files_input [OF h])
  have pc: "\<exists>f'. fputc c f = (uint (uchar c), f') \<and> file_output before f' (o' @ [uchar c])" if "file_output before f o'" for f c o'
    using fput_output [OF that, of "[uchar c]"] by (auto simp: fputc_def)
  show "\<exists>s'. FCGI_putchar c s = Inr (uint (uchar c), s') \<and> on_files before s' cs (out @ [uchar c])"
    unfolding FCGI_putchar_def FCGI_fputc_def via by (rule on_files_output [OF h pc])
  have "\<exists>f'. fputs str f = (1, f') \<and> file_output before f' (out @ c_str str)" if "file_output before f out" for f
    using fput_output [OF that, of "c_str str"] by (auto simp: fputs_def)
  from on_files_output [OF h, of "fputs str" 1 "c_str str", OF this] obtain s1 where s1: "on_file 1 (fputs str) s = Inr (1, s1)" "on_files before s1 cs (out @ c_str str)"
    by blast
  from on_files_output [OF s1(2), of "fputc 10" "uint (uchar 10)" "[uchar 10]", OF pc] s1(1)
  show "\<exists>s'. FCGI_puts str s = Inr (10, s') \<and> on_files before s' cs (out @ c_str str @ [10])"
    unfolding FCGI_puts_def via by (simp add: uchar_def)
  have "\<exists>f'. fwrite mem sz n f = (sz * n div sz, f') \<and> file_output before f' (out @ take (unat (sz * n)) mem)"
    if "file_output before f out" for f
    using fput_output [OF that, of "take (unat (sz * n)) mem"] by (auto simp: fwrite_def)
  then show "\<exists>s'. FCGI_fwrite mem sz n FCGI_stdout s = Inr (sz * n div sz, s') \<and> on_files before s' cs (out @ take (unat (sz * n)) mem)"
    unfolding FCGI_fwrite_def via by (rule on_files_output [OF h])
  show "\<exists>s'. FCGI_printf ctext lc alloc (concat (map item_fmt its)) (concat (map item_args its)) s =
        Inr (int (length (concat (map item_out its))), s') \<and> on_files before s' cs (out @ concat (map item_out its))"
    if "vfprintf_ok ctext" "list_all item_ok its"
  proof -
    have "\<exists>f'. vfprintf ctext (concat (map item_fmt its)) (concat (map item_args its)) f = (int (length (concat (map item_out its))), f')
        \<and> file_output before f' (out @ concat (map item_out its))" if "file_output before f out" for f
      using fput_output [OF that, of "concat (map item_out its)"] \<open>vfprintf_ok ctext\<close> \<open>list_all item_ok its\<close>
      by (auto simp: vfprintf_def vfprintf_ok_def)
    then show ?thesis unfolding FCGI_printf_def FCGI_vfprintf_def via by (rule on_files_output [OF h])
  qed
  have "\<exists>f'. fflush f = (0, f') \<and> file_output before f' (out @ [])" if "file_output before f out" for f
    using that by (simp add: fflush_def file_output_def)
  from on_files_output [OF h, of fflush 0 "[]", OF this]
  show "\<exists>s'. FCGI_fflush (Some FCGI_stdout) s = Inr (0, s') \<and> on_files before s' cs out"
    by (simp add: FCGI_fflush_def via)
qed

section \<open>The streams of a request\<close>

text \<open>A reader that still delivers \<open>cs\<close> or, at its end, has closed.\<close>

definition delivers :: "reader_ctx \<Rightarrow> st \<Rightarrow> byte list \<Rightarrow> bool" where
  "delivers K s cs \<longleftrightarrow> \<not> k_eor K \<and> (stream_yields K s cs \<or> cs = [] \<and> stream_ended K s \<and> isClosed (strm s))"

lemma delivers_frame: "delivers K s cs \<Longrightarrow> k_frame K s"
  by (auto simp: delivers_def stream_yields_def stream_ended_def)

lemma delivers_reader: "delivers K s cs \<Longrightarrow> isReader (strm s)"
  by (drule delivers_frame) (simp add: k_frame_def rd_inv_def Let_def)

lemma delivers_bound: "delivers K s cs \<Longrightarrow> length cs \<le> length (unread s)"
  using stream_source.yields_unread [of K s cs] by (auto simp: delivers_def)

text \<open>What writing to the connection does not change for the reader.\<close>

lemma delivers_sys:
  assumes "delivers K s cs" "incoming (ipcFd (rqd s)) w = incoming (ipcFd (rqd s)) (sys s)"
  shows "delivers (K\<lparr>k_sys := w\<rparr>) (s\<lparr>sys := w\<rparr>) cs"
proof -
  have u: "unread (s\<lparr>sys := w\<rparr>) = unread s" using assms(2) by (simp add: unread_def)
  have f: "k_frame (K\<lparr>k_sys := w\<rparr>) (s\<lparr>sys := w\<rparr>)" if "k_frame K s"
    using that by (simp add: k_frame_def rd_inv_def)
  have k: "k_ok (K\<lparr>k_sys := w\<rparr>) = k_ok K" "k_records (K\<lparr>k_sys := w\<rparr>) = k_records K"
    by (simp_all add: k_ok_def k_records_def fun_eq_iff)
  have y: "stream_yields (K\<lparr>k_sys := w\<rparr>) (s\<lparr>sys := w\<rparr>) cs" if "stream_yields K s cs"
    using that f unfolding stream_yields_def u k by simp
  have e: "stream_ended (K\<lparr>k_sys := w\<rparr>) (s\<lparr>sys := w\<rparr>)" if "stream_ended K s"
    using that f unfolding stream_ended_def u by simp
  show ?thesis
  proof (cases "stream_yields K s cs")
    case True
    then show ?thesis using y assms(1) by (simp add: delivers_def)
  next
    case False
    then show ?thesis using e assms(1) by (simp add: delivers_def)
  qed
qed

lemma GetChar_delivers:
  assumes "delivers K s cs"
  shows "\<exists>s'. FCGX_GetChar FillBuffProc s = Inr (next_char cs, s') \<and> delivers K s' (drop 1 cs)"
proof (cases "stream_yields K s cs")
  case y: True
  show ?thesis
  proof (cases cs)
    case Nil
    then show ?thesis using stream_source.GetChar_end [of K s] y assms by (auto simp: delivers_def next_char_def)
  next
    case (Cons c ds)
    then show ?thesis using stream_source.GetChar_yields [of K s c ds] y assms by (auto simp: delivers_def next_char_def)
  qed
next
  case False
  then show ?thesis using assms by (auto simp: delivers_def next_char_def FCGX_GetChar_def)
qed

lemma GetLine_loop_delivers:
  assumes "delivers K s cs"
  shows "\<exists>s'. GetLine_loop FillBuffProc n acc s = Inr (if acc = [] \<and> cs = [] \<and> 0 < n then None else Some (acc @ line_of n cs), s')
    \<and> delivers K s' (drop (length (line_of n cs)) cs)"
  using assms
proof (induction n arbitrary: s cs acc)
  case (Suc n)
  obtain s1 where s1: "FCGX_GetChar FillBuffProc s = Inr (next_char cs, s1)" "delivers K s1 (drop 1 cs)"
    using GetChar_delivers [OF Suc.prems] by blast
  show ?case
  proof (cases cs)
    case (Cons c ds)
    then show ?thesis using Suc.IH [of s1 ds "acc @ [c]"] s1
      by (auto simp: next_char_def newline_iff line_of_Cons)
  qed (use s1 in \<open>simp add: next_char_def\<close>)
qed simp

lemma GetLine_delivers:
  assumes "delivers K s cs" "0 < m"
  shows "\<exists>s'. FCGX_GetLine FillBuffProc m s = Inr (next_line m cs, s') \<and> delivers K s' (line_rest m cs)"
  using GetLine_loop_delivers [OF assms(1), of "nat (m - 1)" "[]"] assms(2)
  by (auto simp: FCGX_GetLine_def next_line_def line_rest_def)

lemma GetStr_delivers:
  assumes "delivers K s cs"
  shows "\<exists>s'. FCGX_GetStr FillBuffProc (int n) s = Inr (take n cs, s') \<and> delivers K s' (drop n cs)"
proof (cases "stream_yields K s cs")
  case y: True
  have e: "\<not> k_eor K" using assms by (simp add: delivers_def)
  obtain s' where s': "FCGX_GetStr FillBuffProc (int n) s = Inr (take n cs, s')" "stream_source.left_at K n cs s'"
    using stream_source.GetStr_yields [of K s cs n] y e by blast
  have "delivers K s' (drop n cs)"
    using s'(2) e unfolding stream_source.left_at_def delivers_def by (cases "n \<le> length cs") simp_all
  then show ?thesis using s'(1) by blast
next
  case False
  then show ?thesis using assms by (auto simp: delivers_def FCGX_GetStr_def)
qed

text \<open>A writer that has been given \<open>out\<close> since its connection had received \<open>before\<close>.\<close>

definition given :: "byte list \<Rightarrow> FCGX_Stream \<Rightarrow> FCGX_ReqData \<Rightarrow> os \<Rightarrow> byte list \<Rightarrow> bool" where
  "given before t r w out \<longleftrightarrow> wr_ready t \<and> dtype t = FCGI_STDOUT \<and> writable (ipcFd r) w
     \<and> (\<exists>fr x. sent (conns w (ipcFd r)) = before @ fr \<and> framed (requestId r) FCGI_STDOUT fr x \<and> out = x @ content t)"

lemma given_took:
  assumes "given before t r w out" "took_content \<lparr>strm = t, rqd = r, sys = w\<rparr> s' (content t @ bs)"
  shows "given before (strm s') r (sys s') (out @ bs)" "rqd s' = r" "same_input (ipcFd r) w (sys s')"
proof -
  have w: "wr_inv s'" "\<not> rawWrite (strm s')" "8 \<le> wrNext (strm s')" "dtype (strm s') = dtype t" "writable (ipcFd r) (sys s')"
    using assms(2) by (simp_all add: took_content_def writing_def)
  show "rqd s' = r" "same_input (ipcFd r) w (sys s')" using assms(2) by (simp_all add: took_content_def writing_def)
  obtain fr x where fr: "sent (conns w (ipcFd r)) = before @ fr" "framed (requestId r) FCGI_STDOUT fr x" "out = x @ content t"
      "dtype t = FCGI_STDOUT"
    using assms(1) by (auto simp: given_def)
  obtain fr' y where fr': "sent (conns (sys s') (ipcFd r)) = sent (conns w (ipcFd r)) @ fr'"
      "framed (requestId r) (dtype t) fr' y" "content t @ bs = y @ content (strm s')"
    using assms(2) by (auto simp: took_content_def)
  have "framed (requestId r) FCGI_STDOUT (fr @ fr') (x @ y)" using framed_append fr(2,4) fr'(2) by simp
  then show "given before (strm s') r (sys s') (out @ bs)"
    using wr_readyI [OF w(1-3)] w(4,5) fr fr' by (auto simp: given_def intro!: exI [of _ "fr @ fr'"] exI [of _ "x @ y"])
qed

definition on_streams :: "byte list \<Rightarrow> io \<Rightarrow> byte list \<Rightarrow> byte list \<Rightarrow> bool" where
  "on_streams before s cs out \<longleftrightarrow> ffiles s FCGI_stdin = Some \<lparr>stdio_stream = None, fcgx_stream = Some In_stream\<rparr>
     \<and> ffiles s FCGI_stdout = Some \<lparr>stdio_stream = None, fcgx_stream = Some Out_stream\<rparr>
     \<and> (\<exists>tin tout K. let q = the_request (fLib s) in reqIn q = Some tin \<and> reqOut q = Some tout
          \<and> delivers K \<lparr>strm = tin, rqd = reqData q, sys = fOs s\<rparr> cs \<and> given before tout (reqData q) (fOs s) out)"

lemma on_streamsI:
  assumes "ffiles s FCGI_stdin = Some \<lparr>stdio_stream = None, fcgx_stream = Some In_stream\<rparr>"
    "ffiles s FCGI_stdout = Some \<lparr>stdio_stream = None, fcgx_stream = Some Out_stream\<rparr>"
    "reqIn (the_request (fLib s)) = Some tin" "reqOut (the_request (fLib s)) = Some tout" "reqData (the_request (fLib s)) = r"
    "delivers K \<lparr>strm = tin, rqd = r, sys = fOs s\<rparr> cs" "given before tout r (fOs s) out"
  shows "on_streams before s cs out"
  unfolding on_streams_def Let_def using assms by blast

lemma on_streamsE:
  assumes "on_streams before s cs out"
  obtains tin tout K where "ffiles s FCGI_stdin = Some \<lparr>stdio_stream = None, fcgx_stream = Some In_stream\<rparr>"
    "ffiles s FCGI_stdout = Some \<lparr>stdio_stream = None, fcgx_stream = Some Out_stream\<rparr>"
    "reqIn (the_request (fLib s)) = Some tin" "reqOut (the_request (fLib s)) = Some tout"
    "delivers K \<lparr>strm = tin, rqd = reqData (the_request (fLib s)), sys = fOs s\<rparr> cs"
    "given before tout (reqData (the_request (fLib s))) (fOs s) out"
  using assms unfolding on_streams_def Let_def by blast

lemma via_streams:
  assumes "on_streams before s cs out"
  shows "via FCGI_stdin x y z s = y In_stream s" "via FCGI_stdout x y z s = y Out_stream s"
  using assms by (simp_all add: via_def on_streams_def)

lemma on_streams_input:
  assumes "on_streams before s cs out"
    "\<And>K t. delivers K t cs \<Longrightarrow> \<exists>t'. do t = Inr (x, t') \<and> delivers K t' ds"
  shows "\<exists>s'. on_stream In_stream do s = Inr (x, s') \<and> on_streams before s' ds out"
proof -
  let ?q = "the_request (fLib s)" let ?r = "reqData ?q"
  from assms(1) show ?thesis
  proof (rule on_streamsE)
    fix tin tout K
    assume p: "ffiles s FCGI_stdin = Some \<lparr>stdio_stream = None, fcgx_stream = Some In_stream\<rparr>"
      "ffiles s FCGI_stdout = Some \<lparr>stdio_stream = None, fcgx_stream = Some Out_stream\<rparr>"
      and f: "reqIn ?q = Some tin" "reqOut ?q = Some tout"
        "delivers K \<lparr>strm = tin, rqd = ?r, sys = fOs s\<rparr> cs" "given before tout ?r (fOs s) out"
    obtain t' where t': "do \<lparr>strm = tin, rqd = ?r, sys = fOs s\<rparr> = Inr (x, t')" "delivers K t' ds"
      using assms(2) [OF f(3)] by blast
    have k: "rqd t' = ?r" "same_output (k_sys K) (fOs s)" "same_output (k_sys K) (sys t')"
      using delivers_frame [OF f(3)] delivers_frame [OF t'(2)] by (simp_all add: k_frame_def)
    have so: "same_output (fOs s) (sys t')" using k(2,3) by (simp add: same_output_def)
    have "writable (ipcFd ?r) (sys t')" using f(4) writable_same_output [OF _ so] by (simp add: given_def)
    moreover have "sent (conns (sys t') (ipcFd ?r)) = sent (conns (fOs s) (ipcFd ?r))" using so by (simp add: same_output_def)
    ultimately have g: "given before tout ?r (sys t') out" using f(4) by (simp add: given_def)
    have "t' = \<lparr>strm = strm t', rqd = ?r, sys = sys t'\<rparr>" using k(1) by (cases t') simp
    with t'(2) have d: "delivers K \<lparr>strm = strm t', rqd = ?r, sys = sys t'\<rparr> ds" by simp
    let ?s = "s\<lparr>fLib := (fLib s)\<lparr>the_request := ?q\<lparr>reqIn := Some (strm t'), reqData := ?r\<rparr>\<rparr>, fOs := sys t'\<rparr>"
    have "on_stream In_stream do s = Inr (x, ?s)"
      using t'(1) k(1) f(1) by (simp add: on_stream_def with_stream_def Let_def)
    moreover have "on_streams before ?s ds out" by (rule on_streamsI [of _ "strm t'" tout ?r K]) (use p f(2) d g in simp_all)
    ultimately show ?thesis by blast
  qed
qed

lemma on_streams_output:
  assumes "on_streams before s cs out"
    "\<And>s0 t ds. took_content s0 t ds \<Longrightarrow> \<exists>t'. do t = Inr (x, t') \<and> took_content s0 t' (ds @ bs)"
  shows "\<exists>s'. on_stream Out_stream do s = Inr (x, s') \<and> on_streams before s' cs (out @ bs)"
proof -
  let ?q = "the_request (fLib s)" let ?r = "reqData ?q"
  from assms(1) show ?thesis
  proof (rule on_streamsE)
    fix tin tout K
    assume p: "ffiles s FCGI_stdin = Some \<lparr>stdio_stream = None, fcgx_stream = Some In_stream\<rparr>"
      "ffiles s FCGI_stdout = Some \<lparr>stdio_stream = None, fcgx_stream = Some Out_stream\<rparr>"
      and f: "reqIn ?q = Some tin" "reqOut ?q = Some tout"
        "delivers K \<lparr>strm = tin, rqd = ?r, sys = fOs s\<rparr> cs" "given before tout ?r (fOs s) out"
    have "took_content \<lparr>strm = tout, rqd = ?r, sys = fOs s\<rparr> \<lparr>strm = tout, rqd = ?r, sys = fOs s\<rparr> (content tout)"
      using f(4) by (intro took_content_self) (simp_all add: given_def)
    then obtain t' where t': "do \<lparr>strm = tout, rqd = ?r, sys = fOs s\<rparr> = Inr (x, t')"
        "took_content \<lparr>strm = tout, rqd = ?r, sys = fOs s\<rparr> t' (content tout @ bs)"
      using assms(2) by blast
    note g = given_took [OF f(4) t'(2)]
    have "delivers (K\<lparr>k_sys := sys t'\<rparr>) (\<lparr>strm = tin, rqd = ?r, sys = fOs s\<rparr>\<lparr>sys := sys t'\<rparr>) cs"
      using same_input_incoming [OF g(3)] by (intro delivers_sys [OF f(3)]) simp
    then have d: "delivers (K\<lparr>k_sys := sys t'\<rparr>) \<lparr>strm = tin, rqd = ?r, sys = sys t'\<rparr> cs" by simp
    let ?s = "s\<lparr>fLib := (fLib s)\<lparr>the_request := ?q\<lparr>reqOut := Some (strm t'), reqData := ?r\<rparr>\<rparr>, fOs := sys t'\<rparr>"
    have "on_stream Out_stream do s = Inr (x, ?s)"
      using t'(1) g(2) f(2) by (simp add: on_stream_def with_stream_def Let_def)
    moreover have "on_streams before ?s cs (out @ bs)"
      by (rule on_streamsI [of _ tin "strm t'" ?r "K\<lparr>k_sys := sys t'\<rparr>"]) (use p f(1) d g(1) in simp_all)
    ultimately show ?thesis by blast
  qed
qed

lemma int_of_size_small:
  assumes "unat n < 2 ^ 31"
  shows "int_of_size n = int (unat n)"
proof -
  have n: "(0 :: int) \<le> uint n" by simp
  have "int (unat n) < 2 ^ 31" using assms by (simp only: of_nat_less_numeral_power_cancel_iff)
  then have b: "uint n < 2 ^ 31" by simp
  have l: "- (2 ^ 31) \<le> uint n" by (rule order_trans [OF _ n]) simp
  have u: "uint (ucast n :: 32 word) = uint n"
    using n less_trans [OF b, of "2 ^ 32"] by (simp only: unsigned_ucast_eq take_bit_int_eq_self_iff) simp
  have "sint (ucast n :: 32 word) = signed_take_bit 31 (uint n)" by (simp only: sint_uint u) simp
  also have "\<dots> = uint n" using l b by (intro signed_take_bit_int_eq_self) simp_all
  finally show ?thesis by (simp add: int_of_size_def)
qed

lemma stream_printf_took:
  assumes "list_all item_ok its" "took_content s0 t ds"
  shows "\<exists>t'. stream_printf lc alloc (concat (map item_fmt its)) (concat (map item_args its)) t =
      Inr (int (length (concat (map item_out its))), t') \<and> took_content s0 t' (ds @ concat (map item_out its))"
  using content_sink.VFPrintF_items [OF assms, of lc alloc] by (auto simp: stream_printf_def)

lemma streams_laws:
  assumes h: "on_streams before s cs out"
  shows "\<exists>s'. FCGI_getchar s = Inr (next_char cs, s') \<and> on_streams before s' (drop 1 cs) out"
    and "length cs \<le> input_left s"
    and "0 < m \<Longrightarrow> \<exists>s'. FCGI_fgets m FCGI_stdin s = Inr (next_line m cs, s') \<and> on_streams before s' (line_rest m cs) out"
    and "unat (sz * n) < 2 ^ 31 \<Longrightarrow> \<exists>s'. FCGI_fread sz n FCGI_stdin s =
      Inr ((word_of_nat (length (take (unat (sz * n)) cs)) div sz, take (unat (sz * n)) cs), s')
      \<and> on_streams before s' (drop (unat (sz * n)) cs) out"
    and "\<exists>s'. FCGI_putchar c s = Inr (uint (uchar c), s') \<and> on_streams before s' cs (out @ [uchar c])"
    and "\<exists>s'. FCGI_puts str s = Inr (10, s') \<and> on_streams before s' cs (out @ c_str str @ [10])"
    and "unat (sz * n) < 2 ^ 31 \<Longrightarrow> unat (sz * n) \<le> length mem \<Longrightarrow>
      \<exists>s'. FCGI_fwrite mem sz n FCGI_stdout s = Inr (sz * n div sz, s') \<and> on_streams before s' cs (out @ take (unat (sz * n)) mem)"
    and "list_all item_ok its \<Longrightarrow>
      \<exists>s'. FCGI_printf ctext lc alloc (concat (map item_fmt its)) (concat (map item_args its)) s =
        Inr (int (length (concat (map item_out its))), s') \<and> on_streams before s' cs (out @ concat (map item_out its))"
    and "\<exists>s'. FCGI_fflush (Some FCGI_stdout) s = Inr (0, s') \<and> on_streams before s' cs out"
proof -
  note via = via_streams [OF h]
  show "\<exists>s'. FCGI_getchar s = Inr (next_char cs, s') \<and> on_streams before s' (drop 1 cs) out"
    unfolding FCGI_getchar_def FCGI_fgetc_def via by (rule on_streams_input [OF h GetChar_delivers])
  from h show "length cs \<le> input_left s"
  proof (rule on_streamsE)
    fix tin tout K
    assume p: "ffiles s FCGI_stdin = Some \<lparr>stdio_stream = None, fcgx_stream = Some In_stream\<rparr>" "reqIn (the_request (fLib s)) = Some tin"
      and "delivers K \<lparr>strm = tin, rqd = reqData (the_request (fLib s)), sys = fOs s\<rparr> cs"
    from delivers_bound [OF this(3)] show ?thesis using p by (simp add: input_left_def)
  qed
  show "\<exists>s'. FCGI_fgets m FCGI_stdin s = Inr (next_line m cs, s') \<and> on_streams before s' (line_rest m cs) out" if "0 < m"
    unfolding FCGI_fgets_def via by (rule on_streams_input [OF h GetLine_delivers [OF _ that]])
  show "\<exists>s'. FCGI_fread sz n FCGI_stdin s =
      Inr ((word_of_nat (length (take (unat (sz * n)) cs)) div sz, take (unat (sz * n)) cs), s')
      \<and> on_streams before s' (drop (unat (sz * n)) cs) out" if "unat (sz * n) < 2 ^ 31"
  proof (cases "sz * n = 0")
    case True
    then show ?thesis using h by (simp add: FCGI_fread_def via)
  next
    case False
    have "\<exists>s'. on_stream In_stream (FCGX_GetStr FillBuffProc (int (unat (sz * n)))) s = Inr (take (unat (sz * n)) cs, s')
        \<and> on_streams before s' (drop (unat (sz * n)) cs) out"
      by (rule on_streams_input [OF h GetStr_delivers])
    then show ?thesis using False int_of_size_small [OF that] by (auto simp: FCGI_fread_def via)
  qed
  show pc: "\<exists>s'. FCGI_putchar c s = Inr (uint (uchar c), s') \<and> on_streams before s' cs (out @ [uchar c])"
    unfolding FCGI_putchar_def FCGI_fputc_def via by (rule on_streams_output [OF h content_sink.PutChar_took])
  obtain s1 where s1: "on_stream Out_stream (FCGX_PutS EmptyBuffProc str) s = Inr (int (length (c_str str)), s1)"
      "on_streams before s1 cs (out @ c_str str)"
    using on_streams_output [OF h, of "FCGX_PutS EmptyBuffProc str" "int (length (c_str str))" "c_str str", OF content_sink.PutS_took] by blast
  from on_streams_output [OF s1(2), of "FCGX_PutChar EmptyBuffProc 10" "uint (uchar 10)" "[uchar 10]", OF content_sink.PutChar_took] s1(1)
  show "\<exists>s'. FCGI_puts str s = Inr (10, s') \<and> on_streams before s' cs (out @ c_str str @ [10])"
    by (simp add: FCGI_puts_def via uchar_def)
  show "\<exists>s'. FCGI_fwrite mem sz n FCGI_stdout s = Inr (sz * n div sz, s') \<and> on_streams before s' cs (out @ take (unat (sz * n)) mem)"
    if b: "unat (sz * n) < 2 ^ 31" "unat (sz * n) \<le> length mem"
  proof (cases "sz * n = 0")
    case True
    then show ?thesis using h by (simp add: FCGI_fwrite_def via)
  next
    case False
    define k where "k = unat (sz * n)"
    have k: "int_of_size (sz * n) = int k" "k \<le> length mem" "word_of_int (int k) = sz * n"
      using int_of_size_small [OF b(1)] b(2) by (simp_all add: k_def)
    have "\<exists>t'. put_counted mem (int k) t = Inr (int k, t') \<and> took_content s0 t' (ds @ take k mem)" if "took_content s0 t ds" for s0 t ds
      using content_sink.PutStr_took [OF that, of "take k mem"] k(2) by (simp add: put_counted_def)
    from on_streams_output [OF h, of "put_counted mem (int k)" "int k" "take k mem", OF this] obtain s' where
      "on_stream Out_stream (put_counted mem (int k)) s = Inr (int k, s')" "on_streams before s' cs (out @ take k mem)" by blast
    then show ?thesis using False k by (simp add: FCGI_fwrite_def via k_def [symmetric])
  qed
  show "\<exists>s'. FCGI_printf ctext lc alloc (concat (map item_fmt its)) (concat (map item_args its)) s =
        Inr (int (length (concat (map item_out its))), s') \<and> on_streams before s' cs (out @ concat (map item_out its))"
    if "list_all item_ok its"
    unfolding FCGI_printf_def FCGI_vfprintf_def via by (rule on_streams_output [OF h stream_printf_took [OF that]])
  have "\<exists>t'. FCGX_FFlush EmptyBuffProc t = Inr (0, t') \<and> took_content s0 t' (ds @ [])" if "took_content s0 t ds" for s0 t ds
    using content_sink.FFlush_took [OF that] by auto
  from on_streams_output [OF h, of "FCGX_FFlush EmptyBuffProc" 0 "[]", OF this]
  show "\<exists>s'. FCGI_fflush (Some FCGI_stdout) s = Inr (0, s') \<and> on_streams before s' cs out"
    by (simp add: FCGI_fflush_def via)
qed

section \<open>The two interpretations\<close>

interpretation files: std_streams "on_files before" ctext lc alloc for before ctext lc alloc
proof (unfold_locales, goal_cases)
  case (1 s cs out) then show ?case by (rule files_laws(1))
next
  case (2 s cs out) then show ?case by (rule files_laws(2))
next
  case (3 s cs out m) then show ?case by (rule files_laws(3))
next
  case (4 s cs out sz n) show ?case by (rule files_laws(4) [OF 4(1)])
next
  case (5 s cs out c) then show ?case by (rule files_laws(5))
next
  case (6 s cs out str) then show ?case by (rule files_laws(6))
next
  case (7 s cs out sz n mem) show ?case by (rule files_laws(7) [OF 7(1)])
next
  case (8 s cs out its) then show ?case by (rule files_laws(8))
next
  case (9 s cs out) then show ?case by (rule files_laws(9))
qed

interpretation streams: std_streams "on_streams before" ctext lc alloc for before ctext lc alloc
proof (unfold_locales, goal_cases)
  case (1 s cs out) then show ?case by (rule streams_laws(1))
next
  case (2 s cs out) then show ?case by (rule streams_laws(2))
next
  case (3 s cs out m) then show ?case by (rule streams_laws(3))
next
  case (4 s cs out sz n) then show ?case by (rule streams_laws(4))
next
  case (5 s cs out c) then show ?case by (rule streams_laws(5))
next
  case (6 s cs out str) then show ?case by (rule streams_laws(6))
next
  case (7 s cs out sz n mem) then show ?case by (rule streams_laws(7))
next
  case (8 s cs out its) show ?case by (rule streams_laws(8) [OF 8(1,3)])
next
  case (9 s cs out) then show ?case by (rule streams_laws(9))
qed

section \<open>Accepting\<close>

lemma accept_streams_files:
  assumes "isCGI s" "FILEs s 0 = Some f0" "FILEs s 1 = Some f1" "file_input f0 cs" "\<not> broken f1" "fpos f1 = length (fdata f1)"
  shows "\<exists>s'. accept_streams al getenv s = Inr (0, s') \<and> on_files (fdata f1) s' cs []"
  using assms by (simp add: accept_streams_def on_files_def set_file_def file_output_def FCGI_stdin_def FCGI_stdout_def FCGI_stderr_def)

lemma accept_streams_request:
  assumes "\<not> isCGI s" "libInitialized (fLib s)"
    and q: "no_request (the_request (fLib s))"
    and fd: "(if ipcFd (reqData (the_request (fLib s))) < 0
        then OS_Accept (flags (reqData (the_request (fLib s))) AND FCGI_FAIL_ACCEPT_ON_INTR \<noteq> 0) (webServerAddressList (fLib s)) (fOs s)
        else Inr (ipcFd (reqData (the_request (fLib s))), fOs s)) = Inr (fd, w1)" "0 \<le> fd"
    and inc: "incoming fd w1 = rec_bytes FCGI_BEGIN_REQUEST rid (begin_body_bytes b) [] @ pw"
    and rec: "records rid FCGI_PARAMS 0 stdin pw (pairs_bytes nvs)" and fit: "list_all pair_fits nvs"
    and sin: "records rid FCGI_STDIN 0 tail stdin cs"
    and rid: "0 < rid" "rid \<le> 65535" and body: "length (b_reserved b) = 5"
    and role: "role_string (be16 (b_roleB1 b) (b_roleB0 b)) = Some rs"
    and wr: "writable fd w1"
  shows "\<exists>s' p. accept_streams al getenv s = Inr (0, s') \<and> on_streams (sent (conns w1 fd)) s' cs []
    \<and> environ s' = Some (vec p) \<and> params_ok p \<and> entries p = rs # map pair_entry nvs"
proof -
  let ?q = "the_request (fLib s)"
  from Accept_r_accepts [OF q fd inc rec fit sin rid _ body role] obtain q1 w2 K tin tout terr p where
    a: "FCGX_Accept_r True (webServerAddressList (fLib s)) ?q (fOs s) = Inr (0, q1, w2)" "open_request q1 tin tout terr"
     "reqData q1 = (request_of rid b (reqData ?q))\<lparr>ipcFd := fd, nWriters := 2\<rparr>"
     "envp q1 = Some (vec p)" "params_ok p" "entries p = rs # map pair_entry nvs" "content tout = []"
     "stream_yields K \<lparr>strm = tin, rqd = reqData q1, sys = w2\<rparr> cs" "\<not> k_eor K"
     "\<forall>f. isOpen (conns w2 f) = isOpen (conns w1 f) \<and> sent (conns w2 f) = sent (conns w1 f)
           \<and> wrScript (conns w2 f) = wrScript (conns w1 f)" "shutdownNow w2 = shutdownNow w1"
    by auto
  let ?s = "(set_file FCGI_stderr (Some \<lparr>stdio_stream = None, fcgx_stream = Some Err_stream\<rparr>)
                     (set_file FCGI_stdout (Some \<lparr>stdio_stream = None, fcgx_stream = Some Out_stream\<rparr>)
                     (set_file FCGI_stdin (Some \<lparr>stdio_stream = None, fcgx_stream = Some In_stream\<rparr>)
        (s\<lparr>fLib := (fLib s)\<lparr>the_request := q1\<rparr>, fOs := w2\<rparr>))))\<lparr>environ := Some (vec p)\<rparr>"
  have run: "accept_streams al getenv s = Inr (0, ?s)"
    using assms(1,2) a(1,4) by (simp add: accept_streams_def FCGX_Accept_def Let_def)
  have o: "reqIn q1 = Some tin" "reqOut q1 = Some tout" "wr_ready tout" "dtype tout = FCGI_STDOUT"
    using a(2) by (simp_all add: open_request_def)
  have ip: "ipcFd (reqData q1) = fd" "requestId (reqData q1) = rid" using a(3) by (simp_all add: request_of_def)
  have "writable fd w2" using wr a(10,11) by (simp add: writable_def)
  then have g: "given (sent (conns w1 fd)) tout (reqData q1) w2 []"
    using o(3,4) a(7,10) ip framed.none by (auto simp: given_def)
  have "on_streams (sent (conns w1 fd)) ?s cs []"
    by (rule on_streamsI [of _ tin tout "reqData q1" K])
      (use o a(8,9) g in \<open>simp_all add: set_file_def FCGI_stdin_def FCGI_stdout_def FCGI_stderr_def delivers_def\<close>)
  then show ?thesis using run a(5,6) by (intro exI [of _ ?s] exI [of _ p]) simp
qed

end
