(* ===== verification/Fcgi_Stdio_Properties.thy ===== *)
theory Fcgi_Stdio_Properties
  imports Fcgi_Stdio_Correct
begin

text \<open>
  The properties of the \<open>stdio\<close> package: that a program cannot tell the files of a CGI process from the streams of a request, what
  \<open>FCGI_Accept\<close> sets up in either case, and where errors are lost.
\<close>

section \<open>Concrete processes\<close>

text \<open>A file that is a buffer in memory, and the \<open>vfprintf\<close> of a C library built on it.\<close>

definition memory_drain :: empty_proc where
  "memory_drain s doClose = Inr (upd (\<lambda>t. t\<lparr>buff := buff t @ replicate 64 0, stop := stop t + 64\<rparr>) s)"

definition in_memory :: "st \<Rightarrow> byte list \<Rightarrow> bool" where
  "in_memory s cs \<longleftrightarrow> (let t = strm s in \<not> isReader t \<and> \<not> isClosed t \<and> stop t = length (buff t) \<and> wrNext t \<le> stop t
     \<and> take (wrNext t) (buff t) = cs)"

interpretation memory_sink: byte_sink memory_drain in_memory
proof (unfold_locales, goal_cases)
  case (1 s cs) then show ?case by (simp add: in_memory_def Let_def)
next
  case (2 s cs bs) then show ?case by (simp add: in_memory_def Let_def take_put_bytes)
next
  case (3 s cs) then show ?case by (simp add: in_memory_def memory_drain_def Let_def)
qed

definition memory_file :: st where
  "memory_file = \<lparr>strm = (fst (NewWriter 64 FCGI_STDOUT (sample_os [])))\<lparr>buff := [], stop := 0, wrNext := 0\<rparr>,
     rqd = sample_req, sys = sample_os []\<rparr>"

definition memory_vfprintf :: "byte list \<Rightarrow> unit varg list \<Rightarrow> byte list option" where
  "memory_vfprintf f args = (case FCGX_VFPrintF no_libc True memory_drain f args memory_file of Inl _ \<Rightarrow> None
     | Inr (n, _, _, s) \<Rightarrow> if n < 0 then None else Some (take (wrNext (strm s)) (buff (strm s))))"

lemma memory_vfprintf_ok: "vfprintf_ok memory_vfprintf"
proof -
  have "in_memory memory_file []"
    by (simp add: in_memory_def memory_file_def NewWriter_def NewStream_def Let_def)
  then show ?thesis unfolding vfprintf_ok_def memory_vfprintf_def
    using memory_sink.VFPrintF_items [of _ memory_file "[]" no_libc True] by (fastforce simp: in_memory_def Let_def)
qed

definition sample_FILE :: "byte list \<Rightarrow> FILE" where
  "sample_FILE bs = \<lparr>fdata = bs, fpos = 0, pushed = [], fEof = False, fErr = False, seekable = False, broken = False, descriptor = 0\<rparr>"

text \<open>A process before its first request: standard input holds \<open>bs\<close>; \<open>w\<close> is what the kernel does.\<close>

definition sample_io :: "bool \<Rightarrow> byte list \<Rightarrow> os \<Rightarrow> io" where
  "sample_io cgi bs w = \<lparr>acceptCalled = True, isCGI = cgi, exitHandler = True,
     ffiles = (\<lambda>_. Some \<lparr>stdio_stream = None, fcgx_stream = None\<rparr>), nextFile = 3,
     FILEs = (\<lambda>h. if h < 3 then Some (sample_FILE (if h = 0 then bs else [])) else None), nextFILE = 3,
     opens = [], mallocOk = [],
     fLib = \<lparr>libInitialized = True, osLibInitialized = True, isFastCGI = 1, webServerAddressList = None,
             the_request = FCGX_InitRequest 0 0\<rparr>, fOs = w, environ = None\<rparr>"

lemma sample_cgi: "\<exists>s. accept_streams True (\<lambda>_. None) (sample_io True bs (sample_os [])) = Inr (0, s) \<and> on_files [] s bs []"
  using accept_streams_files [of "sample_io True bs (sample_os [])" "sample_FILE bs" "sample_FILE []" bs]
  by (simp add: sample_io_def sample_FILE_def file_input_def)

text \<open>The connection of \<open>sample_accept\<close>, and what is needed to accept its request.\<close>

definition sample_arrived :: os where
  "sample_arrived = (sample_os [])\<lparr>conns := (conns (sample_os []))(5 :=
     sample_conn [RdBytes (take 3 sample_wire), RdBytes (drop 3 sample_wire)]), osErrno := EINTR\<rparr>"

lemma sample_arrival:
  "no_request (FCGX_InitRequest 0 0)"
  "(if ipcFd (reqData (FCGX_InitRequest 0 0)) < 0
    then OS_Accept (flags (reqData (FCGX_InitRequest 0 0)) AND FCGI_FAIL_ACCEPT_ON_INTR \<noteq> 0) None sample_accept
    else Inr (ipcFd (reqData (FCGX_InitRequest 0 0)), sample_accept)) = Inr (5, sample_arrived)"
  "(0 :: int) \<le> 5"
  "incoming 5 sample_arrived = rec_bytes FCGI_BEGIN_REQUEST 1 (begin_body_bytes sample_body) [] @ sample_params"
  "list_all pair_fits [([81], [82, 83])]" "length (b_reserved sample_body) = 5"
  "role_string (be16 (b_roleB1 sample_body) (b_roleB0 sample_body)) = Some (bytes ''FCGI_ROLE=RESPONDER'')"
  "writable 5 sample_arrived" "sent (conns sample_arrived 5) = []"
proof -
  have len: "3 < length sample_wire" by (simp add: sample_wire_def rec_bytes_def)
  show "incoming 5 sample_arrived = rec_bytes FCGI_BEGIN_REQUEST 1 (begin_body_bytes sample_body) [] @ sample_params"
    using len by (simp add: sample_arrived_def incoming_def sample_os_def sample_conn_def script_bytes_split sample_wire_def [symmetric])
  show "(if ipcFd (reqData (FCGX_InitRequest 0 0)) < 0
    then OS_Accept (flags (reqData (FCGX_InitRequest 0 0)) AND FCGI_FAIL_ACCEPT_ON_INTR \<noteq> 0) None sample_accept
    else Inr (ipcFd (reqData (FCGX_InitRequest 0 0)), sample_accept)) = Inr (5, sample_arrived)"
    using sample_accept by (simp add: FCGX_InitRequest_def zero_reqData_def sample_arrived_def)
qed (simp_all add: no_request_def FCGX_InitRequest_def zero_reqData_def pair_fits_def INT_MAX_def sample_body_def role_string_def
    be16_def FCGI_RESPONDER_def writable_def sample_arrived_def sample_os_def sample_conn_def is_short_write_def)

lemma sample_request:
  "\<exists>s p. accept_streams True (\<lambda>_. None) (sample_io False [] sample_accept) = Inr (0, s) \<and> on_streams [] s [65, 66, 67] []
    \<and> environ s = Some (vec p) \<and> params_ok p \<and> entries p = bytes ''FCGI_ROLE=RESPONDER'' # map pair_entry [([81], [82, 83])]"
proof -
  let ?s = "sample_io False [] sample_accept"
  have io: "\<not> isCGI ?s" "libInitialized (fLib ?s)" "webServerAddressList (fLib ?s) = None" "the_request (fLib ?s) = FCGX_InitRequest 0 0"
    "fOs ?s = sample_accept" by (simp_all add: sample_io_def)
  from accept_streams_request [OF io(1,2), unfolded io(3-5), OF sample_arrival(1-4) sample_records(2) sample_arrival(5)
      sample_records(1) _ _ sample_arrival(6-8), of True "\<lambda>_. None"]
  show ?thesis by (simp add: sample_arrival(9))
qed

section \<open>Properties\<close>

text \<open>C11. The compatibility the package is for, on nine calls: \<open>getchar\<close>, \<open>gets\<close>, \<open>fgets\<close> and \<open>fread\<close> from the standard input, \<open>putchar\<close>,
  \<open>puts\<close>, \<open>fwrite\<close>, \<open>printf\<close> of plain conversions and \<open>fflush\<close> to the standard output, in any order. A CGI process and a FastCGI application whose
  standard inputs deliver the same bytes get the same replies, those of \<open>spec_run\<close>, and their standard outputs are
  given the same bytes: the CGI process has them in its file, the FastCGI application has sent them to the server in framed records up
  to what is still in the buffer of the stream. Files and connections take what they are given; nothing is said of errors, nor of the calls whose
  replies differ (\<open>FCGI_fputs\<close>, the length of the string from a stream and what the C library's \<open>fputs\<close> returns from a file; \<open>FCGI_feof\<close>,
  \<open>EOF\<close> from a stream and any nonzero number from a file).\<close>

theorem stdio_transparent:
  assumes "on_files before s cs out" "on_streams base u cs out" "list_all op_ok xs" "vfprintf_ok ctext" "spec_run xs cs = (rs, ds, o')"
  shows "\<exists>s' u'. run_ops ctext lc alloc xs s = Inr (rs, s') \<and> run_ops ctext lc alloc xs u = Inr (rs, u')
    \<and> on_files before s' ds (out @ o') \<and> on_streams base u' ds (out @ o')"
  using files.run_ops_spec [OF assms(1,3,4), of lc alloc] streams.run_ops_spec [OF assms(2,3,4), of lc alloc] assms(5) by auto

theorem stdio_transparent_witness:
  "\<exists>s u s' u'. on_files [] s [65, 66, 67] [] \<and> on_streams [] u [65, 66, 67] []
    \<and> run_ops memory_vfprintf no_libc True [Getchar, Putchar 72, Gets, Puts (bytes ''i''), Printf [Dec 7], Flush] s =
        Inr ([RInt 65, RInt 72, RLine (Some [66, 67]), RInt 10, RInt 1, RInt 0], s')
    \<and> run_ops memory_vfprintf no_libc True [Getchar, Putchar 72, Gets, Puts (bytes ''i''), Printf [Dec 7], Flush] u =
        Inr ([RInt 65, RInt 72, RLine (Some [66, 67]), RInt 10, RInt 1, RInt 0], u')
    \<and> on_files [] s' [] [72, 105, 10, 55] \<and> on_streams [] u' [] [72, 105, 10, 55]"
proof -
  obtain s where s: "on_files [] s [65, 66, 67] []" using sample_cgi by blast
  obtain u where u: "on_streams [] u [65, 66, 67] []" using sample_request by blast
  have ok: "list_all op_ok [Getchar, Putchar 72, Gets, Puts (bytes ''i''), Printf [Dec 7], Flush]" by simp
  have "spec_run [Getchar, Putchar 72, Gets, Puts (bytes ''i''), Printf [Dec 7], Flush] [65, 66, 67] =
      ([RInt 65, RInt 72, RLine (Some [66, 67]), RInt 10, RInt 1, RInt 0], [], [72, 105, 10, 55])"
    by (simp add: next_char_def c_str_def bytes_def dec_text_def digits_small digit_def uchar_def)
  from stdio_transparent [OF s u ok memory_vfprintf_ok this, of no_libc True] s u show ?thesis by auto
qed

text \<open>C12. \<open>FCGI_Accept\<close> in a FastCGI application that has no request open takes the next request of the connection: it returns
  zero, standard input delivers the content of the FCGI_STDIN records, nothing has been written to standard output, and \<open>environ\<close> holds the role and the
  pairs of the FCGI_PARAMS records.\<close>

theorem FCGI_Accept_request:
  assumes "acceptCalled s" "\<not> isCGI s" "libInitialized (fLib s)"
    and q: "no_request (the_request (fLib s))"
    and fd: "(if ipcFd (reqData (the_request (fLib s))) < 0
        then OS_Accept (flags (reqData (the_request (fLib s))) AND FCGI_FAIL_ACCEPT_ON_INTR \<noteq> 0) (webServerAddressList (fLib s)) (fOs s)
        else Inr (ipcFd (reqData (the_request (fLib s))), fOs s)) = Inr (fd, w1)" "0 \<le> fd"
    and inc: "incoming fd w1 = rec_bytes FCGI_BEGIN_REQUEST rid (begin_body_bytes b) [] @ pw"
    and rec: "records rid FCGI_PARAMS 0 stdin pw (pairs_bytes nvs)" and fit: "list_all pair_fits nvs"
    and sin: "records rid FCGI_STDIN 0 tail stdin cs"
    and rid: "0 < rid" "rid \<le> 65535" and body: "length (b_reserved b) = 5"
    and role: "role_string (be16 (b_roleB1 b) (b_roleB0 b)) = Some rs"
    and wr: "writable fd w1"
  shows "\<exists>s' p. FCGI_Accept al getenv s = Inr (Some (0, s')) \<and> on_streams (sent (conns w1 fd)) s' cs []
    \<and> environ s' = Some (vec p) \<and> params_ok p \<and> entries p = rs # map pair_entry nvs"
  using accept_streams_request [OF assms(2-), of al getenv] assms(1,2) by (auto simp: FCGI_Accept_def)

theorem FCGI_Accept_request_witness:
  "\<exists>s' p. FCGI_Accept True (\<lambda>_. None) (sample_io False [] sample_accept) = Inr (Some (0, s')) \<and> on_streams [] s' [65, 66, 67] []
    \<and> environ s' = Some (vec p) \<and> params_ok p \<and> entries p = bytes ''FCGI_ROLE=RESPONDER'' # map pair_entry [([81], [82, 83])]"
proof -
  let ?s = "sample_io False [] sample_accept"
  have io: "acceptCalled ?s" "\<not> isCGI ?s" "libInitialized (fLib ?s)" "webServerAddressList (fLib ?s) = None"
    "the_request (fLib ?s) = FCGX_InitRequest 0 0" "fOs ?s = sample_accept" by (simp_all add: sample_io_def)
  from FCGI_Accept_request [OF io(1-3), unfolded io(4-6), OF sample_arrival(1-4) sample_records(2) sample_arrival(5)
      sample_records(1) _ _ sample_arrival(6-8), of True "\<lambda>_. None"]
  show ?thesis by (simp add: sample_arrival(9))
qed

text \<open>C39. In a CGI process the first \<open>FCGI_Accept\<close> returns zero and gives the standard files, and every later call returns \<open>EOF\<close>
  and changes nothing, whatever the program has done in between.\<close>

theorem FCGI_Accept_cgi:
  assumes "\<not> acceptCalled s" "FCGX_IsCGI al getenv (fLib s) (fOs s) = Some (True, l, w)"
    "FILEs s 0 = Some f0" "FILEs s 1 = Some f1" "file_input f0 cs" "\<not> broken f1" "fpos f1 = length (fdata f1)"
  shows "\<exists>s'. FCGI_Accept al getenv s = Inr (Some (0, s')) \<and> on_files (fdata f1) s' cs []
    \<and> (\<forall>u. acceptCalled u = acceptCalled s' \<and> isCGI u = isCGI s' \<longrightarrow> FCGI_Accept al getenv u = Inr (Some (EOF, u)))"
proof -
  let ?s = "s\<lparr>fLib := l, fOs := w, isCGI := True, acceptCalled := True, exitHandler := True\<rparr>"
  obtain s' where s': "accept_streams al getenv ?s = Inr (0, s')" "on_files (fdata f1) s' cs []"
    using accept_streams_files [of ?s f0 f1 cs] assms(3-) by auto
  moreover have "acceptCalled s'" "isCGI s'" using s'(1) by (auto simp: accept_streams_def set_file_def)
  ultimately show ?thesis using assms(1,2) by (auto simp: FCGI_Accept_def)
qed

text \<open>A process whose descriptor 0 is not a listening socket.\<close>

definition sample_cgi_start :: io where
  "sample_cgi_start = (sample_io False [65, 10] ((sample_os [])\<lparr>peernameErr := \<lambda>_. EBADF\<rparr>))\<lparr>acceptCalled := False,
     fLib := (fLib (sample_io False [] (sample_os [])))\<lparr>isFastCGI := - 1\<rparr>\<rparr>"

theorem FCGI_Accept_cgi_witness:
  "\<exists>s'. FCGI_Accept True (\<lambda>_. None) sample_cgi_start = Inr (Some (0, s')) \<and> on_files (fdata (sample_FILE [])) s' [65, 10] []
    \<and> (\<forall>u. acceptCalled u = acceptCalled s' \<and> isCGI u = isCGI s' \<longrightarrow> FCGI_Accept True (\<lambda>_. None) u = Inr (Some (EOF, u)))"
proof -
  have "\<exists>l w. FCGX_IsCGI True (\<lambda>_. None) (fLib sample_cgi_start) (fOs sample_cgi_start) = Some (True, l, w)"
    by (simp add: FCGX_IsCGI_def OS_IsFcgi_def sample_cgi_start_def sample_io_def EBADF_def ENOTCONN_def)
  then obtain l w where "FCGX_IsCGI True (\<lambda>_. None) (fLib sample_cgi_start) (fOs sample_cgi_start) = Some (True, l, w)" by blast
  from FCGI_Accept_cgi [OF _ this, of "sample_FILE [65, 10]" "sample_FILE []" "[65, 10]"] show ?thesis
    by (simp add: sample_cgi_start_def sample_io_def sample_FILE_def file_input_def)
qed

text \<open>An error of a stream is lost in \<open>FCGI_fwrite\<close>: the \<open>-1\<close> of \<open>FCGX_PutStr\<close> is divided as an unsigned size, so that the
  result is never below the number of items to be written, which is how a program would recognise a failure.\<close>

theorem FCGI_fwrite_hides_errors:
  assumes "ffiles s fp = Some \<lparr>stdio_stream = None, fcgx_stream = Some r\<rparr>" "stream_at r (the_request (fLib s)) = Some t"
    "isClosed t" "wrNext t = stop t" "0 < unat sz * unat n" "unat sz * unat n < 2 ^ 31" "unat sz * unat n \<le> length mem"
  shows "\<exists>s' k. FCGI_fwrite mem sz n fp s = Inr (k, s') \<and> k = - 1 div sz \<and> n \<le> k"
proof -
  have u: "unat (sz * n) = unat sz * unat n" using assms(6) by (intro unat_mult_lem [THEN iffD1]) simp
  define k where "k = unat (sz * n)"
  have k: "0 < k" "k \<le> length mem" "int_of_size (sz * n) = int k" "sz * n \<noteq> 0"
    using assms(5-7) int_of_size_small [of "sz * n"] u by (auto simp: k_def)
  let ?t = "\<lparr>strm = t, rqd = reqData (the_request (fLib s)), sys = fOs s\<rparr>"
  have "FCGX_PutStr EmptyBuffProc (take k mem) ?t = Inr (- 1, ?t)"
    using k(1,2) assms(3,4) by (simp add: FCGX_PutStr_def PutStr_loop.simps(2))
  then have "put_counted mem (int k) ?t = Inr (- 1, ?t)" using k(2) by (simp add: put_counted_def)
  then have "\<exists>s'. on_stream r (put_counted mem (int k)) s = Inr (- 1, s')"
    using assms(2) by (simp add: on_stream_def with_stream_def Let_def)
  then have w: "\<exists>s'. FCGI_fwrite mem sz n fp s = Inr (- 1 div sz, s')"
    using assms(1) k by (auto simp: FCGI_fwrite_def via_def)
  have "0 < unat sz" using assms(5) by (cases "unat sz = 0") auto
  moreover have "unat n * unat sz < 2 ^ 64" using assms(6) by (simp add: mult.commute)
  ultimately have "unat n \<le> (2 ^ 64 - 1) div unat sz" by (intro less_eq_div_iff_mult_less_eq [THEN iffD2]) simp_all
  then have "n \<le> - 1 div sz" by (simp add: word_le_nat_alt unat_div unsigned_minus_1_eq_mask mask_eq_exp_minus_1)
  then show ?thesis using w by blast
qed

theorem FCGI_fwrite_hides_errors_witness:
  "\<exists>s s' k. FCGI_fwrite [1, 2, 3] 1 3 FCGI_stdout s = Inr (k, s') \<and> k = - 1 div 1 \<and> 3 \<le> k"
proof -
  let ?t = "(fst (NewWriter 64 FCGI_STDOUT (sample_os [])))\<lparr>isClosed := True, wrNext := 64, stop := 64\<rparr>"
  let ?s = "(sample_io False [] (sample_os []))
    \<lparr>ffiles := \<lambda>_. Some \<lparr>stdio_stream = None, fcgx_stream = Some Out_stream\<rparr>,
     fLib := (fLib (sample_io False [] (sample_os [])))\<lparr>the_request := (FCGX_InitRequest 0 0)\<lparr>reqOut := Some ?t\<rparr>\<rparr>\<rparr>"
  have "\<exists>s' k. FCGI_fwrite [1, 2, 3] 1 3 FCGI_stdout ?s = Inr (k, s') \<and> k = - 1 div 1 \<and> 3 \<le> k"
    by (rule FCGI_fwrite_hides_errors [of ?s _ Out_stream ?t]) simp_all
  then show ?thesis by blast
qed

lemma Free_out: "FCGX_Free q close w = Inr (q', w') \<Longrightarrow> reqOut q' = None"
  by (auto simp: FCGX_Free_def FCGX_FreeStream_def Let_def bindr_Inr_iff split: if_splits)

lemma read_request_out: "read_request q w = Inr (ok, q', w') \<Longrightarrow> reqOut q' = reqOut q"
  by (auto simp: read_request_def Let_def bindr_Inr_iff split: if_splits prod.splits option.splits)

lemma Accept_loop_out: "Accept_loop fuel addrs q w = Inr (r, q', w') \<Longrightarrow> reqOut q = None \<Longrightarrow> reqOut q' = None"
proof (induction fuel arbitrary: q w)
  case (Suc fuel)
  from Suc.prems(1) obtain fd w1 where fd: "(if ipcFd (reqData q) < 0
            then OS_Accept (flags (reqData q) AND FCGI_FAIL_ACCEPT_ON_INTR \<noteq> 0) addrs w
            else Inr (ipcFd (reqData q), w)) = Inr (fd, w1)"
    unfolding Accept_loop.simps(2) bindr_Inr_iff by auto
  let ?q = "q\<lparr>reqData := (reqData q)\<lparr>ipcFd := fd\<rparr>\<rparr>"
  show ?case
  proof (cases "fd < 0")
    case True
    then show ?thesis using Suc.prems fd by (auto simp: Accept_loop.simps(2) Let_def)
  next
    case False
    with Suc.prems(1) fd obtain ok q2 w2 where r: "read_request ?q w1 = Inr (ok, q2, w2)"
      and rest: "(if ok then Inr (None, q2, w2) else bindr (FCGX_Free q2 True w2) (\<lambda>(q3, w3). Accept_loop fuel addrs q3 w3)) = Inr (r, q', w')"
      by (auto simp: Accept_loop.simps(2) Let_def bindr_Inr_iff)
    show ?thesis
    proof (cases ok)
      case True
      then show ?thesis using rest read_request_out [OF r] Suc.prems(2) by simp
    next
      case f: False
      obtain q3 w3 where "FCGX_Free q2 True w2 = Inr (q3, w3)" "Accept_loop fuel addrs q3 w3 = Inr (r, q', w')"
        using rest f by (auto simp: bindr_Inr_iff)
      then show ?thesis using Suc.IH Free_out by blast
    qed
  qed
qed simp

lemma Accept_r_out:
  assumes "FCGX_Accept_r True addrs q w = Inr (rc, q', w')" "rc < 0"
  shows "reqOut q' = None"
proof -
  obtain qo w1 where f: "FCGX_Finish_r (Some q) w = Inr (qo, w1)" using assms(1)
    by (auto simp: FCGX_Accept_r_def bindr_Inr_iff)
  then obtain q1 where q1: "qo = Some q1" "reqOut q1 = None"
    by (auto simp: FCGX_Finish_r_def Let_def bindr_Inr_iff dest: Free_out)
  show ?thesis using assms f q1 Accept_loop_out [OF _ q1(2)]
    by (auto simp: FCGX_Accept_r_def bindr_Inr_iff split: option.splits)
qed

text \<open>C40. When \<open>FCGI_Accept\<close> fails, the streams of the last request have been freed but the standard \<open>FCGI_FILE\<close>s still point to
  them: the next write to standard output uses freed memory.\<close>

theorem FCGI_Accept_failure_dangles:
  assumes "acceptCalled s" "\<not> isCGI s" "libInitialized (fLib s)" "ffiles s FCGI_stdout = Some \<lparr>stdio_stream = None, fcgx_stream = Some Out_stream\<rparr>"
    "FCGI_Accept al getenv s = Inr (Some (rc, s'))" "rc < 0"
  shows "FCGI_putchar c s' = Inl OutOfBounds"
proof -
  have "accept_streams al getenv s = Inr (rc, s')" using assms(1,2,5) by (auto simp: FCGI_Accept_def bindr_Inr_iff)
  then obtain q w where q: "FCGX_Accept_r True (webServerAddressList (fLib s)) (the_request (fLib s)) (fOs s) = Inr (rc, q, w)"
    "s' = s\<lparr>fLib := (fLib s)\<lparr>the_request := q\<rparr>, fOs := w\<rparr>"
    using assms(2,3,6) by (auto simp: accept_streams_def FCGX_Accept_def bindr_Inr_iff Let_def split: if_splits)
  have "reqOut q = None" by (rule Accept_r_out [OF q(1) assms(6)])
  then show ?thesis using q(2) assms(4)
    by (simp add: FCGI_putchar_def FCGI_fputc_def via_def on_stream_def with_stream_def Let_def)
qed

theorem FCGI_Accept_failure_dangles_witness:
  "\<exists>s s'. FCGI_Accept True (\<lambda>_. None) s = Inr (Some (- 9, s')) \<and> ffiles s FCGI_stdout = Some \<lparr>stdio_stream = None, fcgx_stream = Some Out_stream\<rparr>
     \<and> FCGI_putchar 65 s' = Inl OutOfBounds"
proof -
  let ?s = "(sample_io False [] ((sample_os [])\<lparr>acceptScript := [AcceptErr EBADF]\<rparr>))
    \<lparr>ffiles := \<lambda>_. Some \<lparr>stdio_stream = None, fcgx_stream = Some Out_stream\<rparr>\<rparr>"
  have "\<exists>s'. FCGI_Accept True (\<lambda>_. None) ?s = Inr (Some (- 9, s'))"
    by (simp add: FCGI_Accept_def accept_streams_def sample_io_def FCGX_Accept_def FCGX_Accept_r_def FCGX_InitRequest_def zero_reqData_def
        FCGX_Finish_r_def FCGX_Free_def FCGX_FreeStream_def OS_IpcClose_def OS_Close_def Let_def Accept_loop.simps(2)
        OS_Accept_def OS_Accept_loop.simps(2) accept_loop.simps(2) posix_accept_def sample_os_def is_reasonable_accept_errno_def errno_defs)
  then obtain s' where s': "FCGI_Accept True (\<lambda>_. None) ?s = Inr (Some (- 9, s'))" ..
  have "FCGI_putchar 65 s' = Inl OutOfBounds"
    by (rule FCGI_Accept_failure_dangles [OF _ _ _ _ s']) (simp_all add: sample_io_def)
  then show ?thesis using s' by (intro exI [of _ ?s] exI [of _ s']) simp
qed

end
