(* ===== verification/Fcgi_DoIo.thy ===== *)
theory Fcgi_DoIo
  imports Fcgi_Async
begin

text \<open>
  The event loop step of \<open>libfcgi/os_unix.c\<close>, \<open>OS_DoIo\<close>: it asks \<open>select\<close> for the descriptors
  that are ready, notes them as posted, performs the posted reads and writes and calls the completion procedures.
  What \<open>select\<close> answers is an argument (\<open>SelectReady\<close>: the ready descriptors for reading and for writing);
  the memory and the completion procedures of the program are given by a \<open>client\<close>. An operation that may leave
  the process with \<open>exit\<close> has a result of type \<open>run\<close>.

  The invariant \<open>aio_ok\<close> ties the descriptor sets to the table. Every operation keeps it, and under it no
  operation indexes the table out of bounds.
\<close>

section \<open>Operations that may exit\<close>

datatype 'a run = Exit int os | Run 'a

definition bindp :: "'a run res \<Rightarrow> ('a \<Rightarrow> 'b run res) \<Rightarrow> 'b run res" where
  "bindp m k = bindr m (\<lambda>r. case r of Exit c w \<Rightarrow> Inr (Exit c w) | Run x \<Rightarrow> k x)"

lemma bindp_simps [simp, res_simps]:
  "bindp (Inl f) k = Inl f"
  "bindp (Inr (Exit c w)) k = Inr (Exit c w)"
  "bindp (Inr (Run x)) k = k x"
  by (simp_all add: bindp_def)

lemma bindp_Run_iff:
  "bindp m k = Inr (Run y) \<longleftrightarrow> (\<exists>x. m = Inr (Run x) \<and> k x = Inr (Run y))"
  by (cases m) (auto simp: bindp_def split: run.splits)

lemma bindp_cong [fundef_cong]:
  "m = m' \<Longrightarrow> (\<And>x. m' = Inr (Run x) \<Longrightarrow> k x = k' x) \<Longrightarrow> bindp m k = bindp m' k'"
  by (cases m') (auto simp: bindp_def split: run.splits)

section \<open>OS_DoIo\<close>

datatype select_event = SelectErr int | SelectReady "int set" "int set"

record 'm client =
  peek :: "int \<Rightarrow> nat \<Rightarrow> 'm \<Rightarrow> byte list res"
  poke :: "int \<Rightarrow> byte list \<Rightarrow> 'm \<Rightarrow> 'm res"
  callout :: "int \<Rightarrow> int \<Rightarrow> int \<Rightarrow> 'm \<times> os \<Rightarrow> ('m \<times> os) run res"

text \<open>The two loops over the descriptors up to \<open>maxFd\<close> that precede and follow \<open>select\<close>.\<close>

definition fds_upto :: "int set \<Rightarrow> int \<Rightarrow> int set" where
  "fds_upto S m = {fd \<in> S. 0 \<le> fd \<and> fd \<le> m}"

definition post_ready :: "int set \<Rightarrow> int set \<Rightarrow> aio \<Rightarrow> aio" where
  "post_ready R W a =
     a\<lparr>numRdPosted := numRdPosted a + int (card R), readFdSetPost := readFdSetPost a \<union> R, readFdSet := readFdSet a - R,
       numWrPosted := numWrPosted a + int (card W), writeFdSetPost := writeFdSetPost a \<union> W, writeFdSet := writeFdSet a - W\<rparr>"

definition select_fds :: "select_event \<Rightarrow> os \<Rightarrow> os run" where
  "select_fds sel w =
     (let a = aioState w in
      if numRdPosted a = 0 \<and> numWrPosted a = 0 then
        (case sel of SelectErr e \<Rightarrow> Exit e (w\<lparr>osErrno := e\<rparr>)
         | SelectReady R W \<Rightarrow> Run (w\<lparr>aioState := post_ready (R \<inter> fds_upto (readFdSet a) (maxFd a))
                                                       (W \<inter> fds_upto (writeFdSet a) (maxFd a)) a\<rparr>))
      else Run w)"

text \<open>The two blocks of the dispatching loop. The table entry is released before the completion procedure
  is called, so that it may post the next operation.\<close>

definition release :: "int \<Rightarrow> AioInfo \<Rightarrow> os \<Rightarrow> os" where
  "release ix x w = w\<lparr>aioState := set_info ix (x\<lparr>procPtr := 0, inUse := False\<rparr>) (aioState w)\<rparr>"

definition do_read :: "'m client \<Rightarrow> int \<Rightarrow> 'm \<times> os \<Rightarrow> ('m \<times> os) run res" where
  "do_read cl fd = (\<lambda>(m, w). let a = aioState w in
     if fd \<notin> readFdSetPost a then Inr (Run (m, w))
     else bindr (info_at a (AIO_RD_IX fd)) (\<lambda>x.
       if \<not> inUse x then Inr (Run (m, w))
       else
         let w1 = w\<lparr>aioState := a\<lparr>numRdPosted := numRdPosted a - 1, readFdSetPost := readFdSetPost a - {fd}\<rparr>\<rparr> in
         case posix_read (aioFd x) (nat (aioLen x)) w1 of (len, bs, w2) \<Rightarrow>
           bindr (poke cl (aioBuf x) bs m) (\<lambda>m2.
             callout cl (procPtr x) (clientData x) len (m2, release (AIO_RD_IX fd) x w2))))"

definition do_write :: "'m client \<Rightarrow> int \<Rightarrow> 'm \<times> os \<Rightarrow> ('m \<times> os) run res" where
  "do_write cl fd = (\<lambda>(m, w). let a = aioState w in
     if fd \<notin> writeFdSetPost a then Inr (Run (m, w))
     else bindr (info_at a (AIO_WR_IX fd)) (\<lambda>x.
       if \<not> inUse x then Inr (Run (m, w))
       else
         let w1 = w\<lparr>aioState := a\<lparr>numWrPosted := numWrPosted a - 1, writeFdSetPost := writeFdSetPost a - {fd}\<rparr>\<rparr> in
         bindr (peek cl (aioBuf x) (nat (aioLen x)) m) (\<lambda>bs.
         case posix_write (aioFd x) bs w1 of (len, w2) \<Rightarrow>
           callout cl (procPtr x) (clientData x) len (m, release (AIO_WR_IX fd) x w2))))"

text \<open>\<open>for(fd = 0; fd <= maxFd; fd++)\<close>; a completion procedure may change \<open>maxFd\<close>. \<open>FD_ISSET\<close> on a
  descriptor of \<open>FD_SETSIZE\<close> or more is out of bounds.\<close>

function dispatch :: "'m client \<Rightarrow> int \<Rightarrow> 'm \<times> os \<Rightarrow> ('m \<times> os) run res" where
  "dispatch cl fd s =
     (if maxFd (aioState (snd s)) < fd then Inr (Run s)
      else if FD_SETSIZE \<le> fd then Inl OutOfBounds
      else bindp (do_read cl fd s) (\<lambda>s1. bindp (do_write cl fd s1) (\<lambda>s2. dispatch cl (fd + 1) s2)))"
  by pat_completeness auto
termination by (relation "measure (\<lambda>(_, fd, _). nat (FD_SETSIZE - fd))") auto

declare dispatch.simps [simp del]

definition OS_DoIo :: "'m client \<Rightarrow> select_event \<Rightarrow> 'm \<times> os \<Rightarrow> (int \<times> 'm \<times> os) run res" where
  "OS_DoIo cl sel = (\<lambda>(m, w).
     let w0 = w\<lparr>aioState := (aioState w)\<lparr>asyncIoInUse := True\<rparr>\<rparr> in
     inbounds (maxFd (aioState w0) < FD_SETSIZE)
      (bindp (Inr (select_fds sel w0)) (\<lambda>w1.
       if numRdPosted (aioState w1) = 0 \<and> numWrPosted (aioState w1) = 0 then Inr (Run (0, m, w1))
       else bindp (dispatch cl 0 (m, w1)) (\<lambda>s2. Inr (Run (0, s2))))))"

section \<open>The invariant of the table\<close>

text \<open>
  The table is allocated and has two entries for every descriptor up to \<open>maxFd\<close>; every descriptor in a set is
  at most \<open>maxFd\<close>; a descriptor that waits for \<open>select\<close> has a posted operation.
\<close>

definition aio_ok :: "aio \<Rightarrow> bool" where
  "aio_ok a \<longleftrightarrow>
     (\<exists>t. asyncIoTable a = Some t \<and> length t = asyncIoTableSize a \<and> even (length t) \<and> 16 \<le> length t
        \<and> - 1 \<le> maxFd a \<and> maxFd a < FD_SETSIZE \<and> 2 * maxFd a + 1 < int (length t)
        \<and> (\<forall>fd \<in> readFdSet a \<union> writeFdSet a \<union> readFdSetPost a \<union> writeFdSetPost a. 0 \<le> fd \<and> fd \<le> maxFd a)
        \<and> (\<forall>fd \<in> readFdSet a. inUse (t ! nat (2 * fd))) \<and> (\<forall>fd \<in> writeFdSet a. inUse (t ! nat (2 * fd + 1))))"

lemma grow_to_ok:
  assumes "asyncIoTable a = Some t" "length t = asyncIoTableSize a" "even (length t)" "0 < length t"
  shows "\<exists>k. even k \<and> grow_to n a = Inr (a\<lparr>asyncIoTable := Some (t @ replicate k zero_info), asyncIoTableSize := length t + k\<rparr>)
           \<and> n < int (length t + k)"
  using assms
proof (induction n a arbitrary: t rule: grow_to.induct)
  case (1 n a)
  let ?a = "GrowAsyncTable a" and ?z = "\<lambda>k. replicate k zero_info"
  show ?case
  proof (cases "n < int (asyncIoTableSize a)")
    case True
    then have "grow_to n a = Inr (a\<lparr>asyncIoTable := Some (t @ ?z 0), asyncIoTableSize := length t + 0\<rparr>)"
      using "1.prems" by (simp add: grow_to.simps)
    then show ?thesis using True "1.prems"(2) by (intro exI [of _ 0]) simp
  next
    case False
    have grown: "?a = a\<lparr>asyncIoTable := Some (t @ ?z (length t)), asyncIoTableSize := length t + length t\<rparr>"
      using "1.prems" by (simp add: GrowAsyncTable_def Let_def)
    have nz: "asyncIoTableSize a \<noteq> 0" using "1.prems" by simp
    have "\<exists>k. even k \<and> grow_to n ?a = Inr (?a\<lparr>asyncIoTable := Some ((t @ ?z (length t)) @ ?z k),
              asyncIoTableSize := length (t @ ?z (length t)) + k\<rparr>) \<and> n < int (length (t @ ?z (length t)) + k)"
      by (rule "1.IH" [OF False nz]) (use "1.prems" in \<open>simp_all add: grown\<close>)
    then obtain k where k: "even k" "n < int (length (t @ ?z (length t)) + k)"
        "grow_to n ?a = Inr (?a\<lparr>asyncIoTable := Some ((t @ ?z (length t)) @ ?z k),
              asyncIoTableSize := length (t @ ?z (length t)) + k\<rparr>)" by (elim exE conjE)
    have "grow_to n a = grow_to n ?a" using False nz by (simp add: grow_to.simps [of n a])
    then show ?thesis using k "1.prems"(3)
      by (intro exI [of _ "length t + k"]) (simp add: grown replicate_add add.assoc)
  qed
qed

lemma aio_okE:
  assumes "aio_ok a"
  obtains t where "asyncIoTable a = Some t" "length t = asyncIoTableSize a" "even (length t)" "16 \<le> length t"
    "- 1 \<le> maxFd a" "maxFd a < FD_SETSIZE" "2 * maxFd a + 1 < int (length t)"
    "\<forall>fd \<in> readFdSet a \<union> writeFdSet a \<union> readFdSetPost a \<union> writeFdSetPost a. 0 \<le> fd \<and> fd \<le> maxFd a"
    "\<forall>fd \<in> readFdSet a. inUse (t ! nat (2 * fd))" "\<forall>fd \<in> writeFdSet a. inUse (t ! nat (2 * fd + 1))"
  using assms unfolding aio_ok_def by blast

text \<open>Whether an entry of the table is free; beyond the table it is.\<close>

definition free_at :: "int \<Rightarrow> aio \<Rightarrow> bool" where
  "free_at ix a = (case asyncIoTable a of None \<Rightarrow> False | Some t \<Rightarrow> nat ix < length t \<longrightarrow> \<not> inUse (t ! nat ix))"

text \<open>The entry a posted operation leaves in the table.\<close>

definition entry_at :: "int \<Rightarrow> aio \<Rightarrow> AioInfo option" where
  "entry_at ix a = (case asyncIoTable a of None \<Rightarrow> None
     | Some t \<Rightarrow> if 0 \<le> ix \<and> nat ix < length t \<and> inUse (t ! nat ix) then Some (t ! nat ix) else None)"

lemma post_ok:
  "asyncIoTable a = Some t \<Longrightarrow> 0 \<le> ix \<Longrightarrow> nat ix < length t \<Longrightarrow> \<not> inUse (t ! nat ix) \<Longrightarrow>
   post ix fd off buf len proc cd a = Inr (a\<lparr>asyncIoTable := Some (t[nat ix := \<lparr>procPtr = proc, clientData = cd,
     aioFd = fd, aioLen = len, aioOffset = off, aioBuf = buf, inUse = True\<rparr>])\<rparr>)"
  by (simp add: post_def info_at_def set_info_def)

lemma free_grown:
  "asyncIoTable a = Some t \<Longrightarrow> free_at ix a \<Longrightarrow> nat ix < length t + k
    \<Longrightarrow> \<not> inUse ((t @ replicate k zero_info) ! nat ix)"
  by (auto simp: free_at_def nth_append zero_info_def)

lemma inUse_grown:
  "i < length t \<Longrightarrow> inUse (t ! i) \<Longrightarrow> inUse x \<Longrightarrow> inUse ((t @ replicate k zero_info)[j := x] ! i)"
  by (cases "i = j") (simp_all add: nth_append)

definition posting :: "int \<Rightarrow> int \<Rightarrow> int \<Rightarrow> int \<Rightarrow> int \<Rightarrow> int \<Rightarrow> AioInfo" where
  "posting fd off buf len proc cd = \<lparr>procPtr = proc, clientData = cd, aioFd = fd, aioLen = len, aioOffset = off,
     aioBuf = buf, inUse = True\<rparr>"

text \<open>The common part of the posting operations: make room for the entry and fill it in.\<close>

lemma grow_post:
  assumes "asyncIoTable a = Some t" "length t = asyncIoTableSize a" "even (length t)" "0 < length t"
    "0 \<le> ix" "free_at ix a"
  obtains k where "even k" "nat ix < length t + k"
    "\<And>f :: aio \<Rightarrow> (int \<times> aio) res. bindr (grow_to ix a) (\<lambda>a2. bindr (post ix fd off buf len proc cd a2) f)
         = f (a\<lparr>asyncIoTableSize := length t + k,
                asyncIoTable := Some ((t @ replicate k zero_info)[nat ix := posting fd off buf len proc cd])\<rparr>)"
proof -
  obtain k where k: "even k" "nat ix < length t + k"
    "grow_to ix a = Inr (a\<lparr>asyncIoTable := Some (t @ replicate k zero_info), asyncIoTableSize := length t + k\<rparr>)"
    using grow_to_ok [OF assms(1-4), of ix] assms(5) by (auto simp: nat_less_iff)
  have "\<not> inUse ((t @ replicate k zero_info) ! nat ix)" using free_grown [OF assms(1,6) k(2)] .
  then have "bindr (post ix fd off buf len proc cd
        (a\<lparr>asyncIoTable := Some (t @ replicate k zero_info), asyncIoTableSize := length t + k\<rparr>)) f
      = f (a\<lparr>asyncIoTableSize := length t + k,
                asyncIoTable := Some ((t @ replicate k zero_info)[nat ix := posting fd off buf len proc cd])\<rparr>)"
    for f :: "aio \<Rightarrow> (int \<times> aio) res"
    using k(2) assms(5) by (subst post_ok) (simp_all add: posting_def [symmetric])
  with k show ?thesis by (intro that [of k]) simp_all
qed

text \<open>\<open>started ix fd x a a'\<close>: from \<open>a\<close> to \<open>a'\<close> the operation \<open>x\<close> on \<open>fd\<close> was entered at \<open>ix\<close>;
  apart from the table and \<open>maxFd\<close> only the set of descriptors that are waited for changed.\<close>

definition started :: "int \<Rightarrow> int \<Rightarrow> AioInfo \<Rightarrow> aio \<Rightarrow> aio \<Rightarrow> bool" where
  "started ix fd x a a' \<longleftrightarrow> (\<exists>t k. asyncIoTable a = Some t \<and> even k \<and> nat ix < length t + k
     \<and> a' = a\<lparr>asyncIoInUse := True, maxFd := max fd (maxFd a), asyncIoTableSize := length t + k,
         asyncIoTable := Some ((t @ replicate k zero_info)[nat ix := x])\<rparr>)"

lemma post_started:
  assumes "aio_ok a" "0 \<le> ix" "free_at ix a"
  obtains a' where "started ix fd (posting fd off buf len proc cd) a a'"
    "\<And>f :: aio \<Rightarrow> (int \<times> aio) res. bindr (grow_to ix (a\<lparr>asyncIoInUse := True, maxFd := max fd (maxFd a)\<rparr>))
       (\<lambda>a2. bindr (post ix fd off buf len proc cd a2) f) = f a'"
proof -
  let ?a = "a\<lparr>asyncIoInUse := True, maxFd := max fd (maxFd a)\<rparr>"
  obtain t where t: "asyncIoTable a = Some t" "length t = asyncIoTableSize a" "even (length t)" "16 \<le> length t"
    using assms(1) by (rule aio_okE)
  obtain k where k: "even k" "nat ix < length t + k"
    "\<And>f :: aio \<Rightarrow> (int \<times> aio) res. bindr (grow_to ix ?a) (\<lambda>a2. bindr (post ix fd off buf len proc cd a2) f)
         = f (?a\<lparr>asyncIoTableSize := length t + k,
                asyncIoTable := Some ((t @ replicate k zero_info)[nat ix := posting fd off buf len proc cd])\<rparr>)"
    by (rule grow_post [of ?a t ix]) (use t assms(2,3) in \<open>auto simp: free_at_def\<close>)
  have "started ix fd (posting fd off buf len proc cd) a (?a\<lparr>asyncIoTableSize := length t + k,
      asyncIoTable := Some ((t @ replicate k zero_info)[nat ix := posting fd off buf len proc cd])\<rparr>)"
    using t(1) k(1,2) by (auto simp: started_def)
  then show ?thesis by (rule that) (rule k(3))
qed

lemma AsyncRead_started:
  assumes "aio_ok a" "0 \<le> fd" "fd < FD_SETSIZE" "free_at (AIO_RD_IX fd) a"
  obtains a' where "started (AIO_RD_IX fd) fd (posting fd off buf len proc cd) a a'"
    "OS_AsyncRead fd off buf len proc cd a = Inr (0, a'\<lparr>readFdSet := insert fd (readFdSet a')\<rparr>)"
proof -
  have mx: "(if maxFd a < fd then fd else maxFd a) = max fd (maxFd a)" by simp
  have ix: "0 \<le> AIO_RD_IX fd" using assms(2) by (simp add: AIO_RD_IX_def)
  obtain a' where a': "started (AIO_RD_IX fd) fd (posting fd off buf len proc cd) a a'"
    "\<And>f :: aio \<Rightarrow> (int \<times> aio) res. bindr (grow_to (AIO_RD_IX fd) (a\<lparr>asyncIoInUse := True, maxFd := max fd (maxFd a)\<rparr>))
       (\<lambda>a2. bindr (post (AIO_RD_IX fd) fd off buf len proc cd a2) f) = f a'"
    using post_started [OF assms(1) ix assms(4), of fd off buf len proc cd] by metis
  have "asyncIoTable a \<noteq> None" using assms(1) by (auto simp: aio_ok_def)
  with a' that assms(2,3) show ?thesis by (simp add: OS_AsyncRead_def mx Let_def)
qed

lemma AsyncWrite_started:
  assumes "aio_ok a" "0 \<le> fd" "fd < FD_SETSIZE" "free_at (AIO_WR_IX fd) a"
  obtains a' where "started (AIO_WR_IX fd) fd (posting fd off buf len proc cd) a a'"
    "OS_AsyncWrite fd off buf len proc cd a = Inr (0, a'\<lparr>writeFdSet := insert fd (writeFdSet a')\<rparr>)"
proof -
  have mx: "(if maxFd a < fd then fd else maxFd a) = max fd (maxFd a)" by simp
  have ix: "0 \<le> AIO_WR_IX fd" using assms(2) by (simp add: AIO_WR_IX_def)
  obtain a' where a': "started (AIO_WR_IX fd) fd (posting fd off buf len proc cd) a a'"
    "\<And>f :: aio \<Rightarrow> (int \<times> aio) res. bindr (grow_to (AIO_WR_IX fd) (a\<lparr>asyncIoInUse := True, maxFd := max fd (maxFd a)\<rparr>))
       (\<lambda>a2. bindr (post (AIO_WR_IX fd) fd off buf len proc cd a2) f) = f a'"
    using post_started [OF assms(1) ix assms(4), of fd off buf len proc cd] by metis
  with that assms(2,3) show ?thesis by (simp add: OS_AsyncWrite_def mx Let_def)
qed

lemma slot_bound:
  "2 * m + 1 < int n \<Longrightarrow> 0 \<le> f \<Longrightarrow> f \<le> m \<Longrightarrow> nat (2 * f) < n \<and> nat (2 * f + 1) < n"
  by (simp add: nat_less_iff)

lemma started_entry:
  assumes "started ix fd x a a'" "0 \<le> ix" "inUse x"
  shows "entry_at ix a' = Some x" "j \<noteq> ix \<Longrightarrow> entry_at j a' = entry_at j a"
  using assms by (auto simp: started_def entry_at_def nth_append zero_info_def nth_list_update nat_eq_iff2)

lemma started_fields:
  assumes "started ix fd x a a'"
  shows "readFdSet a' = readFdSet a" "writeFdSet a' = writeFdSet a" "readFdSetPost a' = readFdSetPost a"
    "writeFdSetPost a' = writeFdSetPost a" "maxFd a' = max fd (maxFd a)" "asyncIoInUse a'"
    "numRdPosted a' = numRdPosted a" "numWrPosted a' = numWrPosted a"
  using assms by (auto simp: started_def)

lemma started_ok:
  assumes "started ix fd x a a'" "aio_ok a" "0 \<le> fd" "fd < FD_SETSIZE" "inUse x" "ix \<in> {2 * fd, 2 * fd + 1}"
  obtains t where "asyncIoTable a' = Some t" "length t = asyncIoTableSize a'" "even (length t)" "16 \<le> length t"
    "- 1 \<le> maxFd a'" "maxFd a' < FD_SETSIZE" "2 * maxFd a' + 1 < int (length t)" "inUse (t ! nat ix)"
    "\<And>f. f \<in> readFdSet a \<Longrightarrow> inUse (t ! nat (2 * f))" "\<And>f. f \<in> writeFdSet a \<Longrightarrow> inUse (t ! nat (2 * f + 1))"
proof -
  obtain t k where t: "asyncIoTable a = Some t" "even k" "nat ix < length t + k"
     "a' = a\<lparr>asyncIoInUse := True, maxFd := max fd (maxFd a), asyncIoTableSize := length t + k,
         asyncIoTable := Some ((t @ replicate k zero_info)[nat ix := x])\<rparr>"
    using assms(1) by (auto simp: started_def)
  have ok: "length t = asyncIoTableSize a" "even (length t)" "16 \<le> length t" "- 1 \<le> maxFd a" "maxFd a < FD_SETSIZE"
    "2 * maxFd a + 1 < int (length t)"
    "\<forall>f \<in> readFdSet a \<union> writeFdSet a \<union> readFdSetPost a \<union> writeFdSetPost a. 0 \<le> f \<and> f \<le> maxFd a"
    "\<forall>f \<in> readFdSet a. inUse (t ! nat (2 * f))" "\<forall>f \<in> writeFdSet a. inUse (t ! nat (2 * f + 1))"
    using assms(2) t(1) by (auto elim!: aio_okE)
  have "2 * fd + 1 < int (length t + k)" using t(2,3) ok(2) assms(3,6) by (auto simp: nat_less_iff) presburger
  then have mx: "2 * max fd (maxFd a) + 1 < int (length t + k)" using ok(6) by (simp add: max_def)
  have rd: "inUse ((t @ replicate k zero_info)[nat ix := x] ! nat (2 * f))" if "f \<in> readFdSet a" for f
    using slot_bound [OF ok(6), of f] ok(7-9) that assms(5) by (intro inUse_grown) auto
  have wr: "inUse ((t @ replicate k zero_info)[nat ix := x] ! nat (2 * f + 1))" if "f \<in> writeFdSet a" for f
    using slot_bound [OF ok(6), of f] ok(7-9) that assms(5) by (intro inUse_grown) auto
  show ?thesis
    by (rule that [of "(t @ replicate k zero_info)[nat ix := x]"])
      (use t ok assms(4,5) mx rd wr in \<open>auto simp: max_def\<close>)
qed

lemma started_read:
  assumes "started (AIO_RD_IX fd) fd x a a'" "aio_ok a" "0 \<le> fd" "fd < FD_SETSIZE" "inUse x"
  shows "aio_ok (a'\<lparr>readFdSet := insert fd (readFdSet a')\<rparr>)"
proof -
  obtain t where "asyncIoTable a' = Some t" "length t = asyncIoTableSize a'" "even (length t)" "16 \<le> length t"
    "- 1 \<le> maxFd a'" "maxFd a' < FD_SETSIZE" "2 * maxFd a' + 1 < int (length t)" "inUse (t ! nat (AIO_RD_IX fd))"
    "\<And>f. f \<in> readFdSet a \<Longrightarrow> inUse (t ! nat (2 * f))" "\<And>f. f \<in> writeFdSet a \<Longrightarrow> inUse (t ! nat (2 * f + 1))"
    using started_ok [OF assms] by (auto simp: AIO_RD_IX_def)
  with assms(2,3) show ?thesis unfolding aio_ok_def
    by (intro exI [of _ t]) (auto simp: started_fields [OF assms(1)] AIO_RD_IX_def mult.commute le_max_iff_disj elim!: aio_okE)
qed

lemma started_write:
  assumes "started (AIO_WR_IX fd) fd x a a'" "aio_ok a" "0 \<le> fd" "fd < FD_SETSIZE" "inUse x"
  shows "aio_ok (a'\<lparr>writeFdSet := insert fd (writeFdSet a')\<rparr>)"
proof -
  obtain t where "asyncIoTable a' = Some t" "length t = asyncIoTableSize a'" "even (length t)" "16 \<le> length t"
    "- 1 \<le> maxFd a'" "maxFd a' < FD_SETSIZE" "2 * maxFd a' + 1 < int (length t)" "inUse (t ! nat (AIO_WR_IX fd))"
    "\<And>f. f \<in> readFdSet a \<Longrightarrow> inUse (t ! nat (2 * f))" "\<And>f. f \<in> writeFdSet a \<Longrightarrow> inUse (t ! nat (2 * f + 1))"
    using started_ok [OF assms] by (auto simp: AIO_WR_IX_def)
  with assms(2,3) show ?thesis unfolding aio_ok_def
    by (intro exI [of _ t]) (auto simp: started_fields [OF assms(1)] AIO_WR_IX_def mult.commute le_max_iff_disj elim!: aio_okE)
qed

lemma cancel_eq:
  "asyncIoTable a = Some t \<Longrightarrow> 0 \<le> ix \<Longrightarrow> nat ix < length t \<Longrightarrow>
   cancel ix a = Inr (a\<lparr>asyncIoTable := Some (t[nat ix := (t ! nat ix)\<lparr>inUse := False\<rparr>])\<rparr>)"
proof (cases "inUse (t ! nat ix)")
  case False
  assume a: "asyncIoTable a = Some t" "0 \<le> ix" "nat ix < length t"
  have "t[nat ix := (t ! nat ix)\<lparr>inUse := False\<rparr>] = t" using False a(3) by (cases "t ! nat ix") (simp add: list_update_same_conv)
  then have "a\<lparr>asyncIoTable := Some (t[nat ix := (t ! nat ix)\<lparr>inUse := False\<rparr>])\<rparr> = a" using a(1) by simp
  then show ?thesis using a False by (simp add: cancel_def info_at_def)
qed (simp add: cancel_def info_at_def set_info_def)

text \<open>Closing a descriptor cancels its two operations and takes it out of every set.\<close>

lemma close_async_eq:
  assumes "aio_ok a" "asyncIoInUse a" "0 \<le> fd" "fd < FD_SETSIZE" "2 * fd + 1 < int (asyncIoTableSize a)"
  obtains t where "asyncIoTable a = Some t"
    "close_async fd a = Inr (a\<lparr>readFdSet := readFdSet a - {fd}, readFdSetPost := readFdSetPost a - {fd},
       writeFdSet := writeFdSet a - {fd}, writeFdSetPost := writeFdSetPost a - {fd},
       asyncIoTable := Some (t[nat (2 * fd) := (t ! nat (2 * fd))\<lparr>inUse := False\<rparr>,
                              nat (2 * fd + 1) := (t ! nat (2 * fd + 1))\<lparr>inUse := False\<rparr>]),
       maxFd := (if maxFd a = fd then fd - 1 else maxFd a)\<rparr>)"
proof -
  obtain t where t: "asyncIoTable a = Some t" "length t = asyncIoTableSize a" using assms(1) by (rule aio_okE)
  have ix: "nat (2 * fd) < length t" "nat (2 * fd + 1) < length t" "nat (2 * fd) \<noteq> nat (2 * fd + 1)"
    using assms(3,5) t(2) by (auto simp: nat_less_iff)
  have "close_async fd a = Inr (a\<lparr>readFdSet := readFdSet a - {fd}, readFdSetPost := readFdSetPost a - {fd},
       writeFdSet := writeFdSet a - {fd}, writeFdSetPost := writeFdSetPost a - {fd},
       asyncIoTable := Some (t[nat (2 * fd) := (t ! nat (2 * fd))\<lparr>inUse := False\<rparr>,
                              nat (2 * fd + 1) := (t ! nat (2 * fd + 1))\<lparr>inUse := False\<rparr>]),
       maxFd := (if maxFd a = fd then fd - 1 else maxFd a)\<rparr>)"
    using assms(2-4) t ix
    by (simp add: close_async_def AIO_RD_IX_def AIO_WR_IX_def mult.commute [of fd] cancel_eq)
  with that t(1) show ?thesis by blast
qed

lemma close_async_ok:
  assumes "aio_ok a" "asyncIoInUse a" "0 \<le> fd" "fd < FD_SETSIZE" "2 * fd + 1 < int (asyncIoTableSize a)"
  obtains a' where "close_async fd a = Inr a'" "aio_ok a'"
    "readFdSetPost a' = readFdSetPost a - {fd}" "writeFdSetPost a' = writeFdSetPost a - {fd}"
    "readFdSet a' = readFdSet a - {fd}" "writeFdSet a' = writeFdSet a - {fd}"
    "numRdPosted a' = numRdPosted a" "numWrPosted a' = numWrPosted a" "asyncIoInUse a'"
    "entry_at (AIO_RD_IX fd) a' = None" "entry_at (AIO_WR_IX fd) a' = None"
    "\<And>ix. ix \<notin> {AIO_RD_IX fd, AIO_WR_IX fd} \<Longrightarrow> entry_at ix a' = entry_at ix a"
proof -
  obtain t where t: "asyncIoTable a = Some t"
    "close_async fd a = Inr (a\<lparr>readFdSet := readFdSet a - {fd}, readFdSetPost := readFdSetPost a - {fd},
       writeFdSet := writeFdSet a - {fd}, writeFdSetPost := writeFdSetPost a - {fd},
       asyncIoTable := Some (t[nat (2 * fd) := (t ! nat (2 * fd))\<lparr>inUse := False\<rparr>,
                              nat (2 * fd + 1) := (t ! nat (2 * fd + 1))\<lparr>inUse := False\<rparr>]),
       maxFd := (if maxFd a = fd then fd - 1 else maxFd a)\<rparr>)"
    (is "_ = Inr ?a'") using close_async_eq [OF assms] .
  obtain t' where ok: "asyncIoTable a = Some t'" "length t' = asyncIoTableSize a" "even (length t')" "16 \<le> length t'"
    "- 1 \<le> maxFd a" "maxFd a < FD_SETSIZE" "2 * maxFd a + 1 < int (length t')"
    "\<forall>fd \<in> readFdSet a \<union> writeFdSet a \<union> readFdSetPost a \<union> writeFdSetPost a. 0 \<le> fd \<and> fd \<le> maxFd a"
    "\<forall>fd \<in> readFdSet a. inUse (t' ! nat (2 * fd))" "\<forall>fd \<in> writeFdSet a. inUse (t' ! nat (2 * fd + 1))"
    using assms(1) by (rule aio_okE)
  have par: "2 * f \<noteq> 2 * g + 1" "2 * g + 1 \<noteq> 2 * f" for f g :: int by presburger+
  have "f \<le> maxFd a - 1" if "f \<in> readFdSet a \<union> writeFdSet a \<union> readFdSetPost a \<union> writeFdSetPost a" "maxFd a = fd" "f \<noteq> fd" for f
    using ok(8) that by force
  then have "aio_ok ?a'" using ok t(1) assms(3,4) unfolding aio_ok_def
    by (intro exI [of _ "t[nat (2 * fd) := (t ! nat (2 * fd))\<lparr>inUse := False\<rparr>,
          nat (2 * fd + 1) := (t ! nat (2 * fd + 1))\<lparr>inUse := False\<rparr>]"])
       (auto simp: nth_list_update nat_eq_iff par split: if_splits)
  then show ?thesis using t assms(3) ok(1,2)
    by (intro that [of ?a']) (auto simp: entry_at_def AIO_RD_IX_def AIO_WR_IX_def nth_list_update mult.commute
        nat_eq_iff assms(2))
qed

lemma AsyncRead_ok:
  assumes "aio_ok a" "0 \<le> fd" "fd < FD_SETSIZE" "free_at (AIO_RD_IX fd) a"
  obtains a' where "OS_AsyncRead fd off buf len proc cd a = Inr (0, a')" "aio_ok a'"
    "entry_at (AIO_RD_IX fd) a' = Some (posting fd off buf len proc cd)"
    "\<And>ix. ix \<noteq> AIO_RD_IX fd \<Longrightarrow> entry_at ix a' = entry_at ix a"
    "readFdSet a' = insert fd (readFdSet a)" "writeFdSet a' = writeFdSet a" "readFdSetPost a' = readFdSetPost a"
    "writeFdSetPost a' = writeFdSetPost a" "numRdPosted a' = numRdPosted a" "numWrPosted a' = numWrPosted a"
proof -
  obtain a' where a': "started (AIO_RD_IX fd) fd (posting fd off buf len proc cd) a a'"
    "OS_AsyncRead fd off buf len proc cd a = Inr (0, a'\<lparr>readFdSet := insert fd (readFdSet a')\<rparr>)"
    by (rule AsyncRead_started [OF assms])
  have ix: "0 \<le> AIO_RD_IX fd" and x: "inUse (posting fd off buf len proc cd)"
    using assms(2) by (simp_all add: AIO_RD_IX_def posting_def)
  show ?thesis
    by (rule that [OF a'(2) started_read [OF a'(1) assms(1-3) x]])
      (use started_entry [OF a'(1) ix x] in \<open>simp_all add: started_fields [OF a'(1)] entry_at_def cong: option.case_cong\<close>)
qed

lemma AsyncWrite_ok:
  assumes "aio_ok a" "0 \<le> fd" "fd < FD_SETSIZE" "free_at (AIO_WR_IX fd) a"
  obtains a' where "OS_AsyncWrite fd off buf len proc cd a = Inr (0, a')" "aio_ok a'"
    "entry_at (AIO_WR_IX fd) a' = Some (posting fd off buf len proc cd)"
    "\<And>ix. ix \<noteq> AIO_WR_IX fd \<Longrightarrow> entry_at ix a' = entry_at ix a"
    "readFdSet a' = readFdSet a" "writeFdSet a' = insert fd (writeFdSet a)" "readFdSetPost a' = readFdSetPost a"
    "writeFdSetPost a' = writeFdSetPost a" "numRdPosted a' = numRdPosted a" "numWrPosted a' = numWrPosted a"
proof -
  obtain a' where a': "started (AIO_WR_IX fd) fd (posting fd off buf len proc cd) a a'"
    "OS_AsyncWrite fd off buf len proc cd a = Inr (0, a'\<lparr>writeFdSet := insert fd (writeFdSet a')\<rparr>)"
    by (rule AsyncWrite_started [OF assms])
  have ix: "0 \<le> AIO_WR_IX fd" and x: "inUse (posting fd off buf len proc cd)"
    using assms(2) by (simp_all add: AIO_WR_IX_def posting_def)
  show ?thesis
    by (rule that [OF a'(2) started_write [OF a'(1) assms(1-3) x]])
      (use started_entry [OF a'(1) ix x] in \<open>simp_all add: started_fields [OF a'(1)] entry_at_def cong: option.case_cong\<close>)
qed

text \<open>C31. Posting a read or a write on a descriptor and closing a descriptor keep the invariant of the table, never
  index it out of bounds and touch no operation of another descriptor: after \<open>OS_AsyncRead\<close> or
  \<open>OS_AsyncWrite\<close> the table holds exactly the posted operation at the descriptor's entry, which has been
  made by growing the table where needed; after closing, the descriptor has none.\<close>

theorem async_operations_keep_table:
  assumes "aio_ok a" "0 \<le> fd" "fd < FD_SETSIZE"
  shows "(free_at (AIO_RD_IX fd) a \<longrightarrow> (\<exists>a'. OS_AsyncRead fd off buf len proc cd a = Inr (0, a') \<and> aio_ok a' \<and> fd \<in> readFdSet a'
      \<and> entry_at (AIO_RD_IX fd) a' = Some (posting fd off buf len proc cd)
      \<and> (\<forall>ix. ix \<noteq> AIO_RD_IX fd \<longrightarrow> entry_at ix a' = entry_at ix a)))
    \<and> (free_at (AIO_WR_IX fd) a \<longrightarrow> (\<exists>a'. OS_AsyncWrite fd off buf len proc cd a = Inr (0, a') \<and> aio_ok a' \<and> fd \<in> writeFdSet a'
      \<and> entry_at (AIO_WR_IX fd) a' = Some (posting fd off buf len proc cd)
      \<and> (\<forall>ix. ix \<noteq> AIO_WR_IX fd \<longrightarrow> entry_at ix a' = entry_at ix a)))
    \<and> (asyncIoInUse a \<and> fd \<le> maxFd a \<longrightarrow> (\<exists>a'. close_async fd a = Inr a' \<and> aio_ok a'
      \<and> entry_at (AIO_RD_IX fd) a' = None \<and> entry_at (AIO_WR_IX fd) a' = None
      \<and> (\<forall>ix. ix \<noteq> AIO_RD_IX fd \<longrightarrow> ix \<noteq> AIO_WR_IX fd \<longrightarrow> entry_at ix a' = entry_at ix a)))"
proof (intro conjI impI)
  assume "free_at (AIO_RD_IX fd) a"
  then show "\<exists>a'. OS_AsyncRead fd off buf len proc cd a = Inr (0, a') \<and> aio_ok a' \<and> fd \<in> readFdSet a'
      \<and> entry_at (AIO_RD_IX fd) a' = Some (posting fd off buf len proc cd)
      \<and> (\<forall>ix. ix \<noteq> AIO_RD_IX fd \<longrightarrow> entry_at ix a' = entry_at ix a)"
    by (rule AsyncRead_ok [OF assms, of off buf len proc cd]) auto
next
  assume "free_at (AIO_WR_IX fd) a"
  then show "\<exists>a'. OS_AsyncWrite fd off buf len proc cd a = Inr (0, a') \<and> aio_ok a' \<and> fd \<in> writeFdSet a'
      \<and> entry_at (AIO_WR_IX fd) a' = Some (posting fd off buf len proc cd)
      \<and> (\<forall>ix. ix \<noteq> AIO_WR_IX fd \<longrightarrow> entry_at ix a' = entry_at ix a)"
    by (rule AsyncWrite_ok [OF assms, of off buf len proc cd]) auto
next
  assume u: "asyncIoInUse a \<and> fd \<le> maxFd a"
  have "2 * maxFd a + 1 < int (asyncIoTableSize a)" using assms(1) by (auto elim: aio_okE)
  with u have use: "asyncIoInUse a" and bnd: "2 * fd + 1 < int (asyncIoTableSize a)" by simp_all
  show "\<exists>a'. close_async fd a = Inr a' \<and> aio_ok a'
      \<and> entry_at (AIO_RD_IX fd) a' = None \<and> entry_at (AIO_WR_IX fd) a' = None
      \<and> (\<forall>ix. ix \<noteq> AIO_RD_IX fd \<longrightarrow> ix \<noteq> AIO_WR_IX fd \<longrightarrow> entry_at ix a' = entry_at ix a)"
    by (rule close_async_ok [OF assms(1) use assms(2,3) bnd]) auto
qed

definition sample_table :: aio where
  "sample_table = aio_initial\<lparr>asyncIoTable := Some (replicate 16 zero_info)\<rparr>"

theorem async_operations_keep_table_witness:
  "\<exists>a'. OS_AsyncRead 20 0 1000 64 1 7 sample_table = Inr (0, a') \<and> aio_ok a' \<and> entry_at (AIO_RD_IX 20) a' = Some (posting 20 0 1000 64 1 7)"
proof -
  have "aio_ok sample_table" by (simp add: sample_table_def aio_initial_def aio_ok_def FD_SETSIZE_def)
  moreover have "free_at (AIO_RD_IX 20) sample_table" by (simp add: free_at_def sample_table_def AIO_RD_IX_def)
  ultimately show ?thesis
    using async_operations_keep_table [of sample_table 20 0 1000 64 1 7] by (simp add: FD_SETSIZE_def) blast
qed

section \<open>Outcomes of a step of the event loop\<close>

text \<open>\<open>outcome F E P r\<close>: \<open>r\<close> is a fault in \<open>F\<close>, leaves the process as \<open>E\<close> says, or is a
  result that satisfies \<open>P\<close>.\<close>

definition outcome :: "fault set \<Rightarrow> (int \<Rightarrow> os \<Rightarrow> bool) \<Rightarrow> ('a \<Rightarrow> bool) \<Rightarrow> 'a run res \<Rightarrow> bool" where
  "outcome F E P r = (case r of Inl f \<Rightarrow> f \<in> F | Inr (Exit c w) \<Rightarrow> E c w | Inr (Run x) \<Rightarrow> P x)"

named_theorems outcome_intros \<open>rules for the outcome of a sequence of operations\<close>

lemma outcome_simps [simp]:
  "outcome F E P (Inl f) \<longleftrightarrow> f \<in> F"
  "outcome F E P (Inr (Exit c w)) \<longleftrightarrow> E c w"
  "outcome F E P (Inr (Run x)) \<longleftrightarrow> P x"
  by (simp_all add: outcome_def)

lemma outcome_bindp [outcome_intros]:
  "outcome F E P m \<Longrightarrow> (\<And>x. P x \<Longrightarrow> outcome F E Q (k x)) \<Longrightarrow> outcome F E Q (bindp m k)"
  by (cases m; cases "projr m") auto

lemma outcome_bindr [outcome_intros]:
  "(\<And>f. m = Inl f \<Longrightarrow> f \<in> F) \<Longrightarrow> (\<And>x. m = Inr x \<Longrightarrow> outcome F E Q (k x)) \<Longrightarrow> outcome F E Q (bindr m k)"
  by (cases m) auto

lemma outcome_mono:
  "outcome F E P r \<Longrightarrow> F \<subseteq> F' \<Longrightarrow> (\<And>c w. E c w \<Longrightarrow> E' c w) \<Longrightarrow> (\<And>x. P x \<Longrightarrow> Q x) \<Longrightarrow> outcome F' E' Q r"
  by (auto simp: outcome_def split: sum.splits run.splits)

text \<open>
  What a program promises of its completion procedures, with an invariant \<open>inv\<close> of its memory and the
  operating system: \<open>select\<close> and the two blocks of the dispatching loop keep it. \<open>ready\<close> says in which states, and for which
  answers of \<open>select\<close>, the program calls \<open>OS_DoIo\<close>.
\<close>

locale event_handlers =
  fixes cl :: "'m client" and inv :: "'m \<times> os \<Rightarrow> bool" and ready :: "'m \<Rightarrow> select_event \<Rightarrow> bool"
    and exits :: "int \<Rightarrow> os \<Rightarrow> bool" and faults :: "fault set"
  assumes bounded: "inv s \<Longrightarrow> maxFd (aioState (snd s)) < FD_SETSIZE"
    and in_use: "inv (m, w) \<Longrightarrow> inv (m, w\<lparr>aioState := (aioState w)\<lparr>asyncIoInUse := True\<rparr>\<rparr>)"
    and selected: "inv (m, w) \<Longrightarrow> ready m sel \<Longrightarrow> outcome faults exits (\<lambda>w'. inv (m, w')) (Inr (select_fds sel w))"
    and read_done: "inv s \<Longrightarrow> outcome faults exits inv (do_read cl fd s)"
    and write_done: "inv s \<Longrightarrow> outcome faults exits inv (do_write cl fd s)"
begin

lemma dispatch_outcome: "inv s \<Longrightarrow> outcome faults exits inv (dispatch cl fd s)"
proof (induction "nat (FD_SETSIZE - fd)" arbitrary: fd s rule: less_induct)
  case less
  show ?case
  proof (cases "maxFd (aioState (snd s)) < fd")
    case False
    then have lt: "fd < FD_SETSIZE" using bounded [OF less.prems] by simp
    have "outcome faults exits inv (bindp (do_read cl fd s)
            (\<lambda>s1. bindp (do_write cl fd s1) (\<lambda>s2. dispatch cl (fd + 1) s2)))"
      by (rule outcome_bindp [OF read_done [OF less.prems]], rule outcome_bindp [OF write_done],
          assumption, rule less.hyps) (use lt in simp_all)
    then show ?thesis using False lt by (simp add: dispatch.simps [of cl fd s])
  qed (simp add: dispatch.simps [of cl fd s] less.prems)
qed

theorem DoIo_outcome:
  assumes "inv (m, w)" "ready m sel"
  shows "outcome faults exits (\<lambda>(r :: int, s). r = 0 \<and> inv s) (OS_DoIo cl sel (m, w))"
proof -
  let ?w = "w\<lparr>aioState := (aioState w)\<lparr>asyncIoInUse := True\<rparr>\<rparr>"
  have inv: "inv (m, ?w)" using in_use [OF assms(1)] .
  have "outcome faults exits (\<lambda>(r :: int, s). r = 0 \<and> inv s) (bindp (Inr (select_fds sel ?w)) (\<lambda>w1.
       if numRdPosted (aioState w1) = 0 \<and> numWrPosted (aioState w1) = 0 then Inr (Run (0, m, w1))
       else bindp (dispatch cl 0 (m, w1)) (\<lambda>s2. Inr (Run (0, s2)))))"
  proof (rule outcome_bindp [OF selected [OF inv assms(2)]])
    fix w1 assume w1: "inv (m, w1)"
    have "outcome faults exits (\<lambda>(r :: int, s). r = 0 \<and> inv s) (bindp (dispatch cl 0 (m, w1)) (\<lambda>s2. Inr (Run (0, s2))))"
      by (rule outcome_bindp [OF dispatch_outcome [OF w1]]) simp
    with w1 show "outcome faults exits (\<lambda>(r :: int, s). r = 0 \<and> inv s)
      (if numRdPosted (aioState w1) = 0 \<and> numWrPosted (aioState w1) = 0 then Inr (Run (0, m, w1))
       else bindp (dispatch cl 0 (m, w1)) (\<lambda>s2. Inr (Run (0, s2))))" by simp
  qed
  moreover have "maxFd (aioState w) < FD_SETSIZE" using bounded [OF assms(1)] by simp
  ultimately show ?thesis by (simp add: OS_DoIo_def Let_def)
qed

end

section \<open>Closing a posted descriptor\<close>

lemma dispatch_nothing:
  "readFdSetPost (aioState w) = {} \<Longrightarrow> writeFdSetPost (aioState w) = {} \<Longrightarrow> maxFd (aioState w) < FD_SETSIZE
   \<Longrightarrow> dispatch cl fd (m, w) = Inr (Run (m, w))"
proof (induction "nat (FD_SETSIZE - fd)" arbitrary: fd rule: less_induct)
  case less
  then show ?case
    by (cases "maxFd (aioState w) < fd") (simp_all add: dispatch.simps [of _ fd] do_read_def do_write_def Let_def)
qed

lemma aioState_kernel [simp]:
  "posix_poll fd w = (rv, b, w1) \<Longrightarrow> aioState w1 = aioState w"
  "posix_read fd n w = (k, bs, w1) \<Longrightarrow> aioState w1 = aioState w"
  "aioState (snd (posix_close fd w)) = aioState w"
  by (auto simp: posix_poll_def posix_read_def posix_close_def Let_def split: if_splits list.splits poll_event.splits
      rd_event.splits)

lemma aioState_drain [simp]: "aioState (drain_input fd w) = aioState w"
proof (induction fd w rule: drain_input.induct)
  case (1 fd w)
  then show ?case
    by (subst drain_input.simps) (auto split: prod.splits simp: aioState_kernel)
qed

lemma OS_Close_aio:
  assumes "OS_Close fd sh w = Inr (r, w')" "fd \<noteq> - 1"
  shows "close_async fd (aioState w) = Inr (aioState w')"
proof -
  obtain a where a: "close_async fd (aioState w) = Inr a"
    "posix_close fd (if sh \<and> isOpen (conns w fd) \<and> isSocket (conns w fd) then drain_input fd (w\<lparr>aioState := a\<rparr>)
       else w\<lparr>aioState := a\<rparr>) = (r, w')"
    using assms by (auto simp: OS_Close_def Let_def bindr_Inr_iff)
  have "aioState w' = a" using aioState_kernel(3) [of fd "if sh \<and> isOpen (conns w fd) \<and> isSocket (conns w fd)
      then drain_input fd (w\<lparr>aioState := a\<rparr>) else w\<lparr>aioState := a\<rparr>"] by (simp only: a(2) snd_conv) simp
  then show ?thesis using a(1) by simp
qed

text \<open>C36. When \<open>select\<close> has reported one descriptor as readable and that descriptor is closed before its
  read is dispatched (by the completion procedure of another one, say), \<open>OS_Close\<close> takes it out of
  \<open>readFdSetPost\<close> but leaves \<open>numRdPosted\<close> as it is. From then on \<open>OS_DoIo\<close> returns at once without
  asking \<open>select\<close> and without changing anything, whatever descriptors become ready: no posted operation is
  served any more.\<close>

theorem OS_Close_starves_DoIo:
  assumes "aio_ok (aioState w)" "asyncIoInUse (aioState w)" "0 \<le> fd" "fd \<le> maxFd (aioState w)"
    "readFdSetPost (aioState w) = {fd}" "numRdPosted (aioState w) = 1" "writeFdSetPost (aioState w) = {}"
    "OS_Close fd sh w = Inr (r, w')"
  shows "OS_DoIo cl sel (m, w') = Inr (Run (0, m, w'))"
proof -
  obtain t where t: "asyncIoTable (aioState w) = Some t" "length t = asyncIoTableSize (aioState w)" "maxFd (aioState w) < FD_SETSIZE"
    "2 * maxFd (aioState w) + 1 < int (length t)" using assms(1) by (rule aio_okE)
  then have "fd < FD_SETSIZE" "2 * fd + 1 < int (asyncIoTableSize (aioState w))" using assms(4) by simp_all
  then obtain a where a: "close_async fd (aioState w) = Inr a" "aio_ok a" "readFdSetPost a = {}" "writeFdSetPost a = {}"
    "numRdPosted a = 1" "asyncIoInUse a"
    using assms(5-7) by (auto intro: close_async_ok [OF assms(1-3)])
  have a': "aioState w' = a" using OS_Close_aio [OF assms(8)] assms(3) a(1) by simp
  have "w'\<lparr>aioState := a\<lparr>asyncIoInUse := True\<rparr>\<rparr> = w'" using a(6) a' by simp
  moreover have "maxFd a < FD_SETSIZE" using a(2) by (rule aio_okE)
  ultimately show ?thesis using a a' by (simp add: OS_DoIo_def Let_def select_fds_def dispatch_nothing)
qed

text \<open>Two sockets with a read posted on each; both have become readable and the read of the first has been
  dispatched.\<close>

definition sample_posted :: os where
  "sample_posted = (sample_os [])\<lparr>aioState :=
     \<lparr>asyncIoInUse = True, asyncIoTableSize = 16,
      asyncIoTable = Some ((replicate 16 zero_info)[10 := posting 5 0 1000 64 1 0]),
      readFdSet = {}, writeFdSet = {}, readFdSetPost = {5}, writeFdSetPost = {}, numRdPosted = 1, numWrPosted = 0,
      maxFd = 5\<rparr>\<rparr>"

theorem OS_Close_starves_DoIo_witness:
  "\<exists>w'. OS_Close 5 False sample_posted = Inr (0, w') \<and>
     OS_DoIo \<lparr>peek = \<lambda>_ _ _. Inr [], poke = \<lambda>_ _. Inr, callout = \<lambda>_ _ _. Inr \<circ> Run\<rparr> (SelectReady {5, 7} {7}) ((), w')
       = Inr (Run (0, (), w'))"
proof -
  have c: "OS_Close 5 False sample_posted = Inr (0, snd (projr (OS_Close 5 False sample_posted)))"
    by (simp add: OS_Close_def sample_posted_def close_async_def cancel_eq FD_SETSIZE_def AIO_RD_IX_def AIO_WR_IX_def
        posix_close_def sample_os_def sample_conn_def Let_def)
  have "aio_ok (aioState sample_posted)"
    by (simp add: sample_posted_def aio_ok_def FD_SETSIZE_def)
  then have "OS_DoIo \<lparr>peek = \<lambda>_ _ _. Inr [], poke = \<lambda>_ _. Inr, callout = \<lambda>_ _ _. Inr \<circ> Run\<rparr> (SelectReady {5, 7} {7})
      ((), snd (projr (OS_Close 5 False sample_posted))) = Inr (Run (0, (), snd (projr (OS_Close 5 False sample_posted))))"
    by (rule OS_Close_starves_DoIo [OF _ _ _ _ _ _ _ c]) (simp_all add: sample_posted_def)
  with c show ?thesis by blast
qed

end
