(* ===== verification/Fcgi_Cgi.thy ===== *)
theory Fcgi_Cgi
  imports Fcgi_DoIo Fcgi_Writer
begin

text \<open>
  The program \<open>cgi-fcgi\<close> (\<open>cgi-fcgi/cgi-fcgi.c\<close>): it runs as a CGI program and relays its request to a
  FastCGI application server. Its static variables are the record \<open>cgi\<close>; the handlers are completion
  procedures of \<open>OS_DoIo\<close>. \<open>exit\<close> is \<open>FCGIexit\<close> throughout, as the source redefines it.

  The addresses of the two buffers and of the completion procedures in the table of asynchronous operations are
  numbers. \<open>memcpy(&header + headerLen, ...)\<close> and \<open>memcpy(&erBody + sizeof(erBody) - contentLen, ...)\<close> add
  to a pointer to an eight-byte structure, so the offsets are multiples of eight bytes; a copy that does not stay
  within the structure is \<open>OutOfBounds\<close>.
\<close>

section \<open>State\<close>

definition BUFFLEN :: nat where "BUFFLEN = 8192"

record Buffer =
  bufNext :: nat
  bufStop :: nat
  bufData :: "byte list"

definition GetPtr :: "nat \<Rightarrow> Buffer \<Rightarrow> byte list \<times> nat \<times> Buffer" where
  "GetPtr n b = (let r = min n (bufStop b - bufNext b) in
     (sub_bytes (bufNext b) r (bufData b), r, b\<lparr>bufNext := bufNext b + r\<rparr>))"

record cgi =
  wsReadPending :: bool
  fcgiReadPending :: bool
  fcgiWritePending :: bool
  bytesToRead :: int
  appServerSock :: int
  fromAS :: Buffer
  asHeader :: "byte list"
  headerLen :: nat
  asContentLen :: nat
  asPaddingLen :: nat
  cgiRequestId :: int
  erBody :: "byte list"
  readingEndRequestBody :: bool
  exitStatus :: int
  exitStatusSet :: bool
  fromWS :: Buffer
  webServerReadHandlerEOF :: bool
  stdin_eof_sent :: bool
  cgiLibInit :: bool

definition STDERR_FILENO :: int where "STDERR_FILENO = 2"

definition FCGIexit :: "int \<Rightarrow> cgi \<times> os \<Rightarrow> 'a run res" where
  "FCGIexit exitCode = (\<lambda>(g, w).
     bindr (if appServerSock g \<noteq> - 1 then OS_Close (appServerSock g) True w else Inr (0, w)) (\<lambda>(_, w1).
     case OS_LibShutdown (cgiLibInit g) (aioState w1) of (_, a) \<Rightarrow> Inr (Exit exitCode (w1\<lparr>aioState := a\<rparr>))))"

section \<open>Scheduling\<close>

definition FROM_WS :: int where "FROM_WS = 0x10000"
definition FROM_AS :: int where "FROM_AS = 0x20000"

definition PROC_AppServerRead :: int where "PROC_AppServerRead = 1"
definition PROC_WebServerRead :: int where "PROC_WebServerRead = 2"
definition PROC_AppServerWrite :: int where "PROC_AppServerWrite = 3"

text \<open>The three blocks of \<open>ScheduleIo\<close>.\<close>

definition schedule_write :: "cgi \<times> os \<Rightarrow> (cgi \<times> os) run res" where
  "schedule_write = (\<lambda>(g, w).
     let b = fromWS g; len = int (bufStop b) - int (bufNext b) in
     if \<not> fcgiWritePending g \<and> appServerSock g \<noteq> - 1 \<and> len \<noteq> 0 then
       bindr (OS_AsyncWrite (appServerSock g) 0 (FROM_WS + int (bufNext b)) len PROC_AppServerWrite (appServerSock g) (aioState w))
        (\<lambda>(r, a). let w1 = w\<lparr>aioState := a\<rparr> in
          if r = - 1 then FCGIexit (osErrno w1) (g, w1) else Inr (Run (g\<lparr>fcgiWritePending := True\<rparr>, w1)))
     else Inr (Run (g, w)))"

definition schedule_read :: "cgi \<times> os \<Rightarrow> (cgi \<times> os) run res" where
  "schedule_read = (\<lambda>(g, w).
     if \<not> fcgiReadPending g \<and> appServerSock g \<noteq> - 1 then
       let g1 = g\<lparr>fromAS := (fromAS g)\<lparr>bufNext := 0\<rparr>\<rparr> in
       bindr (OS_AsyncRead (appServerSock g1) 0 FROM_AS (int BUFFLEN) PROC_AppServerRead (appServerSock g1) (aioState w))
        (\<lambda>(r, a). let w1 = w\<lparr>aioState := a\<rparr> in
          if r = - 1 then FCGIexit (osErrno w1) (g1, w1) else Inr (Run (g1\<lparr>fcgiReadPending := True\<rparr>, w1)))
     else Inr (Run (g, w)))"

definition schedule_stdin :: "cgi \<times> os \<Rightarrow> (cgi \<times> os) run res" where
  "schedule_stdin = (\<lambda>(g, w).
     if 0 < bytesToRead g \<and> \<not> webServerReadHandlerEOF g \<and> \<not> wsReadPending g \<and> \<not> fcgiWritePending g
        \<and> bufNext (fromWS g) = 0 then
       bindr (OS_AsyncReadStdin (FROM_WS + 8) (int BUFFLEN - 8) PROC_WebServerRead STDIN_FILENO (aioState w))
        (\<lambda>(r, a). let w1 = w\<lparr>aioState := a\<rparr> in
          if r = - 1 then FCGIexit (osErrno w1) (g, w1) else Inr (Run (g\<lparr>wsReadPending := True\<rparr>, w1)))
     else Inr (Run (g, w)))"

definition ScheduleIo :: "cgi \<times> os \<Rightarrow> (cgi \<times> os) run res" where
  "ScheduleIo s = bindp (schedule_write s) (\<lambda>s1. bindp (schedule_read s1) schedule_stdin)"

section \<open>Output of the application server\<close>

text \<open>The block that completes the header; the boolean says whether the loop is left by \<open>break\<close>.\<close>

definition as_header :: "cgi \<times> os \<Rightarrow> (bool \<times> cgi \<times> os) run res" where
  "as_header = (\<lambda>(g, w).
     case GetPtr (8 - headerLen g) (fromAS g) of (ptr, count, b) \<Rightarrow>
       assertr (0 < count)
        (inbounds (8 * headerLen g + count \<le> 8)
          (let g1 = g\<lparr>fromAS := b, asHeader := put_bytes (8 * headerLen g) ptr (asHeader g), headerLen := headerLen g + count\<rparr>;
               h = header_of_bytes (asHeader g1) in
           if headerLen g1 < 8 then Inr (Run (True, g1, w))
           else if h_version h \<noteq> FCGI_VERSION_1 then FCGIexit FCGX_UNSUPPORTED_VERSION (g1, w)
           else if header_requestId h \<noteq> cgiRequestId g1 then FCGIexit FCGX_PROTOCOL_ERROR (g1, w)
           else Inr (Run (False, g1\<lparr>asContentLen := nat (header_contentLength h),
                                     asPaddingLen := unat (h_paddingLength h)\<rparr>, w)))))"

definition as_output :: "int \<Rightarrow> cgi \<times> os \<Rightarrow> (cgi \<times> os) run res" where
  "as_output outFD = (\<lambda>(g, w).
     case GetPtr (asContentLen g) (fromAS g) of (ptr, count, b) \<Rightarrow>
       let g1 = g\<lparr>fromAS := b, asContentLen := asContentLen g - count\<rparr> in
       if 0 < count then
         (case OS_Write outFD ptr w of (r, w1) \<Rightarrow>
            if r < 0 then FCGIexit (osErrno w1) (g1, w1) else Inr (Run (g1, w1)))
       else Inr (Run (g1, w)))"

text \<open>The \<open>exitStatus\<close> is assembled in a C \<open>int\<close>.\<close>

definition app_status :: "byte list \<Rightarrow> int" where
  "app_status bs = sint (word_of_int (uint (bs ! 0) * 2 ^ 24 + uint (bs ! 1) * 2 ^ 16 + uint (bs ! 2) * 2 ^ 8
     + uint (bs ! 3)) :: 32 word)"

definition as_end_request :: "cgi \<times> os \<Rightarrow> (cgi \<times> os) run res" where
  "as_end_request = (\<lambda>(g, w).
     if \<not> readingEndRequestBody g \<and> asContentLen g \<noteq> 8 then FCGIexit FCGX_PROTOCOL_ERROR (g, w)
     else
       let g0 = g\<lparr>readingEndRequestBody := True\<rparr> in
       case GetPtr (asContentLen g0) (fromAS g0) of (ptr, count, b) \<Rightarrow>
       let g1 = g0\<lparr>fromAS := b\<rparr> in
       bindr (if 0 < count then
                inbounds (8 * (8 - asContentLen g1) + count \<le> 8)
                 (Inr (g1\<lparr>erBody := put_bytes (8 * (8 - asContentLen g1)) ptr (erBody g1),
                          asContentLen := asContentLen g1 - count\<rparr>))
              else Inr g1) (\<lambda>g2.
       if asContentLen g2 \<noteq> 0 then Inr (Run (g2, w))
       else if uint (erBody g2 ! 4) \<noteq> FCGI_REQUEST_COMPLETE then FCGIexit FCGX_PROTOCOL_ERROR (g2, w)
       else Inr (Run (g2\<lparr>exitStatus := app_status (erBody g2), exitStatusSet := True,
                         readingEndRequestBody := False\<rparr>, w))))"

text \<open>Skipping the padding once the content has been read.\<close>

definition as_padding :: "cgi \<Rightarrow> cgi" where
  "as_padding g =
     (if asContentLen g \<noteq> 0 then g
      else
        let g1 = (if 0 < asPaddingLen g then
                    (case GetPtr (asPaddingLen g) (fromAS g) of (_, count, b) \<Rightarrow>
                       g\<lparr>fromAS := b, asPaddingLen := asPaddingLen g - count\<rparr>)
                  else g)
        in if asPaddingLen g1 = 0 then g1\<lparr>headerLen := 0\<rparr> else g1)"

definition as_content :: "cgi \<times> os \<Rightarrow> (cgi \<times> os) run res" where
  "as_content = (\<lambda>(g, w).
     let ty = uint (h_type (header_of_bytes (asHeader g))) in
     bindp (if ty = FCGI_STDOUT then as_output STDOUT_FILENO (g, w)
            else if ty = FCGI_STDERR then as_output STDERR_FILENO (g, w)
            else if ty = FCGI_END_REQUEST then as_end_request (g, w)
            else FCGIexit FCGX_PROTOCOL_ERROR (g, w))
       (\<lambda>(g1, w1). Inr (Run (as_padding g1, w1))))"

text \<open>The loop \<open>while(fromAS.next != fromAS.stop)\<close>. Every iteration consumes a byte or discards a complete header, so twice
  the number of buffered bytes and two more are enough fuel.\<close>

fun as_loop :: "nat \<Rightarrow> cgi \<times> os \<Rightarrow> (cgi \<times> os) run res" where
  "as_loop 0 s = Inl NoReturn"
| "as_loop (Suc fuel) s =
     (if bufNext (fromAS (fst s)) = bufStop (fromAS (fst s)) then Inr (Run s)
      else if headerLen (fst s) < 8 then
        bindp (as_header s) (\<lambda>(brk, s1). if brk then Inr (Run s1) else as_loop fuel s1)
      else bindp (as_content s) (as_loop fuel))"

declare as_loop.simps(2) [simp del]

definition AppServerReadHandler :: "int \<Rightarrow> cgi \<times> os \<Rightarrow> (cgi \<times> os) run res" where
  "AppServerReadHandler bytesRead = (\<lambda>(g, w).
     assertr (fcgiReadPending g)
      (let g1 = g\<lparr>fcgiReadPending := False\<rparr> in
       if bytesRead < 0 then FCGIexit (osErrno w) (g1, w)
       else if bytesRead = 0 then
         if 0 < headerLen g1 \<or> 0 < asPaddingLen g1 then FCGIexit FCGX_PROTOCOL_ERROR (g1, w)
         else bindr (if appServerSock g1 \<noteq> - 1 then OS_Close (appServerSock g1) True w else Inr (0, w)) (\<lambda>(_, w1).
           FCGIexit (if exitStatusSet g1 then exitStatus g1 else FCGX_PROTOCOL_ERROR)
             (g1\<lparr>appServerSock := - 1\<rparr>, w1))
       else
         let g2 = g1\<lparr>fromAS := (fromAS g1)\<lparr>bufStop := bufNext (fromAS g1) + nat bytesRead\<rparr>\<rparr> in
         bindp (as_loop (2 * nat bytesRead + 2) (g2, w)) ScheduleIo))"

section \<open>Input of the Web server\<close>

definition WriteStdinEof :: "cgi \<Rightarrow> cgi res" where
  "WriteStdinEof g =
     (if stdin_eof_sent g then Inr g
      else bindr (MakeHeader FCGI_STDIN (cgiRequestId g) 0 0) (\<lambda>h.
        inbounds (bufStop (fromWS g) + 8 \<le> BUFFLEN)
         (Inr (g\<lparr>fromWS := (fromWS g)\<lparr>bufData := put_bytes (bufStop (fromWS g)) (header_bytes h) (bufData (fromWS g)),
                                     bufStop := bufStop (fromWS g) + 8\<rparr>,
                stdin_eof_sent := True\<rparr>))))"

definition WebServerReadHandler :: "int \<Rightarrow> cgi \<times> os \<Rightarrow> (cgi \<times> os) run res" where
  "WebServerReadHandler bytesRead = (\<lambda>(g, w).
     assertr (bufNext (fromWS g) = bufStop (fromWS g))
    (assertr (bufNext (fromWS g) = 0)
    (assertr (wsReadPending g)
      (let g1 = g\<lparr>wsReadPending := False\<rparr> in
       if bytesRead < 0 then FCGIexit (osErrno w) (g1, w)
       else bindr (MakeHeader FCGI_STDIN (cgiRequestId g1) bytesRead 0) (\<lambda>h.
         let g2 = g1\<lparr>fromWS := (fromWS g1)\<lparr>bufData := put_bytes 0 (header_bytes h) (bufData (fromWS g1)),
                                           bufStop := 8 + nat bytesRead\<rparr>,
                      bytesToRead := bytesToRead g1 - bytesRead,
                      webServerReadHandlerEOF := (bytesRead = 0)\<rparr> in
         bindr (if bytesToRead g2 \<le> 0 then WriteStdinEof g2 else Inr g2) (\<lambda>g3. ScheduleIo (g3, w)))))))"

definition AppServerWriteHandler :: "int \<Rightarrow> cgi \<times> os \<Rightarrow> (cgi \<times> os) run res" where
  "AppServerWriteHandler bytesWritten = (\<lambda>(g, w).
     let b = fromWS g; len = int (bufStop b) - int (bufNext b) in
     assertr (0 < len)
    (assertr (fcgiWritePending g)
      (let g1 = g\<lparr>fcgiWritePending := False\<rparr> in
       if bytesWritten < 0 then FCGIexit (osErrno w) (g1, w)
       else if bytesWritten < len
       then ScheduleIo (g1\<lparr>fromWS := b\<lparr>bufNext := bufNext b + nat bytesWritten\<rparr>\<rparr>, w)
       else ScheduleIo (g1\<lparr>fromWS := b\<lparr>bufNext := 0, bufStop := 0\<rparr>\<rparr>, w))))"

section \<open>The completion procedures as a client of OS_DoIo\<close>

definition in_buffer :: "int \<Rightarrow> int \<Rightarrow> nat \<Rightarrow> bool" where
  "in_buffer base addr n \<longleftrightarrow> base \<le> addr \<and> addr + int n \<le> base + int BUFFLEN"

definition cgi_client :: "cgi client" where
  "cgi_client =
     \<lparr>peek = (\<lambda>addr n g. inbounds (in_buffer FROM_WS addr n) (Inr (sub_bytes (nat (addr - FROM_WS)) n (bufData (fromWS g))))),
      poke = (\<lambda>addr bs g.
        if in_buffer FROM_AS addr (length bs)
        then Inr (g\<lparr>fromAS := (fromAS g)\<lparr>bufData := put_bytes (nat (addr - FROM_AS)) bs (bufData (fromAS g))\<rparr>\<rparr>)
        else inbounds (in_buffer FROM_WS addr (length bs))
          (Inr (g\<lparr>fromWS := (fromWS g)\<lparr>bufData := put_bytes (nat (addr - FROM_WS)) bs (bufData (fromWS g))\<rparr>\<rparr>))),
      callout = (\<lambda>proc cd len s.
        if proc = PROC_AppServerRead then AppServerReadHandler len s
        else if proc = PROC_WebServerRead then WebServerReadHandler len s
        else if proc = PROC_AppServerWrite then AppServerWriteHandler len s
        else Inl OutOfBounds)\<rparr>"

section \<open>main\<close>

text \<open>Sending the environment as \<open>FCGI_PARAMS\<close> content. \<open>Inl\<close> is the code the program exits with.\<close>

fun send_environ :: "byte list list \<Rightarrow> st \<Rightarrow> ((int + unit) \<times> st) res" where
  "send_environ [] s = Inr (Inr (), s)"
| "send_environ (e # es) s =
     (let name = takeWhile (\<lambda>b. b \<noteq> 0x3d) e; value = drop (Suc (length name)) e in
      if 0x3d \<notin> set e then Inr (Inl 1000, s)
      else bindr (FCGIUtil_BuildNameValueHeader (int (length name)) (int (length value))) (\<lambda>hb.
        bindr (FCGX_PutStr EmptyBuffProc hb s) (\<lambda>(r1, s1).
        if r1 < 0 then Inr (Inl (FCGX_GetError (strm s1)), s1)
        else bindr (FCGX_PutStr EmptyBuffProc name s1) (\<lambda>(r2, s2).
        if r2 < 0 then Inr (Inl (FCGX_GetError (strm s2)), s2)
        else bindr (FCGX_PutStr EmptyBuffProc value s2) (\<lambda>(r3, s3).
        if r3 < 0 then Inr (Inl (FCGX_GetError (strm s3)), s3)
        else send_environ es s3)))))"

text \<open>\<open>OS_SetFlags\<close> of \<open>os_unix.c\<close>: \<open>fcntl\<close> fails on a descriptor that is not open. What \<open>O_NONBLOCK\<close> changes is
  which \<open>read\<close> and \<open>write\<close> events the scripts hold.\<close>

definition O_NONBLOCK :: int where "O_NONBLOCK = 2048"

definition OS_SetFlags :: "int \<Rightarrow> int \<Rightarrow> os \<Rightarrow> os run res" where
  "OS_SetFlags fd fl w = (if isOpen (conns w fd) then Inr (Run w) else Inr (Exit EBADF (w\<lparr>osErrno := EBADF\<rparr>)))"

text \<open>
  The part of \<open>main\<close> that sends the request, from \<open>requestId = 1\<close> on, for a connection that is open. \<open>r\<close> is
  what the memory allocated by \<open>FCGX_CreateWriter\<close> holds, \<open>envp\<close> the environment.
\<close>

definition main_request :: "FCGX_ReqData \<Rightarrow> byte list list \<Rightarrow> cgi \<times> os \<Rightarrow> (cgi \<times> os) run res" where
  "main_request r envp = (\<lambda>(g, w).
     let g1 = g\<lparr>cgiRequestId := 1\<rparr> in
     bindr (MakeHeader FCGI_BEGIN_REQUEST (cgiRequestId g1) 8 0) (\<lambda>h.
     bindr (MakeBeginRequestBody FCGI_RESPONDER False) (\<lambda>body.
     case OS_Write (appServerSock g1) (header_bytes h @ begin_body_bytes body) w of (count, w1) \<Rightarrow>
       if count \<noteq> 16 then FCGIexit (osErrno w1) (g1, w1)
       else
         bindr (send_environ envp (FCGX_CreateWriter r (appServerSock g1) (cgiRequestId g1) 8192 FCGI_PARAMS w1))
           (\<lambda>(x, s2).
         case x of Inl code \<Rightarrow> FCGIexit code (g1, sys s2)
         | Inr _ \<Rightarrow>
         bindr (FCGX_FClose EmptyBuffProc s2) (\<lambda>(_, s3).
         let g2 = g1\<lparr>fromWS := (fromWS g1)\<lparr>bufNext := 0, bufStop := 0\<rparr>, webServerReadHandlerEOF := False\<rparr> in
         bindp (OS_SetFlags (appServerSock g2) O_NONBLOCK (sys s3)) (\<lambda>w4.
         bindr (if bytesToRead g2 \<le> 0 then WriteStdinEof g2 else Inr g2) (\<lambda>g3.
         ScheduleIo (g3, w4))))))))"

text \<open>The event loop \<open>while(!exitStatusSet) OS_DoIo(NULL)\<close> and the exit; the list holds what successive calls of
  \<open>select\<close> answer. When it is used up the program waits in \<open>select\<close>.\<close>

fun event_loop :: "select_event list \<Rightarrow> cgi \<times> os \<Rightarrow> unit run res" where
  "event_loop es s =
     (if exitStatusSet (fst s) then FCGIexit (exitStatus (fst s)) s
      else case es of [] \<Rightarrow> Inl Blocked
      | e # es' \<Rightarrow> bindp (OS_DoIo cgi_client e s) (\<lambda>(_, s'). event_loop es' s'))"

declare event_loop.simps [simp del]

end
