(* ===== verification/Fcgi_Relay.thy ===== *)
theory Fcgi_Relay
  imports Fcgi_Cgi
begin

text \<open>
  What \<open>cgi-fcgi\<close> does with the output of the application server. The reference is a machine that reads the
  output one byte at a time (\<open>relay_byte\<close>), without buffers or chunks; the loop of \<open>AppServerReadHandler\<close> is shown
  to do on a chunk what the machine does on its bytes, as long as no chunk begins inside a header or inside the body
  of \<open>FCGI_END_REQUEST\<close>. On a chunk that does, the source copies past the end of its static variables.
\<close>

section \<open>The reference machine\<close>

text \<open>
  The machine is collecting a header, or in a record of a type with so many bytes of content and padding to come, or
  past the end of the request with so much padding to come; \<open>Failed\<close> is an exit with an error code and
  \<open>Overrun\<close> a byte after the end of the request.
\<close>

datatype phase = Header "byte list" | Content int nat nat | Ended nat | Failed int | Overrun

record relay =
  rPhase :: phase
  rOut :: "byte list"
  rErr :: "byte list"
  rBody :: "byte list"
  rStatus :: "int option"

definition within_record :: "int \<Rightarrow> nat \<Rightarrow> nat \<Rightarrow> phase" where
  "within_record ty c p = (if c = 0 \<and> p = 0 then Header [] else Content ty c p)"

definition header_byte :: "int \<Rightarrow> byte list \<Rightarrow> phase" where
  "header_byte rid hb =
     (let h = header_of_bytes hb in
      if length hb < 8 then Header hb
      else if h_version h \<noteq> FCGI_VERSION_1 then Failed FCGX_UNSUPPORTED_VERSION
      else if header_requestId h \<noteq> rid then Failed FCGX_PROTOCOL_ERROR
      else Content (uint (h_type h)) (nat (header_contentLength h)) (unat (h_paddingLength h)))"

text \<open>The last byte of the body of \<open>FCGI_END_REQUEST\<close>.\<close>

definition end_body :: "nat \<Rightarrow> byte list \<Rightarrow> relay \<Rightarrow> relay" where
  "end_body p bs r =
     (if uint (bs ! 4) \<noteq> FCGI_REQUEST_COMPLETE then r\<lparr>rPhase := Failed FCGX_PROTOCOL_ERROR, rBody := []\<rparr>
      else r\<lparr>rPhase := Ended p, rBody := [], rStatus := Some (app_status bs)\<rparr>)"

definition relay_byte :: "int \<Rightarrow> byte \<Rightarrow> relay \<Rightarrow> relay" where
  "relay_byte rid b r =
     (case rPhase r of
        Header hb \<Rightarrow> r\<lparr>rPhase := header_byte rid (hb @ [b])\<rparr>
      | Content ty c p \<Rightarrow>
          if ty = FCGI_STDOUT \<or> ty = FCGI_STDERR then
            if 0 < c then
              (if ty = FCGI_STDOUT then r\<lparr>rPhase := within_record ty (c - 1) p, rOut := rOut r @ [b]\<rparr>
               else r\<lparr>rPhase := within_record ty (c - 1) p, rErr := rErr r @ [b]\<rparr>)
            else if 0 < p then r\<lparr>rPhase := within_record ty 0 (p - 1)\<rparr>
            else r\<lparr>rPhase := header_byte rid [b]\<rparr>
          else if ty = FCGI_END_REQUEST \<and> c + length (rBody r) = 8 then
            if c = 1 then end_body p (rBody r @ [b]) r
            else r\<lparr>rPhase := Content ty (c - 1) p, rBody := rBody r @ [b]\<rparr>
          else r\<lparr>rPhase := Failed FCGX_PROTOCOL_ERROR\<rparr>
      | Ended p \<Rightarrow> if 0 < p then r\<lparr>rPhase := Ended (p - 1)\<rparr> else r\<lparr>rPhase := Overrun\<rparr>
      | Failed e \<Rightarrow> r
      | Overrun \<Rightarrow> r)"

definition relay_bytes :: "int \<Rightarrow> byte list \<Rightarrow> relay \<Rightarrow> relay" where
  "relay_bytes rid bs r = fold (relay_byte rid) bs r"

text \<open>Whether the state is one in which a chunk may begin.\<close>

definition at_boundary :: "relay \<Rightarrow> bool" where
  "at_boundary r \<longleftrightarrow> rBody r = [] \<and> (case rPhase r of Header hb \<Rightarrow> hb = [] | Content _ _ _ \<Rightarrow> True | _ \<Rightarrow> False)"

section \<open>The machine on runs of bytes\<close>

lemma relay_bytes_simps [simp]:
  "relay_bytes rid [] r = r"
  "relay_bytes rid (b # bs) r = relay_bytes rid bs (relay_byte rid b r)"
  by (simp_all add: relay_bytes_def)

lemma relay_bytes_append: "relay_bytes rid (as @ bs) r = relay_bytes rid bs (relay_bytes rid as r)"
  by (simp add: relay_bytes_def)

lemma relay_split: "relay_bytes rid bs r = relay_bytes rid (drop n bs) (relay_bytes rid (take n bs) r)"
  by (simp add: relay_bytes_append [symmetric])

lemma relay_absorbs [simp]:
  "rPhase r = Failed e \<Longrightarrow> relay_bytes rid bs r = r"
  "rPhase r = Overrun \<Longrightarrow> relay_bytes rid bs r = r"
  by (induction bs) (simp_all add: relay_byte_def)

lemma relay_header:
  "rPhase r = Header hb \<Longrightarrow> bs \<noteq> [] \<Longrightarrow> length hb + length bs \<le> 8
    \<Longrightarrow> relay_bytes rid bs r = r\<lparr>rPhase := header_byte rid (hb @ bs)\<rparr>"
proof (induction bs arbitrary: hb r)
  case (Cons b bs)
  show ?case
  proof (cases "bs = []")
    case False
    then have "header_byte rid (hb @ [b]) = Header (hb @ [b])"
      using Cons.prems by (cases bs) (simp_all add: header_byte_def)
    then show ?thesis using Cons.IH [of "r\<lparr>rPhase := Header (hb @ [b])\<rparr>" "hb @ [b]"] False Cons.prems
      by (simp add: relay_byte_def)
  qed (use Cons.prems in \<open>simp add: relay_byte_def\<close>)
qed simp

lemma relay_output:
  "rPhase r = Content ty c p \<Longrightarrow> ty = FCGI_STDOUT \<or> ty = FCGI_STDERR \<Longrightarrow> bs \<noteq> [] \<Longrightarrow> length bs \<le> c
    \<Longrightarrow> relay_bytes rid bs r = r\<lparr>rPhase := within_record ty (c - length bs) p,
          rOut := rOut r @ (if ty = FCGI_STDOUT then bs else []), rErr := rErr r @ (if ty = FCGI_STDERR then bs else [])\<rparr>"
proof (induction bs arbitrary: c r)
  case (Cons b bs)
  have ne: "FCGI_STDOUT \<noteq> FCGI_STDERR" by (simp add: FCGI_STDOUT_def FCGI_STDERR_def)
  show ?case
  proof (cases "bs = []")
    case False
    then have "within_record ty (c - 1) p = Content ty (c - 1) p"
      using Cons.prems by (cases bs) (auto simp: within_record_def)
    then show ?thesis using Cons.IH [of "relay_byte rid b r" "c - 1"] False Cons.prems ne
      by (auto simp: relay_byte_def)
  qed (use Cons.prems ne in \<open>auto simp: relay_byte_def\<close>)
qed simp

lemma relay_skip:
  "rPhase r = Content ty 0 p \<Longrightarrow> ty = FCGI_STDOUT \<or> ty = FCGI_STDERR \<Longrightarrow> bs \<noteq> [] \<Longrightarrow> length bs \<le> p
    \<Longrightarrow> relay_bytes rid bs r = r\<lparr>rPhase := within_record ty 0 (p - length bs)\<rparr>"
proof (induction bs arbitrary: p r)
  case (Cons b bs)
  show ?case
  proof (cases "bs = []")
    case False
    then have "within_record ty 0 (p - 1) = Content ty 0 (p - 1)"
      using Cons.prems by (cases bs) (auto simp: within_record_def)
    then show ?thesis using Cons.IH [of "relay_byte rid b r" "p - 1"] False Cons.prems
      by (auto simp: relay_byte_def)
  qed (use Cons.prems in \<open>auto simp: relay_byte_def\<close>)
qed simp

lemma end_body_over [simp]: "end_body p bs (r\<lparr>rPhase := ph, rBody := b\<rparr>) = end_body p bs r"
  by (simp add: end_body_def)

lemma relay_end:
  "rPhase r = Content FCGI_END_REQUEST c p \<Longrightarrow> c + length (rBody r) = 8 \<Longrightarrow> bs \<noteq> [] \<Longrightarrow> length bs \<le> c
    \<Longrightarrow> relay_bytes rid bs r =
      (if length bs = c then end_body p (rBody r @ bs) r
       else r\<lparr>rPhase := Content FCGI_END_REQUEST (c - length bs) p, rBody := rBody r @ bs\<rparr>)"
proof (induction bs arbitrary: c r)
  case (Cons b bs)
  have ne: "FCGI_END_REQUEST \<noteq> FCGI_STDOUT" "FCGI_END_REQUEST \<noteq> FCGI_STDERR"
    by (simp_all add: FCGI_STDOUT_def FCGI_STDERR_def FCGI_END_REQUEST_def)
  show ?case
  proof (cases "bs = []")
    case False
    then have "c \<noteq> 1" using Cons.prems by (cases bs) auto
    then have "relay_byte rid b r = r\<lparr>rPhase := Content FCGI_END_REQUEST (c - 1) p, rBody := rBody r @ [b]\<rparr>"
      using Cons.prems ne by (simp add: relay_byte_def)
    moreover have "Suc (length bs) = c \<longleftrightarrow> length bs = c - 1" using Cons.prems(4) by auto
    ultimately show ?thesis
      using Cons.IH [of "r\<lparr>rPhase := Content FCGI_END_REQUEST (c - 1) p, rBody := rBody r @ [b]\<rparr>" "c - 1"] False Cons.prems
      by simp
  qed (use Cons.prems ne in \<open>auto simp: relay_byte_def\<close>)
qed simp

lemma relay_ended:
  "rPhase r = Ended p \<Longrightarrow> relay_bytes rid bs r = (if length bs \<le> p then r\<lparr>rPhase := Ended (p - length bs)\<rparr> else r\<lparr>rPhase := Overrun\<rparr>)"
proof (induction bs arbitrary: p r)
  case (Cons b bs)
  then show ?case by (cases p) (auto simp: relay_byte_def)
qed simp

lemma relay_other:
  "rPhase r = Content ty c p \<Longrightarrow> ty \<noteq> FCGI_STDOUT \<Longrightarrow> ty \<noteq> FCGI_STDERR \<Longrightarrow> \<not> (ty = FCGI_END_REQUEST \<and> c + length (rBody r) = 8)
    \<Longrightarrow> bs \<noteq> [] \<Longrightarrow> relay_bytes rid bs r = r\<lparr>rPhase := Failed FCGX_PROTOCOL_ERROR\<rparr>"
  by (cases bs) (auto simp: relay_byte_def)

section \<open>The buffer\<close>

definition held :: "Buffer \<Rightarrow> byte list \<Rightarrow> bool" where
  "held b bs \<longleftrightarrow> bufNext b + length bs = bufStop b \<and> bufStop b \<le> length (bufData b)
     \<and> sub_bytes (bufNext b) (length bs) (bufData b) = bs"

definition advance :: "nat \<Rightarrow> Buffer \<Rightarrow> Buffer" where
  "advance n b = b\<lparr>bufNext := bufNext b + n\<rparr>"

lemma advance_data [simp]: "bufData (advance n b) = bufData b"
  by (simp add: advance_def)

lemma held_take: "held b bs \<Longrightarrow> n \<le> length bs \<Longrightarrow> sub_bytes (bufNext b) n (bufData b) = take n bs"
  by (metis held_def min.absorb1 sub_bytes_def take_take)

lemma GetPtr_held:
  "held b bs \<Longrightarrow> GetPtr n b = (take n bs, min n (length bs), advance (min n (length bs)) b)"
proof -
  assume h: "held b bs"
  then have "bufStop b - bufNext b = length bs" by (simp add: held_def) linarith
  moreover have "take (min n (length bs)) bs = take n bs" by (cases "n \<le> length bs") simp_all
  ultimately show ?thesis using held_take [OF h, of "min n (length bs)"] by (simp add: GetPtr_def advance_def Let_def)
qed

lemma held_advance: "held b bs \<Longrightarrow> n \<le> length bs \<Longrightarrow> held (advance n b) (drop n bs)"
  unfolding held_def advance_def sub_bytes_def
  by (auto simp: drop_take) (metis add.commute drop_drop drop_take)

lemma held_empty: "held b bs \<Longrightarrow> bufNext b = bufStop b \<longleftrightarrow> bs = []"
  by (auto simp: held_def)

section \<open>The static variables and the machine\<close>

text \<open>The variables that the loop of \<open>AppServerReadHandler\<close> leaves alone.\<close>

definition as_rest :: "cgi \<Rightarrow> cgi" where
  "as_rest g = g\<lparr>fromAS := \<lparr>bufNext = 0, bufStop = 0, bufData = []\<rparr>, asHeader := [], headerLen := 0, asContentLen := 0,
     asPaddingLen := 0, erBody := [], readingEndRequestBody := False, exitStatus := 0, exitStatusSet := False\<rparr>"

lemma as_rest_upd [simp]:
  "as_rest (g\<lparr>fromAS := b\<rparr>) = as_rest g" "as_rest (g\<lparr>asHeader := hb\<rparr>) = as_rest g"
  "as_rest (g\<lparr>headerLen := n\<rparr>) = as_rest g" "as_rest (g\<lparr>asContentLen := n\<rparr>) = as_rest g"
  "as_rest (g\<lparr>asPaddingLen := n\<rparr>) = as_rest g" "as_rest (g\<lparr>erBody := hb\<rparr>) = as_rest g"
  "as_rest (g\<lparr>readingEndRequestBody := f\<rparr>) = as_rest g" "as_rest (g\<lparr>exitStatus := e\<rparr>) = as_rest g"
  "as_rest (g\<lparr>exitStatusSet := f\<rparr>) = as_rest g"
  by (simp_all add: as_rest_def)

lemma as_rest_fields:
  assumes "as_rest g' = as_rest g"
  shows "appServerSock g' = appServerSock g" "cgiLibInit g' = cgiLibInit g" "cgiRequestId g' = cgiRequestId g"
  using arg_cong [OF assms, of appServerSock] arg_cong [OF assms, of cgiLibInit] arg_cong [OF assms, of cgiRequestId]
  by (simp_all add: as_rest_def)

lemma FCGIexit_rest:
  assumes "as_rest g' = as_rest g" shows "FCGIexit c (g', w) = FCGIexit c (g, w)"
  by (simp add: FCGIexit_def as_rest_fields [OF assms])

definition corr :: "cgi \<Rightarrow> relay \<Rightarrow> bool" where
  "corr g r \<longleftrightarrow> length (asHeader g) = 8 \<and> length (erBody g) = 8
     \<and> rStatus r = (if exitStatusSet g then Some (exitStatus g) else None)
     \<and> (case rPhase r of
          Header hb \<Rightarrow> headerLen g = length hb \<and> length hb < 8 \<and> asPaddingLen g = 0 \<and> rBody r = [] \<and> \<not> readingEndRequestBody g
        | Content ty c p \<Rightarrow> headerLen g = 8 \<and> uint (h_type (header_of_bytes (asHeader g))) = ty \<and> asContentLen g = c
            \<and> asPaddingLen g = p \<and> (readingEndRequestBody g \<longleftrightarrow> rBody r \<noteq> [])
            \<and> (rBody r \<noteq> [] \<longrightarrow> ty = FCGI_END_REQUEST \<and> 0 < c \<and> c + length (rBody r) = 8)
        | Ended p \<Rightarrow> exitStatusSet g \<and> headerLen g = (if p = 0 then 0 else 8) \<and> asContentLen g = 0 \<and> asPaddingLen g = p
            \<and> uint (h_type (header_of_bytes (asHeader g))) = FCGI_END_REQUEST \<and> \<not> readingEndRequestBody g \<and> rBody r = []
        | Failed e \<Rightarrow> False
        | Overrun \<Rightarrow> False)"

text \<open>A descriptor whose kernel takes everything that is written, and what a write does to it.\<close>

definition takes_all :: "int \<Rightarrow> os \<Rightarrow> bool" where
  "takes_all fd w \<longleftrightarrow> isOpen (conns w fd) \<and> wrScript (conns w fd) = [] \<and> \<not> shutdownNow w"

definition put_out :: "int \<Rightarrow> byte list \<Rightarrow> os \<Rightarrow> os" where
  "put_out fd bs w = w\<lparr>conns := (conns w)(fd := (conns w fd)\<lparr>sent := sent (conns w fd) @ bs\<rparr>)\<rparr>"

lemma put_out_append [simp]: "put_out fd cs (put_out fd bs w) = put_out fd (bs @ cs) w"
  by (simp add: put_out_def)

lemma put_out_Nil [simp]: "put_out fd [] w = w"
  by (simp add: put_out_def)

lemma put_out_commute: "fd \<noteq> fd' \<Longrightarrow> put_out fd bs (put_out fd' cs w) = put_out fd' cs (put_out fd bs w)"
  by (simp add: put_out_def fun_upd_twist)

lemma takes_all_put_out [simp]: "takes_all fd (put_out fd' bs w) = takes_all fd w"
  by (simp add: takes_all_def put_out_def)

lemma OS_Write_takes_all: "takes_all fd w \<Longrightarrow> OS_Write fd bs w = (int (length bs), put_out fd bs w)"
  by (simp add: OS_Write_def posix_write_def takes_all_def put_out_def Let_def)

text \<open>What has been passed on from \<open>r\<close> to \<open>r'\<close>.\<close>

definition relayed :: "relay \<Rightarrow> relay \<Rightarrow> os \<Rightarrow> os" where
  "relayed r r' w = put_out STDERR_FILENO (drop (length (rErr r)) (rErr r'))
     (put_out STDOUT_FILENO (drop (length (rOut r)) (rOut r')) w)"

lemma relayed_same [simp]: "rOut r' = rOut r \<Longrightarrow> rErr r' = rErr r \<Longrightarrow> relayed r r' w = w"
  by (simp add: relayed_def)

lemma relayed_trans:
  assumes "rOut r1 = rOut r @ o1" "rErr r1 = rErr r @ e1" "rOut r2 = rOut r1 @ o2" "rErr r2 = rErr r1 @ e2"
  shows "relayed r1 r2 (relayed r r1 w) = relayed r r2 w"
  using assms by (simp add: relayed_def STDOUT_FILENO_def STDERR_FILENO_def put_out_commute [of 2 1])

lemma relayed_takes_all [simp]: "takes_all fd (relayed r r' w) = takes_all fd w"
  by (simp add: relayed_def)

lemma relay_byte_grows: "\<exists>o1 e1. rOut (relay_byte rid b r) = rOut r @ o1 \<and> rErr (relay_byte rid b r) = rErr r @ e1"
  by (auto simp: relay_byte_def end_body_def split: phase.splits)

lemma relay_bytes_grows: "\<exists>o1 e1. rOut (relay_bytes rid bs r) = rOut r @ o1 \<and> rErr (relay_bytes rid bs r) = rErr r @ e1"
proof (induction bs arbitrary: r)
  case (Cons b bs)
  obtain o1 e1 where 1: "rOut (relay_byte rid b r) = rOut r @ o1" "rErr (relay_byte rid b r) = rErr r @ e1"
    using relay_byte_grows by blast
  obtain o2 e2 where "rOut (relay_bytes rid bs (relay_byte rid b r)) = rOut (relay_byte rid b r) @ o2"
    "rErr (relay_bytes rid bs (relay_byte rid b r)) = rErr (relay_byte rid b r) @ e2"
    using Cons.IH by blast
  with 1 show ?case by simp
qed simp

lemma relayed_step:
  "relayed (relay_bytes rid as r) (relay_bytes rid (as @ bs) r) (relayed r (relay_bytes rid as r) w)
     = relayed r (relay_bytes rid (as @ bs) r) w"
proof -
  obtain o1 e1 where "rOut (relay_bytes rid as r) = rOut r @ o1" "rErr (relay_bytes rid as r) = rErr r @ e1"
    using relay_bytes_grows by blast
  moreover obtain o2 e2 where "rOut (relay_bytes rid (as @ bs) r) = rOut (relay_bytes rid as r) @ o2"
    "rErr (relay_bytes rid (as @ bs) r) = rErr (relay_bytes rid as r) @ e2"
    using relay_bytes_grows [of rid bs "relay_bytes rid as r"] by (auto simp: relay_bytes_append)
  ultimately show ?thesis by (rule relayed_trans)
qed

section \<open>One iteration of the loop\<close>

definition relay_result :: "int \<Rightarrow> cgi \<Rightarrow> relay \<Rightarrow> byte list \<Rightarrow> os \<Rightarrow> (cgi \<times> os) run res \<Rightarrow> bool" where
  "relay_result rid g r bs w res \<longleftrightarrow>
     (let r' = relay_bytes rid bs r; w' = relayed r r' w in
      case rPhase r' of Failed c \<Rightarrow> res = FCGIexit c (g, w')
      | _ \<Rightarrow> \<exists>g'. res = Inr (Run (g', w')) \<and> corr g' r' \<and> as_rest g' = as_rest g \<and> held (fromAS g') []
               \<and> bufData (fromAS g') = bufData (fromAS g))"

lemma relay_result_step:
  assumes "relay_result rid g1 (relay_bytes rid as r) bs (relayed r (relay_bytes rid as r) w) res"
    "as_rest g1 = as_rest g" "bufData (fromAS g1) = bufData (fromAS g)"
  shows "relay_result rid g r (as @ bs) w res"
  using assms
  by (simp add: relay_result_def Let_def relay_bytes_append [symmetric] relayed_step FCGIexit_rest [OF assms(2)]
      split: phase.splits)

lemma put_bytes_all: "length bs = length xs \<Longrightarrow> put_bytes 0 bs xs = bs"
  by (simp add: put_bytes_def)

lemma as_header_partial:
  assumes "held (fromAS g) bs" "bs \<noteq> []" "length bs < 8" "headerLen g = 0"
  shows "as_header (g, w) = Inr (Run (True, g\<lparr>fromAS := advance (length bs) (fromAS g),
     asHeader := put_bytes 0 bs (asHeader g), headerLen := length bs\<rparr>, w))"
  using assms by (simp add: as_header_def GetPtr_held [OF assms(1)] Let_def)

lemma bindp_FCGIexit [simp]: "bindp (FCGIexit e s) k = FCGIexit e s"
  by (cases s; cases "if appServerSock (fst s) \<noteq> - 1 then OS_Close (appServerSock (fst s)) True (snd s) else Inr (0, snd s)")
    (auto simp: FCGIexit_def bindp_def OS_LibShutdown_def)

lemma FCGIexit_over:
  "FCGIexit c (g\<lparr>fromAS := b, asHeader := hb, headerLen := n\<rparr>, w) = FCGIexit c (g, w)"
  by (rule FCGIexit_rest) simp

lemma as_header_complete:
  assumes "held (fromAS g) bs" "8 \<le> length bs" "headerLen g = 0" "length (asHeader g) = 8"
  shows "as_header (g, w) = (case header_byte (cgiRequestId g) (take 8 bs) of
      Failed c \<Rightarrow> FCGIexit c (g, w)
    | Content ty c p \<Rightarrow> Inr (Run (False, g\<lparr>fromAS := advance 8 (fromAS g), asHeader := take 8 bs, headerLen := 8,
        asContentLen := c, asPaddingLen := p\<rparr>, w))
    | _ \<Rightarrow> undefined)"
proof -
  have "put_bytes 0 (take 8 bs) (asHeader g) = take 8 bs" using assms(2,4) by (simp add: put_bytes_all)
  moreover have "min 8 (length bs) = 8" using assms(2) by simp
  ultimately show ?thesis using assms(2-4)
    by (simp add: as_header_def GetPtr_held [OF assms(1)] header_byte_def Let_def FCGIexit_over)
qed

lemma as_padding_held:
  assumes "held (fromAS g) bs" "asContentLen g = 0"
  shows "as_padding g = g\<lparr>fromAS := advance (min (asPaddingLen g) (length bs)) (fromAS g),
     asPaddingLen := asPaddingLen g - length bs, headerLen := (if asPaddingLen g \<le> length bs then 0 else headerLen g)\<rparr>"
  using assms by (auto simp: as_padding_def GetPtr_held [OF assms(1)] Let_def advance_def min_def)

lemma header_byte_cases:
  "length hb = 8 \<Longrightarrow> (\<exists>c. header_byte rid hb = Failed c) \<or>
     (\<exists>c p. header_byte rid hb = Content (uint (h_type (header_of_bytes hb))) c p)"
  by (simp add: header_byte_def Let_def)

lemma as_output_held:
  assumes "held (fromAS g) bs" "takes_all fd w"
  shows "as_output fd (g, w) = Inr (Run (g\<lparr>fromAS := advance (min (asContentLen g) (length bs)) (fromAS g),
     asContentLen := asContentLen g - length bs\<rparr>, put_out fd (take (asContentLen g) bs) w))"
proof (cases "0 < min (asContentLen g) (length bs)")
  case True
  then show ?thesis by (simp add: as_output_def GetPtr_held [OF assms(1)] Let_def OS_Write_takes_all [OF assms(2)] min_def)
next
  case False
  then consider "asContentLen g = 0" | "bs = []" by (cases "bs = []") auto
  then show ?thesis by cases (simp_all add: as_output_def GetPtr_held [OF assms(1)] Let_def)
qed

text \<open>The machine on the content and the padding of a record of standard output or standard error.\<close>

lemma relay_record:
  assumes "rPhase r = Content ty c p" "ty = FCGI_STDOUT \<or> ty = FCGI_STDERR" "bs \<noteq> []" "length bs \<le> c + p"
  shows "relay_bytes rid bs r = r\<lparr>rPhase := within_record ty (c - length bs) (p - (length bs - c)),
      rOut := rOut r @ (if ty = FCGI_STDOUT then take c bs else []),
      rErr := rErr r @ (if ty = FCGI_STDERR then take c bs else [])\<rparr>"
proof (cases "length bs \<le> c")
  case True
  then show ?thesis using relay_output [OF assms(1-3) True] by simp
next
  case False
  let ?r = "r\<lparr>rOut := rOut r @ (if ty = FCGI_STDOUT then take c bs else []),
      rErr := rErr r @ (if ty = FCGI_STDERR then take c bs else [])\<rparr>"
  have p: "0 < p" and d: "drop c bs \<noteq> []" "length (drop c bs) \<le> p" using False assms(4) by auto
  have "relay_bytes rid (take c bs) r = ?r\<lparr>rPhase := Content ty 0 p\<rparr>"
  proof (cases "c = 0")
    case True
    then show ?thesis using assms(1) by simp
  next
    case c: False
    then have "relay_bytes rid (take c bs) r = ?r\<lparr>rPhase := within_record ty 0 p\<rparr>"
      using relay_output [OF assms(1,2), of "take c bs"] assms(3) False by simp
    then show ?thesis using p by (simp add: within_record_def)
  qed
  moreover have "relay_bytes rid (drop c bs) (?r\<lparr>rPhase := Content ty 0 p\<rparr>) = ?r\<lparr>rPhase := within_record ty 0 (p - length (drop c bs))\<rparr>"
    by (subst relay_skip [of _ ty p]) (use assms(2) d in simp_all)
  ultimately show ?thesis using False by (subst relay_split [of rid bs r c]) simp
qed

text \<open>An iteration on such a record: the content that is there and then the padding that is there.\<close>

lemma as_content_output:
  assumes "corr g r" "rPhase r = Content ty c p" "held (fromAS g) bs"
    "ty = FCGI_STDOUT \<and> fd = STDOUT_FILENO \<or> ty = FCGI_STDERR \<and> fd = STDERR_FILENO" "takes_all fd w"
  shows "as_content (g, w) = Inr (Run (g\<lparr>fromAS := advance (min (c + p) (length bs)) (fromAS g),
     asContentLen := c - length bs, asPaddingLen := p - (length bs - c),
     headerLen := (if c + p \<le> length bs then 0 else 8)\<rparr>, put_out fd (take c bs) w))"
proof -
  have g: "headerLen g = 8" "uint (h_type (header_of_bytes (asHeader g))) = ty" "asContentLen g = c" "asPaddingLen g = p"
    using assms(1,2) by (simp_all add: corr_def)
  let ?g = "g\<lparr>fromAS := advance (min c (length bs)) (fromAS g), asContentLen := c - length bs\<rparr>"
  have "as_output fd (g, w) = Inr (Run (?g, put_out fd (take c bs) w))"
    using as_output_held [OF assms(3,5)] g(3) by simp
  moreover have "FCGI_STDOUT \<noteq> FCGI_STDERR" by (simp add: FCGI_STDOUT_def FCGI_STDERR_def)
  ultimately have run: "as_content (g, w) = Inr (Run (as_padding ?g, put_out fd (take c bs) w))"
    using assms(4) g(2) by (auto simp: as_content_def Let_def)
  show ?thesis
  proof (cases "c \<le> length bs")
    case True
    then have "held (fromAS ?g) (drop c bs)" using held_advance [OF assms(3) True] by simp
    from as_padding_held [OF this] True g run show ?thesis
      by (auto simp: advance_def min_def)
  next
    case False
    then show ?thesis using run g by (simp add: as_padding_def min_def)
  qed
qed

text \<open>An iteration on \<open>FCGI_END_REQUEST\<close> whose body has not been begun, and on any other record.\<close>

lemma stream_types: "FCGI_STDOUT \<noteq> FCGI_STDERR" "FCGI_END_REQUEST \<noteq> FCGI_STDOUT" "FCGI_END_REQUEST \<noteq> FCGI_STDERR"
  by (simp_all add: FCGI_STDOUT_def FCGI_STDERR_def FCGI_END_REQUEST_def)

lemma as_content_other:
  assumes "corr g r" "rPhase r = Content ty c p" "ty \<noteq> FCGI_STDOUT" "ty \<noteq> FCGI_STDERR"
    "\<not> (ty = FCGI_END_REQUEST \<and> c + length (rBody r) = 8)" "rBody r = []"
  shows "as_content (g, w) = FCGIexit FCGX_PROTOCOL_ERROR (g, w)"
  using assms by (auto simp: as_content_def corr_def Let_def as_end_request_def)

lemma as_content_end_partial:
  assumes "corr g r" "rPhase r = Content FCGI_END_REQUEST 8 p" "rBody r = []" "held (fromAS g) bs" "bs \<noteq> []" "length bs < 8"
  shows "as_content (g, w) = Inr (Run (g\<lparr>readingEndRequestBody := True, fromAS := advance (length bs) (fromAS g),
      erBody := put_bytes 0 bs (erBody g), asContentLen := 8 - length bs\<rparr>, w))"
  using assms stream_types
  by (auto simp: as_content_def corr_def Let_def as_end_request_def GetPtr_held [OF assms(4)] as_padding_def)

lemma as_content_end_complete:
  assumes "corr g r" "rPhase r = Content FCGI_END_REQUEST 8 p" "rBody r = []" "held (fromAS g) bs" "8 \<le> length bs"
  shows "as_content (g, w) =
     (if uint (bs ! 4) \<noteq> FCGI_REQUEST_COMPLETE then FCGIexit FCGX_PROTOCOL_ERROR (g, w)
      else Inr (Run (g\<lparr>fromAS := advance (min (8 + p) (length bs)) (fromAS g), erBody := take 8 bs, asContentLen := 0,
        exitStatus := app_status (take 8 bs), exitStatusSet := True,
        readingEndRequestBody := False, asPaddingLen := p - (length bs - 8),
        headerLen := (if 8 + p \<le> length bs then 0 else 8)\<rparr>, w)))"
proof -
  have g: "headerLen g = 8" "uint (h_type (header_of_bytes (asHeader g))) = FCGI_END_REQUEST" "asContentLen g = 8"
    "asPaddingLen g = p" "length (erBody g) = 8" "\<not> readingEndRequestBody g"
    using assms(1-3) by (simp_all add: corr_def)
  have er: "put_bytes 0 (take 8 bs) (erBody g) = take 8 bs" "min 8 (length bs) = 8" "take 8 bs ! 4 = bs ! 4"
    using assms(5) g(5) by (simp_all add: put_bytes_all)
  let ?g = "g\<lparr>readingEndRequestBody := False, fromAS := advance 8 (fromAS g), erBody := take 8 bs, asContentLen := 0,
     exitStatus := app_status (take 8 bs), exitStatusSet := True\<rparr>"
  have "held (fromAS ?g) (drop 8 bs)" using held_advance [OF assms(4,5)] by simp
  from as_padding_held [OF this] have pad: "as_padding ?g = g\<lparr>fromAS := advance (min (8 + p) (length bs)) (fromAS g), erBody := take 8 bs,
        asContentLen := 0, exitStatus := app_status (take 8 bs), exitStatusSet := True,
        readingEndRequestBody := False, asPaddingLen := p - (length bs - 8),
        headerLen := (if 8 + p \<le> length bs then 0 else 8)\<rparr>"
    using assms(5) g(1,4) by (auto simp: advance_def min_def)
  have ex: "FCGIexit e (g\<lparr>readingEndRequestBody := True, fromAS := advance 8 (fromAS g), erBody := take 8 bs,
      asContentLen := 0\<rparr>, w) = (FCGIexit e (g, w) :: (cgi \<times> os) run res)" for e by (rule FCGIexit_rest) simp
  have "as_end_request (g, w) = (if uint (bs ! 4) \<noteq> FCGI_REQUEST_COMPLETE then FCGIexit FCGX_PROTOCOL_ERROR (g, w)
      else Inr (Run (?g, w)))"
    using g er by (simp add: as_end_request_def Let_def GetPtr_held [OF assms(4)] ex)
  then have "as_content (g, w) = (if uint (bs ! 4) \<noteq> FCGI_REQUEST_COMPLETE then FCGIexit FCGX_PROTOCOL_ERROR (g, w)
      else Inr (Run (as_padding ?g, w)))"
    using g(2) stream_types by (simp add: as_content_def Let_def)
  then show ?thesis unfolding pad .
qed

section \<open>The loop\<close>

lemma relay_result_same:
  assumes "relay_result rid g1 r1 bs w res" "relay_bytes rid bs r = relay_bytes rid bs r1" "rOut r1 = rOut r" "rErr r1 = rErr r"
    "as_rest g1 = as_rest g" "bufData (fromAS g1) = bufData (fromAS g)"
  shows "relay_result rid g r bs w res"
  using assms by (simp add: relay_result_def Let_def relayed_def FCGIexit_rest [OF assms(5)] split: phase.splits)

lemma relay_result_failed:
  "rPhase (relay_bytes rid bs r) = Failed c \<Longrightarrow> rOut (relay_bytes rid bs r) = rOut r \<Longrightarrow> rErr (relay_bytes rid bs r) = rErr r
    \<Longrightarrow> relay_result rid g r bs w (FCGIexit c (g, w))"
  by (simp add: relay_result_def Let_def)

lemma held_none: "held b [] \<longleftrightarrow> bufNext b = bufStop b \<and> bufStop b \<le> length (bufData b)"
  by (simp add: held_def)

lemma held_advance_all: "held b bs \<Longrightarrow> held (advance (length bs) b) []"
  using held_advance [of b bs "length bs"] by simp

lemma corr_phase: "corr g r \<Longrightarrow> rPhase r \<noteq> Failed c" "corr g r \<Longrightarrow> rPhase r \<noteq> Overrun"
  by (auto simp: corr_def)

lemma relay_result_run:
  "corr g' (relay_bytes rid bs r) \<Longrightarrow> as_rest g' = as_rest g \<Longrightarrow> held (fromAS g') [] \<Longrightarrow> bufData (fromAS g') = bufData (fromAS g)
    \<Longrightarrow> w' = relayed r (relay_bytes rid bs r) w \<Longrightarrow> relay_result rid g r bs w (Inr (Run (g', w')))"
  using corr_phase [of g' "relay_bytes rid bs r"] by (simp add: relay_result_def Let_def split: phase.splits)

text \<open>The state after a header: the loop goes on, or the program exits.\<close>

lemma loop_header:
  assumes "corr g r" "rPhase r = Header []" "held (fromAS g) bs" "bs \<noteq> []" "cgiRequestId g = rid"
    and rest: "\<And>g1 r1. corr g1 r1 \<Longrightarrow> at_boundary r1 \<Longrightarrow> headerLen g1 = 8 \<Longrightarrow> cgiRequestId g1 = rid \<Longrightarrow> 8 \<le> length bs \<Longrightarrow>
      held (fromAS g1) (drop 8 bs) \<Longrightarrow> rPhase (relay_bytes rid (drop 8 bs) r1) = rPhase (relay_bytes rid bs r)
      \<Longrightarrow> relay_result rid g1 r1 (drop 8 bs) w (k (g1, w))"
  shows "relay_result rid g r bs w (bindp (as_header (g, w)) (\<lambda>(brk, s1). if brk then Inr (Run s1) else k s1))"
proof (cases "length bs < 8")
  case True
  have g: "headerLen g = 0" "length (asHeader g) = 8" "asPaddingLen g = 0" "rBody r = []" "\<not> readingEndRequestBody g"
    using assms(1,2) by (simp_all add: corr_def)
  have "relay_bytes rid bs r = r\<lparr>rPhase := Header bs\<rparr>"
    using relay_header [OF assms(2,4)] True by (simp add: header_byte_def Let_def)
  moreover from this have "corr (g\<lparr>fromAS := advance (length bs) (fromAS g), asHeader := put_bytes 0 bs (asHeader g),
      headerLen := length bs\<rparr>) (relay_bytes rid bs r)"
    using assms(1,2) g True by (simp add: corr_def)
  ultimately have "relay_result rid g r bs w (Inr (Run (g\<lparr>fromAS := advance (length bs) (fromAS g),
      asHeader := put_bytes 0 bs (asHeader g), headerLen := length bs\<rparr>, w)))"
    by (intro relay_result_run) (simp_all add: held_advance_all [OF assms(3)])
  then show ?thesis by (simp add: as_header_partial [OF assms(3,4) True g(1)])
next
  case False
  have g: "headerLen g = 0" "length (asHeader g) = 8" using assms(1,2) by (simp_all add: corr_def)
  let ?ph = "header_byte rid (take 8 bs)"
  have r1: "relay_bytes rid (take 8 bs) r = r\<lparr>rPhase := ?ph\<rparr>"
    using relay_header [OF assms(2), of "take 8 bs"] assms(4) by simp
  have split: "relay_bytes rid bs r = relay_bytes rid (drop 8 bs) (r\<lparr>rPhase := ?ph\<rparr>)"
    by (subst relay_split [of rid bs r 8]) (simp add: r1)
  consider c where "?ph = Failed c" | c p where "?ph = Content (uint (h_type (header_of_bytes (take 8 bs)))) c p"
    using header_byte_cases [of "take 8 bs" rid] False by auto
  then show ?thesis
  proof cases
    case 1
    then have "relay_bytes rid bs r = r\<lparr>rPhase := Failed c\<rparr>" using split by simp
    then show ?thesis using 1 assms(5) False g
      by (simp add: as_header_complete [OF assms(3)] relay_result_failed)
  next
    case 2
    let ?g = "g\<lparr>fromAS := advance 8 (fromAS g), asHeader := take 8 bs, headerLen := 8, asContentLen := c, asPaddingLen := p\<rparr>"
    have "relay_result rid ?g (r\<lparr>rPhase := ?ph\<rparr>) (drop 8 bs) w (k (?g, w))"
    proof (rule rest)
      show "corr ?g (r\<lparr>rPhase := ?ph\<rparr>)" using assms(1,2) 2 False by (simp add: corr_def)
      show "at_boundary (r\<lparr>rPhase := ?ph\<rparr>)" using assms(1,2) 2 by (simp add: corr_def at_boundary_def)
      show "held (fromAS ?g) (drop 8 bs)" using held_advance [OF assms(3), of 8] False by simp
    qed (use False assms(5) split in simp_all)
    then have "relay_result rid ?g (relay_bytes rid (take 8 bs) r) (drop 8 bs) (relayed r (relay_bytes rid (take 8 bs) r) w) (k (?g, w))"
      by (simp add: r1)
    then have "relay_result rid g r (take 8 bs @ drop 8 bs) w (k (?g, w))"
      by (rule relay_result_step) simp_all
    then show ?thesis using 2 assms(5) False g by (simp add: as_header_complete [OF assms(3)])
  qed
qed

lemma loop_output:
  assumes "corr g r" "rPhase r = Content ty c p" "at_boundary r" "held (fromAS g) bs" "bs \<noteq> []"
    "ty = FCGI_STDOUT \<and> fd = STDOUT_FILENO \<or> ty = FCGI_STDERR \<and> fd = STDERR_FILENO" "takes_all fd w"
    and rest: "\<And>g1 r1 n. corr g1 r1 \<Longrightarrow> drop n bs = [] \<or> at_boundary r1 \<Longrightarrow> n \<le> length bs \<Longrightarrow> n = 0 \<longrightarrow> headerLen g1 = 0 \<Longrightarrow>
      cgiRequestId g1 = cgiRequestId g \<Longrightarrow> held (fromAS g1) (drop n bs) \<Longrightarrow> rPhase (relay_bytes rid (drop n bs) r1) = rPhase (relay_bytes rid bs r)
      \<Longrightarrow> relay_result rid g1 r1 (drop n bs) (put_out fd (take c bs) w) (k (g1, put_out fd (take c bs) w))"
  shows "relay_result rid g r bs w (bindp (as_content (g, w)) k)"
proof -
  let ?n = "min (c + p) (length bs)"
  let ?g = "g\<lparr>fromAS := advance ?n (fromAS g), asContentLen := c - length bs, asPaddingLen := p - (length bs - c),
     headerLen := (if c + p \<le> length bs then 0 else 8)\<rparr>"
  have g: "headerLen g = 8" "uint (h_type (header_of_bytes (asHeader g))) = ty" "rBody r = []" "\<not> readingEndRequestBody g"
    "length (asHeader g) = 8" "length (erBody g) = 8" "rStatus r = (if exitStatusSet g then Some (exitStatus g) else None)"
    using assms(1-3) by (auto simp: corr_def at_boundary_def)
  have run: "as_content (g, w) = Inr (Run (?g, put_out fd (take c bs) w))"
    by (rule as_content_output [OF assms(1,2,4,6,7)])
  have hd: "held (fromAS ?g) (drop ?n bs)" using held_advance [OF assms(4), of ?n] by simp
  have out: "ty = FCGI_STDOUT \<or> ty = FCGI_STDERR" using assms(6) by auto
  show ?thesis
  proof (cases "c + p = 0")
    case True
    let ?r = "r\<lparr>rPhase := Header []\<rparr>"
    have eq: "relay_bytes rid bs ?r = relay_bytes rid bs r"
      using assms(2,5) True out by (cases bs) (auto simp: relay_byte_def)
    have "relay_result rid ?g ?r (drop 0 bs) (put_out fd (take c bs) w) (k (?g, put_out fd (take c bs) w))"
      by (rule rest) (use True g hd eq in \<open>simp_all add: corr_def at_boundary_def\<close>)
    then have "relay_result rid g r bs w (k (?g, put_out fd (take c bs) w))"
      using True by (intro relay_result_same [of rid ?g ?r, OF _ eq [symmetric]]) simp_all
    then show ?thesis by (simp add: run)
  next
    case False
    define r1 where "r1 = relay_bytes rid (take ?n bs) r"
    have tk: "take ?n bs \<noteq> []" using False assms(5) by simp
    have cut: "take c (take ?n bs) = take c bs" "length (take ?n bs) = ?n" by (simp_all add: min_def)
    have r: "r1 = r\<lparr>rPhase := within_record ty (c - ?n) (p - (?n - c)),
      rOut := rOut r @ (if ty = FCGI_STDOUT then take c bs else []),
      rErr := rErr r @ (if ty = FCGI_STDERR then take c bs else [])\<rparr>"
      unfolding r1_def using relay_record [OF assms(2) out tk] by (simp only: cut)
    have ph: "rPhase r1 = (if c + p \<le> length bs then Header [] else Content ty (c - length bs) (p - (length bs - c)))"
      unfolding r by (auto simp: within_record_def)
    have w: "relayed r r1 w = put_out fd (take c bs) w"
      using assms(6) stream_types(1) unfolding r by (auto simp: relayed_def)
    have rl: "relay_bytes rid bs r = relay_bytes rid (drop ?n bs) r1" unfolding r1_def by (rule relay_split)
    have fields: "rBody r1 = []" "rStatus r1 = rStatus r" unfolding r using g(3) by simp_all
    have "relay_result rid ?g r1 (drop ?n bs) (put_out fd (take c bs) w) (k (?g, put_out fd (take c bs) w))"
    proof (rule rest)
      show "corr ?g r1" using ph fields g by (simp add: corr_def)
      show "drop ?n bs = [] \<or> at_boundary r1" using ph fields by (simp add: at_boundary_def)
    qed (use False assms(5) hd rl in simp_all)
    then have "relay_result rid g r (take ?n bs @ drop ?n bs) w (k (?g, put_out fd (take c bs) w))"
      by (intro relay_result_step [of rid ?g]) (simp_all add: w r1_def [symmetric])
    then show ?thesis by (simp add: run)
  qed
qed

lemma loop_end:
  assumes "corr g r" "rPhase r = Content FCGI_END_REQUEST 8 p" "rBody r = []" "held (fromAS g) bs" "bs \<noteq> []"
    "rPhase (relay_bytes rid bs r) \<noteq> Overrun"
    and rest: "\<And>g1 w. held (fromAS g1) [] \<Longrightarrow> k (g1, w) = Inr (Run (g1, w))"
  shows "relay_result rid g r bs w (bindp (as_content (g, w)) k)"
proof (cases "length bs < 8")
  case True
  let ?g = "g\<lparr>readingEndRequestBody := True, fromAS := advance (length bs) (fromAS g),
      erBody := put_bytes 0 bs (erBody g), asContentLen := 8 - length bs\<rparr>"
  have "relay_bytes rid bs r = r\<lparr>rPhase := Content FCGI_END_REQUEST (8 - length bs) p, rBody := bs\<rparr>"
    using relay_end [OF assms(2)] assms(3,5) True by simp
  then have "relay_result rid g r bs w (Inr (Run (?g, w)))"
    by (intro relay_result_run) (use assms(1,2,5) True in \<open>simp_all add: held_advance_all [OF assms(4)] corr_def\<close>)
  then show ?thesis using rest [of ?g w] held_advance_all [OF assms(4)]
    by (simp add: as_content_end_partial [OF assms(1-5) True])
next
  case False
  let ?b = "take 8 bs"
  have tk: "relay_bytes rid ?b r = end_body p ?b r"
    using relay_end [OF assms(2), of ?b] assms(3,5) False by simp
  have nth: "?b ! 4 = bs ! 4" using False by simp
  have split: "relay_bytes rid bs r = relay_bytes rid (drop 8 bs) (end_body p ?b r)"
    by (subst relay_split [of rid bs r 8]) (simp only: tk)
  show ?thesis
  proof (cases "uint (bs ! 4) = FCGI_REQUEST_COMPLETE")
    case False
    then have "relay_bytes rid bs r = r\<lparr>rPhase := Failed FCGX_PROTOCOL_ERROR, rBody := []\<rparr>"
      unfolding split by (simp add: end_body_def nth)
    then have "relay_result rid g r bs w (FCGIexit FCGX_PROTOCOL_ERROR (g, w))" by (intro relay_result_failed) simp_all
    then show ?thesis using False \<open>\<not> length bs < 8\<close> by (simp add: as_content_end_complete [OF assms(1-4)])
  next
    case True
    let ?g = "g\<lparr>fromAS := advance (min (8 + p) (length bs)) (fromAS g), erBody := ?b, asContentLen := 0,
        exitStatus := app_status ?b, exitStatusSet := True,
        readingEndRequestBody := False, asPaddingLen := p - (length bs - 8),
        headerLen := (if 8 + p \<le> length bs then 0 else 8)\<rparr>"
    have eb: "end_body p ?b r = r\<lparr>rPhase := Ended p, rBody := [], rStatus := Some (app_status ?b)\<rparr>"
      using True by (simp add: end_body_def nth)
    have len: "length bs \<le> 8 + p" using assms(6) unfolding split eb by (subst (asm) relay_ended [of _ p]) (auto split: if_splits)
    then have "relay_bytes rid bs r = r\<lparr>rPhase := Ended (p - (length bs - 8)), rBody := [], rStatus := Some (app_status ?b)\<rparr>"
      unfolding split eb by (subst relay_ended [of _ p]) auto
    then have "relay_result rid g r bs w (Inr (Run (?g, w)))"
      using len False assms(1,2) held_advance_all [OF assms(4)]
      by (intro relay_result_run) (simp_all add: min_def corr_def)
    moreover have "held (fromAS ?g) []" using len held_advance_all [OF assms(4)] by (simp add: min_def)
    ultimately show ?thesis using True False rest [of ?g w]
      by (simp add: as_content_end_complete [OF assms(1-4)])
  qed
qed

lemma as_loop_done: "held (fromAS g) [] \<Longrightarrow> as_loop (Suc fuel) (g, w) = Inr (Run (g, w))"
  by (simp add: as_loop.simps held_def)

lemma as_loop_relay:
  assumes "corr g r" "bs = [] \<or> at_boundary r" "held (fromAS g) bs" "takes_all STDOUT_FILENO w" "takes_all STDERR_FILENO w"
    "2 * length bs + (if headerLen g = 8 then 1 else 0) < fuel" "cgiRequestId g = rid"
    "rPhase (relay_bytes rid bs r) \<noteq> Overrun"
  shows "relay_result rid g r bs w (as_loop fuel (g, w))"
  using assms
proof (induction fuel arbitrary: g r bs w)
  case (Suc fuel)
  note IH = Suc.IH
  show ?case
  proof (cases "bs = []")
    case True
    then show ?thesis using Suc.prems by (simp add: as_loop_done relay_result_run)
  next
    case ne: False
    then have step: "as_loop (Suc fuel) (g, w) = (if headerLen g < 8 then
        bindp (as_header (g, w)) (\<lambda>(brk, s1). if brk then Inr (Run s1) else as_loop fuel s1)
      else bindp (as_content (g, w)) (as_loop fuel))"
      using held_empty [OF Suc.prems(3)] by (simp add: as_loop.simps)
    have bnd: "at_boundary r" "rBody r = []" using Suc.prems(2) ne by (auto simp: at_boundary_def)
    then consider "rPhase r = Header []" | ty c p where "rPhase r = Content ty c p"
      by (auto simp: at_boundary_def split: phase.splits)
    then show ?thesis
    proof cases
      case 1
      then have "headerLen g = 0" using Suc.prems(1) by (simp add: corr_def)
      then show ?thesis unfolding step using Suc.prems 1 ne
        by (simp, intro loop_header [of g r bs rid w "as_loop fuel"] IH) simp_all
    next
      case (2 ty c p)
      then have h8: "headerLen g = 8" using Suc.prems(1) by (simp add: corr_def)
      consider fd where "ty = FCGI_STDOUT \<and> fd = STDOUT_FILENO \<or> ty = FCGI_STDERR \<and> fd = STDERR_FILENO"
        | "ty = FCGI_END_REQUEST" "c = 8"
        | "ty \<noteq> FCGI_STDOUT" "ty \<noteq> FCGI_STDERR" "\<not> (ty = FCGI_END_REQUEST \<and> c + length (rBody r) = 8)"
        using bnd(2) by fastforce
      then show ?thesis
      proof cases
        case (1 fd)
        then have "takes_all fd w" using Suc.prems(4,5) by auto
        moreover have "Suc 0 < fuel" using Suc.prems(6) h8 ne by (cases bs) auto
        ultimately have "relay_result rid g r bs w (bindp (as_content (g, w)) (as_loop fuel))"
          by (intro loop_output [OF Suc.prems(1) 2 bnd(1) Suc.prems(3) ne 1])
            (assumption, rule IH, use Suc.prems h8 ne in \<open>auto split: if_splits\<close>)
        then show ?thesis using h8 by (simp add: step)
      next
        case e: 2
        obtain f where "fuel = Suc f" using Suc.prems(6) h8 ne by (cases fuel) auto
        then have "relay_result rid g r bs w (bindp (as_content (g, w)) (as_loop fuel))"
          by (intro loop_end [of g r p]) (use Suc.prems 2 e bnd ne as_loop_done in simp_all)
        then show ?thesis using h8 by (simp add: step)
      next
        case 3
        then have "relay_bytes rid bs r = r\<lparr>rPhase := Failed FCGX_PROTOCOL_ERROR\<rparr>" using relay_other [OF 2 3 ne] by simp
        then show ?thesis using as_content_other [OF Suc.prems(1) 2 3 bnd(2)] h8
          by (simp add: step relay_result_failed)
      qed
    qed
  qed
qed simp

section \<open>The machine on records\<close>

text \<open>Between two records the machine waits for a header, or still has an empty record before it.\<close>

definition fresh :: "relay \<Rightarrow> bool" where
  "fresh r \<longleftrightarrow> rBody r = [] \<and> (rPhase r = Header [] \<or> rPhase r = Content FCGI_STDOUT 0 0 \<or> rPhase r = Content FCGI_STDERR 0 0)"

lemma relay_fresh_header:
  assumes "fresh r" "length hb = 8"
  shows "relay_bytes rid hb r = r\<lparr>rPhase := header_byte rid hb\<rparr>"
proof -
  have "relay_bytes rid hb r = relay_bytes rid hb (r\<lparr>rPhase := Header []\<rparr>)"
    using assms stream_types by (cases hb) (auto simp: fresh_def relay_byte_def)
  also have "\<dots> = r\<lparr>rPhase := header_byte rid hb\<rparr>"
    using relay_header [of "r\<lparr>rPhase := Header []\<rparr>" "[]" hb rid] assms(2) by (cases hb) simp_all
  finally show ?thesis .
qed

lemma header_byte_for:
  assumes "0 \<le> ty" "ty \<le> 255" "0 \<le> rid" "rid \<le> 65535" "n \<le> 65535" "p \<le> 255"
  shows "header_byte rid (header_bytes (header_for ty rid n p)) = Content ty n p"
  using assms by (simp add: header_byte_def Let_def header_for_fields)

definition rec_ok :: "int \<times> byte list \<times> byte list \<Rightarrow> bool" where
  "rec_ok = (\<lambda>(ty, c, p). (ty = FCGI_STDOUT \<or> ty = FCGI_STDERR) \<and> length c \<le> 65535 \<and> length p \<le> 255)"

definition content_of :: "int \<Rightarrow> (int \<times> byte list \<times> byte list) list \<Rightarrow> byte list" where
  "content_of ty recs = concat (map (\<lambda>(t, c, p). if t = ty then c else []) recs)"

lemma stream_type_bounds: "0 \<le> FCGI_STDOUT" "FCGI_STDOUT \<le> 255" "0 \<le> FCGI_STDERR" "FCGI_STDERR \<le> 255"
    "0 \<le> FCGI_END_REQUEST" "FCGI_END_REQUEST \<le> 255"
  by (simp_all add: FCGI_STDOUT_def FCGI_STDERR_def FCGI_END_REQUEST_def)

lemma relay_rec:
  assumes "fresh r" "rec_ok (ty, c, p)" "0 \<le> rid" "rid \<le> 65535"
  obtains r' where "relay_bytes rid (rec_bytes ty rid c p) r = r'" "fresh r'" "rStatus r' = rStatus r"
    "rOut r' = rOut r @ (if ty = FCGI_STDOUT then c else [])" "rErr r' = rErr r @ (if ty = FCGI_STDERR then c else [])"
proof -
  have ty: "ty = FCGI_STDOUT \<or> ty = FCGI_STDERR" "length c \<le> 65535" "length p \<le> 255" using assms(2) by (auto simp: rec_ok_def)
  let ?r = "r\<lparr>rPhase := Content ty (length c) (length p)\<rparr>"
  have hb: "relay_bytes rid (header_bytes (header_for ty rid (length c) (length p))) r = ?r"
    using ty assms(3,4) stream_type_bounds by (subst relay_fresh_header [OF assms(1)]) (auto simp: header_byte_for)
  show ?thesis
  proof (cases "c @ p = []")
    case True
    then show ?thesis using that [of ?r] hb ty assms(1) by (auto simp: rec_bytes_def fresh_def)
  next
    case False
    have "relay_bytes rid (c @ p) ?r = ?r\<lparr>rPhase := within_record ty 0 0,
      rOut := rOut r @ (if ty = FCGI_STDOUT then c else []), rErr := rErr r @ (if ty = FCGI_STDERR then c else [])\<rparr>"
      by (subst relay_record [of ?r ty "length c" "length p"]) (use ty False in simp_all)
    then have "relay_bytes rid (rec_bytes ty rid c p) r = r\<lparr>rPhase := Header [],
      rOut := rOut r @ (if ty = FCGI_STDOUT then c else []), rErr := rErr r @ (if ty = FCGI_STDERR then c else [])\<rparr>"
      unfolding rec_bytes_def relay_bytes_append [of rid "header_bytes (header_for ty rid (length c) (length p))"] hb
      by (simp add: within_record_def)
    then show ?thesis by (rule that) (use assms(1) in \<open>simp_all add: fresh_def\<close>)
  qed
qed

lemma relay_recs:
  assumes "fresh r" "list_all rec_ok recs" "0 \<le> rid" "rid \<le> 65535"
  obtains r' where "relay_bytes rid (concat (map (\<lambda>(ty, c, p). rec_bytes ty rid c p) recs)) r = r'" "fresh r'"
    "rStatus r' = rStatus r" "rOut r' = rOut r @ content_of FCGI_STDOUT recs" "rErr r' = rErr r @ content_of FCGI_STDERR recs"
  using assms(1,2)
proof (induction recs arbitrary: r thesis)
  case Nil
  then show ?case by (auto simp: content_of_def)
next
  case (Cons x recs)
  obtain ty c p where x: "x = (ty, c, p)" by (cases x)
  obtain r1 where 1: "relay_bytes rid (rec_bytes ty rid c p) r = r1" "fresh r1" "rStatus r1 = rStatus r"
    "rOut r1 = rOut r @ (if ty = FCGI_STDOUT then c else [])" "rErr r1 = rErr r @ (if ty = FCGI_STDERR then c else [])"
    using relay_rec [OF Cons.prems(2) _ assms(3,4), of ty c p] Cons.prems(3) x by auto
  obtain r2 where "relay_bytes rid (concat (map (\<lambda>(ty, c, p). rec_bytes ty rid c p) recs)) r1 = r2" "fresh r2"
    "rStatus r2 = rStatus r1" "rOut r2 = rOut r1 @ content_of FCGI_STDOUT recs" "rErr r2 = rErr r1 @ content_of FCGI_STDERR recs"
    using Cons.IH [OF _ 1(2)] Cons.prems(3) by auto
  then show ?case using Cons.prems(1) [of r2] 1 x by (auto simp: relay_bytes_append content_of_def)
qed

text \<open>The status that \<open>FCGX_SetExitStatus\<close> puts into the body of \<open>FCGI_END_REQUEST\<close> is the one that comes out.\<close>

lemma bytes_of_int: "x div 2 ^ 24 mod 256 * 2 ^ 24 + x div 2 ^ 16 mod 256 * 2 ^ 16 + x div 2 ^ 8 mod 256 * 2 ^ 8 + x mod 256
    = x mod 2 ^ 32" for x :: int
proof -
  have "x mod (2 ^ 24 * 256) = 2 ^ 24 * (x div 2 ^ 24 mod 256) + x mod 2 ^ 24" by (rule zmod_zmult2_eq) simp
  moreover have "x mod (2 ^ 16 * 256) = 2 ^ 16 * (x div 2 ^ 16 mod 256) + x mod 2 ^ 16" by (rule zmod_zmult2_eq) simp
  moreover have "x mod (2 ^ 8 * 256) = 2 ^ 8 * (x div 2 ^ 8 mod 256) + x mod 2 ^ 8" by (rule zmod_zmult2_eq) simp
  moreover have "2 ^ 24 * 256 = (2 ^ 32 :: int)" "2 ^ 16 * 256 = (2 ^ 24 :: int)" "2 ^ 8 * 256 = (2 ^ 16 :: int)" "2 ^ 8 = (256 :: int)"
    by simp_all
  ultimately show ?thesis by (simp only: mult.commute [of "2 ^ 24"] mult.commute [of "2 ^ 16"] mult.commute [of "2 ^ 8"] add.assoc)
qed

lemma app_status_end_body:
  assumes "- (2 ^ 31) \<le> st" "st < 2 ^ 31"
  shows "app_status (end_body_bytes (MakeEndRequestBody st ps)) = st"
proof -
  have b: "uint (end_body_bytes (MakeEndRequestBody st ps) ! 0) = st div 2 ^ 24 mod 256"
    "uint (end_body_bytes (MakeEndRequestBody st ps) ! 1) = st div 2 ^ 16 mod 256"
    "uint (end_body_bytes (MakeEndRequestBody st ps) ! 2) = st div 2 ^ 8 mod 256"
    "uint (end_body_bytes (MakeEndRequestBody st ps) ! 3) = st mod 256"
    by (simp_all add: end_body_bytes_def MakeEndRequestBody_def and_255 drop_bit_eq_div)
  have "app_status (end_body_bytes (MakeEndRequestBody st ps)) = sint (word_of_int (st mod 2 ^ 32) :: 32 word)"
    unfolding app_status_def b bytes_of_int ..
  also have "(word_of_int (st mod 2 ^ 32) :: 32 word) = word_of_int st"
    by (simp add: word_uint_eq_iff uint_word_of_int)
  also have "sint (word_of_int st :: 32 word) = st"
    using assms by (simp add: sint_sbintrunc' signed_take_bit_int_eq_self)
  finally show ?thesis .
qed

section \<open>Properties\<close>

definition received :: "cgi \<Rightarrow> byte list \<Rightarrow> bool" where
  "received g bs \<longleftrightarrow> fcgiReadPending g \<and> held ((fromAS g)\<lparr>bufStop := bufNext (fromAS g) + length bs\<rparr>) bs"

lemma FCGIexit_pending: "FCGIexit c (g\<lparr>fcgiReadPending := f, fromAS := b\<rparr>, w) = FCGIexit c (g, w)"
  by (simp add: FCGIexit_def)

lemma corr_pending [simp]: "corr (g\<lparr>fcgiReadPending := f, fromAS := b\<rparr>) r = corr g r"
  by (cases "rPhase r") (simp_all add: corr_def)

lemma handler_loop:
  assumes "received g bs" "bs \<noteq> []"
  obtains b where "held b bs" "bufData b = bufData (fromAS g)" "AppServerReadHandler (int (length bs)) (g, w) =
     bindp (as_loop (2 * length bs + 2) (g\<lparr>fcgiReadPending := False, fromAS := b\<rparr>, w)) ScheduleIo"
  using assms that [of "(fromAS g)\<lparr>bufStop := bufNext (fromAS g) + length bs\<rparr>"]
  by (simp add: received_def AppServerReadHandler_def Let_def)

lemma handler_relays:
  assumes "corr g r" "at_boundary r" "received g bs" "bs \<noteq> []" "takes_all STDOUT_FILENO w" "takes_all STDERR_FILENO w"
    "rPhase (relay_bytes (cgiRequestId g) bs r) \<noteq> Overrun"
  shows "(\<exists>c. rPhase (relay_bytes (cgiRequestId g) bs r) = Failed c \<and>
       AppServerReadHandler (int (length bs)) (g, w) = FCGIexit c (g, relayed r (relay_bytes (cgiRequestId g) bs r) w))
   \<or> (\<exists>g'. AppServerReadHandler (int (length bs)) (g, w) = ScheduleIo (g', relayed r (relay_bytes (cgiRequestId g) bs r) w)
       \<and> corr g' (relay_bytes (cgiRequestId g) bs r) \<and> as_rest g' = as_rest (g\<lparr>fcgiReadPending := False\<rparr>)
       \<and> bufData (fromAS g') = bufData (fromAS g))"
proof -
  obtain b where b: "held b bs" "bufData b = bufData (fromAS g)" "AppServerReadHandler (int (length bs)) (g, w) =
     bindp (as_loop (2 * length bs + 2) (g\<lparr>fcgiReadPending := False, fromAS := b\<rparr>, w)) ScheduleIo"
    by (rule handler_loop [OF assms(3,4)])
  have "relay_result (cgiRequestId g) (g\<lparr>fcgiReadPending := False, fromAS := b\<rparr>) r bs w
      (as_loop (2 * length bs + 2) (g\<lparr>fcgiReadPending := False, fromAS := b\<rparr>, w))"
    by (rule as_loop_relay) (use assms b in simp_all)
  then show ?thesis
    by (cases "rPhase (relay_bytes (cgiRequestId g) bs r)")
      (auto simp: relay_result_def Let_def b(2,3) FCGIexit_pending)
qed

lemma handler_split:
  assumes "corr g r" "received g bs" "bs \<noteq> []"
    "(\<exists>hb. rPhase r = Header hb \<and> hb \<noteq> []) \<or> (\<exists>ty c p. rPhase r = Content ty c p \<and> rBody r \<noteq> [])"
  shows "AppServerReadHandler (int (length bs)) (g, w) = Inl OutOfBounds"
proof -
  obtain b where b: "held b bs" "AppServerReadHandler (int (length bs)) (g, w) =
     bindp (as_loop (2 * length bs + 2) (g\<lparr>fcgiReadPending := False, fromAS := b\<rparr>, w)) ScheduleIo"
    by (rule handler_loop [OF assms(2,3)])
  have ne: "bufNext b \<noteq> bufStop b" using held_empty [OF b(1)] assms(3) by simp
  let ?g = "g\<lparr>fcgiReadPending := False, fromAS := b\<rparr>"
  have "as_loop (Suc (2 * length bs + 1)) (?g, w) = Inl OutOfBounds"
  proof (cases "\<exists>hb. rPhase r = Header hb \<and> hb \<noteq> []")
    case True
    then have h: "0 < headerLen g" "headerLen g < 8" using assms(1) by (auto simp: corr_def)
    moreover from this have "0 < min (8 - headerLen g) (length bs)" using assms(3) by simp
    then have "\<not> 8 * headerLen g + min (8 - headerLen g) (length bs) \<le> 8" using h by linarith
    ultimately have "as_header (?g, w) = Inl OutOfBounds" using assms(3) by (simp add: as_header_def GetPtr_held [OF b(1)])
    then show ?thesis using ne h by (simp add: as_loop.simps)
  next
    case False
    then obtain ty c p where "rPhase r = Content ty c p" "rBody r \<noteq> []" using assms(4) by auto
    then have h: "headerLen g = 8" "uint (h_type (header_of_bytes (asHeader g))) = FCGI_END_REQUEST" "0 < asContentLen g"
      "asContentLen g < 8" "readingEndRequestBody g" using assms(1) by (auto simp: corr_def) (metis less_add_same_cancel1 length_greater_0_conv)
    moreover from this have "0 < min (asContentLen g) (length bs)" using assms(3) by simp
    then have "\<not> 8 * (8 - asContentLen g) + min (asContentLen g) (length bs) \<le> 8" using h by linarith
    ultimately have "as_content (?g, w) = Inl OutOfBounds" using assms(3) stream_types
      by (simp add: as_content_def as_end_request_def Let_def GetPtr_held [OF b(1)])
    then show ?thesis using ne h by (simp add: as_loop.simps)
  qed
  then show ?thesis using b(2) by simp
qed

text \<open>Padding of \<open>FCGI_END_REQUEST\<close> that comes in a later chunk is taken for another end of the request.\<close>

lemma handler_ended:
  assumes "corr g r" "received g bs" "bs \<noteq> []" "rPhase r = Ended (Suc p)"
  shows "AppServerReadHandler (int (length bs)) (g, w) = FCGIexit FCGX_PROTOCOL_ERROR (g, w)"
proof -
  obtain b where b: "held b bs" "AppServerReadHandler (int (length bs)) (g, w) =
     bindp (as_loop (2 * length bs + 2) (g\<lparr>fcgiReadPending := False, fromAS := b\<rparr>, w)) ScheduleIo"
    by (rule handler_loop [OF assms(2,3)])
  have ne: "bufNext b \<noteq> bufStop b" using held_empty [OF b(1)] assms(3) by simp
  let ?g = "g\<lparr>fcgiReadPending := False, fromAS := b\<rparr>"
  have "headerLen g = 8" "uint (h_type (header_of_bytes (asHeader g))) = FCGI_END_REQUEST" "asContentLen g = 0" "\<not> readingEndRequestBody g"
    using assms(1,4) by (simp_all add: corr_def)
  then have "as_loop (Suc (2 * length bs + 1)) (?g, w) = FCGIexit FCGX_PROTOCOL_ERROR (?g, w)"
    using ne stream_types by (simp add: as_loop.simps as_content_def as_end_request_def Let_def)
  then show ?thesis using b(2) by (simp add: FCGIexit_pending)
qed

text \<open>The records of a response, and what the machine makes of them.\<close>

definition response_bytes :: "int \<Rightarrow> (int \<times> byte list \<times> byte list) list \<Rightarrow> int \<Rightarrow> byte list" where
  "response_bytes rid recs status = concat (map (\<lambda>(ty, c, p). rec_bytes ty rid c p) recs)
     @ rec_bytes FCGI_END_REQUEST rid (end_body_bytes (MakeEndRequestBody status FCGI_REQUEST_COMPLETE)) []"

lemma relay_response:
  assumes "fresh r" "list_all rec_ok recs" "0 \<le> rid" "rid \<le> 65535" "- (2 ^ 31) \<le> status" "status < 2 ^ 31"
  obtains r1 where "relay_bytes rid (response_bytes rid recs status) r = r1\<lparr>rPhase := Ended 0, rBody := [], rStatus := Some status\<rparr>"
    "rOut r1 = rOut r @ content_of FCGI_STDOUT recs" "rErr r1 = rErr r @ content_of FCGI_STDERR recs"
proof -
  let ?eb = "end_body_bytes (MakeEndRequestBody status FCGI_REQUEST_COMPLETE)"
  let ?hb = "header_bytes (header_for FCGI_END_REQUEST rid 8 0)"
  obtain r1 where r1: "relay_bytes rid (concat (map (\<lambda>(ty, c, p). rec_bytes ty rid c p) recs)) r = r1" "fresh r1"
    "rOut r1 = rOut r @ content_of FCGI_STDOUT recs" "rErr r1 = rErr r @ content_of FCGI_STDERR recs"
    using relay_recs [OF assms(1-4)] by blast
  have eb: "length ?eb = 8" "uint (?eb ! 4) = FCGI_REQUEST_COMPLETE"
    by (simp_all add: end_body_bytes_def MakeEndRequestBody_def FCGI_REQUEST_COMPLETE_def)
  have "relay_bytes rid ?hb r1 = r1\<lparr>rPhase := Content FCGI_END_REQUEST 8 0\<rparr>"
    using assms(3,4) stream_type_bounds by (subst relay_fresh_header [OF r1(2)]) (simp_all add: header_byte_for)
  moreover have "relay_bytes rid ?eb (r1\<lparr>rPhase := Content FCGI_END_REQUEST 8 0\<rparr>)
      = r1\<lparr>rPhase := Ended 0, rBody := [], rStatus := Some status\<rparr>"
    using r1(2) eb app_status_end_body [OF assms(5,6)]
    by (subst relay_end [of _ 8 0]) (auto simp: fresh_def end_body_def)
  moreover have "rec_bytes FCGI_END_REQUEST rid ?eb [] = ?hb @ ?eb" by (simp add: rec_bytes_def eb(1))
  ultimately have "relay_bytes rid (response_bytes rid recs status) r = r1\<lparr>rPhase := Ended 0, rBody := [], rStatus := Some status\<rparr>"
    unfolding response_bytes_def by (simp only: relay_bytes_append r1(1))
  then show ?thesis using that r1(3,4) by blast
qed

text \<open>For examples: the program with request 1 open and some bytes read; descriptors that take everything.\<close>

definition sample_cgi :: "byte list \<Rightarrow> cgi" where
  "sample_cgi bs = \<lparr>wsReadPending = False, fcgiReadPending = True, fcgiWritePending = False, bytesToRead = 0, appServerSock = 5,
     fromAS = \<lparr>bufNext = 0, bufStop = 0, bufData = bs\<rparr>, asHeader = replicate 8 0, headerLen = 0, asContentLen = 0,
     asPaddingLen = 0, cgiRequestId = 1, erBody = replicate 8 0, readingEndRequestBody = False, exitStatus = 0,
     exitStatusSet = False, fromWS = \<lparr>bufNext = 0, bufStop = 0, bufData = []\<rparr>, webServerReadHandlerEOF = False,
     stdin_eof_sent = True, cgiLibInit = True\<rparr>"

definition sample_relay :: "phase \<Rightarrow> relay" where
  "sample_relay ph = \<lparr>rPhase = ph, rOut = [], rErr = [], rBody = [], rStatus = None\<rparr>"

definition sample_open :: os where
  "sample_open = (sample_os [])\<lparr>conns := (\<lambda>_. (sample_conn [])\<lparr>wrScript := []\<rparr>)\<rparr>"

lemma sample_cgi_facts:
  "cgiRequestId (sample_cgi bs) = 1" "corr (sample_cgi bs) (sample_relay (Header []))" "received (sample_cgi bs) bs"
  "rOut (sample_relay ph) = []" "rErr (sample_relay ph) = []"
  "fresh (sample_relay (Header []))" "at_boundary (sample_relay (Header []))" "takes_all fd sample_open"
  by (simp_all add: sample_cgi_def sample_relay_def corr_def received_def held_def sub_bytes_def fresh_def at_boundary_def
      takes_all_def sample_open_def sample_os_def sample_conn_def)

text \<open>C22. On a chunk that begins neither inside a header nor inside the body of \<open>FCGI_END_REQUEST\<close>,
  \<open>AppServerReadHandler\<close> does what the byte-by-byte machine does on its bytes, however the records are cut up within
  and across chunks: it passes the same bytes on to standard output and standard error, ends in the state that
  corresponds to the machine's and goes on to \<open>ScheduleIo\<close>, or exits with the machine's error code.\<close>

theorem AppServerReadHandler_relays:
  assumes "corr g r" "at_boundary r" "received g bs" "bs \<noteq> []" "takes_all STDOUT_FILENO w" "takes_all STDERR_FILENO w"
    "r' = relay_bytes (cgiRequestId g) bs r" "rPhase r' \<noteq> Overrun"
  shows "(\<exists>c. rPhase r' = Failed c \<and> AppServerReadHandler (int (length bs)) (g, w) = FCGIexit c (g, relayed r r' w))
   \<or> (\<exists>g'. AppServerReadHandler (int (length bs)) (g, w) = ScheduleIo (g', relayed r r' w) \<and> corr g' r'
        \<and> as_rest g' = as_rest (g\<lparr>fcgiReadPending := False\<rparr>))"
  using handler_relays [OF assms(1-6)] assms(7,8) by blast

theorem AppServerReadHandler_relays_witness:
  "\<exists>bs r'. bs = rec_bytes FCGI_STDOUT 1 [72, 105] [0] \<and> r' = relay_bytes 1 bs (sample_relay (Header [])) \<and>
    ((\<exists>c. rPhase r' = Failed c \<and> AppServerReadHandler (int (length bs)) (sample_cgi bs, sample_open)
         = FCGIexit c (sample_cgi bs, relayed (sample_relay (Header [])) r' sample_open))
     \<or> (\<exists>g'. AppServerReadHandler (int (length bs)) (sample_cgi bs, sample_open)
           = ScheduleIo (g', relayed (sample_relay (Header [])) r' sample_open) \<and> corr g' r'
        \<and> as_rest g' = as_rest ((sample_cgi bs)\<lparr>fcgiReadPending := False\<rparr>)))"
proof -
  let ?bs = "rec_bytes FCGI_STDOUT 1 [72, 105] [0]"
  obtain r' where r': "relay_bytes 1 ?bs (sample_relay (Header [])) = r'" "fresh r'"
    using relay_rec [of "sample_relay (Header [])" FCGI_STDOUT "[72, 105]" "[0]" 1] by (auto simp: sample_cgi_facts rec_ok_def)
  have "r' = relay_bytes (cgiRequestId (sample_cgi ?bs)) ?bs (sample_relay (Header []))" by (simp add: sample_cgi_facts r')
  moreover have "?bs \<noteq> []" by (simp add: rec_bytes_def)
  moreover have "rPhase r' \<noteq> Overrun" using r'(2) by (auto simp: fresh_def)
  ultimately have "(\<exists>c. rPhase r' = Failed c \<and> AppServerReadHandler (int (length ?bs)) (sample_cgi ?bs, sample_open)
         = FCGIexit c (sample_cgi ?bs, relayed (sample_relay (Header [])) r' sample_open))
     \<or> (\<exists>g'. AppServerReadHandler (int (length ?bs)) (sample_cgi ?bs, sample_open)
           = ScheduleIo (g', relayed (sample_relay (Header [])) r' sample_open) \<and> corr g' r'
        \<and> as_rest g' = as_rest ((sample_cgi ?bs)\<lparr>fcgiReadPending := False\<rparr>))"
    by (intro AppServerReadHandler_relays sample_cgi_facts)
  with r'(1) show ?thesis by blast
qed

text \<open>C21. When a whole response has arrived (records of standard output and standard error in any order, then
  \<open>FCGI_END_REQUEST\<close> with an application status), \<open>AppServerReadHandler\<close> writes the contents of the standard output
  records to descriptor 1, those of the standard error records to descriptor 2, without headers and padding, and records the
  application status as its exit status.\<close>

theorem AppServerReadHandler_response:
  assumes "corr g r" "fresh r" "rOut r = []" "rErr r = []" "received g bs" "0 \<le> cgiRequestId g" "cgiRequestId g \<le> 65535"
    "takes_all STDOUT_FILENO w" "takes_all STDERR_FILENO w" "list_all rec_ok recs" "- (2 ^ 31) \<le> status" "status < 2 ^ 31"
    "bs = concat (map (\<lambda>(ty, c, p). rec_bytes ty (cgiRequestId g) c p) recs)
       @ rec_bytes FCGI_END_REQUEST (cgiRequestId g) (end_body_bytes (MakeEndRequestBody status FCGI_REQUEST_COMPLETE)) []"
  shows "\<exists>g'. AppServerReadHandler (int (length bs)) (g, w) = ScheduleIo (g', put_out STDERR_FILENO (content_of FCGI_STDERR recs)
      (put_out STDOUT_FILENO (content_of FCGI_STDOUT recs) w)) \<and> exitStatusSet g' \<and> exitStatus g' = status"
proof -
  let ?rid = "cgiRequestId g"
  obtain r1 where r': "relay_bytes ?rid bs r = r1\<lparr>rPhase := Ended 0, rBody := [], rStatus := Some status\<rparr>"
    and r1: "rOut r1 = content_of FCGI_STDOUT recs" "rErr r1 = content_of FCGI_STDERR recs"
    using relay_response [OF assms(2,10,6,7,11,12)] assms(3,4) unfolding assms(13) response_bytes_def by auto
  have "header_bytes h \<noteq> []" for h by (simp add: header_bytes_def)
  then have "at_boundary r" "bs \<noteq> []"
    using assms(2) unfolding assms(13) by (auto simp: fresh_def at_boundary_def rec_bytes_def)
  then obtain g' where "AppServerReadHandler (int (length bs)) (g, w) = ScheduleIo (g', relayed r (relay_bytes ?rid bs r) w)"
    "corr g' (relay_bytes ?rid bs r)"
    using handler_relays [OF assms(1) _ assms(5) _ assms(8,9)] r' by auto
  then show ?thesis using r1 assms(3,4) by (auto simp: r' relayed_def corr_def split: if_splits)
qed

theorem AppServerReadHandler_response_witness:
  "\<exists>bs g'. AppServerReadHandler (int (length bs)) (sample_cgi bs, sample_open)
     = ScheduleIo (g', put_out STDERR_FILENO [33] (put_out STDOUT_FILENO [72, 105] sample_open)) \<and> exitStatusSet g' \<and> exitStatus g' = 3"
proof -
  let ?recs = "[(FCGI_STDOUT, [72, 105 :: byte], [0 :: byte]), (FCGI_STDERR, [33], [])]"
  define bs where "bs = concat (map (\<lambda>(ty, c, p). rec_bytes ty 1 c p) ?recs)
       @ rec_bytes FCGI_END_REQUEST 1 (end_body_bytes (MakeEndRequestBody 3 FCGI_REQUEST_COMPLETE)) []"
  have "\<exists>g'. AppServerReadHandler (int (length bs)) (sample_cgi bs, sample_open) =
      ScheduleIo (g', put_out STDERR_FILENO (content_of FCGI_STDERR ?recs)
      (put_out STDOUT_FILENO (content_of FCGI_STDOUT ?recs) sample_open)) \<and> exitStatusSet g' \<and> exitStatus g' = 3"
    by (rule AppServerReadHandler_response [of _ "sample_relay (Header [])"])
      (simp_all add: sample_cgi_facts rec_ok_def bs_def del: concat.simps list.map)
  then show ?thesis using stream_types by (auto simp: content_of_def)
qed

text \<open>C37. When a read of the application server's output ends inside a record header, or inside the body of
  \<open>FCGI_END_REQUEST\<close>, the next call of \<open>AppServerReadHandler\<close> copies outside the static variable it is filling: the
  source adds \<open>headerLen\<close> to a pointer to an eight-byte structure, not to a byte pointer.\<close>

theorem AppServerReadHandler_split:
  assumes "corr g r" "received g bs" "bs \<noteq> []"
    "(\<exists>hb. rPhase r = Header hb \<and> hb \<noteq> []) \<or> (\<exists>ty c p. rPhase r = Content ty c p \<and> rBody r \<noteq> [])"
  shows "AppServerReadHandler (int (length bs)) (g, w) = Inl OutOfBounds"
  by (rule handler_split [OF assms])

theorem AppServerReadHandler_split_witness:
  "AppServerReadHandler (int (length [6, 0 :: byte])) ((sample_cgi [6, 0])\<lparr>headerLen := 1\<rparr>, sample_open) = Inl OutOfBounds"
  by (rule AppServerReadHandler_split [of _ "sample_relay (Header [1])"])
    (simp_all add: sample_cgi_def sample_relay_def corr_def received_def held_def sub_bytes_def)

end
