(* ===== verification/Fcgi_Bridge.thy ===== *)
theory Fcgi_Bridge
  imports Fcgi_Relay
begin

text \<open>
  \<open>cgi-fcgi\<close> as a whole under \<open>OS_DoIo\<close>. The invariant \<open>bridge\<close> ties the table of asynchronous operations to
  the three operations \<open>ScheduleIo\<close> posts (\<open>table_ok\<close>), what has been sent to the application server to the standard input read so
  far (\<open>ws_data\<close>), and the standard output and error to the application server's output read so far (\<open>as_data\<close>, through the
  reference machine of the theory on the relay). Every handler keeps it whatever the kernel does: short reads and writes, errors, descriptors becoming
  ready in any order. The locale of event handlers then gives it for \<open>OS_DoIo\<close> and for the event loop.

  What holds when the program leaves is \<open>bridge_exit\<close>: which part of the server's output has been relayed, what of the input has been sent, and which
  exit code goes with it; \<open>K\<close> are the errors the kernel may report. \<open>F\<close> are the faults that can happen: an access out of bounds only
  when the server's output (\<open>well_cut\<close>) or the input (\<open>small_reads\<close>) arrives cut at a place where the handlers leave their buffers.
\<close>

section \<open>The table under the event loop\<close>

lemma entry_free: "aio_ok a \<Longrightarrow> 0 \<le> ix \<Longrightarrow> entry_at ix a = None \<Longrightarrow> free_at ix a"
  by (auto simp: entry_at_def free_at_def aio_ok_def split: if_splits)

lemma entry_inUse: "entry_at ix a = Some x \<Longrightarrow> inUse x \<and> info_at a ix = Inr x"
  by (auto simp: entry_at_def info_at_def split: option.splits if_splits)

text \<open>Taking a descriptor out of the posted ones and releasing its entry.\<close>

definition dispatched_rd :: "int \<Rightarrow> AioInfo \<Rightarrow> aio \<Rightarrow> aio" where
  "dispatched_rd fd x a = set_info (AIO_RD_IX fd) (x\<lparr>procPtr := 0, inUse := False\<rparr>)
     (a\<lparr>numRdPosted := numRdPosted a - 1, readFdSetPost := readFdSetPost a - {fd}\<rparr>)"

definition dispatched_wr :: "int \<Rightarrow> AioInfo \<Rightarrow> aio \<Rightarrow> aio" where
  "dispatched_wr fd x a = set_info (AIO_WR_IX fd) (x\<lparr>procPtr := 0, inUse := False\<rparr>)
     (a\<lparr>numWrPosted := numWrPosted a - 1, writeFdSetPost := writeFdSetPost a - {fd}\<rparr>)"

lemma entry_dispatched:
  "0 \<le> ix \<Longrightarrow> 0 \<le> fd \<Longrightarrow> entry_at ix (dispatched_rd fd x a) = (if ix = AIO_RD_IX fd then None else entry_at ix a)"
  "0 \<le> ix \<Longrightarrow> 0 \<le> fd \<Longrightarrow> entry_at ix (dispatched_wr fd x a) = (if ix = AIO_WR_IX fd then None else entry_at ix a)"
  by (auto simp: entry_at_def dispatched_rd_def dispatched_wr_def set_info_def AIO_RD_IX_def AIO_WR_IX_def nth_list_update eq_nat_nat_iff split: option.splits)

lemma rd_wr_apart: "AIO_RD_IX f \<noteq> AIO_WR_IX g" "AIO_WR_IX g \<noteq> AIO_RD_IX f"
  unfolding AIO_RD_IX_def AIO_WR_IX_def by presburger+

lemma rd_inj: "AIO_RD_IX f = AIO_RD_IX g \<longleftrightarrow> f = g" "AIO_WR_IX f = AIO_WR_IX g \<longleftrightarrow> f = g"
  by (auto simp: AIO_RD_IX_def AIO_WR_IX_def)

lemma slots_apart: "0 \<le> f \<Longrightarrow> 0 \<le> g \<Longrightarrow> nat (2 * f + 1) \<noteq> nat (AIO_RD_IX g)"
    "0 \<le> f \<Longrightarrow> 0 \<le> g \<Longrightarrow> nat (2 * f) \<noteq> nat (AIO_WR_IX g)"
proof -
  have "2 * f + 1 \<noteq> g * 2" "2 * f \<noteq> g * 2 + 1" by presburger+
  then show "0 \<le> f \<Longrightarrow> 0 \<le> g \<Longrightarrow> nat (2 * f + 1) \<noteq> nat (AIO_RD_IX g)"
    "0 \<le> f \<Longrightarrow> 0 \<le> g \<Longrightarrow> nat (2 * f) \<noteq> nat (AIO_WR_IX g)"
    by (simp_all add: AIO_RD_IX_def AIO_WR_IX_def eq_nat_nat_iff)
qed

lemma aio_ok_dispatched_rd:
  assumes "aio_ok a" "fd \<notin> readFdSet a" "0 \<le> fd"
  shows "aio_ok (dispatched_rd fd x a)"
proof -
  obtain t where t: "asyncIoTable a = Some t" "length t = asyncIoTableSize a" "even (length t)" "16 \<le> length t"
    "- 1 \<le> maxFd a" "maxFd a < FD_SETSIZE" "2 * maxFd a + 1 < int (length t)"
    "\<forall>fd \<in> readFdSet a \<union> writeFdSet a \<union> readFdSetPost a \<union> writeFdSetPost a. 0 \<le> fd \<and> fd \<le> maxFd a"
    "\<forall>fd \<in> readFdSet a. inUse (t ! nat (2 * fd))" "\<forall>fd \<in> writeFdSet a. inUse (t ! nat (2 * fd + 1))"
    using assms(1) by (rule aio_okE)
  let ?t = "t[nat (AIO_RD_IX fd) := x\<lparr>procPtr := 0, inUse := False\<rparr>]"
  have "inUse (?t ! nat (2 * f))" if "f \<in> readFdSet a" for f
  proof -
    have "f \<noteq> fd" "0 \<le> f" using that assms(2) t(8) by auto
    then have "nat (2 * f) \<noteq> nat (AIO_RD_IX fd)" using assms(3) by (simp add: AIO_RD_IX_def)
    then show ?thesis using that t(9) by simp
  qed
  moreover have "inUse (?t ! nat (2 * f + 1))" if "f \<in> writeFdSet a" for f
  proof -
    have "0 \<le> f" using that t(8) by auto
    then have "nat (2 * f + 1) \<noteq> nat (AIO_RD_IX fd)" using assms(3) by (rule slots_apart)
    then show ?thesis using that t(10) by simp
  qed
  ultimately show ?thesis using t unfolding aio_ok_def
    by (intro exI [of _ ?t]) (auto simp: dispatched_rd_def set_info_def)
qed

lemma aio_ok_dispatched_wr:
  assumes "aio_ok a" "fd \<notin> writeFdSet a" "0 \<le> fd"
  shows "aio_ok (dispatched_wr fd x a)"
proof -
  obtain t where t: "asyncIoTable a = Some t" "length t = asyncIoTableSize a" "even (length t)" "16 \<le> length t"
    "- 1 \<le> maxFd a" "maxFd a < FD_SETSIZE" "2 * maxFd a + 1 < int (length t)"
    "\<forall>fd \<in> readFdSet a \<union> writeFdSet a \<union> readFdSetPost a \<union> writeFdSetPost a. 0 \<le> fd \<and> fd \<le> maxFd a"
    "\<forall>fd \<in> readFdSet a. inUse (t ! nat (2 * fd))" "\<forall>fd \<in> writeFdSet a. inUse (t ! nat (2 * fd + 1))"
    using assms(1) by (rule aio_okE)
  let ?t = "t[nat (AIO_WR_IX fd) := x\<lparr>procPtr := 0, inUse := False\<rparr>]"
  have "inUse (?t ! nat (2 * f + 1))" if "f \<in> writeFdSet a" for f
  proof -
    have "f \<noteq> fd" "0 \<le> f" using that assms(2) t(8) by auto
    then have "nat (2 * f + 1) \<noteq> nat (AIO_WR_IX fd)" using assms(3) by (simp add: AIO_WR_IX_def)
    then show ?thesis using that t(10) by simp
  qed
  moreover have "inUse (?t ! nat (2 * f))" if "f \<in> readFdSet a" for f
  proof -
    have "0 \<le> f" using that t(8) by auto
    then have "nat (2 * f) \<noteq> nat (AIO_WR_IX fd)" using assms(3) by (rule slots_apart)
    then show ?thesis using that t(9) by simp
  qed
  ultimately show ?thesis using t unfolding aio_ok_def
    by (intro exI [of _ ?t]) (auto simp: dispatched_wr_def set_info_def)
qed

lemma aio_ok_post_ready:
  assumes "aio_ok a" "R \<subseteq> readFdSet a" "W \<subseteq> writeFdSet a"
  shows "aio_ok (post_ready R W a)"
  using assms by (fastforce simp: aio_ok_def post_ready_def)

lemma AsyncReadStdin_AsyncRead:
  assumes "aio_ok a"
  shows "OS_AsyncReadStdin buf len proc cd a = OS_AsyncRead STDIN_FILENO 0 buf len proc cd a"
proof -
  obtain t where t: "asyncIoTable a = Some t" "length t = asyncIoTableSize a" "16 \<le> length t"
    using assms by (rule aio_okE)
  then have g: "grow_to 0 b = Inr b" if "asyncIoTableSize b = asyncIoTableSize a" for b
    using that by (simp add: grow_to.simps)
  have "bindr (post 0 0 0 buf len proc cd (a\<lparr>asyncIoInUse := True\<rparr>)) (\<lambda>a1. Inr (0 :: int, a1\<lparr>readFdSet := insert 0 (readFdSet a1),
         maxFd := (if maxFd a1 < 0 then 0 else maxFd a1)\<rparr>))
     = bindr (post 0 0 0 buf len proc cd (a\<lparr>asyncIoInUse := True, maxFd := (if maxFd a < 0 then 0 else maxFd a)\<rparr>))
        (\<lambda>a3. Inr (0, a3\<lparr>readFdSet := insert 0 (readFdSet a3)\<rparr>))"
    using t by (simp add: post_def info_at_def set_info_def assertr_def)
  then show ?thesis unfolding OS_AsyncReadStdin_def OS_AsyncRead_def STDIN_FILENO_def AIO_RD_IX_def
    using t(1) by (simp add: Let_def g FD_SETSIZE_def cong: if_cong)
qed

section \<open>The operations of cgi-fcgi in the table\<close>

text \<open>The three operations \<open>ScheduleIo\<close> posts, for the connection \<open>s\<close>.\<close>

definition as_op :: "int \<Rightarrow> AioInfo" where
  "as_op s = posting s 0 FROM_AS (int BUFFLEN) PROC_AppServerRead s"

definition wr_op :: "int \<Rightarrow> Buffer \<Rightarrow> AioInfo" where
  "wr_op s b = posting s 0 (FROM_WS + int (bufNext b)) (int (bufStop b) - int (bufNext b)) PROC_AppServerWrite s"

definition ws_op :: AioInfo where
  "ws_op = posting STDIN_FILENO 0 (FROM_WS + 8) (int BUFFLEN - 8) PROC_WebServerRead STDIN_FILENO"

text \<open>A posted descriptor has an operation and is not waited for.\<close>

definition posted_ok :: "aio \<Rightarrow> bool" where
  "posted_ok a \<longleftrightarrow> readFdSet a \<inter> readFdSetPost a = {} \<and> writeFdSet a \<inter> writeFdSetPost a = {}
     \<and> (\<forall>fd \<in> readFdSetPost a. entry_at (AIO_RD_IX fd) a \<noteq> None) \<and> (\<forall>fd \<in> writeFdSetPost a. entry_at (AIO_WR_IX fd) a \<noteq> None)"

definition entries_ok :: "int \<Rightarrow> cgi \<Rightarrow> aio \<Rightarrow> bool" where
  "entries_ok s g a \<longleftrightarrow>
     entry_at (AIO_RD_IX s) a = (if fcgiReadPending g then Some (as_op s) else None)
     \<and> entry_at (AIO_WR_IX s) a = (if fcgiWritePending g then Some (wr_op s (fromWS g)) else None)
     \<and> entry_at (AIO_RD_IX STDIN_FILENO) a = (if wsReadPending g then Some ws_op else None)
     \<and> (\<forall>ix. 0 \<le> ix \<longrightarrow> ix \<notin> {AIO_RD_IX s, AIO_WR_IX s, AIO_RD_IX STDIN_FILENO} \<longrightarrow> entry_at ix a = None)"

definition table_ok :: "int \<Rightarrow> cgi \<Rightarrow> aio \<Rightarrow> bool" where
  "table_ok s g a \<longleftrightarrow> aio_ok a \<and> posted_ok a \<and> entries_ok s g a"

lemma posted_ok_read:
  assumes "posted_ok a" "entry_at (AIO_RD_IX fd) a = None" "readFdSet a' = insert fd (readFdSet a)" "writeFdSet a' = writeFdSet a"
    "readFdSetPost a' = readFdSetPost a" "writeFdSetPost a' = writeFdSetPost a"
    "\<And>ix. ix \<noteq> AIO_RD_IX fd \<Longrightarrow> entry_at ix a' = entry_at ix a"
  shows "posted_ok a'"
proof -
  have "fd \<notin> readFdSetPost a" using assms(1,2) by (auto simp: posted_ok_def)
  then show ?thesis using assms rd_inj rd_wr_apart unfolding posted_ok_def by (metis (no_types, lifting) Int_insert_left_if0)
qed

lemma posted_ok_write:
  assumes "posted_ok a" "entry_at (AIO_WR_IX fd) a = None" "writeFdSet a' = insert fd (writeFdSet a)" "readFdSet a' = readFdSet a"
    "readFdSetPost a' = readFdSetPost a" "writeFdSetPost a' = writeFdSetPost a"
    "\<And>ix. ix \<noteq> AIO_WR_IX fd \<Longrightarrow> entry_at ix a' = entry_at ix a"
  shows "posted_ok a'"
proof -
  have "fd \<notin> writeFdSetPost a" using assms(1,2) by (auto simp: posted_ok_def)
  then show ?thesis using assms rd_inj rd_wr_apart unfolding posted_ok_def by (metis (no_types, lifting) Int_insert_left_if0)
qed

lemma stdin_apart: "2 < s \<Longrightarrow> AIO_RD_IX STDIN_FILENO \<noteq> AIO_RD_IX s" "2 < s \<Longrightarrow> AIO_RD_IX STDIN_FILENO \<noteq> AIO_WR_IX s"
  by (simp_all add: AIO_RD_IX_def AIO_WR_IX_def STDIN_FILENO_def)

lemma schedule_write_ok:
  assumes "table_ok s g (aioState w)" "appServerSock g = s" "2 < s" "s < FD_SETSIZE" "bufNext (fromWS g) \<le> bufStop (fromWS g)"
  obtains a where "schedule_write (g, w) = Inr (Run (g\<lparr>fcgiWritePending := fcgiWritePending g \<or> bufNext (fromWS g) \<noteq> bufStop (fromWS g)\<rparr>,
        w\<lparr>aioState := a\<rparr>))"
    "table_ok s (g\<lparr>fcgiWritePending := fcgiWritePending g \<or> bufNext (fromWS g) \<noteq> bufStop (fromWS g)\<rparr>) a"
    "readFdSetPost a = readFdSetPost (aioState w)"
proof (cases "\<not> fcgiWritePending g \<and> bufNext (fromWS g) \<noteq> bufStop (fromWS g)")
  case False
  then have "g\<lparr>fcgiWritePending := fcgiWritePending g \<or> bufNext (fromWS g) \<noteq> bufStop (fromWS g)\<rparr> = g" by auto
  then show ?thesis using False assms(1) that [of "aioState w"] by (auto simp: schedule_write_def Let_def)
next
  case True
  let ?b = "fromWS g"
  have tab: "aio_ok (aioState w)" "posted_ok (aioState w)" "entries_ok s g (aioState w)" using assms(1) by (simp_all add: table_ok_def)
  then have none: "entry_at (AIO_WR_IX s) (aioState w) = None" using True by (simp add: entries_ok_def)
  have free: "free_at (AIO_WR_IX s) (aioState w)"
    using entry_free [OF tab(1) _ none] assms(3) by (simp add: AIO_WR_IX_def)
  have s0: "0 \<le> s" using assms(3) by simp
  obtain a where a: "OS_AsyncWrite s 0 (FROM_WS + int (bufNext ?b)) (int (bufStop ?b) - int (bufNext ?b)) PROC_AppServerWrite s (aioState w) = Inr (0, a)"
    "aio_ok a" "entry_at (AIO_WR_IX s) a = Some (wr_op s ?b)" "\<And>ix. ix \<noteq> AIO_WR_IX s \<Longrightarrow> entry_at ix a = entry_at ix (aioState w)"
    "readFdSet a = readFdSet (aioState w)" "writeFdSet a = insert s (writeFdSet (aioState w))"
    "readFdSetPost a = readFdSetPost (aioState w)" "writeFdSetPost a = writeFdSetPost (aioState w)"
    unfolding wr_op_def using AsyncWrite_ok [OF tab(1) s0 assms(4) free, of 0 "FROM_WS + int (bufNext ?b)"
        "int (bufStop ?b) - int (bufNext ?b)" PROC_AppServerWrite s] by metis
  have "posted_ok a" by (rule posted_ok_write [OF tab(2) none a(6,5,7,8,4)])
  moreover have "entries_ok s (g\<lparr>fcgiWritePending := True\<rparr>) a"
    using tab(3) a(3,4) rd_wr_apart stdin_apart [OF assms(3)] by (simp add: entries_ok_def)
  ultimately show ?thesis using a(1,2,7) True assms(2,3) that [of a]
    by (simp add: schedule_write_def Let_def table_ok_def)
qed

lemma schedule_read_ok:
  assumes "table_ok s g (aioState w)" "appServerSock g = s" "2 < s" "s < FD_SETSIZE"
    "fcgiReadPending g \<Longrightarrow> bufNext (fromAS g) = 0"
  obtains a where "schedule_read (g, w) = Inr (Run (g\<lparr>fromAS := (fromAS g)\<lparr>bufNext := 0\<rparr>, fcgiReadPending := True\<rparr>, w\<lparr>aioState := a\<rparr>))"
    "table_ok s (g\<lparr>fromAS := (fromAS g)\<lparr>bufNext := 0\<rparr>, fcgiReadPending := True\<rparr>) a"
    "readFdSetPost a = readFdSetPost (aioState w)"
proof (cases "fcgiReadPending g")
  case True
  then have "g\<lparr>fromAS := (fromAS g)\<lparr>bufNext := 0\<rparr>, fcgiReadPending := True\<rparr> = g" using assms(5) by simp
  then show ?thesis using True assms(1) that [of "aioState w"] by (auto simp: schedule_read_def Let_def)
next
  case False
  have tab: "aio_ok (aioState w)" "posted_ok (aioState w)" "entries_ok s g (aioState w)" using assms(1) by (simp_all add: table_ok_def)
  then have none: "entry_at (AIO_RD_IX s) (aioState w) = None" using False by (simp add: entries_ok_def)
  have free: "free_at (AIO_RD_IX s) (aioState w)"
    using entry_free [OF tab(1) _ none] assms(3) by (simp add: AIO_RD_IX_def)
  have s0: "0 \<le> s" using assms(3) by simp
  obtain a where a: "OS_AsyncRead s 0 FROM_AS (int BUFFLEN) PROC_AppServerRead s (aioState w) = Inr (0, a)"
    "aio_ok a" "entry_at (AIO_RD_IX s) a = Some (as_op s)" "\<And>ix. ix \<noteq> AIO_RD_IX s \<Longrightarrow> entry_at ix a = entry_at ix (aioState w)"
    "readFdSet a = insert s (readFdSet (aioState w))" "writeFdSet a = writeFdSet (aioState w)"
    "readFdSetPost a = readFdSetPost (aioState w)" "writeFdSetPost a = writeFdSetPost (aioState w)"
    unfolding as_op_def using AsyncRead_ok [OF tab(1) s0 assms(4) free, of 0 FROM_AS "int BUFFLEN" PROC_AppServerRead s] by metis
  have "posted_ok a" by (rule posted_ok_read [OF tab(2) none a(5-8,4)])
  moreover have "entries_ok s (g\<lparr>fromAS := (fromAS g)\<lparr>bufNext := 0\<rparr>, fcgiReadPending := True\<rparr>) a"
    using tab(3) a(3,4) rd_wr_apart stdin_apart [OF assms(3)] by (simp add: entries_ok_def)
  ultimately show ?thesis using a(1,2,7) False assms(2,3) that [of a]
    by (simp add: schedule_read_def Let_def table_ok_def)
qed

definition wants_stdin :: "cgi \<Rightarrow> bool" where
  "wants_stdin g \<longleftrightarrow> 0 < bytesToRead g \<and> \<not> webServerReadHandlerEOF g \<and> \<not> fcgiWritePending g \<and> bufNext (fromWS g) = 0"

lemma schedule_stdin_ok:
  assumes "table_ok s g (aioState w)" "2 < s"
  obtains a where "schedule_stdin (g, w) = Inr (Run (g\<lparr>wsReadPending := wsReadPending g \<or> wants_stdin g\<rparr>, w\<lparr>aioState := a\<rparr>))"
    "table_ok s (g\<lparr>wsReadPending := wsReadPending g \<or> wants_stdin g\<rparr>) a"
    "readFdSetPost a = readFdSetPost (aioState w)"
proof (cases "\<not> wsReadPending g \<and> wants_stdin g")
  case False
  then have "g\<lparr>wsReadPending := wsReadPending g \<or> wants_stdin g\<rparr> = g" by auto
  then show ?thesis using False assms(1) that [of "aioState w"] by (auto simp: schedule_stdin_def wants_stdin_def Let_def)
next
  case True
  have tab: "aio_ok (aioState w)" "posted_ok (aioState w)" "entries_ok s g (aioState w)" using assms(1) by (simp_all add: table_ok_def)
  then have none: "entry_at (AIO_RD_IX STDIN_FILENO) (aioState w) = None" using True by (simp add: entries_ok_def)
  have free: "free_at (AIO_RD_IX STDIN_FILENO) (aioState w)"
    using entry_free [OF tab(1) _ none] by (simp add: AIO_RD_IX_def STDIN_FILENO_def)
  have fd: "0 \<le> STDIN_FILENO" "STDIN_FILENO < FD_SETSIZE" by (simp_all add: STDIN_FILENO_def FD_SETSIZE_def)
  obtain a where a: "OS_AsyncReadStdin (FROM_WS + 8) (int BUFFLEN - 8) PROC_WebServerRead STDIN_FILENO (aioState w) = Inr (0, a)"
    "aio_ok a" "entry_at (AIO_RD_IX STDIN_FILENO) a = Some ws_op"
    "\<And>ix. ix \<noteq> AIO_RD_IX STDIN_FILENO \<Longrightarrow> entry_at ix a = entry_at ix (aioState w)"
    "readFdSet a = insert STDIN_FILENO (readFdSet (aioState w))" "writeFdSet a = writeFdSet (aioState w)"
    "readFdSetPost a = readFdSetPost (aioState w)" "writeFdSetPost a = writeFdSetPost (aioState w)"
    unfolding ws_op_def AsyncReadStdin_AsyncRead [OF tab(1)]
    using AsyncRead_ok [OF tab(1) fd free, of 0 "FROM_WS + 8" "int BUFFLEN - 8" PROC_WebServerRead STDIN_FILENO] by metis
  have "posted_ok a" by (rule posted_ok_read [OF tab(2) none a(5-8,4)])
  moreover have "entries_ok s (g\<lparr>wsReadPending := True\<rparr>) a"
    using tab(3) a(3,4) rd_wr_apart stdin_apart [OF assms(2)] by (simp add: entries_ok_def)
  ultimately show ?thesis using a(1,2,7) True assms(2) that [of a]
    by (simp add: schedule_stdin_def wants_stdin_def Let_def table_ok_def)
qed

text \<open>\<open>ScheduleIo\<close> succeeds and leaves every operation it wants posted.\<close>

definition scheduled :: "cgi \<Rightarrow> cgi" where
  "scheduled g =
     (let g1 = g\<lparr>fcgiWritePending := fcgiWritePending g \<or> bufNext (fromWS g) \<noteq> bufStop (fromWS g),
                fromAS := (fromAS g)\<lparr>bufNext := 0\<rparr>, fcgiReadPending := True\<rparr>
      in g1\<lparr>wsReadPending := wsReadPending g \<or> wants_stdin g1\<rparr>)"

lemma ScheduleIo_ok:
  assumes "table_ok s g (aioState w)" "appServerSock g = s" "2 < s" "s < FD_SETSIZE"
    "fcgiReadPending g \<Longrightarrow> bufNext (fromAS g) = 0" "bufNext (fromWS g) \<le> bufStop (fromWS g)"
  obtains a where "ScheduleIo (g, w) = Inr (Run (scheduled g, w\<lparr>aioState := a\<rparr>))" "table_ok s (scheduled g) a"
    "readFdSetPost a = readFdSetPost (aioState w)"
proof -
  let ?g1 = "g\<lparr>fcgiWritePending := fcgiWritePending g \<or> bufNext (fromWS g) \<noteq> bufStop (fromWS g)\<rparr>"
  let ?g2 = "?g1\<lparr>fromAS := (fromAS g)\<lparr>bufNext := 0\<rparr>, fcgiReadPending := True\<rparr>"
  obtain a1 where a1: "schedule_write (g, w) = Inr (Run (?g1, w\<lparr>aioState := a1\<rparr>))" "table_ok s ?g1 a1"
    "readFdSetPost a1 = readFdSetPost (aioState w)"
    by (rule schedule_write_ok [OF assms(1-4,6)])
  obtain a2 where a2: "schedule_read (?g1, w\<lparr>aioState := a1\<rparr>) = Inr (Run (?g2, w\<lparr>aioState := a2\<rparr>))" "table_ok s ?g2 a2"
    "readFdSetPost a2 = readFdSetPost a1"
    using schedule_read_ok [of s ?g1 "w\<lparr>aioState := a1\<rparr>"] a1(2) assms(2-5) by auto
  obtain a3 where a3: "schedule_stdin (?g2, w\<lparr>aioState := a2\<rparr>) = Inr (Run (?g2\<lparr>wsReadPending := wsReadPending ?g2 \<or> wants_stdin ?g2\<rparr>,
      w\<lparr>aioState := a3\<rparr>))" "table_ok s (?g2\<lparr>wsReadPending := wsReadPending ?g2 \<or> wants_stdin ?g2\<rparr>) a3"
    "readFdSetPost a3 = readFdSetPost a2"
    using schedule_stdin_ok [of s ?g2 "w\<lparr>aioState := a2\<rparr>"] a2(2) assms(3) by auto
  have "scheduled g = ?g2\<lparr>wsReadPending := wsReadPending ?g2 \<or> wants_stdin ?g2\<rparr>" by (simp add: scheduled_def Let_def)
  with a1 a2 a3 that [of a3] show ?thesis by (simp add: ScheduleIo_def)
qed

section \<open>The invariant of the bridge\<close>

definition relay_start :: relay where
  "relay_start = \<lparr>rPhase = Header [], rOut = [], rErr = [], rBody = [], rStatus = None\<rparr>"

definition stdin_records :: "byte list list \<Rightarrow> byte list" where
  "stdin_records cs = concat (map (\<lambda>c. rec_bytes FCGI_STDIN 1 c []) cs)"

definition stdin_chunk :: "byte list \<Rightarrow> bool" where
  "stdin_chunk c \<longleftrightarrow> c \<noteq> [] \<and> length c \<le> BUFFLEN - 8"

definition stdin_end :: "bool \<Rightarrow> byte list" where
  "stdin_end eof = (if eof then header_bytes (header_for FCGI_STDIN 1 0 0) else [])"

definition stdin_eof :: "cgi \<Rightarrow> bool" where
  "stdin_eof g \<longleftrightarrow> webServerReadHandlerEOF g \<or> stdin_eof_sent g"

definition ws_pending :: "Buffer \<Rightarrow> byte list" where
  "ws_pending b = sub_bytes (bufNext b) (bufStop b - bufNext b) (bufData b)"

text \<open>
  Every read of the standard input leaves room for the end-of-stream header behind its record. When \<open>F\<close>, the set of faults that can
  happen, does not hold \<open>OutOfBounds\<close>, the handlers must not meet an arrival of the data at which they leave their buffers.
\<close>

definition small_reads :: "os \<Rightarrow> bool" where
  "small_reads w \<longleftrightarrow> (\<forall>bs. RdBytes bs \<in> set (rdScript (conns w STDIN_FILENO)) \<longrightarrow> length bs \<le> BUFFLEN - 16)"

definition unsplit :: "relay \<Rightarrow> bool" where
  "unsplit r \<longleftrightarrow> (case rPhase r of Header hb \<Rightarrow> hb = [] | Content ty c p \<Rightarrow> rBody r = [] | _ \<Rightarrow> True)"

fun well_cut :: "relay \<Rightarrow> rd_event list \<Rightarrow> bool" where
  "well_cut r [] \<longleftrightarrow> True"
| "well_cut r (RdErr e # es) \<longleftrightarrow> well_cut r es"
| "well_cut r (RdBytes bs # es) \<longleftrightarrow> length bs \<le> BUFFLEN \<and> (bs \<noteq> [] \<longrightarrow> unsplit r) \<and> well_cut (relay_bytes 1 bs r) es"

text \<open>
  Towards the application server: what has been sent on the connection \<open>s\<close> since \<open>P\<close> and what the buffer still holds are the
  records of the input \<open>B\<close> read so far, with an end-of-stream record once the input has ended or the announced length \<open>L\<close> is reached.
\<close>

definition ws_data :: "int \<Rightarrow> fault set \<Rightarrow> int \<Rightarrow> byte list \<Rightarrow> byte list \<Rightarrow> cgi \<Rightarrow> os \<Rightarrow> bool" where
  "ws_data s F L B P g w \<longleftrightarrow> length (bufData (fromWS g)) = BUFFLEN \<and> bufNext (fromWS g) \<le> bufStop (fromWS g)
     \<and> bufStop (fromWS g) \<le> BUFFLEN \<and> (bufNext (fromWS g) = bufStop (fromWS g) \<longrightarrow> bufStop (fromWS g) = 0)
     \<and> (stdin_eof_sent g \<longrightarrow> bytesToRead g \<le> 0) \<and> (OutOfBounds \<notin> F \<longrightarrow> small_reads w)
     \<and> (\<exists>cs q. sent (conns w s) = P @ q \<and> q @ ws_pending (fromWS g) = stdin_records cs @ stdin_end (stdin_eof g)
          \<and> list_all stdin_chunk cs \<and> bytesToRead g = L - int (length (concat cs))
          \<and> B = concat cs @ (if webServerReadHandlerEOF g then [] else incoming STDIN_FILENO w))"

text \<open>Towards the Web server: the standard output and standard error hold, after \<open>O1\<close> and \<open>O2\<close>, what the reference machine puts there
  for the part of the application server's output \<open>A\<close> read so far.\<close>

definition as_data :: "int \<Rightarrow> fault set \<Rightarrow> byte list \<Rightarrow> byte list \<Rightarrow> byte list \<Rightarrow> cgi \<Rightarrow> os \<Rightarrow> bool" where
  "as_data s F A O1 O2 g w \<longleftrightarrow> length (bufData (fromAS g)) = BUFFLEN \<and> cgiRequestId g = 1
     \<and> takes_all STDOUT_FILENO w \<and> takes_all STDERR_FILENO w
     \<and> (\<exists>da. A = da @ incoming s w \<and> corr g (relay_bytes 1 da relay_start)
          \<and> (OutOfBounds \<notin> F \<longrightarrow> well_cut (relay_bytes 1 da relay_start) (rdScript (conns w s)))
          \<and> sent (conns w STDOUT_FILENO) = O1 @ rOut (relay_bytes 1 da relay_start)
          \<and> sent (conns w STDERR_FILENO) = O2 @ rErr (relay_bytes 1 da relay_start))"

text \<open>The error codes a descriptor still has to report, and what the two descriptors the program reads and writes may report.\<close>

definition reported :: "int \<Rightarrow> os \<Rightarrow> int set" where
  "reported fd w = {e. RdErr e \<in> set (rdScript (conns w fd)) \<or> WrErr e \<in> set (wrScript (conns w fd))}
     \<union> (if isOpen (conns w fd) then {} else {EBADF})"

definition errors_ok :: "int \<Rightarrow> int set \<Rightarrow> os \<Rightarrow> bool" where
  "errors_ok s K w \<longleftrightarrow> reported s w \<subseteq> K \<and> reported STDIN_FILENO w \<subseteq> K"

definition bridge :: "int \<Rightarrow> fault set \<Rightarrow> int set \<Rightarrow> int \<Rightarrow> byte list \<Rightarrow> byte list \<Rightarrow> byte list \<Rightarrow> byte list \<Rightarrow> byte list
    \<Rightarrow> cgi \<times> os \<Rightarrow> bool" where
  "bridge s F K L A B P O1 O2 = (\<lambda>(g, w). appServerSock g = s \<and> table_ok s g (aioState w)
     \<and> fcgiReadPending g \<and> bufNext (fromAS g) = 0
     \<and> (fcgiWritePending g \<longleftrightarrow> bufNext (fromWS g) < bufStop (fromWS g))
     \<and> (wsReadPending g \<longrightarrow> bufStop (fromWS g) = 0 \<and> \<not> stdin_eof g \<and> 0 < bytesToRead g)
     \<and> ws_data s F L B P g w \<and> as_data s F A O1 O2 g w
     \<and> (exitStatusSet g \<longrightarrow> s \<notin> readFdSetPost (aioState w)) \<and> errors_ok s K w)"

text \<open>
  What is known when the program leaves with the exit code \<open>c\<close>. Either an error code reported by the kernel ended it, and the part
  \<open>da\<close> of the application server's output \<open>A\<close> has been relayed; or all of \<open>A\<close> has been, and \<open>c\<close> is the application
  status of its end of the request, or the error code of a malformed output or of one that stops before the end of the request.
\<close>

definition exit_of :: "relay \<Rightarrow> int" where
  "exit_of r = (case rPhase r of Failed e \<Rightarrow> e
     | _ \<Rightarrow> (case rStatus r of Some st \<Rightarrow> st | None \<Rightarrow> FCGX_PROTOCOL_ERROR))"

definition relay_exit :: "int set \<Rightarrow> byte list \<Rightarrow> byte list \<Rightarrow> byte list \<Rightarrow> int \<Rightarrow> os \<Rightarrow> bool" where
  "relay_exit K A O1 O2 c w \<longleftrightarrow>
     (\<exists>da rest. A = da @ rest \<and> sent (conns w STDOUT_FILENO) = O1 @ rOut (relay_bytes 1 da relay_start)
        \<and> sent (conns w STDERR_FILENO) = O2 @ rErr (relay_bytes 1 da relay_start)
        \<and> (c \<in> K \<or> rest = [] \<and> c = exit_of (relay_bytes 1 da relay_start)))"

text \<open>
  On the connection, \<open>P\<close> has been sent and after it all but a buffer's worth of the records of the standard input read so far; the rest
  of the standard input is unread, and the end of the stream is only announced when there is no rest or the announced length has been reached.
\<close>

definition sent_exit :: "int \<Rightarrow> int \<Rightarrow> byte list \<Rightarrow> byte list \<Rightarrow> os \<Rightarrow> bool" where
  "sent_exit s L B P w \<longleftrightarrow>
     (\<exists>cs left q unsent eof. B = concat cs @ left \<and> list_all stdin_chunk cs
        \<and> sent (conns w s) = P @ q \<and> q @ unsent = stdin_records cs @ stdin_end eof \<and> length unsent \<le> BUFFLEN
        \<and> (left = [] \<or> left = incoming STDIN_FILENO w) \<and> (eof \<longrightarrow> left = [] \<or> L \<le> int (length (concat cs))))"

definition bridge_exit :: "int \<Rightarrow> int set \<Rightarrow> int \<Rightarrow> byte list \<Rightarrow> byte list \<Rightarrow> byte list \<Rightarrow> byte list \<Rightarrow> byte list
    \<Rightarrow> int \<Rightarrow> os \<Rightarrow> bool" where
  "bridge_exit s K L A B P O1 O2 c w \<longleftrightarrow> relay_exit K A O1 O2 c w \<and> sent_exit s L B P w"

lemma sent_kernel [simp]:
  "posix_poll fd w = (rv, b, w1) \<Longrightarrow> sent (conns w1 f) = sent (conns w f)"
  "posix_read fd n w = (k, bs, w1) \<Longrightarrow> sent (conns w1 f) = sent (conns w f)"
  "sent (conns (snd (posix_close fd w)) f) = sent (conns w f)"
  by (auto simp: posix_poll_def posix_read_def posix_close_def Let_def split: if_splits list.splits poll_event.splits
      rd_event.splits)

lemma sent_drain [simp]: "sent (conns (drain_input fd w) f) = sent (conns w f)"
proof (induction fd w rule: drain_input.induct)
  case (1 fd w)
  then show ?case
    by (subst drain_input.simps) (auto split: prod.splits simp: sent_kernel)
qed

lemma conns_kernel:
  "posix_poll fd w = (rv, b, w1) \<Longrightarrow> (f \<noteq> fd \<longrightarrow> conns w1 f = conns w f) \<and> shutdownNow w1 = shutdownNow w"
  "posix_read fd n w = (k, bs, w1) \<Longrightarrow> (f \<noteq> fd \<longrightarrow> conns w1 f = conns w f) \<and> shutdownNow w1 = shutdownNow w"
  by (auto simp: posix_poll_def posix_read_def Let_def split: if_splits list.splits poll_event.splits rd_event.splits)

lemma conns_drain: "(f \<noteq> fd \<longrightarrow> conns (drain_input fd w) f = conns w f) \<and> shutdownNow (drain_input fd w) = shutdownNow w"
proof (induction fd w rule: drain_input.induct)
  case (1 fd w)
  then show ?case
    unfolding drain_input.simps [of fd w] by (auto split: prod.splits dest!: conns_kernel [where f = f])
qed

lemma OS_Close_keeps:
  assumes "OS_Close fd sh w = Inr (r, w')"
  shows "sent (conns w' f) = sent (conns w f)" "f \<noteq> fd \<Longrightarrow> incoming f w' = incoming f w"
proof -
  have "sent (conns w' f) = sent (conns w f) \<and> (f \<noteq> fd \<longrightarrow> incoming f w' = incoming f w)"
  proof (cases "fd = - 1")
    case False
    let ?w = "\<lambda>a. if sh \<and> isOpen (conns w fd) \<and> isSocket (conns w fd) then drain_input fd (w\<lparr>aioState := a\<rparr>) else w\<lparr>aioState := a\<rparr>"
    obtain a where "posix_close fd (?w a) = (r, w')" using assms False by (auto simp: OS_Close_def Let_def bindr_Inr_iff)
    then have w': "w' = snd (posix_close fd (?w a))" by simp
    have "f \<noteq> fd \<longrightarrow> conns w' f = conns w f" "shutdownNow w' = shutdownNow w"
      unfolding w' using conns_drain [of f fd "w\<lparr>aioState := a\<rparr>"] by (auto simp: posix_close_def)
    then show ?thesis by (simp add: w' incoming_def)
  qed (use assms in \<open>simp add: OS_Close_def\<close>)
  then show "sent (conns w' f) = sent (conns w f)" "f \<noteq> fd \<Longrightarrow> incoming f w' = incoming f w" by blast+
qed

lemma incoming_aioState [simp]: "incoming f (w\<lparr>aioState := a\<rparr>) = incoming f w"
  by (simp add: incoming_def)

lemma bridge_exit_cong:
  "bridge_exit s K L A B P O1 O2 c w \<Longrightarrow> (\<And>f. sent (conns w' f) = sent (conns w f))
    \<Longrightarrow> incoming STDIN_FILENO w' = incoming STDIN_FILENO w \<Longrightarrow> bridge_exit s K L A B P O1 O2 c w'"
  by (simp add: bridge_exit_def relay_exit_def sent_exit_def)

text \<open>Closing the connection stays within the table when the table has entries for it.\<close>

definition has_room :: "int \<Rightarrow> aio \<Rightarrow> bool" where
  "has_room s a \<longleftrightarrow> (\<exists>t. asyncIoTable a = Some t \<and> 2 * s + 1 < int (length t))"

lemma OS_Close_fault:
  assumes "OS_Close fd sh w = Inl f"
  shows "f = OutOfBounds" "0 \<le> fd \<Longrightarrow> fd < FD_SETSIZE \<Longrightarrow> \<not> has_room fd (aioState w)"
proof -
  show "f = OutOfBounds" using assms
    by (auto simp: OS_Close_def close_async_def cancel_def info_at_def inbounds_def bindr_Inl_iff Let_def split: if_splits option.splits)
  show "\<not> has_room fd (aioState w)" if "0 \<le> fd" "fd < FD_SETSIZE"
    using assms that
    by (auto simp: OS_Close_def close_async_def cancel_def info_at_def inbounds_def bindr_Inl_iff Let_def has_room_def set_info_def
        AIO_RD_IX_def AIO_WR_IX_def nat_less_iff split: if_splits option.splits)
qed

text \<open>Leaving the program keeps what has been written.\<close>

lemma FCGIexit_outcome:
  assumes "bridge_exit s K L A B P O1 O2 e w" "appServerSock g = - 1 \<or> appServerSock g = s \<and> has_room s (aioState w)" "2 < s" "s < FD_SETSIZE"
  shows "outcome F (bridge_exit s K L A B P O1 O2) Q (FCGIexit e (g, w))"
  unfolding FCGIexit_def prod.case
proof (rule outcome_bindr)
  fix f assume "(if appServerSock g \<noteq> - 1 then OS_Close (appServerSock g) True w else Inr (0, w)) = Inl f"
  then show "f \<in> F" using OS_Close_fault(2) [of s True w f] assms(2-4) by (auto split: if_splits)
next
  fix x assume x: "(if appServerSock g \<noteq> - 1 then OS_Close (appServerSock g) True w else Inr (0, w)) = Inr x"
  obtain r w1 where xr: "x = (r, w1)" by (cases x)
  have "sent (conns w1 f) = sent (conns w f)" for f using x OS_Close_keeps(1) xr by (auto split: if_splits)
  moreover have "incoming STDIN_FILENO w1 = incoming STDIN_FILENO w"
    using x OS_Close_keeps(2) xr assms(2,3) by (auto simp: STDIN_FILENO_def split: if_splits)
  ultimately have "bridge_exit s K L A B P O1 O2 e (w1\<lparr>aioState := a\<rparr>)" for a
    using bridge_exit_cong [OF assms(1), of "w1\<lparr>aioState := a\<rparr>"] by simp
  then show "outcome F (bridge_exit s K L A B P O1 O2) Q
      (case x of (_, w1) \<Rightarrow> case OS_LibShutdown (cgiLibInit g) (aioState w1) of (_, a) \<Rightarrow> Inr (Exit e (w1\<lparr>aioState := a\<rparr>)))"
    by (simp add: xr split: prod.splits)
qed

text \<open>What the data say at the moment of leaving.\<close>

lemma ws_exit: "ws_data s F L B P g w \<Longrightarrow> sent_exit s L B P w"
proof -
  assume "ws_data s F L B P g w"
  then obtain cs q where *: "sent (conns w s) = P @ q" "q @ ws_pending (fromWS g) = stdin_records cs @ stdin_end (stdin_eof g)"
    "list_all stdin_chunk cs" "bytesToRead g = L - int (length (concat cs))"
    "B = concat cs @ (if webServerReadHandlerEOF g then [] else incoming STDIN_FILENO w)"
    "stdin_eof_sent g \<longrightarrow> bytesToRead g \<le> 0" "bufStop (fromWS g) \<le> BUFFLEN" unfolding ws_data_def by blast
  have "length (ws_pending (fromWS g)) \<le> BUFFLEN" using *(7) by (simp add: ws_pending_def sub_bytes_def)
  then show ?thesis unfolding sent_exit_def using *
    by (intro exI [of _ cs] exI [of _ "if webServerReadHandlerEOF g then [] else incoming STDIN_FILENO w"] exI [of _ q]
        exI [of _ "ws_pending (fromWS g)"] exI [of _ "stdin_eof g"]) (auto simp: stdin_eof_def)
qed

lemma sent_exit_end:
  "incoming STDIN_FILENO w = [] \<Longrightarrow> sent_exit s L B P w \<Longrightarrow> sent (conns w' s) = sent (conns w s) \<Longrightarrow> sent_exit s L B P w'"
  unfolding sent_exit_def by metis

lemma as_exit_error: "as_data s F A O1 O2 g w \<Longrightarrow> c \<in> K \<Longrightarrow> relay_exit K A O1 O2 c w"
  unfolding as_data_def relay_exit_def by blast

lemma corr_exit_of:
  assumes "corr g r"
  shows "exit_of r = (if exitStatusSet g then exitStatus g else FCGX_PROTOCOL_ERROR)"
  using assms by (cases "rPhase r") (auto simp: corr_def exit_of_def)

lemma relay_status:
  "rStatus r \<noteq> None \<longrightarrow> (\<exists>p. rPhase r = Ended p) \<or> rPhase r = Overrun \<Longrightarrow>
   rStatus (relay_bytes rid bs r) \<noteq> None \<longrightarrow> (\<exists>p. rPhase (relay_bytes rid bs r) = Ended p) \<or> rPhase (relay_bytes rid bs r) = Overrun"
proof (induction bs arbitrary: r)
  case (Cons b bs)
  have "rStatus (relay_byte rid b r) \<noteq> None \<longrightarrow> (\<exists>p. rPhase (relay_byte rid b r) = Ended p) \<or> rPhase (relay_byte rid b r) = Overrun"
    using Cons.prems by (cases "rPhase r") (auto simp: relay_byte_def end_body_def)
  then show ?case using Cons.IH by simp
qed simp

text \<open>Once the status is known the rest is padding.\<close>

lemma relay_rest_padding:
  assumes "rStatus (relay_bytes 1 da relay_start) \<noteq> None" "rPhase (relay_bytes 1 (da @ rest) relay_start) \<noteq> Overrun"
  shows "rOut (relay_bytes 1 (da @ rest) relay_start) = rOut (relay_bytes 1 da relay_start)"
    "rErr (relay_bytes 1 (da @ rest) relay_start) = rErr (relay_bytes 1 da relay_start)"
    "exit_of (relay_bytes 1 (da @ rest) relay_start) = exit_of (relay_bytes 1 da relay_start)"
proof -
  let ?r = "relay_bytes 1 da relay_start"
  have "rPhase ?r \<noteq> Overrun" using assms(2) by (auto simp: relay_bytes_append)
  moreover have "rStatus relay_start = None" by (simp add: relay_start_def)
  ultimately obtain p where p: "rPhase ?r = Ended p" using relay_status [of relay_start 1 da] assms(1) by auto
  show "rOut (relay_bytes 1 (da @ rest) relay_start) = rOut ?r" "rErr (relay_bytes 1 (da @ rest) relay_start) = rErr ?r"
    "exit_of (relay_bytes 1 (da @ rest) relay_start) = exit_of ?r"
    using assms(2) p unfolding relay_bytes_append relay_ended [OF p] by (auto simp: exit_of_def split: if_splits)
qed

lemma as_exit_status:
  assumes "as_data s F A O1 O2 g w" "exitStatusSet g" "rPhase (relay_bytes 1 A relay_start) \<noteq> Overrun"
  shows "relay_exit K A O1 O2 (exitStatus g) w"
proof -
  obtain da where da: "A = da @ incoming s w" "corr g (relay_bytes 1 da relay_start)"
    "sent (conns w STDOUT_FILENO) = O1 @ rOut (relay_bytes 1 da relay_start)"
    "sent (conns w STDERR_FILENO) = O2 @ rErr (relay_bytes 1 da relay_start)" using assms(1) unfolding as_data_def by blast
  have "rStatus (relay_bytes 1 da relay_start) \<noteq> None" using da(2) assms(2) by (simp add: corr_def)
  note pad = relay_rest_padding [OF this assms(3) [unfolded da(1)]]
  show ?thesis unfolding relay_exit_def
    by (intro exI [of _ A] exI [of _ "[]"])
      (use da pad corr_exit_of [OF da(2)] assms(2) in \<open>simp only: append_Nil2 if_True simp_thms\<close>)
qed

lemma as_exit_eof:
  assumes "as_data s F A O1 O2 g w" "\<not> exitStatusSet g" "incoming s w = []"
  shows "relay_exit K A O1 O2 FCGX_PROTOCOL_ERROR w"
proof -
  obtain da where da: "A = da" "corr g (relay_bytes 1 da relay_start)"
    "sent (conns w STDOUT_FILENO) = O1 @ rOut (relay_bytes 1 da relay_start)"
    "sent (conns w STDERR_FILENO) = O2 @ rErr (relay_bytes 1 da relay_start)" using assms(1,3) unfolding as_data_def by auto
  then show ?thesis unfolding relay_exit_def
    by (intro exI [of _ A] exI [of _ "[]"]) (use corr_exit_of [OF da(2)] assms(2) in simp)
qed

text \<open>The data do not depend on what is pending.\<close>

lemma ws_data_cong:
  "ws_data s F L B P g w \<Longrightarrow> fromWS g' = fromWS g \<Longrightarrow> stdin_eof_sent g' = stdin_eof_sent g \<Longrightarrow> bytesToRead g' = bytesToRead g
    \<Longrightarrow> webServerReadHandlerEOF g' = webServerReadHandlerEOF g \<Longrightarrow> sent (conns w' s) = sent (conns w s)
    \<Longrightarrow> incoming STDIN_FILENO w' = incoming STDIN_FILENO w 
    \<Longrightarrow> rdScript (conns w' STDIN_FILENO) = rdScript (conns w STDIN_FILENO) \<Longrightarrow> ws_data s F L B P g' w'"
  unfolding ws_data_def stdin_eof_def small_reads_def by (simp only:) simp

lemma corr_cong:
  "corr g r \<Longrightarrow> asHeader g' = asHeader g \<Longrightarrow> erBody g' = erBody g \<Longrightarrow> exitStatusSet g' = exitStatusSet g \<Longrightarrow> exitStatus g' = exitStatus g
    \<Longrightarrow> headerLen g' = headerLen g \<Longrightarrow> asPaddingLen g' = asPaddingLen g \<Longrightarrow> asContentLen g' = asContentLen g
    \<Longrightarrow> readingEndRequestBody g' = readingEndRequestBody g \<Longrightarrow> corr g' r"
  by (cases "rPhase r") (simp_all add: corr_def)

lemma as_data_cong:
  assumes "as_data s F A O1 O2 g w" "bufData (fromAS g') = bufData (fromAS g)" "cgiRequestId g' = cgiRequestId g"
    "asHeader g' = asHeader g" "erBody g' = erBody g" "exitStatusSet g' = exitStatusSet g" "exitStatus g' = exitStatus g"
    "headerLen g' = headerLen g" "asPaddingLen g' = asPaddingLen g" "asContentLen g' = asContentLen g"
    "readingEndRequestBody g' = readingEndRequestBody g" "\<And>f. f \<noteq> s \<Longrightarrow> sent (conns w' f) = sent (conns w f)" "s \<notin> {STDOUT_FILENO, STDERR_FILENO}"
    "\<And>f. takes_all f w \<Longrightarrow> f \<noteq> s \<Longrightarrow> takes_all f w'" "incoming s w' = incoming s w"
    "rdScript (conns w' s) = rdScript (conns w s)"
  shows "as_data s F A O1 O2 g' w'"
proof -
  obtain da where da: "A = da @ incoming s w" "corr g (relay_bytes 1 da relay_start)"
    "OutOfBounds \<notin> F \<longrightarrow> well_cut (relay_bytes 1 da relay_start) (rdScript (conns w s))"
    "sent (conns w STDOUT_FILENO) = O1 @ rOut (relay_bytes 1 da relay_start)"
    "sent (conns w STDERR_FILENO) = O2 @ rErr (relay_bytes 1 da relay_start)" using assms(1) unfolding as_data_def by blast
  have g: "length (bufData (fromAS g)) = BUFFLEN" "cgiRequestId g = 1" "takes_all STDOUT_FILENO w" "takes_all STDERR_FILENO w"
    using assms(1) by (simp_all add: as_data_def)
  show ?thesis unfolding as_data_def
    by (intro conjI exI [of _ da]) (use da g assms(2,3,12-16) corr_cong [OF da(2) assms(4-11)] in simp_all)
qed

lemma small_reads_aio [simp]: "small_reads (w\<lparr>aioState := a\<rparr>) = small_reads w" "small_reads (w\<lparr>osErrno := e\<rparr>) = small_reads w"
  by (simp_all add: small_reads_def)

lemma errors_ok_aio [simp]: "errors_ok s K (w\<lparr>aioState := a\<rparr>) = errors_ok s K w"
  by (simp add: errors_ok_def reported_def)

lemma reschedule:
  assumes "appServerSock g = s" "2 < s" "s < FD_SETSIZE" "table_ok s g (aioState w)" "fcgiReadPending g \<Longrightarrow> bufNext (fromAS g) = 0"
    "fcgiWritePending g \<Longrightarrow> bufNext (fromWS g) < bufStop (fromWS g)"
    "wsReadPending g \<Longrightarrow> bufStop (fromWS g) = 0 \<and> \<not> stdin_eof g \<and> 0 < bytesToRead g"
    "ws_data s F L B P g w" "as_data s F A O1 O2 g w"
    "exitStatusSet g \<Longrightarrow> s \<notin> readFdSetPost (aioState w)" "errors_ok s K w"
  shows "outcome F' E (bridge s F K L A B P O1 O2) (ScheduleIo (g, w))"
proof -
  have b: "bufNext (fromWS g) \<le> bufStop (fromWS g)" "bufNext (fromWS g) = bufStop (fromWS g) \<Longrightarrow> bufStop (fromWS g) = 0"
    "stdin_eof_sent g \<Longrightarrow> bytesToRead g \<le> 0" using assms(8) by (simp_all add: ws_data_def)
  obtain a where a: "ScheduleIo (g, w) = Inr (Run (scheduled g, w\<lparr>aioState := a\<rparr>))" "table_ok s (scheduled g) a"
    "readFdSetPost a = readFdSetPost (aioState w)"
    by (rule ScheduleIo_ok [OF assms(4,1-3,5) b(1)])
  have inc: "incoming f (w\<lparr>aioState := a\<rparr>) = incoming f w" for f by (simp add: incoming_def)
  have tk: "takes_all f (w\<lparr>aioState := a\<rparr>) = takes_all f w" for f by (simp add: takes_all_def)
  have "ws_data s F L B P (scheduled g) (w\<lparr>aioState := a\<rparr>)"
    by (rule ws_data_cong [OF assms(8)]) (simp_all add: scheduled_def Let_def inc)
  moreover have "as_data s F A O1 O2 (scheduled g) (w\<lparr>aioState := a\<rparr>)"
    by (rule as_data_cong [OF assms(9)]) (use assms(2) in \<open>simp_all add: scheduled_def Let_def inc tk STDOUT_FILENO_def STDERR_FILENO_def\<close>)
  moreover have f: "appServerSock (scheduled g) = s" "fcgiReadPending (scheduled g)" "bufNext (fromAS (scheduled g)) = 0"
    "fromWS (scheduled g) = fromWS g" "exitStatusSet (scheduled g) = exitStatusSet g" "stdin_eof (scheduled g) = stdin_eof g"
    "bytesToRead (scheduled g) = bytesToRead g"
    "fcgiWritePending (scheduled g) = (fcgiWritePending g \<or> bufNext (fromWS g) \<noteq> bufStop (fromWS g))"
    "wsReadPending (scheduled g) = (wsReadPending g \<or> wants_stdin (scheduled g))"
    using assms(1) by (simp_all add: scheduled_def Let_def wants_stdin_def stdin_eof_def)
  moreover have "fcgiWritePending (scheduled g) \<longleftrightarrow> bufNext (fromWS g) < bufStop (fromWS g)" using f(8) assms(6) b(1) by auto
  moreover have "wants_stdin (scheduled g) \<Longrightarrow> bufStop (fromWS g) = 0 \<and> \<not> stdin_eof g \<and> 0 < bytesToRead g"
    using b(2,3) f(4,7,8) by (auto simp: wants_stdin_def stdin_eof_def scheduled_def Let_def)
  ultimately have "bridge s F K L A B P O1 O2 (scheduled g, w\<lparr>aioState := a\<rparr>)"
    unfolding bridge_def prod.case using a(2,3) assms(7,10,11) by simp
  then show ?thesis by (simp add: a(1))
qed

section \<open>Writing to the application server\<close>

lemma bridgeD:
  assumes "bridge s F K L A B P O1 O2 (g, w)"
  shows "appServerSock g = s" "aio_ok (aioState w)" "posted_ok (aioState w)" "entries_ok s g (aioState w)" "fcgiReadPending g"
    "bufNext (fromAS g) = 0" "fcgiWritePending g \<longleftrightarrow> bufNext (fromWS g) < bufStop (fromWS g)"
    "wsReadPending g \<Longrightarrow> bufStop (fromWS g) = 0 \<and> \<not> stdin_eof g \<and> 0 < bytesToRead g"
    "ws_data s F L B P g w" "as_data s F A O1 O2 g w" "\<not> shutdownNow w"
    "exitStatusSet g \<Longrightarrow> s \<notin> readFdSetPost (aioState w)" "errors_ok s K w"
  using assms by (auto simp: bridge_def table_ok_def as_data_def takes_all_def)

lemma room_entry:
  assumes "aio_ok a" "entry_at (AIO_RD_IX s) a = Some x" "0 \<le> s"
  shows "has_room s a"
proof -
  obtain t where t: "asyncIoTable a = Some t" "even (length t)" using assms(1) by (rule aio_okE)
  then have "nat (2 * s) < length t" using assms(2) by (simp add: entry_at_def AIO_RD_IX_def mult.commute split: if_splits)
  then have "2 * s < int (length t)" using assms(3) by linarith
  moreover have "2 * s + 1 \<noteq> int (length t)" using t(2) by (metis dvd_triv_left even_of_nat even_plus_one_iff)
  ultimately show ?thesis using t(1) by (simp add: has_room_def)
qed

lemma bridge_room:
  assumes "bridge s F K L A B P O1 O2 (g, w)" "2 < s"
  shows "has_room s (aioState w)"
  using bridgeD(2,4,5) [OF assms(1)] assms(2) by (intro room_entry [where x = "as_op s"]) (simp_all add: entries_ok_def)

lemma room_keeps [simp]:
  "has_room s (dispatched_rd fd x a) = has_room s a" "has_room s (dispatched_wr fd x a) = has_room s a"
  by (auto simp: has_room_def dispatched_rd_def dispatched_wr_def set_info_def)

text \<open>A failed system call reports one of the errors it has to report, and no call adds any.\<close>

lemma write_errors:
  assumes "posix_write fd bs w = (len, w')" "errors_ok s K w" "fd = s \<or> fd = STDIN_FILENO"
  shows "errors_ok s K w'" "len < 0 \<Longrightarrow> osErrno w' \<in> K"
  using assms by (auto simp: posix_write_def errors_ok_def reported_def Let_def split: if_splits list.splits wr_event.splits)

lemma read_errors:
  assumes "posix_read fd n w = (len, bs, w')" "errors_ok s K w" "fd = s \<or> fd = STDIN_FILENO"
  shows "errors_ok s K w'" "len < 0 \<Longrightarrow> osErrno w' \<in> K"
  using assms by (auto simp: posix_read_def errors_ok_def reported_def Let_def split: if_splits list.splits rd_event.splits)

lemma errors_ok_sys:
  "errors_ok s K w' \<Longrightarrow> conns w = conns w' \<Longrightarrow> errors_ok s K w"
  by (simp add: errors_ok_def reported_def)

lemma posix_write_effect:
  assumes "posix_write fd bs w = (len, w')" "\<not> shutdownNow w"
  shows "len < 0 \<Longrightarrow> sent (conns w' fd) = sent (conns w fd)"
    "0 \<le> len \<Longrightarrow> sent (conns w' fd) = sent (conns w fd) @ take (nat len) bs \<and> len \<le> int (length bs)"
    "f \<noteq> fd \<Longrightarrow> conns w' f = conns w f" "incoming f w' = incoming f w" "aioState w' = aioState w" "shutdownNow w' = shutdownNow w"
    "rdScript (conns w' f) = rdScript (conns w f)"
  using assms by (auto simp: posix_write_def incoming_def Let_def min_def split: if_splits list.splits wr_event.splits)

lemma aioState_release [simp]: "conns (release ix x w) = conns w" "shutdownNow (release ix x w) = shutdownNow w"
    "aioState (release ix x w) = set_info ix (x\<lparr>procPtr := 0, inUse := False\<rparr>) (aioState w)" "osErrno (release ix x w) = osErrno w"
  by (simp_all add: release_def)

lemma incoming_release [simp]: "incoming f (release ix x w) = incoming f w"
    "small_reads (release ix x w) = small_reads w" "errors_ok s K (release ix x w) = errors_ok s K w"
  by (simp_all add: incoming_def small_reads_def errors_ok_def reported_def)

lemma posted_dispatched:
  assumes "posted_ok a" "0 \<le> fd" "aio_ok a"
  shows "posted_ok (dispatched_rd fd x a)" "posted_ok (dispatched_wr fd x a)"
proof -
  have nn: "0 \<le> AIO_RD_IX f \<and> 0 \<le> AIO_WR_IX f" if "f \<in> readFdSetPost a \<union> writeFdSetPost a" for f
    using assms(3) that by (auto simp: AIO_RD_IX_def AIO_WR_IX_def aio_ok_def)
  have sets: "readFdSet (dispatched_rd fd x a) = readFdSet a" "writeFdSet (dispatched_rd fd x a) = writeFdSet a"
    "readFdSetPost (dispatched_rd fd x a) = readFdSetPost a - {fd}" "writeFdSetPost (dispatched_rd fd x a) = writeFdSetPost a"
    "readFdSet (dispatched_wr fd x a) = readFdSet a" "writeFdSet (dispatched_wr fd x a) = writeFdSet a"
    "readFdSetPost (dispatched_wr fd x a) = readFdSetPost a" "writeFdSetPost (dispatched_wr fd x a) = writeFdSetPost a - {fd}"
    by (simp_all add: dispatched_rd_def dispatched_wr_def set_info_def)
  show "posted_ok (dispatched_rd fd x a)" "posted_ok (dispatched_wr fd x a)"
    using assms(1,2) nn rd_inj rd_wr_apart by (auto simp: posted_ok_def sets entry_dispatched)
qed

text \<open>Only the three operations of \<open>ScheduleIo\<close> are ever in the table.\<close>

lemma posted_write_entry:
  assumes "bridge s F K L A B P O1 O2 (g, w)" "fd \<in> writeFdSetPost (aioState w)"
  shows "fd = s \<and> fcgiWritePending g \<and> entry_at (AIO_WR_IX s) (aioState w) = Some (wr_op s (fromWS g))"
proof -
  note b = bridgeD [OF assms(1)]
  have "0 \<le> fd" using b(2) assms(2) by (auto simp: aio_ok_def)
  then have "0 \<le> AIO_WR_IX fd" by (simp add: AIO_WR_IX_def)
  moreover have "entry_at (AIO_WR_IX fd) (aioState w) \<noteq> None" using b(3) assms(2) by (auto simp: posted_ok_def)
  ultimately have "AIO_WR_IX fd \<in> {AIO_RD_IX s, AIO_WR_IX s, AIO_RD_IX STDIN_FILENO}" using b(4) unfolding entries_ok_def by metis
  then have "fd = s" using rd_inj rd_wr_apart by auto
  with \<open>entry_at (AIO_WR_IX fd) (aioState w) \<noteq> None\<close> b(4) show ?thesis by (auto simp: entries_ok_def split: if_splits)
qed

lemma posted_read_entry:
  assumes "bridge s F K L A B P O1 O2 (g, w)" "fd \<in> readFdSetPost (aioState w)"
  shows "fd = s \<and> entry_at (AIO_RD_IX s) (aioState w) = Some (as_op s)
    \<or> fd = STDIN_FILENO \<and> wsReadPending g \<and> entry_at (AIO_RD_IX STDIN_FILENO) (aioState w) = Some ws_op"
proof -
  note b = bridgeD [OF assms(1)]
  have "0 \<le> fd" using b(2) assms(2) by (auto simp: aio_ok_def)
  then have "0 \<le> AIO_RD_IX fd" by (simp add: AIO_RD_IX_def)
  moreover have "entry_at (AIO_RD_IX fd) (aioState w) \<noteq> None" using b(3) assms(2) by (auto simp: posted_ok_def)
  ultimately have "AIO_RD_IX fd \<in> {AIO_RD_IX s, AIO_WR_IX s, AIO_RD_IX STDIN_FILENO}" using b(4) unfolding entries_ok_def by metis
  then have "fd = s \<or> fd = STDIN_FILENO" using rd_inj rd_wr_apart by auto
  with \<open>entry_at (AIO_RD_IX fd) (aioState w) \<noteq> None\<close> b(4,5) show ?thesis by (auto simp: entries_ok_def split: if_splits)
qed

lemma ws_pending_drop: "n \<le> bufStop b - bufNext b \<Longrightarrow> ws_pending (b\<lparr>bufNext := bufNext b + n\<rparr>) = drop n (ws_pending b)"
  by (simp add: ws_pending_def sub_bytes_def drop_take add.commute)

lemma length_ws_pending: "bufStop b \<le> length (bufData b) \<Longrightarrow> length (ws_pending b) = bufStop b - bufNext b"
  by (simp add: ws_pending_def sub_bytes_def)

lemma callout_cgi [simp]:
  "callout cgi_client PROC_AppServerRead cd len st = AppServerReadHandler len st"
  "callout cgi_client PROC_WebServerRead cd len st = WebServerReadHandler len st"
  "callout cgi_client PROC_AppServerWrite cd len st = AppServerWriteHandler len st"
  by (simp_all add: cgi_client_def PROC_AppServerRead_def PROC_WebServerRead_def PROC_AppServerWrite_def)

lemma ops [simp]:
  "aioFd (as_op s) = s" "aioLen (as_op s) = int BUFFLEN" "aioBuf (as_op s) = FROM_AS" "procPtr (as_op s) = PROC_AppServerRead"
  "aioFd (wr_op s b) = s" "aioLen (wr_op s b) = int (bufStop b) - int (bufNext b)" "aioBuf (wr_op s b) = FROM_WS + int (bufNext b)"
  "procPtr (wr_op s b) = PROC_AppServerWrite"
  "aioFd ws_op = STDIN_FILENO" "aioLen ws_op = int BUFFLEN - 8" "aioBuf ws_op = FROM_WS + 8" "procPtr ws_op = PROC_WebServerRead"
  by (simp_all add: as_op_def wr_op_def ws_op_def posting_def)

lemma do_write_bridge:
  assumes "bridge s F K L A B P O1 O2 (g, w)" "2 < s" "s < FD_SETSIZE"
  shows "outcome F (bridge_exit s K L A B P O1 O2) (bridge s F K L A B P O1 O2) (do_write cgi_client fd (g, w))"
proof (cases "fd \<in> writeFdSetPost (aioState w)")
  case False
  then show ?thesis using assms(1) by (simp add: do_write_def)
next
  case True
  note b = bridgeD [OF assms(1)]
  let ?x = "wr_op s (fromWS g)" and ?b = "fromWS g"
  let ?w1 = "w\<lparr>aioState := (aioState w)\<lparr>numWrPosted := numWrPosted (aioState w) - 1, writeFdSetPost := writeFdSetPost (aioState w) - {s}\<rparr>\<rparr>"
  have fd: "fd = s" and pend: "fcgiWritePending g" and ent: "entry_at (AIO_WR_IX s) (aioState w) = Some ?x"
    using posted_write_entry [OF assms(1) True] by auto
  have buf: "bufNext ?b < bufStop ?b" "bufStop ?b \<le> BUFFLEN" "length (bufData ?b) = BUFFLEN" using b(7,9) pend by (auto simp: ws_data_def)
  obtain len w2 where wr: "posix_write s (ws_pending ?b) ?w1 = (len, w2)" by fastforce
  note eff = posix_write_effect [OF wr]
  let ?w3 = "release (AIO_WR_IX s) ?x w2"
  have info: "info_at (aioState w) (AIO_WR_IX s) = Inr ?x" "inUse ?x" using entry_inUse [OF ent] by auto
  have len: "nat (int (bufStop ?b) - int (bufNext ?b)) = bufStop ?b - bufNext ?b" using buf by simp
  have "peek cgi_client (FROM_WS + int (bufNext ?b)) (bufStop ?b - bufNext ?b) g = Inr (ws_pending ?b)"
    using buf by (simp add: cgi_client_def in_buffer_def ws_pending_def)
  then have run: "do_write cgi_client fd (g, w) = AppServerWriteHandler len (g, ?w3)"
    using True wr by (simp add: do_write_def fd Let_def info len)
  have st: "aioState ?w3 = dispatched_wr s ?x (aioState w)" using eff(5) b(11) by (simp add: dispatched_wr_def)
  let ?g = "g\<lparr>fcgiWritePending := False\<rparr>"
  have snotin: "s \<notin> writeFdSet (aioState w)" using b(3) True fd by (auto simp: posted_ok_def)
  have s0: "0 \<le> s" using assms(2) by simp
  have post: "readFdSetPost (aioState ?w3) = readFdSetPost (aioState w)" "has_room s (aioState ?w3)"
    using bridge_room [OF assms(1,2)] unfolding st room_keeps by (simp_all add: dispatched_wr_def set_info_def)
  have errs: "errors_ok s K ?w3" "len < 0 \<Longrightarrow> osErrno ?w3 \<in> K"
    using write_errors [OF wr, of s K] b(13) by simp_all
  have tab: "table_ok s (?g\<lparr>fromWS := c\<rparr>) (aioState ?w3)" for c
    using aio_ok_dispatched_wr [OF b(2) snotin s0] posted_dispatched(2) [OF b(3) s0 b(2)] b(4) s0
      rd_wr_apart stdin_apart [OF assms(2)]
    unfolding st table_ok_def entries_ok_def by (simp add: entry_dispatched AIO_RD_IX_def AIO_WR_IX_def STDIN_FILENO_def) 
  have asd: "as_data s F A O1 O2 (?g\<lparr>fromWS := c\<rparr>) ?w3" for c
    by (rule as_data_cong [OF b(10)])
      (use eff(3,4,6,7) b(11) assms(2) in \<open>simp_all add: takes_all_def STDOUT_FILENO_def STDERR_FILENO_def\<close>)
  have inc: "incoming STDIN_FILENO ?w3 = incoming STDIN_FILENO w" using eff(4) b(11) by simp
  show ?thesis
  proof (cases "len < 0")
    case True
    have "ws_data s F L B P (?g\<lparr>fromWS := ?b\<rparr>) ?w3"
      by (rule ws_data_cong [OF b(9)]) (use eff(1,7) True b(11) inc in simp_all)
    then have "bridge_exit s K L A B P O1 O2 (osErrno ?w3) ?w3"
      using ws_exit as_exit_error [OF asd errs(2) [OF True]] by (simp add: bridge_exit_def)
    from FCGIexit_outcome [OF this _ assms(2,3), where Q = "bridge s F K L A B P O1 O2"] show ?thesis using True run buf pend b(1) post(2)
      by (simp add: AppServerWriteHandler_def Let_def)
  next
    case False
    define n where "n = nat len"
    then have n: "len = int n" "n \<le> length (ws_pending ?b)" "sent (conns ?w3 s) = sent (conns w s) @ take n (ws_pending ?b)"
      using False eff(2) b(11) by auto
    have lp: "length (ws_pending ?b) = bufStop ?b - bufNext ?b" using length_ws_pending buf by simp
    define c where "c = (if n < bufStop ?b - bufNext ?b then ?b\<lparr>bufNext := bufNext ?b + n\<rparr> else ?b\<lparr>bufNext := 0, bufStop := 0\<rparr>)"
    have pc: "ws_pending c = drop n (ws_pending ?b)"
      using n(2) lp ws_pending_drop [of n ?b] by (auto simp: c_def ws_pending_def)
    have cb: "length (bufData c) = BUFFLEN" "bufNext c \<le> bufStop c" "bufStop c \<le> BUFFLEN" "bufNext c = bufStop c \<Longrightarrow> bufStop c = 0"
      using buf by (auto simp: c_def split: if_splits)
    obtain cs q where cs: "sent (conns w s) = P @ q" "q @ ws_pending ?b = stdin_records cs @ stdin_end (stdin_eof g)" "list_all stdin_chunk cs"
      "bytesToRead g = L - int (length (concat cs))" "B = concat cs @ (if webServerReadHandlerEOF g then [] else incoming STDIN_FILENO w)"
      "stdin_eof_sent g \<longrightarrow> bytesToRead g \<le> 0" "OutOfBounds \<notin> F \<longrightarrow> small_reads w" using b(9) unfolding ws_data_def by blast
    have "sent (conns ?w3 s) = P @ q @ take n (ws_pending ?b)" using n(3) cs(1) by simp
    moreover have "(q @ take n (ws_pending ?b)) @ ws_pending c = stdin_records cs @ stdin_end (stdin_eof (?g\<lparr>fromWS := c\<rparr>))"
      using cs(2) pc by (simp add: stdin_eof_def)
    moreover have "small_reads ?w3 = small_reads w" using eff(7) b(11) by (simp add: small_reads_def)
    ultimately have "ws_data s F L B P (?g\<lparr>fromWS := c\<rparr>) ?w3"
      unfolding ws_data_def inc using cb cs(3-7) by (intro conjI exI [of _ cs] exI [of _ "q @ take n (ws_pending ?b)"]) simp_all
    then have "outcome F (bridge_exit s K L A B P O1 O2) (bridge s F K L A B P O1 O2) (ScheduleIo (?g\<lparr>fromWS := c\<rparr>, ?w3))"
      by (intro reschedule [OF _ assms(2,3) tab]) (use b asd buf pend post errs in simp_all)
    moreover have "AppServerWriteHandler len (g, ?w3) = ScheduleIo (?g\<lparr>fromWS := c\<rparr>, ?w3)"
      using n(1) pend buf by (auto simp: AppServerWriteHandler_def Let_def c_def)
    ultimately show ?thesis by (simp add: run)
  qed
qed

section \<open>Reading the standard input\<close>

lemma posix_read_effect:
  assumes "posix_read fd n w = (len, bs, w')" "\<not> shutdownNow w" "0 < n"
  shows "len \<le> 0 \<Longrightarrow> incoming fd w = []"
    "0 < len \<Longrightarrow> len = int (length bs) \<and> bs \<noteq> [] \<and> length bs \<le> n \<and> incoming fd w = bs @ incoming fd w'"
    "f \<noteq> fd \<Longrightarrow> conns w' f = conns w f" "sent (conns w' f) = sent (conns w f)" "wrScript (conns w' f) = wrScript (conns w f)"
    "isOpen (conns w' f) = isOpen (conns w f)" "aioState w' = aioState w" "shutdownNow w' = shutdownNow w"
    "length bs \<le> n" "len \<le> 0 \<Longrightarrow> bs = []" "f \<noteq> fd \<Longrightarrow> rdScript (conns w' f) = rdScript (conns w f)"
    "small_reads w \<Longrightarrow> small_reads w'" "small_reads w \<Longrightarrow> fd = STDIN_FILENO \<Longrightarrow> length bs \<le> BUFFLEN - 16"
proof -
  have rd: "OS_Read fd n w = (len, bs, w')" using assms by (simp add: OS_Read_def)
  show "len \<le> 0 \<Longrightarrow> incoming fd w = []"
    "0 < len \<Longrightarrow> len = int (length bs) \<and> bs \<noteq> [] \<and> length bs \<le> n \<and> incoming fd w = bs @ incoming fd w'"
    using OS_Read_incoming [OF rd assms(3)] by blast+
  have w': "w' = w \<or> (\<exists>e r. w' = w\<lparr>osErrno := e\<rparr> \<or> w' = w\<lparr>osErrno := e, conns := (conns w)(fd := (conns w fd)\<lparr>rdScript := r\<rparr>)\<rparr>
      \<or> w' = w\<lparr>conns := (conns w)(fd := (conns w fd)\<lparr>rdScript := r\<rparr>)\<rparr>)"
    using assms(1) by (auto simp: posix_read_def Let_def split: if_splits list.splits rd_event.splits)
  then show "f \<noteq> fd \<Longrightarrow> conns w' f = conns w f" "sent (conns w' f) = sent (conns w f)" "wrScript (conns w' f) = wrScript (conns w f)"
    "isOpen (conns w' f) = isOpen (conns w f)" "aioState w' = aioState w" "shutdownNow w' = shutdownNow w"
    "f \<noteq> fd \<Longrightarrow> rdScript (conns w' f) = rdScript (conns w f)"
    by (elim disjE exE; simp)+
  show "small_reads w \<Longrightarrow> small_reads w'" "small_reads w \<Longrightarrow> fd = STDIN_FILENO \<Longrightarrow> length bs \<le> BUFFLEN - 16"
    using assms(1) by (auto simp: posix_read_def small_reads_def Let_def min_le_iff_disj split: if_splits list.splits rd_event.splits)
      (metis diff_le_self le_trans)+
  show "length bs \<le> n" "len \<le> 0 \<Longrightarrow> bs = []" using assms(1,3)
    by (auto simp: posix_read_def Let_def split: if_splits list.splits rd_event.splits)
qed

lemma incoming_conns: "conns w' f = conns w f \<Longrightarrow> shutdownNow w' = shutdownNow w \<Longrightarrow> incoming f w' = incoming f w"
  by (simp add: incoming_def)

lemma WriteStdinEof_eq:
  "cgiRequestId g = 1 \<Longrightarrow> \<not> stdin_eof_sent g \<Longrightarrow> WriteStdinEof g = inbounds (bufStop (fromWS g) + 8 \<le> BUFFLEN)
     (Inr (g\<lparr>fromWS := (fromWS g)\<lparr>bufData := put_bytes (bufStop (fromWS g)) (stdin_end True) (bufData (fromWS g)),
        bufStop := bufStop (fromWS g) + 8\<rparr>, stdin_eof_sent := True\<rparr>))"
  using MakeHeader_for [of 0 0 FCGI_STDIN 1] by (simp add: WriteStdinEof_def stdin_end_def)

lemma pending_put:
  assumes "bufNext b = 0" "bufStop b = 0" "length (bufData b) = BUFFLEN" "8 + length bs \<le> BUFFLEN" "length hb = 8"
  shows "ws_pending (b\<lparr>bufData := put_bytes 0 hb (put_bytes 8 bs (bufData b)), bufStop := 8 + length bs\<rparr>) = hb @ bs"
    "length (put_bytes 0 hb (put_bytes 8 bs (bufData b))) = BUFFLEN"
  using assms by (simp_all add: ws_pending_def sub_bytes_def put_bytes_def)

lemma pending_eof:
  assumes "bufNext b = 0" "length (bufData b) = BUFFLEN" "bufStop b + length hb \<le> BUFFLEN"
  shows "ws_pending (b\<lparr>bufData := put_bytes (bufStop b) hb (bufData b), bufStop := bufStop b + length hb\<rparr>) = ws_pending b @ hb"
  using assms take_put_bytes [of "bufStop b" hb "bufData b"] by (simp add: ws_pending_def sub_bytes_def)

lemma length_stdin_end: "length (stdin_end True) = 8"
  by (simp add: stdin_end_def)

text \<open>The records after the handler has taken the bytes \<open>bs\<close>; it runs past the end of its buffer when an end-of-stream header does not
  fit behind them.\<close>

lemma WebServerReadHandler_outcome:
  assumes "appServerSock g = s" "2 < s" "s < FD_SETSIZE" "table_ok s (g\<lparr>wsReadPending := False\<rparr>) (aioState w)"
    "fcgiReadPending g" "bufNext (fromAS g) = 0" "\<not> fcgiWritePending g" "wsReadPending g"
    "bufNext (fromWS g) = 0" "bufStop (fromWS g) = 0" "length (bufData (fromWS g)) = BUFFLEN"
    "\<not> stdin_eof g" "0 < bytesToRead g" "as_data s F A O1 O2 g w" "8 + length bs \<le> BUFFLEN"
    "sent (conns w s) = P @ stdin_records cs" "list_all stdin_chunk cs" "B = concat cs @ bs @ (if bs = [] then [] else incoming STDIN_FILENO w)"
    "bytesToRead g = L - int (length (concat cs))" "OutOfBounds \<notin> F \<Longrightarrow> small_reads w \<and> length bs \<le> BUFFLEN - 16"
    "exitStatusSet g \<Longrightarrow> s \<notin> readFdSetPost (aioState w)" "errors_ok s K w"
  shows "outcome F (bridge_exit s K L A B P O1 O2) (bridge s F K L A B P O1 O2)
    (WebServerReadHandler (int (length bs)) (g\<lparr>fromWS := (fromWS g)\<lparr>bufData := put_bytes 8 bs (bufData (fromWS g))\<rparr>\<rparr>, w))"
proof -
  let ?h = "header_for FCGI_STDIN 1 (length bs) 0" and ?d = "put_bytes 8 bs (bufData (fromWS g))"
  let ?b = "(fromWS g)\<lparr>bufData := put_bytes 0 (header_bytes ?h) ?d, bufStop := 8 + length bs\<rparr>"
  let ?g2 = "g\<lparr>wsReadPending := False, fromWS := ?b, bytesToRead := bytesToRead g - int (length bs), webServerReadHandlerEOF := (bs = [])\<rparr>"
  have rid: "cgiRequestId g = 1" using assms(14) by (simp add: as_data_def)
  have mh: "MakeHeader FCGI_STDIN 1 (int (length bs)) 0 = Inr ?h"
    using MakeHeader_for [of "length bs" 0 FCGI_STDIN 1] assms(15) by (simp add: BUFFLEN_def)
  have run: "WebServerReadHandler (int (length bs)) (g\<lparr>fromWS := (fromWS g)\<lparr>bufData := ?d\<rparr>\<rparr>, w) =
      bindr (if bytesToRead ?g2 \<le> 0 then WriteStdinEof ?g2 else Inr ?g2) (\<lambda>g3. ScheduleIo (g3, w))"
    using assms(8-11) mh rid by (simp add: WebServerReadHandler_def Let_def cong: if_cong)
  have pend: "ws_pending ?b = header_bytes ?h @ bs" "length (bufData ?b) = BUFFLEN"
    using pending_put [OF assms(9-11,15), of "header_bytes ?h"] by simp_all
  have tab: "table_ok s g3 (aioState w)"
    if "fcgiReadPending g3 = fcgiReadPending g" "\<not> fcgiWritePending g3" "\<not> wsReadPending g3" for g3
    using assms(4,7) that by (simp add: table_ok_def entries_ok_def)
  have go: "outcome F (bridge_exit s K L A B P O1 O2) (bridge s F K L A B P O1 O2) (ScheduleIo (g3, w))"
    if "ws_data s F L B P g3 w" "g3 = ?g2\<lparr>fromWS := c, stdin_eof_sent := f\<rparr>" for g3 c f
  proof (rule reschedule [OF _ assms(2,3) tab])
    show "as_data s F A O1 O2 g3 w"
      by (rule as_data_cong [OF assms(14)]) (use that(2) assms(2) in \<open>simp_all add: STDOUT_FILENO_def STDERR_FILENO_def\<close>)
  qed (use that assms in simp_all)
  have eof: "\<not> stdin_eof_sent g" using assms(12) by (simp add: stdin_eof_def)
  show ?thesis
  proof (cases "bs = []")
    case True
    have "ws_data s F L B P ?g2 w"
      unfolding ws_data_def using True assms(9,13,16-20) pend eof
      by (intro conjI exI [of _ cs] exI [of _ "stdin_records cs"]) (simp_all add: stdin_eof_def stdin_end_def BUFFLEN_def)
    then show ?thesis unfolding run using True assms(13) go [of ?g2 "stdin_eof_sent g" ?b] by simp
  next
    case False
    have chunk: "stdin_chunk bs" using False assms(15) by (simp add: stdin_chunk_def)
    have rec: "stdin_records (cs @ [bs]) = stdin_records cs @ header_bytes ?h @ bs" by (simp add: stdin_records_def rec_bytes_def)
    have data: "ws_data s F L B P ?g2 w"
      unfolding ws_data_def using False assms(9,15-20) pend eof chunk
      by (intro conjI exI [of _ "cs @ [bs]"] exI [of _ "stdin_records cs"]) (simp_all add: rec stdin_eof_def stdin_end_def)
    show ?thesis
    proof (cases "bytesToRead ?g2 \<le> 0")
      case True
      let ?c = "?b\<lparr>bufData := put_bytes (bufStop ?b) (stdin_end True) (bufData ?b), bufStop := bufStop ?b + 8\<rparr>"
      let ?g3 = "?g2\<lparr>fromWS := ?c, stdin_eof_sent := True\<rparr>"
      have w: "WriteStdinEof ?g2 = inbounds (bufStop ?b + 8 \<le> BUFFLEN) (Inr ?g3)"
        using WriteStdinEof_eq [of ?g2] rid eof by simp
      show ?thesis
      proof (cases "bufStop ?b + 8 \<le> BUFFLEN")
        case fits: True
        have "ws_pending ?c = (header_bytes ?h @ bs) @ stdin_end True"
          using pending_eof [of ?b "stdin_end True"] fits assms(9) pend by (simp add: length_stdin_end)
        moreover have "length (bufData ?c) = BUFFLEN" using fits pend(2) by (simp add: length_stdin_end)
        ultimately have "ws_data s F L B P ?g3 w"
          unfolding ws_data_def using False assms(9,16-20) True fits chunk
          by (intro conjI exI [of _ "cs @ [bs]"] exI [of _ "stdin_records cs"]) (simp_all add: rec stdin_eof_def)
        then show ?thesis unfolding run using True w fits go [of ?g3 True ?c] by simp
      next
        case over: False
        then have "OutOfBounds \<in> F" using assms(20) by (auto simp: BUFFLEN_def)
        then show ?thesis using True w over by (simp add: run)
      qed
    next
      case no: False
      then show ?thesis unfolding run using data go [of ?g2 "stdin_eof_sent g" ?b] by simp
    qed
  qed
qed

text \<open>The state in which the completion procedure of a read is called.\<close>

lemma dispatched_table:
  assumes "bridge s F K L A B P O1 O2 (g, w)" "2 < s" "fd \<in> readFdSetPost (aioState w)"
    "fcgiReadPending g' = (fcgiReadPending g \<and> fd \<noteq> s)" "wsReadPending g' = (wsReadPending g \<and> fd \<noteq> STDIN_FILENO)"
    "fcgiWritePending g' = fcgiWritePending g" "fromWS g' = fromWS g"
  shows "table_ok s g' (dispatched_rd fd x (aioState w))"
proof -
  note b = bridgeD [OF assms(1)]
  have fd: "fd = s \<or> fd = STDIN_FILENO" "0 \<le> fd" using posted_read_entry [OF assms(1,3)] assms(2) by (auto simp: STDIN_FILENO_def)
  have "fd \<notin> readFdSet (aioState w)" using b(3) assms(3) by (auto simp: posted_ok_def)
  then have "aio_ok (dispatched_rd fd x (aioState w))" "posted_ok (dispatched_rd fd x (aioState w))"
    using aio_ok_dispatched_rd [OF b(2) _ fd(2)] posted_dispatched(1) [OF b(3) fd(2) b(2)] by auto
  moreover have "entries_ok s g' (dispatched_rd fd x (aioState w))"
    using b(4) assms(2,4-7) fd rd_wr_apart stdin_apart [OF assms(2)]
    by (auto simp: entries_ok_def entry_dispatched rd_inj AIO_RD_IX_def AIO_WR_IX_def STDIN_FILENO_def)
  ultimately show ?thesis by (simp add: table_ok_def)
qed

lemma do_read_stdin:
  assumes "bridge s F K L A B P O1 O2 (g, w)" "2 < s" "s < FD_SETSIZE" "STDIN_FILENO \<in> readFdSetPost (aioState w)"
  shows "outcome F (bridge_exit s K L A B P O1 O2) (bridge s F K L A B P O1 O2) (do_read cgi_client STDIN_FILENO (g, w))"
proof -
  note b = bridgeD [OF assms(1)]
  have pend: "wsReadPending g" and ent: "entry_at (AIO_RD_IX STDIN_FILENO) (aioState w) = Some ws_op"
    using posted_read_entry [OF assms(1,4)] assms(2) by (auto simp: STDIN_FILENO_def)
  have info: "info_at (aioState w) (AIO_RD_IX STDIN_FILENO) = Inr ws_op" "inUse ws_op" using entry_inUse [OF ent] by auto
  have st: "bufStop (fromWS g) = 0" "\<not> stdin_eof g" "0 < bytesToRead g" using b(8) pend by auto
  have buf: "bufNext (fromWS g) = 0" "length (bufData (fromWS g)) = BUFFLEN" "\<not> fcgiWritePending g"
    using b(7,9) st(1) by (auto simp: ws_data_def)
  let ?w1 = "w\<lparr>aioState := (aioState w)\<lparr>numRdPosted := numRdPosted (aioState w) - 1,
      readFdSetPost := readFdSetPost (aioState w) - {STDIN_FILENO}\<rparr>\<rparr>"
  obtain len bs w2 where rd: "posix_read STDIN_FILENO (BUFFLEN - 8) ?w1 = (len, bs, w2)" using prod_cases3 by blast
  have "0 < BUFFLEN - 8" by (simp add: BUFFLEN_def)
  note eff = posix_read_effect [OF rd _ this]
  have sh: "\<not> shutdownNow ?w1" using b(11) by simp
  let ?w3 = "release (AIO_RD_IX STDIN_FILENO) ws_op w2"
  let ?g = "g\<lparr>fromWS := (fromWS g)\<lparr>bufData := put_bytes 8 bs (bufData (fromWS g))\<rparr>\<rparr>"
  have lb: "8 + length bs \<le> BUFFLEN" using eff(9) [OF sh] by (simp add: BUFFLEN_def)
  then have "poke cgi_client (FROM_WS + 8) bs g = Inr ?g"
    by (simp add: cgi_client_def in_buffer_def FROM_WS_def FROM_AS_def BUFFLEN_def)
  moreover have "nat (int BUFFLEN - 8) = BUFFLEN - 8" by simp
  ultimately have run: "do_read cgi_client STDIN_FILENO (g, w) = WebServerReadHandler len (?g, ?w3)"
    using assms(4) rd by (simp add: do_read_def Let_def info)
  obtain cs where cs: "sent (conns w s) = P @ stdin_records cs" "list_all stdin_chunk cs" "B = concat cs @ incoming STDIN_FILENO w"
    "bytesToRead g = L - int (length (concat cs))"
  proof -
    have "ws_pending (fromWS g) = []" "\<not> webServerReadHandlerEOF g" "stdin_end (stdin_eof g) = []"
      using st by (simp_all add: ws_pending_def stdin_eof_def stdin_end_def)
    with b(9) that show thesis unfolding ws_data_def by auto
  qed
  have small: "OutOfBounds \<notin> F \<Longrightarrow> small_reads ?w3 \<and> length bs \<le> BUFFLEN - 16"
    using b(9) eff(12,13) [OF sh] by (simp add: ws_data_def)
  have st3: "aioState ?w3 = dispatched_rd STDIN_FILENO ws_op (aioState w)" using eff(7) [OF sh] by (simp add: dispatched_rd_def)
  have post: "exitStatusSet g \<Longrightarrow> s \<notin> readFdSetPost (aioState ?w3)" "has_room s (aioState ?w3)"
    using b(12) bridge_room [OF assms(1,2)] unfolding st3 room_keeps by (simp_all add: dispatched_rd_def set_info_def)
  have errs: "errors_ok s K ?w3" "len < 0 \<Longrightarrow> osErrno ?w3 \<in> K"
    using read_errors [OF rd, of s K] b(13) by simp_all
  have asd: "as_data s F A O1 O2 g ?w3"
    by (rule as_data_cong [OF b(10)])
      (use eff(3-8,11) [OF sh] assms(2) in \<open>simp_all add: takes_all_def STDOUT_FILENO_def STDERR_FILENO_def STDIN_FILENO_def incoming_def\<close>)
  show ?thesis
  proof (cases "len < 0")
    case True
    have "incoming STDIN_FILENO w = []" using eff(1) [OF sh] True by simp
    then have "sent_exit s L B P ?w3"
      using ws_exit [OF b(9)] sent_exit_end [of w s L B P ?w3] eff(4) [OF sh] by simp
    then have "bridge_exit s K L A B P O1 O2 (osErrno ?w3) ?w3"
      using as_exit_error [OF asd errs(2) [OF True]] by (simp add: bridge_exit_def)
    from FCGIexit_outcome [OF this _ assms(2,3), where Q = "bridge s F K L A B P O1 O2"] show ?thesis
      unfolding run using True pend st buf b(1) post(2) by (simp add: WebServerReadHandler_def Let_def)
  next
    case False
    have len: "len = int (length bs)" using eff(2,10) [OF sh] False by (cases "0 < len") auto
    have inc: "incoming STDIN_FILENO w = bs @ (if bs = [] then [] else incoming STDIN_FILENO w2)"
    proof (cases "bs = []")
      case True
      then show ?thesis using eff(1) [OF sh] len by simp
    next
      case False
      then have "0 < len" using len by simp
      from eff(2) [OF sh this] show ?thesis using False by (simp only: incoming_release incoming_aioState if_False)
    qed
    have sc: "\<And>f. sent (conns ?w3 f) = sent (conns w f)" using eff(4) [OF sh] by simp
    have "outcome F (bridge_exit s K L A B P O1 O2) (bridge s F K L A B P O1 O2)
        (WebServerReadHandler (int (length bs)) (?g, ?w3))"
    proof (rule WebServerReadHandler_outcome)
      show "table_ok s (g\<lparr>wsReadPending := False\<rparr>) (aioState ?w3)"
        using dispatched_table [OF assms(1,2,4), of "g\<lparr>wsReadPending := False\<rparr>" ws_op] assms(2) b(5) eff(7) [OF sh]
        by (simp add: dispatched_rd_def STDIN_FILENO_def)
      show "as_data s F A O1 O2 g ?w3" by (rule asd)
      show "B = concat cs @ bs @ (if bs = [] then [] else incoming STDIN_FILENO ?w3)" using cs(3) inc by simp
    qed (use assms b st buf pend lb cs sc small post errs in simp_all)
    then show ?thesis by (simp add: run len)
  qed
qed

section \<open>Reading from the application server\<close>

lemma sent_relayed:
  assumes "rOut r' = rOut r @ o1" "rErr r' = rErr r @ e1"
  shows "sent (conns (relayed r r' w) STDOUT_FILENO) = sent (conns w STDOUT_FILENO) @ o1"
    "sent (conns (relayed r r' w) STDERR_FILENO) = sent (conns w STDERR_FILENO) @ e1"
    "2 < f \<Longrightarrow> sent (conns (relayed r r' w) f) = sent (conns w f)"
  using assms by (simp_all add: relayed_def put_out_def STDOUT_FILENO_def STDERR_FILENO_def)

lemma relayed_rest [simp]: "incoming f (relayed r r' w) = incoming f w" "aioState (relayed r r' w) = aioState w"
  by (simp_all add: relayed_def put_out_def incoming_def)

lemma sent_relay_bytes:
  assumes "r = relay_bytes 1 da relay_start" "r' = relay_bytes 1 (da @ bs) relay_start"
    "sent (conns w STDOUT_FILENO) = O1 @ rOut r" "sent (conns w STDERR_FILENO) = O2 @ rErr r"
  shows "sent (conns (relayed r r' w) STDOUT_FILENO) = O1 @ rOut r'"
    "sent (conns (relayed r r' w) STDERR_FILENO) = O2 @ rErr r'"
    "2 < f \<Longrightarrow> sent (conns (relayed r r' w) f) = sent (conns w f)"
proof -
  obtain o1 e1 where o: "rOut r' = rOut r @ o1" "rErr r' = rErr r @ e1"
    using relay_bytes_grows [of 1 bs r] assms(1,2) by (auto simp: relay_bytes_append)
  show "sent (conns (relayed r r' w) STDOUT_FILENO) = O1 @ rOut r'"
    "sent (conns (relayed r r' w) STDERR_FILENO) = O2 @ rErr r'"
    "2 < f \<Longrightarrow> sent (conns (relayed r r' w) f) = sent (conns w f)"
    using sent_relayed [OF o] assms(3,4) by (simp_all add: o)
qed

lemma relay_prefix_overrun:
  "rPhase (relay_bytes rid (as @ bs) r) \<noteq> Overrun \<Longrightarrow> rPhase (relay_bytes rid as r) \<noteq> Overrun"
  by (auto simp: relay_bytes_append)

lemma as_rest_all:
  assumes "as_rest g' = as_rest (g\<lparr>fcgiReadPending := False\<rparr>)"
  shows "appServerSock g' = appServerSock g" "cgiRequestId g' = cgiRequestId g" "fromWS g' = fromWS g" "\<not> fcgiReadPending g'"
    "fcgiWritePending g' = fcgiWritePending g" "wsReadPending g' = wsReadPending g" "bytesToRead g' = bytesToRead g"
    "webServerReadHandlerEOF g' = webServerReadHandlerEOF g" "stdin_eof_sent g' = stdin_eof_sent g"
  using arg_cong [OF assms, of appServerSock] arg_cong [OF assms, of cgiRequestId] arg_cong [OF assms, of fromWS]
    arg_cong [OF assms, of fcgiReadPending] arg_cong [OF assms, of fcgiWritePending] arg_cong [OF assms, of wsReadPending]
    arg_cong [OF assms, of bytesToRead] arg_cong [OF assms, of webServerReadHandlerEOF] arg_cong [OF assms, of stdin_eof_sent]
  by (simp_all add: as_rest_def)

text \<open>The handler on a chunk: the states are those of the machine, and the output grows by what the machine adds.\<close>

lemma AppServerReadHandler_outcome:
  assumes "appServerSock g = s" "2 < s" "s < FD_SETSIZE" "table_ok s (g\<lparr>fcgiReadPending := False\<rparr>) (aioState w)"
    "fcgiWritePending g \<longleftrightarrow> bufNext (fromWS g) < bufStop (fromWS g)"
    "wsReadPending g \<longrightarrow> bufStop (fromWS g) = 0 \<and> \<not> stdin_eof g \<and> 0 < bytesToRead g"
    "ws_data s F L B P g w" "length (bufData (fromAS g)) = BUFFLEN" "cgiRequestId g = 1"
    "takes_all STDOUT_FILENO w" "takes_all STDERR_FILENO w"
    "r = relay_bytes 1 da relay_start" "corr g r" "received g bs" "bs \<noteq> []" "A = da @ bs @ incoming s w"
    "sent (conns w STDOUT_FILENO) = O1 @ rOut r" "sent (conns w STDERR_FILENO) = O2 @ rErr r"
    "rPhase (relay_bytes 1 A relay_start) \<noteq> Overrun"
    "\<not> exitStatusSet g" "s \<notin> readFdSetPost (aioState w)" "errors_ok s K w" "has_room s (aioState w)"
    "OutOfBounds \<notin> F \<Longrightarrow> unsplit r \<and> well_cut (relay_bytes 1 bs r) (rdScript (conns w s))"
  shows "outcome F (bridge_exit s K L A B P O1 O2) (bridge s F K L A B P O1 O2) (AppServerReadHandler (int (length bs)) (g, w))"
proof -
  define r' where "r' = relay_bytes 1 (da @ bs) relay_start"
  then have r': "relay_bytes 1 bs r = r'" by (simp add: assms(12) relay_bytes_append)
  have no: "rPhase r' \<noteq> Overrun" unfolding r'_def
    using assms(16,19) relay_prefix_overrun [of 1 "da @ bs" "incoming s w" relay_start] by simp
  note snt = sent_relay_bytes [OF assms(12) r'_def assms(17,18)]
  let ?w = "relayed r r' w"
  have rs: "rdScript (conns ?w f) = rdScript (conns w f)" "wrScript (conns ?w f) = wrScript (conns w f)"
    "isOpen (conns ?w f) = isOpen (conns w f)" for f by (simp_all add: relayed_def put_out_def)
  have wsd: "ws_data s F L B P g' ?w" if "as_rest g' = as_rest (g\<lparr>fcgiReadPending := False\<rparr>)" for g'
    by (rule ws_data_cong [OF assms(7)]) (use as_rest_all [OF that] snt(3) [OF assms(2)] rs in simp_all)
  have ex: "bridge_exit s K L A B P O1 O2 c ?w" if "rPhase r' = Failed c" for c
  proof -
    have "relay_bytes 1 A relay_start = r'" using that assms(16) by (simp add: r'_def relay_bytes_append)
    then have "relay_exit K A O1 O2 c ?w" unfolding relay_exit_def
      by (intro exI [of _ A] exI [of _ "[]"]) (use snt(1,2) that in \<open>simp add: exit_of_def\<close>)
    then show ?thesis using ws_exit [OF wsd [of "g\<lparr>fcgiReadPending := False\<rparr>"]] by (simp add: bridge_exit_def)
  qed
  consider "at_boundary r" | "\<not> unsplit r" "(\<exists>hb. rPhase r = Header hb \<and> hb \<noteq> []) \<or> (\<exists>ty c p. rPhase r = Content ty c p \<and> rBody r \<noteq> [])"
    using assms(13,20) by (cases "rPhase r") (auto simp: corr_def at_boundary_def unsplit_def)
  then show ?thesis
  proof cases
    case 1
    consider c where "rPhase r' = Failed c" "AppServerReadHandler (int (length bs)) (g, w) = FCGIexit c (g, ?w)"
      | g' where "AppServerReadHandler (int (length bs)) (g, w) = ScheduleIo (g', ?w)" "corr g' r'"
        "as_rest g' = as_rest (g\<lparr>fcgiReadPending := False\<rparr>)" "bufData (fromAS g') = bufData (fromAS g)"
      using handler_relays [OF assms(13) 1 assms(14,15,10,11)] no unfolding assms(9) r' by blast
    then show ?thesis
    proof cases
      case 1
      then show ?thesis
        using FCGIexit_outcome [OF ex [OF 1(1)] _ assms(2,3), where Q = "bridge s F K L A B P O1 O2"] assms(1,23) by simp
    next
      case 2
      note f = as_rest_all [OF 2(3)]
      have "as_data s F A O1 O2 g' ?w"
        unfolding as_data_def using 2 f assms(8-11,16,24) snt(1,2) r'_def r' rs
        by (intro conjI exI [of _ "da @ bs"]) simp_all
      moreover have "table_ok s g' (aioState ?w)" using assms(4) f by (simp add: table_ok_def entries_ok_def)
      moreover have "errors_ok s K ?w" using assms(22) rs by (simp add: errors_ok_def reported_def)
      ultimately show ?thesis unfolding 2(1)
        by (intro reschedule [OF _ assms(2,3) _ _ _ _ wsd [OF 2(3)]]) (use f assms(1,5,6,21) in \<open>simp_all add: stdin_eof_def\<close>)
    qed
  next
    case 2
    then have "OutOfBounds \<in> F" using assms(24) by blast
    then show ?thesis using handler_split [OF assms(13-15) 2(2)] by simp
  qed
qed

lemma well_cut_read:
  assumes "posix_read fd BUFFLEN w = (len, bs, w')" "0 < len" "well_cut r (rdScript (conns w fd))"
  shows "unsplit r" "well_cut (relay_bytes 1 bs r) (rdScript (conns w' fd))"
  using assms by (auto simp: posix_read_def Let_def split: if_splits list.splits rd_event.splits)

lemma do_read_as:
  assumes "bridge s F K L A B P O1 O2 (g, w)" "2 < s" "s < FD_SETSIZE" "s \<in> readFdSetPost (aioState w)"
    "rPhase (relay_bytes 1 A relay_start) \<noteq> Overrun"
  shows "outcome F (bridge_exit s K L A B P O1 O2) (bridge s F K L A B P O1 O2) (do_read cgi_client s (g, w))"
proof -
  note b = bridgeD [OF assms(1)]
  have ent: "entry_at (AIO_RD_IX s) (aioState w) = Some (as_op s)"
    using posted_read_entry [OF assms(1,4)] assms(2) by (auto simp: STDIN_FILENO_def)
  have info: "info_at (aioState w) (AIO_RD_IX s) = Inr (as_op s)" "inUse (as_op s)" using entry_inUse [OF ent] by auto
  have buf: "length (bufData (fromAS g)) = BUFFLEN" "cgiRequestId g = 1" using b(10) by (auto simp: as_data_def)
  let ?w1 = "w\<lparr>aioState := (aioState w)\<lparr>numRdPosted := numRdPosted (aioState w) - 1,
      readFdSetPost := readFdSetPost (aioState w) - {s}\<rparr>\<rparr>"
  obtain len bs w2 where rd: "posix_read s BUFFLEN ?w1 = (len, bs, w2)" using prod_cases3 by blast
  have "0 < BUFFLEN" by (simp add: BUFFLEN_def)
  note eff = posix_read_effect [OF rd _ this]
  have sh: "\<not> shutdownNow ?w1" using b(11) by simp
  let ?w3 = "release (AIO_RD_IX s) (as_op s) w2"
  let ?g = "g\<lparr>fromAS := (fromAS g)\<lparr>bufData := put_bytes 0 bs (bufData (fromAS g))\<rparr>\<rparr>"
  have lb: "length bs \<le> BUFFLEN" using eff(9) [OF sh] .
  then have "poke cgi_client FROM_AS bs g = Inr ?g" by (simp add: cgi_client_def in_buffer_def)
  then have run: "do_read cgi_client s (g, w) = AppServerReadHandler len (?g, ?w3)"
    using assms(4) rd by (simp add: do_read_def Let_def info)
  have sc: "\<And>f. sent (conns ?w3 f) = sent (conns w f)" using eff(4) [OF sh] by simp
  have st3: "aioState ?w3 = dispatched_rd s (as_op s) (aioState w)" using eff(7) [OF sh] by (simp add: dispatched_rd_def)
  have post: "\<not> exitStatusSet g" "s \<notin> readFdSetPost (aioState ?w3)" "has_room s (aioState ?w3)"
    using b(12) assms(4) bridge_room [OF assms(1,2)] unfolding st3 room_keeps by (auto simp: dispatched_rd_def set_info_def)
  have errs: "errors_ok s K ?w3" "len < 0 \<Longrightarrow> osErrno ?w3 \<in> K"
    using read_errors [OF rd, of s K] b(13) by simp_all
  have inp: "incoming STDIN_FILENO ?w3 = incoming STDIN_FILENO w"
    using eff(3,8) [OF sh] assms(2) by (simp add: incoming_def STDIN_FILENO_def)
  have sx: "sent_exit s L B P ?w3" using ws_exit [OF b(9)] sc inp by (simp add: sent_exit_def)
  have rx: "relay_exit K A O1 O2 c w \<Longrightarrow> relay_exit K A O1 O2 c ?w3" for c using sc by (simp add: relay_exit_def)
  consider "len < 0" | "len = 0" | "0 < len" by linarith
  then show ?thesis
  proof cases
    case 1
    have "bridge_exit s K L A B P O1 O2 (osErrno ?w3) ?w3"
      using sx rx [OF as_exit_error [OF b(10) errs(2) [OF 1]]] by (simp add: bridge_exit_def)
    from FCGIexit_outcome [OF this _ assms(2,3), where Q = "bridge s F K L A B P O1 O2"] show ?thesis
      unfolding run using 1 b(1,5) post(3) by (simp add: AppServerReadHandler_def Let_def)
  next
    case 2
    have ex: "bridge_exit s K L A B P O1 O2 FCGX_PROTOCOL_ERROR ?w3"
      using sx rx [OF as_exit_eof [OF b(10) post(1)]] eff(1) [OF sh] 2 by (simp add: bridge_exit_def)
    have "outcome F (bridge_exit s K L A B P O1 O2) (bridge s F K L A B P O1 O2)
       (bindr (OS_Close s True ?w3) (\<lambda>(_, w1). FCGIexit FCGX_PROTOCOL_ERROR (g1\<lparr>appServerSock := - 1\<rparr>, w1)))" for g1
    proof (rule outcome_bindr)
      fix f assume "OS_Close s True ?w3 = Inl f"
      then show "f \<in> F" using OS_Close_fault(2) [of s True ?w3 f] post(3) assms(2,3) by simp
    next
      fix x assume x: "OS_Close s True ?w3 = Inr x"
      obtain r w1 where xr: "x = (r, w1)" by (cases x)
      note k = OS_Close_keeps [OF x [unfolded xr]]
      have "bridge_exit s K L A B P O1 O2 FCGX_PROTOCOL_ERROR w1"
        using bridge_exit_cong [OF ex k(1) k(2)] assms(2) by (simp add: STDIN_FILENO_def)
      from FCGIexit_outcome [OF this _ assms(2,3), where Q = "bridge s F K L A B P O1 O2"] show "outcome F (bridge_exit s K L A B P O1 O2) (bridge s F K L A B P O1 O2)
         (case x of (_, w1) \<Rightarrow> FCGIexit FCGX_PROTOCOL_ERROR (g1\<lparr>appServerSock := - 1\<rparr>, w1))" by (simp add: xr)
    qed
    moreover have "s \<noteq> - 1" using assms(2) by simp
    ultimately show ?thesis unfolding run using 2 b(1,5) post(1,3) FCGIexit_outcome [OF ex _ assms(2,3), where Q = "bridge s F K L A B P O1 O2"]
      by (simp add: AppServerReadHandler_def Let_def del: bindr_simps)
  next
    case 3
    obtain da where da: "A = da @ incoming s w" "corr g (relay_bytes 1 da relay_start)"
      "sent (conns w STDOUT_FILENO) = O1 @ rOut (relay_bytes 1 da relay_start)"
      "sent (conns w STDERR_FILENO) = O2 @ rErr (relay_bytes 1 da relay_start)"
      "OutOfBounds \<notin> F \<longrightarrow> well_cut (relay_bytes 1 da relay_start) (rdScript (conns w s))"
      using b(10) unfolding as_data_def by blast
    have cut: "OutOfBounds \<notin> F \<Longrightarrow> unsplit (relay_bytes 1 da relay_start)
        \<and> well_cut (relay_bytes 1 bs (relay_bytes 1 da relay_start)) (rdScript (conns ?w3 s))"
      using well_cut_read [OF rd 3] da(5) by simp
    have len: "len = int (length bs)" "bs \<noteq> []" and inc: "incoming s w = bs @ incoming s ?w3"
      using eff(2) [OF sh 3] by (simp_all only: incoming_release incoming_aioState) simp_all
    have "outcome F (bridge_exit s K L A B P O1 O2) (bridge s F K L A B P O1 O2) (AppServerReadHandler (int (length bs)) (?g, ?w3))"
    proof (rule AppServerReadHandler_outcome [OF _ assms(2,3)])
      show "table_ok s (?g\<lparr>fcgiReadPending := False\<rparr>) (aioState ?w3)"
        using dispatched_table [OF assms(1,2,4), of "?g\<lparr>fcgiReadPending := False\<rparr>" "as_op s"] assms(2) eff(7) [OF sh]
        by (simp add: dispatched_rd_def STDIN_FILENO_def)
      show "ws_data s F L B P ?g ?w3"
        by (rule ws_data_cong [OF b(9)]) (use eff(11) [OF sh] assms(2) sc inp in \<open>simp_all add: STDIN_FILENO_def\<close>)
      show "takes_all STDOUT_FILENO ?w3" "takes_all STDERR_FILENO ?w3"
        using b(10) eff(3,8) [OF sh] assms(2) by (simp_all add: as_data_def takes_all_def STDOUT_FILENO_def STDERR_FILENO_def)
      show "corr ?g (relay_bytes 1 da relay_start)" by (rule corr_cong [OF da(2)]) simp_all
      show "received ?g bs" using b(5,6) lb buf(1) by (simp add: received_def held_def sub_bytes_def put_bytes_def)
      show "A = da @ bs @ incoming s ?w3" using da(1) inc by (simp only:)
    qed (use b(1,7,8) buf lb len da(3,4) sc assms(5) post errs cut in \<open>simp_all add: stdin_eof_def\<close>)
    then show ?thesis by (simp only: run len(1))
  qed
qed

section \<open>The event loop\<close>

lemma table_ok_fields:
  assumes "table_ok s g a" "asyncIoTable a' = asyncIoTable a" "asyncIoTableSize a' = asyncIoTableSize a" "maxFd a' = maxFd a"
    "aio_ok a'" "posted_ok a'"
  shows "table_ok s g a'"
  using assms by (simp add: table_ok_def entries_ok_def entry_at_def)

lemma bridge_aio:
  assumes "bridge s F K L A B P O1 O2 (g, w)" "table_ok s g a" "2 < s" "exitStatusSet g \<Longrightarrow> s \<notin> readFdSetPost a"
  shows "bridge s F K L A B P O1 O2 (g, w\<lparr>aioState := a\<rparr>)"
proof -
  note b = bridgeD [OF assms(1)]
  have "ws_data s F L B P g (w\<lparr>aioState := a\<rparr>)" by (rule ws_data_cong [OF b(9)]) simp_all
  moreover have "as_data s F A O1 O2 g (w\<lparr>aioState := a\<rparr>)"
    by (rule as_data_cong [OF b(10)]) (use assms(3) in \<open>simp_all add: takes_all_def STDOUT_FILENO_def STDERR_FILENO_def\<close>)
  ultimately show ?thesis using b(1,5-8,13) assms(2,4) by (simp add: bridge_def)
qed

lemma waiting_entries:
  assumes "aio_ok a"
  shows "fd \<in> readFdSet a \<Longrightarrow> entry_at (AIO_RD_IX fd) a \<noteq> None" "fd \<in> writeFdSet a \<Longrightarrow> entry_at (AIO_WR_IX fd) a \<noteq> None"
proof -
  obtain t where t: "asyncIoTable a = Some t" "2 * maxFd a + 1 < int (length t)"
    "\<forall>fd \<in> readFdSet a \<union> writeFdSet a \<union> readFdSetPost a \<union> writeFdSetPost a. 0 \<le> fd \<and> fd \<le> maxFd a"
    "\<forall>fd \<in> readFdSet a. inUse (t ! nat (2 * fd))" "\<forall>fd \<in> writeFdSet a. inUse (t ! nat (2 * fd + 1))"
    using assms by (rule aio_okE)
  show "entry_at (AIO_RD_IX fd) a \<noteq> None" if "fd \<in> readFdSet a"
  proof -
    have "0 \<le> fd" "fd \<le> maxFd a" "inUse (t ! nat (2 * fd))" using that t(3,4) by simp_all
    then show ?thesis using t(1,2) by (simp add: entry_at_def AIO_RD_IX_def mult.commute)
  qed
  show "entry_at (AIO_WR_IX fd) a \<noteq> None" if "fd \<in> writeFdSet a"
  proof -
    have "0 \<le> fd" "fd \<le> maxFd a" "inUse (t ! nat (2 * fd + 1))" using that t(3,5) by simp_all
    then show ?thesis using t(1,2) by (simp add: entry_at_def AIO_WR_IX_def mult.commute)
  qed
qed

lemma posted_ok_post_ready:
  assumes "aio_ok a" "posted_ok a" "R \<subseteq> readFdSet a" "W \<subseteq> writeFdSet a"
  shows "posted_ok (post_ready R W a)"
proof -
  have "entry_at ix (post_ready R W a) = entry_at ix a" for ix by (simp add: entry_at_def post_ready_def)
  then show ?thesis using assms(2-4) waiting_entries [OF assms(1)]
    by (auto simp: posted_ok_def post_ready_def)
qed

text \<open>\<open>main\<close> calls \<open>OS_DoIo\<close> while the exit status is not known; the errors of \<open>select\<close> are among those of the kernel.\<close>

definition waiting :: "int set \<Rightarrow> cgi \<Rightarrow> select_event \<Rightarrow> bool" where
  "waiting K g sel \<longleftrightarrow> \<not> exitStatusSet g \<and> (\<forall>e. sel = SelectErr e \<longrightarrow> e \<in> K)"

lemma select_bridge:
  assumes "bridge s F K L A B P O1 O2 (g, w)" "2 < s" "waiting K g sel"
  shows "outcome F (bridge_exit s K L A B P O1 O2) (\<lambda>w'. bridge s F K L A B P O1 O2 (g, w')) (Inr (select_fds sel w))"
proof -
  note b = bridgeD [OF assms(1)]
  let ?a = "aioState w"
  have "bridge s F K L A B P O1 O2 (g, w\<lparr>aioState := post_ready (R \<inter> fds_upto (readFdSet ?a) (maxFd ?a)) (W \<inter> fds_upto (writeFdSet ?a) (maxFd ?a)) ?a\<rparr>)"
    for R W
  proof (rule bridge_aio [OF assms(1) _ assms(2)], rule table_ok_fields)
    show "s \<notin> readFdSetPost (post_ready (R \<inter> fds_upto (readFdSet ?a) (maxFd ?a)) (W \<inter> fds_upto (writeFdSet ?a) (maxFd ?a)) ?a)"
      if "exitStatusSet g" using that assms(3) by (simp add: waiting_def)
  next
    show "table_ok s g ?a" using b(2-4) by (simp add: table_ok_def)
  qed (use b(2,3) in \<open>auto simp: post_ready_def fds_upto_def intro!: aio_ok_post_ready [unfolded post_ready_def]
      posted_ok_post_ready [unfolded post_ready_def]\<close>)
  moreover have "bridge_exit s K L A B P O1 O2 e (w\<lparr>osErrno := e\<rparr>)" if "sel = SelectErr e" for e
  proof -
    have "bridge_exit s K L A B P O1 O2 e w"
      using ws_exit [OF b(9)] as_exit_error [OF b(10), of e] assms(3) that by (simp add: bridge_exit_def waiting_def)
    then show ?thesis by (rule bridge_exit_cong) (simp_all add: incoming_def)
  qed
  ultimately show ?thesis using assms(1)
    by (simp add: select_fds_def Let_def split: select_event.splits)
qed

text \<open>The conditions under which the handlers keep the invariant: the connection is a descriptor above the standard ones and the application server
  sends nothing after the end of the request.\<close>

definition bridging :: "int \<Rightarrow> fault set \<Rightarrow> int set \<Rightarrow> int \<Rightarrow> byte list \<Rightarrow> byte list \<Rightarrow> byte list \<Rightarrow> byte list \<Rightarrow> byte list
    \<Rightarrow> cgi \<times> os \<Rightarrow> bool" where
  "bridging s F K L A B P O1 O2 st \<longleftrightarrow>
     2 < s \<and> s < FD_SETSIZE \<and> rPhase (relay_bytes 1 A relay_start) \<noteq> Overrun \<and> bridge s F K L A B P O1 O2 st"

lemma do_read_bridge:
  assumes "bridge s F K L A B P O1 O2 (g, w)" "2 < s" "s < FD_SETSIZE" "rPhase (relay_bytes 1 A relay_start) \<noteq> Overrun"
  shows "outcome F (bridge_exit s K L A B P O1 O2) (bridge s F K L A B P O1 O2) (do_read cgi_client fd (g, w))"
proof (cases "fd \<in> readFdSetPost (aioState w)")
  case True
  then show ?thesis using posted_read_entry [OF assms(1) True] do_read_as [OF assms(1-3) _ assms(4)] do_read_stdin [OF assms(1-3)] by auto
qed (use assms(1) in \<open>simp add: do_read_def\<close>)

interpretation cgi_fcgi: event_handlers cgi_client "bridging s F K L A B P O1 O2" "waiting K" "bridge_exit s K L A B P O1 O2" F
  for s F K L A B P O1 O2
proof unfold_locales
  fix st :: "cgi \<times> os" assume "bridging s F K L A B P O1 O2 st"
  then show "maxFd (aioState (snd st)) < FD_SETSIZE"
    by (cases st) (auto simp: bridging_def bridge_def table_ok_def aio_ok_def)
next
  fix g :: cgi and w assume st: "bridging s F K L A B P O1 O2 (g, w)"
  have "table_ok s g ((aioState w)\<lparr>asyncIoInUse := True\<rparr>)"
    by (rule table_ok_fields [of _ _ "aioState w"])
      (use st in \<open>simp_all add: bridging_def bridge_def table_ok_def aio_ok_def posted_ok_def entry_at_def\<close>)
  then show "bridging s F K L A B P O1 O2 (g, w\<lparr>aioState := (aioState w)\<lparr>asyncIoInUse := True\<rparr>\<rparr>)"
    using st bridge_aio [of s F K L A B P O1 O2 g w] by (simp add: bridging_def bridge_def)
  show "outcome F (bridge_exit s K L A B P O1 O2) (\<lambda>w'. bridging s F K L A B P O1 O2 (g, w')) (Inr (select_fds sel w))"
    if "waiting K g sel" for sel
    using st that by (intro outcome_mono [OF select_bridge]) (simp_all add: bridging_def)
next
  fix st :: "cgi \<times> os" and fd assume st: "bridging s F K L A B P O1 O2 st"
  obtain g w where gw: "st = (g, w)" by (cases st)
  show "outcome F (bridge_exit s K L A B P O1 O2) (bridging s F K L A B P O1 O2) (do_read cgi_client fd st)"
    using st unfolding gw by (intro outcome_mono [OF do_read_bridge]) (simp_all add: bridging_def)
  show "outcome F (bridge_exit s K L A B P O1 O2) (bridging s F K L A B P O1 O2) (do_write cgi_client fd st)"
    using st unfolding gw by (intro outcome_mono [OF do_write_bridge]) (simp_all add: bridging_def)
qed

lemma bridging_exit:
  assumes "bridging s F K L A B P O1 O2 (g, w)" "exitStatusSet g"
  shows "outcome F' (bridge_exit s K L A B P O1 O2) Q (FCGIexit (exitStatus g) (g, w))"
proof -
  have br: "bridge s F K L A B P O1 O2 (g, w)" and s: "2 < s" "s < FD_SETSIZE" "rPhase (relay_bytes 1 A relay_start) \<noteq> Overrun"
    using assms by (simp_all add: bridging_def)
  note b = bridgeD [OF br]
  have "bridge_exit s K L A B P O1 O2 (exitStatus g) w"
    using ws_exit [OF b(9)] as_exit_status [OF b(10) assms(2) s(3)] by (simp add: bridge_exit_def)
  then show ?thesis using b(1) bridge_room [OF br s(1)] by (intro FCGIexit_outcome) (use s in simp_all)
qed

lemma event_loop_outcome:
  assumes "bridging s F K L A B P O1 O2 st" "\<forall>e. SelectErr e \<in> set es \<longrightarrow> e \<in> K"
  shows "outcome (insert Blocked F) (bridge_exit s K L A B P O1 O2) (\<lambda>_. False) (event_loop es st)"
  using assms
proof (induction es arbitrary: st)
  case Nil
  obtain g w where st: "st = (g, w)" by (cases st)
  show ?case using bridging_exit [OF Nil(1) [unfolded st], where F' = "insert Blocked F" and Q = "\<lambda>_ :: unit. False"]
    by (simp add: event_loop.simps st)
next
  case (Cons e es)
  obtain g w where st: "st = (g, w)" by (cases st)
  have loop: "outcome (insert Blocked F) (bridge_exit s K L A B P O1 O2) (\<lambda>_. False)
     (bindp (OS_DoIo cgi_client e st) (\<lambda>(_, s'). event_loop es s'))" if "\<not> exitStatusSet g"
  proof -
    have "waiting K g e" using that Cons.prems(2) by (simp add: waiting_def)
    note step = cgi_fcgi.DoIo_outcome [OF Cons.prems(1) [unfolded st] this]
    show ?thesis unfolding st
      by (rule outcome_bindp [OF outcome_mono [OF step]]) (use Cons.IH Cons.prems(2) in auto)
  qed
  show ?case using loop bridging_exit [OF Cons.prems(1) [unfolded st], where F' = "insert Blocked F" and Q = "\<lambda>_ :: unit. False"]
    by (simp add: event_loop.simps [of "e # es"] st)
qed

end
