(* ===== verification/Fcgi_Cgi_Correct.thy ===== *)
theory Fcgi_Cgi_Correct
  imports Fcgi_Bridge Fcgi_Request_Correct
begin

text \<open>
  \<open>cgi-fcgi\<close> from the sending of the request to its exit, and the application server at the other end: the request it sends is one that
  \<open>FCGX_Accept_r\<close> accepts with the same environment and the same input.
\<close>

section \<open>Sending the environment\<close>

definition env_pair :: "byte list \<Rightarrow> byte list \<times> byte list" where
  "env_pair e = (takeWhile (\<lambda>b. b \<noteq> 0x3d) e, drop (Suc (length (takeWhile (\<lambda>b. b \<noteq> 0x3d) e))) e)"

lemma env_pair_entry: "0x3d \<in> set e \<Longrightarrow> pair_entry (env_pair e) = e"
  by (induction e) (auto simp: env_pair_def pair_entry_def)

lemma send_environ_took:
  assumes "took_content s0 s cs" "list_all (\<lambda>e. 0x3d \<in> set e) es"
  shows "\<exists>s'. send_environ es s = Inr (Inr (), s') \<and> took_content s0 s' (cs @ pairs_bytes (map env_pair es))"
  using assms
proof (induction es arbitrary: s cs)
  case Nil
  then show ?case by (simp add: pairs_bytes_def)
next
  case (Cons e es)
  obtain n v where nv: "env_pair e = (n, v)" by fastforce
  let ?hb = "length_field (int (length n)) @ length_field (int (length v))"
  obtain s1 where s1: "FCGX_PutStr EmptyBuffProc ?hb s = Inr (int (length ?hb), s1)" "took_content s0 s1 (cs @ ?hb)"
    using content_sink.PutStr_took [OF Cons.prems(1)] by blast
  obtain s2 where s2: "FCGX_PutStr EmptyBuffProc n s1 = Inr (int (length n), s2)" "took_content s0 s2 ((cs @ ?hb) @ n)"
    using content_sink.PutStr_took [OF s1(2)] by blast
  obtain s3 where s3: "FCGX_PutStr EmptyBuffProc v s2 = Inr (int (length v), s3)" "took_content s0 s3 (((cs @ ?hb) @ n) @ v)"
    using content_sink.PutStr_took [OF s2(2)] by blast
  obtain s' where s': "send_environ es s3 = Inr (Inr (), s')" "took_content s0 s' ((((cs @ ?hb) @ n) @ v) @ pairs_bytes (map env_pair es))"
    using Cons.IH [OF s3(2)] Cons.prems(2) by auto
  have "takeWhile (\<lambda>b. b \<noteq> 0x3d) e = n" "drop (Suc (length n)) e = v" using nv by (auto simp: env_pair_def)
  then have "send_environ (e # es) s = send_environ es s3"
    using Cons.prems(2) s1(1) s2(1) s3(1) by (simp add: FCGIUtil_BuildNameValueHeader_def Let_def del: length_drop)
  then show ?case using s' by (simp add: pairs_bytes_def pair_bytes_def nv)
qed

section \<open>Starting\<close>

text \<open>The state in which \<open>main\<close> sends the request: the static variables as they are initialised, the library initialised and the connection
  open.\<close>

definition main_start :: "int \<Rightarrow> cgi \<Rightarrow> os \<Rightarrow> bool" where
  "main_start s g w \<longleftrightarrow> appServerSock g = s \<and> 2 < s \<and> s < FD_SETSIZE
     \<and> \<not> wsReadPending g \<and> \<not> fcgiReadPending g \<and> \<not> fcgiWritePending g \<and> \<not> exitStatusSet g \<and> \<not> readingEndRequestBody g \<and> \<not> stdin_eof_sent g
     \<and> headerLen g = 0 \<and> asPaddingLen g = 0 \<and> length (asHeader g) = 8 \<and> length (erBody g) = 8
     \<and> length (bufData (fromAS g)) = BUFFLEN \<and> length (bufData (fromWS g)) = BUFFLEN
     \<and> snd (snd (OS_LibInit True False (w\<lparr>aioState := aio_initial\<rparr>))) = w
     \<and> writable s w \<and> takes_all STDOUT_FILENO w \<and> takes_all STDERR_FILENO w"

definition begin_request :: "byte list" where
  "begin_request = rec_bytes FCGI_BEGIN_REQUEST 1 (begin_body_bytes \<lparr>b_roleB1 = 0, b_roleB0 = 1, b_flags = 0, b_reserved = replicate 5 0\<rparr>) []"

lemma start_table:
  assumes "main_start s g w"
  shows "aio_ok (aioState w)" "posted_ok (aioState w)" "entry_at ix (aioState w) = None"
proof -
  let ?a = "aio_initial\<lparr>asyncIoTable := Some (replicate 16 zero_info)\<rparr>"
  have a: "aioState w = ?a" using assms by (auto simp: main_start_def OS_LibInit_def aio_initial_def dest!: arg_cong [of _ w aioState])
  show "aio_ok (aioState w)" "posted_ok (aioState w)" "entry_at ix (aioState w) = None"
    unfolding a by (auto simp: aio_initial_def aio_ok_def posted_ok_def entry_at_def zero_info_def FD_SETSIZE_def)
qed

lemma begin_record:
  "MakeHeader FCGI_BEGIN_REQUEST 1 8 0 = Inr (header_for FCGI_BEGIN_REQUEST 1 8 0)"
  "MakeBeginRequestBody FCGI_RESPONDER False = Inr \<lparr>b_roleB1 = 0, b_roleB0 = 1, b_flags = 0, b_reserved = replicate 5 0\<rparr>"
  "header_bytes (header_for FCGI_BEGIN_REQUEST 1 8 0)
     @ begin_body_bytes \<lparr>b_roleB1 = 0, b_roleB0 = 1, b_flags = 0, b_reserved = replicate 5 0\<rparr> = begin_request" "length begin_request = 16"
  using MakeHeader_for [of 8 0 FCGI_BEGIN_REQUEST 1]
  by (simp_all add: MakeBeginRequestBody_def begin_request_def rec_bytes_def begin_body_bytes_def FCGI_RESPONDER_def uchar_def)

text \<open>What sending on one descriptor can change.\<close>

definition sends_only :: "int \<Rightarrow> os \<Rightarrow> os \<Rightarrow> bool" where
  "sends_only fd w w' \<longleftrightarrow> aioState w' = aioState w \<and> shutdownNow w' = shutdownNow w \<and> (\<forall>f. incoming f w' = incoming f w)
     \<and> (\<forall>f. isOpen (conns w' f) = isOpen (conns w f) \<and> rdScript (conns w' f) = rdScript (conns w f))
     \<and> (\<forall>f. f \<noteq> fd \<longrightarrow> conns w' f = conns w f)"

lemma sends_only_trans: "sends_only fd u v \<Longrightarrow> sends_only fd v w \<Longrightarrow> sends_only fd u w"
  by (simp add: sends_only_def)

lemma same_input_sends: "same_input fd w w' \<Longrightarrow> sends_only fd w w'"
  using os_rest_fields [of w' w] by (simp add: sends_only_def same_input_def incoming_def)

lemma main_request_sends:
  assumes "main_start s g w" "list_all (\<lambda>e. 0x3d \<in> set e) es" "fst (OS_Write s begin_request w) = 16"
  obtains fr w' where "framed 1 FCGI_PARAMS fr (pairs_bytes (map env_pair es))"
    "sent (conns w' s) = sent (conns w s) @ begin_request @ fr @ header_bytes (header_for FCGI_PARAMS 1 0 0)" "sends_only s w w'" "writable s w'"
    "main_request r es (g, w) = (let g2 = g\<lparr>cgiRequestId := 1, fromWS := (fromWS g)\<lparr>bufNext := 0, bufStop := 0\<rparr>, webServerReadHandlerEOF := False\<rparr> in
       bindr (if bytesToRead g2 \<le> 0 then WriteStdinEof g2 else Inr g2) (\<lambda>g3. ScheduleIo (g3, w')))"
proof -
  have st: "appServerSock g = s" "writable s w" using assms(1) by (simp_all add: main_start_def)
  obtain w1 where w1: "OS_Write s begin_request w = (16, w1)" "writable s w1"
    using OS_Write_writable [OF st(2), of begin_request] assms(3) by auto
  have sent1: "sent (conns w1 s) = sent (conns w s) @ begin_request" using OS_Write_sent(2) [OF w1(1)] begin_record(4) by simp
  obtain t w2 where tw: "NewWriter 8192 FCGI_PARAMS w1 = (t, w2)" by fastforce
  let ?r = "r\<lparr>ipcFd := s, requestId := 1, nWriters := 2\<rparr>"
  let ?s0 = "\<lparr>strm = t, rqd = ?r, sys = w2\<rparr>"
  have w2: "w2 = w1\<lparr>mallocCount := Suc (mallocCount w1)\<rparr>" using NewWriter_fresh(1) [OF tw, of ?r w1] w1(2) by simp
  have "writable (ipcFd ?r) w2" using w1(2) by (simp add: w2 writable_def)
  note fresh = NewWriter_fresh [OF tw this]
  obtain s2 where s2: "send_environ es ?s0 = Inr (Inr (), s2)" "took_content ?s0 s2 (pairs_bytes (map env_pair es))"
    using send_environ_took [OF fresh(2) assms(2)] by auto
  obtain s3 fr where s3: "FCGX_FClose EmptyBuffProc s2 = Inr (0, s3)" "framed 1 FCGI_PARAMS fr (pairs_bytes (map env_pair es))"
    "sent (conns (sys s3) s) = sent (conns w2 s) @ fr @ header_bytes (header_for FCGI_PARAMS 1 0 0)" "same_input s w2 (sys s3)" "writable s (sys s3)"
    using FClose_writer [OF s2(2)] fresh(3-6) by (auto simp: eof_bytes_def end_bytes_def FCGI_PARAMS_def FCGI_STDERR_def)
  have "sends_only s w1 w2" by (simp add: w2 sends_only_def incoming_def)
  then have "sends_only s w (sys s3)"
    using same_input_sends [OF OS_Write_same_input [OF w1(1)]] same_input_sends [OF s3(4)] by (blast intro: sends_only_trans)
  moreover have "sent (conns (sys s3) s) = sent (conns w s) @ begin_request @ fr @ header_bytes (header_for FCGI_PARAMS 1 0 0)"
    using s3(3) sent1 by (simp add: w2)
  moreover have "isOpen (conns (sys s3) s)" using s3(4) w1(2) by (simp add: w2 same_input_def writable_def)
  ultimately show ?thesis using s3(1,2) that [of fr "sys s3"] s3(5) s2(1) w1(1) begin_record tw st(1)
    by (simp add: main_request_def FCGX_CreateWriter_def OS_SetFlags_def Let_def cong: if_cong)
qed

lemma FCGIexit_Run: "FCGIexit c s \<noteq> Inr (Run x)"
  by (cases s) (auto simp: FCGIexit_def bindr_Inr_iff split: prod.splits)

lemma ScheduleIo_conns:
  assumes "ScheduleIo (g, w) = Inr (Run (g', w'))"
  shows "conns w' = conns w"
proof -
  have "conns w2 = conns w1" if "schedule_write (g1, w1) = Inr (Run (g2, w2)) \<or> schedule_read (g1, w1) = Inr (Run (g2, w2))
      \<or> schedule_stdin (g1, w1) = Inr (Run (g2, w2))" for g1 w1 g2 w2
    using that by (auto simp: schedule_write_def schedule_read_def schedule_stdin_def Let_def bindr_Inr_iff FCGIexit_Run
        split: if_splits)
  moreover obtain g1 w1 g2 w2 where "schedule_write (g, w) = Inr (Run (g1, w1))" "schedule_read (g1, w1) = Inr (Run (g2, w2))"
    "schedule_stdin (g2, w2) = Inr (Run (g', w'))" using assms by (auto simp: ScheduleIo_def bindp_Run_iff)
  ultimately show ?thesis by metis
qed

text \<open>The errors the kernel reports on the two descriptors the program reads and writes and in \<open>select\<close>, and the faults it can run into:
  none when no read of the server's output begins inside a header or the body of an end of the request, and every read of the standard
  input leaves room for the end-of-stream header.\<close>

definition kernel_errors :: "int \<Rightarrow> select_event list \<Rightarrow> os \<Rightarrow> int set" where
  "kernel_errors s sels w = reported s w \<union> reported STDIN_FILENO w \<union> {e. SelectErr e \<in> set sels}"

definition bridge_faults :: "int \<Rightarrow> os \<Rightarrow> fault set" where
  "bridge_faults s w = (if well_cut relay_start (rdScript (conns w s)) \<and> small_reads w then {} else {OutOfBounds})"

lemma writable_reported:
  assumes "writable s w" "writable s w'" "rdScript (conns w' s) = rdScript (conns w s)"
  shows "reported s w' = reported s w"
proof -
  have "WrErr e \<notin> set (wrScript (conns v s))" if "writable s v" for e v
    using that by (auto simp: writable_def list_all_iff is_short_write_def)
  then show ?thesis using assms by (auto simp: reported_def writable_def)
qed

lemma main_request_bridging:
  assumes "main_start s g w" "list_all (\<lambda>e. 0x3d \<in> set e) es" "fst (OS_Write s begin_request w) = 16"
    "rPhase (relay_bytes 1 (incoming s w) relay_start) \<noteq> Overrun"
    "OutOfBounds \<notin> F \<longrightarrow> well_cut relay_start (rdScript (conns w s)) \<and> small_reads w" "errors_ok s K w"
  obtains fr P st where "framed 1 FCGI_PARAMS fr (pairs_bytes (map env_pair es))"
    "P = sent (conns w s) @ begin_request @ fr @ header_bytes (header_for FCGI_PARAMS 1 0 0)"
    "main_request r es (g, w) = Inr (Run st)" "sent (conns (snd st) s) = P"
    "bridging s F K (bytesToRead g) (incoming s w) (incoming STDIN_FILENO w) P (sent (conns w STDOUT_FILENO))
       (sent (conns w STDERR_FILENO)) st"
proof -
  obtain fr w' where m: "framed 1 FCGI_PARAMS fr (pairs_bytes (map env_pair es))"
    "sent (conns w' s) = sent (conns w s) @ begin_request @ fr @ header_bytes (header_for FCGI_PARAMS 1 0 0)" "sends_only s w w'" "writable s w'"
    "main_request r es (g, w) = (let g2 = g\<lparr>cgiRequestId := 1, fromWS := (fromWS g)\<lparr>bufNext := 0, bufStop := 0\<rparr>, webServerReadHandlerEOF := False\<rparr> in
       bindr (if bytesToRead g2 \<le> 0 then WriteStdinEof g2 else Inr g2) (\<lambda>g3. ScheduleIo (g3, w')))"
    by (rule main_request_sends [OF assms(1-3)])
  let ?P = "sent (conns w s) @ begin_request @ fr @ header_bytes (header_for FCGI_PARAMS 1 0 0)" and ?L = "bytesToRead g"
  let ?A = "incoming s w" and ?B = "incoming STDIN_FILENO w" and ?O1 = "sent (conns w STDOUT_FILENO)" and ?O2 = "sent (conns w STDERR_FILENO)"
  let ?g2 = "g\<lparr>cgiRequestId := 1, fromWS := (fromWS g)\<lparr>bufNext := 0, bufStop := 0\<rparr>, webServerReadHandlerEOF := False\<rparr>"
  have st: "appServerSock g = s" "2 < s" "s < FD_SETSIZE" "\<not> stdin_eof_sent g" "length (bufData (fromWS g)) = BUFFLEN"
    "length (bufData (fromAS g)) = BUFFLEN" "takes_all STDOUT_FILENO w" "takes_all STDERR_FILENO w"
    "\<not> fcgiReadPending g" "\<not> fcgiWritePending g" "\<not> wsReadPending g" "writable s w" "\<not> exitStatusSet g"
    using assms(1) by (simp_all add: main_start_def)
  have k: "aioState w' = aioState w" "shutdownNow w' = shutdownNow w" "\<And>f. incoming f w' = incoming f w" "\<And>f. f \<noteq> s \<Longrightarrow> conns w' f = conns w f"
    "rdScript (conns w' s) = rdScript (conns w s)" using m(3) by (simp_all add: sends_only_def)
  have fds: "s \<noteq> STDOUT_FILENO" "s \<noteq> STDERR_FILENO" "s \<noteq> STDIN_FILENO"
    using st(2) by (simp_all add: STDOUT_FILENO_def STDERR_FILENO_def STDIN_FILENO_def)
  have io: "errors_ok s K w'" "small_reads w' = small_reads w"
    using assms(6) writable_reported [OF st(12) m(4) k(5)] k(4) [of STDIN_FILENO] fds(3)
    by (simp_all add: errors_ok_def reported_def small_reads_def)
  have go: "\<exists>st. ScheduleIo (g3, w') = Inr (Run st) \<and> bridging s F K ?L ?A ?B ?P ?O1 ?O2 st"
    if "g3 = ?g2\<lparr>fromWS := b, stdin_eof_sent := e\<rparr>" "ws_data s F ?L ?B ?P g3 w'" for g3 b e
  proof -
    have tab: "table_ok s g3 (aioState w')"
      using start_table [OF assms(1)] that(1) st(9-11) k(1) by (simp add: table_ok_def entries_ok_def)
    have "corr g3 relay_start" using assms(1) that(1) by (simp add: main_start_def corr_def relay_start_def)
    moreover have "takes_all STDOUT_FILENO w'" "takes_all STDERR_FILENO w'"
      using st(7,8) k(2) k(4) [of STDOUT_FILENO] k(4) [of STDERR_FILENO] fds by (simp_all add: takes_all_def)
    ultimately have "as_data s F ?A ?O1 ?O2 g3 w'"
      using that(1) st(6) k(3,5) k(4) [of STDOUT_FILENO] k(4) [of STDERR_FILENO] fds assms(5)
      unfolding as_data_def by (intro conjI exI [of _ "[]"]) (simp_all add: relay_start_def)
    then have "outcome {} (\<lambda>_ _. False) (bridge s F K ?L ?A ?B ?P ?O1 ?O2) (ScheduleIo (g3, w'))"
      by (intro reschedule [OF _ st(2,3) tab _ _ _ that(2)]) (use that(1) st io in simp_all)
    then obtain x where "ScheduleIo (g3, w') = Inr (Run x)" "bridge s F K ?L ?A ?B ?P ?O1 ?O2 x"
      by (auto simp: outcome_def split: sum.splits run.splits)
    then show ?thesis using st(2,3) assms(4) by (simp add: bridging_def)
  qed
  have "\<exists>g3 b e. main_request r es (g, w) = ScheduleIo (g3, w') \<and> g3 = ?g2\<lparr>fromWS := b, stdin_eof_sent := e\<rparr>
    \<and> ws_data s F ?L ?B ?P g3 w'"
  proof (cases "bytesToRead g \<le> 0")
    case False
    have "ws_data s F ?L ?B ?P ?g2 w'"
      unfolding ws_data_def using st(4,5) k(3) m(2) io assms(5)
      by (intro conjI exI [of _ "[]"]) (simp_all add: ws_pending_def stdin_records_def stdin_end_def stdin_eof_def)
    then show ?thesis using False st(4) by (intro exI [of _ ?g2] exI [of _ "fromWS ?g2"] exI [of _ False]) (simp add: m(5))
  next
    case True
    let ?c = "(fromWS ?g2)\<lparr>bufData := put_bytes 0 (stdin_end True) (bufData (fromWS g)), bufStop := 8\<rparr>"
    let ?g3 = "?g2\<lparr>fromWS := ?c, stdin_eof_sent := True\<rparr>"
    have "WriteStdinEof ?g2 = Inr ?g3" using WriteStdinEof_eq [of ?g2] st(4) by (simp add: BUFFLEN_def)
    moreover have "ws_pending ?c = stdin_end True" "length (bufData ?c) = BUFFLEN"
      using pending_eof [of "fromWS ?g2" "stdin_end True"] st(5) length_stdin_end by (simp_all add: BUFFLEN_def ws_pending_def)
    then have "ws_data s F ?L ?B ?P ?g3 w'"
      unfolding ws_data_def using True k(3) m(2) io assms(5)
      by (intro conjI exI [of _ "[]"]) (simp_all add: stdin_records_def stdin_eof_def BUFFLEN_def)
    ultimately show ?thesis using True by (intro exI [of _ ?g3] exI [of _ ?c] exI [of _ True]) (simp add: m(5))
  qed
  then obtain g3 b e where g3: "main_request r es (g, w) = ScheduleIo (g3, w')" "g3 = ?g2\<lparr>fromWS := b, stdin_eof_sent := e\<rparr>"
    "ws_data s F ?L ?B ?P g3 w'" by blast
  obtain x where x: "ScheduleIo (g3, w') = Inr (Run x)" "bridging s F K ?L ?A ?B ?P ?O1 ?O2 x" using go [OF g3(2,3)] by blast
  moreover have "sent (conns (snd x) s) = ?P" using ScheduleIo_conns [of g3 w' "fst x" "snd x"] x(1) m(2) by simp
  ultimately show ?thesis using that m(1) g3(1) by simp
qed

section \<open>The application server at the other end\<close>

lemma stdin_wire_records:
  "list_all stdin_chunk cs \<Longrightarrow> records 1 FCGI_STDIN 0 tail (stdin_records cs @ stdin_end True @ tail) (concat cs)"
proof (induction cs)
  case Nil
  then show ?case using records_eof [of 1 FCGI_STDIN 0 tail] by (simp add: stdin_records_def stdin_end_def)
next
  case (Cons c cs)
  then show ?case
    using records_data [of 1 FCGI_STDIN 0 tail "stdin_records cs @ stdin_end True @ tail" "concat cs" c "[]"]
    by (simp add: stdin_records_def stdin_chunk_def BUFFLEN_def)
qed

lemma env_entries: "list_all (\<lambda>e. 0x3d \<in> set e) es \<Longrightarrow> map pair_entry (map env_pair es) = es"
  by (induction es) (simp_all add: env_pair_entry)

lemma main_request_relays:
  assumes "main_start s g w" "list_all (\<lambda>e. 0x3d \<in> set e) es" "fst (OS_Write s begin_request w) = 16"
    "rPhase (relay_bytes 1 (incoming s w) relay_start) \<noteq> Overrun"
  shows "\<exists>fr g' w'. framed 1 FCGI_PARAMS fr (pairs_bytes (map env_pair es))
    \<and> main_request r es (g, w) = Inr (Run (g', w'))
    \<and> sent (conns w' s) = sent (conns w s) @ begin_request @ fr @ header_bytes (header_for FCGI_PARAMS 1 0 0)
    \<and> outcome (insert Blocked (bridge_faults s w))
        (bridge_exit s (kernel_errors s sels w) (bytesToRead g) (incoming s w) (incoming STDIN_FILENO w) (sent (conns w' s))
          (sent (conns w STDOUT_FILENO)) (sent (conns w STDERR_FILENO))) (\<lambda>_. False)
        (event_loop sels (g', w'))"
proof -
  let ?F = "bridge_faults s w" and ?K = "kernel_errors s sels w"
  have c: "OutOfBounds \<notin> ?F \<longrightarrow> well_cut relay_start (rdScript (conns w s)) \<and> small_reads w" "errors_ok s ?K w"
    by (auto simp: bridge_faults_def errors_ok_def kernel_errors_def)
  obtain fr P st where m: "framed 1 FCGI_PARAMS fr (pairs_bytes (map env_pair es))"
    "P = sent (conns w s) @ begin_request @ fr @ header_bytes (header_for FCGI_PARAMS 1 0 0)"
    "main_request r es (g, w) = Inr (Run st)" "sent (conns (snd st) s) = P"
    "bridging s ?F ?K (bytesToRead g) (incoming s w) (incoming STDIN_FILENO w) P (sent (conns w STDOUT_FILENO))
       (sent (conns w STDERR_FILENO)) st"
    by (rule main_request_bridging [OF assms c])
  have "\<forall>e. SelectErr e \<in> set sels \<longrightarrow> e \<in> ?K" by (simp add: kernel_errors_def)
  note run = event_loop_outcome [OF m(5) this]
  show ?thesis
    by (intro exI [of _ fr] exI [of _ "fst st"] exI [of _ "snd st"]) (use m run in simp)
qed

section \<open>Properties\<close>

text \<open>C8. \<open>cgi-fcgi\<close> from the sending of the request on, whatever the kernel does (short reads and writes, errors, any order of readiness).
  When the first write takes the sixteen bytes of the \<open>FCGI_BEGIN_REQUEST\<close> record whole, \<open>main_request\<close> returns, and has sent on the connection that
  record, the encoded environment and the end of the \<open>FCGI_PARAMS\<close> stream. For every server output in which nothing follows the end of the request,
  the event loop then waits for good, in \<open>select\<close> or in a \<open>read\<close> for which the kernel has nothing more, or leaves with
  \<open>exit\<close>: with the code of an error the kernel has reported, having relayed a part of the server's output; or having relayed all of it, with the
  application status when the output contains an end of the request, the error code when it is malformed, and
  \<open>FCGX_PROTOCOL_ERROR\<close> when it stops before the end of the request. Relayed means that standard output and standard error hold exactly what the
  byte-by-byte machine puts there. The server has then been sent, after the environment, the records of the standard input read so far but for at most a buffer's worth, the end
  of the stream only when the input or the announced length is exhausted, and no byte of the standard input is lost. An access out of bounds happens only when a read of the output begins inside a header or an
  end-of-request body, or a read of the input fills the last 16 bytes of its buffer (\<open>bridge_faults\<close>).\<close>

theorem cgi_fcgi_relays:
  assumes "main_start s g w" "list_all (\<lambda>e. 0x3d \<in> set e) es" "fst (OS_Write s begin_request w) = 16"
    "rPhase (relay_bytes 1 (incoming s w) relay_start) \<noteq> Overrun"
  shows "\<exists>fr g' w'. framed 1 FCGI_PARAMS fr (pairs_bytes (map env_pair es))
    \<and> main_request r es (g, w) = Inr (Run (g', w'))
    \<and> sent (conns w' s) = sent (conns w s) @ begin_request @ fr @ header_bytes (header_for FCGI_PARAMS 1 0 0)
    \<and> outcome (insert Blocked (bridge_faults s w))
        (bridge_exit s (kernel_errors s sels w) (bytesToRead g) (incoming s w) (incoming STDIN_FILENO w) (sent (conns w' s))
          (sent (conns w STDOUT_FILENO)) (sent (conns w STDERR_FILENO))) (\<lambda>_. False)
        (event_loop sels (g', w'))"
  by (rule main_request_relays [OF assms])

text \<open>C10. The two ends understand each other: when \<open>cgi-fcgi\<close> has sent its request and the standard input as \<open>FCGI_STDIN\<close> records, an
  application server whose connection delivers these bytes, in pieces of any size, gets zero from \<open>FCGX_Accept_r\<close> with the role and exactly
  the entries of \<open>cgi-fcgi\<close>'s environment, in order, as its environment, and reads exactly the standard input; its answer ends with the records
  \<open>cgi-fcgi\<close> expects, and the connection is closed.\<close>

theorem cgi_fcgi_request_accepted:
  assumes "main_start s g w" "list_all (\<lambda>e. 0x3d \<in> set e) es" "fst (OS_Write s begin_request w) = 16"
    and fits: "list_all pair_fits (map env_pair es)" and chunks: "list_all stdin_chunk cs"
    and run: "main_request r es (g, w) = Inr (Run (g', w'))"
    and q: "no_request q"
    and fd: "(if ipcFd (reqData q) < 0 then OS_Accept (flags (reqData q) AND FCGI_FAIL_ACCEPT_ON_INTR \<noteq> 0) addrs v
            else Inr (ipcFd (reqData q), v)) = Inr (fd, v1)" "0 \<le> fd"
    and inc: "incoming fd v1 = drop (length (sent (conns w s))) (sent (conns w' s)) @ stdin_records cs @ stdin_end True @ tail"
    and wr: "writable fd v1" "\<not> asyncIoInUse (aioState v1)"
  shows "\<exists>q1 v2 p q2 v3 fr. FCGX_Accept_r True addrs q v = Inr (0, q1, v2)
     \<and> envp q1 = Some (vec p) \<and> entries p = bytes ''FCGI_ROLE=RESPONDER'' # es
     \<and> serve (int n) body q1 v2 = Inr (take n (concat cs), Some q2, v3)
     \<and> framed 1 FCGI_STDOUT fr body
     \<and> sent (conns v3 fd) = sent (conns v1 fd) @ fr @ header_bytes (header_for FCGI_STDOUT 1 0 0)
         @ end_request_bytes 1 (appStatus (reqData q))
     \<and> \<not> isOpen (conns v3 fd)"
proof -
  obtain fr u where m: "framed 1 FCGI_PARAMS fr (pairs_bytes (map env_pair es))"
    "sent (conns u s) = sent (conns w s) @ begin_request @ fr @ header_bytes (header_for FCGI_PARAMS 1 0 0)" "sends_only s w u" "writable s u"
    "main_request r es (g, w) = (let g2 = g\<lparr>cgiRequestId := 1, fromWS := (fromWS g)\<lparr>bufNext := 0, bufStop := 0\<rparr>, webServerReadHandlerEOF := False\<rparr> in
       bindr (if bytesToRead g2 \<le> 0 then WriteStdinEof g2 else Inr g2) (\<lambda>g3. ScheduleIo (g3, u)))"
    by (rule main_request_sends [OF assms(1-3)])
  obtain g3 where "ScheduleIo (g3, u) = Inr (Run (g', w'))" using run unfolding m(5) Let_def bindr_Inr_iff by blast
  then have "sent (conns w' s) = sent (conns u s)" by (simp add: ScheduleIo_conns)
  then have i: "incoming fd v1 = rec_bytes FCGI_BEGIN_REQUEST 1 (begin_body_bytes \<lparr>b_roleB1 = 0, b_roleB0 = 1, b_flags = 0, b_reserved = replicate 5 0\<rparr>) []
      @ fr @ header_bytes (header_for FCGI_PARAMS 1 0 0) @ stdin_records cs @ stdin_end True @ tail"
    using inc m(2) by (simp add: begin_request_def)
  have role: "role_string (be16 0 1) = Some (bytes ''FCGI_ROLE=RESPONDER'')"
    by (simp add: role_string_def be16_def FCGI_RESPONDER_def)
  from request_served [OF q fd i closed_stream_records [OF m(1)] fits stdin_wire_records [OF chunks] _ _ _ _ wr, of "bytes ''FCGI_ROLE=RESPONDER''" n body]
  show ?thesis using role env_entries [OF assms(2)] by auto
qed

text \<open>For examples: the program as it is when it has connected, with one byte of standard input announced.\<close>

definition sample_main :: cgi where
  "sample_main = (sample_cgi (replicate BUFFLEN 0))\<lparr>fcgiReadPending := False, bytesToRead := 1,
     fromWS := \<lparr>bufNext = 0, bufStop = 0, bufData = replicate BUFFLEN 0\<rparr>, stdin_eof_sent := False\<rparr>"

definition sample_connected :: os where
  "sample_connected = sample_open\<lparr>aioState := aio_initial\<lparr>asyncIoTable := Some (replicate 16 zero_info)\<rparr>\<rparr>"

lemma sample_main_facts:
  "main_start 5 sample_main sample_connected" "fst (OS_Write 5 begin_request sample_connected) = 16" "incoming 5 sample_connected = []"
  "sent (conns sample_connected f) = []" "rPhase relay_start = Header []"
  by (simp_all add: main_start_def sample_main_def sample_cgi_def sample_connected_def sample_open_def sample_os_def sample_conn_def
      OS_LibInit_def aio_initial_def writable_def takes_all_def FD_SETSIZE_def OS_Write_takes_all begin_record incoming_def relay_start_def)

text \<open>The same connection with a whole response on it: standard output \<open>Hi\<close> and the application status 3.\<close>

definition sample_response :: "byte list" where
  "sample_response = response_bytes 1 [(FCGI_STDOUT, [72, 105], [0])] 3"

definition sample_served :: os where
  "sample_served = sample_connected\<lparr>conns := (conns sample_connected)(5 := (conns sample_connected 5)\<lparr>rdScript := [RdBytes sample_response]\<rparr>)\<rparr>"

lemma sample_served_facts:
  "main_start 5 sample_main sample_served" "fst (OS_Write 5 begin_request sample_served) = 16" "incoming 5 sample_served = sample_response"
  "sent (conns sample_served f) = []" "incoming STDIN_FILENO sample_served = []" "bytesToRead sample_main = 1"
  "kernel_errors 5 [SelectReady {5} {5}, SelectErr 4] sample_served = {4}"
  by (auto simp: main_start_def sample_main_def sample_cgi_def sample_served_def sample_connected_def sample_open_def sample_os_def sample_conn_def
      OS_LibInit_def aio_initial_def writable_def takes_all_def FD_SETSIZE_def OS_Write_takes_all begin_record incoming_def relay_start_def
      sample_response_def response_bytes_def rec_bytes_def header_bytes_def script_bytes_RdBytes STDIN_FILENO_def STDOUT_FILENO_def STDERR_FILENO_def
      kernel_errors_def reported_def fun_upd_def)

lemma sample_response_relayed:
  obtains r where "relay_bytes 1 sample_response relay_start = r" "rPhase r = Ended 0" "rStatus r = Some 3" "rOut r = [72, 105]" "rErr r = []"
proof -
  have "fresh relay_start" by (simp add: fresh_def relay_start_def)
  moreover have "list_all rec_ok [(FCGI_STDOUT, [72, 105], [0])]" by (simp add: rec_ok_def)
  moreover have "(0 :: int) \<le> 1" "(1 :: int) \<le> 65535" "- (2 ^ 31) \<le> (3 :: int)" "(3 :: int) < 2 ^ 31" by simp_all
  ultimately obtain r1 where "relay_bytes 1 sample_response relay_start = r1\<lparr>rPhase := Ended 0, rBody := [], rStatus := Some 3\<rparr>"
    "rOut r1 = rOut relay_start @ content_of FCGI_STDOUT [(FCGI_STDOUT, [72, 105], [0])]"
    "rErr r1 = rErr relay_start @ content_of FCGI_STDERR [(FCGI_STDOUT, [72, 105], [0])]"
    unfolding sample_response_def by (rule relay_response)
  moreover have "rOut relay_start = []" "rErr relay_start = []" by (simp_all add: relay_start_def)
  ultimately show ?thesis using stream_types
    by (intro that [of "relay_bytes 1 sample_response relay_start"]) (simp_all add: content_of_def)
qed

lemma sample_served_faults: "bridge_faults 5 sample_served = {}"
  by (simp add: bridge_faults_def sample_served_def sample_connected_def sample_open_def sample_os_def sample_conn_def small_reads_def
      STDIN_FILENO_def unsplit_def relay_start_def sample_response_def response_bytes_def rec_bytes_def BUFFLEN_def
      end_body_bytes_def header_bytes_def MakeEndRequestBody_def)

theorem cgi_fcgi_relays_witness:
  "\<exists>fr g' w'. framed 1 FCGI_PARAMS fr (pairs_bytes [([65], [66])])
    \<and> main_request zero_reqData [[65, 61, 66]] (sample_main, sample_served) = Inr (Run (g', w'))
    \<and> sent (conns w' 5) = begin_request @ fr @ header_bytes (header_for FCGI_PARAMS 1 0 0)
    \<and> outcome {Blocked} (bridge_exit 5 {4} 1 sample_response [] (sent (conns w' 5)) [] []) (\<lambda>_. False)
        (event_loop [SelectReady {5} {5}, SelectErr 4] (g', w'))"
proof -
  have "rPhase (relay_bytes 1 (incoming 5 sample_served) relay_start) \<noteq> Overrun"
    by (rule sample_response_relayed) (simp add: sample_served_facts)
  from cgi_fcgi_relays [OF sample_served_facts(1) _ sample_served_facts(2) this, of "[[65, 61, 66]]" zero_reqData "[SelectReady {5} {5}, SelectErr 4]"]
  show ?thesis by (simp add: sample_served_facts sample_served_faults env_pair_def)
qed

theorem cgi_fcgi_request_accepted_witness:
  "\<exists>g' w' X q q1 v2 p q2 v3 fr. main_request zero_reqData [[65, 61, 66]] (sample_main, sample_connected) = Inr (Run (g', w'))
     \<and> X = sent (conns w' 5) @ stdin_records [[88]] @ stdin_end True
     \<and> FCGX_Accept_r True None q (sample_os [RdBytes X]) = Inr (0, q1, v2)
     \<and> envp q1 = Some (vec p) \<and> entries p = bytes ''FCGI_ROLE=RESPONDER'' # [[65, 61, 66]]
     \<and> serve (int 9) [72] q1 v2 = Inr (take 9 (concat [[88]]), Some q2, v3) \<and> framed 1 FCGI_STDOUT fr [72]
     \<and> sent (conns v3 5) = fr @ header_bytes (header_for FCGI_STDOUT 1 0 0) @ end_request_bytes 1 0 \<and> \<not> isOpen (conns v3 5)"
proof -
  let ?es = "[[65, 61, 66 :: byte]]" and ?q = "(FCGX_InitRequest 0 0)\<lparr>reqData := zero_reqData\<lparr>ipcFd := 5, keepConnection := True\<rparr>\<rparr>"
  have es: "list_all (\<lambda>e. 0x3d \<in> set e) ?es" "list_all pair_fits (map env_pair ?es)" "list_all stdin_chunk [[88]]"
    by (simp_all add: pair_fits_def env_pair_def INT_MAX_def stdin_chunk_def BUFFLEN_def)
  have "rPhase (relay_bytes 1 (incoming 5 sample_connected) relay_start) \<noteq> Overrun" by (simp add: sample_main_facts)
  from main_request_relays [OF sample_main_facts(1) es(1) sample_main_facts(2) this, of zero_reqData "[]"]
  obtain g' w' where run: "main_request zero_reqData ?es (sample_main, sample_connected) = Inr (Run (g', w'))" by blast
  define X where "X = sent (conns w' 5) @ stdin_records [[88]] @ stdin_end True"
  let ?v = "sample_os [RdBytes X]"
  have "X \<noteq> []" by (simp add: X_def stdin_records_def rec_bytes_def)
  then have inc: "incoming 5 ?v = drop (length (sent (conns sample_connected 5))) (sent (conns w' 5)) @ stdin_records [[88]] @ stdin_end True @ []"
    by (simp add: incoming_def sample_os_def sample_conn_def script_bytes_RdBytes sample_main_facts X_def)
  have "no_request ?q" "(if ipcFd (reqData ?q) < 0 then OS_Accept (flags (reqData ?q) AND FCGI_FAIL_ACCEPT_ON_INTR \<noteq> 0) None ?v
      else Inr (ipcFd (reqData ?q), ?v)) = Inr (5, ?v)" "writable 5 ?v" "\<not> asyncIoInUse (aioState ?v)" "appStatus (reqData ?q) = 0" "sent (conns ?v 5) = []"
    by (simp_all add: no_request_def FCGX_InitRequest_def zero_reqData_def writable_def sample_os_def sample_conn_def is_short_write_def aio_initial_def)
  note srv = this
  from cgi_fcgi_request_accepted [OF sample_main_facts(1) es(1) sample_main_facts(2) es(2,3) run srv(1,2) _ inc srv(3,4), of 9 "[72]"]
  obtain q1 v2 p q2 v3 fr where "FCGX_Accept_r True None ?q ?v = Inr (0, q1, v2)" "envp q1 = Some (vec p)"
     "entries p = bytes ''FCGI_ROLE=RESPONDER'' # ?es" "serve (int 9) [72] q1 v2 = Inr (take 9 (concat [[88]]), Some q2, v3)"
     "framed 1 FCGI_STDOUT fr [72]"
     "sent (conns v3 5) = fr @ header_bytes (header_for FCGI_STDOUT 1 0 0) @ end_request_bytes 1 0" "\<not> isOpen (conns v3 5)"
    unfolding srv(5,6) append_Nil by auto
  then show ?thesis by (intro exI conjI) (rule run, rule X_def)
qed

text \<open>C38. When a read of the standard input fills the buffer so far that eight bytes are no longer free behind the record, and with it the announced
  \<open>CONTENT_LENGTH\<close> is reached, \<open>WebServerReadHandler\<close> writes the end-of-stream header past the end of the buffer; a body of 8177 to 8184
  bytes that arrives in one read is enough.\<close>

theorem WebServerReadHandler_overflow:
  assumes "wsReadPending g" "\<not> stdin_eof_sent g" "cgiRequestId g = 1" "bufNext (fromWS g) = 0" "bufStop (fromWS g) = 0"
    "BUFFLEN - 16 < n" "n \<le> BUFFLEN - 8" "bytesToRead g \<le> int n"
  shows "WebServerReadHandler (int n) (g, w) = Inl OutOfBounds"
  using assms MakeHeader_for [of n 0 FCGI_STDIN 1] MakeHeader_for [of 0 0 FCGI_STDIN 1]
  by (simp add: WebServerReadHandler_def WriteStdinEof_def Let_def BUFFLEN_def)

theorem WebServerReadHandler_overflow_witness:
  "WebServerReadHandler (int 8184) (sample_main\<lparr>wsReadPending := True, bytesToRead := 8184\<rparr>, sample_connected) = Inl OutOfBounds"
  by (rule WebServerReadHandler_overflow) (simp_all add: sample_main_def sample_cgi_def BUFFLEN_def)

end
