(* ===== verification/Fcgi_Socket.thy ===== *)
theory Fcgi_Socket
  imports Fcgi_Accept
begin

text \<open>
  Sockets, processes and signals of \<open>libfcgi/os_unix.c\<close>: the addresses a bind path stands for, listening sockets
  (\<open>OS_CreateLocalIpcFd\<close>), connecting ones (\<open>OS_FcgiConnect\<close>), child processes (\<open>OS_SpawnChild\<close>) and the installation of
  signal handlers. The configuration is that of Linux: \<open>struct sockaddr_un\<close> has no \<open>sun_len\<close>.

  The state \<open>net\<close> adds to the process what these functions reach: the sockets behind descriptors, the dispositions of signals, a script with the
  outcome of each system call, in order, and a log of what was asked of the kernel. A script that is used up lets every call succeed with the
  value zero. \<open>gethostbyname\<close> is an argument. \<open>perror\<close> and \<open>fprintf\<close> to \<open>stderr\<close> are log entries; they are taken to leave \<open>errno\<close> alone.
\<close>

unbundle bit_operations_syntax

section \<open>State\<close>

definition MAXPATHLEN :: nat where "MAXPATHLEN = 4096"
definition AF_UNIX :: int where "AF_UNIX = 1"
definition AF_INET :: int where "AF_INET = 2"
definition SUN_PATH_SIZE :: nat where "SUN_PATH_SIZE = 108"
definition INADDR_ANY :: "32 word" where "INADDR_ANY = 0"

definition SIGHUP :: int where "SIGHUP = 1"
definition SIGINT :: int where "SIGINT = 2"
definition SIGUSR1 :: int where "SIGUSR1 = 10"
definition SIGPIPE :: int where "SIGPIPE = 13"
definition SIGTERM :: int where "SIGTERM = 15"

lemmas socket_consts = MAXPATHLEN_def AF_UNIX_def AF_INET_def SUN_PATH_SIZE_def INADDR_ANY_def
lemmas signal_defs = SIGHUP_def SIGINT_def SIGUSR1_def SIGPIPE_def SIGTERM_def

text \<open>\<open>struct sockaddr_un\<close> and \<open>struct sockaddr_in\<close>, with the length given to the kernel; port and address in host order.\<close>

record sockaddr_un =
  sun_family :: int
  sun_path :: "byte list"

datatype sockaddr = SockUnix sockaddr_un nat | SockInet "32 word" "16 word"

record hostent =
  h_addrtype :: int
  h_addr_list :: "byte list list"

datatype handler = SIG_DFL | SIG_IGN | OS_SigpipeHandler | OS_Sigusr1Handler | handle_shutdown_handler | OtherHandler nat

text \<open>What is behind a descriptor of a socket: the address it is bound to, the backlog once it listens, the peer.\<close>

record sock =
  s_bound :: "sockaddr option"
  s_backlog :: "int option"
  s_peer :: "sockaddr option"

definition new_sock :: sock where
  "new_sock = \<lparr>s_bound = None, s_backlog = None, s_peer = None\<rparr>"

datatype net_event = CallOk int | CallErr int | CallPeer conn

datatype net_call =
    CallSocket int | CallReuseAddr int | CallUnlink "byte list" | CallBind int sockaddr | CallListen int int
  | CallConnect int sockaddr | CallFork | CallAccess "byte list" | CallExec "byte list" | CallMessage "byte list"
  | CallKill int int | CallSetsid | CallWait

record net =
  nos :: os
  socks :: "int \<Rightarrow> sock"
  netScript :: "net_event list"
  handlers :: "int \<Rightarrow> handler"
  netLog :: "net_call list"

text \<open>A process goes on, ends with a status, or becomes another program.\<close>

datatype 'a proc = ProcExit int net | ProcExec "byte list" net | Proc 'a

definition bindq :: "'a proc res \<Rightarrow> ('a \<Rightarrow> 'b proc res) \<Rightarrow> 'b proc res" where
  "bindq m k = bindr m (\<lambda>r. case r of ProcExit c n \<Rightarrow> Inr (ProcExit c n) | ProcExec p n \<Rightarrow> Inr (ProcExec p n) | Proc x \<Rightarrow> k x)"

lemma bindq_simps [simp, res_simps]:
  "bindq (Inl f) k = Inl f"
  "bindq (Inr (ProcExit c n)) k = Inr (ProcExit c n)"
  "bindq (Inr (ProcExec p n)) k = Inr (ProcExec p n)"
  "bindq (Inr (Proc x)) k = k x"
  by (simp_all add: bindq_def)

lemma bindq_cong [fundef_cong]:
  "m = m' \<Longrightarrow> (\<And>x. m' = Inr (Proc x) \<Longrightarrow> k x = k' x) \<Longrightarrow> bindq m k = bindq m' k'"
  by (cases m') (auto simp: bindq_def split: proc.splits)

section \<open>System calls\<close>

definition log_call :: "net_call \<Rightarrow> net \<Rightarrow> net" where
  "log_call c n = n\<lparr>netLog := netLog n @ [c]\<rparr>"

definition next_event :: "net \<Rightarrow> net_event \<times> net" where
  "next_event n = (case netScript n of [] \<Rightarrow> (CallOk 0, n) | e # es \<Rightarrow> (e, n\<lparr>netScript := es\<rparr>))"

definition put_errno :: "int \<Rightarrow> net \<Rightarrow> net" where
  "put_errno e n = n\<lparr>nos := (nos n)\<lparr>osErrno := e\<rparr>\<rparr>"

definition net_errno :: "net \<Rightarrow> int" where
  "net_errno n = osErrno (nos n)"

text \<open>A call whose effect, if it succeeds, is \<open>f\<close>.\<close>

definition syscall :: "net_call \<Rightarrow> (int \<Rightarrow> net \<Rightarrow> net) \<Rightarrow> net \<Rightarrow> int \<times> net" where
  "syscall c f n = (case next_event (log_call c n) of (e, n1) \<Rightarrow>
     (case e of CallOk v \<Rightarrow> (v, f v n1) | CallErr x \<Rightarrow> (- 1, put_errno x n1) | CallPeer p \<Rightarrow> (0, f 0 n1)))"

definition fresh_conn :: conn where
  "fresh_conn = \<lparr>isOpen = True, rdScript = [], wrScript = [], sent = [], pollScript = [], isSocket = True\<rparr>"

definition put_sock :: "int \<Rightarrow> conn \<Rightarrow> sock \<Rightarrow> net \<Rightarrow> net" where
  "put_sock fd c s n = n\<lparr>nos := (nos n)\<lparr>conns := (conns (nos n))(fd := c)\<rparr>, socks := (socks n)(fd := s)\<rparr>"

definition upd_sock :: "int \<Rightarrow> (sock \<Rightarrow> sock) \<Rightarrow> net \<Rightarrow> net" where
  "upd_sock fd f n = n\<lparr>socks := (socks n)(fd := f (socks n fd))\<rparr>"

definition posix_socket :: "int \<Rightarrow> net \<Rightarrow> int \<times> net" where
  "posix_socket family = syscall (CallSocket family) (\<lambda>fd. put_sock fd fresh_conn new_sock)"

definition posix_setsockopt :: "int \<Rightarrow> net \<Rightarrow> int \<times> net" where
  "posix_setsockopt fd = syscall (CallReuseAddr fd) (\<lambda>_ n. n)"

definition posix_bind :: "int \<Rightarrow> sockaddr \<Rightarrow> net \<Rightarrow> int \<times> net" where
  "posix_bind fd sa = syscall (CallBind fd sa) (\<lambda>_. upd_sock fd (\<lambda>s. s\<lparr>s_bound := Some sa\<rparr>))"

definition posix_listen :: "int \<Rightarrow> int \<Rightarrow> net \<Rightarrow> int \<times> net" where
  "posix_listen fd backlog = syscall (CallListen fd backlog) (\<lambda>_. upd_sock fd (\<lambda>s. s\<lparr>s_backlog := Some backlog\<rparr>))"

text \<open>\<open>CallPeer c\<close> is a connection to a peer that behaves as \<open>c\<close> says.\<close>

definition posix_connect :: "int \<Rightarrow> sockaddr \<Rightarrow> net \<Rightarrow> int \<times> net" where
  "posix_connect fd sa n = (case next_event (log_call (CallConnect fd sa) n) of (e, n1) \<Rightarrow>
     (case e of CallOk v \<Rightarrow> (v, upd_sock fd (\<lambda>s. s\<lparr>s_peer := Some sa\<rparr>) n1) | CallErr x \<Rightarrow> (- 1, put_errno x n1)
      | CallPeer c \<Rightarrow> (0, put_sock fd (c\<lparr>isOpen := True\<rparr>) ((socks n1 fd)\<lparr>s_peer := Some sa\<rparr>) n1)))"

definition posix_unlink :: "byte list \<Rightarrow> net \<Rightarrow> net" where
  "posix_unlink path = log_call (CallUnlink path)"

definition close_fd :: "int \<Rightarrow> net \<Rightarrow> net" where
  "close_fd fd n = n\<lparr>nos := snd (posix_close fd (nos n)), socks := (socks n)(fd := new_sock)\<rparr>"

definition posix_dup2 :: "int \<Rightarrow> int \<Rightarrow> net \<Rightarrow> int \<times> net" where
  "posix_dup2 old fd n = (if isOpen (conns (nos n) old) then (fd, put_sock fd (conns (nos n) old) (socks n old) n)
     else (- 1, put_errno EBADF n))"

definition message :: "byte list \<Rightarrow> net \<Rightarrow> net" where
  "message s = log_call (CallMessage s)"

definition fatal :: "int \<Rightarrow> byte list \<Rightarrow> net \<Rightarrow> 'a proc res" where
  "fatal status s n = Inr (ProcExit status (message s n))"

lemma bindq_Proc_iff:
  "bindq m k = Inr (Proc y) \<longleftrightarrow> (\<exists>x. m = Inr (Proc x) \<and> k x = Inr (Proc y))"
  by (cases m) (auto simp: bindq_def split: proc.splits)

lemma bindq_Exec_iff:
  "bindq m k = Inr (ProcExec p n) \<longleftrightarrow> m = Inr (ProcExec p n) \<or> (\<exists>x. m = Inr (Proc x) \<and> k x = Inr (ProcExec p n))"
  by (cases m) (auto simp: bindq_def split: proc.splits)

lemma fatal_not_Proc [simp]: "fatal c s n \<noteq> Inr (Proc x)" "fatal c s n \<noteq> Inr (ProcExec p m)"
  by (simp_all add: fatal_def)

section \<open>Bind paths\<close>

text \<open>\<open>atoi\<close>; the C standard leaves a value that is not an \<open>int\<close> undefined.\<close>

definition atoi :: "byte list \<Rightarrow> int res" where
  "atoi s = (let t = dropWhile is_space s;
       u = (if t \<noteq> [] \<and> (hd t = 45 \<or> hd t = 43) then tl t else t);
       v = int (fst (read_digits 10 0 u));
       n = (if t \<noteq> [] \<and> hd t = 45 then - v else v)
     in if - (2 ^ 31) \<le> n \<and> n < 2 ^ 31 then Inr n else Inl Undefined)"

text \<open>
  The block that both functions begin with: the host part of a path \<open>host:port\<close> and the port. \<open>port = atoi(++tp)\<close> is
  stored in a \<open>short\<close>; \<open>htons\<close> takes its 16 bits. A port of zero restores the colon.
\<close>

definition split_bind_path :: "byte list \<Rightarrow> (byte list \<times> 16 word) res" where
  "split_bind_path bindPath =
     (if 58 \<in> set bindPath then
        bindr (atoi (tl (dropWhile (\<lambda>b. b \<noteq> 58) bindPath))) (\<lambda>v.
          let port = word_of_int v in
          Inr (if port = 0 then bindPath else takeWhile (\<lambda>b. b \<noteq> 58) bindPath, port))
      else Inr (bindPath, 0))"

text \<open>\<open>OS_BuildSockAddrUn\<close>; \<open>None\<close> is the return value -1.\<close>

definition OS_BuildSockAddrUn :: "byte list \<Rightarrow> sockaddr option" where
  "OS_BuildSockAddrUn bindPath =
     (let bindPathLen = length bindPath in
      if SUN_PATH_SIZE < bindPathLen then None
      else Some (SockUnix \<lparr>sun_family = AF_UNIX, sun_path = put_bytes 0 bindPath (replicate SUN_PATH_SIZE 0)\<rparr> (2 + bindPathLen)))"

text \<open>The name the kernel takes from such an address.\<close>

definition unix_name :: "sockaddr_un \<Rightarrow> nat \<Rightarrow> byte list" where
  "unix_name sa len = take (len - 2) (sun_path sa)"

section \<open>Listening\<close>

text \<open>The address of the first entry of \<open>h_addr_list\<close>, most significant byte first.\<close>

definition host_word :: "byte list \<Rightarrow> 32 word" where
  "host_word a = word_of_int (uint (a ! 0) * 2 ^ 24 + uint (a ! 1) * 2 ^ 16 + uint (a ! 2) * 2 ^ 8 + uint (a ! 3))"

definition listen_address :: "(byte list \<Rightarrow> hostent option) \<Rightarrow> byte list \<Rightarrow> net \<Rightarrow> (32 word) proc res" where
  "listen_address gethostbyname host n =
     (if host = [] \<or> host = bytes ''*'' then Inr (Proc INADDR_ANY)
      else if inet_addr host \<noteq> INADDR_NONE then Inr (Proc (inet_addr host))
      else case gethostbyname host of
        None \<Rightarrow> fatal 1 (bytes ''Cannot resolve host name'') n
      | Some hep \<Rightarrow>
          if h_addrtype hep \<noteq> AF_INET \<or> h_addr_list hep = [] then fatal 1 (bytes ''Cannot resolve host name'') n
          else if 1 < length (h_addr_list hep) then fatal 1 (bytes ''Host has multiple addresses'') n
          else inbounds (4 \<le> length (h_addr_list hep ! 0)) (Inr (Proc (host_word (h_addr_list hep ! 0)))))"

definition listen_socket :: "(byte list \<Rightarrow> hostent option) \<Rightarrow> byte list \<Rightarrow> 16 word \<Rightarrow> net \<Rightarrow> (32 word \<times> int \<times> net) proc res" where
  "listen_socket gethostbyname host port n =
     (if port \<noteq> 0 then
        bindq (listen_address gethostbyname host n) (\<lambda>tcp_ia.
        case posix_socket AF_INET n of (listenSock, n1) \<Rightarrow>
          if 0 \<le> listenSock then
            (case posix_setsockopt listenSock n1 of (r, n2) \<Rightarrow>
               if r < 0 then fatal 1001 (bytes ''Can't set SO_REUSEADDR.'') n2 else Inr (Proc (tcp_ia, listenSock, n2)))
          else Inr (Proc (tcp_ia, listenSock, n1)))
      else case posix_socket AF_UNIX n of (listenSock, n1) \<Rightarrow> Inr (Proc (0, listenSock, n1)))"

definition OS_CreateLocalIpcFd ::
    "(byte list \<Rightarrow> hostent option) \<Rightarrow> byte list \<Rightarrow> int \<Rightarrow> net \<Rightarrow> (int \<times> net) proc res" where
  "OS_CreateLocalIpcFd gethostbyname bindPath backlog n =
     (if MAXPATHLEN \<le> length bindPath then fatal 1 (bytes ''bind path too long'') n
      else bindr (split_bind_path bindPath) (\<lambda>(host, port).
      bindq (listen_socket gethostbyname host port n) (\<lambda>(tcp_ia, listenSock, n1).
      if listenSock < 0 then Inr (Proc (- 1, n1))
      else
        bindq (if port \<noteq> 0 then Inr (Proc (SockInet tcp_ia port, n1))
               else let n2 = posix_unlink bindPath n1 in
                 case OS_BuildSockAddrUn bindPath of
                   None \<Rightarrow> fatal 1000 (bytes ''Listening socket's path name is too long.'') n2
                 | Some sa \<Rightarrow> Inr (Proc (sa, n2)))
          (\<lambda>(sa, n2).
        case posix_bind listenSock sa n2 of (r, n3) \<Rightarrow>
          if r < 0 then fatal (net_errno n3) (bytes ''bind/listen'') n3
          else case posix_listen listenSock backlog n3 of (r, n4) \<Rightarrow>
            if r < 0 then fatal (net_errno n4) (bytes ''bind/listen'') n4 else Inr (Proc (listenSock, n4))))))"

text \<open>\<open>FCGX_OpenSocket\<close> of \<open>fcgiapp.c\<close>; \<open>isFastCGI\<close> is the cached answer of \<open>FCGX_IsCGI\<close>.\<close>

definition FCGX_OpenSocket ::
    "(byte list \<Rightarrow> hostent option) \<Rightarrow> byte list \<Rightarrow> int \<Rightarrow> int \<times> net \<Rightarrow> (int \<times> int \<times> net) proc res" where
  "FCGX_OpenSocket gethostbyname path backlog = (\<lambda>(isFastCGI, n).
     bindq (OS_CreateLocalIpcFd gethostbyname path backlog n) (\<lambda>(rc, n1).
       Inr (Proc (rc, (if rc = FCGI_LISTENSOCK_FILENO \<and> isFastCGI = 0 then 1 else isFastCGI), n1))))"

section \<open>Connecting\<close>

text \<open>
  \<open>memcpy(&sa.inetVariant.sin_addr, hp->h_addr, hp->h_length)\<close>: the first four bytes are the address, the rest falls
  into the union. An entry of fewer bytes leaves the address unset.
\<close>

definition connect_address :: "(byte list \<Rightarrow> hostent option) \<Rightarrow> byte list \<Rightarrow> byte list \<Rightarrow> 16 word \<Rightarrow> net \<Rightarrow> sockaddr proc res" where
  "connect_address gethostbyname bindPath host port n =
     (if port \<noteq> 0 then
        (case gethostbyname (if host \<noteq> [] then host else bytes ''localhost'') of
           None \<Rightarrow> fatal 1000 (bytes ''Unknown host'') n
         | Some hp \<Rightarrow> inbounds (h_addr_list hp \<noteq> [] \<and> length (h_addr_list hp ! 0) \<le> 106)
             (if length (h_addr_list hp ! 0) < 4 then Inl Undefined
              else Inr (Proc (SockInet (host_word (h_addr_list hp ! 0)) port))))
      else case OS_BuildSockAddrUn bindPath of
        None \<Rightarrow> fatal 1000 (bytes ''Listening socket's path name is too long.'') n
      | Some sa \<Rightarrow> Inr (Proc sa))"

definition OS_FcgiConnect :: "(byte list \<Rightarrow> hostent option) \<Rightarrow> byte list \<Rightarrow> net \<Rightarrow> (int \<times> net) proc res" where
  "OS_FcgiConnect gethostbyname bindPath n =
     (if MAXPATHLEN \<le> length bindPath then fatal 1 (bytes ''bind path too long'') n
      else bindr (split_bind_path bindPath) (\<lambda>(host, port).
      bindq (connect_address gethostbyname bindPath host port n) (\<lambda>sa.
      case posix_socket (if port \<noteq> 0 then AF_INET else AF_UNIX) n of (resultSock, n1) \<Rightarrow>
      assertr (0 \<le> resultSock)
       (case posix_connect resultSock sa n1 of (connectStatus, n2) \<Rightarrow>
          if 0 \<le> connectStatus then Inr (Proc (resultSock, n2))
          else Inr (Proc (- 1, close_fd resultSock n2))))))"

section \<open>Child processes\<close>

text \<open>
  \<open>fork\<close> returns zero in the child. The state followed is that of the process \<open>fork\<close> returns in; the child's is a copy of the
  parent's. \<open>FCGI_LISTENSOCK_FILENO\<close> is descriptor 0.
\<close>

definition spawned :: "byte list \<Rightarrow> int \<Rightarrow> net \<Rightarrow> 'a proc res" where
  "spawned appPath listenFd n =
     (let n1 = close_fd 0 n;
          n2 = (if listenFd \<noteq> FCGI_LISTENSOCK_FILENO
                then close_fd listenFd (snd (posix_dup2 listenFd FCGI_LISTENSOCK_FILENO n1)) else n1);
          n3 = close_fd 2 (close_fd 1 n2)
      in case syscall (CallExec appPath) (\<lambda>_ n. n) n3 of (r, n4) \<Rightarrow>
        Inr (if r < 0 then ProcExit (net_errno n4) n4 else ProcExec appPath n4))"

definition OS_SpawnChild :: "byte list \<Rightarrow> int \<Rightarrow> net \<Rightarrow> (int \<times> net) proc res" where
  "OS_SpawnChild appPath listenFd n =
     (case syscall CallFork (\<lambda>_ n. n) n of (forkResult, n1) \<Rightarrow>
        if forkResult < 0 then Inr (ProcExit (net_errno n1) n1)
        else if forkResult = 0 then spawned appPath listenFd n1
        else Inr (Proc (0, n1)))"

section \<open>Signals\<close>

definition sigaction :: "int \<Rightarrow> handler \<Rightarrow> net \<Rightarrow> net" where
  "sigaction signo h n = n\<lparr>handlers := (handlers n)(signo := h)\<rparr>"

definition installSignalHandler :: "int \<Rightarrow> handler \<Rightarrow> bool \<Rightarrow> net \<Rightarrow> net" where
  "installSignalHandler signo act force n =
     (if force \<or> handlers n signo = SIG_DFL \<or> handlers n signo = SIG_IGN then sigaction signo act n else n)"

definition OS_InstallSignalHandlers :: "bool \<Rightarrow> net \<Rightarrow> net" where
  "OS_InstallSignalHandlers force n =
     installSignalHandler SIGTERM OS_Sigusr1Handler False
      (installSignalHandler SIGUSR1 OS_Sigusr1Handler force
        (installSignalHandler SIGPIPE OS_SigpipeHandler force n))"

text \<open>What the handlers do when a signal arrives.\<close>

definition OS_Sigusr1Handler_run :: "int \<Rightarrow> net \<Rightarrow> net" where
  "OS_Sigusr1Handler_run signo n = n\<lparr>nos := (nos n)\<lparr>shutdownPending := True\<rparr>\<rparr>"

definition OS_SigpipeHandler_run :: "int \<Rightarrow> net \<Rightarrow> net" where
  "OS_SigpipeHandler_run signo n = n"

end
