(* ===== verification/Fcgi_Main.thy ===== *)
theory Fcgi_Main
  imports Fcgi_Socket Fcgi_Cgi Fcgi_Params
begin

text \<open>
  The beginning of \<open>cgi-fcgi\<close>: the command line (\<open>ParseArgs\<close>, with command files), the starting of application servers
  (\<open>FCGI_Start\<close>), the signal handler, and \<open>main\<close>, which connects to a server or starts some and then sends the request. \<open>files\<close> gives the
  contents of command files. \<open>exit\<close> is \<open>FCGIexit\<close> in this source file.
\<close>

section \<open>The command line\<close>

definition MAXARGS :: nat where "MAXARGS = 16"
definition BUFSIZ :: nat where "BUFSIZ = 8192"

record args =
  doBind :: bool
  doStart :: bool
  connectPath :: "byte list"
  appPath :: "byte list"
  nServers :: int
  doDaemon :: bool

definition initial_args :: args where
  "initial_args = \<lparr>doBind = True, doStart = True, connectPath = [], appPath = [], nServers = 0, doDaemon = True\<rparr>"

text \<open>\<open>exit(code)\<close>\<close>

definition cgi_exit :: "int \<Rightarrow> cgi \<times> net \<Rightarrow> 'a proc res" where
  "cgi_exit code = (\<lambda>(g, n). bindr (FCGIexit code (g, nos n) :: unit run res) (\<lambda>r.
     case r of Exit c w \<Rightarrow> Inr (ProcExit c (n\<lparr>nos := w\<rparr>)) | Run _ \<Rightarrow> Inl NoReturn))"

text \<open>One call of \<open>fgets(line, BUFSIZ, fp)\<close>: the line and the rest of the file.\<close>

definition fgets_line :: "byte list \<Rightarrow> byte list \<times> byte list" where
  "fgets_line content =
     (let k = length (takeWhile (\<lambda>b. b \<noteq> 10) (take (BUFSIZ - 1) content));
          m = min (Suc k) (BUFSIZ - 1)
      in (take m content, drop m content))"

text \<open>
  The arguments in one line. \<open>strrchr\<close> and the rest see the line as a C string. The loop that removes blanks from the end
  steps back from the newline; on a blank line it reads the byte before the array.
\<close>

definition line_args :: "byte list \<Rightarrow> (byte list list) option res" where
  "line_args line =
     (let s = c_str line in
      if s \<noteq> [] \<and> hd s = 35 then Inr (Some [])
      else if 10 \<notin> set s then Inr None
      else let t = rev (dropWhile (\<lambda>b. b = 32 \<or> b = 9) (rev (takeWhile (\<lambda>b. b \<noteq> 10) s)))
        in inbounds (t \<noteq> []) (Inr (Some (split_at 32 t))))"

text \<open>The \<open>while(fgets(...))\<close> loop. \<open>av\<close> are the arguments so far, without \<open>av[0]\<close>; \<open>None\<close> is the return for a line that is too long.\<close>

function file_args :: "byte list list \<Rightarrow> byte list \<Rightarrow> cgi \<times> net \<Rightarrow> (byte list list) option proc res" where
  "file_args av content s =
     (if content = [] then Inr (Proc (Some av))
      else case fgets_line content of (line, rest) \<Rightarrow>
        bindr (line_args line) (\<lambda>x. case x of None \<Rightarrow> Inr (Proc None)
        | Some toks \<Rightarrow>
            if MAXARGS \<le> length av + length toks then cgi_exit (- 1) s
            else file_args (av @ toks) rest s))"
  by pat_completeness auto
termination
  by (relation "measure (\<lambda>(av, content, s). length content)") (auto simp: fgets_line_def BUFSIZ_def Let_def)

declare file_args.simps [simp del]

text \<open>
  The loop over the arguments. \<open>parse\<close> is the recursive call for a command file. The boolean says that the function has returned;
  otherwise the loop has come to its end.
\<close>

fun parse_loop ::
    "(byte list \<Rightarrow> byte list option) \<Rightarrow> (byte list list \<Rightarrow> cgi \<times> net \<Rightarrow> (int \<times> args \<times> cgi \<times> net) proc res) \<Rightarrow>
     byte list list \<Rightarrow> int \<times> args \<times> cgi \<times> net \<Rightarrow> (bool \<times> int \<times> args \<times> cgi \<times> net) proc res" where
  "parse_loop files parse [] (err, x, g, n) = Inr (Proc (False, err, x, g, n))"
| "parse_loop files parse (a # as) (err, x, g, n) =
     (if a \<noteq> [] \<and> hd a = 45 then
        if a = bytes ''-f'' then
          (case as of [] \<Rightarrow> Inr (Proc (True, 1, x, g, message (bytes ''Missing command file name after -f'') n))
           | f # _ \<Rightarrow>
              (case files f of None \<Rightarrow> Inr (Proc (True, 1, x, g, message (bytes ''Cannot open command file'') n))
               | Some content \<Rightarrow>
                   bindq (file_args [] content (g, n)) (\<lambda>r. case r of
                     None \<Rightarrow> Inr (Proc (True, 1, x, g, message (bytes ''Line to long'') n))
                   | Some av \<Rightarrow> bindq (parse av (g, n)) (\<lambda>(err1, x1, g1, n1). Inr (Proc (True, err1, x1, g1, n1))))))
        else if a = bytes ''-start'' then parse_loop files parse as (err, x\<lparr>doBind := False\<rparr>, g, n)
        else if a = bytes ''-bind'' then parse_loop files parse as (err, x\<lparr>doStart := False\<rparr>, g, n)
        else if a = bytes ''-connect'' then
          (case as of [] \<Rightarrow> Inr (Proc (False, err + 1, x, g, message (bytes ''Missing connection name after -connect'') n))
           | c # as1 \<Rightarrow>
               if length c < MAXPATHLEN then parse_loop files parse as1 (err, x\<lparr>connectPath := c\<rparr>, g, n)
               else parse_loop files parse as1 (err + 1, x, g, message (bytes ''bind path too long'') n))
        else if a = bytes ''-supervise'' then parse_loop files parse as (err, x\<lparr>doDaemon := False\<rparr>, g, n)
        else parse_loop files parse as (err + 1, x, g, message (bytes ''Unknown option'') n)
      else if appPath x = [] then
        if length a < MAXPATHLEN then parse_loop files parse as (err, x\<lparr>appPath := a\<rparr>, g, n)
        else parse_loop files parse as (err + 1, x, g, message (bytes ''bind path too long'') n)
      else if a \<noteq> [] \<and> digit_of 10 (hd a) \<noteq> None \<and> nServers x = 0 then
        bindr (atoi a) (\<lambda>v.
          if v \<le> 0 then parse_loop files parse as (err + 1, x\<lparr>nServers := v\<rparr>, g, message (bytes ''Number of servers must be greater than 0'') n)
          else parse_loop files parse as (err, x\<lparr>nServers := v\<rparr>, g, n))
      else parse_loop files parse as (err + 1, x, g, message (bytes ''Unknown argument'') n))"

declare parse_loop.simps(2) [simp del]

text \<open>The checks after the loop.\<close>

definition parse_end :: "int \<times> args \<times> cgi \<times> net \<Rightarrow> int \<times> args \<times> cgi \<times> net" where
  "parse_end = (\<lambda>(err, x, g, n).
     let (err1, n1) = (if doStart x \<and> appPath x = [] then (err + 1, message (bytes ''Missing application pathname'') n) else (err, n));
         (err2, n2) = (if connectPath x = [] then (err1 + 1, message (bytes ''Missing -connect <connName>'') n1) else (err1, n1))
     in (err2, (if nServers x = 0 then x\<lparr>nServers := 1\<rparr> else x), g, n2))"

text \<open>\<open>ParseArgs\<close>, for the arguments after the program name. Fuel bounds the nesting of command files.\<close>

fun ParseArgs ::
    "nat \<Rightarrow> (byte list \<Rightarrow> byte list option) \<Rightarrow> byte list list \<Rightarrow> cgi \<times> net \<Rightarrow> (int \<times> args \<times> cgi \<times> net) proc res" where
  "ParseArgs 0 files argv s = Inl NoReturn"
| "ParseArgs (Suc fuel) files argv s =
     bindq (parse_loop files (ParseArgs fuel files) argv (0, initial_args, s)) (\<lambda>(returned, r).
       Inr (Proc (if returned then r else parse_end r)))"

section \<open>Starting servers\<close>

fun spawn_servers :: "nat \<Rightarrow> byte list \<Rightarrow> int \<Rightarrow> cgi \<times> net \<Rightarrow> (cgi \<times> net) proc res" where
  "spawn_servers 0 path listenFd s = Inr (Proc s)"
| "spawn_servers (Suc k) path listenFd (g, n) =
     bindq (OS_SpawnChild path listenFd n) (\<lambda>(r, n1).
       if r = - 1 then cgi_exit (net_errno n1) (g, n1) else spawn_servers k path listenFd (g, n1))"

definition FCGI_Start ::
    "(byte list \<Rightarrow> hostent option) \<Rightarrow> byte list \<Rightarrow> byte list \<Rightarrow> int \<Rightarrow> cgi \<times> net \<Rightarrow> (cgi \<times> net) proc res" where
  "FCGI_Start gethostbyname bindPath path servers = (\<lambda>(g, n).
     bindq (OS_CreateLocalIpcFd gethostbyname bindPath 5 n) (\<lambda>(listenFd, n1).
     if listenFd = - 1 then cgi_exit (net_errno n1) (g, n1)
     else case syscall (CallAccess path) (\<lambda>_ n. n) n1 of (r, n2) \<Rightarrow>
       if r = - 1 then cgi_exit 1 (g, message (bytes ''not executable'') n2)
       else bindq (spawn_servers (nat servers) path listenFd (g, n2)) (\<lambda>(g3, n3).
         bindr (OS_Close listenFd True (nos n3)) (\<lambda>(_, w). Inr (Proc (g3, n3\<lparr>nos := w, socks := (socks n3)(listenFd := new_sock)\<rparr>))))))"

section \<open>main\<close>

text \<open>The static variables when the program starts: zero, but for \<open>appServerSock\<close>.\<close>

definition static_cgi :: cgi where
  "static_cgi = \<lparr>wsReadPending = False, fcgiReadPending = False, fcgiWritePending = False, bytesToRead = 0, appServerSock = - 1,
     fromAS = \<lparr>bufNext = 0, bufStop = 0, bufData = replicate BUFFLEN 0\<rparr>, asHeader = replicate 8 0, headerLen = 0, asContentLen = 0,
     asPaddingLen = 0, cgiRequestId = 0, erBody = replicate 8 0, readingEndRequestBody = False, exitStatus = 0, exitStatusSet = False,
     fromWS = \<lparr>bufNext = 0, bufStop = 0, bufData = replicate BUFFLEN 0\<rparr>, webServerReadHandlerEOF = False, stdin_eof_sent = False,
     cgiLibInit = False\<rparr>"

definition handle_shutdown :: "int \<Rightarrow> cgi \<times> net \<Rightarrow> 'a proc res" where
  "handle_shutdown s = (\<lambda>(g, n). cgi_exit 0 (g, log_call (CallKill 0 s) (sigaction s SIG_IGN n)))"

definition getenv :: "byte list \<Rightarrow> byte list list \<Rightarrow> byte list option" where
  "getenv name envp = map_option (drop (length name + 1)) (find (name_matches name) envp)"

definition content_length :: "byte list list \<Rightarrow> int res" where
  "content_length envp = (case getenv (bytes ''CONTENT_LENGTH'') envp of None \<Rightarrow> Inr 0 | Some v \<Rightarrow> atoi v)"

text \<open>
  The part of \<open>main\<close> before the connection: the library, the length of the input, the signals. \<open>alloc\<close> says whether
  \<open>OS_LibInit\<close> gets memory; the signal handlers it installs are in \<open>net\<close>, so that its call of \<open>OS_InstallSignalHandlers\<close> stands here.
\<close>

definition main_prepare :: "bool \<Rightarrow> byte list list \<Rightarrow> cgi \<times> net \<Rightarrow> (cgi \<times> net) proc res" where
  "main_prepare alloc envp = (\<lambda>(g, n).
     case OS_LibInit alloc (cgiLibInit g) (nos n) of (rc, li, w) \<Rightarrow>
       let n1 = (if rc = 0 \<and> \<not> cgiLibInit g then OS_InstallSignalHandlers False (n\<lparr>nos := w\<rparr>) else n\<lparr>nos := w\<rparr>);
           g1 = g\<lparr>cgiLibInit := li\<rparr> in
       if rc \<noteq> 0 then cgi_exit 0 (g1, message (bytes ''Error initializing OS library'') n1)
       else bindr (content_length envp) (\<lambda>len.
         Inr (Proc (g1\<lparr>bytesToRead := len\<rparr>,
           sigaction SIGTERM handle_shutdown_handler (sigaction SIGINT handle_shutdown_handler
             (sigaction SIGHUP handle_shutdown_handler (log_call CallSetsid n1)))))))"

definition connect_server :: "(byte list \<Rightarrow> hostent option) \<Rightarrow> byte list \<Rightarrow> cgi \<times> net \<Rightarrow> (cgi \<times> net) proc res" where
  "connect_server gethostbyname bindPath = (\<lambda>(g, n).
     bindq (OS_FcgiConnect gethostbyname bindPath n) (\<lambda>(fd, n1). Inr (Proc (g\<lparr>appServerSock := fd\<rparr>, n1))))"

text \<open>The branch for \<open>-start\<close>, which does not relay a request.\<close>

definition main_started :: "args \<Rightarrow> cgi \<times> net \<Rightarrow> 'a proc res" where
  "main_started x = (\<lambda>(g, n).
     let n1 = (if doDaemon x then n else (log_call CallWait ^^ nat (nServers x)) n) in
     cgi_exit 0 (g, log_call (CallKill 0 SIGTERM) (sigaction SIGTERM SIG_IGN n1)))"

definition main_connect :: "(byte list \<Rightarrow> hostent option) \<Rightarrow> args \<Rightarrow> cgi \<times> net \<Rightarrow> (cgi \<times> net) proc res" where
  "main_connect gethostbyname x s =
     bindq (if doBind x then connect_server gethostbyname (connectPath x) s else Inr (Proc s)) (\<lambda>s1.
     bindq (if doStart x \<and> (\<not> doBind x \<or> appServerSock (fst s1) < 0) then
              bindq (FCGI_Start gethostbyname (connectPath x) (appPath x) (nServers x) s1) (\<lambda>s2.
                if \<not> doBind x then main_started x s2 else connect_server gethostbyname (connectPath x) s2)
            else Inr (Proc s1)) (\<lambda>s3.
     if appServerSock (fst s3) < 0
     then cgi_exit (net_errno (snd s3)) (fst s3, message (bytes ''Could not connect to'') (snd s3))
     else Inr (Proc s3)))"

text \<open>The whole program; \<open>sels\<close> is what successive calls of \<open>select\<close> answer, as in \<open>event_loop\<close>.\<close>

definition run_request :: "FCGX_ReqData \<Rightarrow> byte list list \<Rightarrow> select_event list \<Rightarrow> cgi \<times> net \<Rightarrow> unit proc res" where
  "run_request r envp sels = (\<lambda>(g, n).
     bindr (bindp (main_request r envp (g, nos n)) (event_loop sels)) (\<lambda>x.
       case x of Exit c w \<Rightarrow> Inr (ProcExit c (n\<lparr>nos := w\<rparr>)) | Run u \<Rightarrow> Inr (Proc u)))"

definition cgi_main ::
    "nat \<Rightarrow> (byte list \<Rightarrow> byte list option) \<Rightarrow> (byte list \<Rightarrow> hostent option) \<Rightarrow> bool \<Rightarrow> byte list list \<Rightarrow> byte list list \<Rightarrow>
     FCGX_ReqData \<Rightarrow> select_event list \<Rightarrow> cgi \<times> net \<Rightarrow> unit proc res" where
  "cgi_main fuel files gethostbyname alloc argv envp r sels s =
     bindq (ParseArgs fuel files argv s) (\<lambda>(err, x, g, n).
     if err \<noteq> 0 then cgi_exit 1 (g, message (bytes ''Usage'') n)
     else bindq (main_prepare alloc envp (g, n)) (\<lambda>s1.
     bindq (main_connect gethostbyname x s1) (run_request r envp sels)))"

end
