(* ===== verification/Fcgi_Socket_Correct.thy ===== *)
theory Fcgi_Socket_Correct
  imports Fcgi_Socket Fcgi_Accept_Correct
begin

text \<open>
  What the socket functions of the OS layer do: the address a bind path stands for, on the listening and on the connecting side, and what a child
  process has for its first three descriptors.
\<close>

section \<open>Addresses\<close>

text \<open>Two addresses that lead to the same service of a host: the same name in the file system, or the same port.\<close>

definition same_service :: "sockaddr \<Rightarrow> sockaddr \<Rightarrow> bool" where
  "same_service a b = (case (a, b) of
     (SockUnix u k, SockUnix v l) \<Rightarrow> unix_name u k = unix_name v l
   | (SockInet x p, SockInet y q) \<Rightarrow> p = q
   | _ \<Rightarrow> False)"

lemma syscall_result:
  "0 \<le> fst (syscall c f n) \<Longrightarrow>
   \<exists>m. snd (syscall c f n) = f (fst (syscall c f n)) m \<and> socks m = socks n \<and> nos m = nos n \<and> handlers m = handlers n"
  by (auto simp: syscall_def next_event_def log_call_def split: list.splits net_event.splits)

lemma unix_name_path:
  assumes "OS_BuildSockAddrUn path = Some sa"
  shows "\<exists>u k. sa = SockUnix u k \<and> unix_name u k = path \<and> length (sun_path u) = SUN_PATH_SIZE"
  using assms by (auto simp: OS_BuildSockAddrUn_def Let_def unix_name_def put_bytes_def split: if_splits)

text \<open>What the two functions do with the path.\<close>

definition names_service :: "byte list \<Rightarrow> sockaddr \<Rightarrow> bool" where
  "names_service path sa \<longleftrightarrow> (\<exists>host port. split_bind_path path = Inr (host, port)
     \<and> (if port = 0 then \<exists>u k. sa = SockUnix u k \<and> unix_name u k = path else \<exists>ia. sa = SockInet ia port))"

lemma names_same_service: "names_service path a \<Longrightarrow> names_service path b \<Longrightarrow> same_service a b"
  by (auto simp: names_service_def same_service_def split: if_splits)

lemma CreateLocalIpcFd_listens:
  assumes "OS_CreateLocalIpcFd gh path backlog n = Inr (Proc (fd, n'))" "0 \<le> fd"
  shows "\<exists>sa. s_bound (socks n' fd) = Some sa \<and> s_backlog (socks n' fd) = Some backlog \<and> names_service path sa"
proof -
  obtain host port where sp: "split_bind_path path = Inr (host, port)"
    using assms(1) by (auto simp: OS_CreateLocalIpcFd_def bindr_Inr_iff split: if_splits)
  obtain n1 ia y where
    sock: "(if port \<noteq> 0 then Inr (Proc (SockInet ia port, n1))
        else let n2 = posix_unlink path n1 in case OS_BuildSockAddrUn path of
            None \<Rightarrow> fatal 1000 (bytes ''Listening socket's path name is too long.'') n2 | Some sa \<Rightarrow> Inr (Proc (sa, n2))) = Inr (Proc y)"
    and rest: "0 \<le> fst (posix_bind fd (fst y) (snd y))" "0 \<le> fst (posix_listen fd backlog (snd (posix_bind fd (fst y) (snd y))))"
      "n' = snd (posix_listen fd backlog (snd (posix_bind fd (fst y) (snd y))))"
    using assms sp by (auto simp: OS_CreateLocalIpcFd_def bindr_Inr_iff bindq_Proc_iff split_beta not_less simp del: Let_def split: if_splits)
  define sa n2 n3 where "sa = fst y" and "n2 = snd y" and "n3 = snd (posix_bind fd sa n2)"
  have b: "posix_bind fd sa n2 = (fst (posix_bind fd sa n2), n3)" "0 \<le> fst (posix_bind fd sa n2)"
    and l: "posix_listen fd backlog n3 = (fst (posix_listen fd backlog n3), n')" "0 \<le> fst (posix_listen fd backlog n3)"
    using rest by (simp_all add: sa_def n2_def n3_def)
  have sock: "(if port \<noteq> 0 then Inr (Proc (SockInet ia port, n1))
        else let n2 = posix_unlink path n1 in case OS_BuildSockAddrUn path of
            None \<Rightarrow> fatal 1000 (bytes ''Listening socket's path name is too long.'') n2 | Some sa \<Rightarrow> Inr (Proc (sa, n2))) = Inr (Proc (sa, n2))"
    using sock by (simp add: sa_def n2_def)
  have "names_service path sa"
  proof (cases "port = 0")
    case True
    then show ?thesis using sock sp unix_name_path [of path sa] by (auto simp: names_service_def Let_def split: option.splits)
  next
    case False
    then show ?thesis using sock sp by (auto simp: names_service_def)
  qed
  moreover have "s_bound (socks n3 fd) = Some sa"
    using syscall_result [OF b(2) [unfolded posix_bind_def]] by (auto simp: n3_def posix_bind_def upd_sock_def)
  ultimately show ?thesis using syscall_result [OF l(2) [unfolded posix_listen_def]] rest(3)
    by (intro exI [of _ sa]) (auto simp: n3_def n2_def sa_def posix_listen_def upd_sock_def)
qed

lemma FcgiConnect_reaches:
  assumes "OS_FcgiConnect gh path n = Inr (Proc (fd, n'))" "0 \<le> fd"
  shows "\<exists>sa. s_peer (socks n' fd) = Some sa \<and> names_service path sa"
proof -
  obtain host port where sp: "split_bind_path path = Inr (host, port)"
    using assms(1) by (auto simp: OS_FcgiConnect_def bindr_Inr_iff split: if_splits)
  obtain sa n1 where sa: "connect_address gh path host port n = Inr (Proc sa)"
    and c: "n' = snd (posix_connect fd sa n1)" "0 \<le> fst (posix_connect fd sa n1)"
    using assms sp by (auto simp: OS_FcgiConnect_def bindr_Inr_iff bindq_Proc_iff assertr_Inr_iff split_beta split: if_splits)
  have "names_service path sa"
  proof (cases "port = 0")
    case True
    then show ?thesis using sa sp unix_name_path [of path sa] by (auto simp: connect_address_def names_service_def split: option.splits)
  next
    case False
    then show ?thesis using sa sp by (auto simp: connect_address_def names_service_def inbounds_Inr_iff split: option.splits if_splits)
  qed
  moreover have "s_peer (socks n' fd) = Some sa"
    using c by (auto simp: posix_connect_def upd_sock_def put_sock_def split: prod.splits net_event.splits)
  ultimately show ?thesis by blast
qed

text \<open>A port in decimal is taken modulo \<open>2 ^ 16\<close>; one that is a multiple of it makes the whole a path.\<close>

lemma atoi_decimal:
  assumes "v < 2 ^ 31"
  shows "atoi (decimal v) = Inr (int v)"
proof -
  obtain d ds where d: "decimal v = of_nat (48 + d) # ds" "d < 10" using decimal_first by blast
  have u: "unat (of_nat (48 + d) :: byte) = 48 + d" by (rule unat_digit [OF d(2)])
  then have ne: "(of_nat (48 + d) :: byte) \<noteq> 45" "(of_nat (48 + d) :: byte) \<noteq> 43"
    by (simp_all add: word_unat_eq_iff del: of_nat_add)
  have "\<not> is_space (of_nat (48 + d))" using u d(2) by (simp add: is_space_def word_le_nat_alt word_unat_eq_iff del: of_nat_add)
  then have "dropWhile is_space (decimal v) = decimal v" by (simp add: d(1) del: of_nat_add)
  moreover have "fst (read_digits 10 0 (decimal v)) = v" using read_decimal [of 0 v "[]"] by simp
  ultimately show ?thesis using ne assms d(1) by (simp add: atoi_def Let_def del: of_nat_add)
qed

lemma split_bind_path_port:
  assumes "58 \<notin> set host" "p < 2 ^ 31"
  shows "split_bind_path (host @ 58 # decimal p) =
    Inr (if p mod 2 ^ 16 = 0 then host @ 58 # decimal p else host, of_nat p)"
proof -
  have "dropWhile (\<lambda>b. b \<noteq> 58) (host @ 58 # decimal p) = 58 # decimal p"
    "takeWhile (\<lambda>b. b \<noteq> 58) (host @ 58 # decimal p) = host"
    using assms(1) by (auto simp: dropWhile_append takeWhile_append intro: takeWhile_eq_all_conv [THEN iffD2])
  moreover have "(word_of_int (int p) :: 16 word) = of_nat p" by simp
  moreover have "(of_nat p :: 16 word) = 0 \<longleftrightarrow> p mod 2 ^ 16 = 0" by (simp add: word_of_nat_eq_0_iff dvd_eq_mod_eq_0)
  ultimately show ?thesis using atoi_decimal [OF assms(2)] by (simp add: split_bind_path_def Let_def)
qed

section \<open>Started programs\<close>

lemma syscall_frame:
  "(\<And>r m. nos (f r m) = nos m \<and> socks (f r m) = socks m \<and> handlers (f r m) = handlers m) \<Longrightarrow>
   conns (nos (snd (syscall c f n))) = conns (nos n) \<and> socks (snd (syscall c f n)) = socks n"
  by (auto simp: syscall_def next_event_def log_call_def put_errno_def split: list.splits net_event.splits)

lemma close_fd_facts [simp]:
  "\<not> isOpen (conns (nos (close_fd fd n)) fd)"
  "f \<noteq> fd \<Longrightarrow> conns (nos (close_fd fd n)) f = conns (nos n) f" "f \<noteq> fd \<Longrightarrow> socks (close_fd fd n) f = socks n f"
  by (simp_all add: close_fd_def posix_close_def)

text \<open>The program that replaces a child has the listening socket as descriptor 0, unless that is where it was before.\<close>

lemma spawned_exec:
  assumes "(spawned path fd n :: unit proc res) = Inr (ProcExec p n')" "isOpen (conns (nos n) fd)"
  shows "p = path \<and> \<not> isOpen (conns (nos n') 1) \<and> \<not> isOpen (conns (nos n') 2)
    \<and> (if fd = 0 then \<not> isOpen (conns (nos n') 0)
       else conns (nos n') 0 = conns (nos n) fd \<and> socks n' 0 = socks n fd)"
proof -
  define n2 where "n2 = (if fd \<noteq> 0 then close_fd fd (snd (posix_dup2 fd 0 (close_fd 0 n))) else close_fd 0 n)"
  have p: "p = path" and n': "n' = snd (syscall (CallExec path) (\<lambda>_ n. n) (close_fd 2 (close_fd 1 n2)))"
    using assms(1) by (simp_all add: spawned_def Let_def FCGI_LISTENSOCK_FILENO_def n2_def split_beta split: if_splits)
  have s: "conns (nos n') f = conns (nos (close_fd 2 (close_fd 1 n2))) f" "socks n' f = socks (close_fd 2 (close_fd 1 n2)) f" for f
    unfolding n' using syscall_frame [of "\<lambda>_ n. n"] by simp_all
  have "\<not> isOpen (conns (nos (close_fd 2 (close_fd 1 n2))) 1)" by (subst close_fd_facts(2)) simp_all
  moreover have "conns (nos n2) 0 = conns (nos n) fd" "socks n2 0 = socks n fd" if "fd \<noteq> 0"
    using that assms(2) by (simp_all add: n2_def posix_dup2_def put_sock_def)
  moreover have "\<not> isOpen (conns (nos n2) 0)" if "fd = 0" using that by (simp add: n2_def)
  ultimately show ?thesis using p s by simp
qed

lemma spawned_any: "spawned path fd m = (Inr (ProcExec p n) :: 'a proc res) \<longleftrightarrow> (spawned path fd m :: unit proc res) = Inr (ProcExec p n)"
  by (simp add: spawned_def Let_def split_beta)

lemma SpawnChild_exec:
  "OS_SpawnChild path fd n = Inr (ProcExec p n') \<Longrightarrow>
   \<exists>m. conns (nos m) = conns (nos n) \<and> socks m = socks n \<and> (spawned path fd m :: unit proc res) = Inr (ProcExec p n')"
  using syscall_frame [of "\<lambda>_ n. n" CallFork n]
    spawned_any [of path fd "snd (syscall CallFork (\<lambda>_ n. n) n)" p n', where 'a = "int \<times> net"]
  by (intro exI [of _ "snd (syscall CallFork (\<lambda>_ n. n) n)"]) (simp add: OS_SpawnChild_def split_beta split: if_splits)

lemma SpawnChild_parent:
  "OS_SpawnChild path fd n = Inr (Proc (r, n')) \<Longrightarrow> r = 0 \<and> conns (nos n') = conns (nos n) \<and> socks n' = socks n"
  using syscall_frame [of "\<lambda>_ n. n" CallFork n] by (auto simp: OS_SpawnChild_def spawned_def Let_def split_beta split: if_splits)

lemma syscall_conns:
  "(\<And>r m. conns (nos (f r m)) = conns (nos m)) \<Longrightarrow> conns (nos (snd (syscall c f n))) = conns (nos n)"
  by (auto simp: syscall_def next_event_def log_call_def put_errno_def split: list.splits net_event.splits)

lemma socket_calls_conns [simp]:
  "conns (nos (snd (posix_setsockopt fd n))) = conns (nos n)"
  "conns (nos (snd (posix_bind fd sa n))) = conns (nos n)"
  "conns (nos (snd (posix_listen fd backlog n))) = conns (nos n)"
  "conns (nos (posix_unlink path n)) = conns (nos n)"
  by (simp_all add: posix_setsockopt_def posix_bind_def posix_listen_def posix_unlink_def log_call_def syscall_conns upd_sock_def)

lemma posix_socket_open: "0 \<le> fst (posix_socket family n) \<Longrightarrow>
    conns (nos (snd (posix_socket family n))) (fst (posix_socket family n)) = fresh_conn"
  using syscall_result [of "CallSocket family" "\<lambda>fd. put_sock fd fresh_conn new_sock" n]
  by (auto simp: posix_socket_def put_sock_def)

lemma listen_socket_open:
  assumes "listen_socket gh host port n = Inr (Proc (ia, fd, n'))" "0 \<le> fd"
  shows "conns (nos n') fd = fresh_conn"
  using assms posix_socket_open [of AF_INET n] posix_socket_open [of AF_UNIX n]
  by (auto simp: listen_socket_def bindq_Proc_iff split_beta split: if_splits)

lemma CreateLocalIpcFd_open:
  assumes "OS_CreateLocalIpcFd gh path backlog n = Inr (Proc (fd, n'))" "0 \<le> fd"
  shows "conns (nos n') fd = fresh_conn"
proof -
  obtain host port where sp: "split_bind_path path = Inr (host, port)"
    using assms(1) by (auto simp: OS_CreateLocalIpcFd_def bindr_Inr_iff split: if_splits)
  then obtain ia n1 where "listen_socket gh host port n = Inr (Proc (ia, fd, n1))" "conns (nos n') = conns (nos n1)"
    using assms by (auto simp: OS_CreateLocalIpcFd_def bindr_Inr_iff bindq_Proc_iff split_beta Let_def split: if_splits option.splits)
  then show ?thesis using listen_socket_open assms(2) by simp
qed

lemma CreateLocalIpcFd_no_exec: "OS_CreateLocalIpcFd gh path backlog n \<noteq> Inr (ProcExec p n')"
proof
  assume "OS_CreateLocalIpcFd gh path backlog n = Inr (ProcExec p n')"
  then show False
    by (auto simp: OS_CreateLocalIpcFd_def bindr_Inr_iff bindq_Exec_iff bindq_Proc_iff listen_socket_def listen_address_def inbounds_Inr_iff
        split_beta Let_def split: if_splits option.splits)
qed

lemma CreateLocalIpcFd_result:
  "OS_CreateLocalIpcFd gh path backlog n = Inr (Proc (fd, n')) \<Longrightarrow> fd = - 1 \<or> 0 \<le> fd"
  by (auto simp: OS_CreateLocalIpcFd_def bindr_Inr_iff bindq_Proc_iff split_beta Let_def split: if_splits option.splits)

section \<open>Properties\<close>

text \<open>For examples: a process with nothing open but the connection of \<open>sample_os\<close>; every call succeeds as the script says.\<close>

definition sample_net :: "net_event list \<Rightarrow> net" where
  "sample_net es = \<lparr>nos = sample_os [], socks = \<lambda>_. new_sock, netScript = es, handlers = \<lambda>_. SIG_DFL, netLog = []\<rparr>"

text \<open>C23. The two ends of a bind path meet: a server that listens at a path and a client that connects to the same path, with whatever the kernel and
  the name service answer, use the same name in the file system or the same port; the server's socket has the backlog it asked for.\<close>

theorem bind_connect_same_address:
  assumes "OS_CreateLocalIpcFd gh path backlog n = Inr (Proc (fd, n1))" "0 \<le> fd"
    "OS_FcgiConnect gh' path m = Inr (Proc (fd', m1))" "0 \<le> fd'"
  shows "\<exists>a b. s_bound (socks n1 fd) = Some a \<and> s_backlog (socks n1 fd) = Some backlog
    \<and> s_peer (socks m1 fd') = Some b \<and> same_service a b"
  using CreateLocalIpcFd_listens [OF assms(1,2)] FcgiConnect_reaches [OF assms(3,4)] names_same_service by blast

lemma sample_path: "split_bind_path (bytes ''/tmp/s'') = Inr (bytes ''/tmp/s'', 0)" "split_bind_path (bytes '':9000'') = Inr ([], 9000)"
  by (simp_all add: bytes_def split_bind_path_def atoi_def is_space_def digit_of_def Let_def)

theorem bind_connect_same_address_witness:
  "\<exists>n1 m1 a b. OS_CreateLocalIpcFd (\<lambda>_. None) (bytes '':9000'') 5 (sample_net [CallOk 3]) = Inr (Proc (3, n1))
     \<and> OS_FcgiConnect (\<lambda>_. Some \<lparr>h_addrtype = AF_INET, h_addr_list = [[127, 0, 0, 1]]\<rparr>) (bytes '':9000'') (sample_net [CallOk 4])
         = Inr (Proc (4, m1))
     \<and> s_bound (socks n1 3) = Some a \<and> s_backlog (socks n1 3) = Some 5 \<and> s_peer (socks m1 4) = Some b \<and> same_service a b"
proof -
  let ?gh = "\<lambda>_. Some \<lparr>h_addrtype = AF_INET, h_addr_list = [[127, 0, 0, 1 :: byte]]\<rparr>"
  have l: "length (bytes '':9000'') < MAXPATHLEN" by (simp add: bytes_def MAXPATHLEN_def)
  have "\<exists>n1. OS_CreateLocalIpcFd (\<lambda>_. None) (bytes '':9000'') 5 (sample_net [CallOk 3]) = Inr (Proc (3, n1))"
    using l by (simp add: OS_CreateLocalIpcFd_def sample_path listen_socket_def listen_address_def posix_socket_def posix_setsockopt_def
        posix_bind_def posix_listen_def syscall_def next_event_def log_call_def sample_net_def put_sock_def upd_sock_def)
  moreover have "\<exists>m1. OS_FcgiConnect ?gh (bytes '':9000'') (sample_net [CallOk 4]) = Inr (Proc (4, m1))"
    using l by (simp add: OS_FcgiConnect_def sample_path connect_address_def posix_socket_def posix_connect_def
        syscall_def next_event_def log_call_def sample_net_def put_sock_def upd_sock_def inbounds_def assertr_def)
  ultimately show ?thesis using bind_connect_same_address [of "\<lambda>_. None" "bytes '':9000''" 5 "sample_net [CallOk 3]" 3 _ ?gh "sample_net [CallOk 4]" 4]
    by (metis zero_le_numeral)
qed

lemmas socket_call_defs = posix_socket_def posix_setsockopt_def posix_bind_def posix_listen_def posix_connect_def syscall_def next_event_def
  log_call_def put_sock_def upd_sock_def posix_unlink_def

lemma spawned_runs:
  assumes "netScript n = []"
  shows "\<exists>n'. (spawned path fd n :: 'a proc res) = Inr (ProcExec path n')"
proof -
  have k: "netScript (close_fd f m) = netScript m" "netScript (snd (posix_dup2 f f' m)) = netScript m" for f f' m
    by (simp_all add: close_fd_def posix_dup2_def put_sock_def put_errno_def)
  then show ?thesis using assms by (simp add: spawned_def Let_def split_beta syscall_def next_event_def log_call_def)
qed

end
