(* ===== verification/Fcgi_Main_Correct.thy ===== *)
theory Fcgi_Main_Correct
  imports Fcgi_Main Fcgi_Cgi_Correct Fcgi_Socket_Correct
begin

text \<open>
  What the beginning of \<open>cgi-fcgi\<close> does: a started server finds its listening socket, command files mean what command lines mean, and
  a program started with \<open>-connect\<close> relays its request.
\<close>

section \<open>Started servers\<close>

lemma cgi_exit_not_Proc [simp]: "cgi_exit c s \<noteq> Inr (ProcExec p n)" "cgi_exit c s \<noteq> Inr (Proc x)"
  by (cases s; auto simp: cgi_exit_def bindr_Inr_iff split: run.splits)+

lemma spawn_servers_exec:
  "spawn_servers k path fd (g, n) = Inr (ProcExec p n') \<Longrightarrow>
   \<exists>m. conns (nos m) = conns (nos n) \<and> socks m = socks n \<and> (spawned path fd m :: unit proc res) = Inr (ProcExec p n')"
proof (induction k arbitrary: n)
  case (Suc k)
  then consider "OS_SpawnChild path fd n = Inr (ProcExec p n')"
    | r n1 where "OS_SpawnChild path fd n = Inr (Proc (r, n1))" "spawn_servers k path fd (g, n1) = Inr (ProcExec p n')"
    by (auto simp: bindq_Exec_iff split: if_splits)
  then show ?case
  proof cases
    case 1
    then show ?thesis by (rule SpawnChild_exec)
  next
    case 2
    then show ?thesis using Suc.IH [OF 2(2)] SpawnChild_parent [OF 2(1)] by auto
  qed
qed simp

lemma FCGI_Start_exec:
  assumes "FCGI_Start gh bindPath path k (g, n) = Inr (ProcExec p n')"
  obtains fd n1 m where "OS_CreateLocalIpcFd gh bindPath 5 n = Inr (Proc (fd, n1))" "0 \<le> fd"
    "conns (nos m) = conns (nos n1)" "socks m = socks n1" "(spawned path fd m :: unit proc res) = Inr (ProcExec p n')"
proof -
  obtain fd n1 where c: "OS_CreateLocalIpcFd gh bindPath 5 n = Inr (Proc (fd, n1))" "fd \<noteq> - 1"
    and s: "spawn_servers (nat k) path fd (g, snd (syscall (CallAccess path) (\<lambda>_ n. n) n1)) = Inr (ProcExec p n')"
    using assms by (auto simp: FCGI_Start_def bindq_Exec_iff CreateLocalIpcFd_no_exec split_beta bindr_Inr_iff split: if_splits)
  note fr = syscall_frame [of "\<lambda>_ n. n" "CallAccess path" n1]
  show ?thesis using spawn_servers_exec [OF s] fr CreateLocalIpcFd_result [OF c(1)] c that by auto
qed

section \<open>Command lines\<close>

definition flag_ok :: "byte list \<Rightarrow> bool" where
  "flag_ok f \<longleftrightarrow> f \<in> {bytes ''-start'', bytes ''-bind'', bytes ''-supervise''}"

definition with_flags :: "byte list list \<Rightarrow> args \<Rightarrow> args" where
  "with_flags fs x = x\<lparr>doBind := doBind x \<and> bytes ''-start'' \<notin> set fs, doStart := doStart x \<and> bytes ''-bind'' \<notin> set fs,
     doDaemon := doDaemon x \<and> bytes ''-supervise'' \<notin> set fs\<rparr>"

lemma option_names:
  "hd (bytes ''-start'') = 45" "hd (bytes ''-bind'') = 45" "hd (bytes ''-supervise'') = 45" "hd (bytes ''-connect'') = 45" "hd (bytes ''-f'') = 45"
  "bytes ''-start'' \<noteq> []" "bytes ''-bind'' \<noteq> []" "bytes ''-supervise'' \<noteq> []" "bytes ''-connect'' \<noteq> []" "bytes ''-f'' \<noteq> []"
  "bytes ''-start'' \<noteq> bytes ''-f''" "bytes ''-bind'' \<noteq> bytes ''-f''" "bytes ''-supervise'' \<noteq> bytes ''-f''" "bytes ''-connect'' \<noteq> bytes ''-f''"
  "bytes ''-bind'' \<noteq> bytes ''-start''" "bytes ''-supervise'' \<noteq> bytes ''-start''" "bytes ''-connect'' \<noteq> bytes ''-start''"
  "bytes ''-supervise'' \<noteq> bytes ''-bind''" "bytes ''-connect'' \<noteq> bytes ''-bind''" "bytes ''-supervise'' \<noteq> bytes ''-connect''"
  by (simp_all add: bytes_def)

lemma parse_flags:
  "list_all flag_ok fs \<Longrightarrow> parse_loop files parse (fs @ as) (err, x, g, n) = parse_loop files parse as (err, with_flags fs x, g, n)"
proof (induction fs arbitrary: x)
  case Nil
  then show ?case by (simp add: with_flags_def)
next
  case (Cons f fs)
  have c: "f = bytes ''-start'' \<or> f = bytes ''-bind'' \<or> f = bytes ''-supervise''" using Cons.prems by (simp add: flag_ok_def)
  have w: "with_flags (f # fs) x = with_flags fs (if f = bytes ''-start'' then x\<lparr>doBind := False\<rparr>
      else if f = bytes ''-bind'' then x\<lparr>doStart := False\<rparr> else x\<lparr>doDaemon := False\<rparr>)"
    using c option_names(15,16,18) [symmetric] by (elim disjE) (simp_all add: with_flags_def option_names)
  show ?case using c Cons.IH Cons.prems unfolding w
    by (elim disjE) (simp_all add: parse_loop.simps(2) option_names)
qed

definition path_arg :: "byte list \<Rightarrow> bool" where
  "path_arg p \<longleftrightarrow> p \<noteq> [] \<and> length p < MAXPATHLEN"

lemma digit_first:
  "\<exists>d ds. decimal k = d # ds \<and> digit_of 10 d \<noteq> None \<and> d \<noteq> 45"
proof -
  obtain d ds where d: "decimal k = of_nat (48 + d) # ds" "d < 10" using decimal_first by blast
  have "(of_nat (48 + d) :: byte) \<noteq> 45" using unat_digit [OF d(2)] by (simp add: word_unat_eq_iff del: of_nat_add)
  then show ?thesis using d digit_of_digit [OF d(2)] by blast
qed

text \<open>The command lines of the usage message, with the flags in any order before \<open>-connect\<close>.\<close>

lemma ParseArgs_line:
  assumes "list_all flag_ok fs" "path_arg path" "path_arg app" "hd app \<noteq> 45" "0 < k" "k < 2 ^ 31"
  shows "ParseArgs (Suc fuel) files (fs @ [bytes ''-connect'', path, app]) (g, n) =
      Inr (Proc (0, with_flags fs (initial_args\<lparr>connectPath := path, appPath := app, nServers := 1\<rparr>), g, n))"
    "ParseArgs (Suc fuel) files (fs @ [bytes ''-connect'', path, app, decimal k]) (g, n) =
      Inr (Proc (0, with_flags fs (initial_args\<lparr>connectPath := path, appPath := app, nServers := int k\<rparr>), g, n))"
proof -
  obtain d ds where d: "decimal k = d # ds" "digit_of 10 d \<noteq> None" "d \<noteq> 45" using digit_first by blast
  note atoi = atoi_decimal [OF assms(6), unfolded d(1)]
  note ok = assms(2-5) [unfolded path_arg_def]
  show "ParseArgs (Suc fuel) files (fs @ [bytes ''-connect'', path, app]) (g, n) =
      Inr (Proc (0, with_flags fs (initial_args\<lparr>connectPath := path, appPath := app, nServers := 1\<rparr>), g, n))"
    using ok by (simp add: parse_flags [OF assms(1)] parse_loop.simps(2) option_names parse_end_def with_flags_def initial_args_def)
  show "ParseArgs (Suc fuel) files (fs @ [bytes ''-connect'', path, app, decimal k]) (g, n) =
      Inr (Proc (0, with_flags fs (initial_args\<lparr>connectPath := path, appPath := app, nServers := int k\<rparr>), g, n))"
    using ok d atoi
    by (simp add: parse_flags [OF assms(1)] parse_loop.simps(2) option_names parse_end_def with_flags_def initial_args_def)
qed

text \<open>C24. Whatever the system calls answer, a program started by \<open>FCGI_Start\<close> is the one that was named; it has no standard output and no standard
  error, and its descriptor 0 is the socket that listens at the bind path with a backlog of five. The exception is a listening socket that
  was descriptor 0 already: \<open>OS_SpawnChild\<close> closes it, and the program starts with no descriptor 0 at all.\<close>

theorem FCGI_Start_child:
  assumes "FCGI_Start gh bindPath path k (g, n) = Inr (ProcExec p n')"
  shows "p = path \<and> \<not> isOpen (conns (nos n') 1) \<and> \<not> isOpen (conns (nos n') 2)
    \<and> (\<exists>fd n1. OS_CreateLocalIpcFd gh bindPath 5 n = Inr (Proc (fd, n1)) \<and> 0 \<le> fd
        \<and> (if fd = 0 then \<not> isOpen (conns (nos n') 0)
           else conns (nos n') 0 = fresh_conn \<and> s_backlog (socks n' 0) = Some 5
             \<and> (\<exists>sa. s_bound (socks n' 0) = Some sa \<and> names_service bindPath sa)))"
proof -
  obtain fd n1 m where c: "OS_CreateLocalIpcFd gh bindPath 5 n = Inr (Proc (fd, n1))" "0 \<le> fd"
    and m: "conns (nos m) = conns (nos n1)" "socks m = socks n1" "(spawned path fd m :: unit proc res) = Inr (ProcExec p n')"
    by (rule FCGI_Start_exec [OF assms])
  have o: "conns (nos m) fd = fresh_conn" using CreateLocalIpcFd_open [OF c] m(1) by simp
  note l = CreateLocalIpcFd_listens [OF c]
  show ?thesis using spawned_exec [OF m(3)] o l c m(2) by (auto simp: fresh_conn_def split: if_splits)
qed

theorem FCGI_Start_child_witness:
  "\<exists>n'. FCGI_Start (\<lambda>_. None) (bytes ''/tmp/s'') (bytes ''/bin/app'') 2 (static_cgi, sample_net [CallOk 3, CallOk 0, CallOk 0, CallOk 0, CallOk 77])
       = Inr (ProcExec (bytes ''/bin/app'') n')
     \<and> \<not> isOpen (conns (nos n') 1) \<and> conns (nos n') 0 = fresh_conn \<and> s_backlog (socks n' 0) = Some 5
     \<and> (\<exists>sa. s_bound (socks n' 0) = Some sa \<and> names_service (bytes ''/tmp/s'') sa)"
proof -
  let ?n = "sample_net [CallOk 3, CallOk 0, CallOk 0, CallOk 0, CallOk 77]"
  have l: "length (bytes ''/tmp/s'') < MAXPATHLEN" "length (bytes ''/tmp/s'') \<le> SUN_PATH_SIZE" by (simp_all add: bytes_def socket_consts)
  obtain n1 where c: "OS_CreateLocalIpcFd (\<lambda>_. None) (bytes ''/tmp/s'') 5 ?n = Inr (Proc (3, n1))" "netScript n1 = [CallOk 0, CallOk 77]"
    using l by (simp add: OS_CreateLocalIpcFd_def sample_path listen_socket_def OS_BuildSockAddrUn_def socket_call_defs sample_net_def)
  have "\<exists>n'. FCGI_Start (\<lambda>_. None) (bytes ''/tmp/s'') (bytes ''/bin/app'') 2 (static_cgi, ?n) = Inr (ProcExec (bytes ''/bin/app'') n')"
    using c spawned_runs [of "n1\<lparr>netScript := [], netLog := netLog n1 @ [CallAccess (bytes ''/bin/app''), CallFork, CallFork]\<rparr>"
        "bytes ''/bin/app''" 3, where 'a = "int \<times> net"]
    by (auto simp: FCGI_Start_def syscall_def next_event_def log_call_def OS_SpawnChild_def numeral_2_eq_2)
  then obtain n' where "FCGI_Start (\<lambda>_. None) (bytes ''/tmp/s'') (bytes ''/bin/app'') 2 (static_cgi, ?n) = Inr (ProcExec (bytes ''/bin/app'') n')"
    by blast
  with FCGI_Start_child [OF this] c(1) show ?thesis by auto
qed

section \<open>Servers that are stopped\<close>

lemma spawn_servers_log:
  "netScript n = map CallOk pids @ es \<Longrightarrow> \<forall>p \<in> set pids. 0 < p \<Longrightarrow>
   \<exists>n'. spawn_servers (length pids) path fd (g, n) = Inr (Proc (g, n')) \<and> netLog n' = netLog n @ replicate (length pids) CallFork
     \<and> nos n' = nos n \<and> handlers n' = handlers n \<and> socks n' = socks n"
proof (induction pids arbitrary: n)
  case (Cons p pids)
  let ?m = "n\<lparr>netLog := netLog n @ [CallFork], netScript := map CallOk pids @ es\<rparr>"
  have "OS_SpawnChild path fd n = Inr (Proc (0, ?m))" using Cons.prems by (simp add: OS_SpawnChild_def syscall_def next_event_def log_call_def)
  then show ?case using Cons.IH [of ?m] Cons.prems by simp
qed simp

lemma start_log:
  assumes s: "netScript n = [CallOk fd, CallOk 0, CallOk 0, CallOk 0] @ map CallOk pids" "0 \<le> fd" "\<forall>p \<in> set pids. 0 < p"
    and p: "split_bind_path path = Inr (host, 0)" "length path \<le> SUN_PATH_SIZE" "OS_BuildSockAddrUn path = Some sa"
    and a: "\<not> asyncIoInUse (aioState (nos n))"
  shows "\<exists>n'. FCGI_Start gh path app (int (length pids)) (g, n) = Inr (Proc (g, n'))
    \<and> netLog n' = netLog n @ [CallSocket AF_UNIX, CallUnlink path, CallBind fd sa, CallListen fd 5, CallAccess app] @ replicate (length pids) CallFork
    \<and> handlers n' = handlers n"
proof -
  have l: "length path < MAXPATHLEN" using p(2) by (simp add: socket_consts)
  obtain n1 where n1: "OS_CreateLocalIpcFd gh path 5 n = Inr (Proc (fd, n1))" "netScript n1 = CallOk 0 # map CallOk pids"
     "netLog n1 = netLog n @ [CallSocket AF_UNIX, CallUnlink path, CallBind fd sa, CallListen fd 5]" "handlers n1 = handlers n"
     "aioState (nos n1) = aioState (nos n)"
    using s(1,2) p l by (simp add: OS_CreateLocalIpcFd_def listen_socket_def socket_call_defs)
  let ?m = "n1\<lparr>netLog := netLog n1 @ [CallAccess app], netScript := map CallOk pids\<rparr>"
  obtain n2 where n2: "spawn_servers (length pids) app fd (g, ?m) = Inr (Proc (g, n2))"
     "netLog n2 = netLog ?m @ replicate (length pids) CallFork" "nos n2 = nos n1" "handlers n2 = handlers n1"
    using spawn_servers_log [of ?m pids "[]" app fd g] s(3) by auto
  have "syscall (CallAccess app) (\<lambda>_ n. n) n1 = (0, ?m)" using n1(2) by (simp add: socket_call_defs)
  moreover obtain r w where "OS_Close fd True (nos n2) = Inr (r, w)"
    using a n1(5) n2(3) s(2) by (cases "OS_Close fd True (nos n2)") (auto simp: OS_Close_def close_async_def Let_def)
  ultimately show ?thesis using n1 n2 s(2) by (simp add: FCGI_Start_def)
qed

lemma cgi_exit_unconnected:
  "appServerSock g = - 1 \<Longrightarrow> \<exists>w. (cgi_exit code (g, n) :: 'a proc res) = Inr (ProcExit code (n\<lparr>nos := w\<rparr>))"
  by (intro exI [of _ "(nos n)\<lparr>aioState := snd (OS_LibShutdown (cgiLibInit g) (aioState (nos n)))\<rparr>"])
    (simp add: cgi_exit_def FCGIexit_def split_beta)

lemma waits_log: "(log_call CallWait ^^ k) n = n\<lparr>netLog := netLog n @ replicate k CallWait\<rparr>"
proof (induction k)
  case (Suc k)
  have "log_call CallWait (n\<lparr>netLog := netLog n @ replicate k CallWait\<rparr>) = n\<lparr>netLog := netLog n @ replicate (Suc k) CallWait\<rparr>"
    by (simp add: log_call_def replicate_append_same)
  then show ?case using Suc by simp
qed simp

lemma sigaction_frame [simp]:
  "netScript (sigaction c h n) = netScript n" "netLog (sigaction c h n) = netLog n" "socks (sigaction c h n) = socks n"
  "nos (sigaction c h n) = nos n" "handlers (sigaction c h n) c = h"
  by (simp_all add: sigaction_def)

lemma install_frame [simp]:
  "netScript (OS_InstallSignalHandlers f n) = netScript n" "netLog (OS_InstallSignalHandlers f n) = netLog n"
  "socks (OS_InstallSignalHandlers f n) = socks n" "nos (OS_InstallSignalHandlers f n) = nos n"
  by (simp_all add: OS_InstallSignalHandlers_def installSignalHandler_def)

lemma log_call_frame [simp]:
  "netScript (log_call c n) = netScript n" "netLog (log_call c n) = netLog n @ [c]" "socks (log_call c n) = socks n" "nos (log_call c n) = nos n"
  "handlers (log_call c n) = handlers n"
  by (simp_all add: log_call_def)

lemma main_prepare_static:
  assumes "content_length es = Inr len"
  shows "\<exists>n'. main_prepare True es (static_cgi, n) = Inr (Proc (static_cgi\<lparr>cgiLibInit := True, bytesToRead := len\<rparr>, n'))
    \<and> netScript n' = netScript n \<and> netLog n' = netLog n @ [CallSetsid] \<and> socks n' = socks n
    \<and> nos n' = snd (snd (OS_LibInit True False (nos n))) \<and> handlers n' SIGTERM = handle_shutdown_handler"
proof -
  obtain w where i: "OS_LibInit True False (nos n) = (0, True, w)" by (simp add: OS_LibInit_def)
  have l: "\<not> cgiLibInit static_cgi" by (simp add: static_cgi_def)
  define n1 where "n1 = OS_InstallSignalHandlers False (n\<lparr>nos := w\<rparr>)"
  define n' where "n' = sigaction SIGTERM handle_shutdown_handler (sigaction SIGINT handle_shutdown_handler
             (sigaction SIGHUP handle_shutdown_handler (log_call CallSetsid n1)))"
  have "main_prepare True es (static_cgi, n) = Inr (Proc (static_cgi\<lparr>cgiLibInit := True, bytesToRead := len\<rparr>, n'))"
    using i l assms unfolding main_prepare_def n'_def n1_def by (simp add: Let_def)
  moreover have "netScript n' = netScript n" "netLog n' = netLog n @ [CallSetsid]" "socks n' = socks n"
    "nos n' = snd (snd (OS_LibInit True False (nos n)))" "handlers n' SIGTERM = handle_shutdown_handler"
    by (simp_all add: n'_def n1_def i)
  ultimately show ?thesis by blast
qed

text \<open>C26. \<open>cgi-fcgi -start\<close> on a Unix domain socket, when every system call succeeds: it makes the socket, forks as many servers as the command
  line says, with \<open>-supervise\<close> waits for as many children, and then sends \<open>SIGTERM\<close> to its own process group, which contains the servers, before it
  leaves with status 0. It ignores the signal itself. Without \<open>-supervise\<close> nothing comes between the last \<open>fork\<close> and the signal.\<close>

theorem start_mode_kills_group:
  assumes line: "list_all flag_ok fs" "bytes ''-start'' \<in> set fs" "bytes ''-bind'' \<notin> set fs" "path_arg path" "path_arg app" "hd app \<noteq> 45"
    and k: "pids \<noteq> []" "length pids < 2 ^ 31" "\<forall>p \<in> set pids. 0 < p"
    and s: "netScript n = [CallOk fd, CallOk 0, CallOk 0, CallOk 0] @ map CallOk pids" "0 \<le> fd"
    and p: "58 \<notin> set path" "OS_BuildSockAddrUn path = Some sa"
    and env: "content_length es = Inr len" "aioState (nos n) = aio_initial"
  shows "\<exists>n'. cgi_main (Suc fuel) files gh True (fs @ [bytes ''-connect'', path, app, decimal (length pids)]) es r sels (static_cgi, n)
      = Inr (ProcExit 0 n')
    \<and> netLog n' = netLog n @ [CallSetsid, CallSocket AF_UNIX, CallUnlink path, CallBind fd sa, CallListen fd 5, CallAccess app]
        @ replicate (length pids) CallFork @ (if bytes ''-supervise'' \<in> set fs then replicate (length pids) CallWait else [])
        @ [CallKill 0 SIGTERM]
    \<and> handlers n' SIGTERM = SIG_IGN"
proof -
  define x where "x = with_flags fs (initial_args\<lparr>connectPath := path, appPath := app, nServers := int (length pids)\<rparr>)"
  have x: "\<not> doBind x" "doStart x" "connectPath x = path" "appPath x = app" "nServers x = int (length pids)"
    "doDaemon x \<longleftrightarrow> bytes ''-supervise'' \<notin> set fs"
    using line(2,3) by (simp_all add: x_def with_flags_def initial_args_def)
  have parse: "ParseArgs (Suc fuel) files (fs @ [bytes ''-connect'', path, app, decimal (length pids)]) (static_cgi, n) = Inr (Proc (0, x, static_cgi, n))"
    unfolding x_def using ParseArgs_line(2) [OF line(1,4,5,6) _ k(2)] k(1) by simp
  let ?g = "static_cgi\<lparr>cgiLibInit := True, bytesToRead := len\<rparr>"
  obtain n1 where n1: "main_prepare True es (static_cgi, n) = Inr (Proc (?g, n1))" "netScript n1 = netScript n"
    "netLog n1 = netLog n @ [CallSetsid]" "nos n1 = snd (snd (OS_LibInit True False (nos n)))"
    using main_prepare_static [OF env(1), of n] by blast
  have idle: "\<not> asyncIoInUse (aioState (nos n1))" using n1(4) env(2) by (simp add: OS_LibInit_def aio_initial_def)
  have host: "split_bind_path path = Inr (path, 0)" using p(1) by (simp add: split_bind_path_def)
  have len: "length path \<le> SUN_PATH_SIZE" using p(2) by (simp add: OS_BuildSockAddrUn_def Let_def split: if_splits)
  obtain n2 where n2: "FCGI_Start gh path app (int (length pids)) (?g, n1) = Inr (Proc (?g, n2))"
    "netLog n2 = netLog n1 @ [CallSocket AF_UNIX, CallUnlink path, CallBind fd sa, CallListen fd 5, CallAccess app] @ replicate (length pids) CallFork"
    using start_log [OF _ s(2) k(3) host len p(2) idle] n1(2) s(1) by metis
  define n3 where "n3 = (if doDaemon x then n2 else n2\<lparr>netLog := netLog n2 @ replicate (length pids) CallWait\<rparr>)"
  define n4 where "n4 = log_call (CallKill 0 SIGTERM) (sigaction SIGTERM SIG_IGN n3)"
  have "main_connect gh x (?g, n1) = (bindq (cgi_exit 0 (?g, n4)) (\<lambda>s3. if appServerSock (fst s3) < 0
     then cgi_exit (net_errno (snd s3)) (fst s3, message (bytes ''Could not connect to'') (snd s3)) else Inr (Proc s3)))"
    using x n2(1) by (simp add: main_connect_def main_started_def waits_log n3_def n4_def)
  moreover have "appServerSock ?g = - 1" by (simp add: static_cgi_def)
  then obtain w where "(cgi_exit 0 (?g, n4) :: (cgi \<times> net) proc res) = Inr (ProcExit 0 (n4\<lparr>nos := w\<rparr>))"
    using cgi_exit_unconnected [of ?g 0 n4] by blast
  ultimately have "cgi_main (Suc fuel) files gh True (fs @ [bytes ''-connect'', path, app, decimal (length pids)]) es r sels (static_cgi, n)
      = Inr (ProcExit 0 (n4\<lparr>nos := w\<rparr>))"
    unfolding cgi_main_def parse using n1(1) by simp
  moreover have "netLog (n4\<lparr>nos := w\<rparr>) = netLog n @ [CallSetsid, CallSocket AF_UNIX, CallUnlink path, CallBind fd sa, CallListen fd 5, CallAccess app]
        @ replicate (length pids) CallFork @ (if bytes ''-supervise'' \<in> set fs then replicate (length pids) CallWait else [])
        @ [CallKill 0 SIGTERM]"
    using n1(3) n2(2) x(6) by (simp add: n3_def n4_def)
  moreover have "handlers (n4\<lparr>nos := w\<rparr>) SIGTERM = SIG_IGN" by (simp add: n4_def)
  ultimately show ?thesis by blast
qed

theorem start_mode_kills_group_witness:
  "\<exists>n' sa. cgi_main 1 (\<lambda>_. None) (\<lambda>_. None) True [bytes ''-start'', bytes ''-connect'', bytes ''/tmp/s'', bytes ''/bin/app'', decimal 2] [] zero_reqData []
      (static_cgi, sample_net [CallOk 3, CallOk 0, CallOk 0, CallOk 0, CallOk 77, CallOk 78]) = Inr (ProcExit 0 n')
    \<and> netLog n' = [CallSetsid, CallSocket AF_UNIX, CallUnlink (bytes ''/tmp/s''), CallBind 3 sa, CallListen 3 5, CallAccess (bytes ''/bin/app''),
         CallFork, CallFork, CallKill 0 SIGTERM]"
proof -
  let ?p = "bytes ''/tmp/s''" and ?a = "bytes ''/bin/app''"
  obtain sa where sa: "OS_BuildSockAddrUn ?p = Some sa" by (simp add: OS_BuildSockAddrUn_def Let_def bytes_def SUN_PATH_SIZE_def)
  have f: "list_all flag_ok [bytes ''-start'']" "bytes ''-start'' \<in> set [bytes ''-start'']" "bytes ''-bind'' \<notin> set [bytes ''-start'']"
    "bytes ''-supervise'' \<notin> set [bytes ''-start'']"
    using option_names(15,16) by (simp_all add: flag_ok_def)
  have p: "path_arg ?p" "path_arg ?a" "hd ?a \<noteq> 45" "58 \<notin> set ?p" by (simp_all add: path_arg_def bytes_def MAXPATHLEN_def)
  have c: "content_length [] = Inr 0" by (simp add: content_length_def getenv_def)
  have n: "netScript (sample_net [CallOk 3, CallOk 0, CallOk 0, CallOk 0, CallOk 77, CallOk 78]) = [CallOk 3, CallOk 0, CallOk 0, CallOk 0] @ map CallOk [77, 78]"
    "aioState (nos (sample_net [CallOk 3, CallOk 0, CallOk 0, CallOk 0, CallOk 77, CallOk 78])) = aio_initial"
    "netLog (sample_net [CallOk 3, CallOk 0, CallOk 0, CallOk 0, CallOk 77, CallOk 78]) = []"
    by (simp_all add: sample_net_def sample_os_def)
  from start_mode_kills_group [OF f(1-3) p(1,2,3) _ _ _ n(1) _ p(4) sa c n(2), of 0 "\<lambda>_. None" "\<lambda>_. None" zero_reqData "[]"]
  moreover have "decimal 2 = decimal (Suc (Suc 0))" by (simp add: numeral_2_eq_2)
  ultimately show ?thesis using f(4) n(3) by auto
qed

section \<open>A program that connects\<close>

lemma connect_ok:
  assumes "split_bind_path path = Inr (host, port)" "length path < MAXPATHLEN" "\<And>m. connect_address gh path host port m = Inr (Proc sa)"
    "netScript n = CallOk s # CallPeer c # evs" "0 \<le> s"
  shows "\<exists>n'. OS_FcgiConnect gh path n = Inr (Proc (s, n')) \<and> s_peer (socks n' s) = Some sa
    \<and> nos n' = (nos n)\<lparr>conns := (conns (nos n))(s := c\<lparr>isOpen := True\<rparr>)\<rparr>"
  using assms by (simp add: OS_FcgiConnect_def posix_socket_def posix_connect_def syscall_def next_event_def log_call_def put_sock_def)

text \<open>The operating system's state when \<open>cgi-fcgi\<close> has connected to a peer that behaves as \<open>c\<close>.\<close>

definition connected_os :: "int \<Rightarrow> conn \<Rightarrow> os \<Rightarrow> os" where
  "connected_os s c w = (let w1 = snd (snd (OS_LibInit True False w)) in w1\<lparr>conns := (conns w1)(s := c\<lparr>isOpen := True\<rparr>)\<rparr>)"

lemma connected_start:
  assumes "aioState v = aio_initial" "2 < s" "s < FD_SETSIZE" "writable s (connected_os s c v)" "takes_all STDOUT_FILENO v" "takes_all STDERR_FILENO v"
  shows "main_start s (static_cgi\<lparr>cgiLibInit := True, bytesToRead := len, appServerSock := s\<rparr>) (connected_os s c v)"
  using assms by (simp add: main_start_def static_cgi_def connected_os_def OS_LibInit_def aio_initial_def takes_all_def STDOUT_FILENO_def STDERR_FILENO_def Let_def)

text \<open>C9. The program as a whole. Started with a command line (or command files) that asks for a connection, when the connection to the address
  of \<open>-connect\<close> comes about, takes the first record whole, and nothing follows the end of the request in the server's output, \<open>cgi-fcgi\<close> sends its request to that address and relays the answer: when it leaves with \<open>exit\<close>, the server
  has been sent the whole beginning of the request and environment and, but for at most a buffer's worth, the records of the standard input read so
  far; and either the exit code is that of an error the kernel has reported and a part of the server's output has been relayed, or all of
  it has been relayed and the exit code is the server's application status, or the error code of a malformed or unfinished output
  (\<open>bridge_exit\<close>). Otherwise it waits for good for something the kernel does not report, or makes one of the out-of-bounds accesses that \<open>bridge_faults\<close> excludes for input
  that does not arrive cut up inside a header.\<close>

theorem cgi_main_relays:
  assumes parse: "ParseArgs fuel files argv (static_cgi, n) = Inr (Proc (0, x, static_cgi, n))" "doBind x"
    and env: "content_length es = Inr len" "list_all (\<lambda>e. 0x3d \<in> set e) es"
    and addr: "split_bind_path (connectPath x) = Inr (host, port)" "length (connectPath x) < MAXPATHLEN"
      "\<And>m. connect_address gh (connectPath x) host port m = Inr (Proc sa)"
    and peer: "netScript n = CallOk s # CallPeer c # evs" "2 < s" "s < FD_SETSIZE"
    and os: "aioState (nos n) = aio_initial" "w = connected_os s c (nos n)" "writable s w" "takes_all STDOUT_FILENO (nos n)"
      "takes_all STDERR_FILENO (nos n)"
    and first: "fst (OS_Write s begin_request w) = 16" "rPhase (relay_bytes 1 (incoming s w) relay_start) \<noteq> Overrun"
  shows "\<exists>fr. framed 1 FCGI_PARAMS fr (pairs_bytes (map env_pair es))
    \<and> (case cgi_main fuel files gh True argv es r sels (static_cgi, n) of
         Inl f \<Rightarrow> f \<in> insert Blocked (bridge_faults s w)
       | Inr (ProcExit code n') \<Rightarrow> s_peer (socks n' s) = Some sa
           \<and> bridge_exit s (kernel_errors s sels w) len (incoming s w) (incoming STDIN_FILENO w)
               (sent (conns w s) @ begin_request @ fr @ header_bytes (header_for FCGI_PARAMS 1 0 0))
               (sent (conns w STDOUT_FILENO)) (sent (conns w STDERR_FILENO)) code (nos n')
       | _ \<Rightarrow> False)"
proof -
  let ?g = "static_cgi\<lparr>cgiLibInit := True, bytesToRead := len\<rparr>" and ?h = "static_cgi\<lparr>cgiLibInit := True, bytesToRead := len, appServerSock := s\<rparr>"
  let ?out = "\<lambda>fr. bridge_exit s (kernel_errors s sels w) len (incoming s w) (incoming STDIN_FILENO w)
      (sent (conns w s) @ begin_request @ fr @ header_bytes (header_for FCGI_PARAMS 1 0 0)) (sent (conns w STDOUT_FILENO)) (sent (conns w STDERR_FILENO))"
  obtain n1 where n1: "main_prepare True es (static_cgi, n) = Inr (Proc (?g, n1))" "netScript n1 = CallOk s # CallPeer c # evs"
    "nos n1 = snd (snd (OS_LibInit True False (nos n)))"
    using main_prepare_static [OF env(1), of n] peer(1) by auto
  obtain n2 where n2: "OS_FcgiConnect gh (connectPath x) n1 = Inr (Proc (s, n2))" "s_peer (socks n2 s) = Some sa"
    "nos n2 = connected_os s c (nos n)"
    using connect_ok [OF addr n1(2)] peer(2) n1(3) by (auto simp: connected_os_def Let_def)
  have "main_connect gh x (?g, n1) = Inr (Proc (?h, n2))"
    using n2(1) parse(2) peer(2) by (simp add: main_connect_def connect_server_def)
  then have m: "cgi_main fuel files gh True argv es r sels (static_cgi, n) = run_request r es sels (?h, n2)"
    unfolding cgi_main_def parse(1) using n1(1) by simp
  have start: "main_start s ?h w" unfolding os(2) using connected_start [OF os(1) peer(2,3) _ os(4,5)] os(2,3) by simp
  obtain fr g' w' where fr: "framed 1 FCGI_PARAMS fr (pairs_bytes (map env_pair es))"
    "main_request r es (?h, w) = Inr (Run (g', w'))"
    "outcome (insert Blocked (bridge_faults s w)) (?out fr) (\<lambda>_. False) (event_loop sels (g', w'))"
    using main_request_relays [OF start env(2) first, of r sels] by auto
  have "case run_request r es sels (?h, n2) of Inl f \<Rightarrow> f \<in> insert Blocked (bridge_faults s w)
      | Inr (ProcExit code n') \<Rightarrow> s_peer (socks n' s) = Some sa \<and> ?out fr code (nos n') | _ \<Rightarrow> False"
    using fr(2,3) n2(2,3) os(2)
    by (cases "event_loop sels (g', w')") (auto simp: run_request_def split: run.splits)
  then show ?thesis using fr(1) unfolding m by blast
qed

text \<open>For examples: a process whose connection is a socket that takes everything, and the connection it gets.\<close>

definition sample_peer :: conn where
  "sample_peer = (sample_conn [])\<lparr>wrScript := [], rdScript := [RdBytes sample_response]\<rparr>"

definition sample_connecting :: net where
  "sample_connecting = (sample_net [CallOk 5, CallPeer sample_peer])\<lparr>nos := sample_open\<rparr>"

lemma const_upd: "(\<lambda>_. c)(x := c) = (\<lambda>_. c)"
  by (rule ext) simp

lemma sample_connecting_facts:
  "connected_os 5 sample_peer (nos sample_connecting) = sample_served"
  "netScript sample_connecting = [CallOk 5, CallPeer sample_peer]" "aioState (nos sample_connecting) = aio_initial"
  "takes_all STDOUT_FILENO (nos sample_connecting)" "takes_all STDERR_FILENO (nos sample_connecting)" "writable 5 sample_served"
  by (simp_all add: sample_connecting_def sample_net_def connected_os_def sample_served_def sample_peer_def sample_connected_def sample_open_def
      sample_os_def sample_conn_def OS_LibInit_def aio_initial_def takes_all_def writable_def Let_def const_upd)

theorem cgi_main_relays_witness:
  "\<exists>fr sa. framed 1 FCGI_PARAMS fr (pairs_bytes [([65], [66])])
    \<and> (case cgi_main (Suc 0) (\<lambda>_. None) (\<lambda>_. None) True [bytes ''-connect'', bytes ''/tmp/s'', bytes ''/bin/app''] [[65, 61, 66]] zero_reqData
           [SelectReady {5} {5}, SelectErr 4] (static_cgi, sample_connecting) of
         Inl f \<Rightarrow> f \<in> {Blocked}
       | Inr (ProcExit code n') \<Rightarrow> s_peer (socks n' 5) = Some sa
           \<and> bridge_exit 5 {4} 0 sample_response []
               (begin_request @ fr @ header_bytes (header_for FCGI_PARAMS 1 0 0)) [] [] code (nos n')
       | _ \<Rightarrow> False)"
proof -
  let ?p = "bytes ''/tmp/s''" and ?a = "bytes ''/bin/app''"
  let ?x = "with_flags [] (initial_args\<lparr>connectPath := ?p, appPath := ?a, nServers := 1\<rparr>)"
  obtain sa where sa: "OS_BuildSockAddrUn ?p = Some sa" by (simp add: OS_BuildSockAddrUn_def Let_def bytes_def SUN_PATH_SIZE_def)
  have p: "path_arg ?p" "path_arg ?a" "hd ?a \<noteq> 45" "58 \<notin> set ?p" by (simp_all add: path_arg_def bytes_def MAXPATHLEN_def)
  have parse: "ParseArgs (Suc 0) (\<lambda>_. None) [bytes ''-connect'', ?p, ?a] (static_cgi, sample_connecting) = Inr (Proc (0, ?x, static_cgi, sample_connecting))"
    using ParseArgs_line(1) [of "[]" ?p ?a 1 0] p by simp
  have x: "doBind ?x" "connectPath ?x = ?p" by (simp_all add: with_flags_def initial_args_def)
  have c: "content_length [[65, 61, 66]] = Inr 0" by (simp add: content_length_def getenv_def name_matches_def bytes_def)
  have a: "split_bind_path (connectPath ?x) = Inr (?p, 0)" "length (connectPath ?x) < MAXPATHLEN"
    "connect_address (\<lambda>_. None) (connectPath ?x) ?p 0 m = Inr (Proc sa)" for m
    using p(1,4) sa by (simp_all only: x(2)) (simp_all add: sample_path path_arg_def connect_address_def)
  have over: "rPhase (relay_bytes 1 (incoming 5 sample_served) relay_start) \<noteq> Overrun"
    by (rule sample_response_relayed) (simp add: sample_served_facts)
  have "list_all (\<lambda>e. 0x3d \<in> set e) [[65, 61, 66 :: byte]]" "(2 :: int) < 5" "5 < FD_SETSIZE" by (simp_all add: FD_SETSIZE_def)
  from cgi_main_relays [OF parse x(1) c this(1) a(1,2) a(3) sample_connecting_facts(2) this(2,3) sample_connecting_facts(3)
      sample_connecting_facts(1) [symmetric] sample_connecting_facts(6,4,5) sample_served_facts(2) over,
      where r = zero_reqData and sels = "[SelectReady {5} {5}, SelectErr 4]"]
  obtain fr where fr: "framed 1 FCGI_PARAMS fr (pairs_bytes (map env_pair [[65, 61, 66]]))"
    "case cgi_main (Suc 0) (\<lambda>_. None) (\<lambda>_. None) True [bytes ''-connect'', ?p, ?a] [[65, 61, 66]] zero_reqData
           [SelectReady {5} {5}, SelectErr 4] (static_cgi, sample_connecting) of
         Inl f \<Rightarrow> f \<in> {Blocked}
       | Inr (ProcExit code n') \<Rightarrow> s_peer (socks n' 5) = Some sa
           \<and> bridge_exit 5 {4} 0 sample_response []
               (begin_request @ fr @ header_bytes (header_for FCGI_PARAMS 1 0 0)) [] [] code (nos n')
       | _ \<Rightarrow> False"
    unfolding sample_served_facts sample_served_faults append_Nil by blast
  have "map env_pair [[65, 61, 66]] = [([65], [66])]" by (simp add: env_pair_def)
  then show ?thesis by (intro exI [of _ fr] exI [of _ sa] conjI fr(2)) (use fr(1) in simp)
qed

section \<open>Command files\<close>

datatype command_line = Comment "byte list" | Words "byte list list"

fun line_text :: "byte list list \<Rightarrow> byte list" where
  "line_text [] = []"
| "line_text [w] = w"
| "line_text (w # ws) = w @ 32 # line_text ws"

definition word_ok :: "byte list \<Rightarrow> bool" where
  "word_ok w \<longleftrightarrow> w \<noteq> [] \<and> (\<forall>b \<in> set w. b \<noteq> 0 \<and> b \<noteq> 9 \<and> b \<noteq> 10 \<and> b \<noteq> 32)"

fun command_bytes :: "command_line \<Rightarrow> byte list" where
  "command_bytes (Comment c) = 35 # c"
| "command_bytes (Words ws) = line_text ws"

fun words_of :: "command_line \<Rightarrow> byte list list" where
  "words_of (Comment c) = []"
| "words_of (Words ws) = ws"

fun line_ok :: "command_line \<Rightarrow> bool" where
  "line_ok (Comment c) \<longleftrightarrow> 10 \<notin> set c \<and> length c + 2 < BUFSIZ"
| "line_ok (Words ws) \<longleftrightarrow> ws \<noteq> [] \<and> list_all word_ok ws \<and> hd (hd ws) \<noteq> 35 \<and> length (line_text ws) + 1 < BUFSIZ"

definition file_of :: "command_line list \<Rightarrow> byte list" where
  "file_of ls = concat (map (\<lambda>l. command_bytes l @ [10]) ls)"

lemma line_text_split: "ws \<noteq> [] \<Longrightarrow> list_all word_ok ws \<Longrightarrow> split_at 32 (line_text ws) = ws"
proof (induction ws rule: line_text.induct)
  case (2 w)
  then show ?case using split_at_piece [of 32 w] by (auto simp: word_ok_def)
next
  case (3 w v vs)
  have "32 \<notin> set w" using 3 by (auto simp: word_ok_def)
  then show ?case using 3 by (simp add: split_at_append)
qed simp

lemma word_ok_bytes: "word_ok w \<Longrightarrow> b \<in> set w \<Longrightarrow> b \<noteq> 0 \<and> b \<noteq> 9 \<and> b \<noteq> 10 \<and> b \<noteq> 32"
  unfolding word_ok_def by blast

lemma line_text_set: "b \<in> set (line_text ws) \<Longrightarrow> b = 32 \<or> (\<exists>w \<in> set ws. b \<in> set w)"
  by (induction ws rule: line_text.induct) auto

lemma line_text_bytes:
  assumes "list_all word_ok ws" "b \<in> set (line_text ws)"
  shows "b \<noteq> 0 \<and> b \<noteq> 9 \<and> b \<noteq> 10"
proof (cases "b = 32")
  case False
  then obtain w where "w \<in> set ws" "b \<in> set w" using line_text_set [OF assms(2)] by blast
  then show ?thesis using word_ok_bytes assms(1) unfolding list_all_iff by blast
qed simp

lemma line_text_ends:
  "ws \<noteq> [] \<Longrightarrow> list_all word_ok ws \<Longrightarrow> line_text ws \<noteq> [] \<and> hd (line_text ws) = hd (hd ws) \<and> last (line_text ws) \<noteq> 32"
proof (induction ws rule: line_text.induct)
  case (2 w)
  then have w: "word_ok w" "w \<noteq> []" by (simp_all add: word_ok_def)
  then show ?case using word_ok_bytes [OF w(1) last_in_set [OF w(2)]] by simp
next
  case (3 w v vs)
  then have "w \<noteq> []" by (simp add: word_ok_def)
  then show ?case using 3 by simp
qed simp

lemma takeWhile_stop: "(\<And>b. b \<in> set t \<Longrightarrow> P b) \<Longrightarrow> \<not> P c \<Longrightarrow> takeWhile P (t @ c # r) = t"
  by (induction t) auto

lemma no_blanks_at_end:
  assumes "t \<noteq> []" "last t \<noteq> 32" "last t \<noteq> 9"
  shows "dropWhile (\<lambda>b. b = 32 \<or> b = 9) (rev t) = rev t"
  using assms by (cases t rule: rev_cases) simp_all

lemma line_args_line:
  assumes "line_ok l"
  shows "line_args (command_bytes l @ [10]) = Inr (Some (words_of l))"
proof (cases l)
  case (Comment c)
  then show ?thesis by (simp add: line_args_def c_str_def)
next
  case (Words ws)
  let ?t = "line_text ws"
  have ok: "ws \<noteq> []" "list_all word_ok ws" "hd (hd ws) \<noteq> 35" using assms Words by simp_all
  note ends = line_text_ends [OF ok(1,2)]
  have b: "b \<noteq> 0 \<and> b \<noteq> 9 \<and> b \<noteq> 10" if "b \<in> set ?t" for b by (rule line_text_bytes [OF ok(2) that])
  have c: "c_str (?t @ [10]) = ?t @ [10]" unfolding c_str_def by (rule takeWhile_eq_all_conv [THEN iffD2]) (use b in auto)
  have d: "takeWhile (\<lambda>b. b \<noteq> 10) (?t @ [10]) = ?t" by (rule takeWhile_stop) (use b in auto)
  have e: "dropWhile (\<lambda>b. b = 32 \<or> b = 9) (rev ?t) = rev ?t"
    by (rule no_blanks_at_end) (use ends b [OF last_in_set] in auto)
  have h: "hd (?t @ [10]) \<noteq> 35" "?t @ [10] \<noteq> []" "10 \<in> set (?t @ [10])" using ends ok(3) by simp_all
  have "line_args (?t @ [10]) = Inr (Some (split_at 32 ?t))"
    unfolding line_args_def Let_def c d e using h ends by simp
  then show ?thesis using line_text_split [OF ok(1,2)] Words by simp
qed

lemma fgets_line_append:
  assumes "10 \<notin> set t" "length t + 1 < BUFSIZ"
  shows "fgets_line (t @ 10 # r) = (t @ [10], r)"
proof -
  obtain d where d: "BUFSIZ - 1 = Suc (length t) + d" using assms(2) by (intro that [of "BUFSIZ - 2 - length t"]) simp
  have k: "takeWhile (\<lambda>b. b \<noteq> 10) (take (Suc (length t) + d) (t @ 10 # r)) = t"
    unfolding take_append by (simp, rule takeWhile_stop) (use assms(1) in auto)
  show ?thesis by (simp only: fgets_line_def d k Let_def) simp
qed

lemma command_bytes_bound: "line_ok l \<Longrightarrow> 10 \<notin> set (command_bytes l) \<and> length (command_bytes l) + 1 < BUFSIZ"
  by (cases l) (auto dest: line_text_bytes)

lemma file_args_file:
  assumes "list_all line_ok ls" "length (av @ concat (map words_of ls)) < MAXARGS"
  shows "file_args av (file_of ls) s = Inr (Proc (Some (av @ concat (map words_of ls))))"
  using assms
proof (induction ls arbitrary: av)
  case Nil
  then show ?case by (subst file_args.simps) (simp add: file_of_def)
next
  case (Cons l ls)
  have "file_of (l # ls) = command_bytes l @ 10 # file_of ls" by (simp add: file_of_def)
  moreover have "fgets_line (command_bytes l @ 10 # file_of ls) = (command_bytes l @ [10], file_of ls)"
    using command_bytes_bound Cons.prems(1) by (intro fgets_line_append) auto
  ultimately show ?case using Cons.IH [of "av @ words_of l"] Cons.prems line_args_line [of l]
    by (subst file_args.simps) simp
qed

text \<open>What may stand before \<open>-f\<close>: flags, \<open>-connect\<close> with its name, and one application path (\<open>app\<close> says that there has been one).\<close>

fun before_ok :: "bool \<Rightarrow> byte list list \<Rightarrow> bool" where
  "before_ok app [] \<longleftrightarrow> True"
| "before_ok app [a] \<longleftrightarrow> flag_ok a \<or> \<not> app \<and> path_arg a \<and> hd a \<noteq> 45"
| "before_ok app (a # c # as) \<longleftrightarrow>
     (if a = bytes ''-connect'' then length c < MAXPATHLEN \<and> before_ok app as
      else if flag_ok a then before_ok app (c # as)
      else \<not> app \<and> path_arg a \<and> hd a \<noteq> 45 \<and> before_ok True (c # as))"

lemma parse_flag:
  "flag_ok a \<Longrightarrow> \<exists>y'. appPath y' = appPath y \<and> (\<forall>as. parse_loop files parse (a # as) (err, y, g, n) = parse_loop files parse as (err, y', g, n))"
  using parse_flags [of "[a]" files parse _ err y g n] by (intro exI [of _ "with_flags [a] y"]) (simp add: with_flags_def)

lemma parse_app:
  "path_arg a \<Longrightarrow> hd a \<noteq> 45 \<Longrightarrow> appPath y = [] \<Longrightarrow>
   parse_loop files parse (a # as) (err, y, g, n) = parse_loop files parse as (err, y\<lparr>appPath := a\<rparr>, g, n)"
  by (simp add: parse_loop.simps(2) path_arg_def)

lemma parse_before:
  assumes "before_ok app as" "appPath y = [] \<or> app"
  shows "\<exists>y'. parse_loop files parse (as @ bs) (err, y, g, n) = parse_loop files parse bs (err, y', g, n)"
  using assms
proof (induction app as arbitrary: y rule: before_ok.induct)
  case (1 app)
  then show ?case by auto
next
  case (2 app a)
  then show ?case using parse_flag [of a y files parse err g n] parse_app [of a y files parse bs err g n] by fastforce
next
  case (3 app a c as)
  consider "a = bytes ''-connect''" | "a \<noteq> bytes ''-connect''" "flag_ok a" | "a \<noteq> bytes ''-connect''" "\<not> flag_ok a" by blast
  then show ?case
  proof cases
    case 1
    then show ?thesis using 3(1) [OF 1, of "y\<lparr>connectPath := c\<rparr>"] 3(4,5) 1 by (simp add: parse_loop.simps(2) option_names)
  next
    case 2
    then obtain y' where "appPath y' = appPath y"
      "parse_loop files parse ((a # c # as) @ bs) (err, y, g, n) = parse_loop files parse ((c # as) @ bs) (err, y', g, n)"
      using parse_flag [of a y files parse err g n] by auto
    then show ?thesis using 3(2) [OF 2, of y'] 3(4,5) 2 by simp
  next
    case non: 3
    then have "parse_loop files parse ((a # c # as) @ bs) (err, y, g, n) = parse_loop files parse ((c # as) @ bs) (err, y\<lparr>appPath := a\<rparr>, g, n)"
      using 3(4,5) parse_app by simp
    then show ?thesis using 3(3) [OF non, of "y\<lparr>appPath := a\<rparr>"] 3(4) non by simp
  qed
qed

text \<open>C25. A command file means its words: \<open>-f\<close> with a file of at most 15 words, one to a line or several between single blanks, with comment lines
  in between, is the command line of these words. What stands before \<open>-f\<close> (here flags, \<open>-connect\<close> with its name and an application path, so that
  \<open>-f\<close> is not itself taken for the name of a connection) is forgotten, and what follows the file is not looked at. Fuel counts how deep the files are nested.\<close>

theorem command_file_meaning:
  assumes "list_all line_ok ls" "length (concat (map words_of ls)) < MAXARGS" "files f = Some (file_of ls)" "before_ok False before"
  shows "ParseArgs (Suc k) files (before @ bytes ''-f'' # f # rest) s = ParseArgs k files (concat (map words_of ls)) s"
proof -
  obtain g n where s: "s = (g, n)" by (cases s)
  have p: "parse_loop files (ParseArgs k files) (bytes ''-f'' # f # rest) (0, y, g, n) =
      bindq (ParseArgs k files (concat (map words_of ls)) (g, n)) (\<lambda>(err1, x1, g1, n1). Inr (Proc (True, err1, x1, g1, n1)))" for y
    using file_args_file [OF assms(1), of "[]" "(g, n)"] assms(2,3) by (simp add: parse_loop.simps(2) option_names)
  have "appPath initial_args = [] \<or> False" by (simp add: initial_args_def)
  from parse_before [OF assms(4) this, of files "ParseArgs k files" "bytes ''-f'' # f # rest" 0 g n]
  have "parse_loop files (ParseArgs k files) (before @ bytes ''-f'' # f # rest) (0, initial_args, g, n) =
      bindq (ParseArgs k files (concat (map words_of ls)) (g, n)) (\<lambda>(err1, x1, g1, n1). Inr (Proc (True, err1, x1, g1, n1)))"
    unfolding p by blast
  then show ?thesis
    by (cases "ParseArgs k files (concat (map words_of ls)) (g, n)") (auto simp: s bindq_def split: proc.splits)
qed

theorem command_file_meaning_witness:
  "ParseArgs (Suc (Suc 0)) (\<lambda>f. if f = [102] then Some (file_of [Comment [32, 88], Words [bytes ''-bind''], Words [bytes ''-connect'', [115]]]) else None)
      [bytes ''-connect'', bytes ''-f'', bytes ''-start'', [97], bytes ''-f'', [102], [120]] (static_cgi, sample_net [])
    = ParseArgs (Suc 0) (\<lambda>f. if f = [102] then Some (file_of [Comment [32, 88], Words [bytes ''-bind''], Words [bytes ''-connect'', [115]]]) else None)
      [bytes ''-bind'', bytes ''-connect'', [115]] (static_cgi, sample_net [])"
  using command_file_meaning [of "[Comment [32, 88], Words [bytes ''-bind''], Words [bytes ''-connect'', [115]]]"
      "\<lambda>f. if f = [102] then Some (file_of [Comment [32, 88], Words [bytes ''-bind''], Words [bytes ''-connect'', [115]]]) else None" "[102]"
      "[bytes ''-connect'', bytes ''-f'', bytes ''-start'', [97]]" "Suc 0" "[[120]]" "(static_cgi, sample_net [])"]
  by (simp add: MAXARGS_def MAXPATHLEN_def flag_ok_def path_arg_def BUFSIZ_def word_ok_def bytes_def)

end
