(* ===== verification/Fcgi_Io.thy ===== *)
theory Fcgi_Io
  imports Fcgi_Stream
begin

text \<open>
  The C++ binding \<open>libfcgi/fcgio.cpp\<close>: \<open>fcgi_streambuf\<close>, a \<open>std::streambuf\<close> over an \<open>FCGX_Stream\<close>, with or without a buffer of
  its own. The get area and the put area share the buffer: \<open>eback()\<close> and \<open>pbase()\<close> are its beginning, \<open>epptr()\<close> its end; the other
  pointers are offsets. A buffer of length zero stands for none.

  The functions of the base class that C++ streams call are in the last section, as the GNU library has them: a read position may lie one
  past \<open>egptr()\<close> (\<open>gbump\<close> does not check), and \<open>in_avail\<close> is the difference of the pointers unless that is zero.
\<close>

section \<open>State\<close>

record streambuf =
  bufMem :: "byte list"
  bufsize :: nat
  gptr :: nat
  egptr :: nat
  pptr :: nat
  fcgx :: "st option"

text \<open>A call on the stream; a null pointer has none.\<close>

definition on_fcgx :: "(st \<Rightarrow> ('a \<times> st) res) \<Rightarrow> streambuf \<Rightarrow> ('a \<times> streambuf) res" where
  "on_fcgx f x = (case fcgx x of None \<Rightarrow> Inl Undefined | Some s \<Rightarrow> bindr (f s) (\<lambda>(r, s1). Inr (r, x\<lparr>fcgx := Some s1\<rparr>)))"

section \<open>Buffers and streams\<close>

definition reset_areas :: "streambuf \<Rightarrow> streambuf" where
  "reset_areas x = x\<lparr>gptr := 0, egptr := 0, pptr := 0\<rparr>"

text \<open>The boolean says whether the result is \<open>this\<close>.\<close>

definition setbuf :: "byte list \<Rightarrow> streambuf \<Rightarrow> bool \<times> streambuf" where
  "setbuf b x = (if bufsize x \<noteq> 0 then (False, x) else (True, reset_areas (x\<lparr>bufMem := b, bufsize := length b\<rparr>)))"

definition streambuf_init :: "st option \<Rightarrow> byte list \<Rightarrow> streambuf" where
  "streambuf_init fs b = snd (setbuf b \<lparr>bufMem = [], bufsize = 0, gptr = 0, egptr = 0, pptr = 0, fcgx = fs\<rparr>)"

definition attach :: "st option \<Rightarrow> streambuf \<Rightarrow> int \<times> streambuf" where
  "attach fs x = (let x1 = x\<lparr>fcgx := fs\<rparr> in (0, if bufsize x1 \<noteq> 0 then reset_areas x1 else x1))"

definition fcgi_streambuf :: "st option \<Rightarrow> streambuf" where
  "fcgi_streambuf fs = streambuf_init fs []"

text \<open>The deprecated classes \<open>fcgi_istream\<close> and \<open>fcgi_ostream\<close> attach a stream to a buffer without one.\<close>

definition fcgi_istream :: "st option \<Rightarrow> streambuf" where
  "fcgi_istream fs = snd (attach fs (fcgi_streambuf None))"

definition fcgi_ostream :: "st option \<Rightarrow> streambuf" where
  "fcgi_ostream fs = snd (attach fs (fcgi_streambuf None))"

section \<open>Writing\<close>

definition overflow :: "empty_proc \<Rightarrow> int \<Rightarrow> streambuf \<Rightarrow> (int \<times> streambuf) res" where
  "overflow drain c x =
     bindr (let plen = pptr x in
            if bufsize x \<noteq> 0 \<and> plen \<noteq> 0 then
              inbounds (plen \<le> length (bufMem x))
               (bindr (on_fcgx (FCGX_PutStr drain (take plen (bufMem x))) x) (\<lambda>(r, x1).
                  Inr (if r \<noteq> int plen then (False, x1) else (True, x1\<lparr>pptr := pptr x1 - plen\<rparr>))))
            else Inr (True, x))
       (\<lambda>(ok, x1).
         if \<not> ok then Inr (EOF, x1)
         else if c \<noteq> EOF then
           bindr (on_fcgx (FCGX_PutChar drain c) x1) (\<lambda>(r, x2). Inr (if r \<noteq> c then EOF else 0, x2))
         else Inr (0, x1))"

definition sync :: "empty_proc \<Rightarrow> streambuf \<Rightarrow> (int \<times> streambuf) res" where
  "sync drain x =
     bindr (overflow drain EOF x) (\<lambda>(r, x1).
       if r \<noteq> 0 then Inr (EOF, x1)
       else bindr (on_fcgx (FCGX_FFlush drain) x1) (\<lambda>(r2, x2). Inr (if r2 \<noteq> 0 then EOF else 0, x2)))"

text \<open>The destructor; what is left of the object is its stream.\<close>

definition destroy :: "empty_proc \<Rightarrow> streambuf \<Rightarrow> st option res" where
  "destroy drain x = bindr (overflow drain EOF x) (\<lambda>(_, x1). Inr (fcgx x1))"

section \<open>Reading\<close>

definition in_avail :: "streambuf \<Rightarrow> int" where
  "in_avail x = int (egptr x) - int (gptr x)"

text \<open>\<open>(unsigned char) *gptr()\<close>\<close>

definition current :: "streambuf \<Rightarrow> (int \<times> streambuf) res" where
  "current x = inbounds (gptr x < length (bufMem x)) (Inr (uint (bufMem x ! gptr x), x))"

definition underflow :: "fill_proc \<Rightarrow> streambuf \<Rightarrow> (int \<times> streambuf) res" where
  "underflow fill x =
     (if bufsize x \<noteq> 0 then
        if in_avail x = 0 then
          bindr (on_fcgx (FCGX_GetStr fill (int (bufsize x))) x) (\<lambda>(bs, x1).
          inbounds (length bs \<le> length (bufMem x1))
           (let x2 = x1\<lparr>bufMem := put_bytes 0 bs (bufMem x1)\<rparr> in
            if bs = [] then Inr (EOF, x2) else current (x2\<lparr>gptr := 0, egptr := length bs\<rparr>)))
        else current x
      else bindr (on_fcgx (FCGX_GetChar fill) x) (\<lambda>(c, x1). on_fcgx (FCGX_UnGetChar c) x1))"

definition uflow :: "fill_proc \<Rightarrow> streambuf \<Rightarrow> (int \<times> streambuf) res" where
  "uflow fill x =
     (if bufsize x \<noteq> 0 then bindr (underflow fill x) (\<lambda>(c, x1). Inr (c, x1\<lparr>gptr := gptr x1 + 1\<rparr>))
      else on_fcgx (FCGX_GetChar fill) x)"

section \<open>Strings, and the base class\<close>

text \<open>\<open>std::streambuf::xsputn\<close>: fill the put area, and call \<open>overflow\<close> with the next byte when it is full. The result counts the
  bytes taken.\<close>

function base_xsputn :: "empty_proc \<Rightarrow> byte list \<Rightarrow> nat \<Rightarrow> streambuf \<Rightarrow> (int \<times> streambuf) res" where
  "base_xsputn drain str ret x =
     (let m = min (length str) (bufsize x - pptr x); rest = drop m str;
          x1 = x\<lparr>bufMem := put_bytes (pptr x) (take m str) (bufMem x), pptr := pptr x + m\<rparr>
      in if rest = [] then Inr (int (ret + m), x1)
         else bindr (overflow drain (uint (hd rest)) x1) (\<lambda>(r, x2).
           if r = EOF then Inr (int (ret + m), x2) else base_xsputn drain (tl rest) (ret + m + 1) x2))"
  by pat_completeness auto
termination
  by (relation "measure (\<lambda>(drain, str, ret, x). length str)") auto

declare base_xsputn.simps [simp del]

text \<open>\<open>std::streambuf::xsgetn\<close>. A read position past \<open>egptr()\<close> would make it copy a negative length.\<close>

function base_xsgetn :: "fill_proc \<Rightarrow> nat \<Rightarrow> byte list \<Rightarrow> streambuf \<Rightarrow> (byte list \<times> streambuf) res" where
  "base_xsgetn fill n acc x =
     (if n \<le> length acc then Inr (acc, x)
      else inbounds (gptr x \<le> egptr x \<and> egptr x \<le> length (bufMem x))
       (let m = min (n - length acc) (egptr x - gptr x); acc1 = acc @ sub_bytes (gptr x) m (bufMem x);
            x1 = x\<lparr>gptr := gptr x + m\<rparr>
        in if n \<le> length acc1 then Inr (acc1, x1)
           else bindr (uflow fill x1) (\<lambda>(c, x2).
             if c = EOF then Inr (acc1, x2) else base_xsgetn fill n (acc1 @ [uchar c]) x2)))"
  by pat_completeness auto
termination
  by (relation "measure (\<lambda>(fill, n, acc, x). n - length acc)") auto

declare base_xsgetn.simps [simp del]

definition xsputn :: "empty_proc \<Rightarrow> byte list \<Rightarrow> streambuf \<Rightarrow> (int \<times> streambuf) res" where
  "xsputn drain str x = (if bufsize x \<noteq> 0 then base_xsputn drain str 0 x else on_fcgx (FCGX_PutStr drain str) x)"

definition xsgetn :: "fill_proc \<Rightarrow> nat \<Rightarrow> streambuf \<Rightarrow> (byte list \<times> streambuf) res" where
  "xsgetn fill n x = (if bufsize x \<noteq> 0 then base_xsgetn fill n [] x else on_fcgx (FCGX_GetStr fill (int n)) x)"

text \<open>What \<open>std::ostream\<close> and \<open>std::istream\<close> call.\<close>

definition sputc :: "empty_proc \<Rightarrow> byte \<Rightarrow> streambuf \<Rightarrow> (int \<times> streambuf) res" where
  "sputc drain b x =
     (if pptr x < bufsize x then Inr (uint b, x\<lparr>bufMem := put_bytes (pptr x) [b] (bufMem x), pptr := pptr x + 1\<rparr>)
      else overflow drain (uint b) x)"

definition sgetc :: "fill_proc \<Rightarrow> streambuf \<Rightarrow> (int \<times> streambuf) res" where
  "sgetc fill x = (if gptr x < egptr x then current x else underflow fill x)"

definition sbumpc :: "fill_proc \<Rightarrow> streambuf \<Rightarrow> (int \<times> streambuf) res" where
  "sbumpc fill x = (if gptr x < egptr x then bindr (current x) (\<lambda>(c, x1). Inr (c, x1\<lparr>gptr := gptr x1 + 1\<rparr>)) else uflow fill x)"

end
