(* ===== verification/Fcgi_Io_Correct.thy ===== *)
theory Fcgi_Io_Correct
  imports Fcgi_Io Fcgi_Exchange
begin

text \<open>
  What \<open>fcgi_streambuf\<close> does to the bytes that pass through it, whatever the size of its buffer: nothing, up to the end of the input. The lemmas are
  stated for the contracts \<open>byte_sink\<close> and \<open>byte_source\<close> of the stream below; the properties instantiate them with the writer and
  the reader of records.
\<close>

section \<open>Client programs\<close>

datatype out_op = Sputc byte | Sputn "byte list" | Sync

datatype in_op = Sbumpc | Sgetc | Sgetn nat

datatype in_val = Char int | Str "byte list"

fun put_op :: "empty_proc \<Rightarrow> out_op \<Rightarrow> streambuf \<Rightarrow> (int \<times> streambuf) res" where
  "put_op drain (Sputc b) x = sputc drain b x"
| "put_op drain (Sputn str) x = xsputn drain str x"
| "put_op drain Sync x = sync drain x"

fun put_ops :: "empty_proc \<Rightarrow> out_op list \<Rightarrow> streambuf \<Rightarrow> (int list \<times> streambuf) res" where
  "put_ops drain [] x = Inr ([], x)"
| "put_ops drain (p # ps) x = bindr (put_op drain p x) (\<lambda>(r, x1). bindr (put_ops drain ps x1) (\<lambda>(rs, x2). Inr (r # rs, x2)))"

fun out_bytes :: "out_op \<Rightarrow> byte list" where
  "out_bytes (Sputc b) = [b]"
| "out_bytes (Sputn str) = str"
| "out_bytes Sync = []"

fun failed :: "int \<Rightarrow> out_op \<Rightarrow> bool" where
  "failed r (Sputc b) = (r = EOF)"
| "failed r (Sputn str) = (r \<noteq> int (length str))"
| "failed r Sync = (r \<noteq> 0)"

text \<open>A reading client goes on until it has met the end.\<close>

fun get_op :: "fill_proc \<Rightarrow> in_op \<Rightarrow> streambuf \<Rightarrow> (in_val \<times> streambuf) res" where
  "get_op fill Sbumpc x = bindr (sbumpc fill x) (\<lambda>(c, x1). Inr (Char c, x1))"
| "get_op fill Sgetc x = bindr (sgetc fill x) (\<lambda>(c, x1). Inr (Char c, x1))"
| "get_op fill (Sgetn n) x = bindr (xsgetn fill n x) (\<lambda>(bs, x1). Inr (Str bs, x1))"

fun at_end :: "in_op \<Rightarrow> in_val \<Rightarrow> bool" where
  "at_end (Sgetn n) (Str bs) = (length bs < n)"
| "at_end _ v = (v = Char EOF)"

fun get_ops :: "fill_proc \<Rightarrow> in_op list \<Rightarrow> streambuf \<Rightarrow> (in_val list \<times> streambuf) res" where
  "get_ops fill [] x = Inr ([], x)"
| "get_ops fill (p # ps) x = bindr (get_op fill p x) (\<lambda>(v, x1).
     if at_end p v then Inr ([v], x1) else bindr (get_ops fill ps x1) (\<lambda>(vs, x2). Inr (v # vs, x2)))"

text \<open>What a client should see of the bytes \<open>cs\<close>.\<close>

fun seen :: "in_op list \<Rightarrow> byte list \<Rightarrow> in_val list" where
  "seen [] cs = []"
| "seen (Sbumpc # ps) cs = (case cs of [] \<Rightarrow> [Char EOF] | c # r \<Rightarrow> Char (uint c) # seen ps r)"
| "seen (Sgetc # ps) cs = (case cs of [] \<Rightarrow> [Char EOF] | c # r \<Rightarrow> Char (uint c) # seen ps cs)"
| "seen (Sgetn n # ps) cs = Str (take n cs) # (if n \<le> length cs then seen ps (drop n cs) else [])"

lemma byte_not_EOF: "uint (b :: byte) \<noteq> EOF"
  by (simp add: EOF_def) (metis not_numeral_le_zero uint_lt_0 uint_ge_0 neg_0_le_iff_le not_one_le_zero)

lemma uchar_of_byte: "uchar (uint (b :: byte)) = b"
  by (simp add: uchar_def)

section \<open>Writing\<close>

context byte_sink
begin

text \<open>The bytes a buffer and its stream have taken.\<close>

definition holds :: "streambuf \<Rightarrow> byte list \<Rightarrow> bool" where
  "holds x cs \<longleftrightarrow> (\<exists>s ds. fcgx x = Some s \<and> took s ds \<and> cs = ds @ take (pptr x) (bufMem x)
     \<and> pptr x \<le> bufsize x \<and> length (bufMem x) = bufsize x)"

lemma holds_copy:
  assumes "holds x cs" "pptr x + length bs \<le> bufsize x"
  shows "holds (x\<lparr>bufMem := put_bytes (pptr x) bs (bufMem x), pptr := pptr x + length bs\<rparr>) (cs @ bs)"
  using assms by (auto simp: holds_def take_put_bytes)

lemma holds_init: "took s cs \<Longrightarrow> holds (streambuf_init (Some s) b) cs"
  by (simp add: holds_def streambuf_init_def setbuf_def reset_areas_def)

lemma overflow_flush:
  assumes "holds x cs"
  shows "\<exists>x'. (let plen = pptr x in if bufsize x \<noteq> 0 \<and> plen \<noteq> 0 then inbounds (plen \<le> length (bufMem x))
        (bindr (on_fcgx (FCGX_PutStr drain (take plen (bufMem x))) x) (\<lambda>(r, x1).
           Inr (if r \<noteq> int plen then (False, x1) else (True, x1\<lparr>pptr := pptr x1 - plen\<rparr>)))) else Inr (True, x)) = Inr (True, x')
    \<and> holds x' cs \<and> pptr x' = 0 \<and> bufsize x' = bufsize x"
proof -
  obtain s ds where s: "fcgx x = Some s" "took s ds" "cs = ds @ take (pptr x) (bufMem x)" "pptr x \<le> bufsize x" "length (bufMem x) = bufsize x"
    using assms by (auto simp: holds_def)
  show ?thesis
  proof (cases "bufsize x \<noteq> 0 \<and> pptr x \<noteq> 0")
    case True
    obtain s' where "FCGX_PutStr drain (take (pptr x) (bufMem x)) s = Inr (int (pptr x), s')" "took s' cs"
      using PutStr_took [OF s(2), of "take (pptr x) (bufMem x)"] s(3-5) by auto
    then show ?thesis using True s by (simp add: on_fcgx_def holds_def Let_def)
  next
    case False
    then show ?thesis using assms s(4) by auto
  qed
qed

lemma overflow_holds:
  assumes "holds x cs"
  shows "\<exists>x'. overflow drain EOF x = Inr (0, x') \<and> holds x' cs \<and> pptr x' = 0 \<and> bufsize x' = bufsize x"
  using overflow_flush [OF assms] by (auto simp: overflow_def)

lemma overflow_char:
  assumes "holds x cs"
  shows "\<exists>x'. overflow drain (uint b) x = Inr (0, x') \<and> holds x' (cs @ [b])"
proof -
  obtain x1 where x1: "holds x1 cs" "pptr x1 = 0" "overflow drain (uint b) x =
      bindr (on_fcgx (FCGX_PutChar drain (uint b)) x1) (\<lambda>(r, x2). Inr (if r \<noteq> uint b then EOF else 0, x2))"
    using overflow_flush [OF assms] byte_not_EOF [of b] by (auto simp: overflow_def)
  then obtain s where s: "fcgx x1 = Some s" "took s cs" by (auto simp: holds_def)
  obtain s' where "FCGX_PutChar drain (uint b) s = Inr (uint b, s')" "took s' (cs @ [b])"
    using PutChar_took [OF s(2), of "uint b"] by (auto simp: uchar_of_byte)
  then show ?thesis using x1 s(1) by (auto simp: on_fcgx_def holds_def)
qed

lemma base_xsputn_holds:
  "holds x cs \<Longrightarrow> \<exists>x'. base_xsputn drain str ret x = Inr (int (ret + length str), x') \<and> holds x' (cs @ str)"
proof (induction "length str" arbitrary: str ret x cs rule: less_induct)
  case less
  define m where "m = min (length str) (bufsize x - pptr x)"
  define x1 where "x1 = x\<lparr>bufMem := put_bytes (pptr x) (take m str) (bufMem x), pptr := pptr x + m\<rparr>"
  have le: "pptr x \<le> bufsize x" using less.prems by (auto simp: holds_def)
  have len: "length (take m str) = m" by (simp add: m_def)
  have x1: "holds x1 (cs @ take m str)"
    using holds_copy [OF less.prems, of "take m str"] le unfolding x1_def len by (simp add: m_def)
  have eq: "base_xsputn drain str ret x = (if drop m str = [] then Inr (int (ret + m), x1)
      else bindr (overflow drain (uint (hd (drop m str))) x1) (\<lambda>(r, x2).
        if r = EOF then Inr (int (ret + m), x2) else base_xsputn drain (tl (drop m str)) (ret + m + 1) x2))"
    by (simp only: base_xsputn.simps [of drain str ret x] Let_def m_def x1_def)
  show ?case
  proof (cases "drop m str")
    case Nil
    then have "m = length str" by (simp add: m_def)
    then show ?thesis using eq Nil x1 by simp
  next
    case (Cons b r)
    obtain x2 where x2: "overflow drain (uint b) x1 = Inr (0, x2)" "holds x2 (cs @ take m str @ [b])"
      using overflow_char [OF x1, of b] by auto
    have str: "str = take m str @ b # r" using Cons by (metis append_take_drop_id)
    then have l: "length str = m + Suc (length r)" using len by (metis length_append length_Cons)
    then obtain x' where "base_xsputn drain r (ret + m + 1) x2 = Inr (int (ret + m + 1 + length r), x')" "holds x' ((cs @ take m str @ [b]) @ r)"
      using less.hyps [OF _ x2(2), of r "ret + m + 1"] by auto
    then show ?thesis using eq Cons x2(1) l str by (simp add: EOF_def)
  qed
qed

lemma put_op_holds:
  assumes "holds x cs"
  shows "\<exists>r x'. put_op drain p x = Inr (r, x') \<and> \<not> failed r p \<and> holds x' (cs @ out_bytes p)"
proof (cases p)
  case (Sputc b)
  show ?thesis
  proof (cases "pptr x < bufsize x")
    case True
    then show ?thesis using holds_copy [OF assms, of "[b]"] byte_not_EOF by (simp add: Sputc sputc_def)
  next
    case False
    then show ?thesis using overflow_char [OF assms, of b] by (auto simp: Sputc sputc_def EOF_def)
  qed
next
  case (Sputn str)
  show ?thesis
  proof (cases "bufsize x = 0")
    case False
    then show ?thesis using base_xsputn_holds [OF assms, of str 0] by (auto simp: Sputn xsputn_def)
  next
    case True
    obtain s where s: "fcgx x = Some s" "took s cs" using assms True by (auto simp: holds_def)
    from PutStr_took [OF s(2), of str] show ?thesis using s(1) True assms by (auto simp: Sputn xsputn_def on_fcgx_def holds_def)
  qed
next
  case Sync
  obtain x1 where x1: "overflow drain EOF x = Inr (0, x1)" "holds x1 cs" "pptr x1 = 0" using overflow_holds [OF assms] by blast
  then obtain s where s: "fcgx x1 = Some s" "took s cs" by (auto simp: holds_def)
  from FFlush_took [OF s(2)] show ?thesis using x1 s(1) by (auto simp: Sync sync_def on_fcgx_def holds_def)
qed

lemma put_ops_holds:
  "holds x cs \<Longrightarrow> \<exists>rs x'. put_ops drain ps x = Inr (rs, x') \<and> list_all2 (\<lambda>r p. \<not> failed r p) rs ps
     \<and> holds x' (cs @ concat (map out_bytes ps))"
proof (induction ps arbitrary: x cs)
  case (Cons p ps)
  obtain r x1 where 1: "put_op drain p x = Inr (r, x1)" "\<not> failed r p" "holds x1 (cs @ out_bytes p)"
    using put_op_holds [OF Cons.prems, of p] by auto
  from Cons.IH [OF 1(3)] 1(1,2) show ?case by fastforce
qed simp

text \<open>Everything a client puts into the buffer has gone to the stream when the buffer is destroyed.\<close>

lemma streambuf_took:
  assumes "took s cs"
  shows "\<exists>rs x' s'. put_ops drain ps (streambuf_init (Some s) b) = Inr (rs, x') \<and> list_all2 (\<lambda>r p. \<not> failed r p) rs ps
     \<and> destroy drain x' = Inr (Some s') \<and> took s' (cs @ concat (map out_bytes ps))"
proof -
  obtain rs x1 where 1: "put_ops drain ps (streambuf_init (Some s) b) = Inr (rs, x1)" "list_all2 (\<lambda>r p. \<not> failed r p) rs ps"
    "holds x1 (cs @ concat (map out_bytes ps))"
    using put_ops_holds [OF holds_init [OF assms]] by metis
  then obtain x2 where "overflow drain EOF x1 = Inr (0, x2)" "holds x2 (cs @ concat (map out_bytes ps))" "pptr x2 = 0"
    using overflow_holds by blast
  with 1 show ?thesis by (auto simp: destroy_def holds_def)
qed

end

section \<open>Reading\<close>

text \<open>The size of the buffer does not change.\<close>

lemma on_fcgx_bufsize: "on_fcgx f x = Inr (r, x') \<Longrightarrow> bufsize x' = bufsize x"
  by (auto simp: on_fcgx_def bindr_Inr_iff split: option.splits)

lemma underflow_bufsize: "underflow fill x = Inr (c, x') \<Longrightarrow> bufsize x' = bufsize x"
  by (auto simp: underflow_def current_def res_iffs Let_def dest!: on_fcgx_bufsize split: if_splits)

lemma uflow_bufsize: "uflow fill x = Inr (c, x') \<Longrightarrow> bufsize x' = bufsize x"
  by (auto simp: uflow_def res_iffs dest!: on_fcgx_bufsize underflow_bufsize split: if_splits)

lemma base_xsgetn_bufsize: "base_xsgetn fill n acc x = Inr (bs, x') \<Longrightarrow> bufsize x' = bufsize x"
proof (induction fill n acc x rule: base_xsgetn.induct)
  case (1 fill n acc x)
  define m where "m = min (n - length acc) (egptr x - gptr x)"
  define acc1 where "acc1 = acc @ sub_bytes (gptr x) m (bufMem x)"
  define x1 where "x1 = x\<lparr>gptr := gptr x + m\<rparr>"
  have "(if n \<le> length acc then Inr (acc, x) else inbounds (gptr x \<le> egptr x \<and> egptr x \<le> length (bufMem x))
      (if n \<le> length acc1 then Inr (acc1, x1) else bindr (uflow fill x1) (\<lambda>(c, x2).
         if c = EOF then Inr (acc1, x2) else base_xsgetn fill n (acc1 @ [uchar c]) x2))) = Inr (bs, x')"
    using 1(2) by (simp only: base_xsgetn.simps [of fill n acc x] Let_def m_def acc1_def x1_def)
  then consider "x' = x" | "x' = x1" | c x2 where "uflow fill x1 = Inr (c, x2)" "c = EOF" "x' = x2"
    | c x2 where "\<not> n \<le> length acc" "\<not> n \<le> length acc1" "uflow fill x1 = Inr (c, x2)" "c \<noteq> EOF" "base_xsgetn fill n (acc1 @ [uchar c]) x2 = Inr (bs, x')"
    by (auto simp: res_iffs split: if_splits)
  then show ?case
  proof cases
    case 4
    then have "bufsize x' = bufsize x2" using 1(1) [OF 4(1) m_def acc1_def x1_def 4(2,3) refl 4(4,5)] by blast
    then show ?thesis using uflow_bufsize [OF 4(3)] by (simp add: x1_def)
  qed (auto simp: x1_def dest: uflow_bufsize)
qed

lemma get_op_bufsize: "get_op fill p x = Inr (v, x') \<Longrightarrow> bufsize x' = bufsize x"
  by (cases p) (auto simp: res_iffs sbumpc_def sgetc_def xsgetn_def current_def
      dest!: on_fcgx_bufsize underflow_bufsize uflow_bufsize base_xsgetn_bufsize split: if_splits)

context byte_source
begin

text \<open>A stream that has \<open>ds\<close> left, or has closed with nothing left.\<close>

definition rest :: "st \<Rightarrow> byte list \<Rightarrow> bool" where
  "rest s ds \<longleftrightarrow> yields s ds \<or> ds = [] \<and> isClosed (strm s)"

lemma rest_GetStr: "rest s ds \<Longrightarrow> \<exists>s'. FCGX_GetStr fill (int n) s = Inr (take n ds, s') \<and> rest s' (drop n ds)"
  using GetStr_yields [of s ds n] by (auto simp: rest_def left_at_def FCGX_GetStr_def split: if_splits)

lemma rest_GetChar: "rest s (c # ds) \<Longrightarrow> \<exists>s'. FCGX_GetChar fill s = Inr (uint c, s') \<and> rest s' ds"
  using GetChar_yields [of s c ds] by (auto simp: rest_def)

lemma rest_GetChar_end: "rest s [] \<Longrightarrow> \<exists>s'. FCGX_GetChar fill s = Inr (EOF, s')"
  using GetChar_end [of s] by (auto simp: rest_def FCGX_GetChar_def)

text \<open>What a buffer will deliver: its get area and then its stream.\<close>

definition has :: "streambuf \<Rightarrow> byte list \<Rightarrow> bool" where
  "has x cs \<longleftrightarrow> (\<exists>s ds. fcgx x = Some s \<and> rest s ds \<and> cs = sub_bytes (gptr x) (egptr x - gptr x) (bufMem x) @ ds
     \<and> gptr x \<le> egptr x \<and> egptr x \<le> bufsize x \<and> length (bufMem x) = bufsize x)"

lemma has_init: "yields s cs \<Longrightarrow> has (streambuf_init (Some s) b) cs"
  by (simp add: has_def rest_def streambuf_init_def setbuf_def reset_areas_def)

lemma has_current:
  assumes "has x cs" "gptr x < egptr x"
  shows "\<exists>c r. cs = c # r \<and> current x = Inr (uint c, x) \<and> has (x\<lparr>gptr := gptr x + 1\<rparr>) r"
proof -
  obtain s ds where s: "fcgx x = Some s" "rest s ds" "cs = sub_bytes (gptr x) (egptr x - gptr x) (bufMem x) @ ds"
     "egptr x \<le> bufsize x" "length (bufMem x) = bufsize x"
    using assms by (auto simp: has_def)
  have "egptr x - gptr x = Suc (egptr x - Suc (gptr x))" using assms(2) by simp
  then have "cs = bufMem x ! gptr x # sub_bytes (gptr x + 1) (egptr x - (gptr x + 1)) (bufMem x) @ ds"
    using s(3-5) assms(2) sub_bytes_Suc [of "gptr x" "bufMem x" "egptr x - Suc (gptr x)"] by simp
  then show ?thesis using s assms(2) by (simp add: current_def has_def)
qed

lemma has_underflow:
  assumes "has x cs" "bufsize x \<noteq> 0" "gptr x = egptr x"
  shows "case cs of [] \<Rightarrow> \<exists>x'. underflow fill x = Inr (EOF, x')
    | c # r \<Rightarrow> \<exists>x'. underflow fill x = Inr (uint c, x') \<and> has x' cs \<and> has (x'\<lparr>gptr := gptr x' + 1\<rparr>) r \<and> bufsize x' = bufsize x"
proof -
  obtain s where s: "fcgx x = Some s" "rest s cs" "length (bufMem x) = bufsize x" using assms by (auto simp: has_def)
  obtain s' where g: "FCGX_GetStr fill (int (bufsize x)) s = Inr (take (bufsize x) cs, s')" "rest s' (drop (bufsize x) cs)"
    using rest_GetStr [OF s(2)] by blast
  define bs where "bs = take (bufsize x) cs"
  have len: "length bs \<le> length (bufMem x)" using s(3) by (simp add: bs_def)
  define x2 where "x2 = x\<lparr>fcgx := Some s', bufMem := put_bytes 0 bs (bufMem x), gptr := 0, egptr := length bs\<rparr>"
  have h: "has x2 cs" using g(2) s(3) len sub_put_prefix [OF len]
    by (simp add: has_def x2_def) (metis append_take_drop_id bs_def)
  have u: "underflow fill x = (if bs = [] then Inr (EOF, x\<lparr>fcgx := Some s', bufMem := put_bytes 0 bs (bufMem x)\<rparr>) else current x2)"
    using assms(2,3) s(1) g(1) len by (simp add: underflow_def in_avail_def on_fcgx_def bs_def [symmetric] x2_def Let_def)
  show ?thesis
  proof (cases cs)
    case Nil
    then show ?thesis using u by (simp add: bs_def)
  next
    case (Cons c r)
    then have "bs \<noteq> []" using assms(2) by (simp add: bs_def)
    then show ?thesis using u has_current [OF h] Cons h by (auto simp: x2_def)
  qed
qed

lemma has_uflow:
  assumes "has x cs" "gptr x = egptr x"
  shows "case cs of [] \<Rightarrow> \<exists>x'. uflow fill x = Inr (EOF, x')
    | c # r \<Rightarrow> \<exists>x'. uflow fill x = Inr (uint c, x') \<and> has x' r"
proof (cases "bufsize x = 0")
  case False
  from has_underflow [OF assms(1) False assms(2)] show ?thesis using False by (cases cs) (auto simp: uflow_def)
next
  case True
  then obtain s where s: "fcgx x = Some s" "rest s cs" "bufMem x = []" "egptr x = 0" using assms by (auto simp: has_def)
  show ?thesis
  proof (cases cs)
    case Nil
    then show ?thesis using rest_GetChar_end [of s] s True by (auto simp: uflow_def on_fcgx_def)
  next
    case (Cons c r)
    then obtain s' where "FCGX_GetChar fill s = Inr (uint c, s')" "rest s' r" using rest_GetChar [of s c r] s(2) by auto
    then show ?thesis using Cons s True assms(2) by (auto simp: uflow_def on_fcgx_def has_def)
  qed
qed

lemma has_sbumpc:
  assumes "has x cs"
  shows "case cs of [] \<Rightarrow> \<exists>x'. sbumpc fill x = Inr (EOF, x')
    | c # r \<Rightarrow> \<exists>x'. sbumpc fill x = Inr (uint c, x') \<and> has x' r"
proof (cases "gptr x < egptr x")
  case True
  then show ?thesis using has_current [OF assms True] by (auto simp: sbumpc_def)
next
  case False
  then have "gptr x = egptr x" using assms by (auto simp: has_def)
  from has_uflow [OF assms this] show ?thesis using False by (cases cs) (auto simp: sbumpc_def)
qed

lemma has_sgetc:
  assumes "has x cs" "bufsize x \<noteq> 0"
  shows "case cs of [] \<Rightarrow> \<exists>x'. sgetc fill x = Inr (EOF, x')
    | c # r \<Rightarrow> \<exists>x'. sgetc fill x = Inr (uint c, x') \<and> has x' cs \<and> bufsize x' = bufsize x"
proof (cases "gptr x < egptr x")
  case True
  then show ?thesis using has_current [OF assms(1) True] assms(1) by (auto simp: sgetc_def)
next
  case False
  then have "gptr x = egptr x" using assms by (auto simp: has_def)
  from has_underflow [OF assms this] show ?thesis using False by (cases cs) (auto simp: sgetc_def)
qed

lemma has_advance:
  assumes "has x cs" "m \<le> egptr x - gptr x"
  shows "sub_bytes (gptr x) m (bufMem x) = take m cs" "m \<le> length cs" "has (x\<lparr>gptr := gptr x + m\<rparr>) (drop m cs)"
proof -
  obtain s ds where s: "fcgx x = Some s" "rest s ds" "cs = sub_bytes (gptr x) (egptr x - gptr x) (bufMem x) @ ds"
     "gptr x \<le> egptr x" "egptr x \<le> bufsize x" "length (bufMem x) = bufsize x"
    using assms by (auto simp: has_def)
  let ?a = "sub_bytes (gptr x) m (bufMem x)" and ?b = "sub_bytes (gptr x + m) (egptr x - (gptr x + m)) (bufMem x)"
  have "m + (egptr x - (gptr x + m)) = egptr x - gptr x" using assms(2) by simp
  then have cs: "cs = ?a @ ?b @ ds" using sub_bytes_split [of "gptr x" m "egptr x - (gptr x + m)" "bufMem x"] s(3) by simp
  have a: "length ?a = m" using assms(2) s(4-6) by simp
  then show "?a = take m cs" "m \<le> length cs" using cs by auto
  have "drop m cs = ?b @ ds" using a cs by (metis append_eq_conv_conj)
  then show "has (x\<lparr>gptr := gptr x + m\<rparr>) (drop m cs)" using s assms(2) by (simp add: has_def)
qed

lemma base_xsgetn_has:
  "has x cs \<Longrightarrow> length acc \<le> n \<Longrightarrow> \<exists>x'. base_xsgetn fill n acc x = Inr (acc @ take (n - length acc) cs, x')
     \<and> (n - length acc \<le> length cs \<longrightarrow> has x' (drop (n - length acc) cs))"
proof (induction "n - length acc" arbitrary: acc x cs rule: less_induct)
  case less
  show ?case
  proof (cases "n \<le> length acc")
    case True
    then show ?thesis using less.prems by (subst base_xsgetn.simps) simp
  next
    case False
    define m where "m = min (n - length acc) (egptr x - gptr x)"
    define x1 where "x1 = x\<lparr>gptr := gptr x + m\<rparr>"
    have ok: "gptr x \<le> egptr x \<and> egptr x \<le> length (bufMem x)" using less.prems(1) by (auto simp: has_def)
    have adv: "sub_bytes (gptr x) m (bufMem x) = take m cs" "m \<le> length cs" "has x1 (drop m cs)"
      using has_advance [OF less.prems(1), of m] by (simp_all add: m_def x1_def)
    have eq: "base_xsgetn fill n acc x = (if n \<le> length (acc @ take m cs) then Inr (acc @ take m cs, x1)
        else bindr (uflow fill x1) (\<lambda>(c, x2). if c = EOF then Inr (acc @ take m cs, x2) else base_xsgetn fill n ((acc @ take m cs) @ [uchar c]) x2))"
      using False ok by (simp only: base_xsgetn.simps [of fill n acc x] Let_def m_def [symmetric] x1_def [symmetric] adv(1) if_False inbounds_simps simp_thms)
    show ?thesis
    proof (cases "n \<le> length (acc @ take m cs)")
      case True
      then have "m = n - length acc" using adv(2) False by (simp add: m_def)
      then show ?thesis using eq True adv by simp
    next
      case more: False
      then have m: "m < n - length acc" "m = egptr x - gptr x" using adv(2) by (auto simp: m_def)
      have "gptr x1 = egptr x1" using m ok by (simp add: x1_def)
      note u = has_uflow [OF adv(3) this]
      show ?thesis
      proof (cases "drop m cs")
        case Nil
        then have "length cs < n - length acc" using m adv(2) by simp
        then show ?thesis using u Nil eq more by auto
      next
        case (Cons c r)
        then obtain x2 where x2: "uflow fill x1 = Inr (uint c, x2)" "has x2 r" using u by auto
        define p where "p = take m cs"
        have lp: "length p = m" using adv(2) by (simp add: p_def)
        have cs: "cs = p @ c # r" using Cons by (metis append_take_drop_id p_def)
        let ?acc = "(acc @ p) @ [c]"
        have l: "length ?acc = Suc (length acc + m)" "length cs = m + Suc (length r)" by (simp_all add: lp cs)
        have "n - length ?acc < n - length acc" "length ?acc \<le> n" using m l(1) False by linarith+
        then obtain x' where x': "base_xsgetn fill n ?acc x2 = Inr (?acc @ take (n - length ?acc) r, x')"
          "n - length ?acc \<le> length r \<longrightarrow> has x' (drop (n - length ?acc) r)"
          using less.hyps [of ?acc x2 r] x2(2) by blast
        have k: "n - length acc = m + Suc (n - length ?acc)" using m l(1) by simp
        have t: "take (m + Suc j) cs = p @ c # take j r" "drop (m + Suc j) cs = drop j r" for j
          by (simp_all add: cs lp)
        have "base_xsgetn fill n acc x = base_xsgetn fill n ?acc x2"
          using more x2(1) byte_not_EOF [of c] unfolding eq p_def [symmetric] by (simp add: uchar_of_byte)
        then show ?thesis using x' l(2) unfolding k t by simp
      qed
    qed
  qed
qed

lemma has_xsgetn:
  assumes "has x cs"
  shows "\<exists>x'. xsgetn fill n x = Inr (take n cs, x') \<and> (n \<le> length cs \<longrightarrow> has x' (drop n cs)) "
proof (cases "bufsize x = 0")
  case False
  then show ?thesis using base_xsgetn_has [OF assms, of "[]" n] by (simp add: xsgetn_def)
next
  case True
  then obtain s where s: "fcgx x = Some s" "rest s cs" "bufMem x = []" "egptr x = 0" "gptr x = 0" using assms by (auto simp: has_def)
  then show ?thesis using rest_GetStr [OF s(2), of n] True by (auto simp: xsgetn_def on_fcgx_def has_def)
qed

lemma get_ops_seen:
  "has x cs \<Longrightarrow> bufsize x \<noteq> 0 \<or> Sgetc \<notin> set ps \<Longrightarrow> \<exists>x'. get_ops fill ps x = Inr (seen ps cs, x')"
proof (induction ps arbitrary: x cs)
  case (Cons p ps)
  have more: "bufsize x' \<noteq> 0 \<or> Sgetc \<notin> set ps" if "get_op fill p x = Inr (v, x')" for v x'
    using get_op_bufsize [OF that] Cons.prems(2) by auto
  show ?case
  proof (cases p)
    case (Sgetn n)
    obtain x' where x': "xsgetn fill n x = Inr (take n cs, x')" "n \<le> length cs \<longrightarrow> has x' (drop n cs)" using has_xsgetn [OF Cons.prems(1)] by blast
    then have "get_op fill p x = Inr (Str (take n cs), x')" by (simp add: Sgetn)
    from more [OF this] this x' Cons.IH show ?thesis by (fastforce simp: Sgetn)
  next
    case Sbumpc
    show ?thesis
    proof (cases cs)
      case Nil
      then show ?thesis using has_sbumpc [OF Cons.prems(1)] by (auto simp: Sbumpc)
    next
      case (Cons c r)
      then obtain x' where x': "sbumpc fill x = Inr (uint c, x')" "has x' r" using has_sbumpc [OF \<open>has x cs\<close>] by auto
      then have "get_op fill p x = Inr (Char (uint c), x')" by (simp add: Sbumpc)
      from more [OF this] this x'(2) Cons.IH [of x' r] show ?thesis using byte_not_EOF by (fastforce simp: Sbumpc Cons)
    qed
  next
    case Sgetc
    then have nz: "bufsize x \<noteq> 0" using Cons.prems(2) by simp
    show ?thesis
    proof (cases cs)
      case Nil
      then show ?thesis using has_sgetc [OF Cons.prems(1) nz] by (auto simp: Sgetc)
    next
      case (Cons c r)
      then obtain x' where x': "sgetc fill x = Inr (uint c, x')" "has x' cs" using has_sgetc [OF \<open>has x cs\<close> nz] by auto
      then have "get_op fill p x = Inr (Char (uint c), x')" by (simp add: Sgetc)
      from more [OF this] this x'(2) Cons.IH [of x' cs] show ?thesis using byte_not_EOF by (fastforce simp: Sgetc Cons)
    qed
  qed
qed simp

end

section \<open>Properties\<close>

text \<open>C27. A \<open>fcgi_streambuf\<close> with a buffer of any size, or none, puts exactly the client's bytes on the connection: whatever sequence of single bytes,
  strings and flushes an \<open>ostream\<close> asks for, none of the calls fails, and when the buffer is destroyed and the stream closed, the connection
  has received a framing of these bytes in order, the end of the stream and, for the last writer, the end of the request.\<close>

theorem streambuf_writes:
  assumes "NewWriter len ty w0 = (t, w1)" "writable (ipcFd r) w"
  shows "\<exists>rs x s1 s2 fr. put_ops EmptyBuffProc ps (streambuf_init (Some \<lparr>strm = t, rqd = r, sys = w\<rparr>) b) = Inr (rs, x)
    \<and> list_all2 (\<lambda>v p. \<not> failed v p) rs ps \<and> destroy EmptyBuffProc x = Inr (Some s1) \<and> FCGX_FClose EmptyBuffProc s1 = Inr (0, s2)
    \<and> framed (requestId r) ty fr (concat (map out_bytes ps))
    \<and> sent (conns (sys s2) (ipcFd r)) = sent (conns w (ipcFd r)) @ fr
        @ (if ty = FCGI_STDERR \<and> concat (map out_bytes ps) = [] then [] else header_bytes (header_for ty (requestId r) 0 0))
        @ (if nWriters r = 1 then end_request_bytes (requestId r) (appStatus r) else [])"
proof -
  let ?s = "\<lparr>strm = t, rqd = r, sys = w\<rparr>"
  note n = NewWriter_fresh [OF assms]
  from content_sink.streambuf_took [OF n(2), of ps b] obtain rs x s1 where
    1: "put_ops EmptyBuffProc ps (streambuf_init (Some ?s) b) = Inr (rs, x)" "list_all2 (\<lambda>v p. \<not> failed v p) rs ps"
      "destroy EmptyBuffProc x = Inr (Some s1)" "took_content ?s s1 (concat (map out_bytes ps))"
    by auto
  from FClose_writer [OF 1(4)] n(3-6) obtain s2 fr where 2: "FCGX_FClose EmptyBuffProc s1 = Inr (0, s2)"
    "framed (requestId r) ty fr (concat (map out_bytes ps))"
    "sent (conns (sys s2) (ipcFd r)) = sent (conns w (ipcFd r)) @ fr
        @ (if ty = FCGI_STDERR \<and> concat (map out_bytes ps) = [] then [] else header_bytes (header_for ty (requestId r) 0 0))
        @ (if nWriters r = 1 then end_request_bytes (requestId r) (appStatus r) else [])"
    by (auto simp: eof_bytes_def end_bytes_def)
  show ?thesis by (intro exI conjI) (fact 1 2)+
qed

text \<open>C28. Reading through a \<open>fcgi_streambuf\<close> with a buffer of any size, or none, shows a client exactly the content of the records of the stream,
  byte for byte or in strings, up to and including the first sign of the end, however the records are cut and fragmented. Only looking at a
  byte without taking it needs a buffer.\<close>

theorem streambuf_reads:
  assumes "rd_inv s" "records (requestId (rqd s)) ty pad tail (unread s) cs" "0 < requestId (rqd s)"
    "requestId (rqd s) \<le> 65535" "0 \<le> ty" "ty \<le> 255" "ty \<noteq> FCGI_BEGIN_REQUEST" "pad \<le> 255" "b \<noteq> [] \<or> Sgetc \<notin> set ps"
  shows "\<exists>s1 x. SetReaderType ty s = Inr s1 \<and> get_ops FillBuffProc ps (streambuf_init (Some s1) b) = Inr (seen ps cs, x)"
proof -
  obtain s1 where s1: "SetReaderType ty s = Inr s1" "stream_yields (stream_ctx s ty pad tail) s1 cs"
    using SetReaderType_yields [OF assms(1-8)] by blast
  have eor: "\<not> k_eor (stream_ctx s ty pad tail)" by (simp add: stream_ctx_def)
  have "bufsize (streambuf_init (Some s1) b) \<noteq> 0 \<or> Sgetc \<notin> set ps"
    using assms(9) by (simp add: streambuf_init_def setbuf_def reset_areas_def)
  from stream_source.get_ops_seen [OF stream_source.has_init this, of "stream_ctx s ty pad tail" cs] s1 eor show ?thesis by blast
qed

text \<open>After the end: \<open>uflow\<close> moves the read position also when there was no byte, so that the next call finds the read position past the get
  area and returns a byte left in the buffer from before, or reads past the buffer.\<close>

theorem sbumpc_past_end:
  assumes "bufsize x \<noteq> 0" "length (bufMem x) = bufsize x" "gptr x = egptr x" "fcgx x = Some s" "isClosed (strm s)"
  shows "\<exists>x'. sbumpc fill x = Inr (EOF, x') \<and>
    (if egptr x + 1 < bufsize x then \<exists>x2. sbumpc fill x' = Inr (uint (bufMem x ! (egptr x + 1)), x2) else sbumpc fill x' = Inl OutOfBounds)"
  using assms
  by (simp add: sbumpc_def uflow_def underflow_def in_avail_def on_fcgx_def FCGX_GetStr_def current_def put_bytes_def)

theorem streambuf_writes_witness:
  "\<exists>t rs x s1 s2 fr. put_ops EmptyBuffProc [Sputc 72, Sync, Sputn [105, 33, 33]] (streambuf_init (Some \<lparr>strm = t, rqd = sample_req, sys = sample_os []\<rparr>) [0, 0]) = Inr (rs, x)
    \<and> destroy EmptyBuffProc x = Inr (Some s1) \<and> FCGX_FClose EmptyBuffProc s1 = Inr (0, s2) \<and> framed 1 FCGI_STDOUT fr [72, 105, 33, 33]
    \<and> sent (conns (sys s2) 5) = fr @ header_bytes (header_for FCGI_STDOUT 1 0 0)"
proof -
  obtain t w where "NewWriter 64 FCGI_STDOUT (sample_os []) = (t, w)" by fastforce
  from streambuf_writes [OF this sample_writable [of "[]"], of "[Sputc 72, Sync, Sputn [105, 33, 33]]" "[0, 0]"]
  obtain rs x s1 s2 fr where
    "put_ops EmptyBuffProc [Sputc 72, Sync, Sputn [105, 33, 33]] (streambuf_init (Some \<lparr>strm = t, rqd = sample_req, sys = sample_os []\<rparr>) [0, 0]) = Inr (rs, x)"
    "destroy EmptyBuffProc x = Inr (Some s1)" "FCGX_FClose EmptyBuffProc s1 = Inr (0, s2)" "framed 1 FCGI_STDOUT fr [72, 105, 33, 33]"
    "sent (conns (sys s2) 5) = fr @ header_bytes (header_for FCGI_STDOUT 1 0 0)"
    by (simp add: sample_req_facts del: put_ops.simps) metis
  then show ?thesis by blast
qed

theorem streambuf_reads_witness:
  "\<exists>s1 x. SetReaderType FCGI_STDIN (sample_reader sample_stdin) = Inr s1
    \<and> get_ops FillBuffProc [Sgetc, Sbumpc, Sgetn 2, Sbumpc, Sbumpc] (streambuf_init (Some s1) [0, 0])
        = Inr ([Char 65, Char 65, Str [66, 67], Char EOF], x)"
proof -
  have "seen [Sgetc, Sbumpc, Sgetn 2, Sbumpc, Sbumpc] [65, 66, 67] = [Char 65, Char 65, Str [66, 67], Char EOF]" by simp
  then show ?thesis
    using streambuf_reads [OF sample_reader_facts(1) sample_stdin_read, of "[0, 0]" "[Sgetc, Sbumpc, Sgetn 2, Sbumpc, Sbumpc]"]
    by (simp add: sample_reader_facts fcgi_consts)
qed

end
