(* ===== verification/Fcgi_Strerror.thy ===== *)
theory Fcgi_Strerror
  imports Fcgi_Accept_Correct
begin

text \<open>
  \<open>libfcgi/strerror.c\<close>, which stands in for \<open>strerror\<close> where the C library has none. \<open>sys_errlist\<close> is the table of the system, of
  \<open>sys_nerr\<close> entries. The state is the static buffer of 40 bytes. The digits are written over the NUL that \<open>strcpy\<close> left, and no NUL follows
  them, so that the text goes on with what the buffer held before.
\<close>

definition UPREFIX :: "byte list" where "UPREFIX = bytes ''Unknown error: ''"

definition STRERROR_BUFLEN :: nat where "STRERROR_BUFLEN = 40"

text \<open>The digits in \<open>tmp\<close>, least significant first.\<close>

fun digit_chars :: "nat \<Rightarrow> byte list" where
  "digit_chars errnum = of_nat (48 + errnum mod 10) # (if errnum div 10 = 0 then [] else digit_chars (errnum div 10))"

declare digit_chars.simps [simp del]

text \<open>\<open>__strerror\<close>: the string at the result, and the buffer.\<close>

definition strerror_buf :: "byte list list \<Rightarrow> int \<Rightarrow> byte list \<Rightarrow> (byte list \<times> byte list) res" where
  "strerror_buf sys_errlist num buf =
     (let errnum = unat (word_of_int num :: 32 word) in
      if errnum < length sys_errlist then Inr (c_str (sys_errlist ! errnum), buf)
      else let tmp = digit_chars errnum in
        inbounds (length tmp \<le> 40)
         (inbounds (length UPREFIX + 1 \<le> length buf)
           (let buf1 = put_bytes 0 (UPREFIX @ [0]) buf in
            inbounds (length UPREFIX + length tmp \<le> length buf1)
             (let buf2 = put_bytes (length UPREFIX) (rev tmp) buf1 in
              inbounds (0 \<in> set buf2) (Inr (c_str buf2, buf2))))))"

definition strerror :: "byte list list \<Rightarrow> int \<Rightarrow> byte list \<Rightarrow> (byte list \<times> byte list) res" where
  "strerror sys_errlist num buf = strerror_buf sys_errlist num buf"

definition initial_buf :: "byte list" where "initial_buf = replicate STRERROR_BUFLEN 0"

section \<open>Properties\<close>

lemma rev_digit_chars: "rev (digit_chars n) = decimal n"
proof (induction n rule: digit_chars.induct)
  case (1 n)
  show ?case
  proof (cases "n < 10")
    case True
    then show ?thesis by (simp add: digit_chars.simps [of n] decimal.simps [of n])
  next
    case False
    then have "n div 10 \<noteq> 0" by simp
    with 1 False show ?thesis by (simp add: digit_chars.simps [of n] decimal.simps [of n] del: of_nat_add)
  qed
qed

lemma length_decimal: "n < 10 ^ k \<Longrightarrow> 0 < k \<Longrightarrow> length (decimal n) \<le> k"
proof (induction k arbitrary: n)
  case (Suc k)
  show ?case
  proof (cases "n < 10")
    case False
    then have "k \<noteq> 0" using Suc.prems False by (cases k) simp_all
    moreover have "n div 10 < 10 ^ k" using Suc.prems by auto
    ultimately show ?thesis using Suc.IH False by (subst decimal.simps) simp
  qed (simp add: decimal.simps)
qed simp

lemma length_decimal_word: "length (decimal (unat (x :: 32 word))) \<le> 10"
  using unsigned_less [of x, where 'a = nat] by (intro length_decimal) simp_all

lemma decimal_no_NUL: "0 \<notin> set (decimal n)"
  using decimal_bytes [of 0 n] by auto

lemma UPREFIX_facts: "length UPREFIX = 15" "0 \<notin> set UPREFIX"
  by (simp_all add: UPREFIX_def bytes_def)

text \<open>What a buffer of this size holds: zeros from some place on after the digits.\<close>

definition tail_zero :: "byte list \<Rightarrow> bool" where
  "tail_zero buf \<longleftrightarrow> length buf = STRERROR_BUFLEN \<and> (\<forall>i. 25 \<le> i \<and> i < STRERROR_BUFLEN \<longrightarrow> buf ! i = 0)"

lemma strerror_unknown:
  assumes "tail_zero buf" "length errs \<le> n" "n = unat (word_of_int num :: 32 word)"
  shows "strerror errs num buf = Inr (UPREFIX @ decimal n @ c_str (drop (15 + length (decimal n)) buf),
      UPREFIX @ decimal n @ drop (15 + length (decimal n)) buf)
    \<and> tail_zero (UPREFIX @ decimal n @ drop (15 + length (decimal n)) buf)"
proof -
  let ?d = "decimal n"
  have "length ?d \<le> 10" unfolding assms(3) by (rule length_decimal_word)
  moreover have "length buf = 40" using assms(1) by (simp add: tail_zero_def STRERROR_BUFLEN_def)
  ultimately have len: "length buf = 40" "length ?d \<le> 10" by simp_all
  have ne: "?d \<noteq> []" using decimal_first [of n] by (metis list.discI)
  let ?r = "drop (15 + length ?d) buf" and ?b = "UPREFIX @ ?d @ drop (15 + length ?d) buf"
  obtain k where k: "length ?d = Suc k" using ne by (cases ?d) simp_all
  have "put_bytes 0 (UPREFIX @ [0]) buf = UPREFIX @ 0 # drop 16 buf" using UPREFIX_facts(1) by (simp add: put_bytes_def)
  moreover have "drop (15 + length ?d) (UPREFIX @ 0 # drop 16 buf) = ?r" using UPREFIX_facts(1) by (simp add: k add.commute)
  ultimately have b2: "put_bytes 15 ?d (put_bytes 0 (UPREFIX @ [0]) buf) = ?b" "length (put_bytes 0 (UPREFIX @ [0]) buf) = 40"
    using UPREFIX_facts(1) len by (simp_all add: put_bytes_def)
  have j: "24 - length ?d < length ?r" "?r ! (24 - length ?d) = buf ! 39" using len by simp_all
  moreover have "buf ! 39 = 0" using assms(1) by (simp add: tail_zero_def STRERROR_BUFLEN_def)
  ultimately have z: "0 \<in> set ?r" by (metis nth_mem)
  have c: "c_str ?b = UPREFIX @ ?d @ c_str (drop (15 + length ?d) buf)"
    using UPREFIX_facts(2) decimal_no_NUL [of n] by (simp only: c_str_def) (subst takeWhile_append2, blast, subst takeWhile_append2, blast, rule refl)
  have t: "tail_zero ?b" unfolding tail_zero_def
  proof (intro conjI allI impI)
    show "length ?b = STRERROR_BUFLEN" using len UPREFIX_facts(1) by (simp add: STRERROR_BUFLEN_def)
    fix i assume i: "25 \<le> i \<and> i < STRERROR_BUFLEN"
    have "\<not> i - 15 < length ?d" "\<not> i < 15" "i < 40" using i len unfolding STRERROR_BUFLEN_def by linarith+
    then have "?b ! i = buf ! i" using len UPREFIX_facts(1) by (simp add: nth_append)
    then show "?b ! i = 0" using assms(1) i by (simp add: tail_zero_def)
  qed
  have u: "unat (word_of_int num :: 32 word) = n" by (simp only: assms(3))
  have l: "length (digit_chars n) = length ?d" using rev_digit_chars [of n] length_rev [of "digit_chars n"] by simp
  have "strerror errs num buf = Inr (c_str ?b, ?b)"
    unfolding strerror_def strerror_buf_def Let_def u rev_digit_chars l UPREFIX_facts(1) b2
    using assms(2) len z by simp
  then show ?thesis using c t by simp
qed

text \<open>The first text for an unknown number is right; after it, the text for a number of fewer digits ends with the last digits of the earlier one:
  999 after 1000 is reported as 9990.\<close>

theorem strerror_stale_digits:
  assumes "length errs \<le> m" "m < 2 ^ 31" "length errs \<le> n" "n < 2 ^ 31" "length (decimal n) \<le> length (decimal m)"
  shows "\<exists>buf1 buf2. strerror errs (int m) initial_buf = Inr (UPREFIX @ decimal m, buf1)
    \<and> strerror errs (int n) buf1 = Inr (UPREFIX @ decimal n @ drop (length (decimal n)) (decimal m), buf2)"
proof -
  have u: "unat (word_of_int (int k) :: 32 word) = k" if "k < 2 ^ 31" for k using that by (simp add: unat_of_nat)
  define buf1 where "buf1 = UPREFIX @ decimal m @ drop (15 + length (decimal m)) initial_buf"
  have z: "tail_zero initial_buf" by (simp add: tail_zero_def initial_buf_def STRERROR_BUFLEN_def)
  have c0: "c_str (replicate k 0) = []" for k by (cases k) (simp_all add: c_str_def)
  have 1: "strerror errs (int m) initial_buf = Inr (UPREFIX @ decimal m, buf1)" "tail_zero buf1"
    using strerror_unknown [OF z assms(1) u [OF assms(2), symmetric]] by (simp_all add: buf1_def) (simp add: initial_buf_def c0)
  have "drop (15 + length (decimal n)) buf1 = drop (length (decimal n)) (decimal m) @ drop (15 + length (decimal m)) initial_buf"
    using UPREFIX_facts(1) assms(5) by (simp add: buf1_def add.commute)
  moreover have "c_str (drop (length (decimal n)) (decimal m) @ drop (15 + length (decimal m)) initial_buf) = drop (length (decimal n)) (decimal m)"
    using decimal_no_NUL [of m] unfolding c_str_def initial_buf_def
    by (subst takeWhile_append2) (auto dest: in_set_dropD simp: c0 [unfolded c_str_def])
  ultimately show ?thesis using 1(1) strerror_unknown [OF 1(2) assms(3) u [OF assms(4), symmetric]] by simp
qed

end
