(* ===== verification/Fcgi_Win32.thy ===== *)
theory Fcgi_Win32
  imports Fcgi_Main
begin

text \<open>
  The Windows layer, \<open>libfcgi/os_win32.c\<close>. File, pipe and socket handles are hidden behind small numbers, the indices of \<open>fdTable\<close>.

  The state \<open>win\<close> holds the static variables of the file. Handles are numbers, \<open>INVALID_HANDLE_VALUE\<close> and
  \<open>INVALID_SOCKET\<close> are -1, \<open>NULL\<close> is 0. Every call of the Windows API is logged and takes its outcome from a script, in order: a value, bytes
  that were read, a finished overlapped request, or a failure with the value \<open>GetLastError\<close> then has. A script that is used up lets calls succeed
  with the value one. Overlapped requests are numbered; \<open>wRequests\<close> is the memory they live in. Critical sections have one thread here
  and are left out; \<open>malloc\<close> succeeds.
\<close>

section \<open>State\<close>

definition WIN32_OPEN_MAX :: nat where "WIN32_OPEN_MAX = 128"
definition INVALID_HANDLE_VALUE :: int where "INVALID_HANDLE_VALUE = - 1"
definition LOCALHOST :: "byte list" where "LOCALHOST = bytes ''localhost''"
definition MUTEX_VARNAME :: "byte list" where "MUTEX_VARNAME = bytes ''_FCGI_MUTEX_''"
definition SHUTDOWN_EVENT_NAME :: "byte list" where "SHUTDOWN_EVENT_NAME = bytes ''_FCGI_SHUTDOWN_EVENT_''"

datatype FILE_TYPE = FD_UNUSED | FD_FILE_SYNC | FD_FILE_ASYNC | FD_SOCKET_SYNC | FD_SOCKET_ASYNC | FD_PIPE_SYNC | FD_PIPE_ASYNC

text \<open>An entry of the table. \<open>shared\<close> is what the two offset pointers point to, high word first.\<close>

record FD_TABLE =
  fid :: int
  ftype :: FILE_TYPE
  fpath :: "byte list option"
  fErrno :: int
  instance_no :: nat
  fstatus :: int
  offset :: int
  shared :: "(32 word \<times> 32 word) option"
  hMapMutex :: int

record OVERLAPPED_REQUEST =
  ovOffset :: "32 word"
  ovOffsetHigh :: "32 word"
  ovInstance :: nat
  ovProc :: nat
  ovClientData :: int
  ovBuffer :: nat

datatype win_event = WinRet int | WinBytes "byte list" | WinDone nat int nat | WinFail int

datatype win_call =
    WAPI string int | WPost int nat int nat | WMessage string | WConnect int "32 word" "16 word" | WBind int "16 word"
  | WOpenPipe "byte list" | WSend int "byte list" | WSpawn "byte list" int | WCall nat int nat

record win =
  fdTable :: "FD_TABLE list"
  hIoCompPort :: int
  hStdinCompPort :: int
  hStdinThread :: int
  acceptMutex :: int
  hListen :: int
  listenType :: FILE_TYPE
  wShutdownPending :: bool
  wShutdownNow :: bool
  wLibInitialized :: bool
  stdHandle :: "int \<Rightarrow> int"
  stdioHandles :: "int \<Rightarrow> int"
  wRequests :: "OVERLAPPED_REQUEST option list"
  wPosted :: "(int \<times> nat \<times> int \<times> nat) list"
  wScript :: "win_event list"
  wLastError :: int
  wLog :: "win_call list"

datatype 'a wproc = WinExit int win | Win 'a

definition bindw :: "'a wproc res \<Rightarrow> ('a \<Rightarrow> 'b wproc res) \<Rightarrow> 'b wproc res" where
  "bindw m k = bindr m (\<lambda>r. case r of WinExit c n \<Rightarrow> Inr (WinExit c n) | Win x \<Rightarrow> k x)"

lemma bindw_simps [simp, res_simps]:
  "bindw (Inl f) k = Inl f"
  "bindw (Inr (WinExit c n)) k = Inr (WinExit c n)"
  "bindw (Inr (Win x)) k = k x"
  by (simp_all add: bindw_def)

lemma bindw_cong [fundef_cong]:
  "m = m' \<Longrightarrow> (\<And>x. m' = Inr (Win x) \<Longrightarrow> k x = k' x) \<Longrightarrow> bindw m k = bindw m' k'"
  by (cases m') (auto simp: bindw_def split: wproc.splits)

text \<open>One call of the API.\<close>

definition api :: "win_call \<Rightarrow> win \<Rightarrow> win_event \<times> win" where
  "api c n = (let n1 = n\<lparr>wLog := wLog n @ [c]\<rparr> in
     case wScript n of [] \<Rightarrow> (WinRet 1, n1)
     | e # es \<Rightarrow> (e, n1\<lparr>wScript := es, wLastError := (case e of WinFail x \<Rightarrow> x | _ \<Rightarrow> wLastError n)\<rparr>))"

definition succeeds :: "win_event \<Rightarrow> bool" where
  "succeeds e = (case e of WinFail _ \<Rightarrow> False | _ \<Rightarrow> True)"

text \<open>The handle a call gives; \<open>bad\<close> is what this call returns when it fails.\<close>

definition handle :: "int \<Rightarrow> win_event \<Rightarrow> int" where
  "handle bad e = (case e of WinRet v \<Rightarrow> v | _ \<Rightarrow> bad)"

definition wmessage :: "string \<Rightarrow> win \<Rightarrow> win" where
  "wmessage s n = n\<lparr>wLog := wLog n @ [WMessage s]\<rparr>"

definition wexit :: "int \<Rightarrow> win \<Rightarrow> 'a wproc res" where
  "wexit c n = Inr (WinExit c n)"

section \<open>Descriptors\<close>

definition unused_fd :: FD_TABLE where
  "unused_fd = \<lparr>fid = 0, ftype = FD_UNUSED, fpath = None, fErrno = 0, instance_no = 0, fstatus = 0, offset = 0, shared = None, hMapMutex = 0\<rparr>"

definition fd_at :: "win \<Rightarrow> int \<Rightarrow> FD_TABLE" where
  "fd_at n fd = fdTable n ! nat fd"

definition set_fd :: "int \<Rightarrow> FD_TABLE \<Rightarrow> win \<Rightarrow> win" where
  "set_fd fd x n = n\<lparr>fdTable := (fdTable n)[nat fd := x]\<rparr>"

definition fd_ok :: "int \<Rightarrow> bool" where
  "fd_ok fd \<longleftrightarrow> 0 \<le> fd \<and> fd < int WIN32_OPEN_MAX"

text \<open>The static variables when the program starts; the arguments are the standard handles and what the calls will do.\<close>

definition static_win :: "(int \<Rightarrow> int) \<Rightarrow> win_event list \<Rightarrow> win" where
  "static_win std es = \<lparr>fdTable = replicate WIN32_OPEN_MAX unused_fd, hIoCompPort = INVALID_HANDLE_VALUE, hStdinCompPort = INVALID_HANDLE_VALUE,
     hStdinThread = INVALID_HANDLE_VALUE, acceptMutex = INVALID_HANDLE_VALUE, hListen = INVALID_HANDLE_VALUE, listenType = FD_UNUSED,
     wShutdownPending = False, wShutdownNow = False, wLibInitialized = False, stdHandle = std, stdioHandles = (\<lambda>_. INVALID_HANDLE_VALUE),
     wRequests = [], wPosted = [], wScript = es, wLastError = 0, wLog = []\<rparr>"

text \<open>The index \<open>Win32NewDescriptor\<close> takes.\<close>

definition new_index :: "int \<Rightarrow> int \<Rightarrow> win \<Rightarrow> int" where
  "new_index fd desiredFd n =
     (if fd_ok desiredFd then (if ftype (fd_at n desiredFd) = FD_UNUSED then desiredFd else - 1)
      else if 0 < fd then
        if fd < int WIN32_OPEN_MAX \<and> ftype (fd_at n fd) = FD_UNUSED then fd
        else (case find (\<lambda>i. ftype (fd_at n (int i)) = FD_UNUSED) [1..<WIN32_OPEN_MAX] of None \<Rightarrow> - 1 | Some i \<Rightarrow> int i)
      else - 1)"

definition Win32NewDescriptor :: "FILE_TYPE \<Rightarrow> int \<Rightarrow> int \<Rightarrow> win \<Rightarrow> int \<times> win" where
  "Win32NewDescriptor ty fd desiredFd n =
     (let index = new_index fd desiredFd n in
      if index \<noteq> - 1 then
        (index, set_fd index ((fd_at n index)\<lparr>fid := fd, ftype := ty, fpath := None, fErrno := 0, fstatus := 0, offset := - 1,
           shared := None, hMapMutex := 0\<rparr>) n)
      else (index, n))"

definition Win32FreeDescriptor :: "int \<Rightarrow> win \<Rightarrow> win res" where
  "Win32FreeDescriptor fd n =
     assertr (fd_ok fd)
      (let x = fd_at n fd in
       if ftype x \<noteq> FD_UNUSED then
         bindr (if ftype x = FD_FILE_SYNC \<or> ftype x = FD_FILE_ASYNC then assertr (fpath x \<noteq> None) (Inr (x\<lparr>fpath := None\<rparr>)) else Inr x) (\<lambda>x1.
         assertr (fpath x1 = None)
          (let n1 = (if hMapMutex x1 \<noteq> 0 then snd (api (WAPI ''CloseHandle'' (hMapMutex x1)) n) else n) in
           Inr (set_fd fd (x1\<lparr>ftype := FD_UNUSED, fpath := None, fErrno := 0, shared := None, hMapMutex := 0\<rparr>) n1)))
       else Inr n)"

section \<open>Listening and connecting\<close>

text \<open>At most five characters after the colon are looked at.\<close>

definition getPort :: "byte list \<Rightarrow> (16 word) res" where
  "getPort bindPath = (case dropWhile (\<lambda>b. b \<noteq> 58) bindPath of
       _ # c # r \<Rightarrow> bindr (atoi (take 5 (c # r))) (\<lambda>v. Inr (word_of_int v))
     | _ \<Rightarrow> Inr 0)"

definition bindPathPrefix :: "byte list" where
  "bindPathPrefix = bytes [CHR 0x5C, CHR 0x5C, CHR ''.'', CHR 0x5C] @ bytes ''pipe'' @ [92] @ bytes ''FastCGI'' @ [92]"

definition create_accept_mutex :: "win \<Rightarrow> int \<times> win" where
  "create_accept_mutex n =
     (if acceptMutex n = INVALID_HANDLE_VALUE then
        case api (WAPI ''CreateMutex'' 0) n of (e, n1) \<Rightarrow>
          let n2 = n1\<lparr>acceptMutex := handle 0 e\<rparr> in
          if acceptMutex n2 = 0 then (- 2, n2)
          else case api (WAPI ''SetHandleInformation'' (acceptMutex n2)) n2 of (e2, n3) \<Rightarrow> (if succeeds e2 then 0 else - 3, n3)
      else (0, n))"

definition listen_on_port :: "16 word \<Rightarrow> int \<Rightarrow> win \<Rightarrow> int \<times> win" where
  "listen_on_port port backlog n =
     (case api (WAPI ''socket'' 0) n of (e, n1) \<Rightarrow>
        let listenSock = handle INVALID_HANDLE_VALUE e in
        if listenSock = INVALID_HANDLE_VALUE then (- 4, n1)
        else case api (WBind listenSock port) n1 of (e2, n2) \<Rightarrow>
          if \<not> succeeds e2 then (- 12, n2)
          else case api (WAPI ''listen'' backlog) n2 of (e3, n3) \<Rightarrow>
            if \<not> succeeds e3 then (- 5, n3)
            else case Win32NewDescriptor (listenType n3) listenSock (- 1) n3 of (pseudoFd, n4) \<Rightarrow>
              if pseudoFd = - 1 then (- 6, snd (api (WAPI ''closesocket'' listenSock) n4))
              else (pseudoFd, n4\<lparr>hListen := listenSock\<rparr>))"

definition listen_on_pipe :: "byte list \<Rightarrow> win \<Rightarrow> int \<times> win" where
  "listen_on_pipe bindPath n =
     (case api (WOpenPipe (bindPathPrefix @ bindPath)) n of (e, n1) \<Rightarrow>
        let hListenPipe = handle INVALID_HANDLE_VALUE e in
        if hListenPipe = INVALID_HANDLE_VALUE then (- 8, n1)
        else case api (WAPI ''SetHandleInformation'' hListenPipe) n1 of (e2, n2) \<Rightarrow>
          if \<not> succeeds e2 then (- 9, n2)
          else case Win32NewDescriptor (listenType n2) hListenPipe (- 1) n2 of (pseudoFd, n3) \<Rightarrow>
            if pseudoFd = - 1 then (- 10, snd (api (WAPI ''CloseHandle'' hListenPipe) n3))
            else (pseudoFd, n3\<lparr>hListen := hListenPipe\<rparr>))"

definition OS_CreateLocalIpcFd_w32 :: "byte list \<Rightarrow> int \<Rightarrow> win \<Rightarrow> (int \<times> win) wproc res" where
  "OS_CreateLocalIpcFd_w32 bindPath backlog n =
     bindr (getPort bindPath) (\<lambda>port.
     case create_accept_mutex n of (rc, n1) \<Rightarrow>
       if rc \<noteq> 0 then Inr (Win (rc, n1))
       else if port \<noteq> 0 \<and> hd bindPath \<noteq> 58 \<and> take (length LOCALHOST) bindPath \<noteq> LOCALHOST
       then wexit 1 (wmessage ''can not specify a host name'' n1)
       else let n2 = n1\<lparr>listenType := (if port \<noteq> 0 then FD_SOCKET_SYNC else FD_PIPE_ASYNC)\<rparr> in
         Inr (Win (if port \<noteq> 0 then listen_on_port port backlog n2 else listen_on_pipe bindPath n2)))"

definition connect_host :: "(byte list \<Rightarrow> hostent option) \<Rightarrow> byte list \<Rightarrow> 16 word \<Rightarrow> win \<Rightarrow> (int \<times> win) res" where
  "connect_host gethostbyname bindPath port n =
     (case gethostbyname (if bindPath \<noteq> [] \<and> hd bindPath \<noteq> 58 then takeWhile (\<lambda>b. b \<noteq> 58) bindPath else LOCALHOST) of
        None \<Rightarrow> Inr (- 1, wmessage ''Unknown host'' n)
      | Some hp \<Rightarrow> inbounds (h_addr_list hp \<noteq> [] \<and> length (h_addr_list hp ! 0) \<le> 12)
         (case api (WAPI ''socket'' 0) n of (e, n1) \<Rightarrow>
            let sock = handle INVALID_HANDLE_VALUE e in
            if sock = INVALID_HANDLE_VALUE then Inr (- 1, n1)
            else case api (WConnect sock (host_word (h_addr_list hp ! 0 @ [0, 0, 0, 0])) port) n1 of (e2, n2) \<Rightarrow>
              if succeeds e2 then Inr (- 1, snd (api (WAPI ''closesocket'' sock) n2))
              else case Win32NewDescriptor FD_SOCKET_SYNC sock (- 1) n2 of (pseudoFd, n3) \<Rightarrow>
                if pseudoFd = - 1 then Inr (- 1, snd (api (WAPI ''closesocket'' sock) n3)) else Inr (pseudoFd, n3)))"

definition connect_pipe :: "byte list \<Rightarrow> win \<Rightarrow> (int \<times> win) res" where
  "connect_pipe bindPath n =
     (case api (WOpenPipe (bindPathPrefix @ bindPath)) n of (e, n1) \<Rightarrow>
        let hPipe = handle INVALID_HANDLE_VALUE e in
        if hPipe = INVALID_HANDLE_VALUE then Inr (- 1, n1)
        else case Win32NewDescriptor FD_PIPE_ASYNC hPipe (- 1) n1 of (pseudoFd, n2) \<Rightarrow>
          if pseudoFd = - 1 then Inr (- 1, snd (api (WAPI ''CloseHandle'' hPipe) n2))
          else case api (WAPI ''CreateIoCompletionPort'' hPipe) n2 of (e3, n3) \<Rightarrow>
            if \<not> succeeds e3 then bindr (Win32FreeDescriptor pseudoFd n3) (\<lambda>n4. Inr (- 1, snd (api (WAPI ''CloseHandle'' hPipe) n4)))
            else Inr (pseudoFd, n3))"

definition OS_FcgiConnect_w32 :: "(byte list \<Rightarrow> hostent option) \<Rightarrow> byte list \<Rightarrow> win \<Rightarrow> (int \<times> win) res" where
  "OS_FcgiConnect_w32 gethostbyname bindPath n =
     bindr (getPort bindPath) (\<lambda>port.
       if port \<noteq> 0 then connect_host gethostbyname bindPath port n else connect_pipe bindPath n)"

section \<open>Reading and writing\<close>

definition is_socket :: "FILE_TYPE \<Rightarrow> bool" where
  "is_socket t \<longleftrightarrow> t = FD_SOCKET_SYNC \<or> t = FD_SOCKET_ASYNC"

text \<open>\<open>ReadFile\<close> or \<open>recv\<close>; both leave the error in the entry.\<close>

definition OS_Read_w32 :: "int \<Rightarrow> nat \<Rightarrow> win \<Rightarrow> (int \<times> byte list \<times> win) res" where
  "OS_Read_w32 fd len n =
     assertr (fd_ok fd)
      (if wShutdownNow n then Inr (- 1, [], n)
       else let x = fd_at n fd in
         assertr (ftype x \<noteq> FD_UNUSED)
          (case api (WAPI (if is_socket (ftype x) then ''recv'' else ''ReadFile'') (fid x)) n of (e, n1) \<Rightarrow>
             (case e of WinBytes bs \<Rightarrow> Inr (int (length (take len bs)), take len bs, n1)
              | WinFail err \<Rightarrow> Inr (- 1, [], set_fd fd (x\<lparr>fErrno := err\<rparr>) n1)
              | _ \<Rightarrow> Inr (0, [], n1))))"

definition OS_Write_w32 :: "int \<Rightarrow> byte list \<Rightarrow> win \<Rightarrow> (int \<times> win) res" where
  "OS_Write_w32 fd buf n =
     assertr (fd_ok fd)
      (if wShutdownNow n then Inr (- 1, n)
       else let x = fd_at n fd in
         assertr (ftype x \<noteq> FD_UNUSED)
          (case api (WSend (fid x) buf) n of (e, n1) \<Rightarrow>
             (case e of WinFail err \<Rightarrow> Inr (- 1, set_fd fd (x\<lparr>fErrno := err\<rparr>) n1)
              | _ \<Rightarrow> Inr (min (int (length buf)) (max 0 (handle 0 e)), n1))))"

definition OS_SpawnChild_w32 :: "byte list \<Rightarrow> int \<Rightarrow> win \<Rightarrow> (int \<times> win) wproc res" where
  "OS_SpawnChild_w32 execPath listenFd n =
     inbounds (fd_ok listenFd)
      (let hStdInput = fid (fd_at n listenFd) in
       case api (WAPI ''SetHandleInformation'' hStdInput) n of (e, n1) \<Rightarrow>
         if \<not> succeeds e then wexit 99 n1
         else case api (WSpawn execPath hStdInput) n1 of (e2, n2) \<Rightarrow> Inr (Win (if succeeds e2 then 0 else - 1, n2)))"

definition OS_CloseRead_w32 :: "int \<Rightarrow> win \<Rightarrow> (int \<times> win) res" where
  "OS_CloseRead_w32 fd n =
     assertr (fd_ok fd) (assertr (is_socket (ftype (fd_at n fd)))
      (case api (WAPI ''shutdown'' (fid (fd_at n fd))) n of (e, n1) \<Rightarrow> Inr (if succeeds e then 0 else - 1, n1)))"

text \<open>The loop that empties a socket before it is closed: \<open>select\<close> and \<open>recv\<close> until one of them has nothing.\<close>

function drain_socket :: "int \<Rightarrow> win \<Rightarrow> win" where
  "drain_socket sock n =
     (case api (WAPI ''select'' sock) n of (e, n1) \<Rightarrow>
        if handle (- 1) e \<le> 0 then n1
        else case wScript n1 of
          WinBytes bs # es \<Rightarrow> (case api (WAPI ''recv'' sock) n1 of (_, n2) \<Rightarrow> if bs \<noteq> [] then drain_socket sock n2 else n2)
        | _ \<Rightarrow> snd (api (WAPI ''recv'' sock) n1))"
  by pat_completeness auto
termination
  by (relation "measure (\<lambda>(sock, n). length (wScript n))") (auto simp: api_def Let_def split: list.splits prod.splits)

declare drain_socket.simps [simp del]

definition OS_Close_w32 :: "int \<Rightarrow> bool \<Rightarrow> win \<Rightarrow> (int \<times> win) res" where
  "OS_Close_w32 fd shutdown_ok n =
     assertr (fd_ok fd)
      (let x = fd_at n fd in
       assertr (ftype x \<noteq> FD_UNUSED)
        (let n1 = (if is_socket (ftype x) then
                     (let n1 = (if shutdown_ok then
                                 case api (WAPI ''shutdown'' (fid x)) n of (e, n1) \<Rightarrow>
                                   if succeeds e then drain_socket (fid x) n1 else n1
                               else n)
                      in snd (api (WAPI ''closesocket'' (fid x)) n1))
                   else n)
         in bindr (Win32FreeDescriptor fd n1) (\<lambda>n2. Inr (0, n2))))"

section \<open>Overlapped requests\<close>

text \<open>A request in fresh memory, and its number.\<close>

definition new_request :: "OVERLAPPED_REQUEST \<Rightarrow> win \<Rightarrow> nat \<times> win" where
  "new_request r n = (length (wRequests n), n\<lparr>wRequests := wRequests n @ [Some r]\<rparr>)"

text \<open>\<open>PostQueuedCompletionStatus\<close>; \<open>wPosted\<close> has the port, the number of bytes, the descriptor and the request.\<close>

definition post_status :: "int \<Rightarrow> nat \<Rightarrow> int \<Rightarrow> nat \<Rightarrow> win \<Rightarrow> win" where
  "post_status port len fd ov n = n\<lparr>wPosted := wPosted n @ [(port, len, fd, ov)], wLog := wLog n @ [WPost port len fd ov]\<rparr>"

definition OS_AsyncReadStdin_w32 :: "nat \<Rightarrow> nat \<Rightarrow> nat \<Rightarrow> int \<Rightarrow> win \<Rightarrow> (int \<times> win) res" where
  "OS_AsyncReadStdin_w32 buf len proc_no client_data n =
     assertr (ftype (fd_at n 0) \<noteq> FD_UNUSED)
      (case new_request \<lparr>ovOffset = 0, ovOffsetHigh = 0, ovInstance = instance_no (fd_at n 0), ovProc = proc_no,
          ovClientData = client_data, ovBuffer = buf\<rparr> n of (ov, n1) \<Rightarrow>
        Inr (0, post_status (hStdinCompPort n1) len 0 ov n1))"

definition async_fd :: "FILE_TYPE \<Rightarrow> bool" where
  "async_fd t \<longleftrightarrow> t = FD_FILE_ASYNC \<or> t = FD_PIPE_ASYNC \<or> t = FD_SOCKET_ASYNC"

definition ERROR_NO_DATA :: int where "ERROR_NO_DATA = 232"
definition ERROR_PIPE_NOT_CONNECTED :: int where "ERROR_PIPE_NOT_CONNECTED = 233"
definition ERROR_IO_PENDING :: int where "ERROR_IO_PENDING = 997"

definition OS_AsyncRead_w32 :: "int \<Rightarrow> int \<Rightarrow> nat \<Rightarrow> nat \<Rightarrow> int \<Rightarrow> win \<Rightarrow> (int \<times> win) res" where
  "OS_AsyncRead_w32 fd off buf proc_no client_data n =
     assertr (fd_ok fd)
      (let x = fd_at n fd in
       assertr (async_fd (ftype x))
        (case new_request \<lparr>ovOffset = (if ftype x = FD_FILE_ASYNC then word_of_int (if 0 \<le> offset x then offset x else off) else 0),
            ovOffsetHigh = 0, ovInstance = instance_no x, ovProc = proc_no, ovClientData = client_data, ovBuffer = 0\<rparr> n of (ov, n1) \<Rightarrow>
         case api (WAPI ''ReadFile'' (fid x)) n1 of (e, n2) \<Rightarrow>
           (case e of WinFail err \<Rightarrow>
              let n3 = set_fd fd (x\<lparr>fErrno := err\<rparr>) n2 in
              if err = ERROR_NO_DATA \<or> err = ERROR_PIPE_NOT_CONNECTED then Inr (0, post_status (hIoCompPort n3) 0 fd ov n3)
              else if err \<noteq> ERROR_IO_PENDING then Inr (- 1, post_status (hIoCompPort n3) 0 fd ov n3)
              else Inr (0, set_fd fd (x\<lparr>fErrno := 0\<rparr>) n3)
            | _ \<Rightarrow> Inr (0, n2))))"

text \<open>The offset of a write to a file: from the offsets shared with other processes, which are moved on, or from the entry.\<close>

definition write_offset :: "int \<Rightarrow> int \<Rightarrow> nat \<Rightarrow> win \<Rightarrow> ((32 word \<times> 32 word) \<times> win) res" where
  "write_offset fd off len n =
     (let x = fd_at n fd in
      if ftype x \<noteq> FD_FILE_ASYNC then Inr ((0, 0), n)
      else if offset x < 0 then Inr ((0, word_of_int off), n)
      else if hMapMutex x = 0 then Inr ((0, word_of_int (offset x)), n)
      else case api (WAPI ''WaitForSingleObject'' (hMapMutex x)) n of (_, n1) \<Rightarrow>
        (case shared x of None \<Rightarrow> Inl Undefined
         | Some (hi, lo) \<Rightarrow>
             Inr ((hi, lo), snd (api (WAPI ''ReleaseMutex'' (hMapMutex x)) (set_fd fd (x\<lparr>shared := Some (hi, lo + of_nat len)\<rparr>) n1)))))"

definition OS_AsyncWrite_w32 :: "int \<Rightarrow> int \<Rightarrow> byte list \<Rightarrow> nat \<Rightarrow> int \<Rightarrow> win \<Rightarrow> (int \<times> win) res" where
  "OS_AsyncWrite_w32 fd off buf proc_no client_data n =
     assertr (fd_ok fd)
      (assertr (async_fd (ftype (fd_at n fd)))
        (bindr (write_offset fd off (length buf) n) (\<lambda>((hi, lo), n0).
         let x = fd_at n0 fd in
         case new_request \<lparr>ovOffset = lo, ovOffsetHigh = hi, ovInstance = instance_no x, ovProc = proc_no, ovClientData = client_data,
             ovBuffer = 0\<rparr> n0 of (ov, n1) \<Rightarrow>
         case api (WSend (fid x) buf) n1 of (e, n2) \<Rightarrow>
           let moved = (\<lambda>m. set_fd fd (if 0 \<le> offset (fd_at m fd) then (fd_at m fd)\<lparr>offset := offset (fd_at m fd) + int (length buf)\<rparr>
                                  else fd_at m fd) m) in
           (case e of WinFail err \<Rightarrow>
              let n3 = set_fd fd (x\<lparr>fErrno := err\<rparr>) n2 in
              if err \<noteq> ERROR_IO_PENDING then Inr (- 1, post_status (hIoCompPort n3) 0 fd ov n3)
              else Inr (0, moved (set_fd fd (x\<lparr>fErrno := 0\<rparr>) n3))
            | _ \<Rightarrow> Inr (0, moved n2)))))"

text \<open>One turn of \<open>StdinThread\<close>, which reads for the requests posted to its port. The boolean says whether the thread goes on.\<close>

definition StdinThread_turn :: "win \<Rightarrow> (bool \<times> win) res" where
  "StdinThread_turn n =
     (case api (WAPI ''GetQueuedCompletionStatus'' (hStdinCompPort n)) n of (e, n1) \<Rightarrow>
        (case e of WinDone len fd ov \<Rightarrow>
           assertr (fd = 0 \<or> fd = - 1)
            (if fd = - 1 then Inr (False, n1)
             else inbounds (ov < length (wRequests n1) \<and> wRequests n1 ! ov \<noteq> None)
              (assertr (ovBuffer (the (wRequests n1 ! ov)) \<noteq> 0)
                (case api (WAPI ''ReadFile'' (stdioHandles n1 0)) n1 of (e2, n2) \<Rightarrow>
                   (case e2 of WinBytes bs \<Rightarrow> Inr (True, post_status (hIoCompPort n2) (length (take len bs)) 0 ov n2)
                    | _ \<Rightarrow> Inr (False, n2)))))
         | _ \<Rightarrow> Inr (False, n1)))"

text \<open>
  One turn of the loop of \<open>OS_DoIo\<close>: a request that has finished, successfully or not, is dispatched if the instance of its descriptor is
  the one it was made for, and freed. The call of a completion procedure is a log entry with its client data and the number of bytes. The boolean
  says that the time has run out.
\<close>

definition OS_DoIo_turn :: "win \<Rightarrow> (bool \<times> win) res" where
  "OS_DoIo_turn n =
     (case api (WAPI ''GetQueuedCompletionStatus'' (hIoCompPort n)) n of (e, n1) \<Rightarrow>
        (case e of WinDone len fd ov \<Rightarrow>
           assertr (fd_ok fd)
            (inbounds (ov < length (wRequests n1) \<and> wRequests n1 ! ov \<noteq> None)
              (let r = the (wRequests n1 ! ov);
                   n2 = (if ovInstance r = instance_no (fd_at n1 fd) then n1\<lparr>wLog := wLog n1 @ [WCall (ovProc r) (ovClientData r) len]\<rparr> else n1)
               in Inr (False, n2\<lparr>wRequests := (wRequests n2)[ov := None]\<rparr>)))
         | _ \<Rightarrow> Inr (True, n1)))"

text \<open>\<open>OS_DoIo\<close>. \<open>tmo\<close> is the timeout in milliseconds; \<open>ticks\<close> are the differences of successive readings of the clock.\<close>

fun OS_DoIo_loop :: "int option \<Rightarrow> int \<Rightarrow> int list \<Rightarrow> win \<Rightarrow> (int \<times> win) res" where
  "OS_DoIo_loop tmo ms ticks n =
     (if ms < 0 then Inr (0, n)
      else let ms1 = (case tmo of None \<Rightarrow> ms | Some t \<Rightarrow> min t 100) in
        bindr (OS_DoIo_turn n) (\<lambda>(timeout, n1).
          if timeout then Inr (0, n1)
          else case ticks of [] \<Rightarrow> Inl Blocked | d # ds \<Rightarrow> OS_DoIo_loop tmo (ms1 - d) ds n1))"

declare OS_DoIo_loop.simps [simp del]

definition OS_DoIo_w32 :: "int option \<Rightarrow> int list \<Rightarrow> win \<Rightarrow> (int \<times> win) res" where
  "OS_DoIo_w32 tmo ticks n = OS_DoIo_loop tmo (case tmo of None \<Rightarrow> 1000 | Some t \<Rightarrow> t div 2) ticks n"

section \<open>Accepting\<close>

text \<open>\<open>strstr\<close>: where the second string first occurs in the first.\<close>

fun find_str :: "byte list \<Rightarrow> byte list \<Rightarrow> nat option" where
  "find_str pat [] = (if pat = [] then Some 0 else None)"
| "find_str pat (c # cs) = (if take (length pat) (c # cs) = pat then Some 0 else map_option Suc (find_str pat cs))"

text \<open>\<open>strchr(token, c)\<close> also finds the NUL at the end of \<open>token\<close>.\<close>

definition is_token :: "byte \<Rightarrow> bool" where
  "is_token c \<longleftrightarrow> c = 32 \<or> c = 44 \<or> c = 59 \<or> c = 58 \<or> c = 9 \<or> c = 0"

definition char_at :: "nat \<Rightarrow> byte list \<Rightarrow> byte" where
  "char_at i s = (if i < length s then s ! i else 0)"

text \<open>\<open>ipaddr\<close> is the text \<open>inet_ntoa\<close> gives for the address of the client.\<close>

definition isAddrOK :: "byte list \<Rightarrow> byte list option \<Rightarrow> bool" where
  "isAddrOK ipaddr okAddrs =
     (case okAddrs of None \<Rightarrow> True
      | Some l \<Rightarrow>
          (case find_str ipaddr l of None \<Rightarrow> False
           | Some p \<Rightarrow>
               if p = 0 then is_token (char_at (length ipaddr) l)
               else if is_token (char_at (p - 1) l) then is_token (char_at (p + length ipaddr) l)
               else False))"

definition isAddrOKCallback :: "int \<Rightarrow> byte list \<Rightarrow> byte list option \<Rightarrow> bool" where
  "isAddrOKCallback sin_family ipaddr okAddrs =
     (if okAddrs = None then True else if sin_family \<noteq> AF_INET then True else isAddrOK ipaddr okAddrs)"

definition ERROR_PIPE_CONNECTED :: int where "ERROR_PIPE_CONNECTED = 535"
definition WSAECONNREFUSED :: int where "WSAECONNREFUSED = 10061"

definition OS_LibShutdown_w32 :: "win \<Rightarrow> win" where
  "OS_LibShutdown_w32 n =
     (let n1 = (if hIoCompPort n \<noteq> INVALID_HANDLE_VALUE
                then (snd (api (WAPI ''CloseHandle'' (hIoCompPort n)) n))\<lparr>hIoCompPort := INVALID_HANDLE_VALUE\<rparr> else n);
          n2 = (if hStdinCompPort n1 \<noteq> INVALID_HANDLE_VALUE
                then (snd (api (WAPI ''CloseHandle'' (hStdinCompPort n1)) n1))\<lparr>hStdinCompPort := INVALID_HANDLE_VALUE\<rparr> else n1);
          n3 = (if acceptMutex n2 \<noteq> INVALID_HANDLE_VALUE then snd (api (WAPI ''ReleaseMutex'' (acceptMutex n2)) n2) else n2);
          n4 = snd (api (WAPI ''DisconnectNamedPipe'' (hListen n3)) n3);
          n5 = snd (api (WAPI ''CancelIo'' (hListen n4)) n4)
      in snd (api (WAPI ''WSACleanup'' 0) n5))"

definition acceptNamedPipe :: "win \<Rightarrow> int \<times> win" where
  "acceptNamedPipe n =
     (case api (WAPI ''ConnectNamedPipe'' (hListen n)) n of (e, n1) \<Rightarrow>
        let n2 = (if \<not> succeeds e \<and> wLastError n1 \<noteq> ERROR_PIPE_CONNECTED then wmessage ''unexpected ConnectNamedPipe() error'' n1 else n1) in
        case Win32NewDescriptor FD_PIPE_SYNC (hListen n2) (- 1) n2 of (ipc_fd, n3) \<Rightarrow>
          (ipc_fd, if ipc_fd = - 1 then snd (api (WAPI ''DisconnectNamedPipe'' (hListen n3)) n3) else n3))"

text \<open>
  A client: the family of its address, its text, its socket. \<open>SelectTimeout b\<close> is a second without a client, during which a shutdown is
  requested or not; \<open>WSAAccept\<close> calls \<open>isAddrOKCallback\<close> and refuses the clients it rejects. The variant of \<open>acceptSocket\<close> for
  compilers with \<open>NO_WSAACEPT\<close>, which calls \<open>accept\<close> and \<open>isAddrOK\<close>, is not compiled on the systems modelled.
\<close>

datatype accept_w32 = SelectTimeout bool | Client int "byte list" int | AcceptError int

fun acceptSocket :: "byte list option \<Rightarrow> accept_w32 list \<Rightarrow> win \<Rightarrow> (int \<times> accept_w32 list \<times> win) res" where
  "acceptSocket webServerAddrs [] n = Inl Blocked"
| "acceptSocket webServerAddrs (SelectTimeout b # es) n =
     (let n1 = n\<lparr>wShutdownPending := (wShutdownPending n \<or> b)\<rparr> in
      if wShutdownPending n1 then Inr (- 1, es, OS_LibShutdown_w32 n1) else acceptSocket webServerAddrs es n1)"
| "acceptSocket webServerAddrs (AcceptError e # es) n =
     (if e \<noteq> WSAECONNREFUSED then Inr (- 1, es, wmessage ''accept()/WSAAccept() failed'' (n\<lparr>wLastError := e\<rparr>))
      else acceptSocket webServerAddrs es (n\<lparr>wLastError := e\<rparr>))"
| "acceptSocket webServerAddrs (Client family ipaddr hSock # es) n =
     (if isAddrOKCallback family ipaddr webServerAddrs then
        (case Win32NewDescriptor FD_SOCKET_SYNC hSock (- 1) n of (ipc_fd, n1) \<Rightarrow>
           Inr (ipc_fd, es, if ipc_fd = - 1 then snd (api (WAPI ''closesocket'' hSock) n1) else n1))
      else acceptSocket webServerAddrs es (n\<lparr>wLastError := WSAECONNREFUSED\<rparr>))"

text \<open>\<open>OS_Accept\<close>. \<open>stopped\<close> says that a shutdown is requested while the function waits for the mutex.\<close>

definition OS_Accept_w32 :: "byte list option \<Rightarrow> bool \<Rightarrow> accept_w32 list \<Rightarrow> win \<Rightarrow> (int \<times> accept_w32 list \<times> win) res" where
  "OS_Accept_w32 webServerAddrs stopped clients n =
     (if wShutdownPending n then Inr (- 1, clients, OS_LibShutdown_w32 n)
      else
        let locked = acceptMutex n \<noteq> INVALID_HANDLE_VALUE;
            (e, n1) = (if locked then api (WAPI ''WaitForSingleObject'' (acceptMutex n)) n else (WinRet 0, n))
        in if \<not> succeeds e then Inr (- 1, clients, wmessage ''WaitForSingleObject() failed'' n1)
        else
          bindr (if stopped then Inr (- 1, clients, OS_LibShutdown_w32 (n1\<lparr>wShutdownPending := True\<rparr>))
                 else if listenType n1 = FD_PIPE_SYNC then (case acceptNamedPipe n1 of (fd, n2) \<Rightarrow> Inr (fd, clients, n2))
                 else if listenType n1 = FD_SOCKET_SYNC then acceptSocket webServerAddrs clients n1
                 else Inr (- 1, clients, wmessage ''unknown listenType'' n1))
            (\<lambda>(ipc_fd, cs, n2). Inr (ipc_fd, cs, if locked then snd (api (WAPI ''ReleaseMutex'' (acceptMutex n2)) n2) else n2)))"

definition OS_IpcClose_w32 :: "int \<Rightarrow> bool \<Rightarrow> win \<Rightarrow> (int \<times> win) wproc res" where
  "OS_IpcClose_w32 ipc_fd shutdown n =
     (if ipc_fd = - 1 then Inr (Win (0, n))
      else assertr (fd_ok ipc_fd) (assertr (ftype (fd_at n ipc_fd) \<noteq> FD_UNUSED)
       (if listenType n = FD_PIPE_SYNC then
          (case api (WAPI ''FlushFileBuffers'' (fid (fd_at n ipc_fd))) n of (e, n1) \<Rightarrow>
             if \<not> succeeds e then Inr (Win (- 1, n1))
             else case api (WAPI ''DisconnectNamedPipe'' (fid (fd_at n1 ipc_fd))) n1 of (e2, n2) \<Rightarrow>
               if \<not> succeeds e2 then Inr (Win (- 1, n2))
               else bindr (OS_Close_w32 ipc_fd shutdown n2) (\<lambda>(_, n3). Inr (Win (0, n3))))
        else if listenType n = FD_SOCKET_SYNC then bindr (OS_Close_w32 ipc_fd shutdown n) (\<lambda>(_, n1). Inr (Win (0, n1)))
        else wexit 106 n)))"

definition OS_IsFcgi_w32 :: "win \<Rightarrow> bool" where
  "OS_IsFcgi_w32 n \<longleftrightarrow> listenType n \<noteq> FD_UNUSED"

definition O_NONBLOCK_w32 :: int where "O_NONBLOCK_w32 = 4"

definition OS_SetFlags_w32 :: "int \<Rightarrow> int \<Rightarrow> win \<Rightarrow> win wproc res" where
  "OS_SetFlags_w32 fd oflags n =
     inbounds (fd_ok fd)
      (if ftype (fd_at n fd) = FD_SOCKET_SYNC \<and> oflags = O_NONBLOCK_w32 then
         (case api (WAPI ''ioctlsocket'' (fid (fd_at n fd))) n of (e, n1) \<Rightarrow>
            if \<not> succeeds e then wexit (wLastError n1) n1
            else case api (WAPI ''CreateIoCompletionPort'' (fid (fd_at n1 fd))) n1 of (e2, n2) \<Rightarrow>
              if \<not> succeeds e2 then wexit (wLastError n2) n2
              else Inr (Win (set_fd fd ((fd_at n2 fd)\<lparr>ftype := FD_SOCKET_ASYNC\<rparr>) n2)))
       else Inr (Win n))"

definition OS_ShutdownPending_w32 :: "win \<Rightarrow> win" where
  "OS_ShutdownPending_w32 n = n\<lparr>wShutdownPending := True\<rparr>"

text \<open>The thread that waits for a shutdown; \<open>raise\<close> is a log entry.\<close>

definition ShutdownRequestThread :: "int \<Rightarrow> win \<Rightarrow> win wproc res" where
  "ShutdownRequestThread shutdownEvent n =
     (case api (WAPI ''WaitForSingleObject'' shutdownEvent) n of (_, n1) \<Rightarrow>
        let n2 = n1\<lparr>wShutdownPending := True, wLog := wLog n1 @ [WAPI ''raise'' SIGTERM]\<rparr> in
        if listenType n2 = FD_PIPE_SYNC then wexit 0 n2 else Inr (Win n2))"

section \<open>Starting the library\<close>

text \<open>
  \<open>OS_LibInit\<close>, in the order of the source, in pieces whose boolean says whether to go on. \<open>CreateIoCompletionPort\<close> returns \<open>NULL\<close> when it
  fails, which is not \<open>INVALID_HANDLE_VALUE\<close>.
\<close>

definition create_port :: "win \<Rightarrow> int \<times> win" where
  "create_port n = (case api (WAPI ''CreateIoCompletionPort'' INVALID_HANDLE_VALUE) n of (e, n1) \<Rightarrow> (handle 0 e, n1))"

definition begin_thread :: "string \<Rightarrow> int \<Rightarrow> win \<Rightarrow> int \<times> win" where
  "begin_thread name arg n = (case api (WAPI name arg) n of (e, n1) \<Rightarrow> (handle (- 1) e, n1))"

definition init_port :: "win \<Rightarrow> bool \<times> win" where
  "init_port n = (if hIoCompPort n = INVALID_HANDLE_VALUE
     then case create_port n of (h, n1) \<Rightarrow> (h \<noteq> INVALID_HANDLE_VALUE, n1\<lparr>hIoCompPort := h\<rparr>) else (True, n))"

text \<open>The objects named in the environment: an event that announces a shutdown, a mutex for accepting.\<close>

definition init_environment :: "byte list list \<Rightarrow> win \<Rightarrow> (bool \<times> win) res" where
  "init_environment env n =
     bindr (case getenv SHUTDOWN_EVENT_NAME env of None \<Rightarrow> Inr (True, n)
            | Some val \<Rightarrow> bindr (atoi val) (\<lambda>v. case begin_thread ''ShutdownRequestThread'' v n of (h, n1) \<Rightarrow> Inr (h \<noteq> - 1, n1)))
       (\<lambda>(ok, n1).
         if ok \<and> acceptMutex n1 = INVALID_HANDLE_VALUE then
           (case getenv MUTEX_VARNAME env of None \<Rightarrow> Inr (ok, n1) | Some val \<Rightarrow> bindr (atoi val) (\<lambda>v. Inr (ok, n1\<lparr>acceptMutex := v\<rparr>)))
         else Inr (ok, n1))"

text \<open>Standard input may be a listening pipe or socket, when there is no standard output and no standard error.\<close>

definition init_listener :: "win \<Rightarrow> bool \<times> win" where
  "init_listener n =
     (if stdHandle n 1 = INVALID_HANDLE_VALUE \<and> stdHandle n 2 = INVALID_HANDLE_VALUE \<and> stdHandle n 0 \<noteq> INVALID_HANDLE_VALUE then
        let oldStdIn = stdHandle n 0 in
        case api (WAPI ''DuplicateHandle'' oldStdIn) n of (e, n1) \<Rightarrow>
          if \<not> succeeds e then (False, n1)
          else let n2 = n1\<lparr>hListen := handle 0 e\<rparr> in
            case api (WAPI ''SetStdHandle'' (hListen n2)) n2 of (e2, n3) \<Rightarrow>
              if \<not> succeeds e2 then (False, n3)
              else let n4 = snd (api (WAPI ''CloseHandle'' oldStdIn) (n3\<lparr>stdHandle := (stdHandle n3)(0 := hListen n3)\<rparr>)) in
                case api (WAPI ''SetNamedPipeHandleState'' (hListen n4)) n4 of (e3, n5) \<Rightarrow>
                  (True, n5\<lparr>listenType := (if succeeds e3 then FD_PIPE_SYNC else FD_SOCKET_SYNC)\<rparr>)
      else (True, n))"

text \<open>A standard handle, and the descriptor of its number.\<close>

definition get_std :: "int \<Rightarrow> win \<Rightarrow> bool \<times> win" where
  "get_std i n = (let n1 = n\<lparr>stdioHandles := (stdioHandles n)(i := stdHandle n i)\<rparr> in
     case api (WAPI ''SetHandleInformation'' (stdioHandles n1 i)) n1 of (e, n2) \<Rightarrow> (succeeds e, n2))"

definition init_stdio :: "int \<Rightarrow> win \<Rightarrow> int \<times> win" where
  "init_stdio i n = Win32NewDescriptor FD_PIPE_SYNC (stdioHandles n i) i n"

text \<open>The thread that reads standard input, if \<open>CONTENT_LENGTH\<close> announces any.\<close>

definition init_stdin_thread :: "byte list list \<Rightarrow> win \<Rightarrow> (bool \<times> win) res" where
  "init_stdin_thread env n =
     (case (if hStdinCompPort n = INVALID_HANDLE_VALUE
            then case create_port n of (h, n1) \<Rightarrow> (h \<noteq> INVALID_HANDLE_VALUE, n1\<lparr>hStdinCompPort := h\<rparr>) else (True, n)) of (ok, n1) \<Rightarrow>
        if \<not> ok then Inr (False, n1)
        else bindr (content_length env) (\<lambda>len.
          if 0 < len then (case begin_thread ''StdinThread'' 0 n1 of (h, n2) \<Rightarrow> Inr (h \<noteq> - 1, n2\<lparr>hStdinThread := h\<rparr>))
          else Inr (True, n1)))"

text \<open>Standard output and standard error.\<close>

definition init_output :: "int \<Rightarrow> win \<Rightarrow> (bool \<times> win) wproc res" where
  "init_output i n = (case get_std i n of (ok, n1) \<Rightarrow>
     if \<not> ok then wexit 99 n1 else case init_stdio i n1 of (fakeFd, n2) \<Rightarrow> Inr (Win (fakeFd \<noteq> - 1, n2)))"

definition init_stdio_fds :: "byte list list \<Rightarrow> win \<Rightarrow> (int \<times> win) wproc res" where
  "init_stdio_fds env n =
     (case get_std 0 n of (_, n1) \<Rightarrow>
      case init_stdio 0 n1 of (fakeFd, n2) \<Rightarrow>
        if fakeFd = - 1 then Inr (Win (- 1, n2))
        else bindr (init_stdin_thread env n2) (\<lambda>(ok, n3).
          if \<not> ok then Inr (Win (- 1, n3))
          else bindw (init_output 1 n3) (\<lambda>(ok1, n4).
            if \<not> ok1 then Inr (Win (- 1, n4))
            else bindw (init_output 2 n4) (\<lambda>(ok2, n5). Inr (Win (if ok2 then 0 else - 1, n5))))))"

text \<open>\<open>stdio\<close> says whether \<open>stdioFds\<close> is given; the descriptors stored there are 0, 1 and 2.\<close>

definition OS_LibInit_w32 :: "byte list list \<Rightarrow> bool \<Rightarrow> win \<Rightarrow> (int \<times> win) wproc res" where
  "OS_LibInit_w32 env stdio n =
     (if wLibInitialized n then Inr (Win (0, n))
      else case api (WAPI ''WSAStartup'' 2) n of (e, n1) \<Rightarrow>
        if \<not> succeeds e then wexit 111 (wmessage ''Error starting Windows Sockets'' n1)
        else case init_port n1 of (ok1, n2) \<Rightarrow>
          if \<not> ok1 then Inr (Win (- 1, wmessage ''OS_LibInit Failed CreateIoCompletionPort'' n2))
          else bindr (init_environment env n2) (\<lambda>(ok2, n3).
            if \<not> ok2 then Inr (Win (- 1, n3))
            else case init_listener n3 of (ok3, n4) \<Rightarrow>
              if \<not> ok3 then Inr (Win (- 1, n4))
              else if \<not> stdio then Inr (Win (0, n4\<lparr>wLibInitialized := True\<rparr>))
              else init_stdio_fds env n4))"

end
