(* ===== verification/Fcgi_Win32_Correct.thy ===== *)
theory Fcgi_Win32_Correct
  imports Fcgi_Win32
begin

text \<open>
  What the Windows layer does: the table of descriptors, the clients that are let in, and four places where it does not do what it is for.
\<close>

section \<open>Calls of the API\<close>

lemma api_frame [simp]:
  "fdTable (snd (api c n)) = fdTable n" "listenType (snd (api c n)) = listenType n" "wRequests (snd (api c n)) = wRequests n"
  "acceptMutex (snd (api c n)) = acceptMutex n" "wShutdownPending (snd (api c n)) = wShutdownPending n"
  "wLibInitialized (snd (api c n)) = wLibInitialized n" "hIoCompPort (snd (api c n)) = hIoCompPort n"
  by (simp_all add: api_def Let_def split: list.splits)

lemma wmessage_frame [simp]:
  "fdTable (wmessage s n) = fdTable n" "listenType (wmessage s n) = listenType n" "wRequests (wmessage s n) = wRequests n"
  "wScript (wmessage s n) = wScript n"
  by (simp_all add: wmessage_def)

lemma api_next: "wScript n = e # es \<Longrightarrow> fst (api c n) = e \<and> wScript (snd (api c n)) = es"
  by (simp add: api_def Let_def)

lemma bindw_Win: "(bindw m k = Inr (Win y)) = (\<exists>x. m = Inr (Win x) \<and> k x = Inr (Win y))"
  unfolding bindw_def bindr_Inr_iff by (metis wproc.exhaust wproc.simps(5,6) Inr_inject wproc.distinct(1))

section \<open>Descriptors\<close>

definition full_table :: "win \<Rightarrow> bool" where
  "full_table n \<longleftrightarrow> length (fdTable n) = WIN32_OPEN_MAX"

lemma set_fd_at:
  "full_table n \<Longrightarrow> fd_ok i \<Longrightarrow> fd_ok j \<Longrightarrow> fd_at (set_fd i x n) j = (if j = i then x else fd_at n j)"
  by (auto simp: fd_at_def set_fd_def full_table_def fd_ok_def nth_list_update nat_less_iff)

lemma set_fd_frame [simp]:
  "full_table (set_fd i x n) = full_table n" "wRequests (set_fd i x n) = wRequests n" "listenType (set_fd i x n) = listenType n"
  "wScript (set_fd i x n) = wScript n"
  by (simp_all add: set_fd_def full_table_def)

lemma full_table_api [simp]: "full_table (snd (api c n)) = full_table n"
  by (simp add: full_table_def)

lemma fd_at_api [simp]: "fd_at (snd (api c n)) i = fd_at n i"
  by (simp add: fd_at_def)

lemma new_index_unused:
  "new_index fd want n = - 1 \<or> fd_ok (new_index fd want n) \<and> ftype (fd_at n (new_index fd want n)) = FD_UNUSED"
proof -
  have "fd_ok (int i) \<and> ftype (fd_at n (int i)) = FD_UNUSED"
    if "find (\<lambda>i. ftype (fd_at n (int i)) = FD_UNUSED) [1..<WIN32_OPEN_MAX] = Some i" for i
    using that by (auto simp: find_Some_iff fd_ok_def)
  then show ?thesis by (auto simp: new_index_def fd_ok_def split: option.splits)
qed

text \<open>A new descriptor is a free one, stands for its handle, and disturbs no other; without a wish for a number there is none only when all of
  1 to 127 are taken or the handle is not positive.\<close>

theorem Win32NewDescriptor_fresh:
  assumes "full_table n" "Win32NewDescriptor ty fd want n = (i, n')"
  shows "i \<noteq> - 1 \<Longrightarrow> fd_ok i \<and> ftype (fd_at n i) = FD_UNUSED \<and> fid (fd_at n' i) = fd \<and> ftype (fd_at n' i) = ty
      \<and> instance_no (fd_at n' i) = instance_no (fd_at n i) \<and> full_table n' \<and> (\<forall>j. fd_ok j \<and> j \<noteq> i \<longrightarrow> fd_at n' j = fd_at n j)"
    and "i = - 1 \<Longrightarrow> n' = n"
    and "i = - 1 \<Longrightarrow> want = - 1 \<Longrightarrow> 0 < fd \<Longrightarrow> (\<forall>j. 1 \<le> j \<and> j < int WIN32_OPEN_MAX \<longrightarrow> ftype (fd_at n j) \<noteq> FD_UNUSED)"
proof -
  have i: "i = new_index fd want n" using assms(2) by (simp add: Win32NewDescriptor_def Let_def split: if_splits)
  show "i = - 1 \<Longrightarrow> n' = n" using assms(2) by (simp add: Win32NewDescriptor_def Let_def i split: if_splits)
  show "fd_ok i \<and> ftype (fd_at n i) = FD_UNUSED \<and> fid (fd_at n' i) = fd \<and> ftype (fd_at n' i) = ty
      \<and> instance_no (fd_at n' i) = instance_no (fd_at n i) \<and> full_table n' \<and> (\<forall>j. fd_ok j \<and> j \<noteq> i \<longrightarrow> fd_at n' j = fd_at n j)" if "i \<noteq> - 1"
  proof -
    have ok: "fd_ok i" "ftype (fd_at n i) = FD_UNUSED" using new_index_unused [of fd want n] that i by auto
    define x where "x = (fd_at n i)\<lparr>fid := fd, ftype := ty, fpath := None, fErrno := 0, fstatus := 0, offset := - 1, shared := None, hMapMutex := 0\<rparr>"
    have "n' = set_fd i x n" using assms(2) that i by (simp add: Win32NewDescriptor_def Let_def x_def)
    then show ?thesis using ok assms(1) set_fd_at [OF assms(1) ok(1)] by (simp add: x_def)
  qed
  show "\<forall>j. 1 \<le> j \<and> j < int WIN32_OPEN_MAX \<longrightarrow> ftype (fd_at n j) \<noteq> FD_UNUSED" if "i = - 1" "want = - 1" "0 < fd"
  proof -
    have "find (\<lambda>i. ftype (fd_at n (int i)) = FD_UNUSED) [1..<WIN32_OPEN_MAX] = None"
      using that i by (auto simp: new_index_def fd_ok_def split: if_splits option.splits)
    then have "ftype (fd_at n (int k)) \<noteq> FD_UNUSED" if "1 \<le> k" "k < WIN32_OPEN_MAX" for k
      using that by (auto simp: find_None_iff)
    then show ?thesis by (metis nat_int nat_less_iff nonneg_int_cases of_nat_1 of_nat_le_iff of_nat_less_iff order_trans zero_le_one)
  qed
qed

section \<open>Clients\<close>

lemma find_str_at: "find_str pat l = Some p \<Longrightarrow> take (length pat) (drop p l) = pat"
  by (induction l arbitrary: p) (auto split: if_splits)

text \<open>An address that is approved stands in the list, between separators or the ends of the list.\<close>

lemma isAddrOK_listed:
  assumes "isAddrOK ip (Some l)"
  shows "\<exists>a b. l = a @ ip @ b \<and> (a = [] \<or> is_token (last a)) \<and> (b = [] \<or> is_token (hd b))"
proof -
  obtain p where p: "find_str ip l = Some p" using assms by (auto simp: isAddrOK_def split: option.splits)
  then have l: "l = take p l @ ip @ drop (p + length ip) l"
    using find_str_at [OF p] by (metis append_take_drop_id drop_drop add.commute)
  have "p \<le> length l" using p
  proof (induction l arbitrary: p)
    case (Cons c cs)
    then show ?case by (auto split: if_splits)
  qed (auto split: if_splits)
  have r: "is_token (char_at (p + length ip) l) \<Longrightarrow> drop (p + length ip) l = [] \<or> is_token (hd (drop (p + length ip) l))"
    by (cases "p + length ip < length l") (simp_all add: char_at_def hd_drop_conv_nth)
  have t: "p \<noteq> 0 \<Longrightarrow> is_token (char_at (p - 1) l) \<Longrightarrow> is_token (last (take p l))"
    using \<open>p \<le> length l\<close> by (subst last_conv_nth) (auto simp: char_at_def min_def split: if_splits)
  have "(p = 0 \<and> is_token (char_at (p + length ip) l)) \<or> (p \<noteq> 0 \<and> is_token (char_at (p - 1) l) \<and> is_token (char_at (p + length ip) l))"
    using assms p by (auto simp: isAddrOK_def split: if_splits)
  then have "(take p l = [] \<or> is_token (last (take p l))) \<and> (drop (p + length ip) l = [] \<or> is_token (hd (drop (p + length ip) l)))"
    using r t by auto
  with l show ?thesis by blast
qed

lemma acceptSocket_client:
  "acceptSocket addrs es n = Inr (fd, cs, n') \<Longrightarrow> fd \<noteq> - 1 \<Longrightarrow>
   \<exists>family ip s n1. Client family ip s \<in> set es \<and> isAddrOKCallback family ip addrs
     \<and> Win32NewDescriptor FD_SOCKET_SYNC s (- 1) n1 = (fd, n') \<and> fdTable n1 = fdTable n"
proof (induction addrs es n rule: acceptSocket.induct)
  case (2 addrs b es n)
  let ?n = "n\<lparr>wShutdownPending := wShutdownPending n \<or> b\<rparr>"
  have "\<not> wShutdownPending ?n" "acceptSocket addrs es ?n = Inr (fd, cs, n')" using 2(2,3) by (auto simp: Let_def split: if_splits)
  from 2(1) [OF refl this 2(3)] show ?case by auto
next
  case (3 addrs e es n)
  have "e = WSAECONNREFUSED" "acceptSocket addrs es (n\<lparr>wLastError := e\<rparr>) = Inr (fd, cs, n')" using 3(2,3) by (auto split: if_splits)
  with 3(1) [OF _ _ 3(3)] show ?case by auto
next
  case (4 addrs family ip s es n)
  show ?case
  proof (cases "isAddrOKCallback family ip addrs")
    case True
    then have "Win32NewDescriptor FD_SOCKET_SYNC s (- 1) n = (fd, n')" using 4(2,3) by (auto split: prod.splits if_splits)
    then show ?thesis using True by (intro exI [of _ family] exI [of _ ip] exI [of _ s] exI [of _ n]) simp
  next
    case False
    then have "acceptSocket addrs es (n\<lparr>wLastError := WSAECONNREFUSED\<rparr>) = Inr (fd, cs, n')" using 4(2) by simp
    from 4(1) [OF False this 4(3)] show ?thesis by auto
  qed
qed simp

text \<open>C29. On Windows: a socket that \<open>OS_Accept\<close> returns belongs to a client that asked for a connection and whose address, if it is an IPv4 address and
  a list is given, stands in the list between separators. The descriptor was free and stands for the client's socket.\<close>

theorem w32_accept_approved:
  assumes "OS_Accept_w32 addrs stopped clients n = Inr (fd, cs, n')" "fd \<noteq> - 1" "listenType n = FD_SOCKET_SYNC" "full_table n"
  shows "\<exists>family ip s. Client family ip s \<in> set clients \<and> fd_ok fd \<and> ftype (fd_at n fd) = FD_UNUSED
    \<and> fid (fd_at n' fd) = s \<and> ftype (fd_at n' fd) = FD_SOCKET_SYNC
    \<and> (addrs = None \<or> family \<noteq> AF_INET
       \<or> (\<exists>l a b. addrs = Some l \<and> l = a @ ip @ b \<and> (a = [] \<or> is_token (last a)) \<and> (b = [] \<or> is_token (hd b))))"
proof -
  obtain n1 n2 cs2 where a: "acceptSocket addrs clients n1 = Inr (fd, cs2, n2)" "fdTable n1 = fdTable n" "fdTable n' = fdTable n2"
    using assms(1-3) by (auto simp: OS_Accept_w32_def bindr_Inr_iff Let_def split_beta split: if_splits)
  obtain family ip s m where c: "Client family ip s \<in> set clients" "isAddrOKCallback family ip addrs"
    "Win32NewDescriptor FD_SOCKET_SYNC s (- 1) m = (fd, n2)" "fdTable m = fdTable n1"
    using acceptSocket_client [OF a(1) assms(2)] by blast
  have m: "full_table m" "fd_at m j = fd_at n j" "fd_at n' j = fd_at n2 j" for j
    using assms(4) a(2,3) c(4) by (simp_all add: full_table_def fd_at_def)
  have d: "fd_ok fd \<and> ftype (fd_at n fd) = FD_UNUSED \<and> fid (fd_at n' fd) = s \<and> ftype (fd_at n' fd) = FD_SOCKET_SYNC"
    using Win32NewDescriptor_fresh(1) [OF m(1) c(3) assms(2)] m(2,3) by simp
  have "addrs = None \<or> family \<noteq> AF_INET \<or> (\<exists>l a b. addrs = Some l \<and> l = a @ ip @ b \<and> (a = [] \<or> is_token (last a)) \<and> (b = [] \<or> is_token (hd b)))"
    using c(2) isAddrOK_listed [of ip] by (cases addrs) (auto simp: isAddrOKCallback_def split: if_splits)
  with c(1) d show ?thesis by blast
qed

lemma static_win_free: "full_table (static_win std es)" "fd_ok i \<Longrightarrow> ftype (fd_at (static_win std es) i) = FD_UNUSED"
  by (auto simp: full_table_def static_win_def fd_at_def fd_ok_def unused_fd_def nat_less_iff)

lemma static_win_script: "wScript (static_win std es) = es"
  by (simp add: static_win_def)

text \<open>A client from 10.0.0.9 is turned away, one from 10.0.0.1 is let in.\<close>

definition sample_listener :: win where
  "sample_listener = (static_win (\<lambda>_. - 1) [])\<lparr>listenType := FD_SOCKET_SYNC\<rparr>"

lemma sample_listener_accepts:
  "OS_Accept_w32 (Some [49, 48, 46, 48, 46, 48, 46, 49]) False [Client AF_INET [49, 48, 46, 48, 46, 48, 46, 57] 70,
     Client AF_INET [49, 48, 46, 48, 46, 48, 46, 49] 80] sample_listener =
   Inr (80, [], snd (Win32NewDescriptor FD_SOCKET_SYNC 80 (- 1) (sample_listener\<lparr>wLastError := WSAECONNREFUSED\<rparr>)))"
proof -
  let ?m = "sample_listener\<lparr>wLastError := WSAECONNREFUSED\<rparr>"
  have "ftype (fd_at ?m 80) = FD_UNUSED"
    using static_win_free(2) [of 80 "\<lambda>_. - 1" "[]"] by (simp add: sample_listener_def fd_at_def fd_ok_def WIN32_OPEN_MAX_def)
  then have i: "fst (Win32NewDescriptor FD_SOCKET_SYNC 80 (- 1) ?m) = 80"
    by (simp add: Win32NewDescriptor_def new_index_def fd_ok_def WIN32_OPEN_MAX_def Let_def)
  have a: "\<not> isAddrOKCallback AF_INET [49, 48, 46, 48, 46, 48, 46, 57] (Some [49, 48, 46, 48, 46, 48, 46, 49])"
    "isAddrOKCallback AF_INET [49, 48, 46, 48, 46, 48, 46, 49] (Some [49, 48, 46, 48, 46, 48, 46, 49])"
    by (simp_all add: isAddrOKCallback_def isAddrOK_def is_token_def char_at_def AF_INET_def)
  have n: "acceptMutex sample_listener = INVALID_HANDLE_VALUE" "\<not> wShutdownPending sample_listener" "listenType sample_listener = FD_SOCKET_SYNC"
    by (simp_all add: sample_listener_def static_win_def)
  show ?thesis using i a n by (simp add: OS_Accept_w32_def succeeds_def split_beta Let_def prod_eq_iff)
qed

theorem w32_accept_approved_witness:
  "\<exists>family ip s l a b. Client family ip s \<in> set [Client AF_INET [49, 48, 46, 48, 46, 48, 46, 57] 70,
     Client AF_INET [49, 48, 46, 48, 46, 48, 46, 49] 80] \<and> family = AF_INET \<and> l = [49, 48, 46, 48, 46, 48, 46, 49] \<and> l = a @ ip @ b
     \<and> (a = [] \<or> is_token (last a)) \<and> (b = [] \<or> is_token (hd b))"
proof -
  have f: "listenType sample_listener = FD_SOCKET_SYNC" "full_table sample_listener"
    using static_win_free(1) [of "\<lambda>_. - 1" "[]"] by (simp_all add: sample_listener_def full_table_def)
  let ?l = "[49, 48, 46, 48, 46, 48, 46, 49] :: byte list"
  have "(80 :: int) \<noteq> - 1" by simp
  from w32_accept_approved [OF sample_listener_accepts this f] obtain family ip s where
    c: "Client family ip s \<in> set [Client AF_INET [49, 48, 46, 48, 46, 48, 46, 57] 70, Client AF_INET ?l 80]"
    and "Some ?l = None \<or> family \<noteq> AF_INET \<or> (\<exists>l a b. Some ?l = Some l \<and> l = a @ ip @ b \<and> (a = [] \<or> is_token (last a)) \<and> (b = [] \<or> is_token (hd b)))"
    by blast
  moreover from c have "family = AF_INET" by (simp only: set_simps insert_iff empty_iff accept_w32.inject) blast
  ultimately show ?thesis by (metis option.distinct(1) option.inject)
qed

section \<open>What goes wrong\<close>

text \<open>An address that is listed is refused when it is also the tail of an entry before it: only the first place is looked at.\<close>

theorem isAddrOK_hidden:
  assumes "\<not> is_token c" "take (length ip) (c # ip) \<noteq> ip" "0 < length ip"
  shows "isAddrOK ip (Some (c # ip @ sep # ip)) = False"
proof -
  have t: "take (length ip) (c # ip @ sep # ip) = take (length ip) (c # ip)"
    using take_append [of "length ip" "c # ip" "sep # ip"] by simp
  have "find_str ip (ip @ sep # ip) = Some 0" using assms(3) by (cases ip) simp_all
  then have "find_str ip (c # ip @ sep # ip) = Some 1" using assms(2) t by simp
  then show ?thesis using assms(1) by (simp add: isAddrOK_def char_at_def)
qed

text \<open>C30. On Windows \<open>OS_FcgiConnect\<close> to a host and port has its result inverted. \<open>connect\<close> returns zero when it succeeds: then the socket is closed
  and -1 is returned; when \<open>connect\<close> fails, a descriptor of the socket that is not connected is returned.\<close>

theorem w32_connect_inverted:
  assumes "getPort path = Inr port" "port \<noteq> 0" "gh (if path \<noteq> [] \<and> hd path \<noteq> 58 then takeWhile (\<lambda>b. b \<noteq> 58) path else LOCALHOST) = Some hp"
    "h_addr_list hp \<noteq> []" "length (h_addr_list hp ! 0) = 4" "wScript n = WinRet s # e # es" "0 < s" "full_table n" "ftype (fd_at n 1) = FD_UNUSED"
  shows "\<exists>fd n'. OS_FcgiConnect_w32 gh path n = Inr (fd, n')
    \<and> (if succeeds e then fd = - 1 else 0 \<le> fd \<and> ftype (fd_at n' fd) = FD_SOCKET_SYNC \<and> fid (fd_at n' fd) = s)"
proof -
  define a where "a = host_word (h_addr_list hp ! 0 @ [0, 0, 0, 0])"
  define n1 where "n1 = snd (api (WAPI ''socket'' 0) n)"
  define n2 where "n2 = snd (api (WConnect s a port) n1)"
  have 1: "api (WAPI ''socket'' 0) n = (WinRet s, n1)" "api (WConnect s a port) n1 = (e, n2)"
    using api_next [OF assms(6)] by (auto simp: n1_def n2_def prod_eq_iff intro: api_next [THEN conjunct1])
  have h: "handle (- 1) (WinRet s) = s" by (simp add: handle_def)
  have c: "OS_FcgiConnect_w32 gh path n = (if succeeds e then Inr (- 1, snd (api (WAPI ''closesocket'' s) n2))
      else case Win32NewDescriptor FD_SOCKET_SYNC s (- 1) n2 of (pseudoFd, n3) \<Rightarrow>
        if pseudoFd = - 1 then Inr (- 1, snd (api (WAPI ''closesocket'' s) n3)) else Inr (pseudoFd, n3))"
    using assms(1-5,7) 1 h by (simp add: OS_FcgiConnect_w32_def connect_host_def a_def [symmetric] INVALID_HANDLE_VALUE_def)
  obtain i n3 where d: "Win32NewDescriptor FD_SOCKET_SYNC s (- 1) n2 = (i, n3)" by fastforce
  have t: "full_table n2" "fd_at n2 1 = fd_at n 1" using assms(8) by (simp_all add: n1_def n2_def)
  have "i \<noteq> - 1"
  proof
    assume "i = - 1"
    from Win32NewDescriptor_fresh(3) [OF t(1) d this refl assms(7)] t(2) assms(9) show False
      by (auto simp: WIN32_OPEN_MAX_def dest: spec [of _ 1])
  qed
  from Win32NewDescriptor_fresh(1) [OF t(1) d this] this show ?thesis unfolding c d by (auto simp: fd_ok_def)
qed

text \<open>A connection to port 9000 of this machine: refused, it counts as made; made, it counts as refused.\<close>

definition sample_host :: "byte list \<Rightarrow> hostent option" where
  "sample_host name = Some \<lparr>h_addrtype = AF_INET, h_addr_list = [[127, 0, 0, 1]]\<rparr>"

theorem w32_connect_inverted_witness:
  "(\<exists>fd n'. OS_FcgiConnect_w32 sample_host [58, 57, 48, 48, 48] (static_win (\<lambda>_. - 1) [WinRet 200, WinFail 10061]) = Inr (fd, n')
      \<and> 0 \<le> fd \<and> fid (fd_at n' fd) = 200)
   \<and> (\<exists>n'. OS_FcgiConnect_w32 sample_host [58, 57, 48, 48, 48] (static_win (\<lambda>_. - 1) [WinRet 200, WinRet 0]) = Inr (- 1, n'))"
proof -
  have p: "getPort [58, 57, 48, 48, 48] = Inr 9000"
    by (simp add: getPort_def atoi_def is_space_def Let_def digit_of_def)
  have h: "\<exists>fd n'. OS_FcgiConnect_w32 sample_host [58, 57, 48, 48, 48] (static_win (\<lambda>_. - 1) [WinRet 200, e]) = Inr (fd, n')
      \<and> (if succeeds e then fd = - 1 else 0 \<le> fd \<and> ftype (fd_at n' fd) = FD_SOCKET_SYNC \<and> fid (fd_at n' fd) = 200)" for e
    by (rule w32_connect_inverted [OF p, where e = e and s = 200 and es = "[]" and hp = "\<lparr>h_addrtype = AF_INET, h_addr_list = [[127, 0, 0, 1]]\<rparr>"])
      (simp_all add: sample_host_def static_win_free static_win_script fd_ok_def WIN32_OPEN_MAX_def)
  show ?thesis using h [of "WinFail 10061"] h [of "WinRet 0"] by (auto simp: succeeds_def)
qed

text \<open>A server that opens a named pipe itself never accepts: the kind of listener it stores is not the one \<open>OS_Accept\<close> looks for.\<close>

theorem w32_pipe_server_never_accepts:
  assumes "OS_CreateLocalIpcFd_w32 path backlog n = Inr (Win (fd, n'))" "0 \<le> fd" "getPort path = Inr 0"
  shows "\<exists>cs n2. OS_Accept_w32 addrs stopped clients n' = Inr (- 1, cs, n2)"
proof -
  have rc: "fst (create_accept_mutex n) = 0 \<or> fst (create_accept_mutex n) < 0" by (auto simp: create_accept_mutex_def Let_def split_beta)
  have "listenType n' = FD_PIPE_ASYNC"
    using assms rc by (auto simp: OS_CreateLocalIpcFd_w32_def listen_on_pipe_def Let_def split_beta Win32NewDescriptor_def split: if_splits)
  then show ?thesis by (auto simp: OS_Accept_w32_def Let_def split_beta)
qed

text \<open>Completions: the instance of a descriptor is never changed, so that comparing it does not tell a request for a descriptor that has been
  closed since.\<close>

definition no_instances :: "win \<Rightarrow> bool" where
  "no_instances n \<longleftrightarrow> full_table n \<and> (\<forall>fd. fd_ok fd \<longrightarrow> instance_no (fd_at n fd) = 0) \<and> (\<forall>r. Some r \<in> set (wRequests n) \<longrightarrow> ovInstance r = 0)"

lemma no_instances_same: "fdTable n' = fdTable n \<Longrightarrow> wRequests n' = wRequests n \<Longrightarrow> no_instances n' = no_instances n"
  by (simp add: no_instances_def full_table_def fd_at_def)

lemma no_instances_set_fd: "no_instances n \<Longrightarrow> fd_ok fd \<Longrightarrow> instance_no x = 0 \<Longrightarrow> no_instances (set_fd fd x n)"
  by (auto simp: no_instances_def set_fd_at)

lemma drain_socket_frame: "fdTable (drain_socket s n) = fdTable n \<and> wRequests (drain_socket s n) = wRequests n"
proof (induction s n rule: drain_socket.induct)
  case (1 s n)
  define e n1 where "e = fst (api (WAPI ''select'' s) n)" and "n1 = snd (api (WAPI ''select'' s) n)"
  have s: "api (WAPI ''select'' s) n = (e, n1)" by (simp add: e_def n1_def)
  have f: "fdTable n1 = fdTable n" "wRequests n1 = wRequests n" by (simp_all add: n1_def)
  have r: "fdTable (drain_socket s (snd (api (WAPI ''recv'' s) n1))) = fdTable n \<and> wRequests (drain_socket s (snd (api (WAPI ''recv'' s) n1))) = wRequests n"
    if "\<not> handle (- 1) e \<le> 0" "wScript n1 = WinBytes bs # es" "bs \<noteq> []" for bs es
    using 1 [OF s [symmetric] that(1,2) refl prod.collapse that(3)] f by simp
  show ?case
    using f r by (subst (1 2) drain_socket.simps) (auto simp: s split_beta split: list.splits win_event.splits)
qed

lemma FreeDescriptor_instances:
  assumes "Win32FreeDescriptor fd n = Inr n'" "no_instances n"
  shows "no_instances n' \<and> wRequests n' = wRequests n"
proof (cases "ftype (fd_at n fd) = FD_UNUSED")
  case True
  then show ?thesis using assms by (simp add: Win32FreeDescriptor_def assertr_Inr_iff)
next
  case False
  have ok: "fd_ok fd" using assms(1) by (simp add: Win32FreeDescriptor_def assertr_Inr_iff)
  let ?x = "fd_at n fd"
  obtain x1 where x1: "(if ftype ?x = FD_FILE_SYNC \<or> ftype ?x = FD_FILE_ASYNC then assertr (fpath ?x \<noteq> None) (Inr (?x\<lparr>fpath := None\<rparr>)) else Inr ?x) = Inr x1"
    "assertr (fpath x1 = None) (let n1 = (if hMapMutex x1 \<noteq> 0 then snd (api (WAPI ''CloseHandle'' (hMapMutex x1)) n) else n) in
       Inr (set_fd fd (x1\<lparr>ftype := FD_UNUSED, fpath := None, fErrno := 0, shared := None, hMapMutex := 0\<rparr>) n1)) = Inr n'"
    using assms(1) False ok unfolding Win32FreeDescriptor_def Let_def bindr_Inr_iff by (simp only: assertr_simps if_True bindr_Inr_iff not_False_eq_True) blast
  define m where "m = (if hMapMutex x1 \<noteq> 0 then snd (api (WAPI ''CloseHandle'' (hMapMutex x1)) n) else n)"
  have "instance_no x1 = instance_no ?x" using x1(1) by (auto simp: assertr_Inr_iff split: if_splits)
  moreover have n': "n' = set_fd fd (x1\<lparr>ftype := FD_UNUSED, fpath := None, fErrno := 0, shared := None, hMapMutex := 0\<rparr>) m"
    using x1(2) by (simp add: assertr_Inr_iff Let_def m_def)
  moreover have f: "fdTable m = fdTable n" "wRequests m = wRequests n" by (simp_all add: m_def)
  have m: "no_instances m" using assms(2) by (simp add: no_instances_same [OF f])
  ultimately show ?thesis using no_instances_set_fd [OF m ok] assms(2) ok f(2) by (simp add: no_instances_def [of n])
qed

lemma Close_instances:
  assumes "OS_Close_w32 fd sh n = Inr (rc, n')" "no_instances n"
  shows "no_instances n' \<and> wRequests n' = wRequests n"
proof -
  let ?s = "fid (fd_at n fd)"
  define d where "d = (let n1 = snd (api (WAPI ''shutdown'' ?s) n) in if succeeds (fst (api (WAPI ''shutdown'' ?s) n)) then drain_socket ?s n1 else n1)"
  define m where "m = (if is_socket (ftype (fd_at n fd)) then snd (api (WAPI ''closesocket'' ?s) (if sh then d else n)) else n)"
  have "fdTable d = fdTable n" "wRequests d = wRequests n" using drain_socket_frame by (simp_all add: d_def Let_def)
  then have m: "fdTable m = fdTable n" "wRequests m = wRequests n" by (simp_all add: m_def)
  have "Win32FreeDescriptor fd m = Inr n'"
    using assms(1) by (simp add: OS_Close_w32_def assertr_Inr_iff bindr_Inr_iff Let_def split_beta m_def d_def split: if_splits)
  then show ?thesis using FreeDescriptor_instances [of fd m n'] no_instances_same [OF m] assms(2) m(2) by simp
qed

theorem w32_stale_completion:
  assumes "no_instances n" "OS_Close_w32 fd sh n = Inr (rc, n1)" "ov < length (wRequests n)" "wRequests n ! ov = Some r"
    "wScript n1 = WinDone len fd ov # es"
  shows "\<exists>n2. OS_DoIo_turn n1 = Inr (False, n2) \<and> WCall (ovProc r) (ovClientData r) len \<in> set (wLog n2)"
proof -
  note c = Close_instances [OF assms(2,1)]
  have ok: "fd_ok fd" using assms(2) by (simp add: OS_Close_w32_def assertr_Inr_iff)
  obtain m where m: "api (WAPI ''GetQueuedCompletionStatus'' (hIoCompPort n1)) n1 = (WinDone len fd ov, m)" "fdTable m = fdTable n1" "wRequests m = wRequests n1"
    using api_next [OF assms(5)] by (metis api_frame(1,3) prod.collapse)
  have "Some r \<in> set (wRequests n1)" using c assms(3,4) by (metis nth_mem)
  then have "ovInstance r = instance_no (fd_at m fd)" using c ok m(2) by (simp add: no_instances_def fd_at_def)
  then show ?thesis using m c assms(3,4) ok by (simp add: OS_DoIo_turn_def Let_def)
qed

text \<open>Initialisation: \<open>OS_LibInit\<close> with descriptors does not note that it has been done; a second call fails, since 0 is taken.\<close>

definition stdin_taken :: "win \<Rightarrow> bool" where
  "stdin_taken n \<longleftrightarrow> full_table n \<and> ftype (fd_at n 0) \<noteq> FD_UNUSED \<and> \<not> wLibInitialized n"

lemma stdin_taken_same: "fdTable n' = fdTable n \<Longrightarrow> wLibInitialized n' = wLibInitialized n \<Longrightarrow> stdin_taken n' = stdin_taken n"
  by (simp add: stdin_taken_def full_table_def fd_at_def)

lemma init_port_frame: "fdTable (snd (init_port n)) = fdTable n" "wLibInitialized (snd (init_port n)) = wLibInitialized n"
  by (simp_all add: init_port_def create_port_def split_beta)

lemma init_listener_frame: "fdTable (snd (init_listener n)) = fdTable n" "wLibInitialized (snd (init_listener n)) = wLibInitialized n"
  by (simp_all add: init_listener_def Let_def split_beta)

lemma get_std_frame: "fdTable (snd (get_std i n)) = fdTable n" "wLibInitialized (snd (get_std i n)) = wLibInitialized n"
  by (simp_all add: get_std_def Let_def split_beta)

lemma init_environment_frame:
  assumes "init_environment env n = Inr r"
  shows "fdTable (snd r) = fdTable n \<and> wLibInitialized (snd r) = wLibInitialized n"
proof -
  obtain ok n1 where a: "(case getenv SHUTDOWN_EVENT_NAME env of None \<Rightarrow> Inr (True, n)
      | Some val \<Rightarrow> bindr (atoi val) (\<lambda>v. case begin_thread ''ShutdownRequestThread'' v n of (h, n1) \<Rightarrow> Inr (h \<noteq> - 1, n1))) = Inr (ok, n1)"
    and b: "(if ok \<and> acceptMutex n1 = INVALID_HANDLE_VALUE then
           (case getenv MUTEX_VARNAME env of None \<Rightarrow> Inr (ok, n1) | Some val \<Rightarrow> bindr (atoi val) (\<lambda>v. Inr (ok, n1\<lparr>acceptMutex := v\<rparr>)))
         else Inr (ok, n1)) = Inr r"
    using assms unfolding init_environment_def bindr_Inr_iff by auto
  have "fdTable n1 = fdTable n \<and> wLibInitialized n1 = wLibInitialized n"
  proof (cases "getenv SHUTDOWN_EVENT_NAME env")
    case None
    then show ?thesis using a by simp
  next
    case (Some val)
    then obtain v where "n1 = snd (begin_thread ''ShutdownRequestThread'' v n)" using a by (auto simp: bindr_Inr_iff split_beta)
    then show ?thesis by (simp add: begin_thread_def split_beta)
  qed
  moreover have "snd r = n1 \<or> (\<exists>v. snd r = n1\<lparr>acceptMutex := v\<rparr>)"
  proof (cases "ok \<and> acceptMutex n1 = INVALID_HANDLE_VALUE")
    case True
    then show ?thesis using b by (cases "getenv MUTEX_VARNAME env") (auto simp: bindr_Inr_iff)
  next
    case False
    then show ?thesis using b by auto
  qed
  ultimately show ?thesis by auto
qed

lemma init_stdin_thread_frame:
  assumes "init_stdin_thread env n = Inr r"
  shows "fdTable (snd r) = fdTable n \<and> wLibInitialized (snd r) = wLibInitialized n"
proof -
  define m where "m = (if hStdinCompPort n = INVALID_HANDLE_VALUE
            then case create_port n of (h, n1) \<Rightarrow> (h \<noteq> INVALID_HANDLE_VALUE, n1\<lparr>hStdinCompPort := h\<rparr>) else (True, n))"
  have m: "fdTable (snd m) = fdTable n" "wLibInitialized (snd m) = wLibInitialized n" by (simp_all add: m_def create_port_def split_beta)
  have "snd r = snd m \<or> (\<exists>h. snd r = (snd (begin_thread ''StdinThread'' 0 (snd m)))\<lparr>hStdinThread := h\<rparr>)"
    using assms unfolding init_stdin_thread_def m_def [symmetric]
    by (cases "fst m") (auto simp: bindr_Inr_iff split_beta split: if_splits)
  then show ?thesis using m by (auto simp: begin_thread_def split_beta)
qed

lemma stdin_taken_new: "stdin_taken n \<Longrightarrow> stdin_taken (snd (Win32NewDescriptor ty fd want n))"
  using Win32NewDescriptor_fresh(1,2) [of n ty fd want "fst (Win32NewDescriptor ty fd want n)" "snd (Win32NewDescriptor ty fd want n)"]
  by (cases "fst (Win32NewDescriptor ty fd want n) = - 1")
    (auto simp: stdin_taken_def fd_ok_def WIN32_OPEN_MAX_def Win32NewDescriptor_def set_fd_def Let_def)

lemma init_output_keeps: "init_output i n = Inr (Win (ok, n')) \<Longrightarrow> stdin_taken n \<Longrightarrow> stdin_taken n'"
  using stdin_taken_new [of "snd (get_std i n)" FD_PIPE_SYNC] stdin_taken_same [OF get_std_frame, of i n]
  by (auto simp: init_output_def init_stdio_def wexit_def split_beta split: if_splits)

lemma init_stdio_fds_takes:
  assumes "init_stdio_fds env n = Inr (Win (0, n'))" "full_table n" "\<not> wLibInitialized n"
  shows "stdin_taken n'"
proof -
  define n1 where "n1 = snd (get_std 0 n)"
  define fd n2 where "fd = fst (init_stdio 0 n1)" and "n2 = snd (init_stdio 0 n1)"
  have d: "Win32NewDescriptor FD_PIPE_SYNC (stdioHandles n1 0) 0 n1 = (fd, n2)" by (simp add: fd_def n2_def init_stdio_def)
  have n1: "full_table n1" "\<not> wLibInitialized n1" using assms(2,3) get_std_frame [of 0 n] by (simp_all add: n1_def full_table_def)
  have fd: "fd \<noteq> - 1" using assms(1) by (auto simp: init_stdio_fds_def fd_def n1_def split_beta)
  have "fd = 0" using d fd by (auto simp: Win32NewDescriptor_def new_index_def fd_ok_def WIN32_OPEN_MAX_def Let_def split: if_splits)
  moreover have "wLibInitialized n2 = wLibInitialized n1" using d by (auto simp: Win32NewDescriptor_def set_fd_def Let_def split: if_splits)
  ultimately have t2: "stdin_taken n2"
    using Win32NewDescriptor_fresh(1) [OF n1(1) d fd] n1(2) by (simp add: stdin_taken_def)
  obtain ok n3 where s: "init_stdin_thread env n2 = Inr (ok, n3)"
    using assms(1) fd by (auto simp: init_stdio_fds_def fd_def n2_def n1_def split_beta bindr_Inr_iff)
  have t3: "stdin_taken n3" using t2 init_stdin_thread_frame [OF s] stdin_taken_same [of n3 n2] by simp
  have r: "(if \<not> ok then Inr (Win (- 1, n3)) else bindw (init_output 1 n3) (\<lambda>(ok1, n4).
            if \<not> ok1 then Inr (Win (- 1, n4)) else bindw (init_output 2 n4) (\<lambda>(ok2, n5). Inr (Win (if ok2 then 0 else - 1, n5))))) = Inr (Win (0 :: int, n'))"
    using assms(1) fd s by (simp add: init_stdio_fds_def fd_def n2_def n1_def split_beta split: if_splits)
  then obtain n4 where o4: "init_output 1 n3 = Inr (Win (True, n4))"
    "bindw (init_output 2 n4) (\<lambda>(ok2, n5). Inr (Win (if ok2 then 0 else - 1, n5))) = Inr (Win (0 :: int, n'))"
    by (auto simp: bindw_Win split: if_splits)
  then obtain ok2 where "init_output 2 n4 = Inr (Win (ok2, n'))" by (auto simp: bindw_Win)
  from init_output_keeps [OF this init_output_keeps [OF o4(1) t3]] show ?thesis .
qed


lemma init_stdio_fds_refused: "stdin_taken n \<Longrightarrow> \<exists>n'. init_stdio_fds env n = Inr (Win (- 1, n'))"
  using get_std_frame [of 0 n]
  by (auto simp: init_stdio_fds_def init_stdio_def Win32NewDescriptor_def new_index_def fd_ok_def WIN32_OPEN_MAX_def stdin_taken_def fd_at_def
    split_beta Let_def)

definition init_rest :: "byte list list \<Rightarrow> bool \<Rightarrow> win \<Rightarrow> (int \<times> win) wproc res" where
  "init_rest env stdio n = (if \<not> stdio then Inr (Win (0, n\<lparr>wLibInitialized := True\<rparr>)) else init_stdio_fds env n)"

lemma LibInit_rest:
  assumes "OS_LibInit_w32 env stdio n = Inr (Win (rc, n'))" "\<not> wLibInitialized n"
  shows "rc = - 1 \<or> (\<exists>m. fdTable m = fdTable n \<and> \<not> wLibInitialized m \<and> init_rest env stdio m = Inr (Win (rc, n')))"
proof -
  define n1 where "n1 = snd (api (WAPI ''WSAStartup'' 2) n)"
  define n2 where "n2 = snd (init_port n1)"
  have n2: "fdTable n2 = fdTable n" "\<not> wLibInitialized n2" using assms(2) by (simp_all add: n1_def n2_def init_port_frame)
  have a: "(if \<not> fst (init_port n1) then Inr (Win (- 1, wmessage ''OS_LibInit Failed CreateIoCompletionPort'' n2))
      else bindr (init_environment env n2) (\<lambda>(ok2, n3).
            if \<not> ok2 then Inr (Win (- 1, n3))
            else case init_listener n3 of (ok3, n4) \<Rightarrow>
              if \<not> ok3 then Inr (Win (- 1, n4)) else init_rest env stdio n4)) = Inr (Win (rc, n'))"
    using assms unfolding OS_LibInit_w32_def n2_def n1_def init_rest_def
    by (cases "api (WAPI ''WSAStartup'' 2) n") (simp add: wexit_def split_beta split: if_splits)
  show ?thesis
  proof (cases "fst (init_port n1)")
    case True
    then obtain ok2 n3 where e: "init_environment env n2 = Inr (ok2, n3)"
      "(if \<not> ok2 then Inr (Win (- 1, n3)) else case init_listener n3 of (ok3, n4) \<Rightarrow>
              if \<not> ok3 then Inr (Win (- 1, n4)) else init_rest env stdio n4) = Inr (Win (rc, n'))"
      using a by (auto simp: bindr_Inr_iff)
    have n4: "fdTable (snd (init_listener n3)) = fdTable n" "\<not> wLibInitialized (snd (init_listener n3))"
      using init_environment_frame [OF e(1)] n2 by (simp_all add: init_listener_frame)
    show ?thesis
    proof (cases "ok2 \<and> fst (init_listener n3)")
      case True
      then have "init_rest env stdio (snd (init_listener n3)) = Inr (Win (rc, n'))" using e(2) by (simp add: split_beta)
      then show ?thesis using n4 by blast
    next
      case False
      then show ?thesis using e(2) by (auto simp: split_beta split: if_splits)
    qed
  next
    case False
    then show ?thesis using a by simp
  qed
qed

theorem w32_init_twice:
  assumes "OS_LibInit_w32 env True n = Inr (Win (0, n1))" "full_table n" "\<not> wLibInitialized n"
    "OS_LibInit_w32 env' True (n1\<lparr>wScript := es\<rparr>) = Inr (Win (rc, n2))"
  shows "rc = - 1"
proof -
  obtain m where m: "fdTable m = fdTable n" "\<not> wLibInitialized m" "init_stdio_fds env m = Inr (Win (0, n1))"
    using LibInit_rest [OF assms(1,3)] by (auto simp: init_rest_def)
  have t: "stdin_taken n1" using init_stdio_fds_takes [OF m(3) _ m(2)] assms(2) m(1) by (simp add: full_table_def)
  then have "\<not> wLibInitialized (n1\<lparr>wScript := es\<rparr>)" by (simp add: stdin_taken_def)
  from LibInit_rest [OF assms(4) this] show ?thesis
  proof
    assume "\<exists>k. fdTable k = fdTable (n1\<lparr>wScript := es\<rparr>) \<and> \<not> wLibInitialized k \<and> init_rest env' True k = Inr (Win (rc, n2))"
    then obtain k where k: "fdTable k = fdTable n1" "\<not> wLibInitialized k" "init_stdio_fds env' k = Inr (Win (rc, n2))"
      by (auto simp: init_rest_def)
    have "stdin_taken k" using t k(1,2) by (simp add: stdin_taken_def full_table_def fd_at_def)
    from init_stdio_fds_refused [OF this, of env'] k(3) show ?thesis by auto
  qed
qed

end
