(* ===== verification/Spec2Isabelle.thy ===== *)
theory Spec2Isabelle
  imports Fcgi_Request_Correct Fcgi_Reader_Equation Fcgi_Reader_Safe Fcgi_Printf_Correct Fcgi_Stdio_Properties Fcgi_Cgi_Correct Fcgi_Main_Correct Fcgi_Io_Correct Fcgi_Strerror Fcgi_Win32_Correct
begin

text \<open>
  A model of the FastCGI development kit: the application library (\<open>src/libfcgi/fcgiapp.c\<close>), its Unix and
  Windows layers (\<open>src/libfcgi/os_unix.c\<close>, \<open>src/libfcgi/os_win32.c\<close>), the stdio wrappers (\<open>src/libfcgi/fcgi_stdio.c\<close>), the C++
  streams (\<open>src/libfcgi/fcgio.cpp\<close>), the replacement of \<open>strerror\<close> (\<open>src/libfcgi/strerror.c\<close>) and the CGI-to-FastCGI program
  (\<open>src/cgi-fcgi/cgi-fcgi.c\<close>), with the record format of \<open>src/include/fastcgi.h\<close>.

  \<^bold>\<open>The program.\<close> A web server talks to an application over a connection on which it sends records (an eight-byte header, content,
  padding). The application accepts a request (\<open>FCGX_Accept_r\<close>), reads its environment and its input through a stream, writes its output and error
  streams and finishes the request (\<open>FCGX_Finish_r\<close>). A stream is a buffer with a procedure that fills it (\<open>FillBuffProc\<close>: strip the records of
  their headers and padding) or empties it (\<open>EmptyBuffProc\<close>: add them). \<open>fcgi_stdio.c\<close> gives an application the names of \<open>stdio.h\<close> over
  the files of a CGI process or the streams of a request; \<open>fcgio.cpp\<close> puts a \<open>std::streambuf\<close> over a stream. \<open>cgi-fcgi\<close> is the other end: started as a CGI program it sends its environment and input
  to an application as records and relays the answer, on top of the event loop of \<open>os_unix.c\<close>. It can also start the application with a listening socket as its
  descriptor 0. \<open>os_win32.c\<close> has the same functions as \<open>os_unix.c\<close> for Windows, with handles behind a table of small numbers.

  \<^bold>\<open>Conventions.\<close> One definition per C function, with the name it has there (and the suffix \<open>_w32\<close> where both layers have it); pieces of long functions have names of their own. A function that returns
  normally is \<open>Inr\<close>; a failed assertion, an access outside an object, a call that waits for ever, a loop that does not end and undefined
  behaviour are \<open>Inl\<close> of a \<open>fault\<close> (\<open>Fcgi_Prelude\<close>). Errors the code reports are ordinary values. A C \<open>int\<close> is an
  \<open>int\<close>; where its width matters the comparison or the wrap-around is written out (\<open>ReadLength\<close>, \<open>AlignInt8\<close>, the conversions of
  the formatter), bytes and IPv4 addresses are words; \<open>abs\<close> of the least \<open>int\<close> is that of two's complement. The kernel is data of the state: scripts that say what each \<open>read\<close>, \<open>write\<close>,
  \<open>accept\<close>, \<open>poll\<close> does, so that a theorem holds for every behaviour of it. Scripts are finite: behind the end of its script a \<open>read\<close> or
  \<open>accept\<close> waits for ever (\<open>Blocked\<close>), and a \<open>write\<close> takes everything, so that a kernel that takes nothing for ever is not among those considered.
  The calls that make sockets and processes, and those of the Windows API, are logged with their arguments.

  \<^bold>\<open>Theories and code.\<close>
  \<^item> \<open>Fcgi_Wire\<close>: \<open>fastcgi.h\<close>, error codes of \<open>fcgiapp.h\<close>, \<open>MakeHeader\<close>, \<open>MakeEndRequestBody\<close>,
    \<open>MakeUnknownTypeBody\<close>, \<open>AlignInt8\<close>, \<open>AlignPtr8\<close>. Headers decode to what they were built from.
  \<^item> \<open>Fcgi_Os\<close>: \<open>OS_Read\<close>, \<open>OS_Write\<close> and \<open>write_it_all\<close>; the state of the process (\<open>os\<close>). \<open>write_it_all\<close> ends and sends
    everything or a prefix.
  \<^item> \<open>Fcgi_Stream\<close>: \<open>FCGX_Stream\<close> and the client functions (\<open>FCGX_GetChar\<close> to \<open>FCGX_FClose\<close>), over a fill or empty
    procedure given as an argument. The locales \<open>byte_source\<close> and \<open>byte_sink\<close> state what the clients rely on; lines, strings and
    characters are derived in them.
  \<^item> \<open>Fcgi_Params\<close>: \<open>Params\<close>, \<open>PutParam\<close>, \<open>FCGX_GetParam\<close>, \<open>ReadParams\<close>. The vector is an
    association list.
  \<^item> \<open>Fcgi_Reader\<close>, \<open>Fcgi_Reader_Correct\<close>, \<open>Fcgi_Reader_Equation\<close>: \<open>ProcessManagementRecord\<close>, \<open>ProcessBeginRecord\<close>,
    \<open>ProcessHeader\<close>, \<open>FillBuffProc\<close>, \<open>SetReaderType\<close>. On well-formed input the reader delivers what \<open>records\<close> says, however the input is cut into
    reads: the content of its stream past records of other requests, but not the content of a record behind an empty record of another request, which
    the code drops. The staged definition satisfies the mutually recursive equation of the source.
  \<^item> \<open>Fcgi_Management\<close>: queries for limits between requests (the reply is that of the table \<open>limit_values\<close>), the overflow of the reply, unknown
    record types.
  \<^item> \<open>Fcgi_Total\<close>, \<open>Fcgi_Reader_Safe\<close>: the reader on arbitrary input; every call returns, and the overflow above is the only fault.
  \<^item> \<open>Fcgi_Writer\<close>, \<open>Fcgi_Writer_Correct\<close>, \<open>Fcgi_Exchange\<close>: \<open>EmptyBuffProc\<close>, \<open>WriteCloseRecords\<close>, \<open>NewStream\<close>. What is sent
    is a framing (\<open>framed\<close>) of what was written; a reader of the same stream reads it back.
  \<^item> \<open>Fcgi_Printf\<close>, \<open>Fcgi_Printf_Bounds\<close>, \<open>Fcgi_Printf_Correct\<close>: \<open>FCGX_FPrintF\<close> and \<open>FCGX_VFPrintF\<close>. What plain conversions
    print, the sizes of the buffers, and the widths and long doubles that overflow them. \<open>libc_ok\<close> is what is relied on of the C library: how long
    its texts are, and that the conversion of a \<open>long double\<close> to \<open>double\<close> does not lower the exponent within the range of \<open>double\<close>;
    \<open>sample_libc\<close> is a library on whole numbers that has these laws.
  \<^item> \<open>Fcgi_Request\<close>, \<open>Fcgi_Request_Correct\<close>: \<open>FCGX_Request\<close>, \<open>FCGX_Accept_r\<close>, \<open>FCGX_Finish_r\<close>, \<open>FCGX_Free\<close> and the
    functions on the library's own request. A request from accept to finish.
  \<^item> \<open>Fcgi_Accept\<close>, \<open>Fcgi_Accept_Correct\<close>: \<open>OS_Accept\<close>, \<open>ClientAddrOK\<close>, \<open>is_af_unix_keeper\<close>. Only approved
    clients are returned; when it returns.
  \<^item> \<open>Fcgi_Async\<close>, \<open>Fcgi_DoIo\<close>: \<open>OS_LibInit\<close>, \<open>OS_AsyncRead\<close>, \<open>OS_AsyncWrite\<close>, \<open>OS_Close\<close>, \<open>OS_DoIo\<close>; the invariant of
    the table (\<open>aio_ok\<close>). The locale of event handlers turns an invariant of the handlers into one of the event loop.
  \<^item> \<open>Fcgi_Stdio\<close>, \<open>Fcgi_Stdio_Correct\<close>, \<open>Fcgi_Stdio_Properties\<close>: the wrappers, over a small model of the C library's files. The
    locale \<open>std_streams\<close> has files and streams as instances, so that nine of the calls give the same replies on both. \<open>FCGI_fputs\<close> and \<open>FCGI_feof\<close>
    do not.
  \<^item> \<open>Fcgi_Cgi\<close>, \<open>Fcgi_Relay\<close>, \<open>Fcgi_Bridge\<close>, \<open>Fcgi_Cgi_Correct\<close>: \<open>cgi-fcgi\<close>. Its handlers, the comparison of
    \<open>AppServerReadHandler\<close> with a machine that reads one byte at a time, the invariant of the running program, and the request it sends, which
    \<open>FCGX_Accept_r\<close> accepts with the same environment and input. When it leaves by \<open>exit\<close>, \<open>bridge_exit\<close> says what has been sent and relayed and
    which code it leaves with; \<open>kernel_errors\<close> are the errors the kernel may report, \<open>bridge_faults\<close> the out-of-bounds accesses that the way the
    data arrive can lead to.

  \<^item> \<open>Fcgi_Socket\<close>, \<open>Fcgi_Socket_Correct\<close>: the other half of \<open>os_unix.c\<close>, \<open>OS_CreateLocalIpcFd\<close>, \<open>OS_FcgiConnect\<close>,
    \<open>OS_BuildSockAddrUn\<close>, \<open>OS_SpawnChild\<close>, the signal handlers. Server and client of a bind path name the same socket; what the port in it
    stands for; the descriptors of a started program.
  \<^item> \<open>Fcgi_Main\<close>, \<open>Fcgi_Main_Correct\<close>: \<open>ParseArgs\<close>, \<open>FCGI_Start\<close> and \<open>main\<close> of \<open>cgi-fcgi.c\<close>. A command file means the
    command line of its words; the program as a whole relays, or is killed by its own signal when it only starts servers.
  \<^item> \<open>Fcgi_Io\<close>, \<open>Fcgi_Io_Correct\<close>: \<open>fcgi_streambuf\<close>, with the functions of \<open>std::streambuf\<close> that C++ streams call. With or
    without a buffer the characters put in are those sent, and those of the stream are read; \<open>byte_source\<close> and \<open>byte_sink\<close> carry the proofs.
  \<^item> \<open>Fcgi_Strerror\<close>: the text of an unknown error, and the digits left over from the one before.
  \<^item> \<open>Fcgi_Win32\<close>, \<open>Fcgi_Win32_Correct\<close>: every function of \<open>os_win32.c\<close>: the table of descriptors, asynchronous requests and their
    completion port, named pipes and sockets, \<open>OS_LibInit\<close>. New descriptors are free ones, clients that are let in are listed; where
    connecting, accepting on a pipe, stale completions and initialising twice go wrong.

  \<^bold>\<open>Fuel.\<close> Loops that structural recursion does not cover count iterations. \<open>FillBuffLoop\<close> has one more than there are unread bytes: an
  iteration that does not return consumes one. \<open>GetStr_loop\<close> has two more than there are unread bytes and \<open>PutStr_loop\<close> two more than
  there are bytes to write: every iteration after the first moves one. \<open>ReadParams_loop\<close> consumes a byte per pair; the loop of
  \<open>AppServerReadHandler\<close> a buffered byte, the loop over a format two characters. \<open>ParseArgs\<close> counts how deep command
  files name command files; \<open>OS_DoIo\<close> on Windows is followed for as many readings of the clock as it is given. That the fuel is enough is part of the theorems: \<open>NoReturn\<close> is
  excluded by every theorem that gives a result, and on arbitrary input by \<open>reader_well_typed\<close>. \<open>write_it_all\<close> and the address check have
  proofs of termination; \<open>OS_Accept\<close> can loop for ever, which is a theorem.

  \<^bold>\<open>Not modelled.\<close> Failure of \<open>malloc\<close> in the library (the code does not check it either); \<open>USE_LOCKING\<close> and the critical
  sections of \<open>os_win32.c\<close>; floating-point and pointer text of \<open>sprintf\<close>, which the C standard leaves open and which is a parameter
  (\<open>libc\<close>); the texts of messages; \<open>gethostbyname\<close>, a parameter; the security descriptor of a Windows pipe; the variant of \<open>acceptSocket\<close> compiled with
  \<open>NO_WSAACEPT\<close>. The Perl and Java bindings and
  the example programs, which only use the library, are left out, as are the headers that only declare.
\<close>

end
